(* ===== verification/Prelude.thy ===== *)
theory Prelude
  imports Main "HOL-Library.Word" "HOL-Library.Monad_Syntax"
begin

text \<open>
  The vocabulary every component shares.  Go's fixed-width integers are words
  (\<open>u16\<close>, \<open>u32\<close>, \<open>u64\<close>, and \<open>byte\<close> for \<open>uint8\<close>), a byte
  slice is the list of its elements, and an \<open>int\<close> that is a length is a \<open>nat\<close>.
  A Go function that can return an error or panic has the result type \<open>exec\<close>:
  \<open>Ret\<close> for an ordinary return, \<open>Fail\<close> for a non-nil error, \<open>Panic\<close> for a
  run-time panic.  The theory also holds the big-endian codecs of
  \<open>encoding/binary\<close>, bytewise exclusive or (\<open>crypto/subtle.XORBytes\<close>), and the
  generic lemmas on lists and words that the component theories use, collected in
  \<open>wire_simps\<close> (codecs), \<open>xor_simps\<close> (exclusive or) and \<open>exec_simps\<close> (results).
\<close>

unbundle bit_operations_syntax

named_theorems wire_simps
named_theorems xor_simps
named_theorems exec_simps

section \<open>Types\<close>

type_synonym byte = "8 word"
type_synonym bytes = "byte list"
type_synonym u16 = "16 word"
type_synonym u32 = "32 word"
type_synonym u64 = "64 word"

text \<open>Error values.  An \<open>alert\<close> is itself a Go error (\<open>alert.go\<close>).\<close>

datatype err =
    ErrMsg string        \<comment> \<open>\<open>errors.New\<close> and \<open>fmt.Errorf\<close>\<close>
  | ErrAlert byte        \<comment> \<open>an \<open>alert\<close> returned as an error\<close>
  | KeySizeError nat     \<comment> \<open>\<open>aes.KeySizeError\<close>\<close>
  | ErrEOF               \<comment> \<open>\<open>io.EOF\<close>\<close>
  | ErrUnexpectedEOF     \<comment> \<open>\<open>io.ErrUnexpectedEOF\<close>\<close>
  | NetError string bool \<comment> \<open>a \<open>net.Error\<close> of the transport, and whether it is \<open>Temporary\<close>\<close>
  | OpError string byte  \<comment> \<open>\<open>&net.OpError{Op, Err: alert}\<close>\<close>
  | PermanentError err   \<comment> \<open>\<open>permanentError\<close> of \<open>conn.go\<close>\<close>
  | RecordHeaderError string bytes bool  \<comment> \<open>\<open>RecordHeaderError\<close>, and whether \<open>Conn\<close> is set\<close>

datatype 'a exec = Ret 'a | Fail err | Panic string

primrec exec_bind :: "'a exec \<Rightarrow> ('a \<Rightarrow> 'b exec) \<Rightarrow> 'b exec" where
  "exec_bind (Ret x) f = f x"
| "exec_bind (Fail e) f = Fail e"
| "exec_bind (Panic p) f = Panic p"

lemma exec_bind_Ret_iff [exec_simps]:
  "exec_bind m f = Ret y \<longleftrightarrow> (\<exists>x. m = Ret x \<and> f x = Ret y)"
  by (cases m) auto

lemma exec_bind_assoc [exec_simps]:
  "exec_bind (exec_bind m f) g = exec_bind m (\<lambda>x. exec_bind (f x) g)"
  by (cases m) auto

section \<open>Big-endian integers\<close>

lemma unat_bound: "unat (w :: 'a :: len word) < 2 ^ LENGTH('a)"
  by (rule unsigned_less)

text \<open>
  \<open>put_be n v\<close> is the \<open>n\<close>-byte big-endian encoding of \<open>v\<close>, truncated to \<open>n\<close> bytes
  as Go's conversions \<open>byte(v >> 8)\<close>, \<open>byte(v)\<close> truncate; \<open>get_be\<close> reads a byte
  string as a number.
\<close>

primrec put_be :: "nat \<Rightarrow> nat \<Rightarrow> bytes" where
  "put_be 0 v = []"
| "put_be (Suc n) v = put_be n (v div 256) @ [of_nat v]"

definition get_be :: "bytes \<Rightarrow> nat" where
  "get_be bs = foldl (\<lambda>acc b. acc * 256 + unat b) 0 bs"

definition put_u16 :: "u16 \<Rightarrow> bytes" where "put_u16 w = put_be 2 (unat w)"
definition put_u32 :: "u32 \<Rightarrow> bytes" where "put_u32 w = put_be 4 (unat w)"
definition put_u64 :: "u64 \<Rightarrow> bytes" where "put_u64 w = put_be 8 (unat w)"

definition get_u16 :: "bytes \<Rightarrow> u16" where "get_u16 bs = of_nat (get_be bs)"
definition get_u32 :: "bytes \<Rightarrow> u32" where "get_u32 bs = of_nat (get_be bs)"
definition get_u64 :: "bytes \<Rightarrow> u64" where "get_u64 bs = of_nat (get_be bs)"

lemma length_put_be [simp, wire_simps]: "length (put_be n v) = n"
  by (induction n arbitrary: v) auto

lemma length_put_u [simp, wire_simps]:
  "length (put_u16 w) = 2" "length (put_u32 x) = 4" "length (put_u64 y) = 8"
  by (simp_all add: put_u16_def put_u32_def put_u64_def)

lemma get_be_Nil [simp]: "get_be [] = 0"
  by (simp add: get_be_def)

lemma get_be_snoc [simp]: "get_be (bs @ [b]) = get_be bs * 256 + unat b"
  by (simp add: get_be_def)

lemma get_be_less: "get_be bs < 256 ^ length bs"
proof (induction bs rule: rev_induct)
  case (snoc b bs)
  have "unat b < 256"
    using unat_bound [of b] by simp
  with snoc show ?case
    by simp
qed simp

lemma get_be_put_be [simp, wire_simps]: "get_be (put_be n v) = v mod 256 ^ n"
proof (induction n arbitrary: v)
  case (Suc n)
  have "unat (of_nat v :: byte) = v mod 256"
    by (simp add: unat_of_nat)
  with Suc show ?case
    by (simp add: mod_mult2_eq mult.commute)
qed simp

lemma put_be_get_be [simp, wire_simps]: "length bs = n \<Longrightarrow> put_be n (get_be bs) = bs"
proof (induction n arbitrary: bs)
  case (Suc n)
  then obtain cs c where bs: "bs = cs @ [c]" and len: "length cs = n"
    by (metis length_Suc_conv_rev)
  have "unat c < 256"
    using unat_bound [of c] by simp
  then have "(get_be cs * 256 + unat c) div 256 = get_be cs"
    by simp
  moreover have "(of_nat (get_be cs * 256 + unat c) :: byte) = c"
  proof (rule word_unat_eq_iff [THEN iffD2])
    show "unat (of_nat (get_be cs * 256 + unat c) :: byte) = unat c"
      using \<open>unat c < 256\<close> by (simp only: unat_of_nat) simp
  qed
  ultimately show ?case
    using Suc.IH [OF len] by (simp add: bs)
qed simp

lemma get_put_u [simp, wire_simps]:
  "get_u16 (put_u16 w) = w" "get_u32 (put_u32 x) = x" "get_u64 (put_u64 y) = y"
proof -
  have "unat w < 256 ^ 2" "unat x < 256 ^ 4" "unat y < 256 ^ 8"
    using unat_bound [of w] unat_bound [of x] unat_bound [of y] by simp_all
  then show "get_u16 (put_u16 w) = w" "get_u32 (put_u32 x) = x" "get_u64 (put_u64 y) = y"
    by (simp_all add: get_u16_def put_u16_def get_u32_def put_u32_def get_u64_def put_u64_def)
qed

lemma unat_get_u:
  "length bs = 2 \<Longrightarrow> unat (get_u16 bs) = get_be bs"
  "length cs = 4 \<Longrightarrow> unat (get_u32 cs) = get_be cs"
  "length ds = 8 \<Longrightarrow> unat (get_u64 ds) = get_be ds"
  using get_be_less [of bs] get_be_less [of cs] get_be_less [of ds]
  by (simp_all add: get_u16_def get_u32_def get_u64_def unat_of_nat)

lemma put_get_u [simp, wire_simps]:
  "length bs = 2 \<Longrightarrow> put_u16 (get_u16 bs) = bs"
  "length cs = 4 \<Longrightarrow> put_u32 (get_u32 cs) = cs"
  "length ds = 8 \<Longrightarrow> put_u64 (get_u64 ds) = ds"
  by (simp_all add: put_u16_def put_u32_def put_u64_def unat_get_u)

lemma put_be_inj:
  assumes "put_be n v = put_be n w" "v < 256 ^ n" "w < 256 ^ n"
  shows "v = w"
proof -
  have "get_be (put_be n v) = get_be (put_be n w)"
    using assms(1) by simp
  then show ?thesis
    using assms(2,3) by simp
qed

section \<open>Exclusive or on byte strings\<close>

definition xor_bytes :: "bytes \<Rightarrow> bytes \<Rightarrow> bytes" where
  "xor_bytes xs ys = map2 (XOR) xs ys"

lemma length_xor_bytes [simp]: "length (xor_bytes xs ys) = min (length xs) (length ys)"
  by (simp add: xor_bytes_def)

lemma nth_xor_bytes:
  "i < length xs \<Longrightarrow> i < length ys \<Longrightarrow> xor_bytes xs ys ! i = xs ! i XOR ys ! i"
  by (simp add: xor_bytes_def)

lemma xor_bytes_cancel [simp, xor_simps]:
  "length xs \<le> length ks \<Longrightarrow> xor_bytes (xor_bytes xs ks) ks = xs"
  by (rule nth_equalityI) (simp_all add: nth_xor_bytes xor.assoc)

lemma xor_self_left [simp, xor_simps]: "(x :: 'a :: len word) XOR (x XOR y) = y"
  by (simp add: xor.assoc [symmetric])

lemma bit_byte_append:
  assumes "x < 256"
  shows "bit (a * 256 + x :: nat) n \<longleftrightarrow> (if n < 8 then bit x n else bit a (n - 8))"
proof -
  have x: "take_bit 8 x = x"
    using assms by (simp add: take_bit_nat_eq_self)
  have below: "bit x n \<Longrightarrow> n < 8" for n
    using x by (metis bit_take_bit_iff)
  then have "\<not> bit (push_bit 8 a) n \<or> \<not> bit x n" for n
    by (fastforce simp: bit_push_bit_iff)
  then have "push_bit 8 a + x = push_bit 8 a OR x"
    by (rule disjunctive_add)
  then have "a * 256 + x = push_bit 8 a OR x"
    by (simp add: push_bit_eq_mult)
  with below show ?thesis
    by (auto simp: bit_or_iff bit_push_bit_iff)
qed

lemma get_be_xor:
  "length xs = length ys \<Longrightarrow> get_be (xor_bytes xs ys) = get_be xs XOR get_be ys"
proof (induction xs arbitrary: ys rule: rev_induct)
  case (snoc x xs)
  then obtain zs y where ys: "ys = zs @ [y]" and len: "length xs = length zs"
    by (metis length_append_singleton length_Suc_conv_rev)
  have small: "unat b < 256" for b :: byte
    using unat_bound [of b] by simp
  have "get_be (xor_bytes (xs @ [x]) ys) = (get_be xs XOR get_be zs) * 256 + unat (x XOR y)"
    using snoc.IH [OF len] len by (simp add: xor_bytes_def ys)
  also have "\<dots> = (get_be xs * 256 + unat x) XOR (get_be zs * 256 + unat y)"
  proof (rule bit_eqI)
    fix n
    show "bit ((get_be xs XOR get_be zs) * 256 + unat (x XOR y)) n =
        bit ((get_be xs * 256 + unat x) XOR (get_be zs * 256 + unat y)) n"
      by (simp only: bit_byte_append [OF small] bit_xor_iff split: if_split)
        (simp add: bit_xor_iff unsigned_xor_eq)
  qed
  finally show ?case
    by (simp add: ys)
qed (simp add: xor_bytes_def)

lemma get_u64_xor:
  assumes "length xs = 8" "length ys = 8"
  shows "get_u64 (xor_bytes xs ys) = get_u64 xs XOR get_u64 ys"
proof (rule word_unat_eq_iff [THEN iffD2])
  have "length (xor_bytes xs ys) = 8"
    using assms by simp
  then show "unat (get_u64 (xor_bytes xs ys)) = unat (get_u64 xs XOR get_u64 ys)"
    using assms by (simp add: unat_get_u unsigned_xor_eq get_be_xor)
qed

section \<open>List facts\<close>

text \<open>The elements a Go \<open>copy(dst, src)\<close> leaves in \<open>dst\<close>.\<close>

definition go_copy :: "'a list \<Rightarrow> 'a list \<Rightarrow> 'a list" where
  "go_copy dst src = take (length dst) src @ drop (length src) dst"

lemma length_go_copy [simp]: "length (go_copy dst src) = length dst"
  by (simp add: go_copy_def)

lemma go_copy_same [simp]: "length dst = length src \<Longrightarrow> go_copy dst src = src"
  by (simp add: go_copy_def)

lemma go_copy_short: "length src \<le> length dst \<Longrightarrow> go_copy dst src = src @ drop (length src) dst"
  by (simp add: go_copy_def)

lemma go_copy_idem [simp]: "go_copy (go_copy dst src) src = go_copy dst src"
  by (cases "length src \<le> length dst") (simp_all add: go_copy_def)

end
