(* ===== verification/Constants.thy ===== *)
theory Constants
  imports Prelude
begin

text \<open>
  The wire constants of \<open>common.go\<close>: versions, record and handshake types, extension
  numbers, groups and signature schemes, each with the value the source gives it, and
  the two small structures that travel in a ClientHello.
\<close>

section \<open>Constants\<close>

text \<open>Protocol versions.\<close>

definition VersionTLS10 :: u16 where "VersionTLS10 = 0x0301"
definition VersionTLS11 :: u16 where "VersionTLS11 = 0x0302"
definition VersionTLS12 :: u16 where "VersionTLS12 = 0x0303"
definition VersionTLS13 :: u16 where "VersionTLS13 = 0x0304"
definition VersionSSL30 :: u16 where "VersionSSL30 = 0x0300"

lemmas version_ids =
  VersionTLS10_def
  VersionTLS11_def
  VersionTLS12_def
  VersionTLS13_def
  VersionSSL30_def

text \<open>Sizes.\<close>

definition maxPlaintext :: nat where "maxPlaintext = 16384"
definition maxCiphertext :: nat where "maxCiphertext = 16384 + 2048"
definition maxCiphertextTLS13 :: nat where "maxCiphertextTLS13 = 16384 + 256"
definition recordHeaderLen :: nat where "recordHeaderLen = 5"
definition maxHandshake :: nat where "maxHandshake = 65536"
definition maxHandshakeCertificateMsg :: nat where "maxHandshakeCertificateMsg = 262144"
definition maxUselessRecords :: nat where "maxUselessRecords = 16"

lemmas size_limits =
  maxPlaintext_def
  maxCiphertext_def
  maxCiphertextTLS13_def
  recordHeaderLen_def
  maxHandshake_def
  maxHandshakeCertificateMsg_def
  maxUselessRecords_def

text \<open>Record types.\<close>

definition recordTypeChangeCipherSpec :: byte where "recordTypeChangeCipherSpec = 20"
definition recordTypeAlert :: byte where "recordTypeAlert = 21"
definition recordTypeHandshake :: byte where "recordTypeHandshake = 22"
definition recordTypeApplicationData :: byte where "recordTypeApplicationData = 23"

lemmas record_types =
  recordTypeChangeCipherSpec_def
  recordTypeAlert_def
  recordTypeHandshake_def
  recordTypeApplicationData_def

text \<open>Handshake message types.\<close>

definition typeHelloRequest :: byte where "typeHelloRequest = 0"
definition typeClientHello :: byte where "typeClientHello = 1"
definition typeServerHello :: byte where "typeServerHello = 2"
definition typeNewSessionTicket :: byte where "typeNewSessionTicket = 4"
definition typeEndOfEarlyData :: byte where "typeEndOfEarlyData = 5"
definition typeEncryptedExtensions :: byte where "typeEncryptedExtensions = 8"
definition typeCertificate :: byte where "typeCertificate = 11"
definition typeServerKeyExchange :: byte where "typeServerKeyExchange = 12"
definition typeCertificateRequest :: byte where "typeCertificateRequest = 13"
definition typeServerHelloDone :: byte where "typeServerHelloDone = 14"
definition typeCertificateVerify :: byte where "typeCertificateVerify = 15"
definition typeClientKeyExchange :: byte where "typeClientKeyExchange = 16"
definition typeFinished :: byte where "typeFinished = 20"
definition typeCertificateStatus :: byte where "typeCertificateStatus = 22"
definition typeKeyUpdate :: byte where "typeKeyUpdate = 24"
definition typeMessageHash :: byte where "typeMessageHash = 254"

lemmas handshake_types =
  typeHelloRequest_def
  typeClientHello_def
  typeServerHello_def
  typeNewSessionTicket_def
  typeEndOfEarlyData_def
  typeEncryptedExtensions_def
  typeCertificate_def
  typeServerKeyExchange_def
  typeCertificateRequest_def
  typeServerHelloDone_def
  typeCertificateVerify_def
  typeClientKeyExchange_def
  typeFinished_def
  typeCertificateStatus_def
  typeKeyUpdate_def
  typeMessageHash_def

text \<open>Compression, key exchange modes, point formats, status and certificate types.\<close>

definition compressionNone :: byte where "compressionNone = 0"
definition pskModePlain :: byte where "pskModePlain = 0"
definition pskModeDHE :: byte where "pskModeDHE = 1"
definition pointFormatUncompressed :: byte where "pointFormatUncompressed = 0"
definition statusTypeOCSP :: byte where "statusTypeOCSP = 1"
definition certTypeRSASign :: byte where "certTypeRSASign = 1"
definition certTypeECDSASign :: byte where "certTypeECDSASign = 64"

lemmas code_points =
  compressionNone_def
  pskModePlain_def
  pskModeDHE_def
  pointFormatUncompressed_def
  statusTypeOCSP_def
  certTypeRSASign_def
  certTypeECDSASign_def

text \<open>Extension numbers.\<close>

definition extensionServerName :: u16 where "extensionServerName = 0"
definition extensionStatusRequest :: u16 where "extensionStatusRequest = 5"
definition extensionSupportedCurves :: u16 where "extensionSupportedCurves = 10"
definition extensionSupportedPoints :: u16 where "extensionSupportedPoints = 11"
definition extensionSignatureAlgorithms :: u16 where "extensionSignatureAlgorithms = 13"
definition extensionALPN :: u16 where "extensionALPN = 16"
definition extensionSCT :: u16 where "extensionSCT = 18"
definition extensionExtendedMasterSecret :: u16 where "extensionExtendedMasterSecret = 23"
definition extensionSessionTicket :: u16 where "extensionSessionTicket = 35"
definition extensionPreSharedKey :: u16 where "extensionPreSharedKey = 41"
definition extensionEarlyData :: u16 where "extensionEarlyData = 42"
definition extensionSupportedVersions :: u16 where "extensionSupportedVersions = 43"
definition extensionCookie :: u16 where "extensionCookie = 44"
definition extensionPSKModes :: u16 where "extensionPSKModes = 45"
definition extensionCertificateAuthorities :: u16 where "extensionCertificateAuthorities = 47"
definition extensionSignatureAlgorithmsCert :: u16 where "extensionSignatureAlgorithmsCert = 50"
definition extensionKeyShare :: u16 where "extensionKeyShare = 51"
definition extensionQUICTransportParameters :: u16 where "extensionQUICTransportParameters = 57"
definition extensionRenegotiationInfo :: u16 where "extensionRenegotiationInfo = 0xff01"
definition extensionECHOuterExtensions :: u16 where "extensionECHOuterExtensions = 0xfd00"
definition extensionEncryptedClientHello :: u16 where "extensionEncryptedClientHello = 0xfe0d"

lemmas extension_ids =
  extensionServerName_def
  extensionStatusRequest_def
  extensionSupportedCurves_def
  extensionSupportedPoints_def
  extensionSignatureAlgorithms_def
  extensionALPN_def
  extensionSCT_def
  extensionExtendedMasterSecret_def
  extensionSessionTicket_def
  extensionPreSharedKey_def
  extensionEarlyData_def
  extensionSupportedVersions_def
  extensionCookie_def
  extensionPSKModes_def
  extensionCertificateAuthorities_def
  extensionSignatureAlgorithmsCert_def
  extensionKeyShare_def
  extensionQUICTransportParameters_def
  extensionRenegotiationInfo_def
  extensionECHOuterExtensions_def
  extensionEncryptedClientHello_def

text \<open>The renegotiation signalling suite.\<close>

definition scsvRenegotiation :: u16 where "scsvRenegotiation = 0x00ff"

lemmas scsv_ids =
  scsvRenegotiation_def

text \<open>Key exchange groups.\<close>

definition CurveP256 :: u16 where "CurveP256 = 23"
definition CurveP384 :: u16 where "CurveP384 = 24"
definition CurveP521 :: u16 where "CurveP521 = 25"
definition X25519 :: u16 where "X25519 = 29"
definition X25519MLKEM768 :: u16 where "X25519MLKEM768 = 4588"

lemmas curve_ids =
  CurveP256_def
  CurveP384_def
  CurveP521_def
  X25519_def
  X25519MLKEM768_def

text \<open>Signature schemes.\<close>

definition PKCS1WithSHA256 :: u16 where "PKCS1WithSHA256 = 0x0401"
definition PKCS1WithSHA384 :: u16 where "PKCS1WithSHA384 = 0x0501"
definition PKCS1WithSHA512 :: u16 where "PKCS1WithSHA512 = 0x0601"
definition PSSWithSHA256 :: u16 where "PSSWithSHA256 = 0x0804"
definition PSSWithSHA384 :: u16 where "PSSWithSHA384 = 0x0805"
definition PSSWithSHA512 :: u16 where "PSSWithSHA512 = 0x0806"
definition ECDSAWithP256AndSHA256 :: u16 where "ECDSAWithP256AndSHA256 = 0x0403"
definition ECDSAWithP384AndSHA384 :: u16 where "ECDSAWithP384AndSHA384 = 0x0503"
definition ECDSAWithP521AndSHA512 :: u16 where "ECDSAWithP521AndSHA512 = 0x0603"
definition Ed25519 :: u16 where "Ed25519 = 0x0807"
definition PKCS1WithSHA1 :: u16 where "PKCS1WithSHA1 = 0x0201"
definition ECDSAWithSHA1 :: u16 where "ECDSAWithSHA1 = 0x0203"

lemmas signature_ids =
  PKCS1WithSHA256_def
  PKCS1WithSHA384_def
  PKCS1WithSHA512_def
  PSSWithSHA256_def
  PSSWithSHA384_def
  PSSWithSHA512_def
  ECDSAWithP256AndSHA256_def
  ECDSAWithP384AndSHA384_def
  ECDSAWithP521AndSHA512_def
  Ed25519_def
  PKCS1WithSHA1_def
  ECDSAWithSHA1_def

text \<open>The tag of signature algorithms, \<open>iota + 225\<close>.\<close>

definition signaturePKCS1v15 :: byte where "signaturePKCS1v15 = 225"
definition signatureRSAPSS :: byte where "signatureRSAPSS = 226"
definition signatureECDSA :: byte where "signatureECDSA = 227"
definition signatureEd25519 :: byte where "signatureEd25519 = 228"

lemmas signature_tags =
  signaturePKCS1v15_def signatureRSAPSS_def signatureECDSA_def signatureEd25519_def

section \<open>Structures and small functions\<close>

type_synonym CurveID = u16
type_synonym SignatureScheme = u16

record keyShare =
  ks_group :: CurveID
  ks_data :: bytes

record pskIdentity =
  psk_label :: bytes
  psk_obfuscatedTicketAge :: u32

definition isTLS13OnlyKeyExchange :: "CurveID \<Rightarrow> bool" where
  "isTLS13OnlyKeyExchange curve \<longleftrightarrow> curve = X25519MLKEM768"

definition isPQKeyExchange :: "CurveID \<Rightarrow> bool" where
  "isPQKeyExchange curve \<longleftrightarrow> curve = X25519MLKEM768"

definition helloRetryRequestRandom :: bytes where
  "helloRetryRequestRandom =
     [0xCF, 0x21, 0xAD, 0x74, 0xE5, 0x9A, 0x61, 0x11,
      0xBE, 0x1D, 0x8C, 0x02, 0x1E, 0x65, 0xB8, 0x91,
      0xC2, 0xA2, 0x11, 0x16, 0x7A, 0xBB, 0x8C, 0x5E,
      0x07, 0x9E, 0x09, 0xE2, 0xC8, 0xA8, 0x33, 0x9C]"

text \<open>\<open>%04X\<close> of a 16-bit number, as in the fallback names \<open>0x1A2B\<close>.\<close>

definition hex_digit :: "nat \<Rightarrow> char" where
  "hex_digit d = ''0123456789ABCDEF'' ! (d mod 16)"

definition hex4 :: "u16 \<Rightarrow> string" where
  "hex4 w = [hex_digit (unat w div 4096), hex_digit (unat w div 256),
     hex_digit (unat w div 16), hex_digit (unat w)]"

definition VersionName :: "u16 \<Rightarrow> string" where
  "VersionName version =
     (if version = VersionSSL30 then ''SSLv3''
      else if version = VersionTLS10 then ''TLS 1.0''
      else if version = VersionTLS11 then ''TLS 1.1''
      else if version = VersionTLS12 then ''TLS 1.2''
      else if version = VersionTLS13 then ''TLS 1.3''
      else ''0x'' @ hex4 version)"

text \<open>A Go string is its bytes.\<close>

definition str_bytes :: "string \<Rightarrow> bytes" where
  "str_bytes s = map of_char s"

definition downgradeCanaryTLS12 :: bytes where
  "downgradeCanaryTLS12 = str_bytes ''DOWNGRD'' @ [1]"

definition downgradeCanaryTLS11 :: bytes where
  "downgradeCanaryTLS11 = str_bytes ''DOWNGRD'' @ [0]"

lemma length_str_bytes [simp]: "length (str_bytes s) = length s"
  by (simp add: str_bytes_def)

lemma str_bytes_append [simp]: "str_bytes (s @ t) = str_bytes s @ str_bytes t"
  by (simp add: str_bytes_def)

lemma of_char_byte_inj: "(of_char c :: byte) = of_char d \<longleftrightarrow> c = d"
proof
  assume eq: "(of_char c :: byte) = of_char d"
  have "unat (of_char x :: byte) = of_char x" for x
  proof -
    have "(of_char x :: nat) < 256"
      by simp
    then have "unat (of_nat (of_char x) :: byte) = of_char x"
      by (simp only: unat_of_nat) simp
    then show ?thesis
      by (simp only: of_nat_of_char)
  qed
  with eq have "(of_char c :: nat) = of_char d"
    by metis
  then show "c = d"
    by simp
qed simp

lemma str_bytes_inj [simp]: "str_bytes s = str_bytes t \<longleftrightarrow> s = t"
  by (simp add: str_bytes_def inj_map_eq_map inj_on_def of_char_byte_inj)

end
