(* ===== verification/Cryptobyte.thy ===== *)
theory Cryptobyte
  imports Constants
begin

text \<open>
  The interface to \<open>golang.org/x/crypto/cryptobyte\<close>, which is not part of the repository:
  the methods of its \<open>Builder\<close> and of its \<open>String\<close> that the message code calls are the
  fields of two records, the parameters of every \<open>marshal\<close> and \<open>unmarshal\<close>.  What the code
  relies on is stated by the locales \<open>cryptobyte_Builder\<close> and \<open>cryptobyte_String\<close>, which
  say what the package documents.  Inside them the theory derives a calculus: \<open>emits\<close>
  relates a piece of builder code to the bytes it appends, or to its failure, and \<open>loop\<close> is
  the Go loop \<open>for !s.Empty()\<close>.  A reference implementation shows that the two contracts
  can be met.
\<close>

section \<open>The methods of \<open>Builder\<close>\<close>

text \<open>
  A method that appends to the builder takes the builder to the builder after the call; a
  closure argument is a function on builders.
\<close>

record 'b builder_ops =
  b_new :: 'b
  b_AddUint8 :: "byte \<Rightarrow> 'b \<Rightarrow> 'b"
  b_AddUint16 :: "u16 \<Rightarrow> 'b \<Rightarrow> 'b"
  b_AddUint32 :: "u32 \<Rightarrow> 'b \<Rightarrow> 'b"
  b_AddBytes :: "bytes \<Rightarrow> 'b \<Rightarrow> 'b"
  b_AddUint8LengthPrefixed :: "('b \<Rightarrow> 'b) \<Rightarrow> 'b \<Rightarrow> 'b"
  b_AddUint16LengthPrefixed :: "('b \<Rightarrow> 'b) \<Rightarrow> 'b \<Rightarrow> 'b"
  b_AddUint24LengthPrefixed :: "('b \<Rightarrow> 'b) \<Rightarrow> 'b \<Rightarrow> 'b"
  b_AddValue :: "('b \<Rightarrow> 'b \<times> err option) \<Rightarrow> 'b \<Rightarrow> 'b"
  b_SetError :: "err \<Rightarrow> 'b \<Rightarrow> 'b"
  b_Bytes :: "'b \<Rightarrow> bytes exec"

text \<open>Statements in sequence, a conditional without else, and a \<open>for\<close> over a slice.\<close>

definition seq :: "('b \<Rightarrow> 'b) list \<Rightarrow> 'b \<Rightarrow> 'b" where
  "seq fs b = fold (\<lambda>f. f) fs b"

definition cond :: "bool \<Rightarrow> ('b \<Rightarrow> 'b) list \<Rightarrow> 'b \<Rightarrow> 'b" where
  "cond c fs b = (if c then seq fs b else b)"

definition each :: "'a list \<Rightarrow> ('a \<Rightarrow> 'b \<Rightarrow> 'b) \<Rightarrow> 'b \<Rightarrow> 'b" where
  "each xs f b = fold f xs b"

text \<open>The bytes of a length-prefixed field, if the length fits.\<close>

definition lp :: "nat \<Rightarrow> bytes option \<Rightarrow> bytes option" where
  "lp n r =
     (case r of
        None \<Rightarrow> None
      | Some bs \<Rightarrow> if length bs < 256 ^ n then Some (put_be n (length bs) @ bs) else None)"

text \<open>Concatenation of the outputs of a sequence, failing if one fails.\<close>

fun cat :: "bytes option list \<Rightarrow> bytes option" where
  "cat [] = Some []"
| "cat (r # rs) =
     (case r of None \<Rightarrow> None | Some xs \<Rightarrow> (case cat rs of None \<Rightarrow> None | Some ys \<Rightarrow> Some (xs @ ys)))"

lemma lp_Some_iff:
  "lp n r = Some bs \<longleftrightarrow>
     (\<exists>xs. r = Some xs \<and> length xs < 256 ^ n \<and> bs = put_be n (length xs) @ xs)"
  by (auto simp: lp_def split: option.splits if_splits)

lemma cat_Some_iff:
  "cat (r # rs) = Some bs \<longleftrightarrow> (\<exists>xs ys. r = Some xs \<and> cat rs = Some ys \<and> bs = xs @ ys)"
  by (auto split: option.splits)

lemma cat_map_Some [simp]: "cat (map (\<lambda>x. Some (f x)) xs) = Some (concat (map f xs))"
  by (induction xs) simp_all

lemma cat_map_Some_iff:
  "cat (map f xs) = Some bs \<longleftrightarrow>
     (\<forall>x\<in>set xs. f x \<noteq> None) \<and> bs = concat (map (\<lambda>x. the (f x)) xs)"
proof (induction xs arbitrary: bs)
  case (Cons x xs)
  show ?case
  proof (cases "cat (map f xs)")
    case None
    then have "\<not> (\<forall>x\<in>set xs. f x \<noteq> None)"
      using Cons [of "concat (map (\<lambda>x. the (f x)) xs)"] by simp
    with None show ?thesis
      by (auto split: option.splits)
  next
    case (Some ys)
    then show ?thesis
      using Cons [of ys] by (auto split: option.splits)
  qed
qed auto

section \<open>What \<open>Builder\<close> promises\<close>

text \<open>
  A builder without an error holds the bytes appended so far; a length-prefixed field whose
  contents do not fit its length, a failed \<open>AddValue\<close> and \<open>SetError\<close> leave an error that
  \<open>Bytes\<close> reports; once there is an error it stays.  A closure receives a builder for the
  field's contents alone.
\<close>

definition failed :: "'b builder_ops \<Rightarrow> 'b \<Rightarrow> bool" where
  "failed B b \<longleftrightarrow> (\<exists>e. b_Bytes B b = Fail e)"

definition emits :: "'b builder_ops \<Rightarrow> ('b \<Rightarrow> 'b) \<Rightarrow> bytes option \<Rightarrow> bool" where
  "emits B f r \<longleftrightarrow>
     (\<forall>b. failed B b \<longrightarrow> failed B (f b)) \<and>
     (\<forall>b pre. b_Bytes B b = Ret pre \<longrightarrow>
        (case r of Some bs \<Rightarrow> b_Bytes B (f b) = Ret (pre @ bs) | None \<Rightarrow> failed B (f b)))"

locale cryptobyte_Builder =
  fixes B :: "'b builder_ops"
  assumes new_empty: "b_Bytes B (b_new B) = Ret []"
    and AddUint8_emits: "emits B (b_AddUint8 B v8) (Some [v8])"
    and AddUint16_emits: "emits B (b_AddUint16 B v16) (Some (put_u16 v16))"
    and AddUint32_emits: "emits B (b_AddUint32 B v32) (Some (put_u32 v32))"
    and AddBytes_emits: "emits B (b_AddBytes B bs) (Some bs)"
    and AddUint8LengthPrefixed_emits: "emits B f r \<Longrightarrow> emits B (b_AddUint8LengthPrefixed B f) (lp 1 r)"
    and AddUint16LengthPrefixed_emits: "emits B f r \<Longrightarrow> emits B (b_AddUint16LengthPrefixed B f) (lp 2 r)"
    and AddUint24LengthPrefixed_emits: "emits B f r \<Longrightarrow> emits B (b_AddUint24LengthPrefixed B f) (lp 3 r)"
    and AddValue_ok: "g b = (b', None) \<Longrightarrow> b_Bytes B (b_AddValue B g b) = b_Bytes B b'"
    and AddValue_error: "g b = (b', Some e) \<Longrightarrow> b_Bytes B (b_AddValue B g b) = Fail e"
    and SetError_error: "failed B (b_SetError B e b)"
begin

lemma emits_seq_Nil: "emits B (seq []) (Some [])"
  by (simp add: emits_def seq_def)

lemma emits_compose:
  assumes "emits B f r" "emits B g q"
  shows "emits B (\<lambda>b. g (f b)) (cat [r, q])"
  using assms unfolding emits_def failed_def
  by (auto split: option.splits)

lemma emits_seq_Cons:
  assumes "emits B f r" "emits B (seq fs) (cat rs)"
  shows "emits B (seq (f # fs)) (cat (r # rs))"
proof -
  have "seq (f # fs) = (\<lambda>b. seq fs (f b))"
    by (simp add: seq_def fun_eq_iff)
  moreover have "cat [r, cat rs] = cat (r # rs)"
    by (cases r; cases "cat rs") simp_all
  ultimately show ?thesis
    using emits_compose [OF assms] by simp
qed

lemma emits_seq: "list_all2 (emits B) fs rs \<Longrightarrow> emits B (seq fs) (cat rs)"
  by (induction fs rs rule: list_all2_induct) (simp_all only: emits_seq_Nil cat.simps(1) emits_seq_Cons)

lemma emits_cond:
  "list_all2 (emits B) fs rs \<Longrightarrow> emits B (cond c fs) (if c then cat rs else Some [])"
  using emits_seq by (cases c) (simp_all add: cond_def [abs_def] emits_def [of _ _ "Some []"])

lemma emits_each:
  assumes "\<And>x. x \<in> set xs \<Longrightarrow> emits B (f x) (r x)"
  shows "emits B (each xs f) (cat (map r xs))"
proof -
  have "each xs f = seq (map f xs)"
    by (induction xs) (simp_all add: each_def seq_def fun_eq_iff)
  moreover have "list_all2 (emits B) (map f xs) (map r xs)"
    using assms by (simp add: list_all2_map1 list_all2_map2 list_all2_same)
  ultimately show ?thesis
    using emits_seq by simp
qed

lemma emits_id: "emits B (\<lambda>b. b) (Some [])"
  by (simp add: emits_def)

lemma emits_Bytes:
  assumes "emits B f r"
  shows "b_Bytes B (f (b_new B)) = Ret bs \<longleftrightarrow> r = Some bs"
  using assms new_empty unfolding emits_def failed_def by (cases r) fastforce+

lemma emits_Bytes_failed: "emits B f None \<Longrightarrow> \<exists>e. b_Bytes B (f (b_new B)) = Fail e"
  using new_empty unfolding emits_def failed_def by fastforce

lemmas emits_intros =
  AddUint8_emits AddUint16_emits AddUint32_emits AddBytes_emits AddUint8LengthPrefixed_emits
  AddUint16LengthPrefixed_emits AddUint24LengthPrefixed_emits emits_seq emits_cond emits_each
  list_all2_Cons [THEN iffD2] conjI list.rel_intros(1)

end

section \<open>The methods of \<open>String\<close>\<close>

text \<open>
  \<open>cryptobyte.String\<close> is a byte slice; a read returns the value and the rest, or fails.
\<close>

record reader_ops =
  r_Skip :: "nat \<Rightarrow> bytes \<Rightarrow> bytes option"
  r_ReadUint8 :: "bytes \<Rightarrow> (byte \<times> bytes) option"
  r_ReadUint16 :: "bytes \<Rightarrow> (u16 \<times> bytes) option"
  r_ReadUint32 :: "bytes \<Rightarrow> (u32 \<times> bytes) option"
  r_ReadUint64 :: "bytes \<Rightarrow> (u64 \<times> bytes) option"
  r_ReadBytes :: "nat \<Rightarrow> bytes \<Rightarrow> (bytes \<times> bytes) option"
  r_CopyBytes :: "nat \<Rightarrow> bytes \<Rightarrow> (bytes \<times> bytes) option"
  r_ReadUint8LengthPrefixed :: "bytes \<Rightarrow> (bytes \<times> bytes) option"
  r_ReadUint16LengthPrefixed :: "bytes \<Rightarrow> (bytes \<times> bytes) option"
  r_ReadUint24LengthPrefixed :: "bytes \<Rightarrow> (bytes \<times> bytes) option"
  r_Empty :: "bytes \<Rightarrow> bool"

definition cutn :: "nat \<Rightarrow> bytes \<Rightarrow> (bytes \<times> bytes) option" where
  "cutn n s = (if length s < n then None else Some (take n s, drop n s))"

definition cut_lp :: "nat \<Rightarrow> bytes \<Rightarrow> (bytes \<times> bytes) option" where
  "cut_lp n s = Option.bind (cutn n s) (\<lambda>(l, s). cutn (get_be l) s)"

locale cryptobyte_String =
  fixes R :: reader_ops
  assumes Skip_law: "r_Skip R n s = map_option snd (cutn n s)"
    and ReadUint8_law: "r_ReadUint8 R s = map_option (map_prod hd id) (cutn 1 s)"
    and ReadUint16_law: "r_ReadUint16 R s = map_option (map_prod get_u16 id) (cutn 2 s)"
    and ReadUint32_law: "r_ReadUint32 R s = map_option (map_prod get_u32 id) (cutn 4 s)"
    and ReadUint64_law: "r_ReadUint64 R s = map_option (map_prod get_u64 id) (cutn 8 s)"
    and ReadBytes_law: "r_ReadBytes R n s = cutn n s"
    and CopyBytes_law: "r_CopyBytes R n s = cutn n s"
    and ReadUint8LengthPrefixed_law: "r_ReadUint8LengthPrefixed R s = cut_lp 1 s"
    and ReadUint16LengthPrefixed_law: "r_ReadUint16LengthPrefixed R s = cut_lp 2 s"
    and ReadUint24LengthPrefixed_law: "r_ReadUint24LengthPrefixed R s = cut_lp 3 s"
    and Empty_law: "r_Empty R s \<longleftrightarrow> s = []"

text \<open>
  The loop \<open>for !s.Empty() { ... }\<close>: \<open>step\<close> is the body, on the rest of the input and the
  variables it updates; it fails where the body returns false.  The first argument bounds
  the number of iterations; every body reads at least one byte, so the length of the input
  is always enough.
\<close>

fun loop ::
  "reader_ops \<Rightarrow> (bytes \<Rightarrow> 'v \<Rightarrow> ('v \<times> bytes) option) \<Rightarrow> nat \<Rightarrow> bytes \<Rightarrow> 'v \<Rightarrow> 'v option" where
  "loop R step 0 s v = (if r_Empty R s then Some v else None)"
| "loop R step (Suc n) s v =
     (if r_Empty R s then Some v
      else Option.bind (step s v) (\<lambda>(v, s). loop R step n s v))"

text \<open>The loops that append one element to a slice at each turn.\<close>

definition read_list ::
  "reader_ops \<Rightarrow> (bytes \<Rightarrow> ('a \<times> bytes) option) \<Rightarrow> bytes \<Rightarrow> 'a list option" where
  "read_list R rd s =
     loop R (\<lambda>s xs. Option.bind (rd s) (\<lambda>(x, s). Some (xs @ [x], s))) (length s) s []"

lemma cutn_append [simp]: "length xs = n \<Longrightarrow> cutn n (xs @ s) = Some (xs, s)"
  by (simp add: cutn_def)

lemma cutn_Cons [simp]: "cutn 1 (x # s) = Some ([x], s)"
  by (simp add: cutn_def)

lemma cutn_Nil [simp]: "0 < n \<Longrightarrow> cutn n [] = None"
  by (simp add: cutn_def)

lemma cutn_all [simp]: "cutn (length s) s = Some (s, [])"
  by (simp add: cutn_def)

lemma cut_lp_append [simp]:
  "length xs < 256 ^ n \<Longrightarrow> cut_lp n (put_be n (length xs) @ xs @ s) = Some (xs, s)"
  by (simp add: cut_lp_def)

lemma cut_lp_end [simp]:
  "length xs < 256 ^ n \<Longrightarrow> cut_lp n (put_be n (length xs) @ xs) = Some (xs, [])"
  using cut_lp_append [of xs n "[]"] by simp

lemma cutn_shorter: "cutn n s = Some (x, s') \<Longrightarrow> length s' = length s - n \<and> n \<le> length s"
  by (auto simp: cutn_def split: if_splits)

lemma cut_lp_shorter:
  assumes "0 < n" "cut_lp n s = Some (x, s')"
  shows "length s' < length s"
  using assms by (auto simp: cut_lp_def bind_eq_Some_conv dest!: cutn_shorter split: prod.splits)

context cryptobyte_String
begin

lemmas laws = Skip_law ReadUint8_law ReadUint16_law ReadUint32_law ReadUint64_law ReadBytes_law CopyBytes_law
  ReadUint8LengthPrefixed_law ReadUint16LengthPrefixed_law ReadUint24LengthPrefixed_law Empty_law

lemma Empty_simps [simp]: "r_Empty R []" "s \<noteq> [] \<Longrightarrow> \<not> r_Empty R s"
  by (simp_all add: Empty_law)

lemma ReadUint16_put [simp]: "r_ReadUint16 R (put_u16 v @ s) = Some (v, s)"
  by (simp add: ReadUint16_law)

lemma ReadUint16_end [simp]: "r_ReadUint16 R (put_u16 v) = Some (v, [])"
  using ReadUint16_put [of v "[]"] by simp

lemma ReadUint32_put [simp]: "r_ReadUint32 R (put_u32 v @ s) = Some (v, s)"
  by (simp add: ReadUint32_law)

lemma ReadUint64_put [simp]: "r_ReadUint64 R (put_u64 v @ s) = Some (v, s)"
  by (simp add: ReadUint64_law)

lemma ReadUint8_Cons [simp]: "r_ReadUint8 R (v # s) = Some (v, s)"
  using cutn_Cons [of v s] by (simp add: ReadUint8_law)

lemma ReadLengthPrefixed_simps [simp]:
  "length xs < 256 \<Longrightarrow> r_ReadUint8LengthPrefixed R (of_nat (length xs) # xs @ s) = Some (xs, s)"
  "length xs < 65536 \<Longrightarrow> r_ReadUint16LengthPrefixed R (put_be 2 (length xs) @ xs @ s) = Some (xs, s)"
  "length xs < 16777216 \<Longrightarrow> r_ReadUint24LengthPrefixed R (put_be 3 (length xs) @ xs @ s) = Some (xs, s)"
  using cut_lp_append [of xs 1 s] by (simp_all add: laws)

lemma ReadLengthPrefixed_end [simp]:
  "length xs < 256 \<Longrightarrow> r_ReadUint8LengthPrefixed R (of_nat (length xs) # xs) = Some (xs, [])"
  "length xs < 65536 \<Longrightarrow> r_ReadUint16LengthPrefixed R (put_be 2 (length xs) @ xs) = Some (xs, [])"
  "length xs < 16777216 \<Longrightarrow> r_ReadUint24LengthPrefixed R (put_be 3 (length xs) @ xs) = Some (xs, [])"
  using cut_lp_end [of xs 1] by (simp_all add: laws)

lemma ReadBytes_simps [simp]:
  "length xs = n \<Longrightarrow> r_ReadBytes R n (xs @ s) = Some (xs, s)"
  "r_ReadBytes R (length s) s = Some (s, [])" "r_CopyBytes R (length s) s = Some (s, [])"
  by (simp_all add: laws)

text \<open>Reading back what a sequence of encodings produced.\<close>

lemma loop_concat:
  assumes "\<And>x rest v. x \<in> set xs \<Longrightarrow> step (enc x @ rest) v = Some (upd x v, rest)"
    and "\<And>x. x \<in> set xs \<Longrightarrow> enc x \<noteq> []" and "length xs \<le> n"
  shows "loop R step n (concat (map enc xs)) v = Some (fold upd xs v)"
  using assms
proof (induction xs arbitrary: n v)
  case Nil
  then show ?case
    by (cases n) simp_all
next
  case (Cons x xs)
  then obtain k where "n = Suc k"
    by (cases n) auto
  with Cons show ?case
    by simp
qed

lemma length_concat_ge: "(\<And>x. x \<in> set xs \<Longrightarrow> enc x \<noteq> []) \<Longrightarrow> length xs \<le> length (concat (map enc xs))"
proof (induction xs)
  case (Cons x xs)
  then show ?case
    by (cases "enc x") auto
qed simp

lemma read_list_concat:
  assumes "\<And>x rest. x \<in> set xs \<Longrightarrow> rd (enc x @ rest) = Some (x, rest)"
    and "\<And>x. x \<in> set xs \<Longrightarrow> enc x \<noteq> []"
  shows "read_list R rd (concat (map enc xs)) = Some xs"
proof -
  have "fold (\<lambda>x ys. ys @ [x]) zs ys = ys @ zs" for zs ys :: "'a list"
    by (induction zs arbitrary: ys) simp_all
  then show ?thesis
    unfolding read_list_def
    by (subst loop_concat [where enc = enc and upd = "\<lambda>x ys. ys @ [x]"])
      (simp_all add: assms length_concat_ge [OF assms(2)])
qed

lemma read_list_u16 [simp]: "read_list R (r_ReadUint16 R) (concat (map put_u16 xs)) = Some xs"
  by (rule read_list_concat) (auto simp flip: length_0_conv)

text \<open>The bound on the iterations never matters once it is at least the length.\<close>

lemma loop_enough:
  assumes "\<And>s v v' s'. step s v = Some (v', s') \<Longrightarrow> length s' < length s"
    and "length s \<le> n"
  shows "loop R step n s v = loop R step (length s) s v"
  using assms(2)
proof (induction "length s" arbitrary: s n v rule: less_induct)
  case less
  show ?case
  proof (cases s)
    case Nil
    then show ?thesis
      by (cases n) simp_all
  next
    case (Cons b t)
    then obtain k where n: "n = Suc k" "length t \<le> k"
      using less.prems by (cases n) auto
    have "loop R step k s' v' = loop R step (length t) s' v'" if "step s v = Some (v', s')" for v' s'
    proof -
      have "length s' < length s" "length s' \<le> length t"
        using assms(1) [OF that] Cons by auto
      then show ?thesis
        using less.hyps [of s' k v'] less.hyps [of s' "length t" v'] n by simp
    qed
    then show ?thesis
      by (cases "step s v") (auto simp: n Cons)
  qed
qed

end

section \<open>A reference implementation\<close>

definition ref_lp :: "nat \<Rightarrow> (bytes exec \<Rightarrow> bytes exec) \<Rightarrow> bytes exec \<Rightarrow> bytes exec" where
  "ref_lp n f b =
     exec_bind b (\<lambda>bs. exec_bind (f (Ret [])) (\<lambda>cs.
       if length cs < 256 ^ n then Ret (bs @ put_be n (length cs) @ cs)
       else Fail (ErrMsg ''cryptobyte: pending child length exceeds prefix'')))"

definition ref_builder :: "bytes exec builder_ops" where
  "ref_builder =
     \<lparr>b_new = Ret [],
      b_AddUint8 = (\<lambda>v b. exec_bind b (\<lambda>bs. Ret (bs @ [v]))),
      b_AddUint16 = (\<lambda>v b. exec_bind b (\<lambda>bs. Ret (bs @ put_u16 v))),
      b_AddUint32 = (\<lambda>v b. exec_bind b (\<lambda>bs. Ret (bs @ put_u32 v))),
      b_AddBytes = (\<lambda>v b. exec_bind b (\<lambda>bs. Ret (bs @ v))),
      b_AddUint8LengthPrefixed = ref_lp 1,
      b_AddUint16LengthPrefixed = ref_lp 2,
      b_AddUint24LengthPrefixed = ref_lp 3,
      b_AddValue = (\<lambda>g b. case g b of (b', None) \<Rightarrow> b' | (b', Some e) \<Rightarrow> Fail e),
      b_SetError = (\<lambda>e b. Fail e),
      b_Bytes = (\<lambda>b. b)\<rparr>"

definition ref_reader :: reader_ops where
  "ref_reader =
     \<lparr>r_Skip = (\<lambda>n s. map_option snd (cutn n s)),
      r_ReadUint8 = (\<lambda>s. map_option (map_prod hd id) (cutn 1 s)),
      r_ReadUint16 = (\<lambda>s. map_option (map_prod get_u16 id) (cutn 2 s)),
      r_ReadUint32 = (\<lambda>s. map_option (map_prod get_u32 id) (cutn 4 s)),
      r_ReadUint64 = (\<lambda>s. map_option (map_prod get_u64 id) (cutn 8 s)),
      r_ReadBytes = cutn, r_CopyBytes = cutn,
      r_ReadUint8LengthPrefixed = cut_lp 1,
      r_ReadUint16LengthPrefixed = cut_lp 2,
      r_ReadUint24LengthPrefixed = cut_lp 3,
      r_Empty = (\<lambda>s. s = [])\<rparr>"

lemma ref_lp_emits: "emits ref_builder f r \<Longrightarrow> emits ref_builder (ref_lp n f) (lp n r)"
proof (cases r)
  case None
  assume "emits ref_builder f r"
  then have "\<exists>e. f (Ret []) = Fail e"
    by (simp add: emits_def failed_def ref_builder_def None)
  then show ?thesis
    by (auto simp: emits_def failed_def ref_builder_def ref_lp_def lp_def None)
qed (auto simp: emits_def failed_def ref_builder_def ref_lp_def lp_def)

interpretation ref_builder: cryptobyte_Builder ref_builder
proof
  show "emits ref_builder (b_AddUint8LengthPrefixed ref_builder f) (lp 1 r)"
    "emits ref_builder (b_AddUint16LengthPrefixed ref_builder f) (lp 2 r)"
    "emits ref_builder (b_AddUint24LengthPrefixed ref_builder f) (lp 3 r)"
    if "emits ref_builder f r" for f r
    using ref_lp_emits [OF that] by (simp_all add: ref_builder_def)
qed (auto simp: ref_builder_def emits_def failed_def)

interpretation ref_reader: cryptobyte_String ref_reader
  by unfold_locales (simp_all add: ref_reader_def)

end
