(* ===== verification/ClientHello.thy ===== *)
theory ClientHello
  imports Cryptobyte
begin

text \<open>
  \<open>handshake_messages.go\<close>, part one: the helpers and \<open>clientHelloMsg\<close>.  A message is a
  record with the fields of the Go struct; \<open>marshalMsg\<close> is the sequence of builder calls the
  source makes, \<open>unmarshal\<close> the sequence of reads.  \<open>enc_clientHello\<close> is the wire format, and
  the results are that \<open>marshalMsg\<close> produces exactly it (failing exactly when some field is
  too long), and that \<open>unmarshal\<close> reads it back.  Slices whose nil value matters are options.
\<close>

section \<open>Helpers\<close>

definition addBytesWithLength :: "'b builder_ops \<Rightarrow> bytes \<Rightarrow> nat \<Rightarrow> 'b \<Rightarrow> 'b" where
  "addBytesWithLength B v n =
     b_AddValue B (\<lambda>b. if length v \<noteq> n then (b, Some (ErrMsg ''invalid value length''))
                       else (b_AddBytes B v b, None))"

definition addUint64 :: "'b builder_ops \<Rightarrow> u64 \<Rightarrow> 'b \<Rightarrow> 'b" where
  "addUint64 B v = seq [b_AddUint32 B (ucast (drop_bit 32 v)), b_AddUint32 B (ucast v)]"

definition readUint64 :: "reader_ops \<Rightarrow> bytes \<Rightarrow> (u64 \<times> bytes) option" where
  "readUint64 R s =
     do {(hi, s) \<leftarrow> r_ReadUint32 R s;
         (lo, s) \<leftarrow> r_ReadUint32 R s;
         Some (push_bit 32 (ucast hi) OR ucast lo, s)}"

definition readUint8LengthPrefixed :: "reader_ops \<Rightarrow> bytes \<Rightarrow> (bytes \<times> bytes) option" where
  "readUint8LengthPrefixed R s = r_ReadUint8LengthPrefixed R s"

definition readUint16LengthPrefixed :: "reader_ops \<Rightarrow> bytes \<Rightarrow> (bytes \<times> bytes) option" where
  "readUint16LengthPrefixed R s = r_ReadUint16LengthPrefixed R s"

definition readUint24LengthPrefixed :: "reader_ops \<Rightarrow> bytes \<Rightarrow> (bytes \<times> bytes) option" where
  "readUint24LengthPrefixed R s = r_ReadUint24LengthPrefixed R s"

lemmas read_helpers =
  readUint8LengthPrefixed_def readUint16LengthPrefixed_def readUint24LengthPrefixed_def

section \<open>The message\<close>

record clientHelloMsg =
  ch_original :: "bytes option"
  ch_vers :: u16
  ch_random :: bytes
  ch_sessionId :: bytes
  ch_cipherSuites :: "u16 list"
  ch_compressionMethods :: bytes
  ch_serverName :: bytes
  ch_ocspStapling :: bool
  ch_supportedCurves :: "CurveID list"
  ch_supportedPoints :: bytes
  ch_ticketSupported :: bool
  ch_sessionTicket :: bytes
  ch_supportedSignatureAlgorithms :: "SignatureScheme list"
  ch_supportedSignatureAlgorithmsCert :: "SignatureScheme list"
  ch_secureRenegotiationSupported :: bool
  ch_secureRenegotiation :: bytes
  ch_extendedMasterSecret :: bool
  ch_alpnProtocols :: "bytes list"
  ch_scts :: bool
  ch_supportedVersions :: "u16 list"
  ch_cookie :: bytes
  ch_keyShares :: "keyShare list"
  ch_earlyData :: bool
  ch_pskModes :: bytes
  ch_pskIdentities :: "pskIdentity list"
  ch_pskBinders :: "bytes list"
  ch_quicTransportParameters :: "bytes option"
  ch_encryptedClientHello :: bytes
  ch_extensions :: "u16 list"

definition ch_zero :: clientHelloMsg where
  "ch_zero =
     \<lparr>ch_original = None, ch_vers = 0, ch_random = [], ch_sessionId = [], ch_cipherSuites = [],
      ch_compressionMethods = [], ch_serverName = [], ch_ocspStapling = False,
      ch_supportedCurves = [], ch_supportedPoints = [], ch_ticketSupported = False,
      ch_sessionTicket = [], ch_supportedSignatureAlgorithms = [],
      ch_supportedSignatureAlgorithmsCert = [], ch_secureRenegotiationSupported = False,
      ch_secureRenegotiation = [], ch_extendedMasterSecret = False, ch_alpnProtocols = [],
      ch_scts = False, ch_supportedVersions = [], ch_cookie = [], ch_keyShares = [],
      ch_earlyData = False, ch_pskModes = [], ch_pskIdentities = [], ch_pskBinders = [],
      ch_quicTransportParameters = None, ch_encryptedClientHello = [], ch_extensions = []\<rparr>"

section \<open>\<open>marshalMsg\<close>\<close>

text \<open>The extensions that are written in full, also in an inner ClientHello.\<close>

definition ch_exts_plain :: "'b builder_ops \<Rightarrow> clientHelloMsg \<Rightarrow> bool \<Rightarrow> ('b \<Rightarrow> 'b) list" where
  "ch_exts_plain B m echInner =
     [cond (length (ch_serverName m) > 0)
        [b_AddUint16 B extensionServerName,
         b_AddUint16LengthPrefixed B (seq [
           b_AddUint16LengthPrefixed B (seq [
             b_AddUint8 B 0,
             b_AddUint16LengthPrefixed B (seq [b_AddBytes B (ch_serverName m)])])])],
      cond (length (ch_supportedPoints m) > 0 \<and> \<not> echInner)
        [b_AddUint16 B extensionSupportedPoints,
         b_AddUint16LengthPrefixed B (seq [
           b_AddUint8LengthPrefixed B (seq [b_AddBytes B (ch_supportedPoints m)])])],
      cond (ch_ticketSupported m \<and> \<not> echInner)
        [b_AddUint16 B extensionSessionTicket,
         b_AddUint16LengthPrefixed B (seq [b_AddBytes B (ch_sessionTicket m)])],
      cond (ch_secureRenegotiationSupported m \<and> \<not> echInner)
        [b_AddUint16 B extensionRenegotiationInfo,
         b_AddUint16LengthPrefixed B (seq [
           b_AddUint8LengthPrefixed B (seq [b_AddBytes B (ch_secureRenegotiation m)])])],
      cond (ch_extendedMasterSecret m \<and> \<not> echInner)
        [b_AddUint16 B extensionExtendedMasterSecret, b_AddUint16 B 0],
      cond (ch_scts m) [b_AddUint16 B extensionSCT, b_AddUint16 B 0],
      cond (ch_earlyData m) [b_AddUint16 B extensionEarlyData, b_AddUint16 B 0],
      cond (ch_quicTransportParameters m \<noteq> None)
        [b_AddUint16 B extensionQUICTransportParameters,
         b_AddUint16LengthPrefixed B (seq [b_AddBytes B (the (ch_quicTransportParameters m))])],
      cond (length (ch_encryptedClientHello m) > 0)
        [b_AddUint16 B extensionEncryptedClientHello,
         b_AddUint16LengthPrefixed B (seq [b_AddBytes B (ch_encryptedClientHello m)])]]"

text \<open>The extensions an inner ClientHello refers to by number, in \<open>echOuterExts\<close>.\<close>

definition ch_echOuterExts :: "clientHelloMsg \<Rightarrow> u16 list" where
  "ch_echOuterExts m =
     (if ch_ocspStapling m then [extensionStatusRequest] else []) @
     (if length (ch_supportedCurves m) > 0 then [extensionSupportedCurves] else []) @
     (if length (ch_supportedSignatureAlgorithms m) > 0 then [extensionSignatureAlgorithms] else []) @
     (if length (ch_supportedSignatureAlgorithmsCert m) > 0
      then [extensionSignatureAlgorithmsCert] else []) @
     (if length (ch_alpnProtocols m) > 0 then [extensionALPN] else []) @
     (if length (ch_supportedVersions m) > 0 then [extensionSupportedVersions] else []) @
     (if length (ch_cookie m) > 0 then [extensionCookie] else []) @
     (if length (ch_keyShares m) > 0 then [extensionKeyShare] else []) @
     (if length (ch_pskModes m) > 0 then [extensionPSKModes] else [])"

definition ch_exts_outer :: "'b builder_ops \<Rightarrow> clientHelloMsg \<Rightarrow> bool \<Rightarrow> ('b \<Rightarrow> 'b) list" where
  "ch_exts_outer B m echInner =
     [cond (ch_ocspStapling m \<and> \<not> echInner)
        [b_AddUint16 B extensionStatusRequest,
         b_AddUint16LengthPrefixed B (seq [b_AddUint8 B 1, b_AddUint16 B 0, b_AddUint16 B 0])],
      cond (length (ch_supportedCurves m) > 0 \<and> \<not> echInner)
        [b_AddUint16 B extensionSupportedCurves,
         b_AddUint16LengthPrefixed B (seq [
           b_AddUint16LengthPrefixed B (each (ch_supportedCurves m) (b_AddUint16 B))])],
      cond (length (ch_supportedSignatureAlgorithms m) > 0 \<and> \<not> echInner)
        [b_AddUint16 B extensionSignatureAlgorithms,
         b_AddUint16LengthPrefixed B (seq [
           b_AddUint16LengthPrefixed B (each (ch_supportedSignatureAlgorithms m) (b_AddUint16 B))])],
      cond (length (ch_supportedSignatureAlgorithmsCert m) > 0 \<and> \<not> echInner)
        [b_AddUint16 B extensionSignatureAlgorithmsCert,
         b_AddUint16LengthPrefixed B (seq [
           b_AddUint16LengthPrefixed B (each (ch_supportedSignatureAlgorithmsCert m) (b_AddUint16 B))])],
      cond (length (ch_alpnProtocols m) > 0 \<and> \<not> echInner)
        [b_AddUint16 B extensionALPN,
         b_AddUint16LengthPrefixed B (seq [
           b_AddUint16LengthPrefixed B (each (ch_alpnProtocols m) (\<lambda>proto.
             b_AddUint8LengthPrefixed B (seq [b_AddBytes B proto])))])],
      cond (length (ch_supportedVersions m) > 0 \<and> \<not> echInner)
        [b_AddUint16 B extensionSupportedVersions,
         b_AddUint16LengthPrefixed B (seq [
           b_AddUint8LengthPrefixed B (each (ch_supportedVersions m) (b_AddUint16 B))])],
      cond (length (ch_cookie m) > 0 \<and> \<not> echInner)
        [b_AddUint16 B extensionCookie,
         b_AddUint16LengthPrefixed B (seq [
           b_AddUint16LengthPrefixed B (seq [b_AddBytes B (ch_cookie m)])])],
      cond (length (ch_keyShares m) > 0 \<and> \<not> echInner)
        [b_AddUint16 B extensionKeyShare,
         b_AddUint16LengthPrefixed B (seq [
           b_AddUint16LengthPrefixed B (each (ch_keyShares m) (\<lambda>ks. seq [
             b_AddUint16 B (ks_group ks),
             b_AddUint16LengthPrefixed B (seq [b_AddBytes B (ks_data ks)])]))])],
      cond (length (ch_pskModes m) > 0 \<and> \<not> echInner)
        [b_AddUint16 B extensionPSKModes,
         b_AddUint16LengthPrefixed B (seq [
           b_AddUint8LengthPrefixed B (seq [b_AddBytes B (ch_pskModes m)])])]]"

definition ch_exts_last :: "'b builder_ops \<Rightarrow> clientHelloMsg \<Rightarrow> bool \<Rightarrow> ('b \<Rightarrow> 'b) list" where
  "ch_exts_last B m echInner =
     [cond (length (ch_echOuterExts m) > 0 \<and> echInner)
        [b_AddUint16 B extensionECHOuterExtensions,
         b_AddUint16LengthPrefixed B (seq [
           b_AddUint8LengthPrefixed B (each (ch_echOuterExts m) (b_AddUint16 B))])],
      cond (length (ch_pskIdentities m) > 0)
        [b_AddUint16 B extensionPreSharedKey,
         b_AddUint16LengthPrefixed B (seq [
           b_AddUint16LengthPrefixed B (each (ch_pskIdentities m) (\<lambda>psk. seq [
             b_AddUint16LengthPrefixed B (seq [b_AddBytes B (psk_label psk)]),
             b_AddUint32 B (psk_obfuscatedTicketAge psk)])),
           b_AddUint16LengthPrefixed B (each (ch_pskBinders m) (\<lambda>binder.
             b_AddUint8LengthPrefixed B (seq [b_AddBytes B binder])))])]]"

definition ch_marshalMsg :: "'b builder_ops \<Rightarrow> clientHelloMsg \<Rightarrow> bool \<Rightarrow> bytes exec" where
  "ch_marshalMsg B m echInner =
     exec_bind
       (b_Bytes B (seq (ch_exts_plain B m echInner @ ch_exts_outer B m echInner
          @ ch_exts_last B m echInner) (b_new B)))
       (\<lambda>extBytes. b_Bytes B (seq [
          b_AddUint8 B typeClientHello,
          b_AddUint24LengthPrefixed B (seq [
            b_AddUint16 B (ch_vers m),
            addBytesWithLength B (ch_random m) 32,
            b_AddUint8LengthPrefixed B (seq [cond (\<not> echInner) [b_AddBytes B (ch_sessionId m)]]),
            b_AddUint16LengthPrefixed B (each (ch_cipherSuites m) (b_AddUint16 B)),
            b_AddUint8LengthPrefixed B (seq [b_AddBytes B (ch_compressionMethods m)]),
            cond (length extBytes > 0)
              [b_AddUint16LengthPrefixed B (seq [b_AddBytes B extBytes])]])] (b_new B)))"

definition ch_marshal :: "'b builder_ops \<Rightarrow> clientHelloMsg \<Rightarrow> bytes exec" where
  "ch_marshal B m = ch_marshalMsg B m False"

definition ch_bindersLen :: "clientHelloMsg \<Rightarrow> nat" where
  "ch_bindersLen m = fold (\<lambda>binder n. n + 1 + length binder) (ch_pskBinders m) 2"

definition marshalWithoutBinders :: "'b builder_ops \<Rightarrow> clientHelloMsg \<Rightarrow> bytes exec" where
  "marshalWithoutBinders B m =
     exec_bind (case ch_original m of Some o' \<Rightarrow> Ret o' | None \<Rightarrow> ch_marshal B m) (\<lambda>fullMessage.
     if length fullMessage < ch_bindersLen m then Panic ''slice bounds out of range''
     else Ret (take (length fullMessage - ch_bindersLen m) fullMessage))"

definition updateBinders :: "clientHelloMsg \<Rightarrow> bytes list \<Rightarrow> clientHelloMsg exec" where
  "updateBinders m pskBinders =
     (if length pskBinders \<noteq> length (ch_pskBinders m)
      then Fail (ErrMsg ''tls: internal error: pskBinders length mismatch'')
      else if \<exists>i\<in>{0..<length (ch_pskBinders m)}. length (pskBinders ! i) \<noteq> length (ch_pskBinders m ! i)
      then Fail (ErrMsg ''tls: internal error: pskBinders length mismatch'')
      else Ret (m\<lparr>ch_pskBinders := pskBinders\<rparr>))"

section \<open>\<open>unmarshal\<close>\<close>

text \<open>The body of the loop over a server name list; the dot is byte 46.\<close>

definition ch_serverName_step ::
  "reader_ops \<Rightarrow> bytes \<Rightarrow> clientHelloMsg \<Rightarrow> (clientHelloMsg \<times> bytes) option" where
  "ch_serverName_step R nameList m =
     do {(nameType, nameList) \<leftarrow> r_ReadUint8 R nameList;
         (serverName, nameList) \<leftarrow> r_ReadUint16LengthPrefixed R nameList;
         if r_Empty R serverName then None
         else if nameType \<noteq> 0 then Some (m, nameList)
         else if length (ch_serverName m) \<noteq> 0 then None
         else if last serverName = 46 then None
         else Some (m\<lparr>ch_serverName := serverName\<rparr>, nameList)}"

definition read_u16s :: "reader_ops \<Rightarrow> bytes \<Rightarrow> u16 list option" where
  "read_u16s R s = (if r_Empty R s then None else read_list R (r_ReadUint16 R) s)"

definition read_keyShare :: "reader_ops \<Rightarrow> bytes \<Rightarrow> (keyShare \<times> bytes) option" where
  "read_keyShare R s =
     do {(group, s) \<leftarrow> r_ReadUint16 R s;
         (data, s) \<leftarrow> readUint16LengthPrefixed R s;
         if length data = 0 then None else Some (\<lparr>ks_group = group, ks_data = data\<rparr>, s)}"

definition read_pskIdentity :: "reader_ops \<Rightarrow> bytes \<Rightarrow> (pskIdentity \<times> bytes) option" where
  "read_pskIdentity R s =
     do {(label, s) \<leftarrow> readUint16LengthPrefixed R s;
         (age, s) \<leftarrow> r_ReadUint32 R s;
         if length label = 0 then None
         else Some (\<lparr>psk_label = label, psk_obfuscatedTicketAge = age\<rparr>, s)}"

definition read_nonempty8 :: "reader_ops \<Rightarrow> bytes \<Rightarrow> (bytes \<times> bytes) option" where
  "read_nonempty8 R s =
     do {(x, s) \<leftarrow> readUint8LengthPrefixed R s; if length x = 0 then None else Some (x, s)}"

definition read_psk ::
  "reader_ops \<Rightarrow> bytes \<Rightarrow> clientHelloMsg \<Rightarrow> (clientHelloMsg \<times> bytes) option" where
  "read_psk R extData m =
     do {(identities, extData) \<leftarrow> r_ReadUint16LengthPrefixed R extData;
         if r_Empty R identities then None else do {
         ids \<leftarrow> read_list R (read_pskIdentity R) identities;
         (binders, extData) \<leftarrow> r_ReadUint16LengthPrefixed R extData;
         if r_Empty R binders then None else do {
         bs \<leftarrow> read_list R (read_nonempty8 R) binders;
         Some (m\<lparr>ch_pskIdentities := ch_pskIdentities m @ ids,
                  ch_pskBinders := ch_pskBinders m @ bs\<rparr>, extData)}}}"

text \<open>
  The switch on the extension number: the message and what is left of the extension's data,
  or \<open>None\<close> in its place for the \<open>default\<close> case, which continues without looking at it.
\<close>

definition ch_switch ::
  "reader_ops \<Rightarrow> u16 \<Rightarrow> bytes \<Rightarrow> bytes \<Rightarrow> clientHelloMsg
     \<Rightarrow> (clientHelloMsg \<times> bytes option) option" where
  "ch_switch R extension extData extensions m =
     (if extension = extensionServerName then
        do {(nameList, extData) \<leftarrow> r_ReadUint16LengthPrefixed R extData;
            if r_Empty R nameList then None else do {
            m \<leftarrow> loop R (ch_serverName_step R) (length nameList) nameList m;
            Some (m, Some extData)}}
      else if extension = extensionStatusRequest then
        do {(statusType, extData) \<leftarrow> r_ReadUint8 R extData;
            (_, extData) \<leftarrow> r_ReadUint16LengthPrefixed R extData;
            (_, extData) \<leftarrow> r_ReadUint16LengthPrefixed R extData;
            Some (m\<lparr>ch_ocspStapling := (statusType = statusTypeOCSP)\<rparr>, Some extData)}
      else if extension = extensionSupportedCurves then
        do {(curves, extData) \<leftarrow> r_ReadUint16LengthPrefixed R extData;
            xs \<leftarrow> read_u16s R curves;
            Some (m\<lparr>ch_supportedCurves := ch_supportedCurves m @ xs\<rparr>, Some extData)}
      else if extension = extensionSupportedPoints then
        do {(points, extData) \<leftarrow> readUint8LengthPrefixed R extData;
            if length points = 0 then None
            else Some (m\<lparr>ch_supportedPoints := points\<rparr>, Some extData)}
      else if extension = extensionSessionTicket then
        (case r_ReadBytes R (length extData) extData of
           Some (ticket, extData) \<Rightarrow>
             Some (m\<lparr>ch_ticketSupported := True, ch_sessionTicket := ticket\<rparr>, Some extData)
         | None \<Rightarrow> Some (m\<lparr>ch_ticketSupported := True\<rparr>, Some extData))
      else if extension = extensionSignatureAlgorithms then
        do {(algs, extData) \<leftarrow> r_ReadUint16LengthPrefixed R extData;
            xs \<leftarrow> read_u16s R algs;
            Some (m\<lparr>ch_supportedSignatureAlgorithms := ch_supportedSignatureAlgorithms m @ xs\<rparr>,
                  Some extData)}
      else if extension = extensionSignatureAlgorithmsCert then
        do {(algs, extData) \<leftarrow> r_ReadUint16LengthPrefixed R extData;
            xs \<leftarrow> read_u16s R algs;
            Some (m\<lparr>ch_supportedSignatureAlgorithmsCert := ch_supportedSignatureAlgorithmsCert m @ xs\<rparr>,
                  Some extData)}
      else if extension = extensionRenegotiationInfo then
        do {(info, extData) \<leftarrow> readUint8LengthPrefixed R extData;
            Some (m\<lparr>ch_secureRenegotiation := info, ch_secureRenegotiationSupported := True\<rparr>,
                  Some extData)}
      else if extension = extensionExtendedMasterSecret then
        Some (m\<lparr>ch_extendedMasterSecret := True\<rparr>, Some extData)
      else if extension = extensionALPN then
        do {(protoList, extData) \<leftarrow> r_ReadUint16LengthPrefixed R extData;
            if r_Empty R protoList then None else do {
            xs \<leftarrow> read_list R (\<lambda>s. do {(proto, s) \<leftarrow> r_ReadUint8LengthPrefixed R s;
                                       if r_Empty R proto then None else Some (proto, s)}) protoList;
            Some (m\<lparr>ch_alpnProtocols := ch_alpnProtocols m @ xs\<rparr>, Some extData)}}
      else if extension = extensionSCT then Some (m\<lparr>ch_scts := True\<rparr>, Some extData)
      else if extension = extensionSupportedVersions then
        do {(versList, extData) \<leftarrow> r_ReadUint8LengthPrefixed R extData;
            xs \<leftarrow> read_u16s R versList;
            Some (m\<lparr>ch_supportedVersions := ch_supportedVersions m @ xs\<rparr>, Some extData)}
      else if extension = extensionCookie then
        do {(cookie, extData) \<leftarrow> readUint16LengthPrefixed R extData;
            if length cookie = 0 then None else Some (m\<lparr>ch_cookie := cookie\<rparr>, Some extData)}
      else if extension = extensionKeyShare then
        do {(clientShares, extData) \<leftarrow> r_ReadUint16LengthPrefixed R extData;
            xs \<leftarrow> read_list R (read_keyShare R) clientShares;
            Some (m\<lparr>ch_keyShares := ch_keyShares m @ xs\<rparr>, Some extData)}
      else if extension = extensionEarlyData then
        Some (m\<lparr>ch_earlyData := True\<rparr>, Some extData)
      else if extension = extensionPSKModes then
        do {(modes, extData) \<leftarrow> readUint8LengthPrefixed R extData;
            Some (m\<lparr>ch_pskModes := modes\<rparr>, Some extData)}
      else if extension = extensionQUICTransportParameters then
        do {(params, extData) \<leftarrow> r_CopyBytes R (length extData) extData;
            Some (m\<lparr>ch_quicTransportParameters := Some params\<rparr>, Some extData)}
      else if extension = extensionPreSharedKey then
        if \<not> r_Empty R extensions then None
        else do {(m, extData) \<leftarrow> read_psk R extData m; Some (m, Some extData)}
      else if extension = extensionEncryptedClientHello then
        do {(ech, extData) \<leftarrow> r_ReadBytes R (length extData) extData;
            Some (m\<lparr>ch_encryptedClientHello := ech\<rparr>, Some extData)}
      else Some (m, None))"

text \<open>The body of the loop over the extensions; the set is the map \<open>seenExts\<close>.\<close>

definition ch_ext_step ::
  "reader_ops \<Rightarrow> bytes \<Rightarrow> clientHelloMsg \<times> u16 set \<Rightarrow> ((clientHelloMsg \<times> u16 set) \<times> bytes) option" where
  "ch_ext_step R extensions = (\<lambda>(m, seenExts).
     do {(extension, extensions) \<leftarrow> r_ReadUint16 R extensions;
         (extData, extensions) \<leftarrow> r_ReadUint16LengthPrefixed R extensions;
         if extension \<in> seenExts then None else do {
         (m, left) \<leftarrow> ch_switch R extension extData extensions
                       (m\<lparr>ch_extensions := ch_extensions m @ [extension]\<rparr>);
         case left of
           None \<Rightarrow> Some ((m, insert extension seenExts), extensions)
         | Some extData \<Rightarrow>
             if \<not> r_Empty R extData then None
             else Some ((m, insert extension seenExts), extensions)}})"

definition ch_unmarshal :: "reader_ops \<Rightarrow> bytes \<Rightarrow> clientHelloMsg option" where
  "ch_unmarshal R data =
     do {s \<leftarrow> r_Skip R 4 data;
         (vers, s) \<leftarrow> r_ReadUint16 R s;
         (random, s) \<leftarrow> r_ReadBytes R 32 s;
         (sessionId, s) \<leftarrow> readUint8LengthPrefixed R s;
         (suites, s) \<leftarrow> r_ReadUint16LengthPrefixed R s;
         cipherSuites \<leftarrow> read_list R (r_ReadUint16 R) suites;
         (compressionMethods, s) \<leftarrow> readUint8LengthPrefixed R s;
         let m = ch_zero\<lparr>ch_original := Some data, ch_vers := vers, ch_random := random,
                   ch_sessionId := sessionId, ch_cipherSuites := cipherSuites,
                   ch_secureRenegotiationSupported := (scsvRenegotiation \<in> set cipherSuites),
                   ch_compressionMethods := compressionMethods\<rparr>
         in if r_Empty R s then Some m else do {
            (extensions, s) \<leftarrow> r_ReadUint16LengthPrefixed R s;
            if \<not> r_Empty R s then None else do {
            (m, seen) \<leftarrow> loop R (ch_ext_step R) (length extensions) extensions (m, {});
            Some m}}}"

definition ch_originalBytes :: "clientHelloMsg \<Rightarrow> bytes option" where
  "ch_originalBytes m = ch_original m"

text \<open>\<open>clone\<close> copies every field but \<open>extensions\<close>.\<close>

definition ch_clone :: "clientHelloMsg \<Rightarrow> clientHelloMsg" where
  "ch_clone m =
     \<lparr>ch_original = ch_original m, ch_vers = ch_vers m, ch_random = ch_random m,
      ch_sessionId = ch_sessionId m, ch_cipherSuites = ch_cipherSuites m,
      ch_compressionMethods = ch_compressionMethods m, ch_serverName = ch_serverName m,
      ch_ocspStapling = ch_ocspStapling m, ch_supportedCurves = ch_supportedCurves m,
      ch_supportedPoints = ch_supportedPoints m, ch_ticketSupported = ch_ticketSupported m,
      ch_sessionTicket = ch_sessionTicket m,
      ch_supportedSignatureAlgorithms = ch_supportedSignatureAlgorithms m,
      ch_supportedSignatureAlgorithmsCert = ch_supportedSignatureAlgorithmsCert m,
      ch_secureRenegotiationSupported = ch_secureRenegotiationSupported m,
      ch_secureRenegotiation = ch_secureRenegotiation m,
      ch_extendedMasterSecret = ch_extendedMasterSecret m, ch_alpnProtocols = ch_alpnProtocols m,
      ch_scts = ch_scts m, ch_supportedVersions = ch_supportedVersions m, ch_cookie = ch_cookie m,
      ch_keyShares = ch_keyShares m, ch_earlyData = ch_earlyData m, ch_pskModes = ch_pskModes m,
      ch_pskIdentities = ch_pskIdentities m, ch_pskBinders = ch_pskBinders m,
      ch_quicTransportParameters = ch_quicTransportParameters m,
      ch_encryptedClientHello = ch_encryptedClientHello m, ch_extensions = []\<rparr>"

end
