(* ===== verification/WireFormat.thy ===== *)
theory WireFormat
  imports ClientHello
begin

text \<open>
  What the handshake messages share: the shape of an extension on the wire and the lemmas
  that say which builder code emits it, and the loop over the extensions of a message, with
  the lemma that reading back a sequence of encoded extensions applies one update per
  extension that is present.
\<close>

section \<open>Extensions on the wire\<close>

definition ext_opt :: "bool \<Rightarrow> u16 \<Rightarrow> bytes option \<Rightarrow> bytes option" where
  "ext_opt c i body = (if c then cat [Some (put_u16 i), lp 2 body] else Some [])"

definition u16s :: "u16 list \<Rightarrow> bytes option" where
  "u16s xs = Some (concat (map put_u16 xs))"

lemma put_not_Nil [simp]: "put_u16 v \<noteq> []" "put_u32 w \<noteq> []" "put_be (numeral k) n \<noteq> []"
  using length_put_u(1) [of v] length_put_u(2) [of w] length_put_be [of "numeral k" n]
  by (metis length_0_conv zero_neq_numeral)+

lemma put_u16_0: "put_u16 0 = [0, 0]"
  by code_simp

lemma lp_SomeD: "lp n r = Some x \<Longrightarrow> \<exists>b. r = Some b \<and> length b < 256 ^ n \<and> x = put_be n (length b) @ b"
  by (simp add: lp_Some_iff)

lemma cat_append: "cat (xs @ ys) = cat [cat xs, cat ys]"
  by (induction xs) (auto split: option.splits)

context cryptobyte_Builder
begin

lemma emits_conv: "emits B f r \<Longrightarrow> r = r' \<Longrightarrow> emits B f r'"
  by simp

lemma emits_one: "emits B f r \<Longrightarrow> emits B (seq [f]) r"
  using emits_seq_Cons [of f r "[]" "[]"] emits_seq_Nil by (cases r) simp_all

lemma emits_two: "emits B f r \<Longrightarrow> emits B g q \<Longrightarrow> emits B (seq [f, g]) (cat [r, q])"
  by (intro emits_seq) simp

lemma emits_addBytesWithLength:
  "emits B (addBytesWithLength B v n) (if length v = n then Some v else None)"
proof (cases "length v = n")
  case True
  have "b_Bytes B (addBytesWithLength B v n b) = b_Bytes B (b_AddBytes B v b)" for b
    unfolding addBytesWithLength_def by (rule AddValue_ok) (simp add: True)
  with AddBytes_emits [of v] True show ?thesis
    by (simp add: emits_def failed_def)
next
  case False
  have "b_Bytes B (addBytesWithLength B v n b) = Fail (ErrMsg ''invalid value length'')" for b
    unfolding addBytesWithLength_def by (rule AddValue_error) (simp add: False)
  with False show ?thesis
    by (simp add: emits_def failed_def)
qed

lemma emits_ext:
  assumes "c' \<longleftrightarrow> c" "emits B f body"
  shows "emits B (cond c' [b_AddUint16 B i, b_AddUint16LengthPrefixed B f]) (ext_opt c i body)"
  using emits_cond [of "[b_AddUint16 B i, b_AddUint16LengthPrefixed B f]" "[Some (put_u16 i), lp 2 body]" c]
    AddUint16_emits [of i] AddUint16LengthPrefixed_emits [OF assms(2)] assms(1)
  by (simp add: ext_opt_def)

lemma emits_ext_empty:
  assumes "c' \<longleftrightarrow> c"
  shows "emits B (cond c' [b_AddUint16 B i, b_AddUint16 B 0]) (ext_opt c i (Some []))"
proof -
  have "ext_opt c i (Some []) = (if c then cat [Some (put_u16 i), Some (put_u16 0)] else Some [])"
    by (simp add: ext_opt_def lp_def numeral_2_eq_2 put_u16_0)
  then show ?thesis
    using emits_cond [of "[b_AddUint16 B i, b_AddUint16 B 0]" "[Some (put_u16 i), Some (put_u16 0)]" c]
      AddUint16_emits assms by simp
qed

lemma emits_u16s: "emits B (each xs (b_AddUint16 B)) (u16s xs)"
  using emits_each [of xs "b_AddUint16 B" "\<lambda>x. Some (put_u16 x)"] AddUint16_emits
  by (simp add: u16s_def)

lemma emits_lp_bytes:
  "emits B (b_AddUint8LengthPrefixed B (seq [b_AddBytes B xs])) (lp 1 (Some xs))"
  "emits B (b_AddUint16LengthPrefixed B (seq [b_AddBytes B xs])) (lp 2 (Some xs))"
  "emits B (b_AddUint24LengthPrefixed B (seq [b_AddBytes B xs])) (lp 3 (Some xs))"
  by (intro AddUint8LengthPrefixed_emits AddUint16LengthPrefixed_emits AddUint24LengthPrefixed_emits
      emits_one AddBytes_emits)+

lemma emits_opt_exts:
  "emits B (cond (length eb > 0) [b_AddUint16LengthPrefixed B (seq [b_AddBytes B eb])])
     (if eb \<noteq> [] then lp 2 (Some eb) else Some [])"
  using emits_cond [of "[b_AddUint16LengthPrefixed B (seq [b_AddBytes B eb])]" "[lp 2 (Some eb)]"
      "eb \<noteq> []"] emits_lp_bytes(2) [of eb]
  by (cases "lp 2 (Some eb)") auto

lemmas emits_rules =
  emits_ext emits_ext_empty emits_u16s emits_lp_bytes AddUint8LengthPrefixed_emits
  AddUint16LengthPrefixed_emits AddUint24LengthPrefixed_emits emits_addBytesWithLength
  AddUint8_emits AddUint16_emits AddUint32_emits AddBytes_emits

end

section \<open>The loop over the extensions\<close>

text \<open>
  The body of the loop \<open>for !extensions.Empty()\<close>.  The switch maps the extension's number
  and data and the message to the message and what is left of the data, or \<open>None\<close> in its
  place in the \<open>default\<close> case, which ignores the extension.
\<close>

type_synonym 'm ext_switch = "u16 \<Rightarrow> bytes \<Rightarrow> 'm \<Rightarrow> ('m \<times> bytes option) option"

definition ext_step ::
  "reader_ops \<Rightarrow> 'm ext_switch \<Rightarrow> bytes \<Rightarrow> 'm \<Rightarrow> ('m \<times> bytes) option" where
  "ext_step R sw extensions m =
     do {(extension, extensions) \<leftarrow> r_ReadUint16 R extensions;
         (extData, extensions) \<leftarrow> r_ReadUint16LengthPrefixed R extensions;
         (m, left) \<leftarrow> sw extension extData m;
         case left of
           None \<Rightarrow> Some (m, extensions)
         | Some extData \<Rightarrow> if \<not> r_Empty R extData then None else Some (m, extensions)}"

text \<open>The same with the map \<open>seenExts\<close> of the extensions met so far.\<close>

definition ext_step_once ::
  "reader_ops \<Rightarrow> 'm ext_switch \<Rightarrow> bytes \<Rightarrow> 'm \<times> u16 set \<Rightarrow> (('m \<times> u16 set) \<times> bytes) option" where
  "ext_step_once R sw = ext_step R (\<lambda>extension extData (m, seenExts).
     if extension \<in> seenExts then None
     else map_option (map_prod (\<lambda>m. (m, insert extension seenExts)) id) (sw extension extData m))"

definition ext_loop :: "reader_ops \<Rightarrow> 'm ext_switch \<Rightarrow> bytes \<Rightarrow> 'm \<Rightarrow> 'm option" where
  "ext_loop R sw extensions m = loop R (ext_step R sw) (length extensions) extensions m"

definition ext_loop_once :: "reader_ops \<Rightarrow> 'm ext_switch \<Rightarrow> bytes \<Rightarrow> 'm \<Rightarrow> 'm option" where
  "ext_loop_once R sw extensions m =
     map_option fst (loop R (ext_step_once R sw) (length extensions) extensions (m, {}))"

text \<open>What every turn of a loop keeps holds at the end.\<close>

lemma loop_inv_rest:
  assumes "loop R step n s v = Some v'" and "I s v"
    and "\<And>s v w s'. \<not> r_Empty R s \<Longrightarrow> step s v = Some (w, s') \<Longrightarrow> I s v \<Longrightarrow> I s' w"
  shows "\<exists>s'. r_Empty R s' \<and> I s' v'"
  using assms(1,2)
proof (induction n arbitrary: s v)
  case 0
  then show ?case
    by (auto split: if_splits)
next
  case (Suc n)
  then show ?case
    using assms(3) by (auto simp: bind_eq_Some_conv split: if_splits)
qed

lemma loop_inv:
  assumes "loop R step n s v = Some v'" and "I v"
    and "\<And>s v w s'. step s v = Some (w, s') \<Longrightarrow> I v \<Longrightarrow> I w"
  shows "I v'"
  using loop_inv_rest [of R step n s v v' "\<lambda>_. I"] assms by blast

text \<open>
  An extension a message may carry: whether it is present, its number, its body, and the
  update of the message that reading it makes.
\<close>

datatype 'm ext_item = Ext (x_present: bool) (x_number: u16) (x_body: "bytes option") (x_update: "'m \<Rightarrow> 'm")

definition item_bytes :: "'m ext_item \<Rightarrow> bytes option" where
  "item_bytes e = ext_opt (x_present e) (x_number e) (x_body e)"

definition item_apply :: "'m ext_item \<Rightarrow> 'm \<Rightarrow> 'm" where
  "item_apply e m = (if x_present e then x_update e m else m)"

definition reads_back :: "'m ext_switch \<Rightarrow> 'm ext_item \<Rightarrow> bool" where
  "reads_back sw e \<longleftrightarrow>
     (x_present e \<longrightarrow> (\<forall>b m. x_body e = Some b \<longrightarrow> sw (x_number e) b m = Some (x_update e m, Some [])))"

definition numbers :: "'m ext_item list \<Rightarrow> u16 list" where
  "numbers es = map x_number (filter x_present es)"

lemma in_numbers_Cons:
  "x \<in> set (numbers (e # es)) \<longleftrightarrow> x_present e \<and> x = x_number e \<or> x \<in> set (numbers es)"
  "x \<in> set (numbers []) \<longleftrightarrow> False"
  by (auto simp: numbers_def)

lemma distinct_numbers_Cons:
  "distinct (numbers (e # es)) \<longleftrightarrow> (x_present e \<longrightarrow> x_number e \<notin> set (numbers es)) \<and> distinct (numbers es)"
  "distinct (numbers []) \<longleftrightarrow> True"
  by (auto simp: numbers_def)

lemmas numbers_simps = in_numbers_Cons distinct_numbers_Cons

lemma reads_backI:
  "(\<And>b m. c \<Longrightarrow> body = Some b \<Longrightarrow> sw i b m = Some (u m, Some [])) \<Longrightarrow> reads_back sw (Ext c i body u)"
  by (simp add: reads_back_def)

context cryptobyte_String
begin

lemma skip4: "length (a # b) = 4 \<Longrightarrow> r_Skip R 4 ((a # b) @ s) = Some s"
  by (subst Skip_law, subst cutn_append) simp_all

lemma ext_step_shorter:
  assumes "ext_step R sw s v = Some (v', s')"
  shows "length s' < length s"
proof -
  obtain e s1 where e: "r_ReadUint16 R s = Some (e, s1)"
    and "\<exists>d. r_ReadUint16LengthPrefixed R s1 = Some (d, s')"
    using assms by (auto simp: ext_step_def bind_eq_Some_conv split: if_splits option.splits)
  then show ?thesis
    using cut_lp_shorter [of 2 s1] by (auto simp: laws dest!: cutn_shorter)
qed

lemma ext_loop_Nil [simp]: "ext_loop R sw [] m = Some m"
  by (simp add: ext_loop_def)

lemma ext_loop_step:
  assumes "s \<noteq> []" "ext_step R sw s m = Some (m', s')"
  shows "ext_loop R sw s m = ext_loop R sw s' m'"
proof -
  obtain n where n: "length s = Suc n"
    using assms(1) by (cases s) auto
  have "length s' \<le> n"
    using ext_step_shorter [OF assms(2)] n by simp
  then have "loop R (ext_step R sw) n s' m' = ext_loop R sw s' m'"
    unfolding ext_loop_def by (intro loop_enough ext_step_shorter)
  with assms n show ?thesis
    by (simp add: ext_loop_def)
qed

lemma ext_loop_item:
  assumes "item_bytes e = Some x" and "x_present e \<Longrightarrow> \<exists>b. x_body e = Some b \<and> sw (x_number e) b m = Some (m', Some [])"
    and "\<not> x_present e \<Longrightarrow> m' = m"
  shows "ext_loop R sw (x @ rest) m = ext_loop R sw rest m'"
proof (cases "x_present e")
  case True
  then obtain b where b: "x_body e = Some b" "length b < 65536" "sw (x_number e) b m = Some (m', Some [])"
    and x': "x = put_u16 (x_number e) @ put_be 2 (length b) @ b"
    using assms(1,2) by (auto simp: item_bytes_def ext_opt_def cat_Some_iff lp_Some_iff simp del: cat.simps(2))
  have "ext_step R sw (x @ rest) m = Some (m', rest)"
    using b by (simp add: ext_step_def x')
  moreover have "x @ rest \<noteq> []"
    by (simp add: x')
  ultimately show ?thesis
    by (intro ext_loop_step)
next
  case False
  then show ?thesis
    using assms(1,3) by (simp add: item_bytes_def ext_opt_def)
qed

lemma item_body: "item_bytes e = Some x \<Longrightarrow> x_present e \<Longrightarrow> \<exists>b. x_body e = Some b"
  by (auto simp: item_bytes_def ext_opt_def cat_Some_iff lp_Some_iff simp del: cat.simps(2))

text \<open>Reading back a sequence of extensions applies their updates in order.\<close>

lemma ext_loop_items_on:
  assumes "cat (map item_bytes es) = Some x" and "I m"
    and "\<And>e b m. e \<in> set es \<Longrightarrow> x_present e \<Longrightarrow> x_body e = Some b \<Longrightarrow> I m \<Longrightarrow>
           sw (x_number e) b m = Some (x_update e m, Some []) \<and> I (x_update e m)"
  shows "ext_loop R sw x m = Some (fold item_apply es m)"
  using assms
proof (induction es arbitrary: x m)
  case (Cons e es)
  then obtain y z where y: "item_bytes e = Some y" "cat (map item_bytes es) = Some z" "x = y @ z"
    by (auto simp: cat_Some_iff simp del: cat.simps(2))
  have keep: "I (item_apply e m)"
    using Cons.prems(2,3) item_body [OF y(1)] by (auto simp: item_apply_def)
  have "ext_loop R sw (y @ z) m = ext_loop R sw z (item_apply e m)"
    using item_body [OF y(1)] Cons.prems(2) Cons.prems(3) [of e]
    by (intro ext_loop_item [OF y(1)]) (auto simp: item_apply_def)
  also have "\<dots> = Some (fold item_apply es (item_apply e m))"
    using y(2) keep Cons.prems(3) by (intro Cons.IH) simp_all
  finally show ?case
    by (simp add: y(3))
qed simp

lemma ext_loop_items:
  assumes "cat (map item_bytes es) = Some x" and "\<And>e. e \<in> set es \<Longrightarrow> reads_back sw e"
  shows "ext_loop R sw x m = Some (fold item_apply es m)"
  using assms by (intro ext_loop_items_on [where I = "\<lambda>_. True"]) (auto simp: reads_back_def)

lemma ext_loop_once_items:
  assumes x: "cat (map item_bytes es) = Some x" and sw: "\<And>e. e \<in> set es \<Longrightarrow> reads_back sw e"
    and d: "distinct (numbers es)"
  shows "ext_loop_once R sw x m = Some (fold item_apply es m)"
proof -
  define sw' where "sw' = (\<lambda>extension extData (m, seenExts).
     if extension \<in> seenExts then None
     else map_option (map_prod (\<lambda>m. (m, insert extension seenExts)) id) (sw extension extData m))"
  have "ext_loop R sw' x (m, seen) = Some (fold item_apply es m, seen \<union> set (numbers es))"
    if "seen \<inter> set (numbers es) = {}" for seen
    using x sw d that
  proof (induction es arbitrary: x m seen)
    case (Cons e es)
    then obtain y z where y: "item_bytes e = Some y" "cat (map item_bytes es) = Some z" "x = y @ z"
      by (auto simp: cat_Some_iff simp del: cat.simps(2))
    define seen' where "seen' = seen \<union> set (numbers [e])"
    have "ext_loop R sw' (y @ z) (m, seen) = ext_loop R sw' z (item_apply e m, seen')"
      using item_body [OF y(1)] Cons.prems(2) [of e] Cons.prems(4)
      by (intro ext_loop_item [OF y(1)]) (auto simp: reads_back_def item_apply_def sw'_def seen'_def numbers_def)
    also have "\<dots> = Some (fold item_apply es (item_apply e m), seen' \<union> set (numbers es))"
      using y(2) Cons.prems(2-4) by (intro Cons.IH) (auto simp: seen'_def numbers_def split: if_splits)
    finally show ?case
      by (auto simp: y(3) seen'_def numbers_def)
  qed (simp add: numbers_def)
  from this [of "{}"] show ?thesis
    by (simp add: ext_loop_once_def ext_step_once_def sw'_def ext_loop_def)
qed

end

end
