(* ===== verification/ClientHelloProofs.thy ===== *)
theory ClientHelloProofs
  imports WireFormat
begin

text \<open>
  The wire format of a ClientHello, and the proofs that \<open>marshalMsg\<close> writes it and
  \<open>unmarshal\<close> reads it back.
\<close>

section \<open>The wire format\<close>

definition enc_keyShare :: "keyShare \<Rightarrow> bytes option" where
  "enc_keyShare ks = cat [Some (put_u16 (ks_group ks)), lp 2 (Some (ks_data ks))]"

definition enc_pskIdentity :: "pskIdentity \<Rightarrow> bytes option" where
  "enc_pskIdentity psk =
     cat [lp 2 (Some (psk_label psk)), Some (put_u32 (psk_obfuscatedTicketAge psk))]"

definition enc_plain :: "clientHelloMsg \<Rightarrow> bool \<Rightarrow> bytes option list" where
  "enc_plain m inner =
     [ext_opt (ch_serverName m \<noteq> []) extensionServerName
        (lp 2 (cat [Some [0], lp 2 (Some (ch_serverName m))])),
      ext_opt (ch_supportedPoints m \<noteq> [] \<and> \<not> inner) extensionSupportedPoints
        (lp 1 (Some (ch_supportedPoints m))),
      ext_opt (ch_ticketSupported m \<and> \<not> inner) extensionSessionTicket (Some (ch_sessionTicket m)),
      ext_opt (ch_secureRenegotiationSupported m \<and> \<not> inner) extensionRenegotiationInfo
        (lp 1 (Some (ch_secureRenegotiation m))),
      ext_opt (ch_extendedMasterSecret m \<and> \<not> inner) extensionExtendedMasterSecret (Some []),
      ext_opt (ch_scts m) extensionSCT (Some []),
      ext_opt (ch_earlyData m) extensionEarlyData (Some []),
      ext_opt (ch_quicTransportParameters m \<noteq> None) extensionQUICTransportParameters
        (Some (the (ch_quicTransportParameters m))),
      ext_opt (ch_encryptedClientHello m \<noteq> []) extensionEncryptedClientHello
        (Some (ch_encryptedClientHello m))]"

definition enc_outer :: "clientHelloMsg \<Rightarrow> bool \<Rightarrow> bytes option list" where
  "enc_outer m inner =
     [ext_opt (ch_ocspStapling m \<and> \<not> inner) extensionStatusRequest (Some [1, 0, 0, 0, 0]),
      ext_opt (ch_supportedCurves m \<noteq> [] \<and> \<not> inner) extensionSupportedCurves
        (lp 2 (u16s (ch_supportedCurves m))),
      ext_opt (ch_supportedSignatureAlgorithms m \<noteq> [] \<and> \<not> inner) extensionSignatureAlgorithms
        (lp 2 (u16s (ch_supportedSignatureAlgorithms m))),
      ext_opt (ch_supportedSignatureAlgorithmsCert m \<noteq> [] \<and> \<not> inner) extensionSignatureAlgorithmsCert
        (lp 2 (u16s (ch_supportedSignatureAlgorithmsCert m))),
      ext_opt (ch_alpnProtocols m \<noteq> [] \<and> \<not> inner) extensionALPN
        (lp 2 (cat (map (\<lambda>p. lp 1 (Some p)) (ch_alpnProtocols m)))),
      ext_opt (ch_supportedVersions m \<noteq> [] \<and> \<not> inner) extensionSupportedVersions
        (lp 1 (u16s (ch_supportedVersions m))),
      ext_opt (ch_cookie m \<noteq> [] \<and> \<not> inner) extensionCookie (lp 2 (Some (ch_cookie m))),
      ext_opt (ch_keyShares m \<noteq> [] \<and> \<not> inner) extensionKeyShare
        (lp 2 (cat (map enc_keyShare (ch_keyShares m)))),
      ext_opt (ch_pskModes m \<noteq> [] \<and> \<not> inner) extensionPSKModes (lp 1 (Some (ch_pskModes m)))]"

definition enc_tail :: "clientHelloMsg \<Rightarrow> bool \<Rightarrow> bytes option list" where
  "enc_tail m inner =
     [ext_opt (ch_echOuterExts m \<noteq> [] \<and> inner) extensionECHOuterExtensions
        (lp 1 (u16s (ch_echOuterExts m))),
      ext_opt (ch_pskIdentities m \<noteq> []) extensionPreSharedKey
        (cat [lp 2 (cat (map enc_pskIdentity (ch_pskIdentities m))),
              lp 2 (cat (map (\<lambda>b. lp 1 (Some b)) (ch_pskBinders m)))])]"

definition enc_exts :: "clientHelloMsg \<Rightarrow> bool \<Rightarrow> bytes option" where
  "enc_exts m inner = cat (enc_plain m inner @ enc_outer m inner @ enc_tail m inner)"

definition enc_clientHello :: "clientHelloMsg \<Rightarrow> bool \<Rightarrow> bytes option" where
  "enc_clientHello m inner =
     Option.bind (enc_exts m inner) (\<lambda>extBytes.
       cat [Some [typeClientHello],
            lp 3 (cat [Some (put_u16 (ch_vers m)),
                       (if length (ch_random m) = 32 then Some (ch_random m) else None),
                       lp 1 (Some (if inner then [] else ch_sessionId m)),
                       lp 2 (u16s (ch_cipherSuites m)),
                       lp 1 (Some (ch_compressionMethods m)),
                       (if extBytes \<noteq> [] then lp 2 (Some extBytes) else Some [])])])"

section \<open>\<open>marshalMsg\<close> writes the wire format\<close>

context cryptobyte_Builder
begin

lemma emits_keyShare:
  "emits B (seq [b_AddUint16 B (ks_group ks), b_AddUint16LengthPrefixed B (seq [b_AddBytes B (ks_data ks)])])
     (enc_keyShare ks)"
  unfolding enc_keyShare_def by (intro emits_two emits_rules)

lemma emits_pskIdentity:
  "emits B (seq [b_AddUint16LengthPrefixed B (seq [b_AddBytes B (psk_label psk)]),
     b_AddUint32 B (psk_obfuscatedTicketAge psk)]) (enc_pskIdentity psk)"
  unfolding enc_pskIdentity_def by (intro emits_two emits_rules)

lemma emits_plain: "list_all2 (emits B) (ch_exts_plain B m inner) (enc_plain m inner)"
  unfolding ch_exts_plain_def enc_plain_def list_all2_Cons list_all2_Nil
  by (intro conjI TrueI emits_rules emits_one emits_two) (rule refl | simp)+

lemma emits_outer: "list_all2 (emits B) (ch_exts_outer B m inner) (enc_outer m inner)"
proof -
  have ocsp: "emits B (seq [b_AddUint8 B 1, b_AddUint16 B 0, b_AddUint16 B 0]) (Some [1, 0, 0, 0, 0])"
    using emits_seq [of "[b_AddUint8 B 1, b_AddUint16 B 0, b_AddUint16 B 0]"
        "[Some [1], Some (put_u16 0), Some (put_u16 0)]"] AddUint8_emits [of 1] AddUint16_emits [of 0]
    by (simp add: put_u16_0)
  show ?thesis
    unfolding ch_exts_outer_def enc_outer_def list_all2_Cons list_all2_Nil
    by (intro conjI TrueI emits_rules emits_one emits_each emits_keyShare ocsp) simp_all
qed

lemma emits_last: "list_all2 (emits B) (ch_exts_last B m inner) (enc_tail m inner)"
  unfolding ch_exts_last_def enc_tail_def list_all2_Cons list_all2_Nil
  by (intro conjI TrueI emits_rules emits_one emits_two emits_each emits_pskIdentity) simp_all

lemma marshalMsg_enc: "ch_marshalMsg B m inner = Ret bs \<longleftrightarrow> enc_clientHello m inner = Some bs"
proof -
  let ?exts = "ch_exts_plain B m inner @ ch_exts_outer B m inner @ ch_exts_last B m inner"
  have exts: "b_Bytes B (seq ?exts (b_new B)) = Ret eb \<longleftrightarrow> enc_exts m inner = Some eb" for eb
    unfolding enc_exts_def
    by (intro emits_Bytes emits_seq list_all2_appendI emits_plain emits_outer emits_last)
  have sid: "emits B (seq [cond (\<not> inner) [b_AddBytes B (ch_sessionId m)]])
      (Some (if inner then [] else ch_sessionId m))"
    using emits_one [OF emits_cond [of "[b_AddBytes B (ch_sessionId m)]" "[Some (ch_sessionId m)]" "\<not> inner"]]
      AddBytes_emits by (simp split: if_splits)
  have ext: "emits B (cond (length eb > 0) [b_AddUint16LengthPrefixed B (seq [b_AddBytes B eb])])
      (if eb \<noteq> [] then lp 2 (Some eb) else Some [])" for eb
    using emits_cond [of "[b_AddUint16LengthPrefixed B (seq [b_AddBytes B eb])]" "[lp 2 (Some eb)]"
        "eb \<noteq> []"] emits_lp_bytes(2) [of eb]
    by (cases "lp 2 (Some eb)") auto
  have body: "b_Bytes B (seq [b_AddUint8 B typeClientHello, b_AddUint24LengthPrefixed B (seq [
            b_AddUint16 B (ch_vers m), addBytesWithLength B (ch_random m) 32,
            b_AddUint8LengthPrefixed B (seq [cond (\<not> inner) [b_AddBytes B (ch_sessionId m)]]),
            b_AddUint16LengthPrefixed B (each (ch_cipherSuites m) (b_AddUint16 B)),
            b_AddUint8LengthPrefixed B (seq [b_AddBytes B (ch_compressionMethods m)]),
            cond (length eb > 0) [b_AddUint16LengthPrefixed B (seq [b_AddBytes B eb])]])] (b_new B)) =
          Ret bs \<longleftrightarrow>
        cat [Some [typeClientHello], lp 3 (cat [Some (put_u16 (ch_vers m)),
          (if length (ch_random m) = 32 then Some (ch_random m) else None),
          lp 1 (Some (if inner then [] else ch_sessionId m)), lp 2 (u16s (ch_cipherSuites m)),
          lp 1 (Some (ch_compressionMethods m)),
          (if eb \<noteq> [] then lp 2 (Some eb) else Some [])])] = Some bs" for eb
    by (intro emits_Bytes emits_two AddUint8_emits AddUint24LengthPrefixed_emits emits_seq,
        unfold list_all2_Cons list_all2_Nil)
      (intro conjI TrueI refl sid ext emits_rules)
  show ?thesis
    unfolding ch_marshalMsg_def enc_clientHello_def
    by (simp only: exec_bind_Ret_iff bind_eq_Some_conv exts body)
qed

end

section \<open>\<open>unmarshal\<close> reads the wire format\<close>

text \<open>What a message must satisfy to survive the trip: \<open>unmarshal\<close> rejects or cannot see the rest.\<close>

definition ch_wf :: "clientHelloMsg \<Rightarrow> bool" where
  "ch_wf m \<longleftrightarrow>
     (ch_serverName m \<noteq> [] \<longrightarrow> last (ch_serverName m) \<noteq> 46) \<and>
     (\<not> ch_ticketSupported m \<longrightarrow> ch_sessionTicket m = []) \<and>
     (\<not> ch_secureRenegotiationSupported m \<longrightarrow>
        ch_secureRenegotiation m = [] \<and> scsvRenegotiation \<notin> set (ch_cipherSuites m)) \<and>
     [] \<notin> set (ch_alpnProtocols m) \<and>
     (\<forall>ks\<in>set (ch_keyShares m). ks_data ks \<noteq> []) \<and>
     (\<forall>psk\<in>set (ch_pskIdentities m). psk_label psk \<noteq> []) \<and>
     [] \<notin> set (ch_pskBinders m) \<and>
     (ch_pskIdentities m = [] \<longleftrightarrow> ch_pskBinders m = [])"

definition ch_ext_ids :: "clientHelloMsg \<Rightarrow> u16 list" where
  "ch_ext_ids m =
     concat (map (\<lambda>(c, i). if c then [i] else [])
       [(ch_serverName m \<noteq> [], extensionServerName),
        (ch_supportedPoints m \<noteq> [], extensionSupportedPoints),
        (ch_ticketSupported m, extensionSessionTicket),
        (ch_secureRenegotiationSupported m, extensionRenegotiationInfo),
        (ch_extendedMasterSecret m, extensionExtendedMasterSecret),
        (ch_scts m, extensionSCT),
        (ch_earlyData m, extensionEarlyData),
        (ch_quicTransportParameters m \<noteq> None, extensionQUICTransportParameters),
        (ch_encryptedClientHello m \<noteq> [], extensionEncryptedClientHello),
        (ch_ocspStapling m, extensionStatusRequest),
        (ch_supportedCurves m \<noteq> [], extensionSupportedCurves),
        (ch_supportedSignatureAlgorithms m \<noteq> [], extensionSignatureAlgorithms),
        (ch_supportedSignatureAlgorithmsCert m \<noteq> [], extensionSignatureAlgorithmsCert),
        (ch_alpnProtocols m \<noteq> [], extensionALPN),
        (ch_supportedVersions m \<noteq> [], extensionSupportedVersions),
        (ch_cookie m \<noteq> [], extensionCookie),
        (ch_keyShares m \<noteq> [], extensionKeyShare),
        (ch_pskModes m \<noteq> [], extensionPSKModes),
        (ch_pskIdentities m \<noteq> [], extensionPreSharedKey)])"

text \<open>Recording an extension that is present.\<close>

definition ins :: "bool \<Rightarrow> u16 \<Rightarrow> u16 set \<Rightarrow> u16 set" where
  "ins c i S = (if c then insert i S else S)"

lemma in_ins [simp]: "j \<in> ins c i S \<longleftrightarrow> c \<and> j = i \<or> j \<in> S"
  by (simp add: ins_def)

definition note_ext :: "bool \<Rightarrow> u16 \<Rightarrow> clientHelloMsg \<times> u16 set \<Rightarrow> clientHelloMsg \<times> u16 set" where
  "note_ext c i = (\<lambda>(m, seen).
     (m\<lparr>ch_extensions := ch_extensions m @ (if c then [i] else [])\<rparr>, ins c i seen))"

text \<open>The loop over the extensions with its bound.\<close>

definition run_exts ::
  "reader_ops \<Rightarrow> bytes \<Rightarrow> clientHelloMsg \<times> u16 set \<Rightarrow> (clientHelloMsg \<times> u16 set) option" where
  "run_exts R s v = loop R (ch_ext_step R) (length s) s v"

lemma enc_exts_split:
  assumes "enc_exts m False = Some eb"
  obtains x1 x2 x3 x4 x5 x6 x7 x8 x9 x10 x11 x12 x13 x14 x15 x16 x17 x18 x19 where "eb = x1 @ x2 @ x3 @ x4 @ x5 @ x6 @ x7 @ x8 @ x9 @ x10 @ x11 @ x12 @ x13 @ x14 @ x15 @ x16 @ x17 @ x18 @ x19"
    and "ext_opt (ch_serverName m \<noteq> []) extensionServerName (lp 2 (cat [Some [0], lp 2 (Some (ch_serverName m))])) = Some x1"
    and "ext_opt (ch_supportedPoints m \<noteq> []) extensionSupportedPoints (lp 1 (Some (ch_supportedPoints m))) = Some x2"
    and "ext_opt (ch_ticketSupported m) extensionSessionTicket (Some (ch_sessionTicket m)) = Some x3"
    and "ext_opt (ch_secureRenegotiationSupported m) extensionRenegotiationInfo (lp 1 (Some (ch_secureRenegotiation m))) = Some x4"
    and "ext_opt (ch_extendedMasterSecret m) extensionExtendedMasterSecret (Some []) = Some x5"
    and "ext_opt (ch_scts m) extensionSCT (Some []) = Some x6"
    and "ext_opt (ch_earlyData m) extensionEarlyData (Some []) = Some x7"
    and "ext_opt (ch_quicTransportParameters m \<noteq> None) extensionQUICTransportParameters (Some (the (ch_quicTransportParameters m))) = Some x8"
    and "ext_opt (ch_encryptedClientHello m \<noteq> []) extensionEncryptedClientHello (Some (ch_encryptedClientHello m)) = Some x9"
    and "ext_opt (ch_ocspStapling m) extensionStatusRequest (Some [1, 0, 0, 0, 0]) = Some x10"
    and "ext_opt (ch_supportedCurves m \<noteq> []) extensionSupportedCurves (lp 2 (u16s (ch_supportedCurves m))) = Some x11"
    and "ext_opt (ch_supportedSignatureAlgorithms m \<noteq> []) extensionSignatureAlgorithms (lp 2 (u16s (ch_supportedSignatureAlgorithms m))) = Some x12"
    and "ext_opt (ch_supportedSignatureAlgorithmsCert m \<noteq> []) extensionSignatureAlgorithmsCert (lp 2 (u16s (ch_supportedSignatureAlgorithmsCert m))) = Some x13"
    and "ext_opt (ch_alpnProtocols m \<noteq> []) extensionALPN (lp 2 (cat (map (\<lambda>p. lp 1 (Some p)) (ch_alpnProtocols m)))) = Some x14"
    and "ext_opt (ch_supportedVersions m \<noteq> []) extensionSupportedVersions (lp 1 (u16s (ch_supportedVersions m))) = Some x15"
    and "ext_opt (ch_cookie m \<noteq> []) extensionCookie (lp 2 (Some (ch_cookie m))) = Some x16"
    and "ext_opt (ch_keyShares m \<noteq> []) extensionKeyShare (lp 2 (cat (map enc_keyShare (ch_keyShares m)))) = Some x17"
    and "ext_opt (ch_pskModes m \<noteq> []) extensionPSKModes (lp 1 (Some (ch_pskModes m))) = Some x18"
    and "ext_opt (ch_pskIdentities m \<noteq> []) extensionPreSharedKey (cat [lp 2 (cat (map enc_pskIdentity (ch_pskIdentities m))),
        lp 2 (cat (map (\<lambda>b. lp 1 (Some b)) (ch_pskBinders m)))]) = Some x19"
proof -
  have none: "ext_opt (c \<and> False) i b = Some []" for c i b
    by (simp add: ext_opt_def)
  show thesis
    using assms that
    unfolding enc_exts_def enc_plain_def enc_outer_def enc_tail_def append.simps none
      not_False_eq_True simp_thms(21)
    by (elim cat_Some_iff [THEN iffD1, THEN exE] exE conjE) (simp only: cat_Some_iff; force)
qed

context cryptobyte_String
begin

lemma ext_step_shorter:
  assumes "ch_ext_step R s v = Some (v', s')"
  shows "length s' < length s"
proof -
  obtain e s1 where e: "r_ReadUint16 R s = Some (e, s1)"
    and "\<exists>d. r_ReadUint16LengthPrefixed R s1 = Some (d, s')"
    using assms by (cases v) (auto simp: ch_ext_step_def bind_eq_Some_conv split: if_splits option.splits)
  then show ?thesis
    using cut_lp_shorter [of 2 s1] by (auto simp: laws dest!: cutn_shorter)
qed

lemma run_exts_Nil [simp]: "run_exts R [] v = Some v"
  by (simp add: run_exts_def)

lemma run_exts_step:
  assumes "s \<noteq> []" "ch_ext_step R s v = Some (v', s')"
  shows "run_exts R s v = run_exts R s' v'"
proof -
  obtain n where n: "length s = Suc n"
    using assms(1) by (cases s) auto
  have "length s' \<le> n"
    using ext_step_shorter [OF assms(2)] n by simp
  then have "loop R (ch_ext_step R) n s' v' = run_exts R s' v'"
    unfolding run_exts_def by (intro loop_enough ext_step_shorter)
  with assms n show ?thesis
    by (simp add: run_exts_def)
qed

lemma run_ext:
  assumes x: "ext_opt c i body = Some x" and new: "i \<notin> seen"
    and sw: "\<And>b. c \<Longrightarrow> body = Some b \<Longrightarrow>
        ch_switch R i b rest (m\<lparr>ch_extensions := ch_extensions m @ [i]\<rparr>) =
        Some (m'\<lparr>ch_extensions := ch_extensions m @ [i]\<rparr>, Some [])"
    and same: "\<not> c \<Longrightarrow> m' = m" and keep: "ch_extensions m' = ch_extensions m"
  shows "run_exts R (x @ rest) (m, seen) = run_exts R rest (note_ext c i (m', seen))"
proof (cases c)
  case True
  then obtain b where b: "body = Some b" "length b < 65536"
    and x': "x = put_u16 i @ put_be 2 (length b) @ b"
    using x by (auto simp: ext_opt_def cat_Some_iff lp_Some_iff simp del: cat.simps(2))
  have "ch_ext_step R (x @ rest) (m, seen) = Some (note_ext c i (m', seen), rest)"
    using sw [OF True b(1)] new b(2) True keep by (simp add: ch_ext_step_def x' note_ext_def ins_def)
  moreover have "x @ rest \<noteq> []"
    by (simp add: x' flip: length_0_conv)
  ultimately show ?thesis
    by (intro run_exts_step)
next
  case False
  then show ?thesis
    using x same by (simp add: ext_opt_def note_ext_def ins_def)
qed

lemmas switch_simps = ch_switch_def extension_ids read_helpers read_u16s_def

lemma run_serverName:
  assumes "ext_opt (n \<noteq> []) extensionServerName (lp 2 (cat [Some [0], lp 2 (Some n)])) = Some x"
    and "extensionServerName \<notin> seen" "ch_serverName m = []" "n \<noteq> [] \<Longrightarrow> last n \<noteq> 46"
  shows "run_exts R (x @ rest) (m, seen) =
     run_exts R rest (note_ext (n \<noteq> []) extensionServerName (m\<lparr>ch_serverName := n\<rparr>, seen))"
proof (rule run_ext [OF assms(1,2)])
  fix b :: bytes
  assume n: "n \<noteq> []" and "lp 2 (cat [Some [0], lp 2 (Some n)]) = Some b"
  then have b: "b = put_be 2 (length (0 # put_be 2 (length n) @ n)) @ 0 # put_be 2 (length n) @ n"
    "length (0 # put_be 2 (length n) @ n) < 65536"
    by (auto simp: lp_Some_iff cat_Some_iff simp del: cat.simps(2))
  have step: "ch_serverName_step R (0 # put_be 2 (length n) @ n) m1 = Some (m1\<lparr>ch_serverName := n\<rparr>, [])"
    if "ch_serverName m1 = []" for m1
    using that n b(2) assms(4) by (simp add: ch_serverName_step_def)
  have "loop R (ch_serverName_step R) (length (0 # put_be 2 (length n) @ n)) (0 # put_be 2 (length n) @ n) m1 =
      Some (m1\<lparr>ch_serverName := n\<rparr>)" if "ch_serverName m1 = []" for m1
    using step [OF that] by simp
  then show "ch_switch R extensionServerName b rest (m\<lparr>ch_extensions := ch_extensions m @ [extensionServerName]\<rparr>) =
      Some (m\<lparr>ch_serverName := n, ch_extensions := ch_extensions m @ [extensionServerName]\<rparr>, Some [])"
    using assms(3) b ReadLengthPrefixed_end(2) [OF b(2)] by (simp add: switch_simps)
qed (use assms(3) in simp_all)

lemma run_supportedPoints:
  assumes "ext_opt (v \<noteq> []) extensionSupportedPoints (lp 1 (Some v)) = Some x" "extensionSupportedPoints \<notin> seen"
    and "ch_supportedPoints m = []"
  shows "run_exts R (x @ rest) (m, seen) =
     run_exts R rest (note_ext (v \<noteq> []) extensionSupportedPoints (m\<lparr>ch_supportedPoints := v\<rparr>, seen))"
proof (rule run_ext [OF assms(1,2)])
  fix b :: bytes
  assume c: "v \<noteq> []" and "lp 1 (Some v) = Some b"
  then have b: "b = of_nat (length v) # v" "length v < 256"
    by (auto simp: lp_Some_iff)
  show "ch_switch R extensionSupportedPoints b rest (m\<lparr>ch_extensions := ch_extensions m @ [extensionSupportedPoints]\<rparr>) =
      Some (m\<lparr>ch_supportedPoints := v, ch_extensions := ch_extensions m @ [extensionSupportedPoints]\<rparr>, Some [])"
    using assms(3-) c b by (simp add: switch_simps)
qed (use assms(3-) in simp_all)

lemma run_sessionTicket:
  assumes "ext_opt (t) extensionSessionTicket (Some v) = Some x" "extensionSessionTicket \<notin> seen"
    and "\<not> ch_ticketSupported m" "ch_sessionTicket m = []" "\<not> t \<Longrightarrow> v = []"
  shows "run_exts R (x @ rest) (m, seen) =
     run_exts R rest (note_ext (t) extensionSessionTicket (m\<lparr>ch_ticketSupported := t, ch_sessionTicket := v\<rparr>, seen))"
proof (rule run_ext [OF assms(1,2)])
  fix b :: bytes
  assume c: "t" and "Some v = Some b"
  then have b: "b = v"
    by simp
  show "ch_switch R extensionSessionTicket b rest (m\<lparr>ch_extensions := ch_extensions m @ [extensionSessionTicket]\<rparr>) =
      Some (m\<lparr>ch_ticketSupported := t, ch_sessionTicket := v, ch_extensions := ch_extensions m @ [extensionSessionTicket]\<rparr>, Some [])"
    using assms(3-) c b by (simp add: switch_simps)
qed (use assms(3-) in simp_all)

lemma run_renegotiation:
  assumes "ext_opt (t) extensionRenegotiationInfo (lp 1 (Some v)) = Some x" "extensionRenegotiationInfo \<notin> seen"
    and "ch_secureRenegotiation m = []" "\<not> t \<Longrightarrow> v = [] \<and> \<not> ch_secureRenegotiationSupported m"
  shows "run_exts R (x @ rest) (m, seen) =
     run_exts R rest (note_ext (t) extensionRenegotiationInfo (m\<lparr>ch_secureRenegotiationSupported := t, ch_secureRenegotiation := v\<rparr>, seen))"
proof (rule run_ext [OF assms(1,2)])
  fix b :: bytes
  assume c: "t" and "lp 1 (Some v) = Some b"
  then have b: "b = of_nat (length v) # v" "length v < 256"
    by (auto simp: lp_Some_iff)
  show "ch_switch R extensionRenegotiationInfo b rest (m\<lparr>ch_extensions := ch_extensions m @ [extensionRenegotiationInfo]\<rparr>) =
      Some (m\<lparr>ch_secureRenegotiationSupported := t, ch_secureRenegotiation := v, ch_extensions := ch_extensions m @ [extensionRenegotiationInfo]\<rparr>, Some [])"
    using assms(3-) c b by (simp add: switch_simps)
qed (use assms(3-) in simp_all)

lemma run_ems:
  assumes "ext_opt (t) extensionExtendedMasterSecret (Some []) = Some x" "extensionExtendedMasterSecret \<notin> seen"
    and "\<not> ch_extendedMasterSecret m"
  shows "run_exts R (x @ rest) (m, seen) =
     run_exts R rest (note_ext (t) extensionExtendedMasterSecret (m\<lparr>ch_extendedMasterSecret := t\<rparr>, seen))"
proof (rule run_ext [OF assms(1,2)])
  fix b :: bytes
  assume c: "t" and "Some [] = Some b"
  then have b: "b = []"
    by simp
  show "ch_switch R extensionExtendedMasterSecret b rest (m\<lparr>ch_extensions := ch_extensions m @ [extensionExtendedMasterSecret]\<rparr>) =
      Some (m\<lparr>ch_extendedMasterSecret := t, ch_extensions := ch_extensions m @ [extensionExtendedMasterSecret]\<rparr>, Some [])"
    using assms(3-) c b by (simp add: switch_simps)
qed (use assms(3-) in simp_all)

lemma run_scts:
  assumes "ext_opt (t) extensionSCT (Some []) = Some x" "extensionSCT \<notin> seen"
    and "\<not> ch_scts m"
  shows "run_exts R (x @ rest) (m, seen) =
     run_exts R rest (note_ext (t) extensionSCT (m\<lparr>ch_scts := t\<rparr>, seen))"
proof (rule run_ext [OF assms(1,2)])
  fix b :: bytes
  assume c: "t" and "Some [] = Some b"
  then have b: "b = []"
    by simp
  show "ch_switch R extensionSCT b rest (m\<lparr>ch_extensions := ch_extensions m @ [extensionSCT]\<rparr>) =
      Some (m\<lparr>ch_scts := t, ch_extensions := ch_extensions m @ [extensionSCT]\<rparr>, Some [])"
    using assms(3-) c b by (simp add: switch_simps)
qed (use assms(3-) in simp_all)

lemma run_earlyData:
  assumes "ext_opt (t) extensionEarlyData (Some []) = Some x" "extensionEarlyData \<notin> seen"
    and "\<not> ch_earlyData m"
  shows "run_exts R (x @ rest) (m, seen) =
     run_exts R rest (note_ext (t) extensionEarlyData (m\<lparr>ch_earlyData := t\<rparr>, seen))"
proof (rule run_ext [OF assms(1,2)])
  fix b :: bytes
  assume c: "t" and "Some [] = Some b"
  then have b: "b = []"
    by simp
  show "ch_switch R extensionEarlyData b rest (m\<lparr>ch_extensions := ch_extensions m @ [extensionEarlyData]\<rparr>) =
      Some (m\<lparr>ch_earlyData := t, ch_extensions := ch_extensions m @ [extensionEarlyData]\<rparr>, Some [])"
    using assms(3-) c b by (simp add: switch_simps)
qed (use assms(3-) in simp_all)

lemma run_quic:
  assumes "ext_opt (q \<noteq> None) extensionQUICTransportParameters (Some (the q)) = Some x" "extensionQUICTransportParameters \<notin> seen"
    and "ch_quicTransportParameters m = None"
  shows "run_exts R (x @ rest) (m, seen) =
     run_exts R rest (note_ext (q \<noteq> None) extensionQUICTransportParameters (m\<lparr>ch_quicTransportParameters := q\<rparr>, seen))"
proof (rule run_ext [OF assms(1,2)])
  fix b :: bytes
  assume c: "q \<noteq> None" and "Some (the q) = Some b"
  then have b: "b = the q"
    by simp
  show "ch_switch R extensionQUICTransportParameters b rest (m\<lparr>ch_extensions := ch_extensions m @ [extensionQUICTransportParameters]\<rparr>) =
      Some (m\<lparr>ch_quicTransportParameters := q, ch_extensions := ch_extensions m @ [extensionQUICTransportParameters]\<rparr>, Some [])"
    using assms(3-) c b by (simp add: switch_simps)
qed (use assms(3-) in simp_all)

lemma run_ech:
  assumes "ext_opt (v \<noteq> []) extensionEncryptedClientHello (Some v) = Some x" "extensionEncryptedClientHello \<notin> seen"
    and "ch_encryptedClientHello m = []"
  shows "run_exts R (x @ rest) (m, seen) =
     run_exts R rest (note_ext (v \<noteq> []) extensionEncryptedClientHello (m\<lparr>ch_encryptedClientHello := v\<rparr>, seen))"
proof (rule run_ext [OF assms(1,2)])
  fix b :: bytes
  assume c: "v \<noteq> []" and "Some v = Some b"
  then have b: "b = v"
    by simp
  show "ch_switch R extensionEncryptedClientHello b rest (m\<lparr>ch_extensions := ch_extensions m @ [extensionEncryptedClientHello]\<rparr>) =
      Some (m\<lparr>ch_encryptedClientHello := v, ch_extensions := ch_extensions m @ [extensionEncryptedClientHello]\<rparr>, Some [])"
    using assms(3-) c b by (simp add: switch_simps)
qed (use assms(3-) in simp_all)

lemma read_empty_list: "r_ReadUint16LengthPrefixed R (0 # 0 # s) = Some ([], s)"
  by (simp add: laws cut_lp_def cutn_def get_be_def)

lemma run_ocsp:
  assumes "ext_opt (t) extensionStatusRequest (Some [1, 0, 0, 0, 0]) = Some x" "extensionStatusRequest \<notin> seen"
    and "\<not> ch_ocspStapling m"
  shows "run_exts R (x @ rest) (m, seen) =
     run_exts R rest (note_ext (t) extensionStatusRequest (m\<lparr>ch_ocspStapling := t\<rparr>, seen))"
proof (rule run_ext [OF assms(1,2)])
  fix b :: bytes
  assume c: "t" and "Some [1, 0, 0, 0, 0] = Some b"
  then have b: "b = [1, 0, 0, 0, 0]"
    by simp
  show "ch_switch R extensionStatusRequest b rest (m\<lparr>ch_extensions := ch_extensions m @ [extensionStatusRequest]\<rparr>) =
      Some (m\<lparr>ch_ocspStapling := t, ch_extensions := ch_extensions m @ [extensionStatusRequest]\<rparr>, Some [])"
    using assms(3-) c b by (simp add: switch_simps read_empty_list code_points)
qed (use assms(3-) in simp_all)

lemma run_curves:
  assumes "ext_opt (v \<noteq> []) extensionSupportedCurves (lp 2 (u16s v)) = Some x" "extensionSupportedCurves \<notin> seen"
    and "ch_supportedCurves m = []"
  shows "run_exts R (x @ rest) (m, seen) =
     run_exts R rest (note_ext (v \<noteq> []) extensionSupportedCurves (m\<lparr>ch_supportedCurves := v\<rparr>, seen))"
proof (rule run_ext [OF assms(1,2)])
  fix b :: bytes
  assume c: "v \<noteq> []" and "lp 2 (u16s v) = Some b"
  then obtain w where b: "b = put_be 2 (length w) @ w" "length w < 65536"
    and w: "w = concat (map put_u16 v)"
    by (auto simp: lp_Some_iff u16s_def)
  have ne: "w \<noteq> []"
    using c by (cases v) (simp_all add: w)
  have rd: "read_list R (r_ReadUint16 R) w = Some v"
    by (simp add: w)
  show "ch_switch R extensionSupportedCurves b rest (m\<lparr>ch_extensions := ch_extensions m @ [extensionSupportedCurves]\<rparr>) =
      Some (m\<lparr>ch_supportedCurves := v, ch_extensions := ch_extensions m @ [extensionSupportedCurves]\<rparr>, Some [])"
    using assms(3-) c b ne rd by (simp add: switch_simps)
qed (use assms(3-) in simp_all)

lemma run_sigAlgs:
  assumes "ext_opt (v \<noteq> []) extensionSignatureAlgorithms (lp 2 (u16s v)) = Some x" "extensionSignatureAlgorithms \<notin> seen"
    and "ch_supportedSignatureAlgorithms m = []"
  shows "run_exts R (x @ rest) (m, seen) =
     run_exts R rest (note_ext (v \<noteq> []) extensionSignatureAlgorithms (m\<lparr>ch_supportedSignatureAlgorithms := v\<rparr>, seen))"
proof (rule run_ext [OF assms(1,2)])
  fix b :: bytes
  assume c: "v \<noteq> []" and "lp 2 (u16s v) = Some b"
  then obtain w where b: "b = put_be 2 (length w) @ w" "length w < 65536"
    and w: "w = concat (map put_u16 v)"
    by (auto simp: lp_Some_iff u16s_def)
  have ne: "w \<noteq> []"
    using c by (cases v) (simp_all add: w)
  have rd: "read_list R (r_ReadUint16 R) w = Some v"
    by (simp add: w)
  show "ch_switch R extensionSignatureAlgorithms b rest (m\<lparr>ch_extensions := ch_extensions m @ [extensionSignatureAlgorithms]\<rparr>) =
      Some (m\<lparr>ch_supportedSignatureAlgorithms := v, ch_extensions := ch_extensions m @ [extensionSignatureAlgorithms]\<rparr>, Some [])"
    using assms(3-) c b ne rd by (simp add: switch_simps)
qed (use assms(3-) in simp_all)

lemma run_sigAlgsCert:
  assumes "ext_opt (v \<noteq> []) extensionSignatureAlgorithmsCert (lp 2 (u16s v)) = Some x" "extensionSignatureAlgorithmsCert \<notin> seen"
    and "ch_supportedSignatureAlgorithmsCert m = []"
  shows "run_exts R (x @ rest) (m, seen) =
     run_exts R rest (note_ext (v \<noteq> []) extensionSignatureAlgorithmsCert (m\<lparr>ch_supportedSignatureAlgorithmsCert := v\<rparr>, seen))"
proof (rule run_ext [OF assms(1,2)])
  fix b :: bytes
  assume c: "v \<noteq> []" and "lp 2 (u16s v) = Some b"
  then obtain w where b: "b = put_be 2 (length w) @ w" "length w < 65536"
    and w: "w = concat (map put_u16 v)"
    by (auto simp: lp_Some_iff u16s_def)
  have ne: "w \<noteq> []"
    using c by (cases v) (simp_all add: w)
  have rd: "read_list R (r_ReadUint16 R) w = Some v"
    by (simp add: w)
  show "ch_switch R extensionSignatureAlgorithmsCert b rest (m\<lparr>ch_extensions := ch_extensions m @ [extensionSignatureAlgorithmsCert]\<rparr>) =
      Some (m\<lparr>ch_supportedSignatureAlgorithmsCert := v, ch_extensions := ch_extensions m @ [extensionSignatureAlgorithmsCert]\<rparr>, Some [])"
    using assms(3-) c b ne rd by (simp add: switch_simps)
qed (use assms(3-) in simp_all)

lemma run_versions:
  assumes "ext_opt (v \<noteq> []) extensionSupportedVersions (lp 1 (u16s v)) = Some x" "extensionSupportedVersions \<notin> seen"
    and "ch_supportedVersions m = []"
  shows "run_exts R (x @ rest) (m, seen) =
     run_exts R rest (note_ext (v \<noteq> []) extensionSupportedVersions (m\<lparr>ch_supportedVersions := v\<rparr>, seen))"
proof (rule run_ext [OF assms(1,2)])
  fix b :: bytes
  assume c: "v \<noteq> []" and "lp 1 (u16s v) = Some b"
  then obtain w where b: "b = of_nat (length w) # w" "length w < 256"
    and w: "w = concat (map put_u16 v)"
    by (auto simp: lp_Some_iff u16s_def)
  have ne: "w \<noteq> []"
    using c by (cases v) (simp_all add: w)
  have rd: "read_list R (r_ReadUint16 R) w = Some v"
    by (simp add: w)
  show "ch_switch R extensionSupportedVersions b rest (m\<lparr>ch_extensions := ch_extensions m @ [extensionSupportedVersions]\<rparr>) =
      Some (m\<lparr>ch_supportedVersions := v, ch_extensions := ch_extensions m @ [extensionSupportedVersions]\<rparr>, Some [])"
    using assms(3-) c b ne rd by (simp add: switch_simps)
qed (use assms(3-) in simp_all)

lemma run_cookie:
  assumes "ext_opt (v \<noteq> []) extensionCookie (lp 2 (Some v)) = Some x" "extensionCookie \<notin> seen"
    and "ch_cookie m = []"
  shows "run_exts R (x @ rest) (m, seen) =
     run_exts R rest (note_ext (v \<noteq> []) extensionCookie (m\<lparr>ch_cookie := v\<rparr>, seen))"
proof (rule run_ext [OF assms(1,2)])
  fix b :: bytes
  assume c: "v \<noteq> []" and "lp 2 (Some v) = Some b"
  then have b: "b = put_be 2 (length v) @ v" "length v < 65536"
    by (auto simp: lp_Some_iff)
  show "ch_switch R extensionCookie b rest (m\<lparr>ch_extensions := ch_extensions m @ [extensionCookie]\<rparr>) =
      Some (m\<lparr>ch_cookie := v, ch_extensions := ch_extensions m @ [extensionCookie]\<rparr>, Some [])"
    using assms(3-) c b by (simp add: switch_simps)
qed (use assms(3-) in simp_all)

lemma run_pskModes:
  assumes "ext_opt (v \<noteq> []) extensionPSKModes (lp 1 (Some v)) = Some x" "extensionPSKModes \<notin> seen"
    and "ch_pskModes m = []"
  shows "run_exts R (x @ rest) (m, seen) =
     run_exts R rest (note_ext (v \<noteq> []) extensionPSKModes (m\<lparr>ch_pskModes := v\<rparr>, seen))"
proof (rule run_ext [OF assms(1,2)])
  fix b :: bytes
  assume c: "v \<noteq> []" and "lp 1 (Some v) = Some b"
  then have b: "b = of_nat (length v) # v" "length v < 256"
    by (auto simp: lp_Some_iff)
  show "ch_switch R extensionPSKModes b rest (m\<lparr>ch_extensions := ch_extensions m @ [extensionPSKModes]\<rparr>) =
      Some (m\<lparr>ch_pskModes := v, ch_extensions := ch_extensions m @ [extensionPSKModes]\<rparr>, Some [])"
    using assms(3-) c b by (simp add: switch_simps)
qed (use assms(3-) in simp_all)

lemma lp1_the: "lp 1 (Some b) \<noteq> None \<longleftrightarrow> length b < 256"
  "length b < 256 \<Longrightarrow> the (lp 1 (Some b)) = of_nat (length b) # b"
  by (simp_all add: lp_def)

lemma run_alpn:
  assumes "ext_opt (v \<noteq> []) extensionALPN (lp 2 (cat (map (\<lambda>p. lp 1 (Some p)) v))) = Some x"
    "extensionALPN \<notin> seen" and "ch_alpnProtocols m = []" "[] \<notin> set v"
  shows "run_exts R (x @ rest) (m, seen) =
     run_exts R rest (note_ext (v \<noteq> []) extensionALPN (m\<lparr>ch_alpnProtocols := v\<rparr>, seen))"
proof (rule run_ext [OF assms(1,2)])
  fix b :: bytes
  assume c: "v \<noteq> []" and "lp 2 (cat (map (\<lambda>p. lp 1 (Some p)) v)) = Some b"
  then obtain w where b: "b = put_be 2 (length w) @ w" "length w < 65536"
    and len: "\<forall>p\<in>set v. length p < 256" and w: "w = concat (map (\<lambda>p. the (lp 1 (Some p))) v)"
    by (auto simp: lp_Some_iff cat_map_Some_iff lp1_the(1) simp del: One_nat_def)
  have ne: "w \<noteq> []"
    using c len by (cases v) (auto simp: w lp1_the(2) simp del: One_nat_def)
  have rd: "read_list R (\<lambda>s. do {(proto, s) \<leftarrow> r_ReadUint8LengthPrefixed R s;
      if r_Empty R proto then None else Some (proto, s)}) w = Some v"
    unfolding w
  proof (rule read_list_concat)
    fix p :: bytes and rest
    assume "p \<in> set v"
    then have "length p < 256" "p \<noteq> []"
      using len assms(4) by auto
    then show "do {(proto, s) \<leftarrow> r_ReadUint8LengthPrefixed R (the (lp 1 (Some p)) @ rest);
        if r_Empty R proto then None else Some (proto, s)} = Some (p, rest)"
      by (simp add: lp1_the(2) del: One_nat_def)
  qed (use len in \<open>auto simp: lp1_the(2) simp del: One_nat_def\<close>)
  show "ch_switch R extensionALPN b rest (m\<lparr>ch_extensions := ch_extensions m @ [extensionALPN]\<rparr>) =
      Some (m\<lparr>ch_alpnProtocols := v, ch_extensions := ch_extensions m @ [extensionALPN]\<rparr>, Some [])"
    using assms(3) b ne rd by (simp add: switch_simps)
qed (use assms(3) in simp_all)

lemma enc_keyShare_the:
  "(\<exists>y. enc_keyShare ks = Some y) \<longleftrightarrow> length (ks_data ks) < 65536"
  "length (ks_data ks) < 65536 \<Longrightarrow>
     the (enc_keyShare ks) = put_u16 (ks_group ks) @ put_be 2 (length (ks_data ks)) @ ks_data ks"
  by (simp_all add: enc_keyShare_def lp_def split: option.splits)

lemma run_keyShares:
  assumes "ext_opt (v \<noteq> []) extensionKeyShare (lp 2 (cat (map enc_keyShare v))) = Some x"
    "extensionKeyShare \<notin> seen" and "ch_keyShares m = []" "\<forall>ks\<in>set v. ks_data ks \<noteq> []"
  shows "run_exts R (x @ rest) (m, seen) =
     run_exts R rest (note_ext (v \<noteq> []) extensionKeyShare (m\<lparr>ch_keyShares := v\<rparr>, seen))"
proof (rule run_ext [OF assms(1,2)])
  fix b :: bytes
  assume c: "v \<noteq> []" and "lp 2 (cat (map enc_keyShare v)) = Some b"
  then obtain w where b: "b = put_be 2 (length w) @ w" "length w < 65536"
    and len: "\<forall>ks\<in>set v. length (ks_data ks) < 65536" and w: "w = concat (map (\<lambda>ks. the (enc_keyShare ks)) v)"
    by (auto simp: lp_Some_iff cat_map_Some_iff enc_keyShare_the(1))
  have rd: "read_list R (read_keyShare R) w = Some v"
    unfolding w
  proof (rule read_list_concat)
    fix ks rest
    assume "ks \<in> set v"
    then show "read_keyShare R (the (enc_keyShare ks) @ rest) = Some (ks, rest)"
      using len assms(4) by (simp add: read_keyShare_def read_helpers enc_keyShare_the(2))
  qed (use len in \<open>auto simp: enc_keyShare_the(2)\<close>)
  show "ch_switch R extensionKeyShare b rest (m\<lparr>ch_extensions := ch_extensions m @ [extensionKeyShare]\<rparr>) =
      Some (m\<lparr>ch_keyShares := v, ch_extensions := ch_extensions m @ [extensionKeyShare]\<rparr>, Some [])"
    using assms(3) b rd by (simp add: switch_simps)
qed (use assms(3) in simp_all)

lemma enc_pskIdentity_the:
  "(\<exists>y. enc_pskIdentity p = Some y) \<longleftrightarrow> length (psk_label p) < 65536"
  "length (psk_label p) < 65536 \<Longrightarrow> the (enc_pskIdentity p) =
     put_be 2 (length (psk_label p)) @ psk_label p @ put_u32 (psk_obfuscatedTicketAge p)"
  by (simp_all add: enc_pskIdentity_def lp_def split: option.splits)

lemma read_psk_enc:
  assumes body: "cat [lp 2 (cat (map enc_pskIdentity is)), lp 2 (cat (map (\<lambda>b. lp 1 (Some b)) bs))] = Some b"
    and ne: "is \<noteq> []" "bs \<noteq> []" "\<forall>p\<in>set is. psk_label p \<noteq> []" "[] \<notin> set bs"
    and m: "ch_pskIdentities m = []" "ch_pskBinders m = []"
  shows "read_psk R b m = Some (m\<lparr>ch_pskIdentities := is, ch_pskBinders := bs\<rparr>, [])"
proof -
  obtain u w where b: "b = put_be 2 (length u) @ u @ put_be 2 (length w) @ w"
    "length u < 65536" "length w < 65536"
    and u: "u = concat (map (\<lambda>p. the (enc_pskIdentity p)) is)" "\<forall>p\<in>set is. length (psk_label p) < 65536"
    and w: "w = concat (map (\<lambda>b. the (lp 1 (Some b))) bs)" "\<forall>b\<in>set bs. length b < 256"
    using body by (auto simp: lp_Some_iff cat_Some_iff cat_map_Some_iff enc_pskIdentity_the(1) lp1_the(1)
        simp del: cat.simps(2) One_nat_def)
  have "u \<noteq> []" "w \<noteq> []"
    using ne u(2) w(2) by (cases "is", auto simp: u(1) enc_pskIdentity_the(2))
      (cases bs, auto simp: w(1) lp1_the(2) simp del: One_nat_def)
  moreover have "read_list R (read_pskIdentity R) u = Some is"
    unfolding u(1)
    by (rule read_list_concat)
      (use u(2) ne in \<open>auto simp: read_pskIdentity_def read_helpers enc_pskIdentity_the(2)\<close>)
  moreover have "read_list R (read_nonempty8 R) w = Some bs"
    unfolding w(1)
  proof (rule read_list_concat)
    fix p :: bytes and rest
    assume "p \<in> set bs"
    then have "length p < 256" "p \<noteq> []"
      using w(2) ne(4) by auto
    then show "read_nonempty8 R (the (lp 1 (Some p)) @ rest) = Some (p, rest)"
      by (simp add: read_nonempty8_def read_helpers lp1_the(2) del: One_nat_def)
  qed (use w(2) in \<open>auto simp: lp1_the(2) simp del: One_nat_def\<close>)
  ultimately show ?thesis
    using b m by (simp add: read_psk_def)
qed

lemma run_psk:
  assumes "ext_opt (is \<noteq> []) extensionPreSharedKey (cat [lp 2 (cat (map enc_pskIdentity is)),
      lp 2 (cat (map (\<lambda>b. lp 1 (Some b)) bs))]) = Some x" "extensionPreSharedKey \<notin> seen"
    and "ch_pskIdentities m = []" "ch_pskBinders m = []" "\<forall>p\<in>set is. psk_label p \<noteq> []" "[] \<notin> set bs"
    "is = [] \<longleftrightarrow> bs = []"
  shows "run_exts R x (m, seen) = Some (note_ext (is \<noteq> []) extensionPreSharedKey
     (m\<lparr>ch_pskIdentities := is, ch_pskBinders := bs\<rparr>, seen))"
proof -
  have "run_exts R (x @ []) (m, seen) = run_exts R [] (note_ext (is \<noteq> []) extensionPreSharedKey
     (m\<lparr>ch_pskIdentities := is, ch_pskBinders := bs\<rparr>, seen))"
  proof (rule run_ext [OF assms(1,2)])
    fix b :: bytes
    assume c: "is \<noteq> []" and b: "cat [lp 2 (cat (map enc_pskIdentity is)),
        lp 2 (cat (map (\<lambda>b. lp 1 (Some b)) bs))] = Some b"
    show "ch_switch R extensionPreSharedKey b []
          (m\<lparr>ch_extensions := ch_extensions m @ [extensionPreSharedKey]\<rparr>) =
        Some (m\<lparr>ch_pskIdentities := is, ch_pskBinders := bs,
          ch_extensions := ch_extensions m @ [extensionPreSharedKey]\<rparr>, Some [])"
      using read_psk_enc [OF b c, of "m\<lparr>ch_extensions := ch_extensions m @ [extensionPreSharedKey]\<rparr>"]
        assms(3-) c by (simp add: switch_simps)
  qed (use assms(3-) in simp_all)
  then show ?thesis
    by simp
qed

lemma run_enc_exts:
  assumes enc: "enc_exts m False = Some eb" and wf: "ch_wf m"
    and b: "b = ch_zero\<lparr>ch_original := o', ch_vers := ch_vers m, ch_random := ch_random m,
      ch_sessionId := ch_sessionId m, ch_cipherSuites := ch_cipherSuites m,
      ch_secureRenegotiationSupported := (scsvRenegotiation \<in> set (ch_cipherSuites m)),
      ch_compressionMethods := ch_compressionMethods m\<rparr>"
  shows "\<exists>seen. run_exts R eb (b, {}) = Some (m\<lparr>ch_original := o', ch_extensions := ch_ext_ids m\<rparr>, seen)"
proof -
  obtain x1 x2 x3 x4 x5 x6 x7 x8 x9 x10 x11 x12 x13 x14 x15 x16 x17 x18 x19 where eb: "eb = x1 @ x2 @ x3 @ x4 @ x5 @ x6 @ x7 @ x8 @ x9 @ x10 @ x11 @ x12 @ x13 @ x14 @ x15 @ x16 @ x17 @ x18 @ x19"
    and h1: "ext_opt (ch_serverName m \<noteq> []) extensionServerName (lp 2 (cat [Some [0], lp 2 (Some (ch_serverName m))])) = Some x1"
    and h2: "ext_opt (ch_supportedPoints m \<noteq> []) extensionSupportedPoints (lp 1 (Some (ch_supportedPoints m))) = Some x2"
    and h3: "ext_opt (ch_ticketSupported m) extensionSessionTicket (Some (ch_sessionTicket m)) = Some x3"
    and h4: "ext_opt (ch_secureRenegotiationSupported m) extensionRenegotiationInfo (lp 1 (Some (ch_secureRenegotiation m))) = Some x4"
    and h5: "ext_opt (ch_extendedMasterSecret m) extensionExtendedMasterSecret (Some []) = Some x5"
    and h6: "ext_opt (ch_scts m) extensionSCT (Some []) = Some x6"
    and h7: "ext_opt (ch_earlyData m) extensionEarlyData (Some []) = Some x7"
    and h8: "ext_opt (ch_quicTransportParameters m \<noteq> None) extensionQUICTransportParameters (Some (the (ch_quicTransportParameters m))) = Some x8"
    and h9: "ext_opt (ch_encryptedClientHello m \<noteq> []) extensionEncryptedClientHello (Some (ch_encryptedClientHello m)) = Some x9"
    and h10: "ext_opt (ch_ocspStapling m) extensionStatusRequest (Some [1, 0, 0, 0, 0]) = Some x10"
    and h11: "ext_opt (ch_supportedCurves m \<noteq> []) extensionSupportedCurves (lp 2 (u16s (ch_supportedCurves m))) = Some x11"
    and h12: "ext_opt (ch_supportedSignatureAlgorithms m \<noteq> []) extensionSignatureAlgorithms (lp 2 (u16s (ch_supportedSignatureAlgorithms m))) = Some x12"
    and h13: "ext_opt (ch_supportedSignatureAlgorithmsCert m \<noteq> []) extensionSignatureAlgorithmsCert (lp 2 (u16s (ch_supportedSignatureAlgorithmsCert m))) = Some x13"
    and h14: "ext_opt (ch_alpnProtocols m \<noteq> []) extensionALPN (lp 2 (cat (map (\<lambda>p. lp 1 (Some p)) (ch_alpnProtocols m)))) = Some x14"
    and h15: "ext_opt (ch_supportedVersions m \<noteq> []) extensionSupportedVersions (lp 1 (u16s (ch_supportedVersions m))) = Some x15"
    and h16: "ext_opt (ch_cookie m \<noteq> []) extensionCookie (lp 2 (Some (ch_cookie m))) = Some x16"
    and h17: "ext_opt (ch_keyShares m \<noteq> []) extensionKeyShare (lp 2 (cat (map enc_keyShare (ch_keyShares m)))) = Some x17"
    and h18: "ext_opt (ch_pskModes m \<noteq> []) extensionPSKModes (lp 1 (Some (ch_pskModes m))) = Some x18"
    and h19: "ext_opt (ch_pskIdentities m \<noteq> []) extensionPreSharedKey (cat [lp 2 (cat (map enc_pskIdentity (ch_pskIdentities m))),
        lp 2 (cat (map (\<lambda>b. lp 1 (Some b)) (ch_pskBinders m)))]) = Some x19"
    by (rule enc_exts_split [OF enc])
  show ?thesis
    using wf
    by (simp add: eb b ch_zero_def note_ext_def ch_wf_def extension_ids ch_ext_ids_def
      run_serverName [OF h1]
      run_supportedPoints [OF h2]
      run_sessionTicket [OF h3]
      run_renegotiation [OF h4]
      run_ems [OF h5]
      run_scts [OF h6]
      run_earlyData [OF h7]
      run_quic [OF h8]
      run_ech [OF h9]
      run_ocsp [OF h10]
      run_curves [OF h11]
      run_sigAlgs [OF h12]
      run_sigAlgsCert [OF h13]
      run_alpn [OF h14]
      run_versions [OF h15]
      run_cookie [OF h16]
      run_keyShares [OF h17]
      run_pskModes [OF h18]
      run_psk [OF h19])
qed

lemma unmarshal_enc:
  assumes enc: "enc_clientHello m False = Some bs" and wf: "ch_wf m"
  shows "ch_unmarshal R bs = Some (m\<lparr>ch_original := Some bs, ch_extensions := ch_ext_ids m\<rparr>)"
proof -
  obtain eb body where eb: "enc_exts m False = Some eb"
    and bs: "bs = (typeClientHello # put_be 3 (length body)) @ body"
    and body: "cat [Some (put_u16 (ch_vers m)),
        (if length (ch_random m) = 32 then Some (ch_random m) else None),
        lp 1 (Some (ch_sessionId m)), lp 2 (u16s (ch_cipherSuites m)),
        lp 1 (Some (ch_compressionMethods m)),
        (if eb \<noteq> [] then lp 2 (Some eb) else Some [])] = Some body"
    using enc by (auto simp: enc_clientHello_def bind_eq_Some_conv cat_Some_iff lp_Some_iff
        simp del: cat.simps(2) One_nat_def)
  define tail where "tail = (if eb \<noteq> [] then put_be 2 (length eb) @ eb else [])"
  define su where "su = concat (map put_u16 (ch_cipherSuites m))"
  have body: "body = put_u16 (ch_vers m) @ ch_random m @ (of_nat (length (ch_sessionId m)) # ch_sessionId m)
      @ put_be 2 (length su) @ su @ (of_nat (length (ch_compressionMethods m)) # ch_compressionMethods m) @ tail"
    and lens: "length (ch_random m) = 32" "length (ch_sessionId m) < 256" "length su < 65536"
    "length (ch_compressionMethods m) < 256" "eb \<noteq> [] \<Longrightarrow> length eb < 65536"
    using body by (auto simp: cat_Some_iff lp_Some_iff u16s_def su_def tail_def
        simp del: cat.simps(2) split: if_splits)
  have suites: "read_list R (r_ReadUint16 R) su = Some (ch_cipherSuites m)"
    by (simp add: su_def)
  have skip: "r_Skip R 4 bs = Some body"
    unfolding bs by (rule skip4) simp
  let ?b = "ch_zero\<lparr>ch_original := Some bs, ch_vers := ch_vers m, ch_random := ch_random m,
      ch_sessionId := ch_sessionId m, ch_cipherSuites := ch_cipherSuites m,
      ch_secureRenegotiationSupported := (scsvRenegotiation \<in> set (ch_cipherSuites m)),
      ch_compressionMethods := ch_compressionMethods m\<rparr>"
  obtain seen where run: "run_exts R eb (?b, {}) =
      Some (m\<lparr>ch_original := Some bs, ch_extensions := ch_ext_ids m\<rparr>, seen)"
    using run_enc_exts [OF eb wf refl] by blast
  show ?thesis
  proof (cases "eb = []")
    case True
    then have "?b = m\<lparr>ch_original := Some bs, ch_extensions := ch_ext_ids m\<rparr>"
      using run by simp
    with True show ?thesis
      using lens by (simp add: ch_unmarshal_def skip body tail_def suites read_helpers)
  next
    case False
    with run lens show ?thesis
      by (simp add: ch_unmarshal_def skip body tail_def suites read_helpers run_exts_def)
  qed
qed

end

section \<open>The binders\<close>

text \<open>The end of a ClientHello with pre-shared keys: the list of binders.\<close>

definition binders_list :: "bytes list \<Rightarrow> bytes" where
  "binders_list bs = concat (map (\<lambda>b. of_nat (length b) # b) bs)"

definition binders_tail :: "bytes list \<Rightarrow> bytes" where
  "binders_tail bs = put_be 2 (length (binders_list bs)) @ binders_list bs"

lemma length_binders_tail:
  "length (binders_tail (ch_pskBinders m)) = ch_bindersLen m"
proof -
  have "fold (\<lambda>b n. n + 1 + length b) bs k = k + length (binders_list bs)" for bs :: "bytes list" and k
    by (induction bs arbitrary: k) (simp_all add: binders_list_def)
  then show ?thesis
    by (simp add: ch_bindersLen_def binders_tail_def)
qed

lemma length_binders_list: "map length bs = map length bs' \<Longrightarrow> length (binders_list bs) = length (binders_list bs')"
  by (simp add: binders_list_def length_concat comp_def) (metis (mono_tags, lifting) map_map comp_def map_eq_conv)

lemma cat_lp1_iff:
  "cat (map (\<lambda>b. lp 1 (Some b)) bs) = (if \<forall>b\<in>set bs. length b < 256 then Some (binders_list bs) else None)"
  by (induction bs) (auto simp: binders_list_def lp_def)

lemma enc_plain_binders: "enc_plain (m\<lparr>ch_pskBinders := bs\<rparr>) inner = enc_plain m inner"
  by (simp add: enc_plain_def)

lemma enc_outer_binders: "enc_outer (m\<lparr>ch_pskBinders := bs\<rparr>) inner = enc_outer m inner"
  by (simp add: enc_outer_def)

lemma enc_tail_binders:
  assumes "ch_pskIdentities m \<noteq> []"
  shows "cat (enc_tail (m\<lparr>ch_pskBinders := bs\<rparr>) False) =
     cat [Some (put_u16 extensionPreSharedKey),
       lp 2 (cat [lp 2 (cat (map enc_pskIdentity (ch_pskIdentities m))),
                  lp 2 (cat (map (\<lambda>b. lp 1 (Some b)) bs))])]"
  using assms by (simp add: enc_tail_def ext_opt_def) (simp split: option.splits)

lemma exts_form:
  "cat [f, cat [Some e, lp 2 (cat [i, lp 2 (if P then Some l else None)])]] = Some eb \<longleftrightarrow>
     (\<exists>y u. f = Some y \<and> i = Some u \<and> P \<and> length l < 65536 \<and>
        length u + length (put_be 2 (length l) @ l) < 65536 \<and>
        eb = y @ e @ put_be 2 (length u + length (put_be 2 (length l) @ l)) @ u @ put_be 2 (length l) @ l)"
  by (cases f; cases i; cases P) (auto simp: lp_def)

lemma bind_form:
  assumes "\<And>e. E = Some e \<longleftrightarrow> (\<exists>y u. P y u \<and> e = g y u)" and "\<And>y u. F (g y u) = W y u"
  shows "Option.bind E F = Some f \<longleftrightarrow> (\<exists>y u. P y u \<and> W y u = Some f)"
  unfolding bind_eq_Some_conv assms(1) assms(2) [symmetric] by blast

text \<open>A length-prefixed field has a prefix that depends only on the length of its end.\<close>

lemma whole_prefix:
  assumes "cat [Some a, lp 3 (cat [h, lp 2 (Some (y @ e @ put_be 2 (length u + length t) @ u @ t))])] = Some f"
  shows "\<exists>pre. \<forall>t'. length t' = length t \<longrightarrow>
     cat [Some a, lp 3 (cat [h, lp 2 (Some (y @ e @ put_be 2 (length u + length t') @ u @ t'))])] = Some (pre @ t')"
proof -
  obtain hb where h: "h = Some hb"
    using assms by (cases h) (simp_all add: lp_def)
  have l: "length y + (length e + (2 + (length u + length t))) < 65536"
    "length hb + (2 + (length y + (length e + (2 + (length u + length t))))) < 16777216"
    using assms by (simp_all add: h lp_def split: if_splits)
  show ?thesis
    by (rule exI [of _ "a @ put_be 3 (length hb + (2 + (length y + (length e + (2 + (length u + length t)))))) @ hb @
          put_be 2 (length y + (length e + (2 + (length u + length t)))) @ y @ e @ put_be 2 (length u + length t) @ u"])
      (use l in \<open>simp add: h lp_def\<close>)
qed

text \<open>
  The message is a prefix followed by the binders, and the prefix depends on the binders
  only through their lengths.
\<close>

lemma enc_binders:
  assumes enc: "enc_clientHello m False = Some full" and psk: "ch_pskIdentities m \<noteq> []"
  obtains pre where "full = pre @ binders_tail (ch_pskBinders m)"
    "\<And>bs'. map length bs' = map length (ch_pskBinders m) \<Longrightarrow>
       enc_clientHello (m\<lparr>ch_pskBinders := bs'\<rparr>) False = Some (pre @ binders_tail bs')"
proof -
  let ?ids = "lp 2 (cat (map enc_pskIdentity (ch_pskIdentities m)))"
  let ?front = "cat (enc_plain m False @ enc_outer m False)"
  define hdr where "hdr = [Some (put_u16 (ch_vers m)),
      (if length (ch_random m) = 32 then Some (ch_random m) else None),
      lp 1 (Some (ch_sessionId m)), lp 2 (u16s (ch_cipherSuites m)), lp 1 (Some (ch_compressionMethods m))]"
  define whole where "whole y u t =
      cat [Some [typeClientHello], lp 3 (cat [cat hdr,
        lp 2 (Some (y @ put_u16 extensionPreSharedKey @ put_be 2 (length u + length t) @ u @ t))])]"
    for y u t
  have exts: "enc_exts (m\<lparr>ch_pskBinders := bs'\<rparr>) False =
      cat [?front, cat [Some (put_u16 extensionPreSharedKey),
        lp 2 (cat [?ids, lp 2 (cat (map (\<lambda>b. lp 1 (Some b)) bs'))])]]" for bs'
    by (simp only: enc_exts_def append_assoc [symmetric] cat_append [of "enc_plain _ _ @ enc_outer _ _"]
        enc_plain_binders enc_outer_binders enc_tail_binders [OF psk])
  define ok where "ok bs' y u \<longleftrightarrow> ?front = Some y \<and> ?ids = Some u \<and> (\<forall>b\<in>set bs'. length b < 256) \<and>
      length (binders_list bs') < 65536 \<and> length u + length (binders_tail bs') < 65536" for bs' y u
  have msg: "enc_clientHello (m\<lparr>ch_pskBinders := bs'\<rparr>) False = Some f \<longleftrightarrow>
      (\<exists>y u. ok bs' y u \<and> whole y u (binders_tail bs') = Some f)" for bs' f
  proof -
    have snoc: "cat (hdr @ [r]) = cat [cat hdr, r]" for r
      by (subst cat_append) (cases r; simp)
    have "enc_clientHello (m\<lparr>ch_pskBinders := bs'\<rparr>) False =
       Option.bind (enc_exts (m\<lparr>ch_pskBinders := bs'\<rparr>) False) (\<lambda>eb.
         cat [Some [typeClientHello], lp 3 (cat (hdr @ [if eb \<noteq> [] then lp 2 (Some eb) else Some []]))])"
      by (simp add: enc_clientHello_def hdr_def)
    moreover have "enc_exts (m\<lparr>ch_pskBinders := bs'\<rparr>) False = Some eb \<longleftrightarrow>
        (\<exists>y u. ok bs' y u \<and> eb = y @ put_u16 extensionPreSharedKey
           @ put_be 2 (length u + length (binders_tail bs')) @ u @ binders_tail bs')" for eb
      unfolding exts cat_lp1_iff binders_tail_def ok_def exts_form by (simp only: conj_assoc)
    ultimately show ?thesis
      by (simp only: snoc) (rule bind_form, assumption, simp add: whole_def)
  qed
  have same: "enc_clientHello m False = enc_clientHello (m\<lparr>ch_pskBinders := ch_pskBinders m\<rparr>) False"
    by simp
  obtain y u where yu: "ok (ch_pskBinders m) y u" "whole y u (binders_tail (ch_pskBinders m)) = Some full"
    using enc unfolding same msg by blast
  obtain pre where pre: "\<And>t. length t = length (binders_tail (ch_pskBinders m)) \<Longrightarrow> whole y u t = Some (pre @ t)"
    using whole_prefix [OF yu(2) [unfolded whole_def]] unfolding whole_def by blast
  show thesis
  proof
    show "full = pre @ binders_tail (ch_pskBinders m)"
      using pre yu(2) by simp
    fix bs' :: "bytes list"
    assume len: "map length bs' = map length (ch_pskBinders m)"
    have "\<forall>n \<in> set (map length (ch_pskBinders m)). n < 256"
      using yu(1) by (auto simp: ok_def)
    then have "\<forall>b\<in>set bs'. length b < 256"
      unfolding len [symmetric] by simp
    moreover have t: "length (binders_list bs') = length (binders_list (ch_pskBinders m))"
      by (rule length_binders_list [OF len])
    moreover have t: "length (binders_tail bs') = length (binders_tail (ch_pskBinders m))"
      using t by (simp add: binders_tail_def)
    ultimately show "enc_clientHello (m\<lparr>ch_pskBinders := bs'\<rparr>) False = Some (pre @ binders_tail bs')"
      unfolding msg using yu(1) pre [OF t] by (auto simp: ok_def)
  qed
qed

section \<open>What \<open>unmarshal\<close> accepts\<close>

text \<open>The invariant of the loop over the extensions, with the rest of the input.\<close>

definition exts_ok :: "bytes \<Rightarrow> clientHelloMsg \<times> u16 set \<Rightarrow> bool" where
  "exts_ok s = (\<lambda>(m, seen). seen = set (ch_extensions m) \<and> distinct (ch_extensions m) \<and>
     (extensionPreSharedKey \<in> seen \<longrightarrow> s = [] \<and> last (ch_extensions m) = extensionPreSharedKey))"

lemma ch_switch_extensions: "ch_switch R e d r m = Some (m', l) \<Longrightarrow> ch_extensions m' = ch_extensions m"
proof -
  have names: "ch_extensions m' = ch_extensions m"
    if "loop R (ch_serverName_step R) n t m = Some m'" for n t m m'
    using that
    by (rule loop_inv [where I = "\<lambda>x. ch_extensions x = ch_extensions m"])
      (auto simp: ch_serverName_step_def bind_eq_Some_conv split: if_splits)
  show "ch_switch R e d r m = Some (m', l) \<Longrightarrow> ch_extensions m' = ch_extensions m"
    using names by (auto simp: ch_switch_def read_psk_def bind_eq_Some_conv split: if_splits option.splits)
qed

lemma ch_switch_psk: "ch_switch R extensionPreSharedKey d r m = Some (m', l) \<Longrightarrow> r_Empty R r"
  by (auto simp: ch_switch_def extension_ids split: if_splits)

lemma ch_step_exts_ok:
  assumes R: "cryptobyte_String R" and "\<not> r_Empty R s" "ch_ext_step R s v = Some (w, s')" "exts_ok s v"
  shows "exts_ok s' w"
proof -
  obtain m seen where v: "v = (m, seen)"
    by fastforce
  obtain e d l m' where new: "e \<notin> seen"
    and sw: "ch_switch R e d s' (m\<lparr>ch_extensions := ch_extensions m @ [e]\<rparr>) = Some (m', l)"
    and w: "w = (m', insert e seen)"
    using assms(3) by (fastforce simp: v ch_ext_step_def bind_eq_Some_conv split: if_splits option.splits)
  have "ch_extensions m' = ch_extensions m @ [e]"
    using ch_switch_extensions [OF sw] by simp
  moreover have "s \<noteq> []"
    using assms(2) R by (auto simp: cryptobyte_String.Empty_law)
  moreover have "e = extensionPreSharedKey \<Longrightarrow> s' = []"
    using ch_switch_psk [of R d s'] sw by (auto simp: cryptobyte_String.Empty_law [OF R])
  ultimately show ?thesis
    using assms(4) new by (auto simp: exts_ok_def v w)
qed

text \<open>What a list holds that was read element by element.\<close>

lemma read_list_elements:
  assumes "read_list R rd s = Some xs" and "\<And>s x s'. rd s = Some (x, s') \<Longrightarrow> P x"
  shows "\<forall>x \<in> set xs. P x"
  using assms(1) unfolding read_list_def
  by (rule loop_inv [where I = "\<lambda>xs. \<forall>x \<in> set xs. P x"]) (auto simp: bind_eq_Some_conv dest: assms(2))

lemma loop_grows:
  "loop R (\<lambda>s xs. Option.bind (rd s) (\<lambda>(x, s). Some (xs @ [x], s))) n s ys = Some xs \<Longrightarrow> ys \<noteq> [] \<Longrightarrow> xs \<noteq> []"
  by (rule loop_inv [where I = "\<lambda>xs. xs \<noteq> []"]) (auto simp: bind_eq_Some_conv)

lemma read_list_nonempty:
  assumes "read_list R rd s = Some xs" "\<not> r_Empty R s"
  shows "xs \<noteq> []"
  using assms loop_grows unfolding read_list_def
  by (cases "length s") (fastforce simp: bind_eq_Some_conv)+

text \<open>The switch keeps the well-formedness.\<close>

lemma serverName_step_wf:
  assumes "cryptobyte_String R" "ch_serverName_step R s m = Some (m', s')" "ch_wf m"
  shows "ch_wf m'"
  using assms(2,3) by (auto simp: ch_serverName_step_def ch_wf_def bind_eq_Some_conv split: if_splits)

lemma serverName_loop_wf:
  assumes "cryptobyte_String R" "loop R (ch_serverName_step R) n s m = Some m'" "ch_wf m"
  shows "ch_wf m'"
  using assms(2) by (rule loop_inv [where I = ch_wf]) (use assms serverName_step_wf in blast)+

lemma read_keyShare_nonempty: "read_keyShare R s = Some (x, s') \<Longrightarrow> ks_data x \<noteq> []"
  by (auto simp: read_keyShare_def bind_eq_Some_conv split: if_splits)

lemma read_pskIdentity_nonempty: "read_pskIdentity R s = Some (x, s') \<Longrightarrow> psk_label x \<noteq> []"
  by (auto simp: read_pskIdentity_def bind_eq_Some_conv split: if_splits)

lemma read_nonempty8_nonempty: "read_nonempty8 R s = Some (x, s') \<Longrightarrow> x \<noteq> []"
  by (auto simp: read_nonempty8_def bind_eq_Some_conv split: if_splits)

lemma read_psk_wf:
  assumes "read_psk R d m = Some (m', l)" "ch_wf m"
  shows "ch_wf m'"
proof -
  obtain i d1 ids b d2 bs where r: "\<not> r_Empty R i" "read_list R (read_pskIdentity R) i = Some ids"
    "\<not> r_Empty R b" "read_list R (read_nonempty8 R) b = Some bs"
    and m': "m' = m\<lparr>ch_pskIdentities := ch_pskIdentities m @ ids, ch_pskBinders := ch_pskBinders m @ bs\<rparr>"
    using assms(1) by (auto simp: read_psk_def bind_eq_Some_conv split: if_splits)
  have "\<forall>x \<in> set ids. psk_label x \<noteq> []"
    by (rule read_list_elements [OF r(2)]) (rule read_pskIdentity_nonempty)
  moreover have "\<forall>x \<in> set bs. x \<noteq> []"
    by (rule read_list_elements [OF r(4)]) (rule read_nonempty8_nonempty)
  ultimately show ?thesis
    using assms(2) read_list_nonempty [OF r(2,1)] read_list_nonempty [OF r(4,3)] by (auto simp: ch_wf_def m')
qed

lemma ch_switch_wf:
  assumes R: "cryptobyte_String R" and s: "ch_switch R e d r m = Some (m', l)" and wf: "ch_wf m"
  shows "ch_wf m'"
proof -
  have alpn: "ch_wf (m\<lparr>ch_alpnProtocols := ch_alpnProtocols m @ xs\<rparr>)"
    if "read_list R (\<lambda>s. Option.bind (r_ReadUint8LengthPrefixed R s)
          (\<lambda>(proto, s). if r_Empty R proto then None else Some (proto, s))) t = Some xs" for t xs
  proof -
    have "\<forall>x \<in> set xs. x \<noteq> []"
      by (rule read_list_elements [OF that])
        (auto simp: bind_eq_Some_conv cryptobyte_String.Empty_law [OF R] split: if_splits)
    then show ?thesis
      using wf by (auto simp: ch_wf_def)
  qed
  have ks: "ch_wf (m\<lparr>ch_keyShares := ch_keyShares m @ xs\<rparr>)" if "read_list R (read_keyShare R) t = Some xs" for t xs
  proof -
    have "\<forall>x \<in> set xs. ks_data x \<noteq> []"
      by (rule read_list_elements [OF that]) (rule read_keyShare_nonempty)
    then show ?thesis
      using wf by (auto simp: ch_wf_def)
  qed
  have other: "ch_wf (m\<lparr>ch_ocspStapling := a\<rparr>)" "ch_wf (m\<lparr>ch_supportedCurves := b\<rparr>)" "ch_wf (m\<lparr>ch_supportedPoints := f\<rparr>)"
    "ch_wf (m\<lparr>ch_ticketSupported := True\<rparr>)" "ch_wf (m\<lparr>ch_ticketSupported := True, ch_sessionTicket := f\<rparr>)"
    "ch_wf (m\<lparr>ch_supportedSignatureAlgorithms := b\<rparr>)" "ch_wf (m\<lparr>ch_supportedSignatureAlgorithmsCert := b\<rparr>)"
    "ch_wf (m\<lparr>ch_secureRenegotiation := f, ch_secureRenegotiationSupported := True\<rparr>)"
    "ch_wf (m\<lparr>ch_extendedMasterSecret := True\<rparr>)" "ch_wf (m\<lparr>ch_scts := True\<rparr>)" "ch_wf (m\<lparr>ch_supportedVersions := b\<rparr>)"
    "ch_wf (m\<lparr>ch_cookie := f\<rparr>)" "ch_wf (m\<lparr>ch_earlyData := True\<rparr>)" "ch_wf (m\<lparr>ch_pskModes := f\<rparr>)"
    "ch_wf (m\<lparr>ch_quicTransportParameters := g\<rparr>)" "ch_wf (m\<lparr>ch_encryptedClientHello := f\<rparr>)" for a b f g
    using wf by (simp_all add: ch_wf_def)
  note cases = other serverName_loop_wf [OF R _ wf] read_psk_wf [OF _ wf] alpn ks
  show ?thesis
    using s wf unfolding ch_switch_def
    by (auto simp: bind_eq_Some_conv split: if_splits option.splits intro: cases)
qed

lemma ch_step_wf:
  assumes "cryptobyte_String R" "ch_ext_step R s v = Some (w, s')" "ch_wf (fst v)"
  shows "ch_wf (fst w)"
proof -
  obtain e d l where sw: "ch_switch R e d s' ((fst v)\<lparr>ch_extensions := ch_extensions (fst v) @ [e]\<rparr>) = Some (fst w, l)"
    using assms(2) by (cases v) (fastforce simp: ch_ext_step_def bind_eq_Some_conv split: if_splits option.splits)
  have "ch_wf ((fst v)\<lparr>ch_extensions := ch_extensions (fst v) @ [e]\<rparr>)"
    using assms(3) by (simp add: ch_wf_def)
  then show ?thesis
    by (rule ch_switch_wf [OF assms(1) sw])
qed

lemma ch_unmarshal_wf:
  assumes R: "cryptobyte_String R" and u: "ch_unmarshal R data = Some m"
  shows "ch_wf m"
proof -
  have run: "ch_wf m" if "loop R (ch_ext_step R) n s (m0, {}) = Some (m, seen)" "ch_wf m0" for n s m0 seen
  proof -
    have "ch_wf (fst (m, seen))"
      using that(1) by (rule loop_inv [where I = "\<lambda>v. ch_wf (fst v)"]) (use that(2) ch_step_wf [OF R] in auto)
    then show ?thesis
      by simp
  qed
  have "ch_wf (ch_zero\<lparr>ch_original := a, ch_vers := b, ch_random := x, ch_sessionId := y, ch_cipherSuites := z,
      ch_secureRenegotiationSupported := (scsvRenegotiation \<in> set z), ch_compressionMethods := w\<rparr>)" for a b x y z w
    by (auto simp: ch_wf_def ch_zero_def)
  then show ?thesis
    using u run by (auto simp: ch_unmarshal_def Let_def bind_eq_Some_conv split: if_splits)
qed

section \<open>Properties\<close>

text \<open>C37: a ClientHello survives the wire: over any \<open>cryptobyte\<close> that keeps its documented
  contract, if \<open>marshal\<close> of a message returns bytes, then \<open>unmarshal\<close> of those bytes accepts and
  returns the same message, with \<open>original\<close> set to the bytes and \<open>extensions\<close> listing the
  extensions in wire order.  The message must be one the parser can represent (\<open>ch_wf\<close>: no
  server name with a trailing dot, no empty ALPN protocol, key share, PSK label or binder,
  and no ticket or renegotiation data without its flag).\<close>

theorem clientHello_roundtrip:
  assumes "cryptobyte_Builder B" and "cryptobyte_String R"
    and "ch_wf m" and "ch_marshal B m = Ret bs"
  shows "ch_unmarshal R bs = Some (m\<lparr>ch_original := Some bs, ch_extensions := ch_ext_ids m\<rparr>)"
  using assms cryptobyte_Builder.marshalMsg_enc [OF assms(1), of m False bs]
    cryptobyte_String.unmarshal_enc [OF assms(2), of m bs]
  by (simp add: ch_marshal_def)

text \<open>\<open>marshal\<close> writes exactly the wire format, and fails exactly when it must: over any
  \<open>cryptobyte\<close> that keeps its contract, \<open>marshalMsg\<close> (also for the inner ClientHello of ECH)
  returns bytes exactly when the random has 32 bytes and every length-prefixed field fits its
  prefix, and the bytes are the wire format.\<close>

theorem clientHello_marshal_exact:
  assumes "cryptobyte_Builder B"
  shows "ch_marshalMsg B m inner = Ret bs \<longleftrightarrow> enc_clientHello m inner = Some bs"
  by (rule cryptobyte_Builder.marshalMsg_enc [OF assms])

text \<open>A PSK binder authenticates a prefix that does not contain it: for a ClientHello with
  pre-shared keys that can be marshalled, \<open>marshalWithoutBinders\<close> returns the message without
  exactly its binder list; \<open>updateBinders\<close> with binders of the same lengths keeps that prefix,
  and the marshalled result is the prefix followed by the new binders.\<close>

theorem binders_cover_prefix:
  assumes "cryptobyte_Builder B" and "ch_pskIdentities m \<noteq> []" and "ch_original m = None"
    and "ch_marshal B m = Ret full" and "updateBinders m bs' = Ret m'"
  shows "\<exists>pre. marshalWithoutBinders B m = Ret pre \<and> full = pre @ binders_tail (ch_pskBinders m) \<and>
     marshalWithoutBinders B m' = Ret pre \<and> ch_marshal B m' = Ret (pre @ binders_tail bs')"
proof -
  have len: "map length bs' = map length (ch_pskBinders m)" and m': "m' = m\<lparr>ch_pskBinders := bs'\<rparr>"
    using assms(5) by (auto simp: updateBinders_def split: if_splits intro!: nth_equalityI)
  have enc: "ch_marshal B n = Ret f \<longleftrightarrow> enc_clientHello n False = Some f" for n f
    by (simp add: ch_marshal_def cryptobyte_Builder.marshalMsg_enc [OF assms(1)])
  obtain pre where pre: "full = pre @ binders_tail (ch_pskBinders m)"
    "enc_clientHello m' False = Some (pre @ binders_tail bs')"
    using enc_binders [OF assms(4) [unfolded enc] assms(2)] len m' by blast
  have "marshalWithoutBinders B m = Ret pre"
    using assms(3,4) pre(1) by (simp add: marshalWithoutBinders_def flip: length_binders_tail)
  moreover have "marshalWithoutBinders B m' = Ret pre"
    using assms(3) pre(2) by (simp add: marshalWithoutBinders_def enc [symmetric] m' flip: length_binders_tail)
  ultimately show ?thesis
    using pre enc by blast
qed

text \<open>C32: what \<open>unmarshal\<close> accepts is well formed.  A ClientHello that \<open>unmarshal\<close> returns has no extension
  twice, and the pre-shared key extension, if present, is the last one, so that the binders are the end of
  the message; it satisfies all that the round trip of \<open>marshal\<close> asks for (\<open>ch_wf\<close>: no server name with a
  trailing dot, no empty ALPN protocol, key share, PSK label or binder, binders exactly when there are
  identities, no ticket or renegotiation data without its flag); so if \<open>marshal\<close> writes it anew, \<open>unmarshal\<close>
  reads the same message again, apart from the original bytes and the list of extensions.\<close>

theorem clientHello_accepted_wf:
  assumes "cryptobyte_String R" and "ch_unmarshal R data = Some m"
  shows "distinct (ch_extensions m) \<and>
     (extensionPreSharedKey \<in> set (ch_extensions m) \<longrightarrow> last (ch_extensions m) = extensionPreSharedKey) \<and>
     ch_wf m \<and>
     (\<forall>B bs. cryptobyte_Builder B \<and> ch_marshal B m = Ret bs \<longrightarrow>
        ch_unmarshal R bs = Some (m\<lparr>ch_original := Some bs, ch_extensions := ch_ext_ids m\<rparr>))"
proof -
  have init: "distinct (ch_extensions m) \<and>
      (extensionPreSharedKey \<in> set (ch_extensions m) \<longrightarrow> last (ch_extensions m) = extensionPreSharedKey)"
    if "loop R (ch_ext_step R) n s (m0, {}) = Some (m, seen)" "ch_extensions m0 = []" for n s m0 seen
  proof -
    have "exts_ok s (m0, {})"
      using that(2) by (simp add: exts_ok_def)
    then have "\<exists>t. r_Empty R t \<and> exts_ok t (m, seen)"
      using ch_step_exts_ok [OF assms(1)] by (rule loop_inv_rest [OF that(1)])
    then show ?thesis
      by (auto simp: exts_ok_def)
  qed
  have "distinct (ch_extensions m) \<and>
      (extensionPreSharedKey \<in> set (ch_extensions m) \<longrightarrow> last (ch_extensions m) = extensionPreSharedKey)"
    using assms(2) by (auto simp: ch_unmarshal_def Let_def bind_eq_Some_conv ch_zero_def dest!: init split: if_splits)
  moreover have wf: "ch_wf m"
    by (rule ch_unmarshal_wf [OF assms])
  moreover have "ch_unmarshal R bs = Some (m\<lparr>ch_original := Some bs, ch_extensions := ch_ext_ids m\<rparr>)"
    if "cryptobyte_Builder B" "ch_marshal B m = Ret bs" for B bs
    using cryptobyte_Builder.marshalMsg_enc [OF that(1), of m False bs] that(2)
      cryptobyte_String.unmarshal_enc [OF assms(1) _ wf] by (simp add: ch_marshal_def)
  ultimately show ?thesis
    by blast
qed

text \<open>A ClientHello for concrete runs.\<close>

definition demo_hello :: clientHelloMsg where
  "demo_hello = ch_zero\<lparr>ch_vers := VersionTLS12, ch_random := replicate 32 7, ch_sessionId := [1, 2],
     ch_cipherSuites := [0x1301, 0x1303], ch_compressionMethods := [0],
     ch_serverName := [97, 46, 98], ch_supportedVersions := [VersionTLS13],
     ch_keyShares := [\<lparr>ks_group = X25519, ks_data = [9, 9]\<rparr>], ch_alpnProtocols := [[104, 50]]\<rparr>"

lemma demo_hello_wf: "ch_wf demo_hello"
  by (simp add: ch_wf_def demo_hello_def ch_zero_def scsv_ids)

lemma demo_hello_enc: "\<exists>bs. enc_clientHello demo_hello False = Some bs"
  by (simp add: demo_hello_def ch_zero_def enc_clientHello_def enc_exts_def enc_plain_def enc_outer_def
      enc_tail_def ext_opt_def lp_def u16s_def enc_keyShare_def)

theorem clientHello_roundtrip_witness:
  "\<exists>bs. ch_marshal ref_builder demo_hello = Ret bs \<and>
     ch_unmarshal ref_reader bs =
       Some (demo_hello\<lparr>ch_original := Some bs, ch_extensions := ch_ext_ids demo_hello\<rparr>)"
proof -
  obtain bs where "enc_clientHello demo_hello False = Some bs"
    using demo_hello_enc by blast
  then have bs: "ch_marshal ref_builder demo_hello = Ret bs"
    by (simp add: ch_marshal_def ref_builder.marshalMsg_enc)
  from clientHello_roundtrip [OF ref_builder.cryptobyte_Builder_axioms
      ref_reader.cryptobyte_String_axioms demo_hello_wf this] bs
  show ?thesis
    by blast
qed

theorem clientHello_marshal_exact_witness:
  "\<exists>bs. ch_marshalMsg ref_builder demo_hello False = Ret bs \<and>
     enc_clientHello demo_hello False = Some bs"
  using demo_hello_enc clientHello_marshal_exact [OF ref_builder.cryptobyte_Builder_axioms] by metis

text \<open>A resumption ClientHello for concrete runs.\<close>

definition demo_resume :: clientHelloMsg where
  "demo_resume = demo_hello\<lparr>ch_pskIdentities := [\<lparr>psk_label = [5], psk_obfuscatedTicketAge = 1\<rparr>],
     ch_pskBinders := [replicate 32 0]\<rparr>"

lemma demo_resume_enc: "\<exists>bs. enc_clientHello demo_resume False = Some bs"
  by (simp add: demo_resume_def demo_hello_def ch_zero_def enc_clientHello_def enc_exts_def enc_plain_def
      enc_outer_def enc_tail_def ext_opt_def lp_def u16s_def enc_keyShare_def enc_pskIdentity_def)

theorem binders_cover_prefix_witness:
  "\<exists>pre full. ch_marshal ref_builder demo_resume = Ret full \<and>
     marshalWithoutBinders ref_builder demo_resume = Ret pre \<and>
     full = pre @ binders_tail [replicate 32 0] \<and>
     ch_marshal ref_builder (demo_resume\<lparr>ch_pskBinders := [replicate 32 1]\<rparr>) =
       Ret (pre @ binders_tail [replicate 32 1])"
proof -
  obtain full where full: "ch_marshal ref_builder demo_resume = Ret full"
    using demo_resume_enc by (auto simp: ch_marshal_def ref_builder.marshalMsg_enc)
  have upd: "updateBinders demo_resume [replicate 32 1] = Ret (demo_resume\<lparr>ch_pskBinders := [replicate 32 1]\<rparr>)"
    by (simp add: updateBinders_def demo_resume_def)
  have fields: "ch_pskIdentities demo_resume \<noteq> []" "ch_original demo_resume = None"
    "ch_pskBinders demo_resume = [replicate 32 0]"
    by (simp_all add: demo_resume_def demo_hello_def ch_zero_def)
  from binders_cover_prefix [OF ref_builder.cryptobyte_Builder_axioms fields(1,2) full upd]
  show ?thesis
    using full fields(3) by auto
qed

theorem clientHello_accepted_wf_witness:
  "\<exists>bs m. ch_unmarshal ref_reader bs = Some m \<and> length (ch_extensions m) = 4 \<and> distinct (ch_extensions m)"
proof -
  obtain bs where bs: "enc_clientHello demo_hello False = Some bs"
    using demo_hello_enc by blast
  have "ch_unmarshal ref_reader bs = Some (demo_hello\<lparr>ch_original := Some bs, ch_extensions := ch_ext_ids demo_hello\<rparr>)"
    by (rule ref_reader.unmarshal_enc [OF bs demo_hello_wf])
  moreover have "length (ch_ext_ids demo_hello) = 4"
    by (simp add: ch_ext_ids_def demo_hello_def ch_zero_def)
  ultimately show ?thesis
    using clientHello_accepted_wf [OF ref_reader.cryptobyte_String_axioms, of bs] by fastforce
qed

end
