(* ===== verification/ServerHello.thy ===== *)
theory ServerHello
  imports WireFormat
begin

text \<open>
  \<open>serverHelloMsg\<close> of \<open>handshake_messages.go\<close>: the ServerHello and the HelloRetryRequest.
  The record has the fields of the struct; \<open>sh_marshal\<close> is the sequence of builder calls and
  \<open>sh_unmarshal\<close> the reads with the check for repeated extensions.  \<open>enc_serverHello\<close> is the
  wire format; \<open>marshal\<close> writes exactly it and \<open>unmarshal\<close> reads it back.
\<close>

section \<open>The message\<close>

record serverHelloMsg =
  sh_original :: "bytes option"
  sh_vers :: u16
  sh_random :: bytes
  sh_sessionId :: bytes
  sh_cipherSuite :: u16
  sh_compressionMethod :: byte
  sh_ocspStapling :: bool
  sh_ticketSupported :: bool
  sh_secureRenegotiationSupported :: bool
  sh_secureRenegotiation :: bytes
  sh_extendedMasterSecret :: bool
  sh_alpnProtocol :: bytes
  sh_scts :: "bytes list"
  sh_supportedVersion :: u16
  sh_serverShare :: keyShare
  sh_selectedIdentityPresent :: bool
  sh_selectedIdentity :: u16
  sh_supportedPoints :: bytes
  sh_encryptedClientHello :: bytes
  sh_serverNameAck :: bool
  sh_cookie :: bytes
  sh_selectedGroup :: u16

definition sh_zero :: serverHelloMsg where
  "sh_zero = \<lparr>sh_original = None, sh_vers = 0, sh_random = [], sh_sessionId = [], sh_cipherSuite = 0,
     sh_compressionMethod = 0, sh_ocspStapling = False, sh_ticketSupported = False,
     sh_secureRenegotiationSupported = False, sh_secureRenegotiation = [],
     sh_extendedMasterSecret = False, sh_alpnProtocol = [], sh_scts = [], sh_supportedVersion = 0,
     sh_serverShare = \<lparr>ks_group = 0, ks_data = []\<rparr>, sh_selectedIdentityPresent = False,
     sh_selectedIdentity = 0, sh_supportedPoints = [], sh_encryptedClientHello = [],
     sh_serverNameAck = False, sh_cookie = [], sh_selectedGroup = 0\<rparr>"

definition sh_exts :: "'b builder_ops \<Rightarrow> serverHelloMsg \<Rightarrow> ('b \<Rightarrow> 'b) list" where
  "sh_exts B m =
     [cond (sh_ocspStapling m) [b_AddUint16 B extensionStatusRequest, b_AddUint16 B 0],
      cond (sh_ticketSupported m) [b_AddUint16 B extensionSessionTicket, b_AddUint16 B 0],
      cond (sh_secureRenegotiationSupported m)
        [b_AddUint16 B extensionRenegotiationInfo,
         b_AddUint16LengthPrefixed B (seq [
           b_AddUint8LengthPrefixed B (seq [b_AddBytes B (sh_secureRenegotiation m)])])],
      cond (sh_extendedMasterSecret m) [b_AddUint16 B extensionExtendedMasterSecret, b_AddUint16 B 0],
      cond (length (sh_alpnProtocol m) > 0)
        [b_AddUint16 B extensionALPN,
         b_AddUint16LengthPrefixed B (seq [
           b_AddUint16LengthPrefixed B (seq [
             b_AddUint8LengthPrefixed B (seq [b_AddBytes B (sh_alpnProtocol m)])])])],
      cond (length (sh_scts m) > 0)
        [b_AddUint16 B extensionSCT,
         b_AddUint16LengthPrefixed B (seq [
           b_AddUint16LengthPrefixed B (each (sh_scts m) (\<lambda>sct.
             b_AddUint16LengthPrefixed B (seq [b_AddBytes B sct])))])],
      cond (sh_supportedVersion m \<noteq> 0)
        [b_AddUint16 B extensionSupportedVersions,
         b_AddUint16LengthPrefixed B (seq [b_AddUint16 B (sh_supportedVersion m)])],
      cond (ks_group (sh_serverShare m) \<noteq> 0)
        [b_AddUint16 B extensionKeyShare,
         b_AddUint16LengthPrefixed B (seq [
           b_AddUint16 B (ks_group (sh_serverShare m)),
           b_AddUint16LengthPrefixed B (seq [b_AddBytes B (ks_data (sh_serverShare m))])])],
      cond (sh_selectedIdentityPresent m)
        [b_AddUint16 B extensionPreSharedKey,
         b_AddUint16LengthPrefixed B (seq [b_AddUint16 B (sh_selectedIdentity m)])],
      cond (length (sh_cookie m) > 0)
        [b_AddUint16 B extensionCookie,
         b_AddUint16LengthPrefixed B (seq [
           b_AddUint16LengthPrefixed B (seq [b_AddBytes B (sh_cookie m)])])],
      cond (sh_selectedGroup m \<noteq> 0)
        [b_AddUint16 B extensionKeyShare,
         b_AddUint16LengthPrefixed B (seq [b_AddUint16 B (sh_selectedGroup m)])],
      cond (length (sh_supportedPoints m) > 0)
        [b_AddUint16 B extensionSupportedPoints,
         b_AddUint16LengthPrefixed B (seq [
           b_AddUint8LengthPrefixed B (seq [b_AddBytes B (sh_supportedPoints m)])])],
      cond (length (sh_encryptedClientHello m) > 0)
        [b_AddUint16 B extensionEncryptedClientHello,
         b_AddUint16LengthPrefixed B (seq [b_AddBytes B (sh_encryptedClientHello m)])],
      cond (sh_serverNameAck m) [b_AddUint16 B extensionServerName, b_AddUint16 B 0]]"

definition sh_marshal :: "'b builder_ops \<Rightarrow> serverHelloMsg \<Rightarrow> bytes exec" where
  "sh_marshal B m =
     exec_bind (b_Bytes B (seq (sh_exts B m) (b_new B))) (\<lambda>extBytes.
       b_Bytes B (seq [
         b_AddUint8 B typeServerHello,
         b_AddUint24LengthPrefixed B (seq [
           b_AddUint16 B (sh_vers m),
           addBytesWithLength B (sh_random m) 32,
           b_AddUint8LengthPrefixed B (seq [b_AddBytes B (sh_sessionId m)]),
           b_AddUint16 B (sh_cipherSuite m),
           b_AddUint8 B (sh_compressionMethod m),
           cond (length extBytes > 0)
             [b_AddUint16LengthPrefixed B (seq [b_AddBytes B extBytes])]])] (b_new B)))"

text \<open>A list holding exactly one non-empty protocol, as ServerHello and EncryptedExtensions have it.\<close>

definition read_one_proto :: "reader_ops \<Rightarrow> bytes \<Rightarrow> (bytes \<times> bytes) option" where
  "read_one_proto R extData =
     do {(protoList, extData) \<leftarrow> r_ReadUint16LengthPrefixed R extData;
         if r_Empty R protoList then None else do {
         (proto, protoList) \<leftarrow> r_ReadUint8LengthPrefixed R protoList;
         if r_Empty R proto \<or> \<not> r_Empty R protoList then None
         else Some (proto, extData)}}"

text \<open>A non-empty list of non-empty items with 16-bit lengths.\<close>

definition read_nonempty16 :: "reader_ops \<Rightarrow> bytes \<Rightarrow> (bytes \<times> bytes) option" where
  "read_nonempty16 R s =
     do {(x, s) \<leftarrow> readUint16LengthPrefixed R s; if length x = 0 then None else Some (x, s)}"

definition read_items16 :: "reader_ops \<Rightarrow> bytes \<Rightarrow> (bytes list \<times> bytes) option" where
  "read_items16 R extData =
     do {(l, extData) \<leftarrow> r_ReadUint16LengthPrefixed R extData;
         if r_Empty R l then None else do {
         xs \<leftarrow> read_list R (read_nonempty16 R) l;
         Some (xs, extData)}}"

definition sh_switch :: "reader_ops \<Rightarrow> serverHelloMsg ext_switch" where
  "sh_switch R extension extData m =
     (if extension = extensionStatusRequest then Some (m\<lparr>sh_ocspStapling := True\<rparr>, Some extData)
      else if extension = extensionSessionTicket then
        Some (m\<lparr>sh_ticketSupported := True\<rparr>, Some extData)
      else if extension = extensionRenegotiationInfo then
        do {(info, extData) \<leftarrow> readUint8LengthPrefixed R extData;
            Some (m\<lparr>sh_secureRenegotiation := info, sh_secureRenegotiationSupported := True\<rparr>,
                  Some extData)}
      else if extension = extensionExtendedMasterSecret then
        Some (m\<lparr>sh_extendedMasterSecret := True\<rparr>, Some extData)
      else if extension = extensionALPN then
        do {(proto, extData) \<leftarrow> read_one_proto R extData;
            Some (m\<lparr>sh_alpnProtocol := proto\<rparr>, Some extData)}
      else if extension = extensionSCT then
        do {(xs, extData) \<leftarrow> read_items16 R extData;
            Some (m\<lparr>sh_scts := sh_scts m @ xs\<rparr>, Some extData)}
      else if extension = extensionSupportedVersions then
        do {(v, extData) \<leftarrow> r_ReadUint16 R extData;
            Some (m\<lparr>sh_supportedVersion := v\<rparr>, Some extData)}
      else if extension = extensionCookie then
        do {(cookie, extData) \<leftarrow> readUint16LengthPrefixed R extData;
            if length cookie = 0 then None else Some (m\<lparr>sh_cookie := cookie\<rparr>, Some extData)}
      else if extension = extensionKeyShare then
        if length extData = 2 then
          do {(group, extData) \<leftarrow> r_ReadUint16 R extData;
              Some (m\<lparr>sh_selectedGroup := group\<rparr>, Some extData)}
        else
          do {(group, extData) \<leftarrow> r_ReadUint16 R extData;
              (data, extData) \<leftarrow> readUint16LengthPrefixed R extData;
              Some (m\<lparr>sh_serverShare := \<lparr>ks_group = group, ks_data = data\<rparr>\<rparr>, Some extData)}
      else if extension = extensionPreSharedKey then
        do {(i, extData) \<leftarrow> r_ReadUint16 R extData;
            Some (m\<lparr>sh_selectedIdentityPresent := True, sh_selectedIdentity := i\<rparr>, Some extData)}
      else if extension = extensionSupportedPoints then
        do {(points, extData) \<leftarrow> readUint8LengthPrefixed R extData;
            if length points = 0 then None
            else Some (m\<lparr>sh_supportedPoints := points\<rparr>, Some extData)}
      else if extension = extensionEncryptedClientHello then
        do {(ech, extData) \<leftarrow> r_CopyBytes R (length extData) extData;
            Some (m\<lparr>sh_encryptedClientHello := ech\<rparr>, Some extData)}
      else if extension = extensionServerName then
        if length extData \<noteq> 0 then None else Some (m\<lparr>sh_serverNameAck := True\<rparr>, Some extData)
      else Some (m, None))"

definition sh_unmarshal :: "reader_ops \<Rightarrow> bytes \<Rightarrow> serverHelloMsg option" where
  "sh_unmarshal R data =
     do {s \<leftarrow> r_Skip R 4 data;
         (vers, s) \<leftarrow> r_ReadUint16 R s;
         (random, s) \<leftarrow> r_ReadBytes R 32 s;
         (sessionId, s) \<leftarrow> readUint8LengthPrefixed R s;
         (cipherSuite, s) \<leftarrow> r_ReadUint16 R s;
         (compressionMethod, s) \<leftarrow> r_ReadUint8 R s;
         let m = sh_zero\<lparr>sh_original := Some data, sh_vers := vers, sh_random := random,
                   sh_sessionId := sessionId, sh_cipherSuite := cipherSuite,
                   sh_compressionMethod := compressionMethod\<rparr>
         in if r_Empty R s then Some m else do {
            (extensions, s) \<leftarrow> r_ReadUint16LengthPrefixed R s;
            if \<not> r_Empty R s then None
            else ext_loop_once R (sh_switch R) extensions m}}"

definition sh_originalBytes :: "serverHelloMsg \<Rightarrow> bytes option" where
  "sh_originalBytes m = sh_original m"

section \<open>The wire format\<close>

text \<open>The extensions in the order of \<open>marshal\<close>, with what reading each one updates.\<close>

definition sh_items :: "serverHelloMsg \<Rightarrow> serverHelloMsg ext_item list" where
  "sh_items m =
     [Ext (sh_ocspStapling m) extensionStatusRequest (Some []) (sh_ocspStapling_update (\<lambda>_. True)),
      Ext (sh_ticketSupported m) extensionSessionTicket (Some []) (sh_ticketSupported_update (\<lambda>_. True)),
      Ext (sh_secureRenegotiationSupported m) extensionRenegotiationInfo
        (lp 1 (Some (sh_secureRenegotiation m)))
        (\<lambda>n. n\<lparr>sh_secureRenegotiation := sh_secureRenegotiation m, sh_secureRenegotiationSupported := True\<rparr>),
      Ext (sh_extendedMasterSecret m) extensionExtendedMasterSecret (Some [])
        (sh_extendedMasterSecret_update (\<lambda>_. True)),
      Ext (sh_alpnProtocol m \<noteq> []) extensionALPN (lp 2 (lp 1 (Some (sh_alpnProtocol m))))
        (sh_alpnProtocol_update (\<lambda>_. sh_alpnProtocol m)),
      Ext (sh_scts m \<noteq> []) extensionSCT (lp 2 (cat (map (\<lambda>s. lp 2 (Some s)) (sh_scts m))))
        (sh_scts_update (\<lambda>xs. xs @ sh_scts m)),
      Ext (sh_supportedVersion m \<noteq> 0) extensionSupportedVersions (Some (put_u16 (sh_supportedVersion m)))
        (sh_supportedVersion_update (\<lambda>_. sh_supportedVersion m)),
      Ext (ks_group (sh_serverShare m) \<noteq> 0) extensionKeyShare
        (cat [Some (put_u16 (ks_group (sh_serverShare m))), lp 2 (Some (ks_data (sh_serverShare m)))])
        (sh_serverShare_update (\<lambda>_. sh_serverShare m)),
      Ext (sh_selectedIdentityPresent m) extensionPreSharedKey (Some (put_u16 (sh_selectedIdentity m)))
        (\<lambda>n. n\<lparr>sh_selectedIdentityPresent := True, sh_selectedIdentity := sh_selectedIdentity m\<rparr>),
      Ext (sh_cookie m \<noteq> []) extensionCookie (lp 2 (Some (sh_cookie m)))
        (sh_cookie_update (\<lambda>_. sh_cookie m)),
      Ext (sh_selectedGroup m \<noteq> 0) extensionKeyShare (Some (put_u16 (sh_selectedGroup m)))
        (sh_selectedGroup_update (\<lambda>_. sh_selectedGroup m)),
      Ext (sh_supportedPoints m \<noteq> []) extensionSupportedPoints (lp 1 (Some (sh_supportedPoints m)))
        (sh_supportedPoints_update (\<lambda>_. sh_supportedPoints m)),
      Ext (sh_encryptedClientHello m \<noteq> []) extensionEncryptedClientHello
        (Some (sh_encryptedClientHello m)) (sh_encryptedClientHello_update (\<lambda>_. sh_encryptedClientHello m)),
      Ext (sh_serverNameAck m) extensionServerName (Some []) (sh_serverNameAck_update (\<lambda>_. True))]"

definition enc_serverHello :: "serverHelloMsg \<Rightarrow> bytes option" where
  "enc_serverHello m =
     Option.bind (cat (map item_bytes (sh_items m))) (\<lambda>extBytes.
       cat [Some [typeServerHello],
            lp 3 (cat [Some (put_u16 (sh_vers m)),
                       (if length (sh_random m) = 32 then Some (sh_random m) else None),
                       lp 1 (Some (sh_sessionId m)),
                       Some (put_u16 (sh_cipherSuite m)),
                       Some [sh_compressionMethod m],
                       (if extBytes \<noteq> [] then lp 2 (Some extBytes) else Some [])])])"

text \<open>
  What a message must satisfy to survive the trip: no data without its flag, no empty SCT,
  and a key share of one kind only, since both kinds have the same extension number.
\<close>

definition sh_wf :: "serverHelloMsg \<Rightarrow> bool" where
  "sh_wf m \<longleftrightarrow>
     (\<not> sh_secureRenegotiationSupported m \<longrightarrow> sh_secureRenegotiation m = []) \<and>
     [] \<notin> set (sh_scts m) \<and>
     (\<not> sh_selectedIdentityPresent m \<longrightarrow> sh_selectedIdentity m = 0) \<and>
     (ks_group (sh_serverShare m) = 0 \<longrightarrow> ks_data (sh_serverShare m) = []) \<and>
     (ks_group (sh_serverShare m) = 0 \<or> sh_selectedGroup m = 0)"

context cryptobyte_Builder
begin

lemma emits_exts_sh: "list_all2 (emits B) (sh_exts B m) (map item_bytes (sh_items m))"
  unfolding sh_exts_def sh_items_def list.map item_bytes_def ext_item.sel list_all2_Cons list_all2_Nil
  by (intro conjI TrueI emits_rules emits_one emits_two emits_each) simp_all

lemma sh_marshal_enc: "sh_marshal B m = Ret bs \<longleftrightarrow> enc_serverHello m = Some bs"
proof -
  have exts: "b_Bytes B (seq (sh_exts B m) (b_new B)) = Ret eb \<longleftrightarrow> cat (map item_bytes (sh_items m)) = Some eb" for eb
    by (intro emits_Bytes emits_seq emits_exts_sh)
  have body: "b_Bytes B (seq [b_AddUint8 B typeServerHello, b_AddUint24LengthPrefixed B (seq [
            b_AddUint16 B (sh_vers m), addBytesWithLength B (sh_random m) 32,
            b_AddUint8LengthPrefixed B (seq [b_AddBytes B (sh_sessionId m)]),
            b_AddUint16 B (sh_cipherSuite m), b_AddUint8 B (sh_compressionMethod m),
            cond (length eb > 0) [b_AddUint16LengthPrefixed B (seq [b_AddBytes B eb])]])] (b_new B)) =
          Ret bs \<longleftrightarrow>
        cat [Some [typeServerHello], lp 3 (cat [Some (put_u16 (sh_vers m)),
          (if length (sh_random m) = 32 then Some (sh_random m) else None),
          lp 1 (Some (sh_sessionId m)), Some (put_u16 (sh_cipherSuite m)), Some [sh_compressionMethod m],
          (if eb \<noteq> [] then lp 2 (Some eb) else Some [])])] = Some bs" for eb
    by (intro emits_Bytes emits_two AddUint8_emits AddUint24LengthPrefixed_emits emits_seq,
        unfold list_all2_Cons list_all2_Nil)
      (intro conjI TrueI refl emits_opt_exts emits_rules)
  show ?thesis
    unfolding sh_marshal_def enc_serverHello_def
    by (simp only: exec_bind_Ret_iff bind_eq_Some_conv exts body)
qed

end

lemma sh_switch_at:
  "sh_switch R extensionStatusRequest d m = Some (m\<lparr>sh_ocspStapling := True\<rparr>, Some d)"
  "sh_switch R extensionSessionTicket d m = Some (m\<lparr>sh_ticketSupported := True\<rparr>, Some d)"
  "sh_switch R extensionRenegotiationInfo d m =
     do {(info, d) \<leftarrow> readUint8LengthPrefixed R d;
         Some (m\<lparr>sh_secureRenegotiation := info, sh_secureRenegotiationSupported := True\<rparr>, Some d)}"
  "sh_switch R extensionExtendedMasterSecret d m = Some (m\<lparr>sh_extendedMasterSecret := True\<rparr>, Some d)"
  "sh_switch R extensionALPN d m =
     do {(proto, d) \<leftarrow> read_one_proto R d; Some (m\<lparr>sh_alpnProtocol := proto\<rparr>, Some d)}"
  "sh_switch R extensionSCT d m =
     do {(xs, d) \<leftarrow> read_items16 R d; Some (m\<lparr>sh_scts := sh_scts m @ xs\<rparr>, Some d)}"
  "sh_switch R extensionSupportedVersions d m =
     do {(v, d) \<leftarrow> r_ReadUint16 R d; Some (m\<lparr>sh_supportedVersion := v\<rparr>, Some d)}"
  "sh_switch R extensionCookie d m =
     do {(cookie, d) \<leftarrow> readUint16LengthPrefixed R d;
         if length cookie = 0 then None else Some (m\<lparr>sh_cookie := cookie\<rparr>, Some d)}"
  "sh_switch R extensionKeyShare d m =
     (if length d = 2 then
        do {(group, d) \<leftarrow> r_ReadUint16 R d; Some (m\<lparr>sh_selectedGroup := group\<rparr>, Some d)}
      else do {(group, d) \<leftarrow> r_ReadUint16 R d; (data, d) \<leftarrow> readUint16LengthPrefixed R d;
               Some (m\<lparr>sh_serverShare := \<lparr>ks_group = group, ks_data = data\<rparr>\<rparr>, Some d)})"
  "sh_switch R extensionPreSharedKey d m =
     do {(i, d) \<leftarrow> r_ReadUint16 R d;
         Some (m\<lparr>sh_selectedIdentityPresent := True, sh_selectedIdentity := i\<rparr>, Some d)}"
  "sh_switch R extensionSupportedPoints d m =
     do {(points, d) \<leftarrow> readUint8LengthPrefixed R d;
         if length points = 0 then None else Some (m\<lparr>sh_supportedPoints := points\<rparr>, Some d)}"
  "sh_switch R extensionEncryptedClientHello d m =
     do {(ech, d) \<leftarrow> r_CopyBytes R (length d) d; Some (m\<lparr>sh_encryptedClientHello := ech\<rparr>, Some d)}"
  "sh_switch R extensionServerName d m =
     (if length d \<noteq> 0 then None else Some (m\<lparr>sh_serverNameAck := True\<rparr>, Some d))"
  by (simp_all add: sh_switch_def extension_ids)

text \<open>The update of an optional extension changes its own field only.\<close>

lemma sh_item_apply:
  "item_apply (Ext c i b (sh_ocspStapling_update g1)) n = sh_ocspStapling_update (\<lambda>o'. if c then g1 o' else o') n"
  "item_apply (Ext c i b (sh_ticketSupported_update g2)) n = sh_ticketSupported_update (\<lambda>o'. if c then g2 o' else o') n"
  "item_apply (Ext c i b (sh_extendedMasterSecret_update g3)) n = sh_extendedMasterSecret_update (\<lambda>o'. if c then g3 o' else o') n"
  "item_apply (Ext c i b (sh_serverNameAck_update g4)) n = sh_serverNameAck_update (\<lambda>o'. if c then g4 o' else o') n"
  "item_apply (Ext c i b (sh_alpnProtocol_update g5)) n = sh_alpnProtocol_update (\<lambda>o'. if c then g5 o' else o') n"
  "item_apply (Ext c i b (sh_supportedVersion_update g6)) n = sh_supportedVersion_update (\<lambda>o'. if c then g6 o' else o') n"
  "item_apply (Ext c i b (sh_serverShare_update g7)) n = sh_serverShare_update (\<lambda>o'. if c then g7 o' else o') n"
  "item_apply (Ext c i b (sh_cookie_update g8)) n = sh_cookie_update (\<lambda>o'. if c then g8 o' else o') n"
  "item_apply (Ext c i b (sh_selectedGroup_update g9)) n = sh_selectedGroup_update (\<lambda>o'. if c then g9 o' else o') n"
  "item_apply (Ext c i b (sh_supportedPoints_update g10)) n = sh_supportedPoints_update (\<lambda>o'. if c then g10 o' else o') n"
  "item_apply (Ext c i b (sh_encryptedClientHello_update g11)) n = sh_encryptedClientHello_update (\<lambda>o'. if c then g11 o' else o') n"
  "item_apply (Ext c i b (sh_scts_update g12)) n = sh_scts_update (\<lambda>o'. if c then g12 o' else o') n"
  "item_apply (Ext c i b (\<lambda>n. n\<lparr>sh_secureRenegotiation := r, sh_secureRenegotiationSupported := True\<rparr>)) n =
     sh_secureRenegotiationSupported_update (\<lambda>o'. if c then True else o')
       (sh_secureRenegotiation_update (\<lambda>o'. if c then r else o') n)"
  "item_apply (Ext c i b (\<lambda>n. n\<lparr>sh_selectedIdentityPresent := True, sh_selectedIdentity := v\<rparr>)) n =
     sh_selectedIdentity_update (\<lambda>o'. if c then v else o')
       (sh_selectedIdentityPresent_update (\<lambda>o'. if c then True else o') n)"
  by (simp_all add: item_apply_def)

lemma sh_items_apply:
  assumes "sh_wf m"
  shows "fold item_apply (sh_items m) (sh_zero\<lparr>sh_original := Some bs, sh_vers := sh_vers m, sh_random := sh_random m,
      sh_sessionId := sh_sessionId m, sh_cipherSuite := sh_cipherSuite m,
      sh_compressionMethod := sh_compressionMethod m\<rparr>) = m\<lparr>sh_original := Some bs\<rparr>"
proof -
  have ifs: "(if x \<noteq> [] then x else []) = x" "(if v \<noteq> 0 then v else 0) = v" "(if c then True else False) = c"
    for x :: "'x list" and v :: u16 and c
    by simp_all
  have wf: "(if sh_secureRenegotiationSupported m then sh_secureRenegotiation m else []) = sh_secureRenegotiation m"
    "(if sh_selectedIdentityPresent m then sh_selectedIdentity m else 0) = sh_selectedIdentity m"
    "(if ks_group (sh_serverShare m) \<noteq> 0 then sh_serverShare m else \<lparr>ks_group = 0, ks_data = []\<rparr>) = sh_serverShare m"
    using assms by (cases "sh_serverShare m"; auto simp: sh_wf_def)+
  show ?thesis
    unfolding sh_items_def sh_zero_def fold_simps sh_item_apply
    by (simp only: serverHelloMsg.simps id_apply append_Nil ifs wf) simp
qed

lemma sh_numbers_distinct: "sh_wf m \<Longrightarrow> distinct (numbers (sh_items m))"
  unfolding sh_items_def numbers_simps ext_item.sel by (simp add: extension_ids sh_wf_def) blast

context cryptobyte_String
begin

lemma read_items16_lp:
  assumes "[] \<notin> set xs" "xs \<noteq> []" "lp 2 (cat (map (\<lambda>x. lp 2 (Some x)) xs)) = Some b"
  shows "read_items16 R b = Some (xs, [])"
proof -
  define enc where "enc x = put_be 2 (length x) @ x" for x :: bytes
  obtain w where b: "b = put_be 2 (length w) @ w" "length w < 65536"
    and w: "cat (map (\<lambda>x. lp 2 (Some x)) xs) = Some w"
    using assms(3) by (auto simp: lp_Some_iff)
  then have all: "x \<in> set xs \<Longrightarrow> length x < 65536" for x
    unfolding cat_map_Some_iff by (auto simp: lp_def split: if_splits)
  then have w': "w = concat (map enc xs)"
    using w unfolding cat_map_Some_iff by (auto simp: lp_def enc_def intro!: arg_cong [of _ _ concat])
  have "read_list R (read_nonempty16 R) w = Some xs"
    unfolding w' using all assms(1)
    by (intro read_list_concat) (auto simp: enc_def read_nonempty16_def read_helpers)
  moreover have "w \<noteq> []"
    using assms(2) by (cases xs) (simp_all add: w' enc_def)
  ultimately show ?thesis
    using b by (simp add: read_items16_def)
qed

lemma read_one_proto_lp:
  assumes "v \<noteq> []" "lp 2 (lp 1 (Some v)) = Some b"
  shows "read_one_proto R b = Some (v, [])"
proof -
  define w where "w = (of_nat (length v) :: byte) # v"
  have b: "b = put_be 2 (length w) @ w" "length w < 65536" "length v < 256" "w \<noteq> []"
    using assms(2) by (auto simp: w_def lp_Some_iff)
  have "r_ReadUint8LengthPrefixed R w = Some (v, [])"
    using b(3) by (simp add: w_def)
  with b assms(1) show ?thesis
    by (simp add: read_one_proto_def)
qed

lemma sh_items_read:
  assumes "sh_wf m"
  shows "list_all (reads_back (sh_switch R)) (sh_items m)"
proof -
  have scts: "[] \<notin> set (sh_scts m)"
    using assms by (simp add: sh_wf_def)
  show ?thesis
    unfolding sh_items_def list.pred_inject
    by (intro conjI TrueI reads_backI)
      (auto simp: sh_switch_at read_helpers lp_Some_iff [of "Suc 0"] lp_Some_iff [of 2 "Some _"] cat_Some_iff
        read_items16_lp [OF scts] read_one_proto_lp simp del: cat.simps(2))
qed

lemma sh_unmarshal_enc:
  assumes "sh_wf m" "enc_serverHello m = Some bs"
  shows "sh_unmarshal R bs = Some (m\<lparr>sh_original := Some bs\<rparr>)"
proof -
  obtain eb body where eb: "cat (map item_bytes (sh_items m)) = Some eb"
    and bs: "bs = (typeServerHello # put_be 3 (length body)) @ body"
    and body: "cat [Some (put_u16 (sh_vers m)),
        (if length (sh_random m) = 32 then Some (sh_random m) else None),
        lp 1 (Some (sh_sessionId m)), Some (put_u16 (sh_cipherSuite m)), Some [sh_compressionMethod m],
        (if eb \<noteq> [] then lp 2 (Some eb) else Some [])] = Some body"
    using assms(2) by (auto simp: enc_serverHello_def bind_eq_Some_conv cat_Some_iff lp_Some_iff
        simp del: cat.simps(2) One_nat_def)
  define tail where "tail = (if eb \<noteq> [] then put_be 2 (length eb) @ eb else [])"
  have body: "body = put_u16 (sh_vers m) @ sh_random m @ (of_nat (length (sh_sessionId m)) # sh_sessionId m)
      @ put_u16 (sh_cipherSuite m) @ (sh_compressionMethod m # tail)"
    and lens: "length (sh_random m) = 32" "length (sh_sessionId m) < 256" "eb \<noteq> [] \<Longrightarrow> length eb < 65536"
    using body by (auto simp: cat_Some_iff lp_Some_iff tail_def simp del: cat.simps(2) split: if_splits)
  have skip: "r_Skip R 4 bs = Some body"
    unfolding bs by (rule skip4) simp
  have read: "e \<in> set (sh_items m) \<Longrightarrow> reads_back (sh_switch R) e" for e
    using sh_items_read [OF assms(1)] by (simp add: list_all_iff)
  note run = ext_loop_once_items [OF eb read sh_numbers_distinct [OF assms(1)]]
  note res = sh_items_apply [OF assms(1), of bs]
  show ?thesis
  proof (cases "eb = []")
    case True
    then have "fold item_apply (sh_items m) n = n" for n
      using run [of n] by (simp add: ext_loop_once_def)
    with True res lens show ?thesis
      by (simp add: sh_unmarshal_def skip body tail_def read_helpers)
  next
    case False
    with run res lens show ?thesis
      by (simp add: sh_unmarshal_def skip body tail_def read_helpers)
  qed
qed

end

section \<open>Properties\<close>

text \<open>A ServerHello or HelloRetryRequest survives the wire: over any \<open>cryptobyte\<close> that keeps its
  documented contract, \<open>unmarshal\<close> of what \<open>marshal\<close> returned accepts and gives the message
  back, with \<open>original\<close> set to the bytes.  The message must be one both directions can
  represent (\<open>sh_wf\<close>: in particular not both a server share and a selected group).\<close>

theorem serverHello_roundtrip:
  assumes "cryptobyte_Builder B" and "cryptobyte_String R" and "sh_wf m" and "sh_marshal B m = Ret bs"
  shows "sh_unmarshal R bs = Some (m\<lparr>sh_original := Some bs\<rparr>)"
  using assms cryptobyte_Builder.sh_marshal_enc [OF assms(1), of m bs]
    cryptobyte_String.sh_unmarshal_enc [OF assms(2), of m bs] by simp

text \<open>A HelloRetryRequest for concrete runs.\<close>

definition demo_retry :: serverHelloMsg where
  "demo_retry = sh_zero\<lparr>sh_vers := VersionTLS12, sh_random := replicate 32 3, sh_sessionId := [1, 2],
     sh_cipherSuite := 0x1301, sh_supportedVersion := VersionTLS13, sh_selectedGroup := X25519,
     sh_cookie := [8, 8], sh_scts := [[1], [2, 3]]\<rparr>"

theorem serverHello_roundtrip_witness:
  "\<exists>bs. sh_marshal ref_builder demo_retry = Ret bs \<and>
     sh_unmarshal ref_reader bs = Some (demo_retry\<lparr>sh_original := Some bs\<rparr>)"
proof -
  have wf: "sh_wf demo_retry"
    by (simp add: sh_wf_def demo_retry_def sh_zero_def)
  have "\<exists>bs. enc_serverHello demo_retry = Some bs"
    by (simp add: demo_retry_def sh_zero_def enc_serverHello_def sh_items_def item_bytes_def ext_opt_def lp_def
        version_ids curve_ids)
  then obtain bs where bs: "sh_marshal ref_builder demo_retry = Ret bs"
    by (auto simp: ref_builder.sh_marshal_enc)
  from serverHello_roundtrip [OF ref_builder.cryptobyte_Builder_axioms
      ref_reader.cryptobyte_String_axioms wf this] bs
  show ?thesis
    by blast
qed

end
