(* ===== verification/Messages13.thy ===== *)
theory Messages13
  imports ServerHello
begin

text \<open>
  The other handshake messages that \<open>handshake_messages.go\<close> builds with \<open>cryptobyte\<close>:
  EncryptedExtensions, KeyUpdate, the TLS 1.3 NewSessionTicket, CertificateRequest and
  Certificate, and CertificateStatus, Finished and CertificateVerify.  Each has its record,
  \<open>marshal\<close> and \<open>unmarshal\<close>, the wire format as an equation, and the two results that
  \<open>marshal\<close> writes the format and \<open>unmarshal\<close> reads it back.
\<close>

section \<open>\<open>encryptedExtensionsMsg\<close>\<close>

record encryptedExtensionsMsg =
  ee_alpnProtocol :: bytes
  ee_quicTransportParameters :: "bytes option"
  ee_earlyData :: bool
  ee_echRetryConfigs :: bytes

definition ee_zero :: encryptedExtensionsMsg where
  "ee_zero = \<lparr>ee_alpnProtocol = [], ee_quicTransportParameters = None, ee_earlyData = False,
     ee_echRetryConfigs = []\<rparr>"

definition ee_marshal :: "'b builder_ops \<Rightarrow> encryptedExtensionsMsg \<Rightarrow> bytes exec" where
  "ee_marshal B m =
     b_Bytes B (seq [
       b_AddUint8 B typeEncryptedExtensions,
       b_AddUint24LengthPrefixed B (seq [
         b_AddUint16LengthPrefixed B (seq [
           cond (length (ee_alpnProtocol m) > 0)
             [b_AddUint16 B extensionALPN,
              b_AddUint16LengthPrefixed B (seq [
                b_AddUint16LengthPrefixed B (seq [
                  b_AddUint8LengthPrefixed B (seq [b_AddBytes B (ee_alpnProtocol m)])])])],
           cond (ee_quicTransportParameters m \<noteq> None)
             [b_AddUint16 B extensionQUICTransportParameters,
              b_AddUint16LengthPrefixed B (seq [b_AddBytes B (the (ee_quicTransportParameters m))])],
           cond (ee_earlyData m) [b_AddUint16 B extensionEarlyData, b_AddUint16 B 0],
           cond (length (ee_echRetryConfigs m) > 0)
             [b_AddUint16 B extensionEncryptedClientHello,
              b_AddUint16LengthPrefixed B (seq [b_AddBytes B (ee_echRetryConfigs m)])]])])] (b_new B))"

definition ee_switch :: "reader_ops \<Rightarrow> encryptedExtensionsMsg ext_switch" where
  "ee_switch R extension extData m =
     (if extension = extensionALPN then
        do {(proto, extData) \<leftarrow> read_one_proto R extData;
            Some (m\<lparr>ee_alpnProtocol := proto\<rparr>, Some extData)}
      else if extension = extensionQUICTransportParameters then
        do {(params, extData) \<leftarrow> r_CopyBytes R (length extData) extData;
            Some (m\<lparr>ee_quicTransportParameters := Some params\<rparr>, Some extData)}
      else if extension = extensionEarlyData then Some (m\<lparr>ee_earlyData := True\<rparr>, Some extData)
      else if extension = extensionEncryptedClientHello then
        do {(configs, extData) \<leftarrow> r_CopyBytes R (length extData) extData;
            Some (m\<lparr>ee_echRetryConfigs := configs\<rparr>, Some extData)}
      else Some (m, None))"

definition ee_unmarshal :: "reader_ops \<Rightarrow> bytes \<Rightarrow> encryptedExtensionsMsg option" where
  "ee_unmarshal R data =
     do {s \<leftarrow> r_Skip R 4 data;
         (extensions, s) \<leftarrow> r_ReadUint16LengthPrefixed R s;
         if \<not> r_Empty R s then None else ext_loop R (ee_switch R) extensions ee_zero}"

section \<open>\<open>keyUpdateMsg\<close>\<close>

record keyUpdateMsg =
  ku_updateRequested :: bool

definition ku_marshal :: "'b builder_ops \<Rightarrow> keyUpdateMsg \<Rightarrow> bytes exec" where
  "ku_marshal B m =
     b_Bytes B (seq [
       b_AddUint8 B typeKeyUpdate,
       b_AddUint24LengthPrefixed B (seq [
         if ku_updateRequested m then b_AddUint8 B 1 else b_AddUint8 B 0])] (b_new B))"

definition ku_unmarshal :: "reader_ops \<Rightarrow> bytes \<Rightarrow> keyUpdateMsg option" where
  "ku_unmarshal R data =
     do {s \<leftarrow> r_Skip R 4 data;
         (updateRequested, s) \<leftarrow> r_ReadUint8 R s;
         if \<not> r_Empty R s then None
         else if updateRequested = 0 then Some \<lparr>ku_updateRequested = False\<rparr>
         else if updateRequested = 1 then Some \<lparr>ku_updateRequested = True\<rparr>
         else None}"

section \<open>\<open>newSessionTicketMsgTLS13\<close>\<close>

record newSessionTicketMsgTLS13 =
  nst13_lifetime :: u32
  nst13_ageAdd :: u32
  nst13_nonce :: bytes
  nst13_label :: bytes
  nst13_maxEarlyData :: u32

definition nst13_marshal :: "'b builder_ops \<Rightarrow> newSessionTicketMsgTLS13 \<Rightarrow> bytes exec" where
  "nst13_marshal B m =
     b_Bytes B (seq [
       b_AddUint8 B typeNewSessionTicket,
       b_AddUint24LengthPrefixed B (seq [
         b_AddUint32 B (nst13_lifetime m),
         b_AddUint32 B (nst13_ageAdd m),
         b_AddUint8LengthPrefixed B (seq [b_AddBytes B (nst13_nonce m)]),
         b_AddUint16LengthPrefixed B (seq [b_AddBytes B (nst13_label m)]),
         b_AddUint16LengthPrefixed B (seq [
           cond (nst13_maxEarlyData m > 0)
             [b_AddUint16 B extensionEarlyData,
              b_AddUint16LengthPrefixed B (seq [b_AddUint32 B (nst13_maxEarlyData m)])]])])] (b_new B))"

definition nst13_switch :: "reader_ops \<Rightarrow> newSessionTicketMsgTLS13 ext_switch" where
  "nst13_switch R extension extData m =
     (if extension = extensionEarlyData then
        do {(maxEarlyData, extData) \<leftarrow> r_ReadUint32 R extData;
            Some (m\<lparr>nst13_maxEarlyData := maxEarlyData\<rparr>, Some extData)}
      else Some (m, None))"

definition nst13_unmarshal :: "reader_ops \<Rightarrow> bytes \<Rightarrow> newSessionTicketMsgTLS13 option" where
  "nst13_unmarshal R data =
     do {s \<leftarrow> r_Skip R 4 data;
         (lifetime, s) \<leftarrow> r_ReadUint32 R s;
         (ageAdd, s) \<leftarrow> r_ReadUint32 R s;
         (nonce, s) \<leftarrow> readUint8LengthPrefixed R s;
         (label, s) \<leftarrow> readUint16LengthPrefixed R s;
         (extensions, s) \<leftarrow> r_ReadUint16LengthPrefixed R s;
         if \<not> r_Empty R s then None
         else ext_loop R (nst13_switch R) extensions
                \<lparr>nst13_lifetime = lifetime, nst13_ageAdd = ageAdd, nst13_nonce = nonce,
                 nst13_label = label, nst13_maxEarlyData = 0\<rparr>}"

section \<open>\<open>certificateRequestMsgTLS13\<close>\<close>

record certificateRequestMsgTLS13 =
  cr13_ocspStapling :: bool
  cr13_scts :: bool
  cr13_supportedSignatureAlgorithms :: "u16 list"
  cr13_supportedSignatureAlgorithmsCert :: "u16 list"
  cr13_certificateAuthorities :: "bytes list"

definition cr13_zero :: certificateRequestMsgTLS13 where
  "cr13_zero = \<lparr>cr13_ocspStapling = False, cr13_scts = False, cr13_supportedSignatureAlgorithms = [],
     cr13_supportedSignatureAlgorithmsCert = [], cr13_certificateAuthorities = []\<rparr>"

definition cr13_marshal :: "'b builder_ops \<Rightarrow> certificateRequestMsgTLS13 \<Rightarrow> bytes exec" where
  "cr13_marshal B m =
     b_Bytes B (seq [
       b_AddUint8 B typeCertificateRequest,
       b_AddUint24LengthPrefixed B (seq [
         b_AddUint8 B 0,
         b_AddUint16LengthPrefixed B (seq [
           cond (cr13_ocspStapling m) [b_AddUint16 B extensionStatusRequest, b_AddUint16 B 0],
           cond (cr13_scts m) [b_AddUint16 B extensionSCT, b_AddUint16 B 0],
           cond (length (cr13_supportedSignatureAlgorithms m) > 0)
             [b_AddUint16 B extensionSignatureAlgorithms,
              b_AddUint16LengthPrefixed B (seq [
                b_AddUint16LengthPrefixed B
                  (each (cr13_supportedSignatureAlgorithms m) (b_AddUint16 B))])],
           cond (length (cr13_supportedSignatureAlgorithmsCert m) > 0)
             [b_AddUint16 B extensionSignatureAlgorithmsCert,
              b_AddUint16LengthPrefixed B (seq [
                b_AddUint16LengthPrefixed B
                  (each (cr13_supportedSignatureAlgorithmsCert m) (b_AddUint16 B))])],
           cond (length (cr13_certificateAuthorities m) > 0)
             [b_AddUint16 B extensionCertificateAuthorities,
              b_AddUint16LengthPrefixed B (seq [
                b_AddUint16LengthPrefixed B (each (cr13_certificateAuthorities m) (\<lambda>ca.
                  b_AddUint16LengthPrefixed B (seq [b_AddBytes B ca])))])]])])] (b_new B))"

definition cr13_switch :: "reader_ops \<Rightarrow> certificateRequestMsgTLS13 ext_switch" where
  "cr13_switch R extension extData m =
     (if extension = extensionStatusRequest then Some (m\<lparr>cr13_ocspStapling := True\<rparr>, Some extData)
      else if extension = extensionSCT then Some (m\<lparr>cr13_scts := True\<rparr>, Some extData)
      else if extension = extensionSignatureAlgorithms then
        do {(algs, extData) \<leftarrow> r_ReadUint16LengthPrefixed R extData;
            xs \<leftarrow> read_u16s R algs;
            Some (m\<lparr>cr13_supportedSignatureAlgorithms := cr13_supportedSignatureAlgorithms m @ xs\<rparr>,
                  Some extData)}
      else if extension = extensionSignatureAlgorithmsCert then
        do {(algs, extData) \<leftarrow> r_ReadUint16LengthPrefixed R extData;
            xs \<leftarrow> read_u16s R algs;
            Some (m\<lparr>cr13_supportedSignatureAlgorithmsCert := cr13_supportedSignatureAlgorithmsCert m @ xs\<rparr>,
                  Some extData)}
      else if extension = extensionCertificateAuthorities then
        do {(xs, extData) \<leftarrow> read_items16 R extData;
            Some (m\<lparr>cr13_certificateAuthorities := cr13_certificateAuthorities m @ xs\<rparr>, Some extData)}
      else Some (m, None))"

definition cr13_unmarshal :: "reader_ops \<Rightarrow> bytes \<Rightarrow> certificateRequestMsgTLS13 option" where
  "cr13_unmarshal R data =
     do {s \<leftarrow> r_Skip R 4 data;
         (context, s) \<leftarrow> r_ReadUint8LengthPrefixed R s;
         if \<not> r_Empty R context then None else do {
         (extensions, s) \<leftarrow> r_ReadUint16LengthPrefixed R s;
         if \<not> r_Empty R s then None else ext_loop R (cr13_switch R) extensions cr13_zero}}"

section \<open>\<open>certificateMsgTLS13\<close>\<close>

text \<open>
  The fields of \<open>Certificate\<close> that the message carries; the private key and the parsed leaf
  never reach the wire.  A nil staple or timestamp list is \<open>None\<close>.
\<close>

record Certificate =
  cert_Certificate :: "bytes list"
  cert_OCSPStaple :: "bytes option"
  cert_SignedCertificateTimestamps :: "bytes list option"

record certificateMsgTLS13 =
  c13_certificate :: Certificate
  c13_ocspStapling :: bool
  c13_scts :: bool

definition marshalCertificate_leafExts :: "'b builder_ops \<Rightarrow> Certificate \<Rightarrow> ('b \<Rightarrow> 'b) list" where
  "marshalCertificate_leafExts B certificate =
     [cond (cert_OCSPStaple certificate \<noteq> None)
        [b_AddUint16 B extensionStatusRequest,
         b_AddUint16LengthPrefixed B (seq [
           b_AddUint8 B statusTypeOCSP,
           b_AddUint24LengthPrefixed B (seq [b_AddBytes B (the (cert_OCSPStaple certificate))])])],
      cond (cert_SignedCertificateTimestamps certificate \<noteq> None)
        [b_AddUint16 B extensionSCT,
         b_AddUint16LengthPrefixed B (seq [
           b_AddUint16LengthPrefixed B
             (each (the (cert_SignedCertificateTimestamps certificate)) (\<lambda>sct.
               b_AddUint16LengthPrefixed B (seq [b_AddBytes B sct])))])]]"

definition marshalCertificate :: "'b builder_ops \<Rightarrow> Certificate \<Rightarrow> 'b \<Rightarrow> 'b" where
  "marshalCertificate B certificate =
     b_AddUint24LengthPrefixed B
       (each (enumerate 0 (cert_Certificate certificate)) (\<lambda>(i, cert). seq [
          b_AddUint24LengthPrefixed B (seq [b_AddBytes B cert]),
          b_AddUint16LengthPrefixed B
            (if i > 0 then (\<lambda>b. b) else seq (marshalCertificate_leafExts B certificate))]))"

definition c13_marshal :: "'b builder_ops \<Rightarrow> certificateMsgTLS13 \<Rightarrow> bytes exec" where
  "c13_marshal B m =
     b_Bytes B (seq [
       b_AddUint8 B typeCertificate,
       b_AddUint24LengthPrefixed B (seq [
         b_AddUint8 B 0,
         (let certificate = c13_certificate m;
              certificate = (if \<not> c13_ocspStapling m then certificate\<lparr>cert_OCSPStaple := None\<rparr>
                             else certificate);
              certificate = (if \<not> c13_scts m
                             then certificate\<lparr>cert_SignedCertificateTimestamps := None\<rparr>
                             else certificate)
          in marshalCertificate B certificate)])] (b_new B))"

definition cert_switch :: "reader_ops \<Rightarrow> Certificate ext_switch" where
  "cert_switch R extension extData certificate =
     (if length (cert_Certificate certificate) > 1 then Some (certificate, None)
      else if extension = extensionStatusRequest then
        do {(statusType, extData) \<leftarrow> r_ReadUint8 R extData;
            if statusType \<noteq> statusTypeOCSP then None else do {
            (staple, extData) \<leftarrow> readUint24LengthPrefixed R extData;
            if length staple = 0 then None
            else Some (certificate\<lparr>cert_OCSPStaple := Some staple\<rparr>, Some extData)}}
      else if extension = extensionSCT then
        do {(xs, extData) \<leftarrow> read_items16 R extData;
            Some (certificate\<lparr>cert_SignedCertificateTimestamps :=
                    Some ((case cert_SignedCertificateTimestamps certificate of None \<Rightarrow> [] | Some ys \<Rightarrow> ys) @ xs)\<rparr>,
                  Some extData)}
      else Some (certificate, None))"

definition cert_step :: "reader_ops \<Rightarrow> bytes \<Rightarrow> Certificate \<Rightarrow> (Certificate \<times> bytes) option" where
  "cert_step R certList certificate =
     do {(cert, certList) \<leftarrow> readUint24LengthPrefixed R certList;
         (extensions, certList) \<leftarrow> r_ReadUint16LengthPrefixed R certList;
         certificate \<leftarrow> ext_loop R (cert_switch R) extensions
           (certificate\<lparr>cert_Certificate := cert_Certificate certificate @ [cert]\<rparr>);
         Some (certificate, certList)}"

definition unmarshalCertificate ::
  "reader_ops \<Rightarrow> bytes \<Rightarrow> Certificate \<Rightarrow> (Certificate \<times> bytes) option" where
  "unmarshalCertificate R s certificate =
     do {(certList, s) \<leftarrow> r_ReadUint24LengthPrefixed R s;
         certificate \<leftarrow> loop R (cert_step R) (length certList) certList certificate;
         Some (certificate, s)}"

definition cert_zero :: Certificate where
  "cert_zero = \<lparr>cert_Certificate = [], cert_OCSPStaple = None, cert_SignedCertificateTimestamps = None\<rparr>"

definition c13_unmarshal :: "reader_ops \<Rightarrow> bytes \<Rightarrow> certificateMsgTLS13 option" where
  "c13_unmarshal R data =
     do {s \<leftarrow> r_Skip R 4 data;
         (context, s) \<leftarrow> r_ReadUint8LengthPrefixed R s;
         if \<not> r_Empty R context then None else do {
         (certificate, s) \<leftarrow> unmarshalCertificate R s cert_zero;
         if \<not> r_Empty R s then None
         else Some \<lparr>c13_certificate = certificate,
                    c13_ocspStapling = (cert_OCSPStaple certificate \<noteq> None),
                    c13_scts = (cert_SignedCertificateTimestamps certificate \<noteq> None)\<rparr>}}"

section \<open>\<open>certificateStatusMsg\<close>, \<open>finishedMsg\<close> and \<open>certificateVerifyMsg\<close>\<close>

record certificateStatusMsg =
  cst_response :: bytes

definition cst_marshal :: "'b builder_ops \<Rightarrow> certificateStatusMsg \<Rightarrow> bytes exec" where
  "cst_marshal B m =
     b_Bytes B (seq [
       b_AddUint8 B typeCertificateStatus,
       b_AddUint24LengthPrefixed B (seq [
         b_AddUint8 B statusTypeOCSP,
         b_AddUint24LengthPrefixed B (seq [b_AddBytes B (cst_response m)])])] (b_new B))"

definition cst_unmarshal :: "reader_ops \<Rightarrow> bytes \<Rightarrow> certificateStatusMsg option" where
  "cst_unmarshal R data =
     do {s \<leftarrow> r_Skip R 4 data;
         (statusType, s) \<leftarrow> r_ReadUint8 R s;
         if statusType \<noteq> statusTypeOCSP then None else do {
         (response, s) \<leftarrow> readUint24LengthPrefixed R s;
         if length response = 0 \<or> \<not> r_Empty R s then None else Some \<lparr>cst_response = response\<rparr>}}"

record finishedMsg =
  fin_verifyData :: bytes

definition fin_marshal :: "'b builder_ops \<Rightarrow> finishedMsg \<Rightarrow> bytes exec" where
  "fin_marshal B m =
     b_Bytes B (seq [
       b_AddUint8 B typeFinished,
       b_AddUint24LengthPrefixed B (seq [b_AddBytes B (fin_verifyData m)])] (b_new B))"

definition fin_unmarshal :: "reader_ops \<Rightarrow> bytes \<Rightarrow> finishedMsg option" where
  "fin_unmarshal R data =
     do {s \<leftarrow> r_Skip R 1 data;
         (verifyData, s) \<leftarrow> readUint24LengthPrefixed R s;
         if r_Empty R s then Some \<lparr>fin_verifyData = verifyData\<rparr> else None}"

record certificateVerifyMsg =
  cv_hasSignatureAlgorithm :: bool
  cv_signatureAlgorithm :: u16
  cv_signature :: bytes

definition cv_marshal :: "'b builder_ops \<Rightarrow> certificateVerifyMsg \<Rightarrow> bytes exec" where
  "cv_marshal B m =
     b_Bytes B (seq [
       b_AddUint8 B typeCertificateVerify,
       b_AddUint24LengthPrefixed B (seq [
         cond (cv_hasSignatureAlgorithm m) [b_AddUint16 B (cv_signatureAlgorithm m)],
         b_AddUint16LengthPrefixed B (seq [b_AddBytes B (cv_signature m)])])] (b_new B))"

text \<open>The receiver's \<open>hasSignatureAlgorithm\<close> says which format to expect.\<close>

definition cv_unmarshal ::
  "reader_ops \<Rightarrow> certificateVerifyMsg \<Rightarrow> bytes \<Rightarrow> certificateVerifyMsg option" where
  "cv_unmarshal R m data =
     do {s \<leftarrow> r_Skip R 4 data;
         (m, s) \<leftarrow> (if cv_hasSignatureAlgorithm m
                    then do {(alg, s) \<leftarrow> r_ReadUint16 R s; Some (m\<lparr>cv_signatureAlgorithm := alg\<rparr>, s)}
                    else Some (m, s));
         (signature, s) \<leftarrow> readUint16LengthPrefixed R s;
         if r_Empty R s then Some (m\<lparr>cv_signature := signature\<rparr>) else None}"

section \<open>Wire formats\<close>

definition ee_items :: "encryptedExtensionsMsg \<Rightarrow> encryptedExtensionsMsg ext_item list" where
  "ee_items m =
     [Ext (ee_alpnProtocol m \<noteq> []) extensionALPN (lp 2 (lp 1 (Some (ee_alpnProtocol m))))
        (ee_alpnProtocol_update (\<lambda>_. ee_alpnProtocol m)),
      Ext (ee_quicTransportParameters m \<noteq> None) extensionQUICTransportParameters
        (Some (the (ee_quicTransportParameters m)))
        (ee_quicTransportParameters_update (\<lambda>_. ee_quicTransportParameters m)),
      Ext (ee_earlyData m) extensionEarlyData (Some []) (ee_earlyData_update (\<lambda>_. True)),
      Ext (ee_echRetryConfigs m \<noteq> []) extensionEncryptedClientHello (Some (ee_echRetryConfigs m))
        (ee_echRetryConfigs_update (\<lambda>_. ee_echRetryConfigs m))]"

definition nst13_items :: "newSessionTicketMsgTLS13 \<Rightarrow> newSessionTicketMsgTLS13 ext_item list" where
  "nst13_items m =
     [Ext (nst13_maxEarlyData m \<noteq> 0) extensionEarlyData (Some (put_u32 (nst13_maxEarlyData m)))
        (nst13_maxEarlyData_update (\<lambda>_. nst13_maxEarlyData m))]"

definition cr13_items :: "certificateRequestMsgTLS13 \<Rightarrow> certificateRequestMsgTLS13 ext_item list" where
  "cr13_items m =
     [Ext (cr13_ocspStapling m) extensionStatusRequest (Some []) (cr13_ocspStapling_update (\<lambda>_. True)),
      Ext (cr13_scts m) extensionSCT (Some []) (cr13_scts_update (\<lambda>_. True)),
      Ext (cr13_supportedSignatureAlgorithms m \<noteq> []) extensionSignatureAlgorithms
        (lp 2 (u16s (cr13_supportedSignatureAlgorithms m)))
        (cr13_supportedSignatureAlgorithms_update (\<lambda>xs. xs @ cr13_supportedSignatureAlgorithms m)),
      Ext (cr13_supportedSignatureAlgorithmsCert m \<noteq> []) extensionSignatureAlgorithmsCert
        (lp 2 (u16s (cr13_supportedSignatureAlgorithmsCert m)))
        (cr13_supportedSignatureAlgorithmsCert_update (\<lambda>xs. xs @ cr13_supportedSignatureAlgorithmsCert m)),
      Ext (cr13_certificateAuthorities m \<noteq> []) extensionCertificateAuthorities
        (lp 2 (cat (map (\<lambda>s. lp 2 (Some s)) (cr13_certificateAuthorities m))))
        (cr13_certificateAuthorities_update (\<lambda>xs. xs @ cr13_certificateAuthorities m))]"

definition cert_items :: "Certificate \<Rightarrow> Certificate ext_item list" where
  "cert_items c =
     [Ext (cert_OCSPStaple c \<noteq> None) extensionStatusRequest
        (cat [Some [statusTypeOCSP], lp 3 (Some (the (cert_OCSPStaple c)))])
        (cert_OCSPStaple_update (\<lambda>_. cert_OCSPStaple c)),
      Ext (cert_SignedCertificateTimestamps c \<noteq> None) extensionSCT
        (lp 2 (cat (map (\<lambda>s. lp 2 (Some s)) (the (cert_SignedCertificateTimestamps c)))))
        (cert_SignedCertificateTimestamps_update (\<lambda>o'. Some ((case o' of None \<Rightarrow> [] | Some ys \<Rightarrow> ys)
          @ the (cert_SignedCertificateTimestamps c))))]"

definition enc_entry :: "Certificate \<Rightarrow> nat \<times> bytes \<Rightarrow> bytes option" where
  "enc_entry c = (\<lambda>(i, cert).
     cat [lp 3 (Some cert), lp 2 (if i > 0 then Some [] else cat (map item_bytes (cert_items c)))])"

definition enc_Certificate :: "Certificate \<Rightarrow> bytes option" where
  "enc_Certificate c = lp 3 (cat (map (enc_entry c) (enumerate 0 (cert_Certificate c))))"

definition c13_sent :: "certificateMsgTLS13 \<Rightarrow> Certificate" where
  "c13_sent m = \<lparr>cert_Certificate = cert_Certificate (c13_certificate m),
     cert_OCSPStaple = (if c13_ocspStapling m then cert_OCSPStaple (c13_certificate m) else None),
     cert_SignedCertificateTimestamps =
       (if c13_scts m then cert_SignedCertificateTimestamps (c13_certificate m) else None)\<rparr>"

text \<open>A handshake message: type, 24-bit length, body.\<close>

definition hs_msg :: "byte \<Rightarrow> bytes option \<Rightarrow> bytes option" where
  "hs_msg t b = cat [Some [t], lp 3 b]"

lemma hs_msgE:
  assumes "hs_msg t b = Some bs"
  obtains body where "b = Some body" "length body < 16777216" "bs = (t # put_be 3 (length body)) @ body"
  using assms by (auto simp: hs_msg_def cat_Some_iff lp_Some_iff simp del: cat.simps(2))

section \<open>\<open>marshal\<close> writes the formats\<close>

context cryptobyte_Builder
begin

lemma hs_msg_Bytes:
  assumes "emits B f b"
  shows "b_Bytes B (seq [b_AddUint8 B t, b_AddUint24LengthPrefixed B f] (b_new B)) = Ret bs \<longleftrightarrow>
     hs_msg t b = Some bs"
  unfolding hs_msg_def
  by (intro emits_Bytes emits_two AddUint8_emits AddUint24LengthPrefixed_emits assms)

lemma emits_list: "list_all2 (emits B) fs rs \<Longrightarrow> r = cat rs \<Longrightarrow> emits B (seq fs) r"
  using emits_seq by simp

lemma emits_scts:
  "emits B (b_AddUint16LengthPrefixed B (each xs (\<lambda>x. b_AddUint16LengthPrefixed B (seq [b_AddBytes B x]))))
     (lp 2 (cat (map (\<lambda>x. lp 2 (Some x)) xs)))"
  by (intro emits_rules emits_each)

lemma ee_marshal_enc:
  "ee_marshal B m = Ret bs \<longleftrightarrow>
     hs_msg typeEncryptedExtensions (lp 2 (cat (map item_bytes (ee_items m)))) = Some bs"
  unfolding ee_marshal_def ee_items_def item_bytes_def list.map ext_item.sel
  by (intro hs_msg_Bytes emits_one [OF AddUint16LengthPrefixed_emits] emits_seq,
      unfold list_all2_Cons list_all2_Nil)
    (intro conjI TrueI emits_rules emits_one; simp)

lemma ku_marshal_enc:
  "ku_marshal B m = Ret bs \<longleftrightarrow>
     hs_msg typeKeyUpdate (Some [if ku_updateRequested m then 1 else 0]) = Some bs"
  unfolding ku_marshal_def by (intro hs_msg_Bytes emits_one) (simp add: AddUint8_emits)

lemma nst13_marshal_enc:
  "nst13_marshal B m = Ret bs \<longleftrightarrow>
     hs_msg typeNewSessionTicket
       (cat [Some (put_u32 (nst13_lifetime m)), Some (put_u32 (nst13_ageAdd m)),
             lp 1 (Some (nst13_nonce m)), lp 2 (Some (nst13_label m)),
             lp 2 (cat (map item_bytes (nst13_items m)))]) = Some bs"
  unfolding nst13_marshal_def nst13_items_def item_bytes_def list.map ext_item.sel
  by (intro hs_msg_Bytes emits_seq, unfold list_all2_Cons list_all2_Nil)
    (intro conjI TrueI emits_rules emits_seq, unfold list_all2_Cons list_all2_Nil,
      intro conjI TrueI refl emits_rules emits_one, simp_all add: word_gt_0)

lemma cr13_marshal_enc:
  "cr13_marshal B m = Ret bs \<longleftrightarrow>
     hs_msg typeCertificateRequest
       (cat [Some [0], lp 2 (cat (map item_bytes (cr13_items m)))]) = Some bs"
proof -
  have "emits B (b_AddUint16LengthPrefixed B (seq [
           cond (cr13_ocspStapling m) [b_AddUint16 B extensionStatusRequest, b_AddUint16 B 0],
           cond (cr13_scts m) [b_AddUint16 B extensionSCT, b_AddUint16 B 0],
           cond (length (cr13_supportedSignatureAlgorithms m) > 0)
             [b_AddUint16 B extensionSignatureAlgorithms,
              b_AddUint16LengthPrefixed B (seq [
                b_AddUint16LengthPrefixed B
                  (each (cr13_supportedSignatureAlgorithms m) (b_AddUint16 B))])],
           cond (length (cr13_supportedSignatureAlgorithmsCert m) > 0)
             [b_AddUint16 B extensionSignatureAlgorithmsCert,
              b_AddUint16LengthPrefixed B (seq [
                b_AddUint16LengthPrefixed B
                  (each (cr13_supportedSignatureAlgorithmsCert m) (b_AddUint16 B))])],
           cond (length (cr13_certificateAuthorities m) > 0)
             [b_AddUint16 B extensionCertificateAuthorities,
              b_AddUint16LengthPrefixed B (seq [
                b_AddUint16LengthPrefixed B (each (cr13_certificateAuthorities m) (\<lambda>ca.
                  b_AddUint16LengthPrefixed B (seq [b_AddBytes B ca])))])]]))
      (lp 2 (cat (map item_bytes (cr13_items m))))"
    unfolding cr13_items_def item_bytes_def list.map ext_item.sel
    by (intro AddUint16LengthPrefixed_emits emits_seq, unfold list_all2_Cons list_all2_Nil)
      (intro conjI TrueI emits_rules emits_one emits_each; simp)
  then show ?thesis
    unfolding cr13_marshal_def by (intro hs_msg_Bytes emits_two AddUint8_emits)
qed

lemma emits_leafExts:
  "emits B (seq (marshalCertificate_leafExts B c)) (cat (map item_bytes (cert_items c)))"
  unfolding marshalCertificate_leafExts_def cert_items_def item_bytes_def list.map ext_item.sel
  by (intro emits_seq, unfold list_all2_Cons list_all2_Nil)
    (intro conjI TrueI emits_rules emits_one emits_two emits_each; simp)

lemma emits_marshalCertificate: "emits B (marshalCertificate B c) (enc_Certificate c)"
proof -
  have entry: "emits B ((\<lambda>(i, cert). seq [
          b_AddUint24LengthPrefixed B (seq [b_AddBytes B cert]),
          b_AddUint16LengthPrefixed B
            (if i > 0 then (\<lambda>b. b) else seq (marshalCertificate_leafExts B c))]) x) (enc_entry c x)" for x
  proof (cases x)
    case (Pair i cert)
    have "emits B (if i > 0 then (\<lambda>b. b) else seq (marshalCertificate_leafExts B c))
        (if i > 0 then Some [] else cat (map item_bytes (cert_items c)))"
      using emits_id emits_leafExts by simp
    then have "emits B (seq [b_AddUint24LengthPrefixed B (seq [b_AddBytes B cert]),
          b_AddUint16LengthPrefixed B (if i > 0 then (\<lambda>b. b) else seq (marshalCertificate_leafExts B c))])
        (cat [lp 3 (Some cert), lp 2 (if i > 0 then Some [] else cat (map item_bytes (cert_items c)))])"
      by (intro emits_two emits_lp_bytes AddUint16LengthPrefixed_emits)
    then show ?thesis
      by (simp only: Pair enc_entry_def prod.case)
  qed
  show ?thesis
    unfolding marshalCertificate_def enc_Certificate_def
    by (intro AddUint24LengthPrefixed_emits emits_each entry)
qed

lemma c13_marshal_enc:
  "c13_marshal B m = Ret bs \<longleftrightarrow>
     hs_msg typeCertificate (cat [Some [0], enc_Certificate (c13_sent m)]) = Some bs"
proof -
  have "c13_marshal B m = b_Bytes B (seq [b_AddUint8 B typeCertificate, b_AddUint24LengthPrefixed B (seq [
         b_AddUint8 B 0, marshalCertificate B (c13_sent m)])] (b_new B))"
    by (cases m; cases "c13_certificate m") (simp add: c13_marshal_def c13_sent_def)
  then show ?thesis
    by (simp only:) (intro hs_msg_Bytes emits_two AddUint8_emits emits_marshalCertificate)
qed

lemma cst_marshal_enc:
  "cst_marshal B m = Ret bs \<longleftrightarrow>
     hs_msg typeCertificateStatus (cat [Some [statusTypeOCSP], lp 3 (Some (cst_response m))]) = Some bs"
  unfolding cst_marshal_def by (intro hs_msg_Bytes emits_two emits_rules)

lemma fin_marshal_enc:
  "fin_marshal B m = Ret bs \<longleftrightarrow> hs_msg typeFinished (Some (fin_verifyData m)) = Some bs"
  unfolding fin_marshal_def by (intro hs_msg_Bytes emits_one emits_rules)

lemma cv_marshal_enc:
  "cv_marshal B m = Ret bs \<longleftrightarrow>
     hs_msg typeCertificateVerify
       (cat [(if cv_hasSignatureAlgorithm m then Some (put_u16 (cv_signatureAlgorithm m)) else Some []),
             lp 2 (Some (cv_signature m))]) = Some bs"
proof -
  have "emits B (cond (cv_hasSignatureAlgorithm m) [b_AddUint16 B (cv_signatureAlgorithm m)])
      (if cv_hasSignatureAlgorithm m then Some (put_u16 (cv_signatureAlgorithm m)) else Some [])"
    using emits_cond [of "[b_AddUint16 B (cv_signatureAlgorithm m)]" "[Some (put_u16 (cv_signatureAlgorithm m))]"
        "cv_hasSignatureAlgorithm m"] AddUint16_emits by (cases "cv_hasSignatureAlgorithm m") simp_all
  then show ?thesis
    unfolding cv_marshal_def by (intro hs_msg_Bytes emits_two emits_rules)
qed

end

section \<open>\<open>unmarshal\<close> reads the formats\<close>

context cryptobyte_String
begin

lemma skip_hs: "r_Skip R 4 (t # put_be 3 (length body) @ body) = Some body"
  using skip4 [of t "put_be 3 (length body)" body] by simp

lemma ee_unmarshal_enc:
  assumes "hs_msg typeEncryptedExtensions (lp 2 (cat (map item_bytes (ee_items m)))) = Some bs"
  shows "ee_unmarshal R bs = Some m"
proof -
  obtain eb where eb: "cat (map item_bytes (ee_items m)) = Some eb" "length eb < 65536"
    and bs: "bs = (typeEncryptedExtensions # put_be 3 (length (put_be 2 (length eb) @ eb))) @ put_be 2 (length eb) @ eb"
    using assms by (auto elim!: hs_msgE simp: lp_Some_iff)
  have "reads_back (ee_switch R) e" if "e \<in> set (ee_items m)" for e
    using that unfolding ee_items_def
    by (auto simp: ee_switch_def reads_back_def extension_ids read_one_proto_lp)
  then have "ext_loop R (ee_switch R) eb ee_zero = Some (fold item_apply (ee_items m) ee_zero)"
    by (intro ext_loop_items [OF eb(1)])
  also have "fold item_apply (ee_items m) ee_zero = m"
    by (cases m) (auto simp: ee_items_def item_apply_def ee_zero_def)
  finally show ?thesis
    using eb(2) skip_hs [of typeEncryptedExtensions "put_be 2 (length eb) @ eb"]
    by (simp add: ee_unmarshal_def bs)
qed

lemma ku_unmarshal_enc:
  assumes "hs_msg typeKeyUpdate (Some [if ku_updateRequested m then 1 else 0]) = Some bs"
  shows "ku_unmarshal R bs = Some m"
  using assms skip_hs [of typeKeyUpdate "[if ku_updateRequested m then 1 else 0]"]
  by (cases m) (auto elim!: hs_msgE simp: ku_unmarshal_def)

lemma nst13_unmarshal_enc:
  assumes "hs_msg typeNewSessionTicket
       (cat [Some (put_u32 (nst13_lifetime m)), Some (put_u32 (nst13_ageAdd m)),
             lp 1 (Some (nst13_nonce m)), lp 2 (Some (nst13_label m)),
             lp 2 (cat (map item_bytes (nst13_items m)))]) = Some bs"
  shows "nst13_unmarshal R bs = Some m"
proof -
  obtain body where "cat [Some (put_u32 (nst13_lifetime m)), Some (put_u32 (nst13_ageAdd m)),
             lp 1 (Some (nst13_nonce m)), lp 2 (Some (nst13_label m)),
             lp 2 (cat (map item_bytes (nst13_items m)))] = Some body"
    and bs: "bs = (typeNewSessionTicket # put_be 3 (length body)) @ body"
    using hs_msgE [OF assms] by blast
  then obtain eb where eb: "cat (map item_bytes (nst13_items m)) = Some eb" "length eb < 65536"
    and body: "body = put_u32 (nst13_lifetime m) @ put_u32 (nst13_ageAdd m) @
        (of_nat (length (nst13_nonce m)) # nst13_nonce m) @
        put_be 2 (length (nst13_label m)) @ nst13_label m @ put_be 2 (length eb) @ eb"
    and len: "length (nst13_nonce m) < 256" "length (nst13_label m) < 65536"
    by (auto simp: cat_Some_iff lp_Some_iff simp del: cat.simps(2))
  have read: "reads_back (nst13_switch R) e" if "e \<in> set (nst13_items m)" for e
    using that ReadUint32_put [of _ "[]"] unfolding nst13_items_def
    by (auto simp: nst13_switch_def reads_back_def)
  let ?z = "\<lparr>nst13_lifetime = nst13_lifetime m, nst13_ageAdd = nst13_ageAdd m, nst13_nonce = nst13_nonce m,
      nst13_label = nst13_label m, nst13_maxEarlyData = 0\<rparr>"
  have "fold item_apply (nst13_items m) ?z = m"
    by (cases m) (auto simp: nst13_items_def item_apply_def)
  then have "ext_loop R (nst13_switch R) eb ?z = Some m"
    using ext_loop_items [OF eb(1) read, of ?z] by simp
  moreover have "r_Skip R 4 bs = Some body"
    unfolding bs by (rule skip4) simp
  ultimately show ?thesis
    using len eb(2) by (simp add: nst13_unmarshal_def body read_helpers)
qed

lemma read_u16_list_lp:
  assumes "xs \<noteq> []" "lp 2 (u16s xs) = Some b"
  shows "do {(algs, d) \<leftarrow> r_ReadUint16LengthPrefixed R b; ys \<leftarrow> read_u16s R algs; Some (f ys, Some d)} =
     Some (f xs, Some [])"
proof -
  define w where "w = concat (map put_u16 xs)"
  have "b = put_be 2 (length w) @ w" "length w < 65536"
    using assms(2) by (auto simp: lp_Some_iff u16s_def w_def)
  moreover have "w \<noteq> []"
    using assms(1) by (cases xs) (simp_all add: w_def)
  moreover have "read_list R (r_ReadUint16 R) w = Some xs"
    by (simp add: w_def)
  ultimately show ?thesis
    by (simp add: read_u16s_def)
qed

lemma cr13_switch_at:
  "cr13_switch R extensionStatusRequest d m = Some (m\<lparr>cr13_ocspStapling := True\<rparr>, Some d)"
  "cr13_switch R extensionSCT d m = Some (m\<lparr>cr13_scts := True\<rparr>, Some d)"
  "cr13_switch R extensionSignatureAlgorithms d m =
     do {(algs, d) \<leftarrow> r_ReadUint16LengthPrefixed R d; xs \<leftarrow> read_u16s R algs;
         Some (m\<lparr>cr13_supportedSignatureAlgorithms := cr13_supportedSignatureAlgorithms m @ xs\<rparr>, Some d)}"
  "cr13_switch R extensionSignatureAlgorithmsCert d m =
     do {(algs, d) \<leftarrow> r_ReadUint16LengthPrefixed R d; xs \<leftarrow> read_u16s R algs;
         Some (m\<lparr>cr13_supportedSignatureAlgorithmsCert := cr13_supportedSignatureAlgorithmsCert m @ xs\<rparr>, Some d)}"
  "cr13_switch R extensionCertificateAuthorities d m =
     do {(xs, d) \<leftarrow> read_items16 R d;
         Some (m\<lparr>cr13_certificateAuthorities := cr13_certificateAuthorities m @ xs\<rparr>, Some d)}"
  by (simp_all add: cr13_switch_def extension_ids)

lemma cr13_unmarshal_enc:
  assumes "hs_msg typeCertificateRequest
       (cat [Some [0], lp 2 (cat (map item_bytes (cr13_items m)))]) = Some bs"
    and wf: "[] \<notin> set (cr13_certificateAuthorities m)"
  shows "cr13_unmarshal R bs = Some m"
proof -
  obtain eb where eb: "cat (map item_bytes (cr13_items m)) = Some eb" "length eb < 65536"
    and bs: "bs = typeCertificateRequest # put_be 3 (length (0 # put_be 2 (length eb) @ eb)) @ (0 # put_be 2 (length eb) @ eb)"
    using assms(1) by (auto elim!: hs_msgE simp: cat_Some_iff lp_Some_iff simp del: cat.simps(2))
  have "list_all (reads_back (cr13_switch R)) (cr13_items m)"
    unfolding cr13_items_def list.pred_inject
    by (intro conjI TrueI reads_backI)
      (simp_all add: cr13_switch_at read_items16_lp [OF wf] read_u16_list_lp)
  then have read: "e \<in> set (cr13_items m) \<Longrightarrow> reads_back (cr13_switch R) e" for e
    by (simp add: list_all_iff)
  have "fold item_apply (cr13_items m) cr13_zero = m"
    by (cases m) (auto simp: cr13_items_def item_apply_def cr13_zero_def)
  then have "ext_loop R (cr13_switch R) eb cr13_zero = Some m"
    using ext_loop_items [OF eb(1) read, of cr13_zero] by simp
  then show ?thesis
    using eb(2) ReadLengthPrefixed_simps(1) [of "[]" "put_be 2 (length eb) @ eb"]
      skip_hs [of typeCertificateRequest "0 # put_be 2 (length eb) @ eb"]
    by (simp add: cr13_unmarshal_def bs)
qed

lemma cst_unmarshal_enc:
  assumes "hs_msg typeCertificateStatus (cat [Some [statusTypeOCSP], lp 3 (Some (cst_response m))]) = Some bs"
    and "cst_response m \<noteq> []"
  shows "cst_unmarshal R bs = Some m"
proof -
  let ?body = "statusTypeOCSP # put_be 3 (length (cst_response m)) @ cst_response m"
  have "bs = typeCertificateStatus # put_be 3 (length ?body) @ ?body" "length (cst_response m) < 16777216"
    using assms(1) by (auto elim!: hs_msgE simp: cat_Some_iff lp_Some_iff simp del: cat.simps(2))
  then show ?thesis
    using assms(2) skip_hs [of typeCertificateStatus ?body] by (cases m) (simp add: cst_unmarshal_def read_helpers)
qed

lemma fin_unmarshal_enc:
  assumes "hs_msg typeFinished (Some (fin_verifyData m)) = Some bs"
  shows "fin_unmarshal R bs = Some m"
proof -
  have "r_Skip R 1 (typeFinished # s) = Some s" for s
    by (simp add: Skip_law cutn_def)
  moreover have "bs = typeFinished # put_be 3 (length (fin_verifyData m)) @ fin_verifyData m"
    "length (fin_verifyData m) < 16777216"
    using assms by (auto elim!: hs_msgE)
  ultimately show ?thesis
    by (cases m) (simp add: fin_unmarshal_def read_helpers)
qed

lemma cv_unmarshal_enc:
  assumes "hs_msg typeCertificateVerify
       (cat [(if cv_hasSignatureAlgorithm m then Some (put_u16 (cv_signatureAlgorithm m)) else Some []),
             lp 2 (Some (cv_signature m))]) = Some bs"
    and "cv_hasSignatureAlgorithm m0 = cv_hasSignatureAlgorithm m"
    and "\<not> cv_hasSignatureAlgorithm m \<Longrightarrow> cv_signatureAlgorithm m0 = cv_signatureAlgorithm m"
  shows "cv_unmarshal R m0 bs = Some m"
proof -
  define body where "body = (if cv_hasSignatureAlgorithm m then put_u16 (cv_signatureAlgorithm m) else [])
      @ put_be 2 (length (cv_signature m)) @ cv_signature m"
  have "bs = typeCertificateVerify # put_be 3 (length body) @ body" "length (cv_signature m) < 65536"
    using assms(1) by (auto elim!: hs_msgE simp: cat_Some_iff lp_Some_iff body_def simp del: cat.simps(2)
        split: if_splits)
  then have "r_Skip R 4 bs = Some body" "length (cv_signature m) < 65536"
    by (simp_all add: skip_hs)
  with assms(2,3) show ?thesis
    by (cases m; cases m0; cases "cv_hasSignatureAlgorithm m")
      (simp_all add: cv_unmarshal_def read_helpers body_def)
qed

end

section \<open>The TLS 1.3 Certificate message\<close>

text \<open>
  What a certificate must satisfy to survive: a staple and timestamps are not empty, and
  they need a leaf to travel with.
\<close>

definition cert_wf :: "Certificate \<Rightarrow> bool" where
  "cert_wf c \<longleftrightarrow>
     cert_OCSPStaple c \<noteq> Some [] \<and>
     (\<forall>xs. cert_SignedCertificateTimestamps c = Some xs \<longrightarrow> xs \<noteq> [] \<and> [] \<notin> set xs) \<and>
     (cert_Certificate c = [] \<longrightarrow> cert_OCSPStaple c = None \<and> cert_SignedCertificateTimestamps c = None)"

context cryptobyte_String
begin

lemma leaf_exts_read:
  assumes wf: "cert_wf c" and eb: "cat (map item_bytes (cert_items c)) = Some eb"
  shows "ext_loop R (cert_switch R) eb (cert_zero\<lparr>cert_Certificate := [x]\<rparr>) = Some (c\<lparr>cert_Certificate := [x]\<rparr>)"
proof -
  let ?I = "\<lambda>m :: Certificate. length (cert_Certificate m) \<le> 1"
  have scts: "read_items16 R b = Some (xs, [])"
    if "cert_SignedCertificateTimestamps c = Some xs" "lp 2 (cat (map (\<lambda>s. lp 2 (Some s)) xs)) = Some b" for xs b
    using wf that by (intro read_items16_lp) (simp_all add: cert_wf_def)
  have "ext_loop R (cert_switch R) eb (cert_zero\<lparr>cert_Certificate := [x]\<rparr>) =
      Some (fold item_apply (cert_items c) (cert_zero\<lparr>cert_Certificate := [x]\<rparr>))"
  proof (rule ext_loop_items_on [OF eb, where I = ?I])
    fix e b m
    assume "e \<in> set (cert_items c)" "x_present e" "x_body e = Some b" "?I m"
    then show "cert_switch R (x_number e) b m = Some (x_update e m, Some []) \<and> ?I (x_update e m)"
      using wf scts unfolding cert_items_def
      by (auto simp: cert_switch_def extension_ids read_helpers cert_wf_def lp_Some_iff [of 3] cat_Some_iff
          simp del: cat.simps(2))
  qed simp
  also have "fold item_apply (cert_items c) (cert_zero\<lparr>cert_Certificate := [x]\<rparr>) = c\<lparr>cert_Certificate := [x]\<rparr>"
    by (cases c) (auto simp: cert_items_def item_apply_def cert_zero_def)
  finally show ?thesis .
qed

text \<open>The certificates after the leaf carry no extensions and are appended.\<close>

lemma chain_read:
  assumes "cat (map (enc_entry c) (enumerate (Suc 0) xs)) = Some w" and "length w \<le> n"
  shows "loop R (cert_step R) n w v = Some (v\<lparr>cert_Certificate := cert_Certificate v @ xs\<rparr>)"
proof -
  define enc where "enc x = put_be 3 (length x) @ x @ put_be 2 (length ([] :: bytes)) @ []" for x :: bytes
  define upd where "upd x v = v\<lparr>cert_Certificate := cert_Certificate v @ [x]\<rparr>" for x and v :: Certificate
  have entry: "enc_entry c (i, x) = lp 3 (Some x) \<bind> (\<lambda>y. Some (y @ put_be 2 0))" if "0 < i" for i x
    using that by (simp add: enc_entry_def lp_def split: option.splits)
  have all: "(\<forall>x\<in>set xs. length x < 16777216) \<and> w = concat (map enc xs)"
    if "cat (map (enc_entry c) (enumerate k xs)) = Some w" "0 < k" for k w
    using that
  proof (induction xs arbitrary: k w)
    case (Cons x xs)
    then obtain y z where y: "enc_entry c (k, x) = Some y" "cat (map (enc_entry c) (enumerate (Suc k) xs)) = Some z"
      "w = y @ z"
      by (auto simp: cat_Some_iff simp del: cat.simps(2))
    show ?case
      using y Cons.IH [OF y(2)] entry [OF Cons.prems(2)]
      by (auto simp: lp_def enc_def bind_eq_Some_conv split: if_splits)
  qed simp
  have w: "w = concat (map enc xs)" and len: "x \<in> set xs \<Longrightarrow> length x < 16777216" for x
    using all [OF assms(1)] by simp_all
  have "loop R (cert_step R) n (concat (map enc xs)) v = Some (fold upd xs v)"
  proof (rule loop_concat)
    fix x rest v
    assume "x \<in> set xs"
    then show "cert_step R (enc x @ rest) v = Some (upd x v, rest)"
      using len [of x] ReadLengthPrefixed_simps(2) [of "[]" rest]
      by (simp add: cert_step_def enc_def read_helpers upd_def)
  next
    show "length xs \<le> n"
      using assms(2) length_concat_ge [of xs enc] by (simp add: w enc_def)
  qed (simp add: enc_def)
  moreover have "fold upd xs v = v\<lparr>cert_Certificate := cert_Certificate v @ xs\<rparr>"
    by (induction xs arbitrary: v) (simp_all add: upd_def)
  ultimately show ?thesis
    by (simp add: w)
qed

lemma unmarshalCertificate_enc:
  assumes wf: "cert_wf c" and enc: "enc_Certificate c = Some bs"
  shows "unmarshalCertificate R (bs @ s) cert_zero = Some (c, s)"
proof -
  obtain w where w: "cat (map (enc_entry c) (enumerate 0 (cert_Certificate c))) = Some w"
    and bs: "bs = put_be 3 (length w) @ w" "length w < 16777216"
    using enc by (auto simp: enc_Certificate_def lp_Some_iff)
  have "loop R (cert_step R) (length w) w cert_zero = Some c"
  proof (cases "cert_Certificate c")
    case Nil
    then show ?thesis
      using wf w by (cases c) (simp add: cert_wf_def cert_zero_def)
  next
    case (Cons x xs)
    obtain eb w' where eb: "cat (map item_bytes (cert_items c)) = Some eb" "length eb < 65536"
      and x: "length x < 16777216"
      and w': "cat (map (enc_entry c) (enumerate (Suc 0) xs)) = Some w'"
      and w_eq: "w = put_be 3 (length x) @ x @ put_be 2 (length eb) @ eb @ w'"
      using w by (auto simp: Cons enc_entry_def [of c, THEN fun_cong, of "(0, _)"] cat_Some_iff lp_Some_iff
          simp del: cat.simps(2))
    have first: "cert_step R w cert_zero = Some (c\<lparr>cert_Certificate := [x]\<rparr>, w')"
      using leaf_exts_read [OF wf eb(1), of x] eb(2) x
      by (simp add: cert_step_def w_eq read_helpers cert_zero_def)
    have "loop R (cert_step R) n w' (c\<lparr>cert_Certificate := [x]\<rparr>) = Some c" if "length w' \<le> n" for n
      using chain_read [OF w' that, of "c\<lparr>cert_Certificate := [x]\<rparr>"] Cons by (cases c) simp
    moreover obtain n where "length w = Suc n" "length w' \<le> n"
      using that [of "4 + (length x + (length eb + length w'))"] by (simp add: w_eq)
    moreover have "w \<noteq> []"
      by (simp add: w_eq)
    ultimately show ?thesis
      using first by simp
  qed
  then show ?thesis
    using bs by (simp add: unmarshalCertificate_def)
qed

lemma c13_unmarshal_enc:
  assumes "cert_wf (c13_sent m)"
    and "hs_msg typeCertificate (cat [Some [0], enc_Certificate (c13_sent m)]) = Some bs"
  shows "c13_unmarshal R bs =
     Some \<lparr>c13_certificate = c13_sent m, c13_ocspStapling = (cert_OCSPStaple (c13_sent m) \<noteq> None),
           c13_scts = (cert_SignedCertificateTimestamps (c13_sent m) \<noteq> None)\<rparr>"
proof -
  obtain cs where cs: "enc_Certificate (c13_sent m) = Some cs"
    and bs: "bs = typeCertificate # put_be 3 (length (0 # cs)) @ (0 # cs)"
    using assms(2) by (auto elim!: hs_msgE simp: cat_Some_iff simp del: cat.simps(2))
  show ?thesis
    using unmarshalCertificate_enc [OF assms(1) cs, of "[]"] ReadLengthPrefixed_simps(1) [of "[]" cs]
      skip_hs [of typeCertificate "0 # cs"]
    by (simp add: c13_unmarshal_def bs)
qed

end

section \<open>Properties\<close>

text \<open>The TLS 1.3 messages survive the wire: over any \<open>cryptobyte\<close> that keeps its documented
  contract, EncryptedExtensions, KeyUpdate and the TLS 1.3 NewSessionTicket always come back
  from \<open>unmarshal\<close> as they went into \<open>marshal\<close>, whenever \<open>marshal\<close> returns bytes.\<close>

theorem tls13_messages_roundtrip:
  assumes "cryptobyte_Builder B" and "cryptobyte_String R"
  shows "(ee_marshal B ee = Ret bs \<longrightarrow> ee_unmarshal R bs = Some ee) \<and>
     (ku_marshal B ku = Ret bs' \<longrightarrow> ku_unmarshal R bs' = Some ku) \<and>
     (nst13_marshal B nst = Ret bs'' \<longrightarrow> nst13_unmarshal R bs'' = Some nst)"
  using cryptobyte_Builder.ee_marshal_enc [OF assms(1)] cryptobyte_String.ee_unmarshal_enc [OF assms(2)]
    cryptobyte_Builder.ku_marshal_enc [OF assms(1)] cryptobyte_String.ku_unmarshal_enc [OF assms(2)]
    cryptobyte_Builder.nst13_marshal_enc [OF assms(1)] cryptobyte_String.nst13_unmarshal_enc [OF assms(2)]
  by simp

theorem tls13_messages_roundtrip_witness:
  "\<exists>bs. nst13_marshal ref_builder \<lparr>nst13_lifetime = 60, nst13_ageAdd = 7, nst13_nonce = [1], nst13_label = [2, 3],
        nst13_maxEarlyData = 16384\<rparr> = Ret bs \<and>
     nst13_unmarshal ref_reader bs = Some \<lparr>nst13_lifetime = 60, nst13_ageAdd = 7, nst13_nonce = [1],
        nst13_label = [2, 3], nst13_maxEarlyData = 16384\<rparr>"
proof -
  let ?m = "\<lparr>nst13_lifetime = 60, nst13_ageAdd = 7, nst13_nonce = [1], nst13_label = [2, 3],
      nst13_maxEarlyData = 16384\<rparr>"
  have "\<exists>bs. nst13_marshal ref_builder ?m = Ret bs"
    unfolding ref_builder.nst13_marshal_enc
    by (simp add: hs_msg_def lp_def nst13_items_def item_bytes_def ext_opt_def)
  then show ?thesis
    using tls13_messages_roundtrip [OF ref_builder.cryptobyte_Builder_axioms ref_reader.cryptobyte_String_axioms,
        where nst = ?m] by blast
qed

text \<open>A certificate chain survives the TLS 1.3 Certificate message: what \<open>unmarshal\<close> returns is
  the chain with the staple and the timestamps that the flags let through, attached to the
  leaf only.  The staple and the timestamps must not be empty, and need a leaf.\<close>

theorem certificate13_roundtrip:
  assumes "cryptobyte_Builder B" and "cryptobyte_String R"
    and "cert_wf (c13_sent m)" and "c13_marshal B m = Ret bs"
  shows "c13_unmarshal R bs =
     Some \<lparr>c13_certificate = c13_sent m, c13_ocspStapling = (cert_OCSPStaple (c13_sent m) \<noteq> None),
           c13_scts = (cert_SignedCertificateTimestamps (c13_sent m) \<noteq> None)\<rparr>"
  using cryptobyte_Builder.c13_marshal_enc [OF assms(1)] cryptobyte_String.c13_unmarshal_enc [OF assms(2,3)]
    assms(4) by simp

text \<open>A certificate message for concrete runs: two certificates, a staple that is sent and
  timestamps that are not.\<close>

definition demo_cert :: certificateMsgTLS13 where
  "demo_cert = \<lparr>c13_certificate = \<lparr>cert_Certificate = [[1, 2], [3]], cert_OCSPStaple = Some [9],
     cert_SignedCertificateTimestamps = Some [[4]]\<rparr>, c13_ocspStapling = True, c13_scts = False\<rparr>"

theorem certificate13_roundtrip_witness:
  "\<exists>bs. c13_marshal ref_builder demo_cert = Ret bs \<and>
     c13_unmarshal ref_reader bs = Some (demo_cert\<lparr>c13_certificate := c13_sent demo_cert\<rparr>)"
proof -
  have wf: "cert_wf (c13_sent demo_cert)"
    by (simp add: cert_wf_def c13_sent_def demo_cert_def)
  have "\<exists>bs. c13_marshal ref_builder demo_cert = Ret bs"
    unfolding ref_builder.c13_marshal_enc
    by (simp add: hs_msg_def lp_def enc_Certificate_def enc_entry_def cert_items_def item_bytes_def ext_opt_def
        c13_sent_def demo_cert_def)
  then obtain bs where bs: "c13_marshal ref_builder demo_cert = Ret bs"
    by blast
  from certificate13_roundtrip [OF ref_builder.cryptobyte_Builder_axioms
      ref_reader.cryptobyte_String_axioms wf bs] bs
  show ?thesis
    by (simp add: demo_cert_def c13_sent_def)
qed

text \<open>The authentication messages survive the wire: CertificateRequest (TLS 1.3, without empty
  authority names), CertificateStatus (with a response), Finished and CertificateVerify come
  back as they were sent; CertificateVerify when the receiver expects the format that was
  sent.\<close>

theorem auth_messages_roundtrip:
  assumes "cryptobyte_Builder B" and "cryptobyte_String R"
    and "[] \<notin> set (cr13_certificateAuthorities cr)" and "cst_response cst \<noteq> []"
    and "cv_hasSignatureAlgorithm cv0 = cv_hasSignatureAlgorithm cv"
    and "cv_hasSignatureAlgorithm cv \<or> cv_signatureAlgorithm cv0 = cv_signatureAlgorithm cv"
  shows "(cr13_marshal B cr = Ret b1 \<longrightarrow> cr13_unmarshal R b1 = Some cr) \<and>
     (cst_marshal B cst = Ret b2 \<longrightarrow> cst_unmarshal R b2 = Some cst) \<and>
     (fin_marshal B fin = Ret b3 \<longrightarrow> fin_unmarshal R b3 = Some fin) \<and>
     (cv_marshal B cv = Ret b4 \<longrightarrow> cv_unmarshal R cv0 b4 = Some cv)"
  using cryptobyte_Builder.cr13_marshal_enc [OF assms(1)] cryptobyte_String.cr13_unmarshal_enc [OF assms(2) _ assms(3)]
    cryptobyte_Builder.cst_marshal_enc [OF assms(1)] cryptobyte_String.cst_unmarshal_enc [OF assms(2) _ assms(4)]
    cryptobyte_Builder.fin_marshal_enc [OF assms(1)] cryptobyte_String.fin_unmarshal_enc [OF assms(2)]
    cryptobyte_Builder.cv_marshal_enc [OF assms(1)] cryptobyte_String.cv_unmarshal_enc [OF assms(2) _ assms(5)]
    assms(6) by auto

theorem auth_messages_roundtrip_witness:
  "\<exists>bs. cv_marshal ref_builder \<lparr>cv_hasSignatureAlgorithm = True, cv_signatureAlgorithm = Ed25519, cv_signature = [5, 6]\<rparr> = Ret bs \<and>
     cv_unmarshal ref_reader \<lparr>cv_hasSignatureAlgorithm = True, cv_signatureAlgorithm = 0, cv_signature = []\<rparr> bs =
       Some \<lparr>cv_hasSignatureAlgorithm = True, cv_signatureAlgorithm = Ed25519, cv_signature = [5, 6]\<rparr>"
proof -
  let ?m = "\<lparr>cv_hasSignatureAlgorithm = True, cv_signatureAlgorithm = Ed25519, cv_signature = [5, 6]\<rparr>"
  have "\<exists>bs. cv_marshal ref_builder ?m = Ret bs"
    unfolding ref_builder.cv_marshal_enc by (simp add: hs_msg_def lp_def)
  then show ?thesis
    using auth_messages_roundtrip [OF ref_builder.cryptobyte_Builder_axioms ref_reader.cryptobyte_String_axioms,
        of cr13_zero "\<lparr>cst_response = [1]\<rparr>" "\<lparr>cv_hasSignatureAlgorithm = True, cv_signatureAlgorithm = 0, cv_signature = []\<rparr>" ?m]
    by (auto simp: cr13_zero_def)
qed

end
