(* ===== verification/Messages12.thy ===== *)
theory Messages12
  imports Messages13
begin

text \<open>
  The handshake messages of \<open>handshake_messages.go\<close> that are written and read byte by byte:
  Certificate, ServerKeyExchange, ClientKeyExchange, CertificateRequest and NewSessionTicket
  of TLS 1.2, and the empty messages; then the type of all handshake messages and
  \<open>transcriptMsg\<close>.  Conversions \<open>uint8(n >> 8)\<close> truncate, and an index or slice out of range
  panics; the results say when a message survives the wire and that no input makes the
  parsers panic.
\<close>

section \<open>Slices\<close>

definition go_from :: "nat \<Rightarrow> bytes \<Rightarrow> bytes exec" where
  "go_from n d = (if n \<le> length d then Ret (drop n d) else Panic ''slice bounds out of range'')"

definition go_upto :: "nat \<Rightarrow> bytes \<Rightarrow> bytes exec" where
  "go_upto n d = (if n \<le> length d then Ret (take n d) else Panic ''slice bounds out of range'')"

text \<open>The number in the first \<open>n\<close> bytes, read with \<open>d[0]\<close>, \<open>d[1]\<close>, and so on.\<close>

definition go_be :: "nat \<Rightarrow> bytes \<Rightarrow> nat exec" where
  "go_be n d = (if n \<le> length d then Ret (get_be (take n d)) else Panic ''index out of range'')"

lemma go_slice_simps [simp]:
  "n \<le> length d \<Longrightarrow> go_from n d = Ret (drop n d)" "n \<le> length d \<Longrightarrow> go_upto n d = Ret (take n d)"
  "n \<le> length d \<Longrightarrow> go_be n d = Ret (get_be (take n d))"
  by (simp_all add: go_from_def go_upto_def go_be_def)

section \<open>\<open>certificateMsg\<close>\<close>

record certificateMsg =
  cm_certificates :: "bytes list"

definition cm_marshal :: "certificateMsg \<Rightarrow> bytes" where
  "cm_marshal m =
     (let i = sum_list (map length (cm_certificates m));
          len = 3 + 3 * length (cm_certificates m) + i
      in [typeCertificate] @ put_be 3 len @ put_be 3 (len - 3)
         @ concat (map (\<lambda>slice. put_be 3 (length slice) @ slice) (cm_certificates m)))"

text \<open>The first loop of \<open>unmarshal\<close>, which counts the certificates; \<open>certsLen\<close> is a \<open>uint32\<close>.\<close>

lemma unat_cert_len:
  assumes "n < 16777216"
  shows "unat (3 + of_nat n :: u32) = 3 + n"
proof -
  have "unat (of_nat (3 + n) :: u32) = 3 + n"
    using assms by (simp only: unat_of_nat) simp
  then show ?thesis
    by simp
qed

lemma get_be_take3: "get_be (take 3 d) < 16777216"
  using get_be_less [of "take 3 d"] power_increasing [of "length (take 3 d)" 3 "256 :: nat"] by simp

function cm_count :: "bytes \<Rightarrow> u32 \<Rightarrow> nat \<Rightarrow> nat option" where
  "cm_count d certsLen numCerts =
     (if certsLen > 0 then
        if length d < 4 then None
        else let certLen = (of_nat (get_be (take 3 d)) :: u32)
             in if of_nat (length d) < 3 + certLen then None
                else cm_count (drop (unat (3 + certLen)) d) (certsLen - (3 + certLen)) (numCerts + 1)
      else Some numCerts)"
  by pat_completeness auto

termination
  by (relation "measure (\<lambda>(d, _, _). length d)") (auto simp: unat_cert_len [OF get_be_take3])

text \<open>The second loop, which cuts \<open>numCerts\<close> certificates.\<close>

fun cm_cut :: "nat \<Rightarrow> bytes \<Rightarrow> bytes list exec" where
  "cm_cut 0 d = Ret []"
| "cm_cut (Suc i) d =
     exec_bind (go_be 3 d) (\<lambda>certLen.
     exec_bind (go_upto (3 + certLen) d) (\<lambda>c.
     exec_bind (go_from (3 + certLen) d) (\<lambda>d.
     exec_bind (cm_cut i d) (\<lambda>cs. Ret (drop 3 c # cs)))))"

definition cm_unmarshal :: "bytes \<Rightarrow> certificateMsg option exec" where
  "cm_unmarshal data =
     (if length data < 7 then Ret None
      else let certsLen = (of_nat (get_be (take 3 (drop 4 data))) :: u32)
           in if of_nat (length data) \<noteq> certsLen + 7 then Ret None
              else case cm_count (drop 7 data) certsLen 0 of
                     None \<Rightarrow> Ret None
                   | Some numCerts \<Rightarrow>
                       exec_bind (cm_cut numCerts (drop 7 data)) (\<lambda>cs.
                         Ret (Some \<lparr>cm_certificates = cs\<rparr>)))"

section \<open>Messages with one opaque field, and empty messages\<close>

record serverKeyExchangeMsg =
  skx_key :: bytes

definition skx_marshal :: "serverKeyExchangeMsg \<Rightarrow> bytes" where
  "skx_marshal m = [typeServerKeyExchange] @ put_be 3 (length (skx_key m)) @ skx_key m"

definition skx_unmarshal :: "bytes \<Rightarrow> serverKeyExchangeMsg option" where
  "skx_unmarshal data = (if length data < 4 then None else Some \<lparr>skx_key = drop 4 data\<rparr>)"

record clientKeyExchangeMsg =
  ckx_ciphertext :: bytes

definition ckx_marshal :: "clientKeyExchangeMsg \<Rightarrow> bytes" where
  "ckx_marshal m = [typeClientKeyExchange] @ put_be 3 (length (ckx_ciphertext m)) @ ckx_ciphertext m"

definition ckx_unmarshal :: "bytes \<Rightarrow> clientKeyExchangeMsg option" where
  "ckx_unmarshal data =
     (if length data < 4 then None
      else if get_be (take 3 (drop 1 data)) \<noteq> length data - 4 then None
      else Some \<lparr>ckx_ciphertext = drop 4 data\<rparr>)"

record newSessionTicketMsg =
  nst_ticket :: bytes

definition nst_marshal :: "newSessionTicketMsg \<Rightarrow> bytes" where
  "nst_marshal m =
     (let ticketLen = length (nst_ticket m);
          len = 2 + 4 + ticketLen
      in [typeNewSessionTicket] @ put_be 3 len @ [0, 0, 0, 0] @ put_be 2 ticketLen @ nst_ticket m)"

definition nst_unmarshal :: "bytes \<Rightarrow> newSessionTicketMsg option" where
  "nst_unmarshal data =
     (if length data < 10 then None
      else if (of_nat (length data) :: u32) - 4 \<noteq> of_nat (get_be (take 3 (drop 1 data))) then None
      else if length data - 10 \<noteq> get_be (take 2 (drop 8 data)) then None
      else Some \<lparr>nst_ticket = drop 10 data\<rparr>)"

text \<open>
  \<open>endOfEarlyDataMsg\<close>, \<open>serverHelloDoneMsg\<close> and \<open>helloRequestMsg\<close> have no fields: four bytes
  each, and the parsers only check the length.
\<close>

definition eoed_marshal :: bytes where "eoed_marshal = [typeEndOfEarlyData, 0, 0, 0]"
definition eoed_unmarshal :: "bytes \<Rightarrow> unit option" where
  "eoed_unmarshal data = (if length data = 4 then Some () else None)"
definition shd_marshal :: bytes where "shd_marshal = [typeServerHelloDone, 0, 0, 0]"
definition shd_unmarshal :: "bytes \<Rightarrow> unit option" where
  "shd_unmarshal data = (if length data = 4 then Some () else None)"
definition hreq_marshal :: bytes where "hreq_marshal = [typeHelloRequest, 0, 0, 0]"
definition hreq_unmarshal :: "bytes \<Rightarrow> unit option" where
  "hreq_unmarshal data = (if length data = 4 then Some () else None)"

section \<open>\<open>certificateRequestMsg\<close>\<close>

record certificateRequestMsg =
  crm_hasSignatureAlgorithm :: bool
  crm_certificateTypes :: bytes
  crm_supportedSignatureAlgorithms :: "u16 list"
  crm_certificateAuthorities :: "bytes list"

definition crm_marshal :: "certificateRequestMsg \<Rightarrow> bytes" where
  "crm_marshal m =
     (let casLength = sum_list (map (\<lambda>ca. 2 + length ca) (crm_certificateAuthorities m));
          len = 1 + length (crm_certificateTypes m) + 2 + casLength
                + (if crm_hasSignatureAlgorithm m
                   then 2 + 2 * length (crm_supportedSignatureAlgorithms m) else 0)
      in [typeCertificateRequest] @ put_be 3 len
         @ [of_nat (length (crm_certificateTypes m))] @ crm_certificateTypes m
         @ (if crm_hasSignatureAlgorithm m
            then put_be 2 (length (crm_supportedSignatureAlgorithms m) * 2)
                 @ concat (map put_u16 (crm_supportedSignatureAlgorithms m))
            else [])
         @ put_be 2 casLength
         @ concat (map (\<lambda>ca. put_be 2 (length ca) @ ca) (crm_certificateAuthorities m)))"

fun crm_sigAlgos :: "nat \<Rightarrow> bytes \<Rightarrow> (u16 list \<times> bytes) exec" where
  "crm_sigAlgos 0 data = Ret ([], data)"
| "crm_sigAlgos (Suc i) data =
     exec_bind (go_be 2 data) (\<lambda>a.
     exec_bind (go_from 2 data) (\<lambda>data.
     exec_bind (crm_sigAlgos i data) (\<lambda>(as, data). Ret (of_nat a # as, data))))"

text \<open>The loop over the authorities; \<open>None\<close> where the source returns false.\<close>

function crm_cas :: "bytes \<Rightarrow> bytes list \<Rightarrow> bytes list option exec" where
  "crm_cas cas acc =
     (if length cas > 0 then
        if length cas < 2 then Ret None
        else let caLen = get_be (take 2 cas);
                 cas = drop 2 cas
             in if length cas < caLen then Ret None
                else exec_bind (go_upto caLen cas) (\<lambda>ca.
                     crm_cas (drop caLen cas) (acc @ [ca]))
      else Ret (Some acc))"
  by pat_completeness auto

termination
  by (relation "measure (\<lambda>(cas, _). length cas)") auto

definition crm_rest ::
  "certificateRequestMsg \<Rightarrow> bytes \<Rightarrow> certificateRequestMsg option exec" where
  "crm_rest m data =
     (if length data < 2 then Ret None
      else let casLength = get_be (take 2 data);
               data = drop 2 data
           in if length data < casLength then Ret None
              else let cas = take casLength data
                   in exec_bind (go_from casLength data) (\<lambda>data.
                      exec_bind (crm_cas cas []) (\<lambda>r.
                        case r of
                          None \<Rightarrow> Ret None
                        | Some as \<Rightarrow>
                            if length data = 0 then Ret (Some (m\<lparr>crm_certificateAuthorities := as\<rparr>))
                            else Ret None)))"

definition crm_unmarshal ::
  "certificateRequestMsg \<Rightarrow> bytes \<Rightarrow> certificateRequestMsg option exec" where
  "crm_unmarshal m data =
     (if length data < 5 then Ret None
      else if (of_nat (length data) :: u32) - 4 \<noteq> of_nat (get_be (take 3 (drop 1 data))) then Ret None
      else let numCertTypes = unat (data ! 4);
               data = drop 5 data
           in if numCertTypes = 0 \<or> length data \<le> numCertTypes then Ret None
              else let types = take numCertTypes data
                   in if length types \<noteq> numCertTypes then Ret None
                      else exec_bind (go_from numCertTypes data) (\<lambda>data.
                        let m = m\<lparr>crm_certificateTypes := types\<rparr>
                        in if crm_hasSignatureAlgorithm m then
                             if length data < 2 then Ret None
                             else let sigAndHashLen = get_be (take 2 data);
                                      data = drop 2 data
                                  in if odd sigAndHashLen then Ret None
                                     else if length data < sigAndHashLen then Ret None
                                     else exec_bind (crm_sigAlgos (sigAndHashLen div 2) data) (\<lambda>(as, data).
                                            crm_rest (m\<lparr>crm_supportedSignatureAlgorithms := as\<rparr>) data)
                           else crm_rest m data))"

section \<open>All handshake messages\<close>

datatype handshakeMessage =
    HelloRequest
  | ClientHello clientHelloMsg
  | ServerHello serverHelloMsg
  | NewSessionTicket newSessionTicketMsg
  | NewSessionTicketTLS13 newSessionTicketMsgTLS13
  | EndOfEarlyData
  | EncryptedExtensions encryptedExtensionsMsg
  | CertificateM certificateMsg
  | CertificateTLS13 certificateMsgTLS13
  | CertificateRequest certificateRequestMsg
  | CertificateRequestTLS13 certificateRequestMsgTLS13
  | CertificateStatus certificateStatusMsg
  | ServerKeyExchange serverKeyExchangeMsg
  | ServerHelloDone
  | ClientKeyExchange clientKeyExchangeMsg
  | CertificateVerify certificateVerifyMsg
  | Finished finishedMsg
  | KeyUpdate keyUpdateMsg

fun hm_marshal :: "'b builder_ops \<Rightarrow> handshakeMessage \<Rightarrow> bytes exec" where
  "hm_marshal B HelloRequest = Ret hreq_marshal"
| "hm_marshal B (ClientHello m) = ch_marshal B m"
| "hm_marshal B (ServerHello m) = sh_marshal B m"
| "hm_marshal B (NewSessionTicket m) = Ret (nst_marshal m)"
| "hm_marshal B (NewSessionTicketTLS13 m) = nst13_marshal B m"
| "hm_marshal B EndOfEarlyData = Ret eoed_marshal"
| "hm_marshal B (EncryptedExtensions m) = ee_marshal B m"
| "hm_marshal B (CertificateM m) = Ret (cm_marshal m)"
| "hm_marshal B (CertificateTLS13 m) = c13_marshal B m"
| "hm_marshal B (CertificateRequest m) = Ret (crm_marshal m)"
| "hm_marshal B (CertificateRequestTLS13 m) = cr13_marshal B m"
| "hm_marshal B (CertificateStatus m) = cst_marshal B m"
| "hm_marshal B (ServerKeyExchange m) = Ret (skx_marshal m)"
| "hm_marshal B ServerHelloDone = Ret shd_marshal"
| "hm_marshal B (ClientKeyExchange m) = Ret (ckx_marshal m)"
| "hm_marshal B (CertificateVerify m) = cv_marshal B m"
| "hm_marshal B (Finished m) = fin_marshal B m"
| "hm_marshal B (KeyUpdate m) = ku_marshal B m"

text \<open>The messages with an \<open>originalBytes\<close> method.\<close>

fun hm_originalBytes :: "handshakeMessage \<Rightarrow> bytes option" where
  "hm_originalBytes (ClientHello m) = ch_originalBytes m"
| "hm_originalBytes (ServerHello m) = sh_originalBytes m"
| "hm_originalBytes m = None"

text \<open>\<open>write\<close> is the \<open>Write\<close> method of the transcript hash.\<close>

definition transcriptMsg ::
  "'b builder_ops \<Rightarrow> ('h \<Rightarrow> bytes \<Rightarrow> 'h) \<Rightarrow> handshakeMessage \<Rightarrow> 'h \<Rightarrow> 'h exec" where
  "transcriptMsg B write msg h =
     (case hm_originalBytes msg of
        Some orig \<Rightarrow> Ret (write h orig)
      | None \<Rightarrow> exec_bind (hm_marshal B msg) (\<lambda>data. Ret (write h data)))"

section \<open>The parsers do not panic\<close>

declare cm_count.simps [simp del] crm_cas.simps [simp del]

lemma word_le_length:
  assumes "\<not> of_nat (length d) < (w :: u32)"
  shows "unat w \<le> length d"
proof -
  have "unat w \<le> unat (of_nat (length d) :: u32)"
    using assms by (simp add: word_le_nat_alt not_less)
  then show ?thesis
    by (simp only: unat_of_nat) (meson le_trans mod_less_eq_dividend)
qed

lemma cm_cut_total:
  "cm_count d certsLen k = Some n \<Longrightarrow> k \<le> n \<and> (\<exists>cs. cm_cut (n - k) d = Ret cs)"
proof (induction d certsLen k arbitrary: n rule: cm_count.induct)
  case (1 d certsLen k)
  show ?case
  proof (cases "certsLen > 0")
    case True
    let ?l = "of_nat (get_be (take 3 d)) :: u32"
    let ?d = "drop (unat (3 + ?l)) d"
    have l: "4 \<le> length d" "\<not> of_nat (length d) < 3 + ?l" "cm_count ?d (certsLen - (3 + ?l)) (k + 1) = Some n"
      using "1.prems" True by (auto simp: cm_count.simps [of d] Let_def split: if_splits)
    have u: "unat (3 + ?l) = 3 + get_be (take 3 d)"
      by (rule unat_cert_len [OF get_be_take3])
    have len: "3 + get_be (take 3 d) \<le> length d"
      using word_le_length [OF l(2)] u by simp
    obtain cs where "k + 1 \<le> n" "cm_cut (n - (k + 1)) ?d = Ret cs"
      using "1.IH" [OF True _ refl l(2,3)] l(1) by auto
    moreover from this have "n - k = Suc (n - (k + 1))"
      by simp
    ultimately show ?thesis
      using l(1) len by (simp add: u)
  next
    case False
    then show ?thesis
      using "1.prems" by (simp add: cm_count.simps [of d])
  qed
qed

lemma cm_unmarshal_total: "\<exists>r. cm_unmarshal data = Ret r"
  using cm_cut_total [of "drop 7 data" _ 0] by (fastforce simp: cm_unmarshal_def Let_def split: option.splits)

lemma crm_sigAlgos_total:
  "2 * n \<le> length data \<Longrightarrow> \<exists>as. crm_sigAlgos n data = Ret (as, drop (2 * n) data)"
proof (induction n arbitrary: data)
  case (Suc n)
  then obtain as where "crm_sigAlgos n (drop 2 data) = Ret (as, drop (2 * n) (drop 2 data))"
    using Suc.IH [of "drop 2 data"] Suc.prems by (metis diff_add_inverse diff_le_mono length_drop mult_Suc_right)
  with Suc.prems show ?case
    by (simp add: add.commute)
qed simp

lemma crm_cas_total: "\<exists>r. crm_cas cas acc = Ret r"
proof (induction cas acc rule: crm_cas.induct)
  case (1 cas acc)
  then show ?case
    by (subst crm_cas.simps) (auto simp: Let_def)
qed

lemma crm_rest_total: "\<exists>r. crm_rest m data = Ret r"
  using crm_cas_total [of "take (get_be (take 2 data)) (drop 2 data)" "[]"]
  by (auto simp: crm_rest_def Let_def split: option.splits)

lemma crm_unmarshal_total: "\<exists>r. crm_unmarshal m data = Ret r"
proof -
  have sig: "\<exists>r. exec_bind (crm_sigAlgos (n div 2) d) (\<lambda>(as, data). crm_rest (f as) data) = Ret r"
    if "even n" "n \<le> length d" for n d f
    using crm_sigAlgos_total [of "n div 2" d] crm_rest_total that by fastforce
  show ?thesis
    using crm_rest_total sig
    by (auto simp: crm_unmarshal_def Let_def not_less)
qed

section \<open>Round trips\<close>

definition enc24 :: "bytes \<Rightarrow> bytes" where
  "enc24 c = put_be 3 (length c) @ c"

lemma enc24_fun: "(\<lambda>c. put_be 3 (length c) @ c) = enc24"
  by (simp add: enc24_def fun_eq_iff)

lemma length_enc24 [simp]: "length (enc24 c) = 3 + length c"
  by (simp add: enc24_def)

lemma length_concat_enc24: "length (concat (map enc24 cs)) = 3 * length cs + sum_list (map length cs)"
  by (induction cs) (simp_all add: enc24_def)

lemma unat_of_nat32: "n < 2 ^ 32 \<Longrightarrow> unat (of_nat n :: u32) = n"
  by (simp add: unat_of_nat)

lemma cm_count_enc:
  assumes "length (concat (map enc24 cs)) < 2 ^ 24"
  shows "cm_count (concat (map enc24 cs)) (of_nat (length (concat (map enc24 cs)))) k =
     (if cs = [] \<or> last cs \<noteq> [] then Some (k + length cs) else None)"
  using assms
proof (induction cs arbitrary: k)
  case Nil
  then show ?case
    by (simp add: cm_count.simps)
next
  case (Cons c cs)
  let ?W = "concat (map enc24 cs)"
  have len: "3 + length c + length ?W < 2 ^ 24"
    using Cons.prems by simp
  have W: "?W = [] \<longleftrightarrow> cs = []"
    by (cases cs) (simp_all add: enc24_def)
  have l: "get_be (take 3 (enc24 c @ ?W)) = length c" "drop (3 + length c) (enc24 c @ ?W) = ?W"
    using len by (simp_all add: enc24_def [of c])
  have u: "unat (3 + of_nat (length c) :: u32) = 3 + length c"
    using len by (intro unat_cert_len) simp
  have pos: "(of_nat (3 + length c + length ?W) :: u32) > 0"
    using unat_of_nat32 [of "3 + length c + length ?W"] len unfolding word_gt_0_no word_less_nat_alt by simp
  have enough: "\<not> of_nat (3 + length c + length ?W) < (3 + of_nat (length c) :: u32)"
    using unat_of_nat32 [of "3 + length c + length ?W"] len u unfolding word_less_nat_alt by simp
  have sub: "(of_nat (3 + length c + length ?W) :: u32) - (3 + of_nat (length c)) = of_nat (length ?W)"
    by simp
  have "cm_count (enc24 c @ ?W) (of_nat (3 + length c + length ?W)) k =
      (if c = [] \<and> cs = [] then None else cm_count ?W (of_nat (length ?W)) (k + 1))"
    using pos enough W l u sub by (subst cm_count.simps) simp
  then show ?case
    using Cons.IH [of "k + 1"] len by (simp add: add.assoc)
qed

lemma cm_cut_enc: "(\<forall>c\<in>set cs. length c < 2 ^ 24) \<Longrightarrow> cm_cut (length cs) (concat (map enc24 cs)) = Ret cs"
proof (induction cs)
  case (Cons c cs)
  then show ?case
    by (simp add: enc24_def [of c])
qed simp

lemma cm_roundtrip_exact:
  assumes "3 + 3 * length (cm_certificates m) + sum_list (map length (cm_certificates m)) < 2 ^ 24"
  shows "cm_unmarshal (cm_marshal m) =
     Ret (if cm_certificates m = [] \<or> last (cm_certificates m) \<noteq> [] then Some m else None)"
proof -
  let ?cs = "cm_certificates m"
  let ?W = "concat (map enc24 ?cs)"
  have len: "length ?W + 3 < 2 ^ 24"
    using assms by (simp add: length_concat_enc24)
  have data: "cm_marshal m = [typeCertificate] @ put_be 3 (3 + length ?W) @ put_be 3 (length ?W) @ ?W"
    by (simp add: cm_marshal_def Let_def length_concat_enc24 enc24_fun add.assoc)
  have each: "\<forall>c\<in>set ?cs. length c < 2 ^ 24"
    using len member_le_sum_list [of _ "map length ?cs"] by (fastforce simp: length_concat_enc24)
  have head: "get_be (take 3 (drop 4 (cm_marshal m))) = length ?W" "drop 7 (cm_marshal m) = ?W"
    "7 \<le> length (cm_marshal m)" "(of_nat (length (cm_marshal m)) :: u32) = of_nat (length ?W) + 7"
    using len by (simp_all add: data)
  have "\<lparr>cm_certificates = ?cs\<rparr> = m"
    by simp
  then show ?thesis
    using len cm_count_enc [of ?cs 0] cm_cut_enc [OF each]
    unfolding cm_unmarshal_def head Let_def by (simp add: head(3) not_less del: certificateMsg.surjective)
qed

lemma crm_sigAlgos_enc: "crm_sigAlgos (length as) (concat (map put_u16 as) @ s) = Ret (as, s)"
proof (induction as)
  case (Cons a as)
  have "of_nat (get_be (put_u16 a)) = a"
    using get_put_u(1) [of a] by (simp add: get_u16_def)
  with Cons show ?case
    by simp
qed simp

definition enc16 :: "bytes \<Rightarrow> bytes" where
  "enc16 c = put_be 2 (length c) @ c"

lemma enc16_fun: "(\<lambda>c. put_be 2 (length c) @ c) = enc16"
  by (simp add: enc16_def fun_eq_iff)

lemma crm_cas_enc:
  "(\<forall>c\<in>set cs. length c < 65536) \<Longrightarrow> crm_cas (concat (map enc16 cs)) acc = Ret (Some (acc @ cs))"
proof (induction cs arbitrary: acc)
  case Nil
  then show ?case
    by (simp add: crm_cas.simps)
next
  case (Cons c cs)
  then show ?case
    by (subst crm_cas.simps) (simp add: enc16_def [of c])
qed

lemma length_concat_enc16: "length (concat (map enc16 cs)) = sum_list (map (\<lambda>c. 2 + length c) cs)"
  by (induction cs) (simp_all add: enc16_def)

lemma crm_rest_enc:
  assumes "length (concat (map enc16 cs)) < 65536"
  shows "crm_rest m (put_be 2 (length (concat (map enc16 cs))) @ concat (map enc16 cs)) =
     Ret (Some (m\<lparr>crm_certificateAuthorities := cs\<rparr>))"
proof -
  have "\<forall>c\<in>set cs. length c < 65536"
    using assms member_le_sum_list [of _ "map (\<lambda>c. 2 + length c) cs"] by (fastforce simp: length_concat_enc16)
  then show ?thesis
    using assms crm_cas_enc [of cs "[]"] by (simp add: crm_rest_def)
qed

text \<open>The lists that fit their length fields.\<close>

definition crm_wf :: "certificateRequestMsg \<Rightarrow> bool" where
  "crm_wf m \<longleftrightarrow>
     crm_certificateTypes m \<noteq> [] \<and> length (crm_certificateTypes m) < 256 \<and>
     2 * length (crm_supportedSignatureAlgorithms m) < 65536 \<and>
     sum_list (map (\<lambda>ca. 2 + length ca) (crm_certificateAuthorities m)) < 65536"

lemma crm_roundtrip:
  assumes wf: "crm_wf m" and has: "crm_hasSignatureAlgorithm m0 = crm_hasSignatureAlgorithm m"
    and keep: "crm_hasSignatureAlgorithm m \<or> crm_supportedSignatureAlgorithms m0 = crm_supportedSignatureAlgorithms m"
  shows "crm_unmarshal m0 (crm_marshal m) = Ret (Some m)"
proof -
  let ?T = "crm_certificateTypes m" and ?S = "crm_supportedSignatureAlgorithms m"
  let ?W = "concat (map enc16 (crm_certificateAuthorities m))"
  define sig where "sig = (if crm_hasSignatureAlgorithm m
      then put_be 2 (length ?S * 2) @ concat (map put_u16 ?S) else [])"
  define body where "body = of_nat (length ?T) # ?T @ sig @ put_be 2 (length ?W) @ ?W"
  have S: "length (concat (map put_u16 ?S)) = 2 * length ?S"
    by (induction ?S) (simp_all add: length_concat comp_def sum_list_triv)
  have lens: "?T \<noteq> []" "length ?T < 256" "2 * length ?S < 65536" "length ?W < 65536"
    using wf by (simp_all add: crm_wf_def length_concat_enc16)
  have data: "crm_marshal m = [typeCertificateRequest] @ put_be 3 (length body) @ body"
    by (simp add: crm_marshal_def Let_def body_def sig_def length_concat_enc16 enc16_fun S ac_simps)
  have small: "length body < 2 ^ 24"
    using lens by (simp add: body_def sig_def S)
  have head: "(of_nat (length (crm_marshal m)) :: u32) - 4 = of_nat (get_be (take 3 (drop 1 (crm_marshal m))))"
    "unat (crm_marshal m ! 4) = length ?T" "drop 5 (crm_marshal m) = ?T @ sig @ put_be 2 (length ?W) @ ?W"
    "5 \<le> length (crm_marshal m)"
    using lens small by (simp_all add: data unat_of_nat) (simp_all add: body_def nth_append unat_of_nat)
  show ?thesis
  proof (cases "crm_hasSignatureAlgorithm m")
    case True
    have "crm_sigAlgos (length ?S) (concat (map put_u16 ?S) @ put_be 2 (length ?W) @ ?W) =
        Ret (?S, put_be 2 (length ?W) @ ?W)"
      by (rule crm_sigAlgos_enc)
    moreover have "m0\<lparr>crm_certificateTypes := ?T, crm_supportedSignatureAlgorithms := ?S,
        crm_certificateAuthorities := crm_certificateAuthorities m\<rparr> = m"
      using has by (cases m; cases m0) simp
    ultimately show ?thesis
      unfolding crm_unmarshal_def Let_def head(1-3)
      using True has head(4) lens crm_rest_enc [OF lens(4)] by (simp add: sig_def S mult.commute)
  next
    case False
    have "m0\<lparr>crm_certificateTypes := ?T, crm_certificateAuthorities := crm_certificateAuthorities m\<rparr> = m"
      using False has keep by (cases m; cases m0) simp
    then show ?thesis
      unfolding crm_unmarshal_def Let_def head(1-3)
      using False has head(4) lens crm_rest_enc [OF lens(4)] by (simp add: sig_def)
  qed
qed

section \<open>The transcript\<close>

lemma ch_step_original:
  assumes "ch_ext_step R s v = Some (v', s')"
  shows "ch_original (fst v') = ch_original (fst v)"
proof -
  have names: "ch_original m' = ch_original m"
    if "loop R (ch_serverName_step R) n t m = Some m'" for n t m m'
    using that
    by (rule loop_inv [where I = "\<lambda>x. ch_original x = ch_original m"])
      (auto simp: ch_serverName_step_def bind_eq_Some_conv split: if_splits)
  have "ch_original m' = ch_original m" if "ch_switch R e d r m = Some (m', l)" for e d r m m' l
    using that names
    by (auto simp: ch_switch_def read_psk_def bind_eq_Some_conv split: if_splits option.splits)
  then show ?thesis
    using assms
    by (cases v) (fastforce simp: ch_ext_step_def bind_eq_Some_conv split: if_splits option.splits)
qed

lemma ch_loop_original:
  assumes "loop R (ch_ext_step R) n s (m, S) = Some (m', S')"
  shows "ch_original m' = ch_original m"
  using loop_inv [OF assms, of "\<lambda>x. ch_original (fst x) = ch_original m"] ch_step_original by fastforce

lemma ch_unmarshal_original: "ch_unmarshal R data = Some m \<Longrightarrow> ch_original m = Some data"
  by (auto simp: ch_unmarshal_def Let_def bind_eq_Some_conv dest!: ch_loop_original split: if_splits)

lemma ext_loop_once_inv:
  assumes "ext_loop_once R sw s m = Some m'" and "I m"
    and "\<And>e d m n l. sw e d m = Some (n, l) \<Longrightarrow> I m \<Longrightarrow> I n"
  shows "I m'"
proof -
  obtain seen where "loop R (ext_step_once R sw) (length s) s (m, {}) = Some (m', seen)"
    using assms(1) by (auto simp: ext_loop_once_def)
  then have "I (fst (m', seen))"
    by (rule loop_inv [where I = "\<lambda>v. I (fst v)"])
      (use assms(2,3) in \<open>auto simp: ext_step_once_def ext_step_def bind_eq_Some_conv split: if_splits option.splits\<close>)
  then show ?thesis
    by simp
qed

lemma sh_unmarshal_original: "sh_unmarshal R data = Some m \<Longrightarrow> sh_original m = Some data"
  by (auto simp: sh_unmarshal_def Let_def bind_eq_Some_conv split: if_splits
      elim!: ext_loop_once_inv [where I = "\<lambda>x. sh_original x = Some data"])
    (auto simp: sh_switch_def bind_eq_Some_conv split: if_splits)

section \<open>Properties\<close>

text \<open>No input makes the hand-written parsers panic: \<open>certificateMsg.unmarshal\<close> and
  \<open>certificateRequestMsg.unmarshal\<close> index and slice their input after their own length checks
  only, the 32-bit arithmetic included, so for every byte string they return true or false.\<close>

theorem tls12_parsers_total:
  "(\<exists>r. cm_unmarshal data = Ret r) \<and> (\<exists>r. crm_unmarshal m data = Ret r)"
  using cm_unmarshal_total crm_unmarshal_total by blast

text \<open>C33: the TLS 1.2 Certificate message, exactly: a list of certificates whose message fits the
  24-bit length comes back from \<open>unmarshal\<close> unless its last certificate is empty; with an
  empty last certificate \<open>unmarshal\<close> rejects what \<open>marshal\<close> wrote.\<close>

theorem certificate12_roundtrip:
  assumes "3 + 3 * length (cm_certificates m) + sum_list (map length (cm_certificates m)) < 2 ^ 24"
  shows "cm_unmarshal (cm_marshal m) =
     Ret (if cm_certificates m = [] \<or> last (cm_certificates m) \<noteq> [] then Some m else None)"
  using assms by (rule cm_roundtrip_exact)

theorem certificate12_roundtrip_witness:
  "cm_unmarshal (cm_marshal \<lparr>cm_certificates = [[1, 2], [3]]\<rparr>) = Ret (Some \<lparr>cm_certificates = [[1, 2], [3]]\<rparr>) \<and>
   cm_unmarshal (cm_marshal \<lparr>cm_certificates = [[1, 2], []]\<rparr>) = Ret None"
  using certificate12_roundtrip [of "\<lparr>cm_certificates = [[1, 2], [3]]\<rparr>"]
    certificate12_roundtrip [of "\<lparr>cm_certificates = [[1, 2], []]\<rparr>"] by simp

text \<open>The other TLS 1.2 messages survive the wire: ServerKeyExchange always, ClientKeyExchange up
  to the 24-bit length, NewSessionTicket up to the 16-bit length of its ticket, and
  CertificateRequest when its lists fit their length fields, the certificate types are not
  empty, and the receiver expects the format that was sent.\<close>

theorem tls12_messages_roundtrip:
  assumes "length (ckx_ciphertext ckx) < 2 ^ 24" and "length (nst_ticket nst) < 2 ^ 16" and "crm_wf crm"
    and "crm_hasSignatureAlgorithm crm0 = crm_hasSignatureAlgorithm crm"
    and "crm_hasSignatureAlgorithm crm \<or>
         crm_supportedSignatureAlgorithms crm0 = crm_supportedSignatureAlgorithms crm"
  shows "skx_unmarshal (skx_marshal skx) = Some skx \<and>
     ckx_unmarshal (ckx_marshal ckx) = Some ckx \<and>
     nst_unmarshal (nst_marshal nst) = Some nst \<and>
     crm_unmarshal crm0 (crm_marshal crm) = Ret (Some crm)"
proof (intro conjI)
  show "skx_unmarshal (skx_marshal skx) = Some skx"
    by (simp add: skx_unmarshal_def skx_marshal_def)
  show "ckx_unmarshal (ckx_marshal ckx) = Some ckx"
    using assms(1) by (simp add: ckx_unmarshal_def ckx_marshal_def)
  show "nst_unmarshal (nst_marshal nst) = Some nst"
    using assms(2) by (simp add: nst_unmarshal_def nst_marshal_def Let_def)
  show "crm_unmarshal crm0 (crm_marshal crm) = Ret (Some crm)"
    by (rule crm_roundtrip [OF assms(3-5)])
qed

text \<open>A certificate request for concrete runs.\<close>

definition demo_request :: certificateRequestMsg where
  "demo_request = \<lparr>crm_hasSignatureAlgorithm = True, crm_certificateTypes = [1, 64],
     crm_supportedSignatureAlgorithms = [Ed25519, PSSWithSHA256], crm_certificateAuthorities = [[7], []]\<rparr>"

theorem tls12_messages_roundtrip_witness:
  "crm_unmarshal (demo_request\<lparr>crm_supportedSignatureAlgorithms := []\<rparr>) (crm_marshal demo_request) =
     Ret (Some demo_request)"
  using tls12_messages_roundtrip [of "\<lparr>ckx_ciphertext = []\<rparr>" "\<lparr>nst_ticket = []\<rparr>" demo_request
      "demo_request\<lparr>crm_supportedSignatureAlgorithms := []\<rparr>"]
  by (simp add: crm_wf_def demo_request_def)

text \<open>The transcript covers the bytes that were received: hashing a ClientHello or ServerHello
  that \<open>unmarshal\<close> returned feeds exactly the parsed bytes to the hash, whatever the message
  would look like if it were marshalled again.\<close>

theorem transcript_hashes_received:
  "(ch_unmarshal R data = Some ch \<longrightarrow> transcriptMsg B write (ClientHello ch) h = Ret (write h data)) \<and>
   (sh_unmarshal R data = Some sh \<longrightarrow> transcriptMsg B write (ServerHello sh) h = Ret (write h data))"
  by (simp add: transcriptMsg_def ch_originalBytes_def sh_originalBytes_def ch_unmarshal_original sh_unmarshal_original)

theorem transcript_hashes_received_witness:
  "transcriptMsg ref_builder (@) (ServerHello \<lparr>sh_original = Some (replicate 41 0 @ [0]), sh_vers = 0,
     sh_random = replicate 32 0, sh_sessionId = [], sh_cipherSuite = 0, sh_compressionMethod = 0,
     sh_ocspStapling = False, sh_ticketSupported = False, sh_secureRenegotiationSupported = False,
     sh_secureRenegotiation = [], sh_extendedMasterSecret = False, sh_alpnProtocol = [], sh_scts = [],
     sh_supportedVersion = 0, sh_serverShare = \<lparr>ks_group = 0, ks_data = []\<rparr>,
     sh_selectedIdentityPresent = False, sh_selectedIdentity = 0, sh_supportedPoints = [],
     sh_encryptedClientHello = [], sh_serverNameAck = False, sh_cookie = [], sh_selectedGroup = 0\<rparr>) [7] =
   Ret ([7] @ replicate 41 0 @ [0])"
proof -
  have "sh_unmarshal ref_reader (replicate 41 0 @ [0]) = Some (sh_zero\<lparr>sh_original := Some (replicate 41 0 @ [0]),
      sh_random := replicate 32 0\<rparr>)"
    by code_simp
  from transcript_hashes_received [of ref_reader "replicate 41 0 @ [0]", THEN conjunct2, THEN mp, OF this,
      of ref_builder "(@)" "[7]"]
  show ?thesis
    by (simp add: sh_zero_def)
qed

end
