(* ===== verification/Alert.thy ===== *)
theory Alert
  imports Constants
begin

text \<open>
  \<open>alert.go\<close>: the alert descriptions and levels, and the text of an alert.  An alert is a
  byte; as a Go error it is \<open>ErrAlert\<close>.
\<close>

definition alertLevelWarning :: byte where "alertLevelWarning = 1"
definition alertLevelError :: byte where "alertLevelError = 2"
definition alertCloseNotify :: byte where "alertCloseNotify = 0"
definition alertUnexpectedMessage :: byte where "alertUnexpectedMessage = 10"
definition alertBadRecordMAC :: byte where "alertBadRecordMAC = 20"
definition alertDecryptionFailed :: byte where "alertDecryptionFailed = 21"
definition alertRecordOverflow :: byte where "alertRecordOverflow = 22"
definition alertDecompressionFailure :: byte where "alertDecompressionFailure = 30"
definition alertHandshakeFailure :: byte where "alertHandshakeFailure = 40"
definition alertBadCertificate :: byte where "alertBadCertificate = 42"
definition alertUnsupportedCertificate :: byte where "alertUnsupportedCertificate = 43"
definition alertCertificateRevoked :: byte where "alertCertificateRevoked = 44"
definition alertCertificateExpired :: byte where "alertCertificateExpired = 45"
definition alertCertificateUnknown :: byte where "alertCertificateUnknown = 46"
definition alertIllegalParameter :: byte where "alertIllegalParameter = 47"
definition alertUnknownCA :: byte where "alertUnknownCA = 48"
definition alertAccessDenied :: byte where "alertAccessDenied = 49"
definition alertDecodeError :: byte where "alertDecodeError = 50"
definition alertDecryptError :: byte where "alertDecryptError = 51"
definition alertExportRestriction :: byte where "alertExportRestriction = 60"
definition alertProtocolVersion :: byte where "alertProtocolVersion = 70"
definition alertInsufficientSecurity :: byte where "alertInsufficientSecurity = 71"
definition alertInternalError :: byte where "alertInternalError = 80"
definition alertInappropriateFallback :: byte where "alertInappropriateFallback = 86"
definition alertUserCanceled :: byte where "alertUserCanceled = 90"
definition alertNoRenegotiation :: byte where "alertNoRenegotiation = 100"
definition alertMissingExtension :: byte where "alertMissingExtension = 109"
definition alertUnsupportedExtension :: byte where "alertUnsupportedExtension = 110"
definition alertCertificateUnobtainable :: byte where "alertCertificateUnobtainable = 111"
definition alertUnrecognizedName :: byte where "alertUnrecognizedName = 112"
definition alertBadCertificateStatusResponse :: byte where "alertBadCertificateStatusResponse = 113"
definition alertBadCertificateHashValue :: byte where "alertBadCertificateHashValue = 114"
definition alertUnknownPSKIdentity :: byte where "alertUnknownPSKIdentity = 115"
definition alertCertificateRequired :: byte where "alertCertificateRequired = 116"
definition alertNoApplicationProtocol :: byte where "alertNoApplicationProtocol = 120"
definition alertECHRequired :: byte where "alertECHRequired = 121"

lemmas alert_ids =
  alertLevelWarning_def
  alertLevelError_def
  alertCloseNotify_def
  alertUnexpectedMessage_def
  alertBadRecordMAC_def
  alertDecryptionFailed_def
  alertRecordOverflow_def
  alertDecompressionFailure_def
  alertHandshakeFailure_def
  alertBadCertificate_def
  alertUnsupportedCertificate_def
  alertCertificateRevoked_def
  alertCertificateExpired_def
  alertCertificateUnknown_def
  alertIllegalParameter_def
  alertUnknownCA_def
  alertAccessDenied_def
  alertDecodeError_def
  alertDecryptError_def
  alertExportRestriction_def
  alertProtocolVersion_def
  alertInsufficientSecurity_def
  alertInternalError_def
  alertInappropriateFallback_def
  alertUserCanceled_def
  alertNoRenegotiation_def
  alertMissingExtension_def
  alertUnsupportedExtension_def
  alertCertificateUnobtainable_def
  alertUnrecognizedName_def
  alertBadCertificateStatusResponse_def
  alertBadCertificateHashValue_def
  alertUnknownPSKIdentity_def
  alertCertificateRequired_def
  alertNoApplicationProtocol_def
  alertECHRequired_def

definition alertText :: "(byte \<times> string) list" where
  "alertText =
     [(alertCloseNotify, ''close notify''),
      (alertUnexpectedMessage, ''unexpected message''),
      (alertBadRecordMAC, ''bad record MAC''),
      (alertDecryptionFailed, ''decryption failed''),
      (alertRecordOverflow, ''record overflow''),
      (alertDecompressionFailure, ''decompression failure''),
      (alertHandshakeFailure, ''handshake failure''),
      (alertBadCertificate, ''bad certificate''),
      (alertUnsupportedCertificate, ''unsupported certificate''),
      (alertCertificateRevoked, ''revoked certificate''),
      (alertCertificateExpired, ''expired certificate''),
      (alertCertificateUnknown, ''unknown certificate''),
      (alertIllegalParameter, ''illegal parameter''),
      (alertUnknownCA, ''unknown certificate authority''),
      (alertAccessDenied, ''access denied''),
      (alertDecodeError, ''error decoding message''),
      (alertDecryptError, ''error decrypting message''),
      (alertExportRestriction, ''export restriction''),
      (alertProtocolVersion, ''protocol version not supported''),
      (alertInsufficientSecurity, ''insufficient security level''),
      (alertInternalError, ''internal error''),
      (alertInappropriateFallback, ''inappropriate fallback''),
      (alertUserCanceled, ''user canceled''),
      (alertNoRenegotiation, ''no renegotiation''),
      (alertMissingExtension, ''missing extension''),
      (alertUnsupportedExtension, ''unsupported extension''),
      (alertCertificateUnobtainable, ''certificate unobtainable''),
      (alertUnrecognizedName, ''unrecognized name''),
      (alertBadCertificateStatusResponse, ''bad certificate status response''),
      (alertBadCertificateHashValue, ''bad certificate hash value''),
      (alertUnknownPSKIdentity, ''unknown PSK identity''),
      (alertCertificateRequired, ''certificate required''),
      (alertNoApplicationProtocol, ''no application protocol''),
      (alertECHRequired, ''encrypted client hello required'')]"

text \<open>Decimal numerals (\<open>strconv.Itoa\<close> of a natural number).\<close>

fun itoa :: "nat \<Rightarrow> string" where
  "itoa n = (if n < 10 then [char_of (48 + n)] else itoa (n div 10) @ [char_of (48 + n mod 10)])"

declare itoa.simps [simp del]

definition alert_String :: "byte \<Rightarrow> string" where
  "alert_String e =
     (case map_of alertText e of
        Some s \<Rightarrow> ''tls: '' @ s
      | None \<Rightarrow> ''tls: alert('' @ itoa (unat e) @ '')'')"

definition alert_Error :: "byte \<Rightarrow> string" where
  "alert_Error e = alert_String e"

definition AlertError_Error :: "byte \<Rightarrow> string" where
  "AlertError_Error e = alert_String e"

definition atoi :: "string \<Rightarrow> nat" where
  "atoi s = foldl (\<lambda>n c. 10 * n + (of_char c - 48)) 0 s"

lemma atoi_itoa: "atoi (itoa n) = n"
proof (induction n rule: itoa.induct)
  case (1 n)
  have digit: "of_char (char_of (48 + m) :: char) - 48 = m" if "m < 10" for m :: nat
    using that by simp
  show ?case
  proof (cases "n < 10")
    case True
    then show ?thesis
      using digit [of n] by (subst itoa.simps) (simp add: atoi_def)
  next
    case False
    then have "atoi (itoa n) = 10 * atoi (itoa (n div 10)) + n mod 10"
      using digit [of "n mod 10"] by (subst itoa.simps) (simp add: atoi_def)
    with 1 False show ?thesis
      by simp
  qed
qed

lemma itoa_inj: "itoa m = itoa n \<longleftrightarrow> m = n"
  by (metis atoi_itoa)

lemma alertText_tables:
  "distinct (map snd alertText)" "list_all (\<lambda>(_, t). take 6 t \<noteq> ''alert('') alertText"
  by code_simp+

section \<open>Properties\<close>

text \<open>The text of an alert identifies it: any two of the 256 alert values have different
  texts, so the alert can be recovered from the error message.\<close>

theorem alert_text_injective: "alert_String d = alert_String e \<longleftrightarrow> d = e"
proof
  assume eq: "alert_String d = alert_String e"
  have known: "t \<noteq> ''alert('' @ u" if "map_of alertText x = Some t" for x t u
    using alertText_tables(2) map_of_SomeD [OF that] by (auto simp: list_all_iff)
  show "d = e"
  proof (cases "map_of alertText d"; cases "map_of alertText e")
    fix s t
    assume st: "map_of alertText d = Some s" "map_of alertText e = Some t"
    then have "(d, s) \<in> set alertText" "(e, s) \<in> set alertText"
      using eq by (auto simp: alert_String_def dest: map_of_SomeD)
    then show ?thesis
      using alertText_tables(1) by (metis distinct_map inj_onD prod.inject snd_conv)
  qed (use eq known in \<open>auto simp: alert_String_def itoa_inj word_unat_eq_iff [of d e]\<close>)
qed simp

end
