(* ===== verification/Alias.thy ===== *)
theory Alias
  imports Prelude
begin

text \<open>
  Byte slices as Go has them where aliasing matters: the address of the first element,
  the elements, and the bytes that lie between the length and the capacity.
  The theory models \<open>alias/alias.go\<close> (the overlap tests) and \<open>sliceForAppend\<close> of
  \<open>gcm/gcm.go\<close>, and shows that the overlap tests decide exactly the sharing their
  comments describe.  Addresses are natural numbers: Go never hands out an object that
  wraps around the address space.
\<close>

record slice =
  ptr :: nat
  dat :: bytes
  spare :: bytes

abbreviation slen :: "slice \<Rightarrow> nat" where "slen x \<equiv> length (dat x)"

definition AnyOverlap :: "slice \<Rightarrow> slice \<Rightarrow> bool" where
  "AnyOverlap x y \<longleftrightarrow>
     slen x > 0 \<and> slen y > 0 \<and>
     ptr x \<le> ptr y + (slen y - 1) \<and>
     ptr y \<le> ptr x + (slen x - 1)"

definition InexactOverlap :: "slice \<Rightarrow> slice \<Rightarrow> bool" where
  "InexactOverlap x y \<longleftrightarrow>
     (if slen x = 0 \<or> slen y = 0 \<or> ptr x = ptr y then False else AnyOverlap x y)"

text \<open>
  \<open>sliceForAppend fresh s n\<close>: \<open>fresh\<close> is the address \<open>make\<close> returns when the capacity
  is too small.
\<close>

definition sliceForAppend :: "nat \<Rightarrow> slice \<Rightarrow> nat \<Rightarrow> slice \<times> slice" where
  "sliceForAppend fresh s n =
     (let total = slen s + n;
          head = (if slen s + length (spare s) \<ge> total
                  then s\<lparr>dat := dat s @ take n (spare s), spare := drop n (spare s)\<rparr>
                  else \<lparr>ptr = fresh, dat = go_copy (replicate total 0) (dat s), spare = []\<rparr>);
          tail = head\<lparr>ptr := ptr head + slen s, dat := drop (slen s) (dat head)\<rparr>
      in (head, tail))"

section \<open>What the overlap tests decide\<close>

definition footprint :: "slice \<Rightarrow> nat set" where
  "footprint x = {ptr x ..< ptr x + slen x}"

lemma AnyOverlap_footprint: "AnyOverlap x y \<longleftrightarrow> footprint x \<inter> footprint y \<noteq> {}"
proof
  assume ov: "AnyOverlap x y"
  then have "max (ptr x) (ptr y) \<in> footprint x \<inter> footprint y"
    unfolding AnyOverlap_def footprint_def by (simp del: length_greater_0_conv) linarith
  then show "footprint x \<inter> footprint y \<noteq> {}"
    by blast
next
  assume "footprint x \<inter> footprint y \<noteq> {}"
  then show "AnyOverlap x y"
    by (auto simp: AnyOverlap_def footprint_def)
qed

lemma AnyOverlap_sym: "AnyOverlap x y \<longleftrightarrow> AnyOverlap y x"
  by (auto simp: AnyOverlap_def)

lemma InexactOverlap_iff:
  "InexactOverlap x y \<longleftrightarrow>
     (\<exists>i j. i < slen x \<and> j < slen y \<and> i \<noteq> j \<and> ptr x + i = ptr y + j)"
proof (cases "ptr x = ptr y \<or> slen x = 0 \<or> slen y = 0")
  case True
  then show ?thesis
    by (auto simp: InexactOverlap_def)
next
  case False
  have "AnyOverlap x y \<longleftrightarrow> (\<exists>i j. i < slen x \<and> j < slen y \<and> ptr x + i = ptr y + j)"
  proof
    assume "AnyOverlap x y"
    then obtain a where "a \<in> footprint x" "a \<in> footprint y"
      by (auto simp: AnyOverlap_footprint)
    then show "\<exists>i j. i < slen x \<and> j < slen y \<and> ptr x + i = ptr y + j"
      by (intro exI [of _ "a - ptr x"] exI [of _ "a - ptr y"]) (auto simp: footprint_def)
  next
    assume "\<exists>i j. i < slen x \<and> j < slen y \<and> ptr x + i = ptr y + j"
    then obtain i j where ij: "i < slen x" "j < slen y" "ptr x + i = ptr y + j"
      by blast
    then have "ptr x + i \<in> footprint x" "ptr x + i \<in> footprint y"
      by (auto simp: footprint_def)
    then show "AnyOverlap x y"
      by (auto simp: AnyOverlap_footprint)
  qed
  with False show ?thesis
    by (auto simp: InexactOverlap_def)
qed

lemma sliceForAppend_shape:
  assumes "sliceForAppend fresh s n = (head, tail)"
  shows "take (slen s) (dat head) = dat s" "slen head = slen s + n" "slen tail = n"
    "dat head = dat s @ dat tail"
  using assms
  by (auto simp: sliceForAppend_def Let_def go_copy_def split: if_splits)

end
