(* ===== verification/Aes.thy ===== *)
theory Aes
  imports AesTables Alias
begin

text \<open>
  The package \<open>aes\<close>: \<open>aes.go\<close>, \<open>aes_generic.go\<close> and \<open>aes_noasm.go\<close>.  The main result
  is that \<open>Decrypt\<close> inverts \<open>Encrypt\<close> for every key the package accepts: the
  table-driven rounds, the S-box form of the last round and the decryption key schedule
  of \<open>expandKeyGeneric\<close> fit together.
\<close>

section \<open>The model of the package\<close>

definition BlockSize :: nat where "BlockSize = 16"

record blockExpanded =
  rounds :: nat
  enc :: "u32 list"
  dec :: "u32 list"

definition aes128KeySize :: nat where "aes128KeySize = 16"
definition aes192KeySize :: nat where "aes192KeySize = 24"
definition aes256KeySize :: nat where "aes256KeySize = 32"
definition aes128Rounds :: nat where "aes128Rounds = 10"
definition aes192Rounds :: nat where "aes192Rounds = 12"
definition aes256Rounds :: nat where "aes256Rounds = 14"

definition roundKeysSize :: "blockExpanded \<Rightarrow> nat" where
  "roundKeysSize b = (rounds b + 1) * (128 div 32)"

text \<open>\<open>uint8(s >> n)\<close>, and \<open>BigEndian.Uint32\<close> of a block's four columns.\<close>

definition u8at :: "nat \<Rightarrow> u32 \<Rightarrow> byte" where
  "u8at n s = ucast (drop_bit n s)"

type_synonym cols = "u32 \<times> u32 \<times> u32 \<times> u32"

definition load_block :: "bytes \<Rightarrow> cols" where
  "load_block src =
     (get_u32 (take 4 src), get_u32 (take 4 (drop 4 src)),
      get_u32 (take 4 (drop 8 src)), get_u32 (take 4 (drop 12 src)))"

fun store_block :: "cols \<Rightarrow> bytes" where
  "store_block (s0, s1, s2, s3) = put_u32 s0 @ put_u32 s1 @ put_u32 s2 @ put_u32 s3"

fun xor_key :: "u32 list \<Rightarrow> nat \<Rightarrow> cols \<Rightarrow> cols" where
  "xor_key xk k (s0, s1, s2, s3) =
     (s0 XOR xk ! (k + 0), s1 XOR xk ! (k + 1), s2 XOR xk ! (k + 2), s3 XOR xk ! (k + 3))"

fun enc_round :: "u32 list \<Rightarrow> nat \<Rightarrow> cols \<Rightarrow> cols" where
  "enc_round xk k (s0, s1, s2, s3) =
     (xk ! (k + 0) XOR te0 ! unat (u8at 24 s0) XOR te1 ! unat (u8at 16 s1)
        XOR te2 ! unat (u8at 8 s2) XOR te3 ! unat (u8at 0 s3),
      xk ! (k + 1) XOR te0 ! unat (u8at 24 s1) XOR te1 ! unat (u8at 16 s2)
        XOR te2 ! unat (u8at 8 s3) XOR te3 ! unat (u8at 0 s0),
      xk ! (k + 2) XOR te0 ! unat (u8at 24 s2) XOR te1 ! unat (u8at 16 s3)
        XOR te2 ! unat (u8at 8 s0) XOR te3 ! unat (u8at 0 s1),
      xk ! (k + 3) XOR te0 ! unat (u8at 24 s3) XOR te1 ! unat (u8at 16 s0)
        XOR te2 ! unat (u8at 8 s1) XOR te3 ! unat (u8at 0 s2))"

fun dec_round :: "u32 list \<Rightarrow> nat \<Rightarrow> cols \<Rightarrow> cols" where
  "dec_round xk k (s0, s1, s2, s3) =
     (xk ! (k + 0) XOR td0 ! unat (u8at 24 s0) XOR td1 ! unat (u8at 16 s3)
        XOR td2 ! unat (u8at 8 s2) XOR td3 ! unat (u8at 0 s1),
      xk ! (k + 1) XOR td0 ! unat (u8at 24 s1) XOR td1 ! unat (u8at 16 s0)
        XOR td2 ! unat (u8at 8 s3) XOR td3 ! unat (u8at 0 s2),
      xk ! (k + 2) XOR td0 ! unat (u8at 24 s2) XOR td1 ! unat (u8at 16 s1)
        XOR td2 ! unat (u8at 8 s0) XOR td3 ! unat (u8at 0 s3),
      xk ! (k + 3) XOR td0 ! unat (u8at 24 s3) XOR td1 ! unat (u8at 16 s2)
        XOR td2 ! unat (u8at 8 s1) XOR td3 ! unat (u8at 0 s0))"

text \<open>
  The middle rounds: the loop \<open>for r := 0; r < c.rounds-1; r++\<close>, which carries the key
  index \<open>k\<close>, the columns \<open>s\<close> and the columns \<open>t\<close> of the last round executed.
\<close>

primrec mid_rounds :: "(nat \<Rightarrow> cols \<Rightarrow> cols) \<Rightarrow> nat \<Rightarrow> nat \<Rightarrow> cols \<Rightarrow> cols \<Rightarrow> nat \<times> cols" where
  "mid_rounds rnd 0 k s t = (k, t)"
| "mid_rounds rnd (Suc r) k s t =
     (let t' = rnd k s in mid_rounds rnd r (k + 4) t' t')"

text \<open>One S-box word of the last round, \<open>uint32(box[a>>24])<<24 | ...\<close>.\<close>

definition box_word :: "bytes \<Rightarrow> u32 \<Rightarrow> u32 \<Rightarrow> u32 \<Rightarrow> u32 \<Rightarrow> u32" where
  "box_word box a b c d =
     push_bit 24 (ucast (box ! unat (drop_bit 24 a))) OR
     push_bit 16 (ucast (box ! unat (drop_bit 16 b AND 0xff))) OR
     push_bit 8 (ucast (box ! unat (drop_bit 8 c AND 0xff))) OR
     ucast (box ! unat (d AND 0xff))"

fun enc_last :: "cols \<Rightarrow> cols" where
  "enc_last (t0, t1, t2, t3) =
     (box_word sbox0 t0 t1 t2 t3, box_word sbox0 t1 t2 t3 t0,
      box_word sbox0 t2 t3 t0 t1, box_word sbox0 t3 t0 t1 t2)"

fun dec_last :: "cols \<Rightarrow> cols" where
  "dec_last (t0, t1, t2, t3) =
     (box_word sbox1 t0 t3 t2 t1, box_word sbox1 t1 t0 t3 t2,
      box_word sbox1 t2 t1 t0 t3, box_word sbox1 t3 t2 t1 t0)"

text \<open>
  A round key array has 60 words, so more than 14 rounds would index past its end.
  The results are the bytes \<open>dst\<close> holds afterwards.
\<close>

definition encryptBlockGeneric :: "blockExpanded \<Rightarrow> bytes \<Rightarrow> bytes \<Rightarrow> bytes exec" where
  "encryptBlockGeneric c dst src =
     (if length src < 16 \<or> length dst < 16 \<or> rounds c > 14 then Panic ''index out of range'' else
      let xk = enc c;
          s = xor_key xk 0 (load_block src);
          (k, t) = mid_rounds (enc_round xk) (rounds c - 1) 4 s (0, 0, 0, 0)
      in Ret (store_block (xor_key xk k (enc_last t)) @ drop 16 dst))"

definition decryptBlockGeneric :: "blockExpanded \<Rightarrow> bytes \<Rightarrow> bytes \<Rightarrow> bytes exec" where
  "decryptBlockGeneric c dst src =
     (if length src < 16 \<or> length dst < 16 \<or> rounds c > 14 then Panic ''index out of range'' else
      let xk = dec c;
          s = xor_key xk 0 (load_block src);
          (k, t) = mid_rounds (dec_round xk) (rounds c - 1) 4 s (0, 0, 0, 0)
      in Ret (store_block (xor_key xk k (dec_last t)) @ drop 16 dst))"

definition subw :: "u32 \<Rightarrow> u32" where
  "subw w = box_word sbox0 w w w w"

definition rotw :: "u32 \<Rightarrow> u32" where
  "rotw w = push_bit 8 w OR drop_bit 24 w"

text \<open>
  \<open>expandKeyGeneric\<close>, in its three loops.  It is only called with a key of 16, 24 or 32
  bytes, so \<open>nk\<close> is not zero and every index is in range.
\<close>

definition load_key :: "bytes \<Rightarrow> nat \<Rightarrow> u32 list \<Rightarrow> u32 list" where
  "load_key key nk ws =
     fold (\<lambda>i ws. ws[i := get_u32 (take 4 (drop (4 * i) key))]) [0..<nk] ws"

definition key_word :: "nat \<Rightarrow> u32 list \<Rightarrow> nat \<Rightarrow> u32" where
  "key_word nk ws i =
     (let t = ws ! (i - 1);
          t' = (if i mod nk = 0
                then subw (rotw t) XOR push_bit 24 (ucast (powx ! (i div nk - 1)))
                else if nk > 6 \<and> i mod nk = 4 then subw t
                else t)
      in ws ! (i - nk) XOR t')"

definition expand_enc :: "nat \<Rightarrow> nat \<Rightarrow> u32 list \<Rightarrow> u32 list" where
  "expand_enc nk n ws = fold (\<lambda>i ws. ws[i := key_word nk ws i]) [nk..<n] ws"

definition dec_word :: "nat \<Rightarrow> nat \<Rightarrow> u32 \<Rightarrow> u32" where
  "dec_word n i x =
     (if i > 0 \<and> i + 4 < n
      then td0 ! unat (sbox0 ! unat (drop_bit 24 x))
           XOR td1 ! unat (sbox0 ! unat (drop_bit 16 x AND 0xff))
           XOR td2 ! unat (sbox0 ! unat (drop_bit 8 x AND 0xff))
           XOR td3 ! unat (sbox0 ! unat (x AND 0xff))
      else x)"

definition derive_block :: "nat \<Rightarrow> u32 list \<Rightarrow> nat \<Rightarrow> u32 list \<Rightarrow> u32 list" where
  "derive_block n es i ds =
     (let ei = n - i - 4
      in fold (\<lambda>j ds. ds[i + j := dec_word n i (es ! (ei + j))]) [0..<4] ds)"

definition derive_dec :: "nat \<Rightarrow> u32 list \<Rightarrow> u32 list \<Rightarrow> u32 list" where
  "derive_dec n es ds = fold (derive_block n es) (map (\<lambda>q. 4 * q) [0..<n div 4]) ds"

definition expandKeyGeneric :: "blockExpanded \<Rightarrow> bytes \<Rightarrow> blockExpanded" where
  "expandKeyGeneric c key =
     (let nk = length key div 4;
          es = expand_enc nk (roundKeysSize c) (load_key key nk (enc c));
          n = roundKeysSize c;
          ds = derive_dec n es (dec c)
      in c\<lparr>enc := es, dec := ds\<rparr>)"

definition newBlockExpanded :: "blockExpanded \<Rightarrow> bytes \<Rightarrow> blockExpanded" where
  "newBlockExpanded c key =
     (let c' = (if length key = aes128KeySize then c\<lparr>rounds := aes128Rounds\<rparr>
                else if length key = aes192KeySize then c\<lparr>rounds := aes192Rounds\<rparr>
                else if length key = aes256KeySize then c\<lparr>rounds := aes256Rounds\<rparr>
                else c)
      in expandKeyGeneric c' key)"

definition newBlock :: "blockExpanded \<Rightarrow> bytes \<Rightarrow> blockExpanded" where
  "newBlock c key = newBlockExpanded c key"

definition newOutlined :: "blockExpanded \<Rightarrow> bytes \<Rightarrow> blockExpanded exec" where
  "newOutlined b key =
     (if length key = aes128KeySize \<or> length key = aes192KeySize \<or> length key = aes256KeySize
      then Ret (newBlock b key) else Fail (KeySizeError (length key)))"

definition zeroBlock :: blockExpanded where
  "zeroBlock = \<lparr>rounds = 0, enc = replicate 60 0, dec = replicate 60 0\<rparr>"

definition aes_New :: "bytes \<Rightarrow> blockExpanded exec" where
  "aes_New key = newOutlined zeroBlock key"

definition encryptBlock :: "blockExpanded \<Rightarrow> bytes \<Rightarrow> bytes \<Rightarrow> bytes exec" where
  "encryptBlock c dst src = encryptBlockGeneric c dst src"

definition decryptBlock :: "blockExpanded \<Rightarrow> bytes \<Rightarrow> bytes \<Rightarrow> bytes exec" where
  "decryptBlock c dst src = decryptBlockGeneric c dst src"

definition EncryptBlockInternal :: "blockExpanded \<Rightarrow> bytes \<Rightarrow> bytes \<Rightarrow> bytes exec" where
  "EncryptBlockInternal c dst src = encryptBlock c dst src"

definition first_block :: "slice \<Rightarrow> slice" where
  "first_block x = x\<lparr>dat := take BlockSize (dat x)\<rparr>"

definition Encrypt :: "blockExpanded \<Rightarrow> slice \<Rightarrow> slice \<Rightarrow> bytes exec" where
  "Encrypt c dst src =
     (if slen src < BlockSize then Panic ''crypto/aes: input not full block''
      else if slen dst < BlockSize then Panic ''crypto/aes: output not full block''
      else if InexactOverlap (first_block dst) (first_block src)
      then Panic ''crypto/aes: invalid buffer overlap''
      else encryptBlock c (dat dst) (dat src))"

definition Decrypt :: "blockExpanded \<Rightarrow> slice \<Rightarrow> slice \<Rightarrow> bytes exec" where
  "Decrypt c dst src =
     (if slen src < BlockSize then Panic ''crypto/aes: input not full block''
      else if slen dst < BlockSize then Panic ''crypto/aes: output not full block''
      else if InexactOverlap (first_block dst) (first_block src)
      then Panic ''crypto/aes: invalid buffer overlap''
      else decryptBlock c (dat dst) (dat src))"

section \<open>Columns as four bytes\<close>

lemma bit_word4:
  "bit (word4 a b c d) n \<longleftrightarrow>
     (if n < 8 then bit d n else if n < 16 then bit c (n - 8)
      else if n < 24 then bit b (n - 16) else bit a (n - 24))"
  by (auto simp: word4_def bit_simps dest: bit_imp_le_length)

lemma bit_u8at: "bit (u8at k w) n \<longleftrightarrow> n < 8 \<and> bit w (k + n)"
  by (auto simp: u8at_def bit_simps)

lemma u8at_word4 [simp]:
  "u8at 24 (word4 a b c d) = a" "u8at 16 (word4 a b c d) = b"
  "u8at 8 (word4 a b c d) = c" "u8at 0 (word4 a b c d) = d"
  by (rule bit_word_eqI, simp add: bit_word4 bit_u8at)+

lemma word4_u8at [simp]: "word4 (u8at 24 w) (u8at 16 w) (u8at 8 w) (u8at 0 w) = w"
  by (rule bit_word_eqI) (auto simp: bit_word4 bit_u8at dest: bit_imp_le_length)

lemma word4_xor [simp, xor_simps]:
  "word4 a b c d XOR word4 a' b' c' d' =
     word4 (a XOR a') (b XOR b') (c XOR c') (d XOR d')"
  by (rule bit_word_eqI) (simp add: bit_word4 bit_xor_iff)

lemma unat_ucast32: "unat (ucast (x :: byte) :: u32) = unat x"
proof -
  have "unat x < 2 ^ 32"
    by (rule less_trans [OF unat_byte_less]) simp
  then show ?thesis
    by (simp add: unsigned_ucast_eq take_bit_nat_eq_self_iff)
qed

lemma u8at_drop [simp]: "u8at 0 (drop_bit k w) = u8at k w"
  by (simp add: u8at_def)

lemma unat_u8at:
  "unat (drop_bit 24 w) = unat (u8at 24 w)"
  "unat (drop_bit 16 w AND 0xff) = unat (u8at 16 w)"
  "unat (drop_bit 8 w AND 0xff) = unat (u8at 8 w)"
  "unat (w AND 0xff) = unat (u8at 0 w)"
proof -
  have mask: "(0xff :: u32) = mask 8"
    by (simp add: mask_eq_exp_minus_1)
  have "drop_bit 24 w = ucast (u8at 24 w)"
    by (rule bit_word_eqI) (auto simp: bit_u8at bit_simps dest: bit_imp_le_length)
  moreover have "drop_bit k w AND 0xff = ucast (u8at k w)" for k
    by (rule bit_word_eqI) (auto simp: mask bit_u8at bit_simps)
  from this [of 16] this [of 8] this [of 0] calculation show
    "unat (drop_bit 24 w) = unat (u8at 24 w)"
    "unat (drop_bit 16 w AND 0xff) = unat (u8at 16 w)"
    "unat (drop_bit 8 w AND 0xff) = unat (u8at 8 w)"
    "unat (w AND 0xff) = unat (u8at 0 w)"
    by (simp_all add: unat_ucast32)
qed

lemma box_word_word4:
  "box_word box a b c d =
     word4 (box ! unat (u8at 24 a)) (box ! unat (u8at 16 b))
       (box ! unat (u8at 8 c)) (box ! unat (u8at 0 d))"
  by (simp add: box_word_def word4_def unat_u8at)

section \<open>Rounds as column algebra\<close>

text \<open>MixColumns and its inverse on one packed column.\<close>

definition mixcol :: "u32 \<Rightarrow> u32" where
  "mixcol w =
     (let a = u8at 24 w; b = u8at 16 w; c = u8at 8 w; d = u8at 0 w
      in word4 (xtime a XOR mul3 b XOR c XOR d) (a XOR xtime b XOR mul3 c XOR d)
           (a XOR b XOR xtime c XOR mul3 d) (mul3 a XOR b XOR c XOR xtime d))"

definition invmixcol :: "u32 \<Rightarrow> u32" where
  "invmixcol w =
     (let a = u8at 24 w; b = u8at 16 w; c = u8at 8 w; d = u8at 0 w
      in word4 (mule a XOR mulb b XOR muld c XOR mul9 d)
           (mul9 a XOR mule b XOR mulb c XOR muld d)
           (muld a XOR mul9 b XOR mule c XOR mulb d)
           (mulb a XOR muld b XOR mul9 c XOR mule d))"

fun cols_map :: "(u32 \<Rightarrow> u32) \<Rightarrow> cols \<Rightarrow> cols" where
  "cols_map f (a, b, c, d) = (f a, f b, f c, f d)"

lemma xtime_xor [xor_simps]: "xtime (a XOR b) = xtime a XOR xtime b"
  by (auto simp: xtime_def bit_xor_iff push_bit_xor ac_simps)

lemma mul_xor [xor_simps]:
  "mul3 (a XOR b) = mul3 a XOR mul3 b" "mul9 (a XOR b) = mul9 a XOR mul9 b"
  "mulb (a XOR b) = mulb a XOR mulb b" "muld (a XOR b) = muld a XOR muld b"
  "mule (a XOR b) = mule a XOR mule b"
  by (simp_all add: mul3_def mul9_def mulb_def muld_def mule_def xtime_xor ac_simps)

lemma u8at_xor [simp]: "u8at k (a XOR b) = u8at k a XOR u8at k b"
  by (rule bit_word_eqI) (auto simp: bit_u8at bit_xor_iff)

lemma invmixcol_xor: "invmixcol (a XOR b) = invmixcol a XOR invmixcol b"
  by (simp add: invmixcol_def Let_def mul_xor ac_simps)

lemma invmixcol_mixcol: "invmixcol (mixcol w) = w"
proof -
  have "invmixcol (mixcol (word4 a b c d)) = word4 a b c d" for a b c d
    by (simp add: invmixcol_def mixcol_def Let_def mul3_def mul9_def mulb_def muld_def mule_def
          xtime_xor ac_simps)
  from this [of "u8at 24 w" "u8at 16 w" "u8at 8 w" "u8at 0 w"] show ?thesis
    by simp
qed

lemma te_mixcol:
  fixes a b c d :: byte
  shows "te0 ! unat a XOR te1 ! unat b XOR te2 ! unat c XOR te3 ! unat d =
     mixcol (word4 (sbox0 ! unat a) (sbox0 ! unat b) (sbox0 ! unat c) (sbox0 ! unat d))"
  by (simp add: te_nth mixcol_def Let_def ac_simps)

lemma td_invmixcol:
  fixes a b c d :: byte
  shows "td0 ! unat a XOR td1 ! unat b XOR td2 ! unat c XOR td3 ! unat d =
     invmixcol (word4 (sbox1 ! unat a) (sbox1 ! unat b) (sbox1 ! unat c) (sbox1 ! unat d))"
  by (simp add: td_nth invmixcol_def Let_def ac_simps)

lemma enc_round_algebra: "enc_round xk k s = xor_key xk k (cols_map mixcol (enc_last s))"
  by (cases s) (simp add: box_word_word4 te_mixcol [symmetric] xor.assoc xor.commute
      xor.left_commute)

lemma dec_round_algebra: "dec_round xk k s = xor_key xk k (cols_map invmixcol (dec_last s))"
  by (cases s) (simp add: box_word_word4 td_invmixcol [symmetric] xor.assoc xor.commute
      xor.left_commute)

lemma dec_last_enc_last: "dec_last (enc_last s) = s"
  by (cases s) (simp add: box_word_word4 sbox1_sbox0)

lemma dec_word_mid: "0 < i \<Longrightarrow> i + 4 < n \<Longrightarrow> dec_word n i x = invmixcol x"
  by (simp add: dec_word_def unat_u8at td_invmixcol sbox1_sbox0)

lemma dec_word_end: "i = 0 \<or> n \<le> i + 4 \<Longrightarrow> dec_word n i x = x"
  by (auto simp: dec_word_def)

section \<open>The key schedule\<close>

lemma length_fold_update [simp]:
  "length (fold (\<lambda>i ws. ws[g i := f ws i]) is ws) = length ws"
  by (induction "is" arbitrary: ws) auto

lemma length_load_key [simp]: "length (load_key key nk ws) = length ws"
  by (simp add: load_key_def)

lemma length_expand_enc [simp]: "length (expand_enc nk n ws) = length ws"
  by (simp add: expand_enc_def)

lemma length_derive_block [simp]: "length (derive_block n es i ds) = length ds"
  by (simp add: derive_block_def Let_def)

lemma length_derive_blocks [simp]: "length (fold (derive_block n es) is ds) = length ds"
  by (induction "is" arbitrary: ds) auto

lemma derive_block_nth:
  assumes "i + 4 \<le> length ds"
  shows "derive_block n es i ds ! m =
     (if i \<le> m \<and> m < i + 4 then dec_word n i (es ! (n - i - 4 + (m - i))) else ds ! m)"
proof -
  have four: "[0..<4] = [0, 1, 2, 3 :: nat]"
    by (simp add: upt_rec)
  show ?thesis
  proof (cases "i \<le> m \<and> m < i + 4")
    case True
    then have "m = i \<or> m = i + 1 \<or> m = i + 2 \<or> m = i + 3"
      by arith
    with assms show ?thesis
      by (auto simp: derive_block_def four Let_def nth_list_update)
  next
    case False
    then have "m \<noteq> i" "m \<noteq> i + 1" "m \<noteq> i + 2" "m \<noteq> i + 3"
      by auto
    then show ?thesis
      unfolding if_not_P [OF False] by (simp add: derive_block_def four Let_def)
  qed
qed

text \<open>Word \<open>m\<close> of the decryption schedule after \<open>q\<close> blocks of four have been written.\<close>

lemma derive_dec_nth:
  assumes "4 * q \<le> length ds" and "m < 4 * q"
  shows "fold (derive_block n es) (map (\<lambda>q. 4 * q) [0..<q]) ds ! m =
       dec_word n (4 * (m div 4)) (es ! (n - 4 * (m div 4) - 4 + m mod 4))"
  using assms
proof (induction q)
  case (Suc q)
  show ?case
  proof (cases "m < 4 * q")
    case True
    then show ?thesis
      using Suc by (simp add: derive_block_nth)
  next
    case False
    then obtain k where m: "m = 4 * q + k" and "k < 4"
      using Suc.prems by (metis add_diff_inverse_nat add_less_cancel_left mult_Suc_right add.commute)
    then have "m div 4 = q" "m mod 4 = k"
      by simp_all
    with m \<open>k < 4\<close> show ?thesis
      using Suc.prems by (simp add: derive_block_nth)
  qed
qed simp

lemma derive_dec_word:
  assumes "n = 4 * q" "n \<le> length ds" "i < q" "j < 4"
  shows "derive_dec n es ds ! (4 * i + j) = dec_word n (4 * i) (es ! (4 * (q - 1 - i) + j))"
proof -
  have idx: "4 * i + j < 4 * q" "(4 * i + j) div 4 = i" "(4 * i + j) mod 4 = j"
    using assms by auto
  have "derive_dec n es ds ! (4 * i + j) =
      dec_word n (4 * i) (es ! (n - 4 * i - 4 + j))"
    using derive_dec_nth [of q ds "4 * i + j" n es] assms(1,2) idx(1)
    unfolding derive_dec_def idx(2,3) by simp
  moreover have "n - 4 * i - 4 = 4 * (q - 1 - i)"
    using assms by simp
  ultimately show ?thesis
    by simp
qed

section \<open>Decryption inverts encryption\<close>

primrec round_state :: "(nat \<Rightarrow> cols \<Rightarrow> cols) \<Rightarrow> nat \<Rightarrow> cols \<Rightarrow> nat \<Rightarrow> cols" where
  "round_state rnd k s 0 = s"
| "round_state rnd k s (Suc m) = rnd (k + 4 * m) (round_state rnd k s m)"

lemma round_state_shift:
  "round_state rnd k s (Suc m) = round_state rnd (k + 4) (rnd k s) m"
  by (induction m) (simp_all add: algebra_simps)

lemma mid_rounds_state:
  "0 < r \<Longrightarrow> mid_rounds rnd r k s t = (k + 4 * r, round_state rnd k s r)"
proof (induction r arbitrary: k s t)
  case (Suc r)
  have "mid_rounds rnd (Suc r) k s t = (k + 4 + 4 * r, round_state rnd (k + 4) (rnd k s) r)"
  proof (cases "r = 0")
    case False
    then have "mid_rounds rnd r (k + 4) (rnd k s) (rnd k s) =
        (k + 4 + 4 * r, round_state rnd (k + 4) (rnd k s) r)"
      using Suc.IH by blast
    then show ?thesis
      by (simp add: Let_def)
  qed (simp add: Let_def)
  then show ?case
    by (simp only: round_state_shift) simp
qed simp

lemma xor_key_cancel: "xor_key xk k (xor_key xk' k' s) = s"
  if "\<And>j. j < 4 \<Longrightarrow> xk ! (k + j) = xk' ! (k' + j)"
proof (cases s)
  case (fields a b c d)
  then show ?thesis
    using that [of 0] that [of 1] that [of 2] that [of 3] by (simp add: xor.assoc)
qed

lemma xor_key_invmixcol:
  assumes "\<And>j. j < 4 \<Longrightarrow> xk ! (k + j) = invmixcol (xk' ! (k' + j))"
  shows "xor_key xk k (cols_map invmixcol (xor_key xk' k' s)) = cols_map invmixcol s"
proof (cases s)
  case (fields a b c d)
  then show ?thesis
    using assms [of 0] assms [of 1] assms [of 2] assms [of 3]
    by (simp add: invmixcol_xor xor.assoc)
qed

lemma cols_map_inverse: "cols_map invmixcol (cols_map mixcol s) = s"
  by (cases s) (simp add: invmixcol_mixcol)

text \<open>
  The relation between the two schedules: round key \<open>i\<close> of the decryption schedule is
  round key \<open>R - i\<close> of the encryption schedule, mixed except at the two ends.
\<close>

definition inverse_schedule :: "nat \<Rightarrow> u32 list \<Rightarrow> u32 list \<Rightarrow> bool" where
  "inverse_schedule R es ds \<longleftrightarrow>
     (\<forall>i\<le>R. \<forall>j<4. ds ! (4 * i + j) =
        (if 0 < i \<and> i < R then invmixcol (es ! (4 * (R - i) + j)) else es ! (4 * (R - i) + j)))"

lemma inverse_scheduleD:
  "inverse_schedule R es ds \<Longrightarrow> i \<le> R \<Longrightarrow> j < 4 \<Longrightarrow> ds ! (4 * i + j) =
     (if 0 < i \<and> i < R then invmixcol (es ! (4 * (R - i) + j)) else es ! (4 * (R - i) + j))"
  by (simp add: inverse_schedule_def)

lemma dec_rounds_undo:
  fixes x0 :: cols
  assumes sched: "inverse_schedule R es ds" and R: "m < R"
  defines "x \<equiv> round_state (enc_round es) 4 x0"
  shows "round_state (dec_round ds) 4 (enc_last (x (R - 1))) m = enc_last (x (R - 1 - m))"
  using R
proof (induction m)
  case (Suc m)
  let ?p = "R - 1 - Suc m"
  have idx: "R - 1 - m = Suc ?p" "R - Suc m = Suc ?p"
    using Suc.prems by auto
  have key: "ds ! (4 + 4 * m + j) = invmixcol (es ! (4 + 4 * ?p + j))" if "j < 4" for j
  proof -
    have "ds ! (4 * Suc m + j) = invmixcol (es ! (4 * (R - Suc m) + j))"
      using inverse_scheduleD [OF sched, of "Suc m" j] that Suc.prems by simp
    then show ?thesis
      unfolding idx by simp
  qed
  have "round_state (dec_round ds) 4 (enc_last (x (R - 1))) (Suc m) =
      dec_round ds (4 + 4 * m) (enc_last (x (Suc ?p)))"
    using Suc idx by simp
  also have "\<dots> = xor_key ds (4 + 4 * m) (cols_map invmixcol (x (Suc ?p)))"
    by (simp add: dec_round_algebra dec_last_enc_last)
  also have "x (Suc ?p) = xor_key es (4 + 4 * ?p) (cols_map mixcol (enc_last (x ?p)))"
    by (simp add: x_def enc_round_algebra)
  also have "xor_key ds (4 + 4 * m) (cols_map invmixcol \<dots>) =
      cols_map invmixcol (cols_map mixcol (enc_last (x ?p)))"
    using key by (rule xor_key_invmixcol)
  finally show ?case
    by (simp add: cols_map_inverse)
qed simp

lemma load_store_block [simp]: "load_block (store_block s @ rest) = s"
  by (cases s) (simp add: load_block_def)

lemma store_load_block:
  assumes "length src = 16"
  shows "store_block (load_block src) = src"
proof -
  have "take 16 src =
      take 4 src @ take 4 (drop 4 src) @ take 4 (drop 8 src) @ take 4 (drop 12 src)"
    using take_add [of 4 12 src] take_add [of 4 8 "drop 4 src"] take_add [of 4 4 "drop 8 src"]
    by simp
  with assms show ?thesis
    by (simp add: load_block_def)
qed

lemma length_store_block [simp]: "length (store_block s) = 16"
  by (cases s) simp

definition wf_block :: "blockExpanded \<Rightarrow> bool" where
  "wf_block c \<longleftrightarrow>
     1 < rounds c \<and> rounds c \<le> 14 \<and> inverse_schedule (rounds c) (enc c) (dec c)"

lemma decrypt_encrypt_generic:
  assumes wf: "wf_block c" and src: "length src = 16"
    and e: "encryptBlockGeneric c dst src = Ret ct" and dst': "16 \<le> length dst'"
  shows "decryptBlockGeneric c dst' ct = Ret (src @ drop 16 dst')"
proof -
  let ?R = "rounds c" and ?es = "enc c" and ?ds = "dec c"
  define x where "x = round_state (enc_round ?es) 4 (xor_key ?es 0 (load_block src))"
  have R: "0 < ?R - 1" "4 + 4 * (?R - 1) = 4 * ?R"
    using wf by (auto simp: wf_block_def)
  have ct: "ct = store_block (xor_key ?es (4 * ?R) (enc_last (x (?R - 1)))) @ drop 16 dst"
    using e R by (simp add: encryptBlockGeneric_def mid_rounds_state x_def Let_def split: if_splits)
  have sched: "inverse_schedule ?R ?es ?ds"
    using wf by (simp add: wf_block_def)
  have first: "xor_key ?ds 0 (load_block ct) = enc_last (x (?R - 1))"
    unfolding ct load_store_block
    using inverse_scheduleD [OF sched, of 0] by (intro xor_key_cancel) simp
  have mid: "round_state (dec_round ?ds) 4 (enc_last (x (?R - 1))) (?R - 1) = enc_last (x 0)"
    using dec_rounds_undo [OF sched, of "?R - 1"] R by (simp add: x_def)
  have last: "xor_key ?ds (4 * ?R) (dec_last (enc_last (x 0))) = load_block src"
    unfolding x_def dec_last_enc_last round_state.simps
    using inverse_scheduleD [OF sched, of ?R] by (intro xor_key_cancel) simp
  have "length ct \<ge> 16" and "\<not> ?R > 14"
    using wf by (simp_all add: ct wf_block_def)
  with R dst' show ?thesis
    by (simp add: decryptBlockGeneric_def mid_rounds_state Let_def first mid last store_load_block src
        del: One_nat_def)
qed

lemma wf_new: "aes_New key = Ret c \<Longrightarrow> wf_block c"
proof -
  assume new: "aes_New key = Ret c"
  then have len: "length key \<in> {16, 24, 32}"
    by (auto simp: aes_New_def newOutlined_def aes128KeySize_def aes192KeySize_def
        aes256KeySize_def split: if_splits)
  let ?R = "rounds c" and ?n = "4 * (rounds c + 1)"
  from new have c: "c = newBlock zeroBlock key"
    by (auto simp: aes_New_def newOutlined_def split: if_splits)
  have R: "?R \<in> {10, 12, 14}"
    using len by (auto simp: c newBlock_def newBlockExpanded_def expandKeyGeneric_def Let_def
        aes128KeySize_def aes192KeySize_def aes256KeySize_def
        aes128Rounds_def aes192Rounds_def aes256Rounds_def)
  have dec: "dec c = derive_dec ?n (enc c) (replicate 60 0)"
    by (simp add: c newBlock_def newBlockExpanded_def expandKeyGeneric_def Let_def
        roundKeysSize_def zeroBlock_def mult.commute)
  have "dec c ! (4 * i + j) = dec_word ?n (4 * i) (enc c ! (4 * (?R - i) + j))"
    if "i \<le> ?R" "j < 4" for i j
    using derive_dec_word [of ?n "?R + 1" "replicate 60 0" i j "enc c"] that R dec by auto
  then have "inverse_schedule ?R (enc c) (dec c)"
    by (auto simp: inverse_schedule_def dec_word_mid dec_word_end)
  with R show "wf_block c"
    by (auto simp: wf_block_def)
qed

section \<open>Properties\<close>

text \<open>C39: for every key that \<open>New\<close> accepts, \<open>Decrypt\<close> undoes \<open>Encrypt\<close>: if \<open>Encrypt\<close>
  of a 16-byte block returns, then decrypting what it wrote (into a buffer that does not
  overlap the ciphertext inexactly) gives back the block.\<close>

theorem decrypt_inverts_encrypt:
  assumes "aes_New key = Ret c"
    and "slen src = BlockSize" and "slen dst = BlockSize" and "slen dst' = BlockSize"
    and "Encrypt c dst src = Ret ct" and "dat mid = ct" and "\<not> InexactOverlap dst' mid"
  shows "Decrypt c dst' mid = Ret (dat src)"
proof -
  have e: "encryptBlockGeneric c (dat dst) (dat src) = Ret ct"
    using assms(5) by (auto simp: Encrypt_def encryptBlock_def split: if_splits)
  then have len: "length ct = 16"
    using assms(2,3) by (auto simp: encryptBlockGeneric_def Let_def BlockSize_def
        split: if_splits prod.splits)
  have "decryptBlockGeneric c (dat dst') ct = Ret (dat src)"
    using decrypt_encrypt_generic [OF wf_new [OF assms(1)] _ e] assms(2,4)
    by (simp add: BlockSize_def)
  moreover have "first_block dst' = dst'" "first_block mid = mid"
    using assms(4,6) len by (simp_all add: first_block_def BlockSize_def)
  ultimately show ?thesis
    using assms(4,6,7) len by (simp add: Decrypt_def decryptBlock_def BlockSize_def)
qed

lemma encrypt_total:
  assumes "aes_New key = Ret c" and "slen src = BlockSize" and "slen dst = BlockSize"
    and "\<not> InexactOverlap dst src"
  shows "\<exists>ct. Encrypt c dst src = Ret ct \<and> length ct = BlockSize"
proof -
  have "first_block dst = dst" "first_block src = src" "rounds c \<le> 14"
    using assms(2,3) wf_new [OF assms(1)] by (simp_all add: first_block_def wf_block_def)
  then show ?thesis
    using assms by (simp add: Encrypt_def encryptBlock_def encryptBlockGeneric_def BlockSize_def
        Let_def split: prod.splits)
qed

lemma aes_New_total: "length key \<in> {16, 24, 32} \<Longrightarrow> \<exists>c. aes_New key = Ret c"
  by (auto simp: aes_New_def newOutlined_def aes128KeySize_def aes192KeySize_def
      aes256KeySize_def)

definition byte_slice :: "nat \<Rightarrow> bytes \<Rightarrow> slice" where
  "byte_slice p bs = \<lparr>ptr = p, dat = bs, spare = []\<rparr>"

lemma byte_slice_simps [simp]: "dat (byte_slice p bs) = bs" "ptr (byte_slice p bs) = p"
  "spare (byte_slice p bs) = []"
  by (simp_all add: byte_slice_def)

theorem decrypt_inverts_encrypt_witness:
  "\<exists>c ct. aes_New (map of_nat [0..<32]) = Ret c \<and>
     Encrypt c (byte_slice 100 (replicate 16 0)) (byte_slice 100 (map of_nat [0..<16])) = Ret ct \<and>
     Decrypt c (byte_slice 300 (replicate 16 7)) (byte_slice 100 ct) = Ret (map of_nat [0..<16])"
proof -
  let ?dst = "byte_slice 100 (replicate 16 0)" and ?src = "byte_slice 100 (map of_nat [0..<16])"
  obtain c where c: "aes_New (map of_nat [0..<32]) = Ret c"
    using aes_New_total [of "map of_nat [0..<32]"] by auto
  obtain ct where ct: "Encrypt c ?dst ?src = Ret ct" "length ct = BlockSize"
    using encrypt_total [OF c, of ?src ?dst] by (auto simp: BlockSize_def InexactOverlap_def)
  have "Decrypt c (byte_slice 300 (replicate 16 7)) (byte_slice 100 ct) = Ret (dat ?src)"
    by (rule decrypt_inverts_encrypt [OF c _ _ _ ct(1)])
      (simp_all add: ct(2) BlockSize_def InexactOverlap_def AnyOverlap_def)
  with c ct show ?thesis
    by auto
qed

end
