(* ===== verification/Ghash.thy ===== *)
theory Ghash
  imports Prelude
begin

text \<open>
  \<open>gcm/ghash.go\<close>: the universal hash of GCM, computed four bits at a time from a table
  of sixteen multiples of the key.  The reference it is compared with is the
  bit-serial multiplication of NIST SP 800-38D (Algorithm 1) and the GHASH function
  built on it (Algorithm 2).
\<close>

section \<open>The model of \<open>ghash.go\<close>\<close>

definition gcmBlockSize :: nat where "gcmBlockSize = 16"

record gcmFieldElement =
  low :: u64
  high :: u64

type_synonym product_table = "gcmFieldElement list"

definition zeroFE :: gcmFieldElement where "zeroFE = \<lparr>low = 0, high = 0\<rparr>"

definition reverseBits :: "nat \<Rightarrow> nat" where
  "reverseBits i =
     (let i1 = (push_bit 2 i AND 0xc) OR (drop_bit 2 i AND 0x3)
      in (push_bit 1 i1 AND 0xa) OR (drop_bit 1 i1 AND 0x5))"

definition ghashAdd :: "gcmFieldElement \<Rightarrow> gcmFieldElement \<Rightarrow> gcmFieldElement" where
  "ghashAdd x y = \<lparr>low = low x XOR low y, high = high x XOR high y\<rparr>"

definition ghashDouble :: "gcmFieldElement \<Rightarrow> gcmFieldElement" where
  "ghashDouble x =
     (let msbSet = (high x AND 1 = 1);
          hi = drop_bit 1 (high x) OR push_bit 63 (low x);
          lo = drop_bit 1 (low x)
      in \<lparr>low = (if msbSet then lo XOR 0xe100000000000000 else lo), high = hi\<rparr>)"

definition ghashReductionTable :: "u16 list" where
  "ghashReductionTable =
     [0x0000, 0x1c20, 0x3840, 0x2460, 0x7080, 0x6ca0, 0x48c0, 0x54e0,
      0xe100, 0xfd20, 0xd940, 0xc560, 0x9180, 0x8da0, 0xa9c0, 0xb5e0]"

text \<open>One iteration of the inner loop of \<open>ghashMul\<close>, on the running \<open>z\<close> and \<open>word\<close>.\<close>

definition ghashMul_step ::
  "product_table \<Rightarrow> gcmFieldElement \<times> u64 \<Rightarrow> gcmFieldElement \<times> u64" where
  "ghashMul_step productTable = (\<lambda>(z, word).
     let msw = high z AND 0xf;
         hi = drop_bit 4 (high z) OR push_bit 60 (low z);
         lo = drop_bit 4 (low z) XOR push_bit 48 (ucast (ghashReductionTable ! unat msw));
         t = productTable ! unat (word AND 0xf)
     in (\<lparr>low = lo XOR low t, high = hi XOR high t\<rparr>, drop_bit 4 word))"

definition ghashMul_word ::
  "product_table \<Rightarrow> u64 \<Rightarrow> gcmFieldElement \<Rightarrow> gcmFieldElement" where
  "ghashMul_word productTable word z = fst ((ghashMul_step productTable ^^ 16) (z, word))"

definition ghashMul :: "product_table \<Rightarrow> gcmFieldElement \<Rightarrow> gcmFieldElement" where
  "ghashMul productTable y =
     ghashMul_word productTable (low y) (ghashMul_word productTable (high y) zeroFE)"

text \<open>
  \<open>updateBlocks\<close> reads whole blocks, and indexing past the end of a short last block
  would panic.
\<close>

function updateBlocks ::
  "product_table \<Rightarrow> gcmFieldElement \<Rightarrow> bytes \<Rightarrow> gcmFieldElement exec" where
  "updateBlocks productTable y blocks =
     (if blocks = [] then Ret y
      else if length blocks < 16 then Panic ''index out of range''
      else updateBlocks productTable
             (ghashMul productTable
               \<lparr>low = low y XOR get_u64 (take 8 blocks),
                high = high y XOR get_u64 (take 8 (drop 8 blocks))\<rparr>)
             (drop gcmBlockSize blocks))"
  by auto
termination
  by (relation "measure (\<lambda>(_, _, blocks). length blocks)") (auto simp: gcmBlockSize_def)

declare updateBlocks.simps [simp del]

definition ghashUpdate ::
  "product_table \<Rightarrow> gcmFieldElement \<Rightarrow> bytes \<Rightarrow> gcmFieldElement exec" where
  "ghashUpdate productTable y data =
     (let fullBlocks = push_bit 4 (drop_bit 4 (length data))
      in exec_bind (updateBlocks productTable y (take fullBlocks data)) (\<lambda>y.
         if length data \<noteq> fullBlocks
         then updateBlocks productTable y (go_copy (replicate gcmBlockSize 0) (drop fullBlocks data))
         else Ret y))"

definition productTable :: "gcmFieldElement \<Rightarrow> product_table" where
  "productTable x =
     fold (\<lambda>i t. let t' = t[reverseBits i := ghashDouble (t ! reverseBits (i div 2))]
                 in t'[reverseBits (i + 1) := ghashAdd (t' ! reverseBits i) x])
       [2, 4, 6, 8, 10, 12, 14]
       ((replicate 16 zeroFE)[reverseBits 1 := x])"

primrec ghash_inputs ::
  "product_table \<Rightarrow> gcmFieldElement \<Rightarrow> bytes list \<Rightarrow> gcmFieldElement exec" where
  "ghash_inputs t y [] = Ret y"
| "ghash_inputs t y (input # inputs) =
     exec_bind (ghashUpdate t y input) (\<lambda>y. ghash_inputs t y inputs)"

definition load_fe :: "bytes \<Rightarrow> gcmFieldElement" where
  "load_fe bs = \<lparr>low = get_u64 (take 8 bs), high = get_u64 (take 8 (drop 8 bs))\<rparr>"

definition store_fe :: "gcmFieldElement \<Rightarrow> bytes" where
  "store_fe y = put_u64 (low y) @ put_u64 (high y)"

definition ghash :: "bytes \<Rightarrow> bytes list \<Rightarrow> bytes exec" where
  "ghash H inputs =
     exec_bind (ghash_inputs (productTable (load_fe H)) zeroFE inputs) (\<lambda>y. Ret (store_fe y))"

definition GHASH :: "bytes \<Rightarrow> bytes list \<Rightarrow> bytes exec" where
  "GHASH key inputs = ghash key inputs"

section \<open>The reference\<close>

text \<open>
  The coefficients of a field element, that of \<open>x^0\<close> first, and Algorithm 1 of
  SP 800-38D: \<open>Z\<close> collects the multiples \<open>V\<close> selected by the bits of \<open>X\<close>.
\<close>

definition coeffs :: "gcmFieldElement \<Rightarrow> bool list" where
  "coeffs x = map (\<lambda>i. bit (low x) (63 - i)) [0..<64] @ map (\<lambda>i. bit (high x) (63 - i)) [0..<64]"

primrec mul_serial :: "bool list \<Rightarrow> gcmFieldElement \<Rightarrow> gcmFieldElement \<Rightarrow> gcmFieldElement" where
  "mul_serial [] z v = z"
| "mul_serial (b # bs) z v = mul_serial bs (if b then ghashAdd z v else z) (ghashDouble v)"

definition gf_mul :: "gcmFieldElement \<Rightarrow> gcmFieldElement \<Rightarrow> gcmFieldElement" where
  "gf_mul x y = mul_serial (coeffs x) zeroFE y"

text \<open>Zero padding to whole blocks, and GHASH by Horner's rule over the blocks.\<close>

definition pad16 :: "bytes \<Rightarrow> bytes" where
  "pad16 bs = bs @ replicate ((16 - length bs mod 16) mod 16) 0"

function blocks16 :: "bytes \<Rightarrow> bytes list" where
  "blocks16 bs = (if length bs < 16 then [] else take 16 bs # blocks16 (drop 16 bs))"
  by auto
termination
  by (relation "measure length") auto

declare blocks16.simps [simp del]

definition ghash_ref :: "bytes \<Rightarrow> bytes \<Rightarrow> bytes" where
  "ghash_ref H X =
     store_fe (fold (\<lambda>b y. gf_mul (ghashAdd y (load_fe b)) (load_fe H)) (blocks16 X) zeroFE)"

section \<open>Linearity of doubling\<close>

lemma fe_eqI: "low x = low y \<Longrightarrow> high x = high y \<Longrightarrow> x = (y :: gcmFieldElement)"
  by (cases x, cases y) simp

lemma ghashAdd_simps [simp]:
  "low (ghashAdd x y) = low x XOR low y" "high (ghashAdd x y) = high x XOR high y"
  by (simp_all add: ghashAdd_def)

lemma zeroFE_simps [simp]: "low zeroFE = 0" "high zeroFE = 0"
  by (simp_all add: zeroFE_def)

lemma ghashAdd_ac [xor_simps]:
  "ghashAdd (ghashAdd x y) z = ghashAdd x (ghashAdd y z)"
  "ghashAdd x y = ghashAdd y x"
  "ghashAdd x (ghashAdd y z) = ghashAdd y (ghashAdd x z)"
  by (rule fe_eqI; simp add: ac_simps)+

lemma ghashAdd_zero [simp]: "ghashAdd x zeroFE = x" "ghashAdd zeroFE x = x"
  by (rule fe_eqI; simp)+

lemma odd_word: "(w AND 1 = 1) = bit w 0" for w :: u64
  by (simp add: and_one_eq odd_iff_mod_2_eq_one bit_0)

lemma ghashDouble_simps:
  "low (ghashDouble x) = drop_bit 1 (low x) XOR (if bit (high x) 0 then 0xe100000000000000 else 0)"
  "high (ghashDouble x) = drop_bit 1 (high x) XOR push_bit 63 (low x)"
proof -
  have "drop_bit 1 (high x) OR push_bit 63 (low x) = drop_bit 1 (high x) XOR push_bit 63 (low x)"
    by (rule bit_word_eqI) (auto simp: bit_simps dest: bit_imp_le_length)
  then show "low (ghashDouble x) = drop_bit 1 (low x) XOR (if bit (high x) 0 then 0xe100000000000000 else 0)"
    "high (ghashDouble x) = drop_bit 1 (high x) XOR push_bit 63 (low x)"
    by (simp_all add: ghashDouble_def Let_def odd_word)
qed

lemma ghashDouble_add: "ghashDouble (ghashAdd x y) = ghashAdd (ghashDouble x) (ghashDouble y)"
  by (rule fe_eqI) (simp_all add: ghashDouble_simps drop_bit_xor push_bit_xor bit_xor_iff ac_simps)

lemma ghashDouble_zero [simp]: "ghashDouble zeroFE = zeroFE"
  by (rule fe_eqI) (simp_all add: ghashDouble_simps)

section \<open>Four bits at a time\<close>

lemma nibble_cases:
  "unat (w AND 0xf) = of_bool (bit w 0) + 2 * of_bool (bit w 1) + 4 * of_bool (bit w 2)
     + 8 * of_bool (bit w 3)" for w :: u64
proof -
  have "w AND 0xf = take_bit 4 w"
    by (simp add: take_bit_eq_mask mask_eq_exp_minus_1)
  then have "unat (w AND 0xf) = take_bit 4 (unat w)"
    by (simp add: unsigned_take_bit_eq)
  also have "\<dots> = of_bool (bit w 0) + 2 * of_bool (bit w 1) + 4 * of_bool (bit w 2)
     + 8 * of_bool (bit w 3)"
    by (simp add: numeral_eq_Suc take_bit_Suc_from_most bit_unsigned_iff)
  finally show ?thesis .
qed

text \<open>The shift and reduction of one step of \<open>ghashMul\<close> is four doublings.\<close>

definition shift4 :: "gcmFieldElement \<Rightarrow> gcmFieldElement" where
  "shift4 z =
     \<lparr>low = drop_bit 4 (low z) XOR push_bit 48 (ucast (ghashReductionTable ! unat (high z AND 0xf))),
      high = drop_bit 4 (high z) OR push_bit 60 (low z)\<rparr>"

text \<open>The reduction constant shifted right by 0 to 3 places, selected by a bit.\<close>

definition red :: "nat \<Rightarrow> bool \<Rightarrow> u64" where
  "red k b = (if b then drop_bit k 0xe100000000000000 else 0)"

lemma red_values:
  "red 0 True = 0xe100000000000000" "red 1 True = 0x7080000000000000"
  "red 2 True = 0x3840000000000000" "red 3 True = 0x1c20000000000000"
  by code_simp+

lemma drop_red: "drop_bit 1 (red k b) = red (k + 1) b"
  by (simp add: red_def drop_bit_drop_bit)

lemma red_even: "k \<le> 3 \<Longrightarrow> \<not> bit (red k b) 0"
proof -
  have "\<forall>k\<in>{0, 1, 2, 3}. \<not> bit (red k True) 0"
    by code_simp
  then show "k \<le> 3 \<Longrightarrow> \<not> bit (red k b) 0"
    by (cases b) (auto simp: red_def numeral_eq_Suc le_Suc_eq)
qed

lemma double_once:
  assumes "k < 4" and "\<not> bit r 0"
    and "low x = drop_bit k l XOR r" and "high x = drop_bit k h XOR push_bit (64 - k) l"
  shows "low (ghashDouble x) = drop_bit (k + 1) l XOR drop_bit 1 r XOR red 0 (bit h k)"
    and "high (ghashDouble x) = drop_bit (k + 1) h XOR push_bit (63 - k) l"
proof -
  have "bit (high x) 0 = bit h k"
    using assms(1,4) by (simp add: bit_simps)
  then show "low (ghashDouble x) = drop_bit (k + 1) l XOR drop_bit 1 r XOR red 0 (bit h k)"
    using assms(3) by (simp add: ghashDouble_simps red_def drop_bit_xor drop_bit_drop_bit ac_simps
        del: One_nat_def)
  have "drop_bit 1 (push_bit (64 - k) l) XOR push_bit 63 (low x) = push_bit (63 - k) l"
  proof (rule bit_word_eqI)
    fix n
    assume "n < LENGTH(64)"
    then show "bit (drop_bit 1 (push_bit (64 - k) l) XOR push_bit 63 (low x)) n =
        bit (push_bit (63 - k) l) n"
      using assms(1,2,3) by (cases "n = 63") (auto simp: bit_simps)
  qed
  then show "high (ghashDouble x) = drop_bit (k + 1) h XOR push_bit (63 - k) l"
    using assms(4) by (simp add: ghashDouble_simps drop_bit_xor drop_bit_drop_bit ac_simps
        del: One_nat_def)
qed

lemma reduction_table:
  "push_bit 48 (ucast (ghashReductionTable ! unat (h AND 0xf))) =
     red 3 (bit h 0) XOR red 2 (bit h 1) XOR red 1 (bit h 2) XOR red 0 (bit h 3)" for h :: u64
proof -
  have "\<forall>a b c d. push_bit 48 (ucast (ghashReductionTable !
      (of_bool a + 2 * of_bool b + 4 * of_bool c + 8 * of_bool d))) =
      red 3 a XOR red 2 b XOR red 1 c XOR red 0 d"
    by code_simp
  then show ?thesis
    by (simp add: nibble_cases)
qed

lemma shift4_double:
  "shift4 z = ghashDouble (ghashDouble (ghashDouble (ghashDouble z)))"
proof -
  let ?l = "low z" and ?h = "high z" and ?D = ghashDouble
  define r1 r2 r3 where "r1 = red 0 (bit ?h 0)"
    and "r2 = red 1 (bit ?h 0) XOR red 0 (bit ?h 1)"
    and "r3 = red 2 (bit ?h 0) XOR red 1 (bit ?h 1) XOR red 0 (bit ?h 2)"
  have even: "\<not> bit r1 0" "\<not> bit r2 0" "\<not> bit r3 0"
    by (simp_all add: r1_def r2_def r3_def bit_xor_iff red_even del: One_nat_def)
  have drop: "drop_bit 1 r1 = red 1 (bit ?h 0)"
    "drop_bit 1 r2 = red 2 (bit ?h 0) XOR red 1 (bit ?h 1)"
    "drop_bit 1 r3 = red 3 (bit ?h 0) XOR red 2 (bit ?h 1) XOR red 1 (bit ?h 2)"
    by (simp_all add: r1_def r2_def r3_def drop_bit_xor drop_red del: One_nat_def)
  have push: "push_bit 64 ?l = 0"
    by (rule bit_word_eqI) (simp add: bit_simps)
  note d1 = double_once [where k = 0 and r = 0 and l = ?l and h = ?h and x = z]
  have d1: "low (?D z) = drop_bit 1 ?l XOR r1" "high (?D z) = drop_bit 1 ?h XOR push_bit 63 ?l"
    using d1 push by (simp_all add: r1_def del: One_nat_def)
  note d2 = double_once [where k = 1 and r = r1 and l = ?l and h = ?h and x = "?D z"]
  have d2: "low (?D (?D z)) = drop_bit 2 ?l XOR r2"
    "high (?D (?D z)) = drop_bit 2 ?h XOR push_bit 62 ?l"
    using d2 d1 even by (simp_all add: drop r2_def xor.assoc numeral_2_eq_2 [symmetric] del: One_nat_def)
  note d3 = double_once [where k = 2 and r = r2 and l = ?l and h = ?h and x = "?D (?D z)"]
  have d3: "low (?D (?D (?D z))) = drop_bit 3 ?l XOR r3"
    "high (?D (?D (?D z))) = drop_bit 3 ?h XOR push_bit 61 ?l"
    using d3 d2 even by (simp_all add: drop r3_def xor.assoc del: One_nat_def)
  note d4 = double_once [where k = 3 and r = r3 and l = ?l and h = ?h and x = "?D (?D (?D z))"]
  have "drop_bit 4 ?h OR push_bit 60 ?l = drop_bit 4 ?h XOR push_bit 60 ?l"
    by (rule bit_word_eqI) (auto simp: bit_simps dest: bit_imp_le_length)
  then show ?thesis
    using d4 d3 even
    by (intro fe_eqI) (simp_all add: drop shift4_def reduction_table xor.assoc del: One_nat_def)
qed

section \<open>The table of multiples\<close>

definition sel :: "bool \<Rightarrow> gcmFieldElement \<Rightarrow> gcmFieldElement" where
  "sel b x = (if b then x else zeroFE)"

lemma sel_double: "ghashDouble (sel b x) = sel b (ghashDouble x)"
  by (simp add: sel_def)

lemma productTable_eq:
  fixes x :: gcmFieldElement
  defines "d1 \<equiv> ghashDouble x"
  defines "d2 \<equiv> ghashDouble d1"
  defines "d3 \<equiv> ghashDouble d2"
  shows "productTable x =
     [zeroFE, d3, d2, ghashAdd d2 d3, d1, ghashAdd d1 d3, ghashAdd d1 d2, ghashAdd d1 (ghashAdd d2 d3),
      x, ghashAdd x d3, ghashAdd x d2, ghashAdd x (ghashAdd d2 d3),
      ghashAdd x d1, ghashAdd x (ghashAdd d1 d3), ghashAdd x (ghashAdd d1 d2),
      ghashAdd x (ghashAdd d1 (ghashAdd d2 d3))]"
proof -
  have rev: "map reverseBits [0..<16] = [0, 8, 4, 12, 2, 10, 6, 14, 1, 9, 5, 13, 3, 11, 7, 15]"
    by code_simp
  have sixteen: "replicate 16 z = [z, z, z, z, z, z, z, z, z, z, z, z, z, z, z, z]"
    for z :: gcmFieldElement
    by (simp add: numeral_eq_Suc)
  have "reverseBits i = [0, 8, 4, 12, 2, 10, 6, 14, 1, 9, 5, 13, 3, 11, 7, 15] ! i" if "i < 16" for i
    using that nth_map [of i "[0..<16]" reverseBits] unfolding rev by simp
  then show ?thesis
    by (simp add: productTable_def Let_def sixteen d1_def d2_def d3_def
        ghashDouble_add ghashAdd_ac)
qed

lemma productTable_nth:
  "productTable x ! unat (w AND 0xf) =
     ghashAdd (sel (bit w 3) x) (ghashAdd (sel (bit w 2) (ghashDouble x))
       (ghashAdd (sel (bit w 1) (ghashDouble (ghashDouble x)))
         (sel (bit w 0) (ghashDouble (ghashDouble (ghashDouble x))))))" for w :: u64
  unfolding nibble_cases productTable_eq
  by (cases "bit w 0"; cases "bit w 1"; cases "bit w 2"; cases "bit w 3")
    (simp_all add: sel_def del: One_nat_def)

section \<open>Multiplication by Horner's rule\<close>

text \<open>Coefficients from the highest power down.\<close>

definition horner :: "gcmFieldElement \<Rightarrow> bool list \<Rightarrow> gcmFieldElement \<Rightarrow> gcmFieldElement" where
  "horner x bs z = fold (\<lambda>b z. ghashAdd (ghashDouble z) (sel b x)) bs z"

lemma horner_simps [simp]:
  "horner x [] z = z"
  "horner x (b # bs) z = horner x bs (ghashAdd (ghashDouble z) (sel b x))"
  "horner x (bs @ cs) z = horner x cs (horner x bs z)"
  by (simp_all add: horner_def)

lemma ghashMul_step_horner:
  "ghashMul_step (productTable x) (z, w) =
     (horner x [bit w 0, bit w 1, bit w 2, bit w 3] z, drop_bit 4 w)"
proof -
  have "ghashMul_step (productTable x) (z, w) =
      (ghashAdd (shift4 z) (productTable x ! unat (w AND 0xf)), drop_bit 4 w)"
    by (simp add: ghashMul_step_def shift4_def Let_def ghashAdd_def)
  then show ?thesis
    by (simp add: shift4_double productTable_nth ghashDouble_add sel_double ghashAdd_ac
        del: One_nat_def)
qed

lemma ghashMul_steps:
  "(ghashMul_step (productTable x) ^^ n) (z, w) =
     (horner x (map (bit w) [0..<4 * n]) z, drop_bit (4 * n) w)"
proof (induction n)
  case (Suc n)
  have "[0..<4 * Suc n] = [0..<4 * n] @ [4 * n, 4 * n + 1, 4 * n + 2, 4 * n + 3]"
    by (simp add: numeral_eq_Suc)
  then show ?case
    using Suc by (simp add: ghashMul_step_horner bit_drop_bit_eq drop_bit_drop_bit add.commute
        del: One_nat_def)
qed simp

lemma ghashMul_word_horner:
  "ghashMul_word (productTable x) w z = horner x (map (bit w) [0..<64]) z"
  by (simp add: ghashMul_word_def ghashMul_steps)

lemma mul_serial_horner:
  "mul_serial bs z v = ghashAdd z (horner v (rev bs) zeroFE)"
proof (induction bs arbitrary: z v)
  case (Cons b bs)
  have double: "horner (ghashDouble v) cs (ghashDouble y) = ghashDouble (horner v cs y)" for cs y
    by (induction cs arbitrary: y) (simp_all add: ghashDouble_add [symmetric] sel_double [symmetric])
  show ?case
    using Cons double [of "rev bs" zeroFE]
    by (simp add: sel_def ghashAdd_ac)
qed simp

lemma ghashMul_gf_mul: "ghashMul (productTable x) y = gf_mul y x"
proof -
  have "rev (map (\<lambda>i. bit w (63 - i)) [0..<64]) = map (bit w) [0..<64]" for w :: u64
  proof (rule nth_equalityI)
    fix i
    assume "i < length (rev (map (\<lambda>i. bit w (63 - i)) [0..<64]))"
    then have "i < 64" "[0..<64] ! (63 - i) = 63 - i" "[0..<64] ! i = i"
      by (simp_all add: nth_upt [of 0 _ 64, simplified])
    then show "rev (map (\<lambda>i. bit w (63 - i)) [0..<64]) ! i = map (bit w) [0..<64] ! i"
      by (simp add: rev_nth)
  qed simp
  then show ?thesis
    by (simp add: ghashMul_def ghashMul_word_horner gf_mul_def mul_serial_horner coeffs_def)
qed

section \<open>GHASH\<close>

lemma load_fe_xor:
  "\<lparr>low = low y XOR get_u64 (take 8 bs), high = high y XOR get_u64 (take 8 (drop 8 bs))\<rparr> =
     ghashAdd y (load_fe bs)"
  by (simp add: load_fe_def ghashAdd_def)

lemma load_fe_take [simp]: "load_fe (take 16 bs) = load_fe bs"
  by (simp add: load_fe_def drop_take)

definition absorb :: "gcmFieldElement \<Rightarrow> bytes \<Rightarrow> gcmFieldElement \<Rightarrow> gcmFieldElement" where
  "absorb x X y = fold (\<lambda>b y. gf_mul (ghashAdd y (load_fe b)) x) (blocks16 X) y"

lemma updateBlocks_absorb:
  assumes "16 dvd length bs"
  shows "updateBlocks (productTable x) y bs = Ret (absorb x bs y)"
  using assms
proof (induction bs arbitrary: y rule: blocks16.induct)
  case (1 bs)
  show ?case
  proof (cases "length bs < 16")
    case True
    with 1(2) have "bs = []"
      using dvd_imp_le by fastforce
    then show ?thesis
      by (simp add: updateBlocks.simps absorb_def blocks16.simps)
  next
    case False
    then have "16 dvd length (drop 16 bs)" "bs \<noteq> []"
      using 1(2) by auto
    with 1 False show ?thesis
      by (simp add: updateBlocks.simps [of _ _ bs] blocks16.simps [of bs] absorb_def
          gcmBlockSize_def ghashMul_gf_mul load_fe_xor)
  qed
qed

lemma blocks16_append:
  "16 dvd length xs \<Longrightarrow> blocks16 (xs @ ys) = blocks16 xs @ blocks16 ys"
proof (induction xs rule: blocks16.induct)
  case (1 xs)
  show ?case
  proof (cases "length xs < 16")
    case True
    with 1(2) have "xs = []"
      using dvd_imp_le by fastforce
    then show ?thesis
      by (simp add: blocks16.simps)
  next
    case False
    with 1 show ?thesis
      by (simp add: blocks16.simps [of "xs @ ys"] blocks16.simps [of xs])
  qed
qed

lemma absorb_append: "16 dvd length xs \<Longrightarrow> absorb x (xs @ ys) y = absorb x ys (absorb x xs y)"
  by (simp add: absorb_def blocks16_append)

lemma length_pad16: "16 dvd length (pad16 bs)"
proof -
  have "(length bs mod 16 + (16 - length bs mod 16)) mod 16 = 0"
    by simp
  then have "(length bs + (16 - length bs mod 16) mod 16) mod 16 = 0"
    by (simp only: mod_add_left_eq mod_add_right_eq)
  then show ?thesis
    unfolding pad16_def length_append length_replicate by (rule mod_0_imp_dvd)
qed

lemma ghashUpdate_absorb: "ghashUpdate (productTable x) y bs = Ret (absorb x (pad16 bs) y)"
proof -
  let ?f = "16 * (length bs div 16)"
  have full: "push_bit 4 (drop_bit 4 (length bs)) = ?f"
    by (simp add: push_bit_eq_mult drop_bit_eq_div)
  have le: "?f \<le> length bs"
    by simp
  have first: "updateBlocks (productTable x) y (take ?f bs) = Ret (absorb x (take ?f bs) y)"
    by (rule updateBlocks_absorb) (simp add: min_absorb2)
  show ?thesis
  proof (cases "length bs = ?f")
    case True
    then have "length bs mod 16 = 0"
      by (metis mod_mult_self1_is_0)
    with True first show ?thesis
      by (simp add: ghashUpdate_def full pad16_def)
  next
    case False
    then have r: "0 < length bs mod 16" "length (drop ?f bs) = length bs mod 16"
      using minus_mult_div_eq_mod [of "length bs" 16] by auto
    have "go_copy (replicate gcmBlockSize 0) (drop ?f bs) =
        drop ?f bs @ replicate ((16 - length bs mod 16) mod 16) 0"
      using r by (subst go_copy_short) (simp_all add: gcmBlockSize_def del: length_drop)
    moreover have "take ?f bs @ drop ?f bs @ zs = bs @ zs" for zs
      by (metis append.assoc append_take_drop_id)
    ultimately have pad: "pad16 bs = take ?f bs @ go_copy (replicate gcmBlockSize 0) (drop ?f bs)"
      by (simp add: pad16_def)
    have "updateBlocks (productTable x) (absorb x (take ?f bs) y)
        (go_copy (replicate gcmBlockSize 0) (drop ?f bs)) = Ret (absorb x (pad16 bs) y)"
      unfolding pad
      by (subst absorb_append) (simp_all add: updateBlocks_absorb gcmBlockSize_def min_absorb2)
    with False first show ?thesis
      by (simp add: ghashUpdate_def full)
  qed
qed

lemma ghash_inputs_absorb:
  "ghash_inputs (productTable x) y inputs = Ret (absorb x (concat (map pad16 inputs)) y)"
proof (induction inputs arbitrary: y)
  case Nil
  show ?case
    by (simp add: absorb_def blocks16.simps)
next
  case (Cons a inputs)
  then show ?case
    by (simp add: ghashUpdate_absorb absorb_append length_pad16)
qed

lemma ghash_eq_ref: "ghash H inputs = Ret (ghash_ref H (concat (map pad16 inputs)))"
  by (simp add: ghash_def ghash_inputs_absorb ghash_ref_def absorb_def)

lemma length_store_fe [simp]: "length (store_fe y) = 16"
  by (simp add: store_fe_def)

lemma length_ghash_ref [simp]: "length (ghash_ref H X) = 16"
  by (simp add: ghash_ref_def)

section \<open>Properties\<close>

text \<open>C38: the four-bit table method of \<open>ghash.go\<close> computes GHASH: for every key and every
  list of inputs, \<open>GHASH\<close> returns (it never indexes out of range) and its result is the
  bit-serial GHASH of SP 800-38D on the concatenation of the inputs, each zero-padded to
  whole blocks.\<close>

theorem GHASH_correct: "GHASH key inputs = Ret (ghash_ref key (concat (map pad16 inputs)))"
  by (simp add: GHASH_def ghash_eq_ref)

end
