(* ===== verification/Gcm.thy ===== *)
theory Gcm
  imports Aes Ghash
begin

text \<open>
  \<open>gcm/gcm.go\<close>, \<open>gcm/gcm_generic.go\<close> and \<open>gcm/gcm_noasm.go\<close>: authenticated encryption
  over the AES of \<open>Aes\<close> and the hash of \<open>Ghash\<close>.  The reference \<open>gcm_ae\<close> is the
  authenticated encryption function of NIST SP 800-38D; \<open>Seal\<close> computes it, and \<open>Open\<close>
  accepts exactly its outputs.
\<close>

section \<open>The model of the package\<close>

definition gcmTagSize :: nat where "gcmTagSize = 16"
definition gcmMinimumTagSize :: nat where "gcmMinimumTagSize = 12"
definition gcmStandardNonceSize :: nat where "gcmStandardNonceSize = 12"

record GCM =
  cipher :: blockExpanded
  nonceSize :: nat
  tagSize :: nat

definition initGCM :: "GCM \<Rightarrow> GCM" where "initGCM g = g"

definition newGCM :: "blockExpanded \<Rightarrow> int \<Rightarrow> int \<Rightarrow> GCM exec" where
  "newGCM c nonce_size tag_size =
     (if tag_size < int gcmMinimumTagSize \<or> tag_size > int gcmBlockSize
      then Fail (ErrMsg ''cipher: incorrect tag size given to GCM'')
      else if nonce_size \<le> 0
      then Fail (ErrMsg ''cipher: the nonce can't have zero length'')
      else if BlockSize \<noteq> gcmBlockSize
      then Fail (ErrMsg ''cipher: NewGCM requires 128-bit block cipher'')
      else Ret (initGCM \<lparr>cipher = c, nonceSize = nat nonce_size, tagSize = nat tag_size\<rparr>))"

definition gcm_New :: "blockExpanded \<Rightarrow> int \<Rightarrow> int \<Rightarrow> GCM exec" where
  "gcm_New c nonce_size tag_size = newGCM c nonce_size tag_size"

definition gcm_NonceSize :: "GCM \<Rightarrow> nat" where "gcm_NonceSize g = nonceSize g"
definition gcm_Overhead :: "GCM \<Rightarrow> nat" where "gcm_Overhead g = tagSize g"

definition gcmInc32 :: "bytes \<Rightarrow> bytes" where
  "gcmInc32 counterBlock =
     (let p = length counterBlock - 4
      in take p counterBlock @ put_u32 (get_u32 (drop p counterBlock) + 1))"

text \<open>
  \<open>crypto/subtle.XORBytes(dst, x, y)\<close>: the result is \<open>dst\<close> afterwards.  The callers
  here pass slices that coincide or are disjoint.
\<close>

definition XORBytes :: "bytes \<Rightarrow> bytes \<Rightarrow> bytes \<Rightarrow> bytes exec" where
  "XORBytes dst x y =
     (let n = min (length x) (length y)
      in if length dst < n then Panic ''subtle.XORBytes: dst too short''
         else Ret (xor_bytes x y @ drop n dst))"

text \<open>The results are \<open>out\<close> and \<open>counter\<close> after the call.\<close>

function gcmCounterCryptGeneric ::
  "blockExpanded \<Rightarrow> bytes \<Rightarrow> bytes \<Rightarrow> bytes \<Rightarrow> (bytes \<times> bytes) exec" where
  "gcmCounterCryptGeneric b out src counter =
     (if length src \<ge> gcmBlockSize then
        exec_bind (EncryptBlockInternal b (replicate gcmBlockSize 0) counter) (\<lambda>mask.
        exec_bind (XORBytes out src mask) (\<lambda>out'.
        exec_bind (gcmCounterCryptGeneric b (drop gcmBlockSize out') (drop gcmBlockSize src)
                     (gcmInc32 counter)) (\<lambda>(rest, counter').
        Ret (take gcmBlockSize out' @ rest, counter'))))
      else if length src > 0 then
        exec_bind (EncryptBlockInternal b (replicate gcmBlockSize 0) counter) (\<lambda>mask.
        exec_bind (XORBytes out src mask) (\<lambda>out'.
        Ret (out', gcmInc32 counter)))
      else Ret (out, counter))"
  by auto
termination
  by (relation "measure (\<lambda>(_, _, src, _). length src)") (auto simp: gcmBlockSize_def)

declare gcmCounterCryptGeneric.simps [simp del]

definition deriveCounterGeneric :: "bytes \<Rightarrow> bytes \<Rightarrow> bytes \<Rightarrow> bytes exec" where
  "deriveCounterGeneric H counter nonce =
     (if length nonce = gcmStandardNonceSize
      then Ret ((go_copy counter nonce)[gcmBlockSize - 1 := 1])
      else let lenBlock = replicate 8 0 @ put_u64 (of_nat (length nonce) * 8)
           in ghash H [nonce, lenBlock])"

definition checkGenericIsExpected :: "unit exec" where
  "checkGenericIsExpected = Ret ()"

definition gcmAuthGeneric :: "bytes \<Rightarrow> bytes \<Rightarrow> bytes \<Rightarrow> bytes \<Rightarrow> bytes \<Rightarrow> bytes exec" where
  "gcmAuthGeneric out H tagMask ciphertext additionalData =
     exec_bind checkGenericIsExpected (\<lambda>_.
     let lenBlock = put_u64 (of_nat (length additionalData) * 8)
                    @ put_u64 (of_nat (length ciphertext) * 8)
     in exec_bind (ghash H [additionalData, ciphertext, lenBlock]) (\<lambda>S.
        XORBytes out S tagMask))"

definition sealGeneric :: "bytes \<Rightarrow> GCM \<Rightarrow> bytes \<Rightarrow> bytes \<Rightarrow> bytes \<Rightarrow> bytes exec" where
  "sealGeneric out g nonce plaintext additionalData =
     (let zero = replicate gcmBlockSize 0
      in exec_bind (EncryptBlockInternal (cipher g) zero zero) (\<lambda>H.
         exec_bind (deriveCounterGeneric H zero nonce) (\<lambda>counter.
         exec_bind (gcmCounterCryptGeneric (cipher g) zero zero counter) (\<lambda>(tagMask, counter).
         exec_bind (gcmCounterCryptGeneric (cipher g) out plaintext counter) (\<lambda>(out, counter).
         exec_bind (gcmAuthGeneric (replicate gcmTagSize 0) H tagMask
                      (take (length plaintext) out) additionalData) (\<lambda>tag.
         Ret (take (length plaintext) out @ go_copy (drop (length plaintext) out) tag)))))))"

definition errOpen :: err where
  "errOpen = ErrMsg ''cipher: message authentication failed''"

definition openGeneric :: "bytes \<Rightarrow> GCM \<Rightarrow> bytes \<Rightarrow> bytes \<Rightarrow> bytes \<Rightarrow> bytes exec" where
  "openGeneric out g nonce ciphertext additionalData =
     (let zero = replicate gcmBlockSize 0
      in exec_bind (EncryptBlockInternal (cipher g) zero zero) (\<lambda>H.
         exec_bind (deriveCounterGeneric H zero nonce) (\<lambda>counter.
         exec_bind (gcmCounterCryptGeneric (cipher g) zero zero counter) (\<lambda>(tagMask, counter).
         let tag = drop (length ciphertext - tagSize g) ciphertext;
             ciphertext = take (length ciphertext - tagSize g) ciphertext
         in exec_bind (gcmAuthGeneric (replicate gcmTagSize 0) H tagMask ciphertext additionalData)
              (\<lambda>expectedTag.
            if take (tagSize g) expectedTag \<noteq> tag then Fail errOpen
            else exec_bind (gcmCounterCryptGeneric (cipher g) out ciphertext counter)
                   (\<lambda>(out, counter). Ret out))))))"

definition gcm_seal :: "bytes \<Rightarrow> GCM \<Rightarrow> bytes \<Rightarrow> bytes \<Rightarrow> bytes \<Rightarrow> bytes exec" where
  "gcm_seal out g nonce plaintext data = sealGeneric out g nonce plaintext data"

definition gcm_open :: "bytes \<Rightarrow> GCM \<Rightarrow> bytes \<Rightarrow> bytes \<Rightarrow> bytes \<Rightarrow> bytes exec" where
  "gcm_open out g nonce ciphertext data = openGeneric out g nonce ciphertext data"

definition gcmMaxPlaintext :: nat where
  "gcmMaxPlaintext = (2 ^ 32 - 2) * gcmBlockSize"

text \<open>
  \<open>sealAfterIndicator fresh\<close>: \<open>fresh\<close> is the address of the slice allocated when \<open>dst\<close>
  lacks capacity.  The result is the slice the function returns.
\<close>

definition sealAfterIndicator ::
  "nat \<Rightarrow> GCM \<Rightarrow> slice \<Rightarrow> bytes \<Rightarrow> slice \<Rightarrow> slice \<Rightarrow> slice exec" where
  "sealAfterIndicator fresh g dst nonce plaintext data =
     (if length nonce \<noteq> nonceSize g
      then Panic ''crypto/cipher: incorrect nonce length given to GCM''
      else if nonceSize g = 0 then Panic ''crypto/cipher: incorrect GCM nonce size''
      else if slen plaintext > gcmMaxPlaintext
      then Panic ''crypto/cipher: message too large for GCM''
      else let (ret, out) = sliceForAppend fresh dst (slen plaintext + tagSize g)
           in if InexactOverlap out plaintext
              then Panic ''crypto/cipher: invalid buffer overlap of output and input''
              else if AnyOverlap out data
              then Panic ''crypto/cipher: invalid buffer overlap of output and additional data''
              else exec_bind (gcm_seal (dat out) g nonce (dat plaintext) (dat data)) (\<lambda>out'.
                   Ret (ret\<lparr>dat := take (slen dst) (dat ret) @ out'\<rparr>)))"

definition gcm_Seal :: "nat \<Rightarrow> GCM \<Rightarrow> slice \<Rightarrow> bytes \<Rightarrow> slice \<Rightarrow> slice \<Rightarrow> slice exec" where
  "gcm_Seal fresh g dst nonce plaintext data = sealAfterIndicator fresh g dst nonce plaintext data"

text \<open>
  \<open>Open\<close> returns the slice and a nil error, or the error; in both cases the first
  component of the result is the buffer the call leaves behind (cleared when
  authentication failed).
\<close>

definition gcm_Open ::
  "nat \<Rightarrow> GCM \<Rightarrow> slice \<Rightarrow> bytes \<Rightarrow> slice \<Rightarrow> slice \<Rightarrow> (slice \<times> err option) exec" where
  "gcm_Open fresh g dst nonce ciphertext data =
     (if length nonce \<noteq> nonceSize g
      then Panic ''crypto/cipher: incorrect nonce length given to GCM''
      else if tagSize g < gcmMinimumTagSize then Panic ''crypto/cipher: incorrect GCM tag size''
      else if slen ciphertext < tagSize g then Ret (dst, Some errOpen)
      else if slen ciphertext > gcmMaxPlaintext + tagSize g then Ret (dst, Some errOpen)
      else let (ret, out) = sliceForAppend fresh dst (slen ciphertext - tagSize g)
           in if InexactOverlap out ciphertext
              then Panic ''crypto/cipher: invalid buffer overlap of output and input''
              else if AnyOverlap out data
              then Panic ''crypto/cipher: invalid buffer overlap of output and additional data''
              else case gcm_open (dat out) g nonce (dat ciphertext) (dat data) of
                     Ret out' \<Rightarrow> Ret (ret\<lparr>dat := take (slen dst) (dat ret) @ out'\<rparr>, None)
                   | Fail e \<Rightarrow>
                       Ret (ret\<lparr>dat := take (slen dst) (dat ret) @ replicate (slen out) 0\<rparr>, Some e)
                   | Panic p \<Rightarrow> Panic p)"

section \<open>The reference\<close>

definition blockE :: "blockExpanded \<Rightarrow> bytes \<Rightarrow> bytes" where
  "blockE c b = (case EncryptBlockInternal c (replicate 16 0) b of Ret x \<Rightarrow> x | _ \<Rightarrow> [])"

function gctr :: "blockExpanded \<Rightarrow> bytes \<Rightarrow> bytes \<Rightarrow> bytes" where
  "gctr c ctr X =
     (if X = [] then []
      else xor_bytes (take 16 X) (blockE c ctr) @ gctr c (gcmInc32 ctr) (drop 16 X))"
  by auto
termination
  by (relation "measure (\<lambda>(_, _, X). length X)") auto

declare gctr.simps [simp del]

definition gcm_J0 :: "blockExpanded \<Rightarrow> bytes \<Rightarrow> bytes" where
  "gcm_J0 c iv =
     (if length iv = 12 then iv @ [0, 0, 0, 1]
      else ghash_ref (blockE c (replicate 16 0))
             (pad16 iv @ put_u64 0 @ put_u64 (of_nat (length iv) * 8)))"

definition gcm_tag :: "blockExpanded \<Rightarrow> bytes \<Rightarrow> bytes \<Rightarrow> bytes \<Rightarrow> bytes" where
  "gcm_tag c iv A C =
     xor_bytes
       (ghash_ref (blockE c (replicate 16 0))
         (pad16 A @ pad16 C @ put_u64 (of_nat (length A) * 8) @ put_u64 (of_nat (length C) * 8)))
       (blockE c (gcm_J0 c iv))"

definition gcm_ae :: "blockExpanded \<Rightarrow> nat \<Rightarrow> bytes \<Rightarrow> bytes \<Rightarrow> bytes \<Rightarrow> bytes" where
  "gcm_ae c t iv P A =
     (let C = gctr c (gcmInc32 (gcm_J0 c iv)) P in C @ take t (gcm_tag c iv A C))"

section \<open>Counter mode\<close>

lemma EncryptBlockInternal_eq:
  assumes "wf_block c" "length src = 16" "length dst = 16"
  shows "EncryptBlockInternal c dst src = Ret (blockE c src)" and "length (blockE c src) = 16"
proof -
  have "\<exists>x. \<forall>dst. length dst = 16 \<longrightarrow> encryptBlockGeneric c dst src = Ret x \<and> length x = 16"
    using assms by (auto simp: encryptBlockGeneric_def wf_block_def Let_def split: prod.splits)
  then obtain x where x: "\<And>dst. length dst = 16 \<Longrightarrow> EncryptBlockInternal c dst src = Ret x"
    and len: "length x = 16"
    using assms(3) by (auto simp: EncryptBlockInternal_def encryptBlock_def)
  from x [of "replicate 16 0"] have "blockE c src = x"
    by (simp add: blockE_def)
  with x assms(3) len show "EncryptBlockInternal c dst src = Ret (blockE c src)"
    "length (blockE c src) = 16"
    by simp_all
qed

lemma length_gcmInc32 [simp]: "4 \<le> length ctr \<Longrightarrow> length (gcmInc32 ctr) = length ctr"
  by (simp add: gcmInc32_def Let_def)

lemma gctr_Nil [simp]: "gctr c ctr [] = []"
  by (simp add: gctr.simps)

lemma length_gctr:
  assumes "wf_block c" "length ctr = 16"
  shows "length (gctr c ctr X) = length X"
  using assms
proof (induction c ctr X rule: gctr.induct)
  case (1 c ctr X)
  then show ?case
    using EncryptBlockInternal_eq(2) [of c ctr "replicate 16 0"]
    by (cases "X = []") (auto simp: gctr.simps [of c ctr X])
qed

text \<open>Counter mode is its own inverse.\<close>

lemma gctr_gctr:
  assumes "wf_block c" "length ctr = 16"
  shows "gctr c ctr (gctr c ctr X) = X"
  using assms
proof (induction c ctr X rule: gctr.induct)
  case (1 c ctr X)
  show ?case
  proof (cases "X = []")
    case False
    let ?k = "blockE c ctr" and ?x = "take 16 X"
    have k: "length ?k = 16"
      using EncryptBlockInternal_eq(2) [of c ctr "replicate 16 0"] 1(2,3) by simp
    define Y where "Y = gctr c (gcmInc32 ctr) (drop 16 X)"
    have head: "take 16 (xor_bytes ?x ?k @ Y) = xor_bytes ?x ?k"
      and tail: "drop 16 (xor_bytes ?x ?k @ Y) = Y"
      using k by (cases "length X \<le> 16"; simp add: Y_def)+
    have "gctr c ctr (xor_bytes ?x ?k @ Y) =
        xor_bytes (xor_bytes ?x ?k) ?k @ gctr c (gcmInc32 ctr) Y"
      using False k by (subst gctr.simps, unfold head tail) (auto simp: xor_bytes_def zip_eq_Nil_iff)
    also have "\<dots> = ?x @ drop 16 X"
      using 1 False k by (simp add: Y_def)
    finally show ?thesis
      using False by (simp add: Y_def gctr.simps [of c ctr X])
  qed simp
qed

lemma gcmCounterCrypt_gctr:
  assumes "wf_block c" "length ctr = 16" "length src \<le> length out"
  shows "gcmCounterCryptGeneric c out src ctr =
     Ret (gctr c ctr src @ drop (length src) out, (gcmInc32 ^^ ((length src + 15) div 16)) ctr)"
  using assms
proof (induction c out src ctr rule: gcmCounterCryptGeneric.induct)
  case (1 c out src ctr)
  note enc = EncryptBlockInternal_eq [OF "1.prems"(1,2), of "replicate 16 0", simplified]
  consider "src = []" | "0 < length src" "length src < 16" | "16 \<le> length src"
    by fastforce
  then show ?case
  proof cases
    case 2
    then have "gctr c ctr src = xor_bytes src (blockE c ctr)" "(length src + 15) div 16 = 1"
      by (simp add: gctr.simps [of c ctr src]) (rule div_nat_eqI; use 2 in \<open>simp add: Suc_leI\<close>)
    with 2 "1.prems"(3) show ?thesis
      by (simp add: gcmCounterCryptGeneric.simps [of c out src ctr] gcmBlockSize_def enc XORBytes_def)
  next
    case 3
    let ?out = "xor_bytes src (blockE c ctr) @ drop 16 out"
    have x: "XORBytes out src (blockE c ctr) = Ret ?out"
      using 3 "1.prems"(3) by (simp add: XORBytes_def enc(2))
    have len: "length (xor_bytes src (blockE c ctr)) = 16"
      using 3 enc(2) by simp
    have "xor_bytes src (blockE c ctr) = xor_bytes (take 16 src) (blockE c ctr)"
      by (rule nth_equalityI) (simp_all add: enc(2) nth_xor_bytes)
    then have split: "gctr c ctr src =
        xor_bytes src (blockE c ctr) @ gctr c (gcmInc32 ctr) (drop 16 src)"
      using 3 by (auto simp: gctr.simps [of c ctr src])
    have rec: "gcmCounterCryptGeneric c (drop 16 out) (drop 16 src) (gcmInc32 ctr) =
        Ret (gctr c (gcmInc32 ctr) (drop 16 src) @ drop (length src) out,
             (gcmInc32 ^^ ((length src - 16 + 15) div 16)) (gcmInc32 ctr))"
      using "1.IH" [of ?out] 3 "1.prems" len by (simp add: gcmBlockSize_def)
    have "(length src + 15) div 16 = Suc ((length src - 16 + 15) div 16)"
      using 3 by simp
    then show ?thesis
      using 3 len
      by (simp add: gcmCounterCryptGeneric.simps [of c out src ctr] gcmBlockSize_def enc(1) x rec split
          funpow_swap1)
  qed (simp add: gcmCounterCryptGeneric.simps gcmBlockSize_def)
qed

section \<open>Sealing and opening as the reference\<close>

lemma deriveCounter_J0:
  "deriveCounterGeneric (blockE c (replicate 16 0)) (replicate 16 0) nonce = Ret (gcm_J0 c nonce)"
proof (cases "length nonce = 12")
  case True
  then have "(go_copy (replicate 16 0) nonce)[15 := 1] = nonce @ [0, 0, 0, 1]"
    by (simp add: go_copy_def list_update_append numeral_eq_Suc)
  with True show ?thesis
    by (simp add: deriveCounterGeneric_def gcm_J0_def gcmStandardNonceSize_def gcmBlockSize_def)
next
  case False
  have "put_u64 0 = replicate 8 0"
    by code_simp
  moreover have "pad16 (replicate 8 0 @ put_u64 w) = replicate 8 0 @ put_u64 w" for w
    by (simp add: pad16_def)
  ultimately show ?thesis
    using False
    by (simp add: deriveCounterGeneric_def gcm_J0_def gcmStandardNonceSize_def ghash_eq_ref Let_def)
qed

lemma length_gcm_J0 [simp]: "length (gcm_J0 c nonce) = 16"
  by (simp add: gcm_J0_def)

lemma gctr_zero:
  "wf_block c \<Longrightarrow> length ctr = 16 \<Longrightarrow> gctr c ctr (replicate 16 0) = blockE c ctr"
  using EncryptBlockInternal_eq(2) [of c ctr "replicate 16 0"]
  by (subst gctr.simps) (auto simp: xor_bytes_def intro!: nth_equalityI)

lemma gcmAuth_tag:
  "gcmAuthGeneric (replicate 16 0) (blockE c (replicate 16 0)) (blockE c (gcm_J0 c nonce)) C A =
     Ret (gcm_tag c nonce A C)" if "wf_block c"
proof -
  have len: "length (blockE c (gcm_J0 c nonce)) = 16"
    using EncryptBlockInternal_eq(2) [OF that, of "gcm_J0 c nonce" "replicate 16 0"] by simp
  have "pad16 (put_u64 v @ put_u64 w) = put_u64 v @ put_u64 w" for v w
    by (simp add: pad16_def)
  with len show ?thesis
    by (simp add: gcmAuthGeneric_def checkGenericIsExpected_def ghash_eq_ref XORBytes_def gcm_tag_def)
qed

lemma length_gcm_tag: "wf_block c \<Longrightarrow> length (gcm_tag c iv A C) = 16"
  using EncryptBlockInternal_eq(2) [of c "gcm_J0 c iv" "replicate 16 0"] by (simp add: gcm_tag_def)

text \<open>The common opening of \<open>sealGeneric\<close> and \<open>openGeneric\<close>.\<close>

lemma gcm_setup:
  assumes "wf_block c"
  defines "zero \<equiv> replicate gcmBlockSize (0 :: byte)"
  shows "EncryptBlockInternal c zero zero = Ret (blockE c (replicate 16 0))"
    and "gcmCounterCryptGeneric c zero zero (gcm_J0 c nonce) =
           Ret (blockE c (gcm_J0 c nonce), gcmInc32 (gcm_J0 c nonce))"
  using assms EncryptBlockInternal_eq [OF assms(1)]
  by (simp_all add: gcmBlockSize_def gcmCounterCrypt_gctr gctr_zero)

lemma sealGeneric_ae:
  assumes wf: "wf_block (cipher g)" and "tagSize g \<le> 16" and "length out = length P + tagSize g"
  shows "sealGeneric out g nonce P A = Ret (gcm_ae (cipher g) (tagSize g) nonce P A)"
proof -
  let ?c = "cipher g"
  let ?C = "gctr ?c (gcmInc32 (gcm_J0 ?c nonce)) P"
  have len: "length ?C = length P"
    using length_gctr [OF wf] by simp
  have crypt: "gcmCounterCryptGeneric ?c out P (gcmInc32 (gcm_J0 ?c nonce)) =
      Ret (?C @ drop (length P) out,
           (gcmInc32 ^^ ((length P + 15) div 16)) (gcmInc32 (gcm_J0 ?c nonce)))"
    using assms by (intro gcmCounterCrypt_gctr) simp_all
  have "go_copy (drop (length P) out) (gcm_tag ?c nonce A ?C) =
      take (tagSize g) (gcm_tag ?c nonce A ?C)"
    using assms(2,3) length_gcm_tag [OF wf] by (simp add: go_copy_def)
  with len show ?thesis
    unfolding sealGeneric_def Let_def
    by (simp add: gcm_setup [OF wf, unfolded gcmBlockSize_def] crypt gcmAuth_tag [OF wf] gcm_ae_def Let_def gcmBlockSize_def
        deriveCounter_J0 gcmTagSize_def)
qed

lemma openGeneric_ad:
  assumes wf: "wf_block (cipher g)" and "length out = length ct - tagSize g"
    and "tagSize g \<le> length ct"
  defines "C \<equiv> take (length ct - tagSize g) ct"
  shows "openGeneric out g nonce ct A =
     (if take (tagSize g) (gcm_tag (cipher g) nonce A C) = drop (length ct - tagSize g) ct
      then Ret (gctr (cipher g) (gcmInc32 (gcm_J0 (cipher g) nonce)) C) else Fail errOpen)"
proof -
  let ?c = "cipher g"
  have crypt: "gcmCounterCryptGeneric ?c out C (gcmInc32 (gcm_J0 ?c nonce)) =
      Ret (gctr ?c (gcmInc32 (gcm_J0 ?c nonce)) C,
           (gcmInc32 ^^ ((length C + 15) div 16)) (gcmInc32 (gcm_J0 ?c nonce)))"
    using assms(2,3) by (subst gcmCounterCrypt_gctr [OF wf]) (simp_all add: C_def)
  show ?thesis
    unfolding openGeneric_def Let_def
    by (simp add: gcm_setup [OF wf, unfolded gcmBlockSize_def] crypt gcmAuth_tag [OF wf] deriveCounter_J0 gcmBlockSize_def
        gcmTagSize_def C_def [symmetric])
qed

definition wf_gcm :: "GCM \<Rightarrow> bool" where
  "wf_gcm g \<longleftrightarrow> wf_block (cipher g) \<and> 12 \<le> tagSize g \<and> tagSize g \<le> 16 \<and> 0 < nonceSize g"

lemma wf_gcm_New: "aes_New key = Ret c \<Longrightarrow> gcm_New c n t = Ret g \<Longrightarrow> wf_gcm g"
  using wf_new [of key c]
  by (auto simp: gcm_New_def newGCM_def wf_gcm_def initGCM_def gcmMinimumTagSize_def
      gcmBlockSize_def split: if_splits)

lemma gcm_Seal_ae:
  assumes "wf_gcm g" "gcm_Seal fresh g dst nonce pt ad = Ret ret"
  shows "dat ret = dat dst @ gcm_ae (cipher g) (tagSize g) nonce (dat pt) (dat ad)"
    and "slen pt \<le> gcmMaxPlaintext" and "length nonce = nonceSize g"
proof -
  obtain head tail where s: "sliceForAppend fresh dst (slen pt + tagSize g) = (head, tail)"
    by fastforce
  note shape = sliceForAppend_shape [OF s]
  have "sealGeneric (dat tail) g nonce (dat pt) (dat ad) =
      Ret (gcm_ae (cipher g) (tagSize g) nonce (dat pt) (dat ad))"
    using assms(1) shape by (intro sealGeneric_ae) (simp_all add: wf_gcm_def)
  with assms(2) shape s show
    "dat ret = dat dst @ gcm_ae (cipher g) (tagSize g) nonce (dat pt) (dat ad)"
    "slen pt \<le> gcmMaxPlaintext" "length nonce = nonceSize g"
    by (auto simp: gcm_Seal_def sealAfterIndicator_def gcm_seal_def split: if_splits)
qed

text \<open>When the buffers are usable, \<open>Open\<close> accepts exactly a correct tag.\<close>

definition open_ready :: "nat \<Rightarrow> GCM \<Rightarrow> slice \<Rightarrow> slice \<Rightarrow> slice \<Rightarrow> bool" where
  "open_ready fresh g dst ct ad \<longleftrightarrow>
     tagSize g \<le> slen ct \<and> slen ct \<le> gcmMaxPlaintext + tagSize g \<and>
     \<not> InexactOverlap (snd (sliceForAppend fresh dst (slen ct - tagSize g))) ct \<and>
     \<not> AnyOverlap (snd (sliceForAppend fresh dst (slen ct - tagSize g))) ad"

lemma gcm_Open_ad:
  assumes "wf_gcm g" "length nonce = nonceSize g" "open_ready fresh g dst ct ad"
  defines "C \<equiv> take (slen ct - tagSize g) (dat ct)"
    and "T \<equiv> drop (slen ct - tagSize g) (dat ct)"
  obtains r where "gcm_Open fresh g dst nonce ct ad =
      Ret (r, if take (tagSize g) (gcm_tag (cipher g) nonce (dat ad) C) = T then None else Some errOpen)"
    and "dat r = dat dst @
      (if take (tagSize g) (gcm_tag (cipher g) nonce (dat ad) C) = T
       then gctr (cipher g) (gcmInc32 (gcm_J0 (cipher g) nonce)) C
       else replicate (slen ct - tagSize g) 0)"
proof -
  obtain head tail where s: "sliceForAppend fresh dst (slen ct - tagSize g) = (head, tail)"
    by fastforce
  note shape = sliceForAppend_shape [OF s]
  have "openGeneric (dat tail) g nonce (dat ct) (dat ad) =
     (if take (tagSize g) (gcm_tag (cipher g) nonce (dat ad) C) = T
      then Ret (gctr (cipher g) (gcmInc32 (gcm_J0 (cipher g) nonce)) C) else Fail errOpen)"
    using assms(1,3) shape unfolding C_def T_def
    by (intro openGeneric_ad) (simp_all add: wf_gcm_def open_ready_def)
  with assms(1-3) shape s show thesis
    by (intro that [of "head\<lparr>dat := dat dst @ (if take (tagSize g) (gcm_tag (cipher g) nonce (dat ad) C) = T
          then gctr (cipher g) (gcmInc32 (gcm_J0 (cipher g) nonce)) C
          else replicate (slen ct - tagSize g) 0)\<rparr>"])
      (simp_all add: gcm_Open_def gcm_open_def open_ready_def wf_gcm_def gcmMinimumTagSize_def)
qed

lemma gcm_Open_Seal:
  assumes wf: "wf_gcm g" and seal: "gcm_Seal fresh g dst nonce pt ad = Ret ret"
    and ct: "dat ct = drop (slen dst) (dat ret)" and ad': "dat ad' = dat ad"
    and ready: "open_ready fresh' g dst' ct ad'"
  obtains r where "gcm_Open fresh' g dst' nonce ct ad' = Ret (r, None)" "dat r = dat dst' @ dat pt"
proof -
  let ?c = "cipher g"
  let ?ctr = "gcmInc32 (gcm_J0 ?c nonce)"
  let ?C = "gctr ?c ?ctr (dat pt)"
  have wfc: "wf_block ?c" "tagSize g \<le> 16"
    using wf by (simp_all add: wf_gcm_def)
  have ct_eq: "dat ct = ?C @ take (tagSize g) (gcm_tag ?c nonce (dat ad) ?C)"
    using gcm_Seal_ae(1) [OF wf seal] by (simp add: ct gcm_ae_def Let_def)
  have split: "take (slen ct - tagSize g) (dat ct) = ?C"
    "drop (slen ct - tagSize g) (dat ct) = take (tagSize g) (gcm_tag ?c nonce (dat ad) ?C)"
    using wfc length_gcm_tag [OF wfc(1)] by (simp_all add: ct_eq)
  show thesis
    by (rule gcm_Open_ad [OF wf gcm_Seal_ae(3) [OF wf seal] ready])
      (rule that, simp_all add: split ad' gctr_gctr [OF wfc(1)])
qed

section \<open>Properties\<close>

text \<open>C34: \<open>Open\<close> inverts \<open>Seal\<close>.  For every AES key and every nonce and tag size the
  constructors accept: if \<open>Seal\<close> returns, then \<open>Open\<close> of what it appended, under the same
  nonce and additional data, returns no error and appends the plaintext to its own
  destination.\<close>

theorem gcm_open_inverts_seal:
  assumes "aes_New key = Ret c" and "gcm_New c nsize tsize = Ret g"
    and "gcm_Seal fresh g dst nonce pt ad = Ret ret"
    and "dat ct = drop (slen dst) (dat ret)" and "dat ad' = dat ad"
    and "open_ready fresh' g dst' ct ad'"
  shows "\<exists>r. gcm_Open fresh' g dst' nonce ct ad' = Ret (r, None) \<and> dat r = dat dst' @ dat pt"
  using gcm_Open_Seal [OF wf_gcm_New [OF assms(1,2)] assms(3-6)] by blast

lemma gcm_New_total:
  "0 < n \<Longrightarrow> 12 \<le> t \<Longrightarrow> t \<le> 16 \<Longrightarrow>
     gcm_New c n t = Ret \<lparr>cipher = c, nonceSize = nat n, tagSize = nat t\<rparr>"
  by (simp add: gcm_New_def newGCM_def gcmMinimumTagSize_def gcmBlockSize_def BlockSize_def initGCM_def)

lemma gcm_Seal_total:
  assumes wf: "wf_gcm g" and "length nonce = nonceSize g" and "slen pt \<le> gcmMaxPlaintext"
    and "\<not> InexactOverlap (snd (sliceForAppend fresh dst (slen pt + tagSize g))) pt"
    and "\<not> AnyOverlap (snd (sliceForAppend fresh dst (slen pt + tagSize g))) ad"
  shows "\<exists>ret. gcm_Seal fresh g dst nonce pt ad = Ret ret"
proof -
  obtain head tail where s: "sliceForAppend fresh dst (slen pt + tagSize g) = (head, tail)"
    by fastforce
  have "sealGeneric (dat tail) g nonce (dat pt) (dat ad) =
      Ret (gcm_ae (cipher g) (tagSize g) nonce (dat pt) (dat ad))"
    using wf sliceForAppend_shape [OF s] by (intro sealGeneric_ae) (simp_all add: wf_gcm_def)
  with assms s show ?thesis
    by (simp add: gcm_Seal_def sealAfterIndicator_def gcm_seal_def wf_gcm_def)
qed

theorem gcm_open_inverts_seal_witness:
  "\<exists>c g ret r. aes_New (replicate 16 7) = Ret c \<and> gcm_New c 12 16 = Ret g \<and>
     gcm_Seal 5000 g (byte_slice 100 [9]) (replicate 12 3) (byte_slice 200 [1, 2, 3])
       (byte_slice 300 [4]) = Ret ret \<and>
     gcm_Open 7000 g (byte_slice 100 [8]) (replicate 12 3) (byte_slice 400 (drop 1 (dat ret)))
       (byte_slice 300 [4]) = Ret (r, None) \<and> dat r = [8, 1, 2, 3]"
proof -
  let ?dst = "byte_slice 100 [9]" and ?pt = "byte_slice 200 [1, 2, 3]"
    and ?ad = "byte_slice 300 [4]" and ?dst' = "byte_slice 100 [8]"
  obtain c where c: "aes_New (replicate 16 7) = Ret c"
    using aes_New_total [of "replicate 16 7"] by auto
  define g where "g = \<lparr>cipher = c, nonceSize = 12, tagSize = 16\<rparr>"
  have g: "gcm_New c 12 16 = Ret g"
    by (simp add: gcm_New_total g_def)
  have wf: "wf_gcm g"
    by (rule wf_gcm_New [OF c g])
  obtain ret where ret: "gcm_Seal 5000 g ?dst (replicate 12 3) ?pt ?ad = Ret ret"
    using gcm_Seal_total [OF wf, of "replicate 12 3" ?pt 5000 ?dst ?ad]
    by (auto simp: g_def gcmMaxPlaintext_def gcmBlockSize_def sliceForAppend_def InexactOverlap_def
        AnyOverlap_def go_copy_def)
  let ?ct = "byte_slice 400 (drop 1 (dat ret))"
  have "slen ?ct = 19"
    using gcm_Seal_ae(1) [OF wf ret] length_gcm_tag [of c] wf
    by (simp add: gcm_ae_def g_def length_gctr wf_gcm_def Let_def)
  then have "open_ready 7000 g ?dst' ?ct ?ad"
    by (simp add: open_ready_def g_def gcmMaxPlaintext_def gcmBlockSize_def sliceForAppend_def
        InexactOverlap_def AnyOverlap_def go_copy_def)
  with gcm_open_inverts_seal [OF c g ret, of ?ct ?ad 7000 ?dst'] c g ret show ?thesis
    by simp
qed

text \<open>C35: \<open>Open\<close> never releases unauthenticated plaintext.  When the buffers are usable,
  \<open>Open\<close> returns without panicking; it succeeds exactly when the last \<open>tagSize\<close> bytes are
  the GCM tag of the rest, and otherwise it returns \<open>errOpen\<close> and the buffer it wrote to
  holds only zeros after the bytes of \<open>dst\<close>.\<close>

theorem gcm_open_authenticates:
  assumes "aes_New key = Ret c" and "gcm_New c nsize tsize = Ret g"
    and "length nonce = nonceSize g" and "open_ready fresh g dst ct ad"
  shows "\<exists>r e. gcm_Open fresh g dst nonce ct ad = Ret (r, e) \<and>
     (let C = take (slen ct - tagSize g) (dat ct);
          T = drop (slen ct - tagSize g) (dat ct);
          good = (T = take (tagSize g) (gcm_tag c nonce (dat ad) C))
      in e = (if good then None else Some errOpen) \<and>
         dat r = dat dst @ (if good then gctr c (gcmInc32 (gcm_J0 c nonce)) C
                            else replicate (length C) 0))"
proof -
  have c: "cipher g = c"
    using assms(2) by (auto simp: gcm_New_def newGCM_def initGCM_def split: if_splits)
  have "tagSize g \<le> slen ct"
    using assms(4) by (simp add: open_ready_def)
  then show ?thesis
    by (rule_tac gcm_Open_ad [OF wf_gcm_New [OF assms(1,2)] assms(3,4)])
      (auto simp: Let_def c eq_commute [of "take (tagSize g) _"])
qed

theorem gcm_open_authenticates_witness:
  "\<exists>c g. aes_New (replicate 32 1) = Ret c \<and> gcm_New c 12 16 = Ret g \<and>
     (\<exists>r e. gcm_Open 5000 g (byte_slice 100 []) (replicate 12 3) (byte_slice 200 (replicate 18 7))
       (byte_slice 300 [4]) = Ret (r, e) \<and> slen r = 2)"
proof -
  obtain c where c: "aes_New (replicate 32 1) = Ret c"
    using aes_New_total [of "replicate 32 1"] by auto
  define g where "g = \<lparr>cipher = c, nonceSize = 12, tagSize = 16\<rparr>"
  have g: "gcm_New c 12 16 = Ret g"
    by (simp add: gcm_New_total g_def)
  have "open_ready 5000 g (byte_slice 100 []) (byte_slice 200 (replicate 18 7)) (byte_slice 300 [4])"
    by (simp add: open_ready_def g_def gcmMaxPlaintext_def gcmBlockSize_def sliceForAppend_def
        InexactOverlap_def AnyOverlap_def go_copy_def Let_def)
  from gcm_open_authenticates [OF c g _ this, of "replicate 12 3"] show ?thesis
    using c g wf_new [OF c] by (auto simp: g_def Let_def length_gctr split: if_splits)
qed

text \<open>\<open>Seal\<close> is the authenticated encryption function of SP 800-38D: whenever it returns,
  the result is \<open>dst\<close> followed by the counter-mode ciphertext and the truncated tag.\<close>

theorem gcm_seal_is_ae:
  assumes "aes_New key = Ret c" and "gcm_New c nsize tsize = Ret g"
    and "gcm_Seal fresh g dst nonce pt ad = Ret ret"
  shows "dat ret = dat dst @ gcm_ae c (nat tsize) nonce (dat pt) (dat ad)"
proof -
  have "cipher g = c" "tagSize g = nat tsize"
    using assms(2) by (auto simp: gcm_New_def newGCM_def initGCM_def split: if_splits)
  then show ?thesis
    using gcm_Seal_ae(1) [OF wf_gcm_New [OF assms(1,2)] assms(3)] by simp
qed

theorem gcm_seal_is_ae_witness:
  "\<exists>c g ret. aes_New (replicate 24 7) = Ret c \<and> gcm_New c 12 13 = Ret g \<and>
     gcm_Seal 5000 g (byte_slice 100 [9]) (replicate 12 3) (byte_slice 200 [1, 2, 3])
       (byte_slice 300 [4]) = Ret ret \<and>
     dat ret = 9 # gcm_ae c 13 (replicate 12 3) [1, 2, 3] [4]"
proof -
  obtain c where c: "aes_New (replicate 24 7) = Ret c"
    using aes_New_total [of "replicate 24 7"] by auto
  define g where "g = \<lparr>cipher = c, nonceSize = 12, tagSize = 13\<rparr>"
  have g: "gcm_New c 12 13 = Ret g"
    by (simp add: gcm_New_total g_def)
  obtain ret where ret: "gcm_Seal 5000 g (byte_slice 100 [9]) (replicate 12 3)
      (byte_slice 200 [1, 2, 3]) (byte_slice 300 [4]) = Ret ret"
    using gcm_Seal_total [OF wf_gcm_New [OF c g], of "replicate 12 3" "byte_slice 200 [1, 2, 3]" 5000
        "byte_slice 100 [9]" "byte_slice 300 [4]"]
    by (auto simp: g_def gcmMaxPlaintext_def gcmBlockSize_def sliceForAppend_def InexactOverlap_def
        AnyOverlap_def go_copy_def)
  from gcm_seal_is_ae [OF c g ret] c g ret show ?thesis
    by auto
qed

end
