(* ===== verification/GcmNonces.thy ===== *)
theory GcmNonces
  imports Gcm
begin

text \<open>
  \<open>gcm/gcm_nonces.go\<close>: the four wrappers that restrict how the nonce of GCM may move.
  Each keeps a counter that must grow from one \<open>Seal\<close> to the next.  The locale
  \<open>counter_nonces\<close> states what they have in common, and its lemma says what that is
  for: no sequence of calls that return ever uses a nonce twice.
\<close>

section \<open>The model of \<open>gcm_nonces.go\<close>\<close>

definition MaxUint64 :: u64 where "MaxUint64 = 0xffffffffffffffff"

definition nonce_counter :: "bytes \<Rightarrow> u64" where
  "nonce_counter nonce = get_u64 (drop (length nonce - 8) nonce)"

record GCMWithCounterNonce =
  cn_g :: GCM
  cn_ready :: bool
  cn_fixedName :: u32
  cn_start :: u64
  cn_next :: u64

definition NewGCMWithCounterNonce :: "blockExpanded \<Rightarrow> GCMWithCounterNonce exec" where
  "NewGCMWithCounterNonce c =
     exec_bind (newGCM c (int gcmStandardNonceSize) (int gcmTagSize)) (\<lambda>g.
     Ret \<lparr>cn_g = g, cn_ready = False, cn_fixedName = 0, cn_start = 0, cn_next = 0\<rparr>)"

definition cn_NonceSize :: "GCMWithCounterNonce \<Rightarrow> nat" where
  "cn_NonceSize g = gcmStandardNonceSize"
definition cn_Overhead :: "GCMWithCounterNonce \<Rightarrow> nat" where "cn_Overhead g = gcmTagSize"

definition cn_Seal ::
  "nat \<Rightarrow> GCMWithCounterNonce \<Rightarrow> slice \<Rightarrow> bytes \<Rightarrow> slice \<Rightarrow> slice
     \<Rightarrow> (GCMWithCounterNonce \<times> slice) exec" where
  "cn_Seal fresh g dst nonce plaintext data =
     (if length nonce \<noteq> gcmStandardNonceSize
      then Panic ''crypto/cipher: incorrect nonce length given to GCM''
      else let counter = nonce_counter nonce;
               g = (if \<not> cn_ready g
                    then g\<lparr>cn_ready := True, cn_start := counter,
                           cn_fixedName := get_u32 (take 4 nonce)\<rparr>
                    else g)
           in if cn_fixedName g \<noteq> get_u32 (take 4 nonce)
              then Panic ''crypto/cipher: incorrect module name given to GCMWithCounterNonce''
              else let counter = counter - cn_start g
                   in if counter = MaxUint64 then Panic ''crypto/cipher: counter wrapped''
                      else if counter < cn_next g then Panic ''crypto/cipher: counter decreased''
                      else let g = g\<lparr>cn_next := counter + 1\<rparr>
                           in exec_bind (sealAfterIndicator fresh (cn_g g) dst nonce plaintext data)
                                (\<lambda>ret. Ret (g, ret)))"

definition cn_Open ::
  "nat \<Rightarrow> GCMWithCounterNonce \<Rightarrow> slice \<Rightarrow> bytes \<Rightarrow> slice \<Rightarrow> slice
     \<Rightarrow> (slice \<times> err option) exec" where
  "cn_Open fresh g dst nonce ciphertext data = gcm_Open fresh (cn_g g) dst nonce ciphertext data"

record GCMForTLS12 =
  t12_g :: GCM
  t12_next :: u64

definition NewGCMForTLS12 :: "blockExpanded \<Rightarrow> GCMForTLS12 exec" where
  "NewGCMForTLS12 c =
     exec_bind (newGCM c (int gcmStandardNonceSize) (int gcmTagSize)) (\<lambda>g.
     Ret \<lparr>t12_g = g, t12_next = 0\<rparr>)"

definition t12_NonceSize :: "GCMForTLS12 \<Rightarrow> nat" where "t12_NonceSize g = gcmStandardNonceSize"
definition t12_Overhead :: "GCMForTLS12 \<Rightarrow> nat" where "t12_Overhead g = gcmTagSize"

definition t12_Seal ::
  "nat \<Rightarrow> GCMForTLS12 \<Rightarrow> slice \<Rightarrow> bytes \<Rightarrow> slice \<Rightarrow> slice \<Rightarrow> (GCMForTLS12 \<times> slice) exec" where
  "t12_Seal fresh g dst nonce plaintext data =
     (if length nonce \<noteq> gcmStandardNonceSize
      then Panic ''crypto/cipher: incorrect nonce length given to GCM''
      else let counter = nonce_counter nonce
           in if counter = MaxUint64 then Panic ''crypto/cipher: counter wrapped''
              else if counter < t12_next g then Panic ''crypto/cipher: counter decreased''
              else let g = g\<lparr>t12_next := counter + 1\<rparr>
                   in exec_bind (sealAfterIndicator fresh (t12_g g) dst nonce plaintext data)
                        (\<lambda>ret. Ret (g, ret)))"

definition t12_Open ::
  "nat \<Rightarrow> GCMForTLS12 \<Rightarrow> slice \<Rightarrow> bytes \<Rightarrow> slice \<Rightarrow> slice \<Rightarrow> (slice \<times> err option) exec" where
  "t12_Open fresh g dst nonce ciphertext data = gcm_Open fresh (t12_g g) dst nonce ciphertext data"

record GCMForTLS13 =
  t13_g :: GCM
  t13_ready :: bool
  t13_mask :: u64
  t13_next :: u64

definition NewGCMForTLS13 :: "blockExpanded \<Rightarrow> GCMForTLS13 exec" where
  "NewGCMForTLS13 c =
     exec_bind (newGCM c (int gcmStandardNonceSize) (int gcmTagSize)) (\<lambda>g.
     Ret \<lparr>t13_g = g, t13_ready = False, t13_mask = 0, t13_next = 0\<rparr>)"

definition t13_NonceSize :: "GCMForTLS13 \<Rightarrow> nat" where "t13_NonceSize g = gcmStandardNonceSize"
definition t13_Overhead :: "GCMForTLS13 \<Rightarrow> nat" where "t13_Overhead g = gcmTagSize"

definition t13_Seal ::
  "nat \<Rightarrow> GCMForTLS13 \<Rightarrow> slice \<Rightarrow> bytes \<Rightarrow> slice \<Rightarrow> slice \<Rightarrow> (GCMForTLS13 \<times> slice) exec" where
  "t13_Seal fresh g dst nonce plaintext data =
     (if length nonce \<noteq> gcmStandardNonceSize
      then Panic ''crypto/cipher: incorrect nonce length given to GCM''
      else let counter = nonce_counter nonce;
               g = (if \<not> t13_ready g then g\<lparr>t13_ready := True, t13_mask := counter\<rparr> else g);
               counter = counter XOR t13_mask g
           in if counter = MaxUint64 then Panic ''crypto/cipher: counter wrapped''
              else if counter < t13_next g then Panic ''crypto/cipher: counter decreased''
              else let g = g\<lparr>t13_next := counter + 1\<rparr>
                   in exec_bind (sealAfterIndicator fresh (t13_g g) dst nonce plaintext data)
                        (\<lambda>ret. Ret (g, ret)))"

definition t13_Open ::
  "nat \<Rightarrow> GCMForTLS13 \<Rightarrow> slice \<Rightarrow> bytes \<Rightarrow> slice \<Rightarrow> slice \<Rightarrow> (slice \<times> err option) exec" where
  "t13_Open fresh g dst nonce ciphertext data = gcm_Open fresh (t13_g g) dst nonce ciphertext data"

record GCMForSSH =
  ssh_g :: GCM
  ssh_ready :: bool
  ssh_start :: u64
  ssh_next :: u64

definition NewGCMForSSH :: "blockExpanded \<Rightarrow> GCMForSSH exec" where
  "NewGCMForSSH c =
     exec_bind (newGCM c (int gcmStandardNonceSize) (int gcmTagSize)) (\<lambda>g.
     Ret \<lparr>ssh_g = g, ssh_ready = False, ssh_start = 0, ssh_next = 0\<rparr>)"

definition ssh_NonceSize :: "GCMForSSH \<Rightarrow> nat" where "ssh_NonceSize g = gcmStandardNonceSize"
definition ssh_Overhead :: "GCMForSSH \<Rightarrow> nat" where "ssh_Overhead g = gcmTagSize"

definition ssh_Seal ::
  "nat \<Rightarrow> GCMForSSH \<Rightarrow> slice \<Rightarrow> bytes \<Rightarrow> slice \<Rightarrow> slice \<Rightarrow> (GCMForSSH \<times> slice) exec" where
  "ssh_Seal fresh g dst nonce plaintext data =
     (if length nonce \<noteq> gcmStandardNonceSize
      then Panic ''crypto/cipher: incorrect nonce length given to GCM''
      else let counter = nonce_counter nonce;
               g = (if \<not> ssh_ready g then g\<lparr>ssh_ready := True, ssh_start := counter\<rparr> else g);
               counter = counter - ssh_start g
           in if counter = MaxUint64 then Panic ''crypto/cipher: counter wrapped''
              else if counter < ssh_next g then Panic ''crypto/cipher: counter decreased''
              else let g = g\<lparr>ssh_next := counter + 1\<rparr>
                   in exec_bind (sealAfterIndicator fresh (ssh_g g) dst nonce plaintext data)
                        (\<lambda>ret. Ret (g, ret)))"

definition ssh_Open ::
  "nat \<Rightarrow> GCMForSSH \<Rightarrow> slice \<Rightarrow> bytes \<Rightarrow> slice \<Rightarrow> slice \<Rightarrow> (slice \<times> err option) exec" where
  "ssh_Open fresh g dst nonce ciphertext data = gcm_Open fresh (ssh_g g) dst nonce ciphertext data"

section \<open>Sequences of calls\<close>

text \<open>The arguments of one \<open>Seal\<close>, and a run of calls one after the other.\<close>

record seal_args =
  sa_fresh :: nat
  sa_dst :: slice
  sa_nonce :: bytes
  sa_pt :: slice
  sa_ad :: slice

primrec seal_run ::
  "(nat \<Rightarrow> 'g \<Rightarrow> slice \<Rightarrow> bytes \<Rightarrow> slice \<Rightarrow> slice \<Rightarrow> ('g \<times> slice) exec)
     \<Rightarrow> 'g \<Rightarrow> seal_args list \<Rightarrow> ('g \<times> slice list) exec" where
  "seal_run Sl g [] = Ret (g, [])"
| "seal_run Sl g (a # as) =
     exec_bind (Sl (sa_fresh a) g (sa_dst a) (sa_nonce a) (sa_pt a) (sa_ad a)) (\<lambda>(g, out).
     exec_bind (seal_run Sl g as) (\<lambda>(g, outs). Ret (g, out # outs)))"

text \<open>
  The contract: \<open>pos g nonce\<close> is the position a nonce has in the counter of the state
  \<open>g\<close>.  A \<open>Seal\<close> that returns used a nonce at or after the next position and moved the
  next position past it, and once a state is \<open>bound\<close> the positions no longer change.
\<close>

locale counter_nonces =
  fixes Sl :: "nat \<Rightarrow> 'g \<Rightarrow> slice \<Rightarrow> bytes \<Rightarrow> slice \<Rightarrow> slice \<Rightarrow> ('g \<times> slice) exec"
    and pos :: "'g \<Rightarrow> bytes \<Rightarrow> nat"
    and next_pos :: "'g \<Rightarrow> nat"
    and bound :: "'g \<Rightarrow> bool"
  assumes seal_pos: "Sl f g d n p a = Ret (g', r) \<Longrightarrow> next_pos g \<le> pos g' n \<and> next_pos g' = Suc (pos g' n)"
    and seal_bound: "Sl f g d n p a = Ret (g', r) \<Longrightarrow> bound g'"
    and bound_pos: "Sl f g d n p a = Ret (g', r) \<Longrightarrow> bound g \<Longrightarrow> pos g' = pos g"
begin

lemma run_bound:
  assumes "seal_run Sl g as = Ret (g', outs)" "bound g"
  shows "\<forall>a\<in>set as. next_pos g \<le> pos g (sa_nonce a)" and "distinct (map sa_nonce as)"
proof -
  have "(\<forall>a\<in>set as. next_pos g \<le> pos g (sa_nonce a)) \<and> distinct (map sa_nonce as)"
    using assms
  proof (induction as arbitrary: g outs)
    case (Cons a as)
    obtain g1 out outs' where step:
      "Sl (sa_fresh a) g (sa_dst a) (sa_nonce a) (sa_pt a) (sa_ad a) = Ret (g1, out)"
      and rest: "seal_run Sl g1 as = Ret (g', outs')"
      using Cons.prems(1) by (auto simp: exec_simps split: prod.splits)
    note pos = seal_pos [OF step] bound_pos [OF step Cons.prems(2)]
    have "\<forall>b\<in>set as. next_pos g1 \<le> pos g1 (sa_nonce b)" "distinct (map sa_nonce as)"
      using Cons.IH [OF rest seal_bound [OF step]] by auto
    then show ?case
      using pos by fastforce
  qed simp
  then show "\<forall>a\<in>set as. next_pos g \<le> pos g (sa_nonce a)" "distinct (map sa_nonce as)"
    by auto
qed

lemma nonces_distinct:
  assumes "seal_run Sl g as = Ret (g', outs)"
  shows "distinct (map sa_nonce as)"
proof (cases as)
  case (Cons a as')
  obtain g1 out outs' where step:
    "Sl (sa_fresh a) g (sa_dst a) (sa_nonce a) (sa_pt a) (sa_ad a) = Ret (g1, out)"
    and rest: "seal_run Sl g1 as' = Ret (g', outs')"
    using assms by (auto simp: Cons exec_simps split: prod.splits)
  from run_bound [OF rest seal_bound [OF step]] seal_pos [OF step] show ?thesis
    by (auto simp: Cons)
qed simp

end

lemma unat_suc_below: "c \<noteq> MaxUint64 \<Longrightarrow> unat (c + 1) = Suc (unat c)"
proof -
  assume "c \<noteq> MaxUint64"
  moreover have "MaxUint64 = - 1"
    by code_simp
  ultimately have "c + 1 \<noteq> 0"
    by (simp add: add_eq_0_iff2)
  then show "unat (c + 1) = Suc (unat c)"
    using unatSuc [of c] by (simp add: add.commute)
qed

lemmas seal_defs = exec_simps Let_def unat_suc_below word_less_nat_alt not_less

interpretation tls12: counter_nonces t12_Seal "\<lambda>g n. unat (nonce_counter n)"
  "\<lambda>g. unat (t12_next g)" "\<lambda>_. True"
  by unfold_locales (auto simp: t12_Seal_def seal_defs split: if_splits)

interpretation tls13: counter_nonces t13_Seal "\<lambda>g n. unat (nonce_counter n XOR t13_mask g)"
  "\<lambda>g. unat (t13_next g)" t13_ready
  by unfold_locales (auto simp: t13_Seal_def seal_defs split: if_splits)

interpretation ssh: counter_nonces ssh_Seal "\<lambda>g n. unat (nonce_counter n - ssh_start g)"
  "\<lambda>g. unat (ssh_next g)" ssh_ready
  by unfold_locales (auto simp: ssh_Seal_def seal_defs split: if_splits)

interpretation counter: counter_nonces cn_Seal "\<lambda>g n. unat (nonce_counter n - cn_start g)"
  "\<lambda>g. unat (cn_next g)" cn_ready
  by unfold_locales (auto simp: cn_Seal_def seal_defs split: if_splits)

section \<open>Properties\<close>

text \<open>C36: the nonce of GCM is never reused under TLS 1.3: in any sequence of \<open>Seal\<close> calls on one
  \<open>GCMForTLS13\<close>, starting from any of its states, that all return, the nonces are pairwise
  different.\<close>

theorem tls13_nonces_distinct:
  assumes "seal_run t13_Seal g calls = Ret (g', outs)"
  shows "distinct (map sa_nonce calls)"
  using assms by (rule tls13.nonces_distinct)

definition demo_call :: "bytes \<Rightarrow> seal_args" where
  "demo_call nonce =
     \<lparr>sa_fresh = 5000, sa_dst = byte_slice 100 [], sa_nonce = nonce,
      sa_pt = byte_slice 200 [1, 2, 3], sa_ad = byte_slice 300 [4]\<rparr>"

lemma demo_seal:
  assumes "wf_block c"
  obtains out where "\<And>nonce. length nonce = 12 \<Longrightarrow>
     sealAfterIndicator 5000 \<lparr>cipher = c, nonceSize = 12, tagSize = 16\<rparr>
       (byte_slice 100 []) nonce (byte_slice 200 [1, 2, 3]) (byte_slice 300 [4]) = Ret (out nonce)"
proof -
  let ?g = "\<lparr>cipher = c, nonceSize = 12, tagSize = 16\<rparr>"
  let ?tail = "snd (sliceForAppend 5000 (byte_slice 100 []) (slen (byte_slice 200 [1, 2, 3]) + tagSize ?g))"
  have wf: "wf_gcm ?g"
    using assms(1) by (simp add: wf_gcm_def)
  have "\<not> InexactOverlap ?tail (byte_slice 200 [1, 2, 3])" "\<not> AnyOverlap ?tail (byte_slice 300 [4])"
    by (simp_all add: sliceForAppend_def InexactOverlap_def AnyOverlap_def go_copy_def Let_def)
  moreover have "slen (byte_slice 200 [1, 2, 3]) \<le> gcmMaxPlaintext"
    by (simp add: gcmMaxPlaintext_def gcmBlockSize_def)
  ultimately have "\<forall>nonce. \<exists>ret. length nonce = 12 \<longrightarrow> sealAfterIndicator 5000 ?g
      (byte_slice 100 []) nonce (byte_slice 200 [1, 2, 3]) (byte_slice 300 [4]) = Ret ret"
    using gcm_Seal_total [OF wf] by (simp add: gcm_Seal_def)
  then show thesis
    using that by metis
qed

lemma new_wrapped:
  "newGCM c (int gcmStandardNonceSize) (int gcmTagSize) =
     Ret \<lparr>cipher = c, nonceSize = 12, tagSize = 16\<rparr>"
  by (simp add: newGCM_def gcmMinimumTagSize_def gcmBlockSize_def BlockSize_def initGCM_def
      gcmStandardNonceSize_def gcmTagSize_def)

text \<open>Three nonces in increasing order.\<close>

definition demo_nonces :: "bytes list" where
  "demo_nonces = [[1, 1, 1, 1, 1, 1, 1, 1, 1, 1, 1, 4], [1, 1, 1, 1, 1, 1, 1, 1, 1, 1, 1, 5], [1, 1, 1, 1, 1, 1, 1, 1, 1, 1, 1, 6]]"

lemma demo_nonces_counter:
  "nonce_counter ([1, 1, 1, 1, 1, 1, 1, 1, 1, 1, 1, 4]) = 0x0101010101010104"
  "nonce_counter ([1, 1, 1, 1, 1, 1, 1, 1, 1, 1, 1, 5]) = 0x0101010101010105"
  "nonce_counter ([1, 1, 1, 1, 1, 1, 1, 1, 1, 1, 1, 6]) = 0x0101010101010106"
  by (simp_all add: nonce_counter_def get_u64_def get_be_def)

lemma demo_nonces_name:
  "get_u32 (take 4 ([1, 1, 1, 1, 1, 1, 1, 1, 1, 1, 1, 4])) = 0x01010101"
  "get_u32 (take 4 ([1, 1, 1, 1, 1, 1, 1, 1, 1, 1, 1, 5])) = 0x01010101"
  "get_u32 (take 4 ([1, 1, 1, 1, 1, 1, 1, 1, 1, 1, 1, 6])) = 0x01010101"
  by (simp_all add: get_u32_def get_be_def)

lemmas demo_simps = demo_nonces_def demo_call_def Let_def MaxUint64_def gcmStandardNonceSize_def
  demo_nonces_counter demo_nonces_name

lemma demo_runs:
  assumes "wf_block c" and gcm: "gc = \<lparr>cipher = c, nonceSize = 12, tagSize = 16\<rparr>"
  shows
    "\<exists>g outs. seal_run t13_Seal \<lparr>t13_g = gc, t13_ready = False, t13_mask = 0, t13_next = 0\<rparr>
       (map demo_call demo_nonces) = Ret (g, outs)"
    "\<exists>g outs. seal_run t12_Seal \<lparr>t12_g = gc, t12_next = 0\<rparr>
       (map demo_call demo_nonces) = Ret (g, outs)"
    "\<exists>g outs. seal_run ssh_Seal \<lparr>ssh_g = gc, ssh_ready = False, ssh_start = 0, ssh_next = 0\<rparr>
       (map demo_call demo_nonces) = Ret (g, outs)"
    "\<exists>g outs. seal_run cn_Seal
       \<lparr>cn_g = gc, cn_ready = False, cn_fixedName = 0, cn_start = 0, cn_next = 0\<rparr>
       (map demo_call demo_nonces) = Ret (g, outs)"
  by (rule demo_seal [OF assms(1)],
      simp add: demo_simps gcm t13_Seal_def t12_Seal_def ssh_Seal_def cn_Seal_def)+

theorem tls13_nonces_distinct_witness:
  "\<exists>c g g' outs. aes_New (replicate 16 7) = Ret c \<and> NewGCMForTLS13 c = Ret g \<and>
     seal_run t13_Seal g (map demo_call demo_nonces) = Ret (g', outs) \<and>
     distinct (map sa_nonce (map demo_call demo_nonces))"
proof -
  obtain c where c: "aes_New (replicate 16 7) = Ret c"
    using aes_New_total [of "replicate 16 7"] by auto
  obtain g where g: "NewGCMForTLS13 c = Ret g"
    and run: "\<exists>g' outs. seal_run t13_Seal g (map demo_call demo_nonces) = Ret (g', outs)"
    using demo_runs(1) [OF wf_new [OF c] refl] by (simp add: NewGCMForTLS13_def new_wrapped)
  from tls13_nonces_distinct c g run show ?thesis
    by blast
qed

text \<open>The same for the other three wrappers: \<open>GCMForTLS12\<close>, \<open>GCMForSSH\<close> and
  \<open>GCMWithCounterNonce\<close> never let two calls of one object that return share a nonce.\<close>

theorem other_nonces_distinct:
  "(seal_run t12_Seal g1 calls1 = Ret (h1, outs1) \<longrightarrow> distinct (map sa_nonce calls1)) \<and>
   (seal_run ssh_Seal g2 calls2 = Ret (h2, outs2) \<longrightarrow> distinct (map sa_nonce calls2)) \<and>
   (seal_run cn_Seal g3 calls3 = Ret (h3, outs3) \<longrightarrow> distinct (map sa_nonce calls3))"
  using tls12.nonces_distinct ssh.nonces_distinct counter.nonces_distinct by blast

theorem other_nonces_distinct_witness:
  "\<exists>c g1 g2 g3 h1 h2 h3 outs1 outs2 outs3. aes_New (replicate 16 7) = Ret c \<and>
     NewGCMForTLS12 c = Ret g1 \<and> NewGCMForSSH c = Ret g2 \<and> NewGCMWithCounterNonce c = Ret g3 \<and>
     seal_run t12_Seal g1 (map demo_call demo_nonces) = Ret (h1, outs1) \<and>
     seal_run ssh_Seal g2 (map demo_call demo_nonces) = Ret (h2, outs2) \<and>
     seal_run cn_Seal g3 (map demo_call demo_nonces) = Ret (h3, outs3) \<and>
     distinct (map sa_nonce (map demo_call demo_nonces))"
proof -
  obtain c where c: "aes_New (replicate 16 7) = Ret c"
    using aes_New_total [of "replicate 16 7"] by auto
  let ?calls = "map demo_call demo_nonces"
  obtain g1 g2 g3 where g:
    "NewGCMForTLS12 c = Ret g1" "NewGCMForSSH c = Ret g2" "NewGCMWithCounterNonce c = Ret g3"
    and "\<exists>h outs. seal_run t12_Seal g1 ?calls = Ret (h, outs)"
    "\<exists>h outs. seal_run ssh_Seal g2 ?calls = Ret (h, outs)"
    "\<exists>h outs. seal_run cn_Seal g3 ?calls = Ret (h, outs)"
    using demo_runs(2-4) [OF wf_new [OF c] refl]
    by (simp add: NewGCMForTLS12_def NewGCMForSSH_def NewGCMWithCounterNonce_def new_wrapped)
  then obtain h1 h2 h3 o1 o2 o3 where
    "seal_run t12_Seal g1 ?calls = Ret (h1, o1)" "seal_run ssh_Seal g2 ?calls = Ret (h2, o2)"
    "seal_run cn_Seal g3 ?calls = Ret (h3, o3)"
    by blast
  with other_nonces_distinct [of g1 ?calls h1 o1 g2 ?calls h2 o2 g3 ?calls h3 o3] c g show ?thesis
    by blast
qed

end
