(* ===== verification/CipherSuites.thy ===== *)
theory CipherSuites
  imports Constants GcmNonces
begin

text \<open>
  \<open>cipher_suites.go\<close> and \<open>defaults.go\<close>: the tables of cipher suites, their preference
  orders, the selection functions, and the AEAD wrappers that turn a record's sequence
  number into a nonce.  A function value in a table (a key agreement, a cipher, a MAC or
  an AEAD constructor) is a tag here.
\<close>

section \<open>Suite identifiers and tables\<close>

definition TLS_RSA_WITH_RC4_128_SHA :: u16 where "TLS_RSA_WITH_RC4_128_SHA = 0x0005"
definition TLS_RSA_WITH_3DES_EDE_CBC_SHA :: u16 where "TLS_RSA_WITH_3DES_EDE_CBC_SHA = 0x000a"
definition TLS_RSA_WITH_AES_128_CBC_SHA :: u16 where "TLS_RSA_WITH_AES_128_CBC_SHA = 0x002f"
definition TLS_RSA_WITH_AES_256_CBC_SHA :: u16 where "TLS_RSA_WITH_AES_256_CBC_SHA = 0x0035"
definition TLS_RSA_WITH_AES_128_CBC_SHA256 :: u16 where "TLS_RSA_WITH_AES_128_CBC_SHA256 = 0x003c"
definition TLS_RSA_WITH_AES_128_GCM_SHA256 :: u16 where "TLS_RSA_WITH_AES_128_GCM_SHA256 = 0x009c"
definition TLS_RSA_WITH_AES_256_GCM_SHA384 :: u16 where "TLS_RSA_WITH_AES_256_GCM_SHA384 = 0x009d"
definition TLS_ECDHE_ECDSA_WITH_RC4_128_SHA :: u16 where "TLS_ECDHE_ECDSA_WITH_RC4_128_SHA = 0xc007"
definition TLS_ECDHE_ECDSA_WITH_AES_128_CBC_SHA :: u16 where "TLS_ECDHE_ECDSA_WITH_AES_128_CBC_SHA = 0xc009"
definition TLS_ECDHE_ECDSA_WITH_AES_256_CBC_SHA :: u16 where "TLS_ECDHE_ECDSA_WITH_AES_256_CBC_SHA = 0xc00a"
definition TLS_ECDHE_RSA_WITH_RC4_128_SHA :: u16 where "TLS_ECDHE_RSA_WITH_RC4_128_SHA = 0xc011"
definition TLS_ECDHE_RSA_WITH_3DES_EDE_CBC_SHA :: u16 where "TLS_ECDHE_RSA_WITH_3DES_EDE_CBC_SHA = 0xc012"
definition TLS_ECDHE_RSA_WITH_AES_128_CBC_SHA :: u16 where "TLS_ECDHE_RSA_WITH_AES_128_CBC_SHA = 0xc013"
definition TLS_ECDHE_RSA_WITH_AES_256_CBC_SHA :: u16 where "TLS_ECDHE_RSA_WITH_AES_256_CBC_SHA = 0xc014"
definition TLS_ECDHE_ECDSA_WITH_AES_128_CBC_SHA256 :: u16 where "TLS_ECDHE_ECDSA_WITH_AES_128_CBC_SHA256 = 0xc023"
definition TLS_ECDHE_RSA_WITH_AES_128_CBC_SHA256 :: u16 where "TLS_ECDHE_RSA_WITH_AES_128_CBC_SHA256 = 0xc027"
definition TLS_ECDHE_RSA_WITH_AES_128_GCM_SHA256 :: u16 where "TLS_ECDHE_RSA_WITH_AES_128_GCM_SHA256 = 0xc02f"
definition TLS_ECDHE_ECDSA_WITH_AES_128_GCM_SHA256 :: u16 where "TLS_ECDHE_ECDSA_WITH_AES_128_GCM_SHA256 = 0xc02b"
definition TLS_ECDHE_RSA_WITH_AES_256_GCM_SHA384 :: u16 where "TLS_ECDHE_RSA_WITH_AES_256_GCM_SHA384 = 0xc030"
definition TLS_ECDHE_ECDSA_WITH_AES_256_GCM_SHA384 :: u16 where "TLS_ECDHE_ECDSA_WITH_AES_256_GCM_SHA384 = 0xc02c"
definition TLS_ECDHE_RSA_WITH_CHACHA20_POLY1305_SHA256 :: u16 where "TLS_ECDHE_RSA_WITH_CHACHA20_POLY1305_SHA256 = 0xcca8"
definition TLS_ECDHE_ECDSA_WITH_CHACHA20_POLY1305_SHA256 :: u16 where "TLS_ECDHE_ECDSA_WITH_CHACHA20_POLY1305_SHA256 = 0xcca9"
definition TLS_AES_128_GCM_SHA256 :: u16 where "TLS_AES_128_GCM_SHA256 = 0x1301"
definition TLS_AES_256_GCM_SHA384 :: u16 where "TLS_AES_256_GCM_SHA384 = 0x1302"
definition TLS_CHACHA20_POLY1305_SHA256 :: u16 where "TLS_CHACHA20_POLY1305_SHA256 = 0x1303"
definition TLS_FALLBACK_SCSV :: u16 where "TLS_FALLBACK_SCSV = 0x5600"
definition TLS_ECDHE_RSA_WITH_CHACHA20_POLY1305 :: u16 where
  "TLS_ECDHE_RSA_WITH_CHACHA20_POLY1305 = TLS_ECDHE_RSA_WITH_CHACHA20_POLY1305_SHA256"
definition TLS_ECDHE_ECDSA_WITH_CHACHA20_POLY1305 :: u16 where
  "TLS_ECDHE_ECDSA_WITH_CHACHA20_POLY1305 = TLS_ECDHE_ECDSA_WITH_CHACHA20_POLY1305_SHA256"

lemmas suite_ids = TLS_RSA_WITH_RC4_128_SHA_def
  TLS_RSA_WITH_3DES_EDE_CBC_SHA_def
  TLS_RSA_WITH_AES_128_CBC_SHA_def
  TLS_RSA_WITH_AES_256_CBC_SHA_def
  TLS_RSA_WITH_AES_128_CBC_SHA256_def
  TLS_RSA_WITH_AES_128_GCM_SHA256_def
  TLS_RSA_WITH_AES_256_GCM_SHA384_def
  TLS_ECDHE_ECDSA_WITH_RC4_128_SHA_def
  TLS_ECDHE_ECDSA_WITH_AES_128_CBC_SHA_def
  TLS_ECDHE_ECDSA_WITH_AES_256_CBC_SHA_def
  TLS_ECDHE_RSA_WITH_RC4_128_SHA_def
  TLS_ECDHE_RSA_WITH_3DES_EDE_CBC_SHA_def
  TLS_ECDHE_RSA_WITH_AES_128_CBC_SHA_def
  TLS_ECDHE_RSA_WITH_AES_256_CBC_SHA_def
  TLS_ECDHE_ECDSA_WITH_AES_128_CBC_SHA256_def
  TLS_ECDHE_RSA_WITH_AES_128_CBC_SHA256_def
  TLS_ECDHE_RSA_WITH_AES_128_GCM_SHA256_def
  TLS_ECDHE_ECDSA_WITH_AES_128_GCM_SHA256_def
  TLS_ECDHE_RSA_WITH_AES_256_GCM_SHA384_def
  TLS_ECDHE_ECDSA_WITH_AES_256_GCM_SHA384_def
  TLS_ECDHE_RSA_WITH_CHACHA20_POLY1305_SHA256_def
  TLS_ECDHE_ECDSA_WITH_CHACHA20_POLY1305_SHA256_def
  TLS_AES_128_GCM_SHA256_def
  TLS_AES_256_GCM_SHA384_def
  TLS_CHACHA20_POLY1305_SHA256_def
  TLS_FALLBACK_SCSV_def
  TLS_ECDHE_RSA_WITH_CHACHA20_POLY1305_def
  TLS_ECDHE_ECDSA_WITH_CHACHA20_POLY1305_def

text \<open>The constructors a suite refers to.\<close>

datatype ka_fn = RsaKA | EcdheRSAKA | EcdheECDSAKA
datatype cipher_fn = CipherRC4 | Cipher3DES | CipherAES
datatype mac_fn = MacSHA1 | MacSHA256
datatype aead_fn = AeadAESGCM | AeadAESGCMTLS13 | AeadChaCha20Poly1305
datatype crypto_hash = NoHash | SHA1 | SHA256 | SHA384 | SHA512 | MD5SHA1

text \<open>The flags, \<open>1 << iota\<close>.\<close>

definition suiteECDHE :: nat where "suiteECDHE = 1"
definition suiteECSign :: nat where "suiteECSign = 2"
definition suiteTLS12 :: nat where "suiteTLS12 = 4"
definition suiteSHA384 :: nat where "suiteSHA384 = 8"

lemmas suite_flags = suiteECDHE_def suiteECSign_def suiteTLS12_def suiteSHA384_def

record cipherSuite =
  cs_id :: u16
  cs_keyLen :: nat
  cs_macLen :: nat
  cs_ivLen :: nat
  cs_ka :: ka_fn
  cs_flags :: nat
  cs_cipher :: "cipher_fn option"
  cs_mac :: "mac_fn option"
  cs_aead :: "aead_fn option"

definition suite ::
  "u16 \<Rightarrow> nat \<Rightarrow> nat \<Rightarrow> nat \<Rightarrow> ka_fn \<Rightarrow> nat \<Rightarrow> cipher_fn option \<Rightarrow> mac_fn option
     \<Rightarrow> aead_fn option \<Rightarrow> cipherSuite" where
  "suite i k m v ka f c mac a =
     \<lparr>cs_id = i, cs_keyLen = k, cs_macLen = m, cs_ivLen = v, cs_ka = ka, cs_flags = f,
      cs_cipher = c, cs_mac = mac, cs_aead = a\<rparr>"

record cipherSuiteTLS13 =
  cs13_id :: u16
  cs13_keyLen :: nat
  cs13_aead :: aead_fn
  cs13_hash :: crypto_hash

record CipherSuite =
  ID :: u16
  Name :: string
  SupportedVersions :: "u16 list"
  Insecure :: bool

definition cs_info :: "u16 \<Rightarrow> string \<Rightarrow> u16 list \<Rightarrow> bool \<Rightarrow> CipherSuite" where
  "cs_info i n vs ins = \<lparr>ID = i, Name = n, SupportedVersions = vs, Insecure = ins\<rparr>"

definition supportedUpToTLS12 :: "u16 list" where
  "supportedUpToTLS12 = [VersionTLS10, VersionTLS11, VersionTLS12]"
definition supportedOnlyTLS12 :: "u16 list" where "supportedOnlyTLS12 = [VersionTLS12]"
definition supportedOnlyTLS13 :: "u16 list" where "supportedOnlyTLS13 = [VersionTLS13]"

definition cipherSuites :: "cipherSuite list" where
  "cipherSuites =
     [
      suite TLS_ECDHE_RSA_WITH_CHACHA20_POLY1305 32 0 12 EcdheRSAKA (suiteECDHE OR suiteTLS12) (None) (None) (Some AeadChaCha20Poly1305),
      suite TLS_ECDHE_ECDSA_WITH_CHACHA20_POLY1305 32 0 12 EcdheECDSAKA (suiteECDHE OR suiteECSign OR suiteTLS12) (None) (None) (Some AeadChaCha20Poly1305),
      suite TLS_ECDHE_RSA_WITH_AES_128_GCM_SHA256 16 0 4 EcdheRSAKA (suiteECDHE OR suiteTLS12) (None) (None) (Some AeadAESGCM),
      suite TLS_ECDHE_ECDSA_WITH_AES_128_GCM_SHA256 16 0 4 EcdheECDSAKA (suiteECDHE OR suiteECSign OR suiteTLS12) (None) (None) (Some AeadAESGCM),
      suite TLS_ECDHE_RSA_WITH_AES_256_GCM_SHA384 32 0 4 EcdheRSAKA (suiteECDHE OR suiteTLS12 OR suiteSHA384) (None) (None) (Some AeadAESGCM),
      suite TLS_ECDHE_ECDSA_WITH_AES_256_GCM_SHA384 32 0 4 EcdheECDSAKA (suiteECDHE OR suiteECSign OR suiteTLS12 OR suiteSHA384) (None) (None) (Some AeadAESGCM),
      suite TLS_ECDHE_RSA_WITH_AES_128_CBC_SHA256 16 32 16 EcdheRSAKA (suiteECDHE OR suiteTLS12) (Some CipherAES) (Some MacSHA256) (None),
      suite TLS_ECDHE_RSA_WITH_AES_128_CBC_SHA 16 20 16 EcdheRSAKA (suiteECDHE) (Some CipherAES) (Some MacSHA1) (None),
      suite TLS_ECDHE_ECDSA_WITH_AES_128_CBC_SHA256 16 32 16 EcdheECDSAKA (suiteECDHE OR suiteECSign OR suiteTLS12) (Some CipherAES) (Some MacSHA256) (None),
      suite TLS_ECDHE_ECDSA_WITH_AES_128_CBC_SHA 16 20 16 EcdheECDSAKA (suiteECDHE OR suiteECSign) (Some CipherAES) (Some MacSHA1) (None),
      suite TLS_ECDHE_RSA_WITH_AES_256_CBC_SHA 32 20 16 EcdheRSAKA (suiteECDHE) (Some CipherAES) (Some MacSHA1) (None),
      suite TLS_ECDHE_ECDSA_WITH_AES_256_CBC_SHA 32 20 16 EcdheECDSAKA (suiteECDHE OR suiteECSign) (Some CipherAES) (Some MacSHA1) (None),
      suite TLS_RSA_WITH_AES_128_GCM_SHA256 16 0 4 RsaKA (suiteTLS12) (None) (None) (Some AeadAESGCM),
      suite TLS_RSA_WITH_AES_256_GCM_SHA384 32 0 4 RsaKA (suiteTLS12 OR suiteSHA384) (None) (None) (Some AeadAESGCM),
      suite TLS_RSA_WITH_AES_128_CBC_SHA256 16 32 16 RsaKA (suiteTLS12) (Some CipherAES) (Some MacSHA256) (None),
      suite TLS_RSA_WITH_AES_128_CBC_SHA 16 20 16 RsaKA (0) (Some CipherAES) (Some MacSHA1) (None),
      suite TLS_RSA_WITH_AES_256_CBC_SHA 32 20 16 RsaKA (0) (Some CipherAES) (Some MacSHA1) (None),
      suite TLS_ECDHE_RSA_WITH_3DES_EDE_CBC_SHA 24 20 8 EcdheRSAKA (suiteECDHE) (Some Cipher3DES) (Some MacSHA1) (None),
      suite TLS_RSA_WITH_3DES_EDE_CBC_SHA 24 20 8 RsaKA (0) (Some Cipher3DES) (Some MacSHA1) (None),
      suite TLS_RSA_WITH_RC4_128_SHA 16 20 0 RsaKA (0) (Some CipherRC4) (Some MacSHA1) (None),
      suite TLS_ECDHE_RSA_WITH_RC4_128_SHA 16 20 0 EcdheRSAKA (suiteECDHE) (Some CipherRC4) (Some MacSHA1) (None),
      suite TLS_ECDHE_ECDSA_WITH_RC4_128_SHA 16 20 0 EcdheECDSAKA (suiteECDHE OR suiteECSign) (Some CipherRC4) (Some MacSHA1) (None)]"

definition cipherSuitesPreferenceOrder :: "u16 list" where
  "cipherSuitesPreferenceOrder =
     [TLS_ECDHE_ECDSA_WITH_AES_128_GCM_SHA256,
      TLS_ECDHE_RSA_WITH_AES_128_GCM_SHA256,
      TLS_ECDHE_ECDSA_WITH_AES_256_GCM_SHA384,
      TLS_ECDHE_RSA_WITH_AES_256_GCM_SHA384,
      TLS_ECDHE_ECDSA_WITH_CHACHA20_POLY1305,
      TLS_ECDHE_RSA_WITH_CHACHA20_POLY1305,
      TLS_ECDHE_ECDSA_WITH_AES_128_CBC_SHA,
      TLS_ECDHE_RSA_WITH_AES_128_CBC_SHA,
      TLS_ECDHE_ECDSA_WITH_AES_256_CBC_SHA,
      TLS_ECDHE_RSA_WITH_AES_256_CBC_SHA,
      TLS_RSA_WITH_AES_128_GCM_SHA256,
      TLS_RSA_WITH_AES_256_GCM_SHA384,
      TLS_RSA_WITH_AES_128_CBC_SHA,
      TLS_RSA_WITH_AES_256_CBC_SHA,
      TLS_ECDHE_RSA_WITH_3DES_EDE_CBC_SHA,
      TLS_RSA_WITH_3DES_EDE_CBC_SHA,
      TLS_ECDHE_ECDSA_WITH_AES_128_CBC_SHA256,
      TLS_ECDHE_RSA_WITH_AES_128_CBC_SHA256,
      TLS_RSA_WITH_AES_128_CBC_SHA256,
      TLS_ECDHE_ECDSA_WITH_RC4_128_SHA,
      TLS_ECDHE_RSA_WITH_RC4_128_SHA,
      TLS_RSA_WITH_RC4_128_SHA]"

definition cipherSuitesPreferenceOrderNoAES :: "u16 list" where
  "cipherSuitesPreferenceOrderNoAES =
     [TLS_ECDHE_ECDSA_WITH_CHACHA20_POLY1305,
      TLS_ECDHE_RSA_WITH_CHACHA20_POLY1305,
      TLS_ECDHE_ECDSA_WITH_AES_128_GCM_SHA256,
      TLS_ECDHE_RSA_WITH_AES_128_GCM_SHA256,
      TLS_ECDHE_ECDSA_WITH_AES_256_GCM_SHA384,
      TLS_ECDHE_RSA_WITH_AES_256_GCM_SHA384,
      TLS_ECDHE_ECDSA_WITH_AES_128_CBC_SHA,
      TLS_ECDHE_RSA_WITH_AES_128_CBC_SHA,
      TLS_ECDHE_ECDSA_WITH_AES_256_CBC_SHA,
      TLS_ECDHE_RSA_WITH_AES_256_CBC_SHA,
      TLS_RSA_WITH_AES_128_GCM_SHA256,
      TLS_RSA_WITH_AES_256_GCM_SHA384,
      TLS_RSA_WITH_AES_128_CBC_SHA,
      TLS_RSA_WITH_AES_256_CBC_SHA,
      TLS_ECDHE_RSA_WITH_3DES_EDE_CBC_SHA,
      TLS_RSA_WITH_3DES_EDE_CBC_SHA,
      TLS_ECDHE_ECDSA_WITH_AES_128_CBC_SHA256,
      TLS_ECDHE_RSA_WITH_AES_128_CBC_SHA256,
      TLS_RSA_WITH_AES_128_CBC_SHA256,
      TLS_ECDHE_ECDSA_WITH_RC4_128_SHA,
      TLS_ECDHE_RSA_WITH_RC4_128_SHA,
      TLS_RSA_WITH_RC4_128_SHA]"

definition disabledCipherSuites :: "u16 \<Rightarrow> bool" where
  "disabledCipherSuites c \<longleftrightarrow>
     c \<in> set
     [TLS_ECDHE_ECDSA_WITH_AES_128_CBC_SHA256,
      TLS_ECDHE_RSA_WITH_AES_128_CBC_SHA256,
      TLS_RSA_WITH_AES_128_CBC_SHA256,
      TLS_ECDHE_ECDSA_WITH_RC4_128_SHA,
      TLS_ECDHE_RSA_WITH_RC4_128_SHA,
      TLS_RSA_WITH_RC4_128_SHA]"

definition rsaKexCiphers :: "u16 \<Rightarrow> bool" where
  "rsaKexCiphers c \<longleftrightarrow>
     c \<in> set
     [TLS_RSA_WITH_RC4_128_SHA,
      TLS_RSA_WITH_3DES_EDE_CBC_SHA,
      TLS_RSA_WITH_AES_128_CBC_SHA,
      TLS_RSA_WITH_AES_256_CBC_SHA,
      TLS_RSA_WITH_AES_128_CBC_SHA256,
      TLS_RSA_WITH_AES_128_GCM_SHA256,
      TLS_RSA_WITH_AES_256_GCM_SHA384]"

definition tdesCiphers :: "u16 \<Rightarrow> bool" where
  "tdesCiphers c \<longleftrightarrow>
     c \<in> set
     [TLS_ECDHE_RSA_WITH_3DES_EDE_CBC_SHA,
      TLS_RSA_WITH_3DES_EDE_CBC_SHA]"

definition aesgcmCiphers :: "u16 \<Rightarrow> bool" where
  "aesgcmCiphers c \<longleftrightarrow>
     c \<in> set
     [TLS_ECDHE_RSA_WITH_AES_128_GCM_SHA256,
      TLS_ECDHE_RSA_WITH_AES_256_GCM_SHA384,
      TLS_ECDHE_ECDSA_WITH_AES_128_GCM_SHA256,
      TLS_ECDHE_ECDSA_WITH_AES_256_GCM_SHA384,
      TLS_AES_128_GCM_SHA256,
      TLS_AES_256_GCM_SHA384]"

definition CipherSuites_list :: "CipherSuite list" where
  "CipherSuites_list =
     [cs_info TLS_AES_128_GCM_SHA256 ''TLS_AES_128_GCM_SHA256'' supportedOnlyTLS13 False,
      cs_info TLS_AES_256_GCM_SHA384 ''TLS_AES_256_GCM_SHA384'' supportedOnlyTLS13 False,
      cs_info TLS_CHACHA20_POLY1305_SHA256 ''TLS_CHACHA20_POLY1305_SHA256'' supportedOnlyTLS13 False,
      cs_info TLS_ECDHE_ECDSA_WITH_AES_128_CBC_SHA ''TLS_ECDHE_ECDSA_WITH_AES_128_CBC_SHA'' supportedUpToTLS12 False,
      cs_info TLS_ECDHE_ECDSA_WITH_AES_256_CBC_SHA ''TLS_ECDHE_ECDSA_WITH_AES_256_CBC_SHA'' supportedUpToTLS12 False,
      cs_info TLS_ECDHE_RSA_WITH_AES_128_CBC_SHA ''TLS_ECDHE_RSA_WITH_AES_128_CBC_SHA'' supportedUpToTLS12 False,
      cs_info TLS_ECDHE_RSA_WITH_AES_256_CBC_SHA ''TLS_ECDHE_RSA_WITH_AES_256_CBC_SHA'' supportedUpToTLS12 False,
      cs_info TLS_ECDHE_ECDSA_WITH_AES_128_GCM_SHA256 ''TLS_ECDHE_ECDSA_WITH_AES_128_GCM_SHA256'' supportedOnlyTLS12 False,
      cs_info TLS_ECDHE_ECDSA_WITH_AES_256_GCM_SHA384 ''TLS_ECDHE_ECDSA_WITH_AES_256_GCM_SHA384'' supportedOnlyTLS12 False,
      cs_info TLS_ECDHE_RSA_WITH_AES_128_GCM_SHA256 ''TLS_ECDHE_RSA_WITH_AES_128_GCM_SHA256'' supportedOnlyTLS12 False,
      cs_info TLS_ECDHE_RSA_WITH_AES_256_GCM_SHA384 ''TLS_ECDHE_RSA_WITH_AES_256_GCM_SHA384'' supportedOnlyTLS12 False,
      cs_info TLS_ECDHE_RSA_WITH_CHACHA20_POLY1305_SHA256 ''TLS_ECDHE_RSA_WITH_CHACHA20_POLY1305_SHA256'' supportedOnlyTLS12 False,
      cs_info TLS_ECDHE_ECDSA_WITH_CHACHA20_POLY1305_SHA256 ''TLS_ECDHE_ECDSA_WITH_CHACHA20_POLY1305_SHA256'' supportedOnlyTLS12 False]"

definition InsecureCipherSuites :: "CipherSuite list" where
  "InsecureCipherSuites =
     [cs_info TLS_RSA_WITH_RC4_128_SHA ''TLS_RSA_WITH_RC4_128_SHA'' supportedUpToTLS12 True,
      cs_info TLS_RSA_WITH_3DES_EDE_CBC_SHA ''TLS_RSA_WITH_3DES_EDE_CBC_SHA'' supportedUpToTLS12 True,
      cs_info TLS_RSA_WITH_AES_128_CBC_SHA ''TLS_RSA_WITH_AES_128_CBC_SHA'' supportedUpToTLS12 True,
      cs_info TLS_RSA_WITH_AES_256_CBC_SHA ''TLS_RSA_WITH_AES_256_CBC_SHA'' supportedUpToTLS12 True,
      cs_info TLS_RSA_WITH_AES_128_CBC_SHA256 ''TLS_RSA_WITH_AES_128_CBC_SHA256'' supportedOnlyTLS12 True,
      cs_info TLS_RSA_WITH_AES_128_GCM_SHA256 ''TLS_RSA_WITH_AES_128_GCM_SHA256'' supportedOnlyTLS12 True,
      cs_info TLS_RSA_WITH_AES_256_GCM_SHA384 ''TLS_RSA_WITH_AES_256_GCM_SHA384'' supportedOnlyTLS12 True,
      cs_info TLS_ECDHE_ECDSA_WITH_RC4_128_SHA ''TLS_ECDHE_ECDSA_WITH_RC4_128_SHA'' supportedUpToTLS12 True,
      cs_info TLS_ECDHE_RSA_WITH_RC4_128_SHA ''TLS_ECDHE_RSA_WITH_RC4_128_SHA'' supportedUpToTLS12 True,
      cs_info TLS_ECDHE_RSA_WITH_3DES_EDE_CBC_SHA ''TLS_ECDHE_RSA_WITH_3DES_EDE_CBC_SHA'' supportedUpToTLS12 True,
      cs_info TLS_ECDHE_ECDSA_WITH_AES_128_CBC_SHA256 ''TLS_ECDHE_ECDSA_WITH_AES_128_CBC_SHA256'' supportedOnlyTLS12 True,
      cs_info TLS_ECDHE_RSA_WITH_AES_128_CBC_SHA256 ''TLS_ECDHE_RSA_WITH_AES_128_CBC_SHA256'' supportedOnlyTLS12 True]"

definition cipherSuitesTLS13 :: "cipherSuiteTLS13 list" where
  "cipherSuitesTLS13 =
     [\<lparr>cs13_id = TLS_AES_128_GCM_SHA256, cs13_keyLen = 16, cs13_aead = AeadAESGCMTLS13,
       cs13_hash = SHA256\<rparr>,
      \<lparr>cs13_id = TLS_CHACHA20_POLY1305_SHA256, cs13_keyLen = 32, cs13_aead = AeadChaCha20Poly1305,
       cs13_hash = SHA256\<rparr>,
      \<lparr>cs13_id = TLS_AES_256_GCM_SHA384, cs13_keyLen = 32, cs13_aead = AeadAESGCMTLS13,
       cs13_hash = SHA384\<rparr>]"

section \<open>Selection\<close>

definition cipherSuiteByID :: "u16 \<Rightarrow> cipherSuite option" where
  "cipherSuiteByID i = find (\<lambda>s. cs_id s = i) cipherSuites"

definition cipherSuiteTLS13ByID :: "u16 \<Rightarrow> cipherSuiteTLS13 option" where
  "cipherSuiteTLS13ByID i = find (\<lambda>s. cs13_id s = i) cipherSuitesTLS13"

fun mutualCipherSuite :: "u16 list \<Rightarrow> u16 \<Rightarrow> cipherSuite option" where
  "mutualCipherSuite [] want = None"
| "mutualCipherSuite (i # have_rest) want =
     (if i = want then cipherSuiteByID i else mutualCipherSuite have_rest want)"

fun mutualCipherSuiteTLS13 :: "u16 list \<Rightarrow> u16 \<Rightarrow> cipherSuiteTLS13 option" where
  "mutualCipherSuiteTLS13 [] want = None"
| "mutualCipherSuiteTLS13 (i # have_rest) want =
     (if i = want then cipherSuiteTLS13ByID i else mutualCipherSuiteTLS13 have_rest want)"

fun selectCipherSuite ::
  "u16 list \<Rightarrow> u16 list \<Rightarrow> (cipherSuite \<Rightarrow> bool) \<Rightarrow> cipherSuite option" where
  "selectCipherSuite [] supportedIDs ok = None"
| "selectCipherSuite (i # ids) supportedIDs ok =
     (case cipherSuiteByID i of
        None \<Rightarrow> selectCipherSuite ids supportedIDs ok
      | Some candidate \<Rightarrow>
          if \<not> ok candidate then selectCipherSuite ids supportedIDs ok
          else if i \<in> set supportedIDs then Some candidate
          else selectCipherSuite ids supportedIDs ok)"

definition CipherSuiteName :: "u16 \<Rightarrow> string" where
  "CipherSuiteName i =
     (case find (\<lambda>c. ID c = i) CipherSuites_list of
        Some c \<Rightarrow> Name c
      | None \<Rightarrow> (case find (\<lambda>c. ID c = i) InsecureCipherSuites of
                   Some c \<Rightarrow> Name c
                 | None \<Rightarrow> ''0x'' @ hex4 i))"

text \<open>\<open>isAESGCMPreferred\<close> depends on the processor: \<open>hw\<close> is \<open>hasAESGCMHardwareSupport\<close>.\<close>

fun aesgcm_first :: "u16 list \<Rightarrow> bool" where
  "aesgcm_first [] = False"
| "aesgcm_first (cID # ciphers) =
     (if cipherSuiteByID cID \<noteq> None then aesgcmCiphers cID
      else if cipherSuiteTLS13ByID cID \<noteq> None then aesgcmCiphers cID
      else aesgcm_first ciphers)"

definition isAESGCMPreferred :: "bool \<Rightarrow> u16 list \<Rightarrow> bool" where
  "isAESGCMPreferred hw ciphers = (if \<not> hw then False else aesgcm_first ciphers)"

definition supportedCipherSuites :: "bool \<Rightarrow> u16 list" where
  "supportedCipherSuites aesGCMPreferred =
     (if aesGCMPreferred then cipherSuitesPreferenceOrder else cipherSuitesPreferenceOrderNoAES)"

definition defaultCipherSuites :: "bool \<Rightarrow> u16 list" where
  "defaultCipherSuites aesGCMPreferred =
     filter (\<lambda>c. \<not> (disabledCipherSuites c \<or> rsaKexCiphers c \<or> tdesCiphers c))
       (supportedCipherSuites aesGCMPreferred)"

definition defaultCipherSuitesTLS13 :: "u16 list" where
  "defaultCipherSuitesTLS13 =
     [TLS_AES_128_GCM_SHA256, TLS_AES_256_GCM_SHA384, TLS_CHACHA20_POLY1305_SHA256]"

definition defaultCipherSuitesTLS13NoAES :: "u16 list" where
  "defaultCipherSuitesTLS13NoAES =
     [TLS_CHACHA20_POLY1305_SHA256, TLS_AES_128_GCM_SHA256, TLS_AES_256_GCM_SHA384]"

definition defaultCurvePreferences :: "CurveID list" where
  "defaultCurvePreferences = [X25519MLKEM768, X25519, CurveP256, CurveP384, CurveP521]"

definition defaultSupportedSignatureAlgorithms :: "SignatureScheme list" where
  "defaultSupportedSignatureAlgorithms =
     [PSSWithSHA256, ECDSAWithP256AndSHA256, Ed25519, PSSWithSHA384, PSSWithSHA512,
      PKCS1WithSHA256, PKCS1WithSHA384, PKCS1WithSHA512, ECDSAWithP384AndSHA384,
      ECDSAWithP521AndSHA512, PKCS1WithSHA1, ECDSAWithSHA1]"

lemmas suite_tables =
  suite_ids suite_flags suite_def cs_info_def cipherSuites_def cipherSuitesTLS13_def
  cipherSuitesPreferenceOrder_def cipherSuitesPreferenceOrderNoAES_def
  disabledCipherSuites_def rsaKexCiphers_def tdesCiphers_def aesgcmCiphers_def
  CipherSuites_list_def InsecureCipherSuites_def
  supportedUpToTLS12_def supportedOnlyTLS12_def supportedOnlyTLS13_def

section \<open>Properties of the tables\<close>

text \<open>
  The selection is the first identifier of the preference list that is known, passes the
  filter and is offered.
\<close>

definition selectable :: "u16 list \<Rightarrow> (cipherSuite \<Rightarrow> bool) \<Rightarrow> u16 \<Rightarrow> bool" where
  "selectable supportedIDs ok i \<longleftrightarrow>
     i \<in> set supportedIDs \<and> (case cipherSuiteByID i of None \<Rightarrow> False | Some s \<Rightarrow> ok s)"

lemma selectCipherSuite_find:
  "selectCipherSuite ids offered ok =
     Option.bind (find (selectable offered ok) ids) cipherSuiteByID"
  by (induction ids) (auto simp: selectable_def split: option.splits)

lemma cipherSuiteByID_id: "cipherSuiteByID i = Some s \<Longrightarrow> cs_id s = i"
  by (auto simp: cipherSuiteByID_def find_Some_iff)

lemma selectCipherSuite_best:
  "selectCipherSuite ids offered ok = Some s \<longleftrightarrow>
     (\<exists>k<length ids. cipherSuiteByID (ids ! k) = Some s \<and> selectable offered ok (ids ! k) \<and>
        (\<forall>j<k. \<not> selectable offered ok (ids ! j)))"
  unfolding selectCipherSuite_find bind_eq_Some_conv find_Some_iff by blast

text \<open>
  The priority rules in the comment on \<open>cipherSuitesPreferenceOrder\<close>, most important
  first; a suite to which a rule objects has a one in that place.
\<close>

definition priority :: "cipherSuite \<Rightarrow> nat" where
  "priority s =
     foldl (\<lambda>n b. 2 * n + of_bool b) 0
       [cs_cipher s = Some CipherRC4, cs_mac s = Some MacSHA256, cs_cipher s = Some Cipher3DES,
        cs_flags s AND suiteECDHE = 0, cs_aead s = None, cs_aead s = Some AeadChaCha20Poly1305,
        cs_keyLen s = 32, cs_flags s AND suiteECSign = 0]"

definition priority_of :: "u16 \<Rightarrow> nat" where
  "priority_of i = (case cipherSuiteByID i of None \<Rightarrow> 0 | Some s \<Rightarrow> priority s)"

section \<open>The AEAD wrappers\<close>

definition aeadNonceLength :: nat where "aeadNonceLength = 12"
definition noncePrefixLength :: nat where "noncePrefixLength = 4"

text \<open>
  Both wrappers hold a \<open>cipher.AEAD\<close>; its methods \<open>Seal\<close> and \<open>Open\<close> are the parameters
  \<open>Sl\<close> and \<open>Op\<close> of the methods below.
\<close>

type_synonym 'a seal_method =
  "nat \<Rightarrow> 'a \<Rightarrow> slice \<Rightarrow> bytes \<Rightarrow> slice \<Rightarrow> slice \<Rightarrow> ('a \<times> slice) exec"
type_synonym 'a open_method =
  "nat \<Rightarrow> 'a \<Rightarrow> slice \<Rightarrow> bytes \<Rightarrow> slice \<Rightarrow> slice \<Rightarrow> (slice \<times> err option) exec"

record 'a prefixNonceAEAD =
  pn_nonce :: bytes
  pn_aead :: 'a

definition pn_NonceSize :: "'a prefixNonceAEAD \<Rightarrow> nat" where
  "pn_NonceSize f = aeadNonceLength - noncePrefixLength"
definition pn_explicitNonceLen :: "'a prefixNonceAEAD \<Rightarrow> nat" where
  "pn_explicitNonceLen f = pn_NonceSize f"

definition pn_full :: "'a prefixNonceAEAD \<Rightarrow> bytes \<Rightarrow> bytes" where
  "pn_full f nonce = take 4 (pn_nonce f) @ go_copy (drop 4 (pn_nonce f)) nonce"

definition pn_Seal ::
  "'a seal_method \<Rightarrow> nat \<Rightarrow> 'a prefixNonceAEAD \<Rightarrow> slice \<Rightarrow> bytes \<Rightarrow> slice \<Rightarrow> slice
     \<Rightarrow> ('a prefixNonceAEAD \<times> slice) exec" where
  "pn_Seal Sl fresh f out nonce plaintext additionalData =
     (let f = f\<lparr>pn_nonce := pn_full f nonce\<rparr>
      in exec_bind (Sl fresh (pn_aead f) out (pn_nonce f) plaintext additionalData) (\<lambda>(a, ret).
         Ret (f\<lparr>pn_aead := a\<rparr>, ret)))"

definition pn_Open ::
  "'a open_method \<Rightarrow> nat \<Rightarrow> 'a prefixNonceAEAD \<Rightarrow> slice \<Rightarrow> bytes \<Rightarrow> slice \<Rightarrow> slice
     \<Rightarrow> ('a prefixNonceAEAD \<times> slice \<times> err option) exec" where
  "pn_Open Op fresh f out nonce ciphertext additionalData =
     (let f = f\<lparr>pn_nonce := pn_full f nonce\<rparr>
      in exec_bind (Op fresh (pn_aead f) out (pn_nonce f) ciphertext additionalData) (\<lambda>r.
         Ret (f, r)))"

record 'a xorNonceAEAD =
  xn_nonceMask :: bytes
  xn_aead :: 'a

definition xn_NonceSize :: "'a xorNonceAEAD \<Rightarrow> nat" where "xn_NonceSize f = 8"
definition xn_explicitNonceLen :: "'a xorNonceAEAD \<Rightarrow> nat" where "xn_explicitNonceLen f = 0"

text \<open>The loop \<open>f.nonceMask[4+i] ^= b\<close>; the mask is an array of 12 bytes.\<close>

definition xor_mask :: "bytes \<Rightarrow> bytes \<Rightarrow> bytes exec" where
  "xor_mask msk nonce =
     (if 4 + length nonce > length msk then Panic ''index out of range''
      else Ret (take 4 msk @ xor_bytes (take (length nonce) (drop 4 msk)) nonce
                @ drop (4 + length nonce) msk))"

definition xn_Seal ::
  "'a seal_method \<Rightarrow> nat \<Rightarrow> 'a xorNonceAEAD \<Rightarrow> slice \<Rightarrow> bytes \<Rightarrow> slice \<Rightarrow> slice
     \<Rightarrow> ('a xorNonceAEAD \<times> slice) exec" where
  "xn_Seal Sl fresh f out nonce plaintext additionalData =
     exec_bind (xor_mask (xn_nonceMask f) nonce) (\<lambda>n.
     exec_bind (Sl fresh (xn_aead f) out n plaintext additionalData) (\<lambda>(a, result).
     exec_bind (xor_mask n nonce) (\<lambda>m.
     Ret (f\<lparr>xn_nonceMask := m, xn_aead := a\<rparr>, result))))"

definition xn_Open ::
  "'a open_method \<Rightarrow> nat \<Rightarrow> 'a xorNonceAEAD \<Rightarrow> slice \<Rightarrow> bytes \<Rightarrow> slice \<Rightarrow> slice
     \<Rightarrow> ('a xorNonceAEAD \<times> slice \<times> err option) exec" where
  "xn_Open Op fresh f out nonce ciphertext additionalData =
     exec_bind (xor_mask (xn_nonceMask f) nonce) (\<lambda>n.
     exec_bind (Op fresh (xn_aead f) out n ciphertext additionalData) (\<lambda>r.
     exec_bind (xor_mask n nonce) (\<lambda>m.
     Ret (f\<lparr>xn_nonceMask := m\<rparr>, r))))"

text \<open>\<open>if err != nil { panic(err) }\<close>.\<close>

definition must :: "'a exec \<Rightarrow> 'a exec" where
  "must r = (case r of Fail e \<Rightarrow> Panic ''error'' | _ \<Rightarrow> r)"

definition aeadAESGCM :: "bytes \<Rightarrow> bytes \<Rightarrow> GCMForTLS12 prefixNonceAEAD exec" where
  "aeadAESGCM key noncePrefix =
     (if length noncePrefix \<noteq> noncePrefixLength
      then Panic ''tls: internal error: wrong nonce length''
      else exec_bind (must (aes_New key)) (\<lambda>aes.
           exec_bind (must (NewGCMForTLS12 aes)) (\<lambda>aead.
           Ret \<lparr>pn_nonce = go_copy (replicate aeadNonceLength 0) noncePrefix, pn_aead = aead\<rparr>)))"

definition aeadAESGCMTLS13 :: "bytes \<Rightarrow> bytes \<Rightarrow> GCMForTLS13 xorNonceAEAD exec" where
  "aeadAESGCMTLS13 key nonceMask =
     (if length nonceMask \<noteq> aeadNonceLength
      then Panic ''tls: internal error: wrong nonce length''
      else exec_bind (must (aes_New key)) (\<lambda>aes.
           exec_bind (must (NewGCMForTLS13 aes)) (\<lambda>aead.
           Ret \<lparr>xn_nonceMask = go_copy (replicate aeadNonceLength 0) nonceMask, xn_aead = aead\<rparr>)))"

text \<open>\<open>chacha20poly1305.New\<close> is the parameter \<open>chacha_New\<close>.\<close>

definition aeadChaCha20Poly1305 ::
  "(bytes \<Rightarrow> 'k exec) \<Rightarrow> bytes \<Rightarrow> bytes \<Rightarrow> 'k xorNonceAEAD exec" where
  "aeadChaCha20Poly1305 chacha_New key nonceMask =
     (if length nonceMask \<noteq> aeadNonceLength
      then Panic ''tls: internal error: wrong nonce length''
      else exec_bind (must (chacha_New key)) (\<lambda>aead.
           Ret \<lparr>xn_nonceMask = go_copy (replicate aeadNonceLength 0) nonceMask, xn_aead = aead\<rparr>))"

section \<open>Nonces of the wrappers\<close>

lemma xor_mask_restores:
  assumes "xor_mask msk nonce = Ret n"
  shows "xor_mask n nonce = Ret msk"
proof -
  have le: "4 + length nonce \<le> length msk"
    using assms by (simp add: xor_mask_def split: if_splits)
  define mid where "mid = take (length nonce) (drop 4 msk)"
  have mid: "length mid = length nonce"
    using le by (simp add: mid_def)
  have msk: "msk = take 4 msk @ mid @ drop (4 + length nonce) msk"
    by (simp add: mid_def) (metis add.commute append_take_drop_id drop_drop)
  have n: "n = take 4 msk @ xor_bytes mid nonce @ drop (4 + length nonce) msk"
    using assms le by (simp add: xor_mask_def mid_def)
  have "take 4 n = take 4 msk" "take (length nonce) (drop 4 n) = xor_bytes mid nonce"
    "drop (4 + length nonce) n = drop (4 + length nonce) msk" "length n = length msk"
    using le mid by (simp_all add: n min_absorb2)
  then show ?thesis
    using le mid msk by (simp add: xor_mask_def)
qed

text \<open>The wrapper leaves its msk as it was, and only the inner state moves.\<close>

lemma xn_Seal_mask:
  assumes "xn_Seal Sl fresh f out nonce pt ad = Ret (f', r)"
  obtains n where "xor_mask (xn_nonceMask f) nonce = Ret n"
    "Sl fresh (xn_aead f) out n pt ad = Ret (xn_aead f', r)" "xn_nonceMask f' = xn_nonceMask f"
proof -
  from assms obtain n a m where n: "xor_mask (xn_nonceMask f) nonce = Ret n"
    and a: "Sl fresh (xn_aead f) out n pt ad = Ret (a, r)" and m: "xor_mask n nonce = Ret m"
    and f': "f' = f\<lparr>xn_nonceMask := m, xn_aead := a\<rparr>"
    by (auto simp: xn_Seal_def exec_bind_Ret_iff split: prod.splits)
  moreover have "m = xn_nonceMask f"
    using xor_mask_restores [OF n] m by simp
  ultimately show thesis
    using that [of n] by simp
qed

lemma xn_Open_mask:
  assumes "xn_Open Op fresh f out nonce ct ad = Ret (f', r)"
  shows "f' = f"
proof -
  from assms obtain n m where n: "xor_mask (xn_nonceMask f) nonce = Ret n"
    and m: "xor_mask n nonce = Ret m" and f': "f' = f\<lparr>xn_nonceMask := m\<rparr>"
    by (auto simp: xn_Open_def exec_bind_Ret_iff)
  then show ?thesis
    using xor_mask_restores [OF n] by simp
qed

lemma nonce_counter_xor:
  assumes "length msk = 12" "xor_mask msk (put_u64 s) = Ret n"
  shows "nonce_counter n = nonce_counter msk XOR s" and "length n = 12"
proof -
  have n: "n = take 4 msk @ xor_bytes (drop 4 msk) (put_u64 s)"
    using assms by (simp add: xor_mask_def)
  then show "length n = 12"
    using assms(1) by simp
  show "nonce_counter n = nonce_counter msk XOR s"
    using assms(1) by (simp add: nonce_counter_def n get_u64_xor)
qed

section \<open>Properties\<close>

text \<open>The server's choice of a TLS 1.0-1.2 suite is the best one: \<open>selectCipherSuite\<close> returns
  a suite exactly when some identifier of the preference list is known, passes the filter
  and is offered by the peer, and then it returns the first such identifier, never a lower
  one.\<close>

theorem selectCipherSuite_first:
  "selectCipherSuite ids offered ok = Some s \<longleftrightarrow>
     (\<exists>k<length ids. cipherSuiteByID (ids ! k) = Some s \<and> selectable offered ok (ids ! k) \<and>
        (\<forall>j<k. \<not> selectable offered ok (ids ! j)))"
  by (rule selectCipherSuite_best)

theorem selectCipherSuite_first_witness:
  "\<exists>s. selectCipherSuite [TLS_AES_128_GCM_SHA256, TLS_RSA_WITH_AES_128_CBC_SHA, TLS_RSA_WITH_RC4_128_SHA]
     [TLS_RSA_WITH_RC4_128_SHA, TLS_RSA_WITH_AES_128_CBC_SHA] (\<lambda>s. cs_macLen s = 20) = Some s \<and>
     cs_id s = TLS_RSA_WITH_AES_128_CBC_SHA"
proof -
  let ?ids = "[TLS_AES_128_GCM_SHA256, TLS_RSA_WITH_AES_128_CBC_SHA, TLS_RSA_WITH_RC4_128_SHA]"
  let ?off = "[TLS_RSA_WITH_RC4_128_SHA, TLS_RSA_WITH_AES_128_CBC_SHA]"
  define s where "s = suite TLS_RSA_WITH_AES_128_CBC_SHA 16 20 16 RsaKA 0 (Some CipherAES) (Some MacSHA1) None"
  have byID: "cipherSuiteByID TLS_RSA_WITH_AES_128_CBC_SHA = Some s"
    by (simp add: cipherSuiteByID_def suite_tables s_def)
  have "selectCipherSuite ?ids ?off (\<lambda>s. cs_macLen s = 20) = Some s"
    unfolding selectCipherSuite_first
    using byID
    by (intro exI [of _ 1]) (simp add: selectable_def s_def suite_def suite_ids cipherSuiteByID_def)
  moreover have "cs_id s = TLS_RSA_WITH_AES_128_CBC_SHA"
    by (simp add: s_def suite_def)
  ultimately show ?thesis
    by blast
qed

text \<open>The preference list follows its own rules: \<open>cipherSuitesPreferenceOrder\<close> lists every
  implemented TLS 1.0-1.2 suite exactly once, and it is sorted by the priority rules
  written above it (RC4 last, then CBC-SHA256, then 3DES; ECDHE first, AEAD before CBC, AES
  before ChaCha20, AES-128 before AES-256, ECDSA before RSA); the order for machines without
  AES hardware is a rearrangement of the same suites.\<close>

theorem preference_order_sorted:
  "sorted (map priority_of cipherSuitesPreferenceOrder) \<and>
   distinct cipherSuitesPreferenceOrder \<and>
   set cipherSuitesPreferenceOrder = cs_id ` set cipherSuites \<and>
   distinct cipherSuitesPreferenceOrderNoAES \<and>
   set cipherSuitesPreferenceOrderNoAES = set cipherSuitesPreferenceOrder"
  by code_simp

text \<open>What a suite that is on by default must satisfy.\<close>

definition default_ok :: "u16 \<Rightarrow> bool" where
  "default_ok i =
     (case cipherSuiteByID i of
        None \<Rightarrow> False
      | Some s \<Rightarrow> cs_flags s AND suiteECDHE \<noteq> 0 \<and> cs_cipher s \<noteq> Some CipherRC4 \<and>
                  cs_cipher s \<noteq> Some Cipher3DES \<and> cs_mac s \<noteq> Some MacSHA256)"

text \<open>What is on by default: whichever order is used, every suite of \<open>defaultCipherSuites\<close> is
  implemented, uses ephemeral Diffie-Hellman, and is neither RC4, nor 3DES, nor a CBC suite
  with SHA-256.\<close>

theorem default_suites_secure: "list_all default_ok (defaultCipherSuites aes)"
proof -
  have "list_all default_ok (defaultCipherSuites True)" "list_all default_ok (defaultCipherSuites False)"
    by code_simp+
  then show ?thesis
    by (cases aes) simp_all
qed

text \<open>The wrapper restores its mask: a call of \<open>xorNonceAEAD.Seal\<close> that returns passes to the
  inner AEAD the mask exclusive-ored with the sequence number in its last eight bytes, and
  afterwards the mask is what it was before.\<close>

theorem xor_nonce_restored:
  assumes "length (xn_nonceMask f) = 12"
    and "xn_Seal Sl fresh f out (put_u64 seq) pt ad = Ret (f', r)"
  shows "\<exists>n. length n = 12 \<and> take 4 n = take 4 (xn_nonceMask f) \<and>
     nonce_counter n = nonce_counter (xn_nonceMask f) XOR seq \<and>
     Sl fresh (xn_aead f) out n pt ad = Ret (xn_aead f', r) \<and>
     xn_nonceMask f' = xn_nonceMask f"
proof -
  obtain n where n: "xor_mask (xn_nonceMask f) (put_u64 seq) = Ret n"
    "Sl fresh (xn_aead f) out n pt ad = Ret (xn_aead f', r)" "xn_nonceMask f' = xn_nonceMask f"
    using xn_Seal_mask [OF assms(2)] .
  moreover have "take 4 n = take 4 (xn_nonceMask f)"
    using n(1) by (auto simp: xor_mask_def min_def split: if_splits)
  ultimately show ?thesis
    using nonce_counter_xor [OF assms(1) n(1)] by blast
qed

theorem xor_nonce_restored_witness:
  "\<exists>f' r n. xn_Seal (\<lambda>_ a _ nonce _ _. Ret (a @ [nonce], byte_slice 0 nonce)) 0
      \<lparr>xn_nonceMask = replicate 12 5, xn_aead = []\<rparr> (byte_slice 0 []) (put_u64 3)
      (byte_slice 0 []) (byte_slice 0 []) = Ret (f', r) \<and>
     xn_nonceMask f' = replicate 12 5 \<and> xn_aead f' = [n] \<and>
     nonce_counter n = nonce_counter (replicate 12 5) XOR 3"
proof -
  let ?Sl = "\<lambda>_ a _ nonce _ _. Ret (a @ [nonce], byte_slice 0 nonce)"
  let ?f = "\<lparr>xn_nonceMask = replicate 12 5, xn_aead = [] :: bytes list\<rparr>"
  obtain f' r where run: "xn_Seal ?Sl 0 ?f (byte_slice 0 []) (put_u64 3) (byte_slice 0 [])
      (byte_slice 0 []) = Ret (f', r)"
    by (simp add: xn_Seal_def xor_mask_def)
  from xor_nonce_restored [OF _ this] obtain n where
    "[n] = xn_aead f'" "nonce_counter n = nonce_counter (replicate 12 5) XOR 3"
    "xn_nonceMask f' = replicate 12 5"
    by auto
  with run show ?thesis
    by (metis (no_types, lifting))
qed

section \<open>Progress of the TLS 1.3 wrapper\<close>

text \<open>
  Buffers that \<open>Seal\<close> accepts, and a connection that seals its records with the sequence
  numbers 0, 1, 2, ... in turn.
\<close>

definition seal_ready :: "GCM \<Rightarrow> seal_args \<Rightarrow> bool" where
  "seal_ready g a \<longleftrightarrow>
     slen (sa_pt a) \<le> gcmMaxPlaintext \<and>
     \<not> InexactOverlap (snd (sliceForAppend (sa_fresh a) (sa_dst a) (slen (sa_pt a) + tagSize g))) (sa_pt a) \<and>
     \<not> AnyOverlap (snd (sliceForAppend (sa_fresh a) (sa_dst a) (slen (sa_pt a) + tagSize g))) (sa_ad a)"

primrec seal_records ::
  "'a seal_method \<Rightarrow> (nat \<Rightarrow> seal_args) \<Rightarrow> nat \<Rightarrow> 'a xorNonceAEAD \<Rightarrow> 'a xorNonceAEAD exec" where
  "seal_records Sl args 0 f = Ret f"
| "seal_records Sl args (Suc k) f =
     exec_bind (seal_records Sl args k f) (\<lambda>f.
     exec_bind (xn_Seal Sl (sa_fresh (args k)) f (sa_dst (args k)) (put_u64 (of_nat k))
                  (sa_pt (args k)) (sa_ad (args k))) (\<lambda>(f, out). Ret f))"

definition tls13_at :: "nat \<Rightarrow> GCM \<Rightarrow> bytes \<Rightarrow> GCMForTLS13 xorNonceAEAD \<Rightarrow> bool" where
  "tls13_at k g m f \<longleftrightarrow>
     xn_nonceMask f = m \<and> t13_g (xn_aead f) = g \<and>
     (if k = 0 then \<not> t13_ready (xn_aead f) \<and> t13_next (xn_aead f) = 0
      else t13_ready (xn_aead f) \<and> t13_mask (xn_aead f) = nonce_counter m \<and>
           t13_next (xn_aead f) = of_nat k)"

lemma tls13_step:
  assumes at: "tls13_at k g m f" and m: "length m = 12" and wf: "wf_gcm g" and n: "nonceSize g = 12"
    and ready: "seal_ready g a" and k: "k < 2 ^ 64 - 1"
  shows "\<exists>f' out. xn_Seal t13_Seal (sa_fresh a) f (sa_dst a) (put_u64 (of_nat k)) (sa_pt a) (sa_ad a) =
      Ret (f', out) \<and> tls13_at (Suc k) g m f'"
proof -
  obtain nn where nn: "xor_mask m (put_u64 (of_nat k)) = Ret nn"
    using m by (simp add: xor_mask_def)
  note ctr = nonce_counter_xor [OF m nn]
  obtain ret where ret: "sealAfterIndicator (sa_fresh a) g (sa_dst a) nn (sa_pt a) (sa_ad a) = Ret ret"
    using gcm_Seal_total [OF wf, of nn "sa_pt a" "sa_fresh a" "sa_dst a" "sa_ad a"] ready n ctr(2)
    by (auto simp: seal_ready_def gcm_Seal_def)
  have max: "(of_nat k :: u64) \<noteq> MaxUint64"
  proof
    assume "(of_nat k :: u64) = MaxUint64"
    then have "unat (of_nat k :: u64) = 2 ^ 64 - 1"
      by (simp add: MaxUint64_def)
    with k show False
      by (simp add: unat_of_nat)
  qed
  have cancel: "(c XOR w) XOR c = w" for c w :: u64
    by (metis xor.commute xor_self_left)
  have inner: "\<exists>h. t13_Seal (sa_fresh a) (xn_aead f) (sa_dst a) nn (sa_pt a) (sa_ad a) = Ret (h, ret) \<and>
      t13_g h = g \<and> t13_ready h \<and> t13_mask h = nonce_counter m \<and> t13_next h = of_nat (Suc k)"
    using at ret max ctr
    by (cases "k = 0") (auto simp: tls13_at_def t13_Seal_def gcmStandardNonceSize_def Let_def
        add.commute cancel)
  then show ?thesis
    using nn xor_mask_restores [OF nn] at
    by (auto simp: xn_Seal_def tls13_at_def)
qed

text \<open>Sealing with consecutive sequence numbers never panics: on a fresh
  \<open>aeadAESGCMTLS13\<close>, the first \<open>k\<close> records, numbered 0 to \<open>k - 1\<close>, are all sealed, for every
  \<open>k\<close> up to \<open>2^64 - 1\<close>, as long as each call's buffers are usable.  The counter check of
  \<open>GCMForTLS13\<close> never rejects them.\<close>

theorem tls13_sequence_never_panics:
  assumes "aeadAESGCMTLS13 key m = Ret f"
    and "\<And>i. seal_ready (t13_g (xn_aead f)) (args i)" and "k \<le> 2 ^ 64 - 1"
  shows "\<exists>f'. seal_records t13_Seal args k f = Ret f' \<and> xn_nonceMask f' = m"
proof -
  define g where "g = t13_g (xn_aead f)"
  obtain c where c: "aes_New key = Ret c" and f: "f = \<lparr>xn_nonceMask = m, xn_aead =
      \<lparr>t13_g = \<lparr>cipher = c, nonceSize = 12, tagSize = 16\<rparr>, t13_ready = False, t13_mask = 0, t13_next = 0\<rparr>\<rparr>"
    and m: "length m = 12"
    using assms(1) by (auto simp: aeadAESGCMTLS13_def must_def NewGCMForTLS13_def new_wrapped
        aeadNonceLength_def exec_simps split: if_splits exec.splits)
  have wf: "wf_gcm g" "nonceSize g = 12"
    using wf_new [OF c] by (simp_all add: g_def f wf_gcm_def)
  have "\<exists>f'. seal_records t13_Seal args k f = Ret f' \<and> tls13_at k g m f'"
    using assms(3)
  proof (induction k)
    case 0
    then show ?case
      by (simp add: tls13_at_def g_def f)
  next
    case (Suc k)
    then obtain f1 where f1: "seal_records t13_Seal args k f = Ret f1" "tls13_at k g m f1"
      by auto
    with tls13_step [OF f1(2) m wf assms(2) [folded g_def, of k]] Suc.prems show ?case
      by auto
  qed
  then show ?thesis
    by (auto simp: tls13_at_def)
qed

theorem tls13_sequence_never_panics_witness:
  "\<exists>f f'. aeadAESGCMTLS13 (replicate 32 9) (replicate 12 5) = Ret f \<and>
     seal_records t13_Seal (\<lambda>_. demo_call []) 1000 f = Ret f' \<and> xn_nonceMask f' = replicate 12 5"
proof -
  obtain c where c: "aes_New (replicate 32 9) = Ret c"
    using aes_New_total [of "replicate 32 9"] by auto
  define f where "f = \<lparr>xn_nonceMask = replicate 12 5, xn_aead =
      \<lparr>t13_g = \<lparr>cipher = c, nonceSize = 12, tagSize = 16\<rparr>, t13_ready = False, t13_mask = 0, t13_next = 0\<rparr>\<rparr>"
  have f: "aeadAESGCMTLS13 (replicate 32 9) (replicate 12 5) = Ret f"
    by (simp add: aeadAESGCMTLS13_def must_def c NewGCMForTLS13_def new_wrapped aeadNonceLength_def
        f_def)
  have "seal_ready (t13_g (xn_aead f)) (demo_call [])"
    by (simp add: seal_ready_def demo_call_def f_def gcmMaxPlaintext_def gcmBlockSize_def
        sliceForAppend_def InexactOverlap_def AnyOverlap_def go_copy_def Let_def)
  with tls13_sequence_never_panics [OF f, of "\<lambda>_. demo_call []" 1000] f show ?thesis
    by auto
qed

end
