(* ===== verification/KeySchedule.thy ===== *)
theory KeySchedule
  imports CipherSuites
begin

text \<open>
  Key derivation: the packages \<open>tls12\<close> and \<open>tls13\<close>, \<open>prf.go\<close> and \<open>key_schedule.go\<close>.
  A hash function is a record of its output size, its block size and the function itself;
  HMAC and HKDF of the Go library are defined over it, and the four hash functions of the
  library that TLS uses are the parameter \<open>std_hashes\<close>.  A \<open>hash.Hash\<close> object is the
  function together with the bytes written to it so far.
\<close>

section \<open>Hash functions, HMAC and HKDF\<close>

record hash_fn =
  h_size :: nat
  h_block :: nat
  h_sum :: "bytes \<Rightarrow> bytes"

record digest =
  d_hash :: hash_fn
  d_data :: bytes

definition d_new :: "hash_fn \<Rightarrow> digest" where "d_new h = \<lparr>d_hash = h, d_data = []\<rparr>"
definition d_write :: "digest \<Rightarrow> bytes \<Rightarrow> digest" where "d_write d p = d\<lparr>d_data := d_data d @ p\<rparr>"
definition d_sum :: "digest \<Rightarrow> bytes" where "d_sum d = h_sum (d_hash d) (d_data d)"

definition hmac_key :: "hash_fn \<Rightarrow> bytes \<Rightarrow> bytes" where
  "hmac_key h k =
     (let k' = (if length k > h_block h then h_sum h k else k)
      in k' @ replicate (h_block h - length k') 0)"

definition hmac :: "hash_fn \<Rightarrow> bytes \<Rightarrow> bytes \<Rightarrow> bytes" where
  "hmac h k m =
     h_sum h (map ((XOR) 0x5c) (hmac_key h k) @ h_sum h (map ((XOR) 0x36) (hmac_key h k) @ m))"

primrec hkdf_block :: "hash_fn \<Rightarrow> bytes \<Rightarrow> bytes \<Rightarrow> nat \<Rightarrow> bytes" where
  "hkdf_block h prk info 0 = []"
| "hkdf_block h prk info (Suc i) =
     hmac h prk (hkdf_block h prk info i @ info @ [of_nat (Suc i)])"

text \<open>\<open>crypto/hkdf\<close>: \<open>Expand\<close> refuses more than 255 blocks; a nil salt is a zero key.\<close>

definition hkdf_Expand :: "hash_fn \<Rightarrow> bytes \<Rightarrow> bytes \<Rightarrow> nat \<Rightarrow> bytes exec" where
  "hkdf_Expand h prk info n =
     (if n > 255 * h_size h then Fail (ErrMsg ''hkdf: requested key length too large'')
      else Ret (take n (concat (map (hkdf_block h prk info)
             [1..<Suc ((n + h_size h - 1) div h_size h)]))))"

definition hkdf_Extract :: "hash_fn \<Rightarrow> bytes \<Rightarrow> bytes option \<Rightarrow> bytes exec" where
  "hkdf_Extract h secret salt =
     Ret (hmac h (case salt of None \<Rightarrow> replicate (h_size h) 0 | Some s \<Rightarrow> s) secret)"

text \<open>\<open>b, _ := f()\<close>: a nil slice when \<open>f\<close> returned an error.\<close>

definition ignore_error :: "bytes exec \<Rightarrow> bytes exec" where
  "ignore_error r = (case r of Fail e \<Rightarrow> Ret [] | _ \<Rightarrow> r)"

record std_hashes =
  md5_h :: hash_fn
  sha1_h :: hash_fn
  sha256_h :: hash_fn
  sha384_h :: hash_fn
  sha512_h :: hash_fn

primrec hash_New :: "std_hashes \<Rightarrow> crypto_hash \<Rightarrow> hash_fn exec" where
  "hash_New H NoHash = Panic ''crypto: requested hash function #0 is unavailable''"
| "hash_New H SHA1 = Ret (sha1_h H)"
| "hash_New H SHA256 = Ret (sha256_h H)"
| "hash_New H SHA384 = Ret (sha384_h H)"
| "hash_New H SHA512 = Ret (sha512_h H)"
| "hash_New H MD5SHA1 = Panic ''crypto: requested hash function #8 is unavailable''"

section \<open>Package \<open>tls12\<close>\<close>

text \<open>
  The loop of \<open>pHash\<close>, on the number of bytes left to fill.  It would not end for a hash
  with an empty output, so it is a partial function: \<open>None\<close> is not returning.
\<close>

partial_function (option) tls12_pHash_loop ::
  "hash_fn \<Rightarrow> bytes \<Rightarrow> bytes \<Rightarrow> nat \<Rightarrow> bytes \<Rightarrow> bytes option" where
  "tls12_pHash_loop h secret seed left a =
     (if left = 0 then Some []
      else let b = hmac h secret (a @ seed);
               n = min left (length b)
           in Option.bind (tls12_pHash_loop h secret seed (left - n) (hmac h secret a)) (\<lambda>rest.
              Some (take n b @ rest)))"

definition tls12_pHash :: "hash_fn \<Rightarrow> nat \<Rightarrow> bytes \<Rightarrow> bytes \<Rightarrow> bytes option" where
  "tls12_pHash h result_len secret seed =
     tls12_pHash_loop h secret seed result_len (hmac h secret seed)"

definition tls12_PRF :: "hash_fn \<Rightarrow> bytes \<Rightarrow> string \<Rightarrow> bytes \<Rightarrow> nat \<Rightarrow> bytes option" where
  "tls12_PRF h secret label seed keyLen =
     (let labelAndSeed = str_bytes label @ seed
      in tls12_pHash h keyLen secret labelAndSeed)"

definition masterSecretLength :: nat where "masterSecretLength = 48"
definition extendedMasterSecretLabel :: string where
  "extendedMasterSecretLabel = ''extended master secret''"

definition tls12_MasterSecret :: "hash_fn \<Rightarrow> bytes \<Rightarrow> bytes \<Rightarrow> bytes option" where
  "tls12_MasterSecret h preMasterSecret transcript =
     tls12_PRF h preMasterSecret extendedMasterSecretLabel transcript masterSecretLength"

section \<open>Package \<open>tls13\<close>\<close>

definition hkdfLabel :: "nat \<Rightarrow> string \<Rightarrow> bytes \<Rightarrow> bytes" where
  "hkdfLabel n label context =
     put_be 2 n @ [of_nat (length ''tls13 '' + length label)] @ str_bytes ''tls13 ''
     @ str_bytes label @ [of_nat (length context)] @ context"

definition ExpandLabel :: "hash_fn \<Rightarrow> bytes \<Rightarrow> string \<Rightarrow> bytes \<Rightarrow> nat \<Rightarrow> bytes exec" where
  "ExpandLabel h secret label context n =
     (if length ''tls13 '' + length label > 255 \<or> length context > 255
      then Panic ''tls13: label or context too long''
      else ignore_error (hkdf_Expand h secret (hkdfLabel n label context) n))"

definition tls13_extract :: "hash_fn \<Rightarrow> bytes option \<Rightarrow> bytes option \<Rightarrow> bytes exec" where
  "tls13_extract h newSecret currentSecret =
     (let newSecret = (case newSecret of None \<Rightarrow> replicate (h_size h) 0 | Some s \<Rightarrow> s)
      in ignore_error (hkdf_Extract h newSecret currentSecret))"

definition deriveSecret :: "hash_fn \<Rightarrow> bytes \<Rightarrow> string \<Rightarrow> digest option \<Rightarrow> bytes exec" where
  "deriveSecret h secret label transcript =
     (let t = (case transcript of None \<Rightarrow> d_new h | Some t \<Rightarrow> t)
      in ExpandLabel h secret label (d_sum t) (h_size (d_hash t)))"

definition resumptionBinderLabel :: string where "resumptionBinderLabel = ''res binder''"
definition clientEarlyTrafficLabel :: string where "clientEarlyTrafficLabel = ''c e traffic''"
definition clientHandshakeTrafficLabel :: string where
  "clientHandshakeTrafficLabel = ''c hs traffic''"
definition serverHandshakeTrafficLabel :: string where
  "serverHandshakeTrafficLabel = ''s hs traffic''"
definition clientApplicationTrafficLabel :: string where
  "clientApplicationTrafficLabel = ''c ap traffic''"
definition serverApplicationTrafficLabel :: string where
  "serverApplicationTrafficLabel = ''s ap traffic''"
definition earlyExporterLabel :: string where "earlyExporterLabel = ''e exp master''"
definition exporterLabel :: string where "exporterLabel = ''exp master''"
definition resumptionLabel :: string where "resumptionLabel = ''res master''"

lemmas tls13_labels =
  resumptionBinderLabel_def clientEarlyTrafficLabel_def clientHandshakeTrafficLabel_def
  serverHandshakeTrafficLabel_def clientApplicationTrafficLabel_def
  serverApplicationTrafficLabel_def earlyExporterLabel_def exporterLabel_def resumptionLabel_def

record EarlySecret =
  es_secret :: bytes
  es_hash :: hash_fn

definition NewEarlySecret :: "hash_fn \<Rightarrow> bytes option \<Rightarrow> EarlySecret exec" where
  "NewEarlySecret h psk =
     exec_bind (tls13_extract h psk None) (\<lambda>s. Ret \<lparr>es_secret = s, es_hash = h\<rparr>)"

definition ResumptionBinderKey :: "EarlySecret \<Rightarrow> bytes exec" where
  "ResumptionBinderKey s = deriveSecret (es_hash s) (es_secret s) resumptionBinderLabel None"

definition ClientEarlyTrafficSecret :: "EarlySecret \<Rightarrow> digest \<Rightarrow> bytes exec" where
  "ClientEarlyTrafficSecret s transcript =
     deriveSecret (es_hash s) (es_secret s) clientEarlyTrafficLabel (Some transcript)"

record HandshakeSecret =
  hs_secret :: bytes
  hs_hash :: hash_fn

definition es_HandshakeSecret :: "EarlySecret \<Rightarrow> bytes option \<Rightarrow> HandshakeSecret exec" where
  "es_HandshakeSecret s sharedSecret =
     exec_bind (deriveSecret (es_hash s) (es_secret s) ''derived'' None) (\<lambda>derived.
     exec_bind (tls13_extract (es_hash s) sharedSecret (Some derived)) (\<lambda>x.
     Ret \<lparr>hs_secret = x, hs_hash = es_hash s\<rparr>))"

definition ClientHandshakeTrafficSecret :: "HandshakeSecret \<Rightarrow> digest \<Rightarrow> bytes exec" where
  "ClientHandshakeTrafficSecret s transcript =
     deriveSecret (hs_hash s) (hs_secret s) clientHandshakeTrafficLabel (Some transcript)"

definition ServerHandshakeTrafficSecret :: "HandshakeSecret \<Rightarrow> digest \<Rightarrow> bytes exec" where
  "ServerHandshakeTrafficSecret s transcript =
     deriveSecret (hs_hash s) (hs_secret s) serverHandshakeTrafficLabel (Some transcript)"

record MasterSecret =
  ms_secret :: bytes
  ms_hash :: hash_fn

definition hs_MasterSecret :: "HandshakeSecret \<Rightarrow> MasterSecret exec" where
  "hs_MasterSecret s =
     exec_bind (deriveSecret (hs_hash s) (hs_secret s) ''derived'' None) (\<lambda>derived.
     exec_bind (tls13_extract (hs_hash s) None (Some derived)) (\<lambda>x.
     Ret \<lparr>ms_secret = x, ms_hash = hs_hash s\<rparr>))"

definition ClientApplicationTrafficSecret :: "MasterSecret \<Rightarrow> digest \<Rightarrow> bytes exec" where
  "ClientApplicationTrafficSecret s transcript =
     deriveSecret (ms_hash s) (ms_secret s) clientApplicationTrafficLabel (Some transcript)"

definition ServerApplicationTrafficSecret :: "MasterSecret \<Rightarrow> digest \<Rightarrow> bytes exec" where
  "ServerApplicationTrafficSecret s transcript =
     deriveSecret (ms_hash s) (ms_secret s) serverApplicationTrafficLabel (Some transcript)"

definition ResumptionMasterSecret :: "MasterSecret \<Rightarrow> digest \<Rightarrow> bytes exec" where
  "ResumptionMasterSecret s transcript =
     deriveSecret (ms_hash s) (ms_secret s) resumptionLabel (Some transcript)"

record ExporterMasterSecret =
  xs_secret :: bytes
  xs_hash :: hash_fn

definition ms_ExporterMasterSecret :: "MasterSecret \<Rightarrow> digest \<Rightarrow> ExporterMasterSecret exec" where
  "ms_ExporterMasterSecret s transcript =
     exec_bind (deriveSecret (ms_hash s) (ms_secret s) exporterLabel (Some transcript)) (\<lambda>x.
     Ret \<lparr>xs_secret = x, xs_hash = ms_hash s\<rparr>)"

definition EarlyExporterMasterSecret :: "EarlySecret \<Rightarrow> digest \<Rightarrow> ExporterMasterSecret exec" where
  "EarlyExporterMasterSecret s transcript =
     exec_bind (deriveSecret (es_hash s) (es_secret s) earlyExporterLabel (Some transcript)) (\<lambda>x.
     Ret \<lparr>xs_secret = x, xs_hash = es_hash s\<rparr>)"

definition Exporter :: "ExporterMasterSecret \<Rightarrow> string \<Rightarrow> bytes \<Rightarrow> nat \<Rightarrow> bytes exec" where
  "Exporter s label context n =
     exec_bind (deriveSecret (xs_hash s) (xs_secret s) label None) (\<lambda>secret.
     let h = d_write (d_new (xs_hash s)) context
     in ExpandLabel (xs_hash s) secret ''exporter'' (d_sum h) n)"

definition TestingOnlyExporterSecret :: "ExporterMasterSecret \<Rightarrow> bytes" where
  "TestingOnlyExporterSecret s = xs_secret s"

section \<open>\<open>key_schedule.go\<close>\<close>

definition suite_hash :: "std_hashes \<Rightarrow> cipherSuiteTLS13 \<Rightarrow> hash_fn exec" where
  "suite_hash H c = hash_New H (cs13_hash c)"

definition nextTrafficSecret :: "std_hashes \<Rightarrow> cipherSuiteTLS13 \<Rightarrow> bytes \<Rightarrow> bytes exec" where
  "nextTrafficSecret H c trafficSecret =
     exec_bind (suite_hash H c) (\<lambda>h.
     ExpandLabel h trafficSecret ''traffic upd'' [] (h_size h))"

definition trafficKey ::
  "std_hashes \<Rightarrow> cipherSuiteTLS13 \<Rightarrow> bytes \<Rightarrow> (bytes \<times> bytes) exec" where
  "trafficKey H c trafficSecret =
     exec_bind (suite_hash H c) (\<lambda>h.
     exec_bind (ExpandLabel h trafficSecret ''key'' [] (cs13_keyLen c)) (\<lambda>key.
     exec_bind (ExpandLabel h trafficSecret ''iv'' [] aeadNonceLength) (\<lambda>iv.
     Ret (key, iv))))"

definition ks_finishedHash ::
  "std_hashes \<Rightarrow> cipherSuiteTLS13 \<Rightarrow> bytes \<Rightarrow> digest \<Rightarrow> bytes exec" where
  "ks_finishedHash H c baseKey transcript =
     exec_bind (suite_hash H c) (\<lambda>h.
     exec_bind (ExpandLabel h baseKey ''finished'' [] (h_size h)) (\<lambda>finishedKey.
     Ret (hmac h finishedKey (d_sum transcript))))"

definition exportKeyingMaterial ::
  "MasterSecret \<Rightarrow> digest \<Rightarrow> (string \<Rightarrow> bytes \<Rightarrow> nat \<Rightarrow> bytes exec) exec" where
  "exportKeyingMaterial s transcript =
     exec_bind (ms_ExporterMasterSecret s transcript) (\<lambda>expMasterSecret.
     Ret (\<lambda>label context n. Exporter expMasterSecret label context n))"

text \<open>The four curves of \<open>crypto/ecdh\<close>.\<close>

datatype ecdh_curve = EcdhX25519 | EcdhP256 | EcdhP384 | EcdhP521

definition x25519PublicKeySize :: nat where "x25519PublicKeySize = 32"

definition curveForCurveID :: "CurveID \<Rightarrow> ecdh_curve option" where
  "curveForCurveID i =
     (if i = X25519 then Some EcdhX25519
      else if i = CurveP256 then Some EcdhP256
      else if i = CurveP384 then Some EcdhP384
      else if i = CurveP521 then Some EcdhP521
      else None)"

fun curveIDForCurve :: "ecdh_curve \<Rightarrow> CurveID" where
  "curveIDForCurve EcdhX25519 = X25519"
| "curveIDForCurve EcdhP256 = CurveP256"
| "curveIDForCurve EcdhP384 = CurveP384"
| "curveIDForCurve EcdhP521 = CurveP521"

text \<open>\<open>GenerateKey\<close> of \<open>crypto/ecdh\<close> is the parameter \<open>gen\<close>.\<close>

definition generateECDHEKey :: "(ecdh_curve \<Rightarrow> 'k exec) \<Rightarrow> CurveID \<Rightarrow> 'k exec" where
  "generateECDHEKey gen curveID =
     (case curveForCurveID curveID of
        None \<Rightarrow> Fail (ErrMsg ''tls: internal error: unsupported curve'')
      | Some curve \<Rightarrow> gen curve)"

section \<open>Lengths\<close>

text \<open>What is assumed of a hash function: a fixed output size between 1 and 64 bytes.\<close>

definition wf_hash :: "hash_fn \<Rightarrow> bool" where
  "wf_hash h \<longleftrightarrow> 0 < h_size h \<and> h_size h \<le> 64 \<and> (\<forall>m. length (h_sum h m) = h_size h)"

definition wf_hashes :: "std_hashes \<Rightarrow> bool" where
  "wf_hashes H \<longleftrightarrow> wf_hash (md5_h H) \<and> wf_hash (sha1_h H) \<and> wf_hash (sha256_h H) \<and>
     wf_hash (sha384_h H) \<and> wf_hash (sha512_h H)"

lemma length_hmac [simp]: "wf_hash h \<Longrightarrow> length (hmac h k m) = h_size h"
  by (simp add: wf_hash_def hmac_def)

lemma length_hkdf_block [simp]: "wf_hash h \<Longrightarrow> 0 < i \<Longrightarrow> length (hkdf_block h prk info i) = h_size h"
  by (cases i) simp_all

lemma length_hkdf_blocks:
  assumes "wf_hash h"
  shows "length (concat (map (hkdf_block h prk info) [1..<Suc k])) = k * h_size h"
  using assms by (induction k) simp_all

lemma hkdf_Expand_length:
  assumes "wf_hash h" "n \<le> 255 * h_size h"
  shows "\<exists>b. hkdf_Expand h prk info n = Ret b \<and> length b = n"
proof -
  have s: "0 < h_size h"
    using assms(1) by (simp add: wf_hash_def)
  have "n \<le> (n + h_size h - 1) div h_size h * h_size h"
    using s div_mult_mod_eq [of "n + h_size h - 1" "h_size h"] mod_less_divisor [OF s, of "n + h_size h - 1"]
    by linarith
  then show ?thesis
    using assms length_hkdf_blocks [OF assms(1)] by (simp add: hkdf_Expand_def min_absorb2)
qed

lemma ExpandLabel_length:
  assumes "wf_hash h" "n \<le> 255 * h_size h" "length label \<le> 249" "length ctx \<le> 255"
  shows "\<exists>b. ExpandLabel h secret label ctx n = Ret b \<and> length b = n"
  using hkdf_Expand_length [OF assms(1,2), of secret "hkdfLabel n label ctx"] assms(3,4)
  by (auto simp: ExpandLabel_def ignore_error_def)

lemma deriveSecret_length:
  assumes "wf_hash h" "length label \<le> 249" "\<And>t. transcript = Some t \<Longrightarrow> d_hash t = h"
  shows "\<exists>b. deriveSecret h secret label transcript = Ret b \<and> length b = h_size h"
proof -
  let ?t = "case transcript of None \<Rightarrow> d_new h | Some t \<Rightarrow> t"
  have t: "d_hash ?t = h"
    using assms(3) by (simp add: d_new_def split: option.splits)
  then have "length (d_sum ?t) \<le> 255"
    using assms(1) by (simp add: d_sum_def wf_hash_def)
  with ExpandLabel_length [OF assms(1) _ assms(2), of "h_size h" "d_sum ?t" secret] t show ?thesis
    by (auto simp: deriveSecret_def Let_def)
qed

lemma tls13_extract_length:
  "wf_hash h \<Longrightarrow> \<exists>b. tls13_extract h new cur = Ret b \<and> length b = h_size h"
  by (simp add: tls13_extract_def hkdf_Extract_def ignore_error_def Let_def)

lemma trafficKey_total:
  assumes "wf_hashes H" and "c \<in> set cipherSuitesTLS13"
  shows "\<exists>key iv. trafficKey H c secret = Ret (key, iv) \<and>
     length key = cs13_keyLen c \<and> length iv = aeadNonceLength \<and>
     (cs13_aead c = AeadAESGCMTLS13 \<longrightarrow> (\<exists>f. aeadAESGCMTLS13 key iv = Ret f))"
proof -
  obtain h where h: "suite_hash H c = Ret h" "wf_hash h" and k: "cs13_keyLen c \<in> {16, 32}"
    using assms by (auto simp: cipherSuitesTLS13_def suite_hash_def wf_hashes_def)
  have s: "1 \<le> h_size h"
    using h(2) by (simp add: wf_hash_def)
  have "n \<le> 255 * h_size h" if "n \<le> 32" for n
    using that s by linarith
  then obtain key iv where "ExpandLabel h secret ''key'' [] (cs13_keyLen c) = Ret key"
    "length key = cs13_keyLen c" "ExpandLabel h secret ''iv'' [] aeadNonceLength = Ret iv"
    "length iv = aeadNonceLength"
    using ExpandLabel_length [OF h(2), of "cs13_keyLen c" "''key''" "[]" secret]
      ExpandLabel_length [OF h(2), of aeadNonceLength "''iv''" "[]" secret] k
    by (fastforce simp: aeadNonceLength_def)
  moreover have "\<exists>f. aeadAESGCMTLS13 key iv = Ret f"
    if "length key \<in> {16, 32}" "length iv = aeadNonceLength" for key iv
    using aes_New_total [of key] that
    by (auto simp: aeadAESGCMTLS13_def must_def NewGCMForTLS13_def new_wrapped)
  ultimately show ?thesis
    using h(1) k by (auto simp: trafficKey_def)
qed

section \<open>Properties\<close>

text \<open>The labels of the TLS 1.3 key schedule separate the derived secrets: the HKDF info
  string that \<open>ExpandLabel\<close> builds determines the output length, the label and the context,
  for all arguments on which it does not panic.\<close>

theorem hkdfLabel_injective:
  assumes "hkdfLabel n label ctx = hkdfLabel n' label' ctx'"
    and "n < 2 ^ 16" and "n' < 2 ^ 16"
    and "length label \<le> 249" and "length label' \<le> 249"
    and "length ctx \<le> 255" and "length ctx' \<le> 255"
  shows "n = n' \<and> label = label' \<and> ctx = ctx'"
proof -
  let ?l = "of_nat (6 + length label) :: byte" and ?l' = "of_nat (6 + length label') :: byte"
  from assms(1) have head: "put_be 2 n = put_be 2 n'" and "?l = ?l'"
    and tail: "str_bytes label @ of_nat (length ctx) # ctx = str_bytes label' @ of_nat (length ctx') # ctx'"
    by (simp_all add: hkdfLabel_def)
  from \<open>?l = ?l'\<close> have "unat ?l = unat ?l'"
    by simp
  then have len: "length label = length label'"
    using assms(4,5) by (simp only: unat_of_nat) simp
  from tail len have "label = label'" "ctx = ctx'"
    by simp_all
  moreover have "n = n'"
    using put_be_inj [OF head] assms(2,3) by simp
  ultimately show ?thesis
    by simp
qed

theorem hkdfLabel_injective_witness:
  "hkdfLabel 16 ''key'' [] \<noteq> hkdfLabel 16 ''iv'' [] \<and> hkdfLabel 32 ''key'' [] \<noteq> hkdfLabel 16 ''key'' []"
  using hkdfLabel_injective [of 16 "''key''" "[]" 16 "''iv''" "[]"]
    hkdfLabel_injective [of 32 "''key''" "[]" 16 "''key''" "[]"]
  by auto

text \<open>A small hash function for concrete runs: the length and the sum of the input.\<close>

definition toy_hash :: "nat \<Rightarrow> hash_fn" where
  "toy_hash n =
     \<lparr>h_size = n, h_block = 4,
      h_sum = (\<lambda>m. take n ([of_nat (length m), sum_list m] @ replicate n 0))\<rparr>"

lemma wf_toy_hash [simp]: "0 < n \<Longrightarrow> n \<le> 64 \<Longrightarrow> wf_hash (toy_hash n)"
  by (simp add: wf_hash_def toy_hash_def)

definition toy_hashes :: std_hashes where
  "toy_hashes = \<lparr>md5_h = toy_hash 16, sha1_h = toy_hash 20, sha256_h = toy_hash 32,
     sha384_h = toy_hash 48, sha512_h = toy_hash 64\<rparr>"

lemma wf_toy_hashes: "wf_hashes toy_hashes"
  by (simp add: wf_hashes_def toy_hashes_def)

text \<open>The key schedule never fails: from any pre-shared key (or none) and any shared secret,
  the chain early secret, handshake secret, master secret is computed without a panic, and
  every secret and every traffic secret derived from a transcript under the same hash has the
  length of the hash.\<close>

theorem key_schedule_total:
  assumes "wf_hash h" and "d_hash t = h"
  shows "\<exists>es hs ms. NewEarlySecret h psk = Ret es \<and> es_HandshakeSecret es shared = Ret hs \<and>
     hs_MasterSecret hs = Ret ms \<and>
     length (es_secret es) = h_size h \<and> length (hs_secret hs) = h_size h \<and>
     length (ms_secret ms) = h_size h \<and>
     (\<exists>a b c d e. ClientHandshakeTrafficSecret hs t = Ret a \<and> ServerHandshakeTrafficSecret hs t = Ret b \<and>
        ClientApplicationTrafficSecret ms t = Ret c \<and> ServerApplicationTrafficSecret ms t = Ret d \<and>
        ResumptionMasterSecret ms t = Ret e \<and>
        map length [a, b, c, d, e] = replicate 5 (h_size h))"
proof -
  note derive = deriveSecret_length [OF assms(1)]
  obtain e where e: "tls13_extract h psk None = Ret e" "length e = h_size h"
    using tls13_extract_length [OF assms(1)] by blast
  obtain d1 where d1: "deriveSecret h e ''derived'' None = Ret d1"
    using derive [of "''derived''" None e] by auto
  obtain x where x: "tls13_extract h shared (Some d1) = Ret x" "length x = h_size h"
    using tls13_extract_length [OF assms(1)] by blast
  obtain d2 where d2: "deriveSecret h x ''derived'' None = Ret d2"
    using derive [of "''derived''" None x] by auto
  obtain m where m: "tls13_extract h None (Some d2) = Ret m" "length m = h_size h"
    using tls13_extract_length [OF assms(1)] by blast
  have traffic: "\<exists>b. deriveSecret h s label (Some t) = Ret b \<and> length b = h_size h"
    if "length label \<le> 249" for s label
    using derive [of label "Some t" s] that assms(2) by auto
  have five: "replicate 5 (h_size h) = [h_size h, h_size h, h_size h, h_size h, h_size h]"
    by (simp add: numeral_eq_Suc)
  show ?thesis
    using e d1 x d2 m traffic [of clientHandshakeTrafficLabel x] traffic [of serverHandshakeTrafficLabel x]
      traffic [of clientApplicationTrafficLabel m] traffic [of serverApplicationTrafficLabel m]
      traffic [of resumptionLabel m]
    by (auto simp: NewEarlySecret_def es_HandshakeSecret_def hs_MasterSecret_def
        ClientHandshakeTrafficSecret_def ServerHandshakeTrafficSecret_def
        ClientApplicationTrafficSecret_def ServerApplicationTrafficSecret_def
        ResumptionMasterSecret_def tls13_labels five)
qed

theorem key_schedule_total_witness:
  "\<exists>es hs ms. NewEarlySecret (toy_hash 8) None = Ret es \<and> es_HandshakeSecret es (Some [7]) = Ret hs \<and>
     hs_MasterSecret hs = Ret ms \<and> length (ms_secret ms) = 8"
  using key_schedule_total [of "toy_hash 8" "d_new (toy_hash 8)" None "Some [7]"]
  by (auto simp: d_new_def toy_hash_def [of 8] wf_hash_def)

text \<open>The constructor of the suite takes the key and the initialisation vector, without a panic.\<close>

definition suite_takes :: "(bytes \<Rightarrow> 'k exec) \<Rightarrow> cipherSuiteTLS13 \<Rightarrow> bytes \<Rightarrow> bytes \<Rightarrow> bool" where
  "suite_takes chacha_New c key iv \<longleftrightarrow>
     (case cs13_aead c of
        AeadAESGCMTLS13 \<Rightarrow> \<exists>f. aeadAESGCMTLS13 key iv = Ret f
      | AeadChaCha20Poly1305 \<Rightarrow> \<exists>f. aeadChaCha20Poly1305 chacha_New key iv = Ret f \<and> xn_nonceMask f = iv
      | AeadAESGCM \<Rightarrow> False)"

text \<open>Traffic keys always fit their cipher.  For every TLS 1.3 suite, any pre-shared key or none, any shared
  secret and any transcript under the suite's hash, the key schedule yields all four traffic secrets, and
  from every traffic secret - these, and those of any number of key updates - \<open>trafficKey\<close> makes a key and
  an initialisation vector that the suite's own AEAD constructor takes: \<open>aeadAESGCMTLS13\<close>, or
  \<open>aeadChaCha20Poly1305\<close>, where \<open>chacha20poly1305.New\<close> is only known to accept keys of 32 bytes.  So
  neither of them panics in \<open>setTrafficSecret\<close>.\<close>

theorem trafficKey_usable:
  assumes "wf_hashes H" and "c \<in> set cipherSuitesTLS13" and "suite_hash H c = Ret h" and "d_hash t = h"
    and "\<forall>k. length k = 32 \<longrightarrow> (\<exists>a. chacha_New k = Ret a)"
  shows "(\<exists>es hs ms a b d e. NewEarlySecret h psk = Ret es \<and> es_HandshakeSecret es shared = Ret hs \<and>
       hs_MasterSecret hs = Ret ms \<and>
       ClientHandshakeTrafficSecret hs t = Ret a \<and> ServerHandshakeTrafficSecret hs t = Ret b \<and>
       ClientApplicationTrafficSecret ms t = Ret d \<and> ServerApplicationTrafficSecret ms t = Ret e) \<and>
     (\<forall>secret. (\<exists>key iv. trafficKey H c secret = Ret (key, iv) \<and> suite_takes chacha_New c key iv) \<and>
        (\<exists>secret'. nextTrafficSecret H c secret = Ret secret'))"
proof -
  have h: "wf_hash h"
    using assms(1-3) by (auto simp: cipherSuitesTLS13_def suite_hash_def wf_hashes_def)
  have size: "1 \<le> h_size h" "h_size h \<le> 255 * h_size h" "h_size h < 2 ^ 16"
    using h by (simp_all add: wf_hash_def)
  have takes: "\<exists>key iv. trafficKey H c secret = Ret (key, iv) \<and> suite_takes chacha_New c key iv" for secret
  proof -
    obtain key iv where k: "trafficKey H c secret = Ret (key, iv)" "length key = cs13_keyLen c" "length iv = aeadNonceLength"
      "cs13_aead c = AeadAESGCMTLS13 \<longrightarrow> (\<exists>f. aeadAESGCMTLS13 key iv = Ret f)"
      using trafficKey_total [OF assms(1,2)] by blast
    have "suite_takes chacha_New c key iv"
    proof (cases "cs13_aead c")
      case AeadChaCha20Poly1305
      then have "length key = 32"
        using assms(2) k(2) by (auto simp: cipherSuitesTLS13_def)
      then obtain a where "chacha_New key = Ret a"
        using assms(5) by blast
      then show ?thesis
        using AeadChaCha20Poly1305 k(3) by (simp add: suite_takes_def aeadChaCha20Poly1305_def must_def go_copy_def)
    qed (use assms(2) k(4) in \<open>auto simp: suite_takes_def cipherSuitesTLS13_def\<close>)
    with k(1) show ?thesis
      by blast
  qed
  have "\<exists>secret'. nextTrafficSecret H c secret = Ret secret'" for secret
    using ExpandLabel_length [OF h, of "h_size h" "''traffic upd''" "[]" secret] size assms(3)
    by (auto simp: nextTrafficSecret_def)
  with takes key_schedule_total [OF h assms(4), of psk shared] show ?thesis
    by blast
qed

text \<open>A constructor that wants 32 bytes.\<close>

definition demo_chacha :: "bytes \<Rightarrow> bytes exec" where
  "demo_chacha k = (if length k = 32 then Ret k else Fail (ErrMsg ''chacha20poly1305: bad key length''))"

theorem trafficKey_usable_witness:
  "\<exists>es key iv. NewEarlySecret (toy_hash 32) None = Ret es \<and>
     trafficKey toy_hashes (cipherSuitesTLS13 ! 1) [1, 2, 3] = Ret (key, iv) \<and>
     suite_takes demo_chacha (cipherSuitesTLS13 ! 1) key iv \<and> cs13_aead (cipherSuitesTLS13 ! 1) = AeadChaCha20Poly1305"
proof -
  have c: "cipherSuitesTLS13 ! 1 \<in> set cipherSuitesTLS13" "cs13_aead (cipherSuitesTLS13 ! 1) = AeadChaCha20Poly1305"
    "suite_hash toy_hashes (cipherSuitesTLS13 ! 1) = Ret (toy_hash 32)"
    by (simp_all add: cipherSuitesTLS13_def suite_hash_def toy_hashes_def)
  have t: "d_hash (d_new (toy_hash 32)) = toy_hash 32"
    by (simp add: d_new_def)
  have "\<forall>k. length k = 32 \<longrightarrow> (\<exists>a. demo_chacha k = Ret a)"
    by (simp add: demo_chacha_def)
  from trafficKey_usable [OF wf_toy_hashes c(1,3) t this, of None None] c(2) show ?thesis
    by blast
qed

text \<open>Groups and curves correspond: \<open>curveForCurveID\<close> and \<open>curveIDForCurve\<close> are inverse to each
  other, and the hybrid post-quantum group has no ECDH curve.\<close>

theorem curve_ids_roundtrip:
  "curveForCurveID i = Some c \<longleftrightarrow> i = curveIDForCurve c"
  by (cases c) (auto simp: curveForCurveID_def curve_ids)

end
