(* ===== verification/HalfConn.thy ===== *)
theory HalfConn
  imports Alert KeySchedule
begin

text \<open>
  One direction of the record layer: \<open>halfConn\<close> of \<open>conn.go\<close> with \<open>incSeq\<close>,
  \<open>explicitNonceLen\<close>, \<open>extractPadding\<close>, \<open>encrypt\<close> and \<open>decrypt\<close>, and \<open>tls10MAC\<close>.  The cipher
  is nil, a stream cipher, an AEAD or a CBC block cipher; their methods, which belong to the
  library for all but AES-GCM, are the fields of \<open>cipher_ops\<close>.  A function that changes the
  half connection returns it next to its result, so that what an error leaves behind is
  visible.
\<close>

section \<open>The ciphers\<close>

datatype ('s, 'a, 'c) hc_cipher = NilCipher | Stream 's | Aead 'a | CBC 'c

text \<open>
  \<open>Seal\<close> and \<open>Open\<close> take the nonce, the text and the additional data; \<open>XORKeyStream\<close> and
  \<open>CryptBlocks\<close> return the cipher's new state.  \<open>MacSum\<close> is the digest of a MAC key (a
  \<open>hash.Hash\<close>) over what was written since \<open>Reset\<close>.
\<close>

record ('s, 'a, 'c, 'm) cipher_ops =
  o_XORKeyStream :: "'s \<Rightarrow> bytes \<Rightarrow> 's \<times> bytes"
  o_explicitNonceLen :: "'a \<Rightarrow> nat"
  o_Overhead :: "'a \<Rightarrow> nat"
  o_Seal :: "'a \<Rightarrow> bytes \<Rightarrow> bytes \<Rightarrow> bytes \<Rightarrow> ('a \<times> bytes) exec"
  o_Open :: "'a \<Rightarrow> bytes \<Rightarrow> bytes \<Rightarrow> bytes \<Rightarrow> 'a \<times> bytes exec"
  o_BlockSize :: "'c \<Rightarrow> nat"
  o_SetIV :: "'c \<Rightarrow> bytes \<Rightarrow> 'c"
  o_CryptBlocks :: "'c \<Rightarrow> bytes \<Rightarrow> 'c \<times> bytes"
  o_MacSize :: "'m \<Rightarrow> nat"
  o_MacSum :: "'m \<Rightarrow> bytes \<Rightarrow> bytes"

record ('s, 'a, 'c, 'm) halfConn =
  handshakeLen :: "nat list"
  handshakeBuf :: "bytes option"
  hc_err :: "err option"
  version :: u16
  hc_cipher :: "('s, 'a, 'c) hc_cipher"
  mac :: "'m option"
  hc_seq :: bytes
  nextCipher :: "('s, 'a, 'c) hc_cipher"
  nextMac :: "'m option"
  level :: nat
  trafficSecret :: bytes

section \<open>Keys\<close>

definition prepareCipherSpec ::
  "('s, 'a, 'c, 'm) halfConn \<Rightarrow> u16 \<Rightarrow> ('s, 'a, 'c) hc_cipher \<Rightarrow> 'm option
     \<Rightarrow> ('s, 'a, 'c, 'm) halfConn" where
  "prepareCipherSpec hc vers c m = hc\<lparr>version := vers, nextCipher := c, nextMac := m\<rparr>"

definition changeCipherSpec ::
  "('s, 'a, 'c, 'm) halfConn \<Rightarrow> ('s, 'a, 'c, 'm) halfConn exec" where
  "changeCipherSpec hc =
     (if nextCipher hc = NilCipher \<or> version hc = VersionTLS13 then Fail (ErrAlert alertInternalError)
      else Ret (hc\<lparr>hc_cipher := nextCipher hc, mac := nextMac hc, nextCipher := NilCipher,
                   nextMac := None, hc_seq := replicate 8 0\<rparr>))"

text \<open>\<open>aead\<close> is the constructor of the suite, \<open>suite.aead\<close>.\<close>

definition setTrafficSecret ::
  "std_hashes \<Rightarrow> (bytes \<Rightarrow> bytes \<Rightarrow> 'a exec) \<Rightarrow> ('s, 'a, 'c, 'm) halfConn \<Rightarrow> cipherSuiteTLS13 \<Rightarrow> nat
     \<Rightarrow> bytes \<Rightarrow> ('s, 'a, 'c, 'm) halfConn exec" where
  "setTrafficSecret H aead hc s13 lvl secret =
     exec_bind (trafficKey H s13 secret) (\<lambda>(key, iv).
     exec_bind (aead key iv) (\<lambda>c.
     Ret (hc\<lparr>trafficSecret := secret, level := lvl, hc_cipher := Aead c, hc_seq := replicate 8 0\<rparr>)))"

text \<open>
  A \<open>net.Error\<close> is wrapped into a \<open>permanentError\<close>, which is a \<open>net.Error\<close> again but never
  temporary.  \<open>Temporary\<close> of a \<open>net.OpError\<close> that holds an alert is false.
\<close>

fun is_net_error :: "err \<Rightarrow> bool" where
  "is_net_error (NetError _ _) = True"
| "is_net_error (OpError _ _) = True"
| "is_net_error (PermanentError _) = True"
| "is_net_error _ = False"

fun Temporary :: "err \<Rightarrow> bool" where
  "Temporary (NetError _ t) = t"
| "Temporary _ = False"

definition setErrorLocked ::
  "('s, 'a, 'c, 'm) halfConn \<Rightarrow> err option \<Rightarrow> ('s, 'a, 'c, 'm) halfConn \<times> err option" where
  "setErrorLocked hc e =
     (let e = map_option (\<lambda>e. if is_net_error e then PermanentError e else e) e
      in (hc\<lparr>hc_err := e\<rparr>, e))"

section \<open>Sequence numbers\<close>

text \<open>The loop of \<open>incSeq\<close> from index \<open>i - 1\<close> down to 0; \<open>None\<close> when it runs out.\<close>

fun inc_from :: "nat \<Rightarrow> bytes \<Rightarrow> bytes option" where
  "inc_from 0 s = None"
| "inc_from (Suc i) s =
     (let s = s[i := s ! i + 1] in if s ! i \<noteq> 0 then Some s else inc_from i s)"

definition incSeq ::
  "('s, 'a, 'c, 'm) halfConn \<Rightarrow> ('s, 'a, 'c, 'm) halfConn exec" where
  "incSeq hc =
     (case inc_from 8 (hc_seq hc) of
        Some s \<Rightarrow> Ret (hc\<lparr>hc_seq := s\<rparr>)
      | None \<Rightarrow> Panic ''TLS: sequence number wraparound'')"

definition explicitNonceLen ::
  "('s, 'a, 'c, 'm) cipher_ops \<Rightarrow> ('s, 'a, 'c, 'm) halfConn \<Rightarrow> nat" where
  "explicitNonceLen K hc =
     (case hc_cipher hc of
        NilCipher \<Rightarrow> 0
      | Stream _ \<Rightarrow> 0
      | Aead c \<Rightarrow> o_explicitNonceLen K c
      | CBC c \<Rightarrow> if version hc \<ge> VersionTLS11 then o_BlockSize K c else 0)"

section \<open>CBC padding\<close>

text \<open>\<open>byte(int32(^t) >> 31)\<close> for a \<open>uint\<close> of 64 bits.\<close>

definition msb_mask :: "u64 \<Rightarrow> byte" where
  "msb_mask t = ucast (signed_drop_bit 31 (ucast (NOT t) :: u32))"

definition pad_step :: "bytes \<Rightarrow> byte \<Rightarrow> nat \<Rightarrow> byte \<Rightarrow> byte" where
  "pad_step payload paddingLen i good =
     (let t = (ucast paddingLen :: u64) - of_nat i;
          mask = msb_mask t;
          b = payload ! (length payload - 1 - i)
      in good AND NOT ((mask AND paddingLen) XOR (mask AND b)))"

definition fold_good :: "byte \<Rightarrow> byte" where
  "fold_good good =
     (let good = good AND push_bit 4 good;
          good = good AND push_bit 2 good;
          good = good AND push_bit 1 good
      in signed_drop_bit 7 good)"

definition extractPadding :: "bytes \<Rightarrow> nat \<times> byte" where
  "extractPadding payload =
     (if length payload < 1 then (0, 0)
      else let paddingLen = payload ! (length payload - 1);
               t = (of_nat (length payload - 1) :: u64) - ucast paddingLen;
               good = msb_mask t;
               toCheck = (if 256 > length payload then length payload else 256);
               good = fold (pad_step payload paddingLen) [0..<toCheck] good;
               good = fold_good good;
               paddingLen = paddingLen AND good
           in (unat paddingLen + 1, good))"

definition roundUp :: "nat \<Rightarrow> nat \<Rightarrow> nat" where
  "roundUp a b = a + (b - a mod b) mod b"

section \<open>\<open>tls10MAC\<close>\<close>

text \<open>The bytes written after \<open>Sum\<close> do not change the result.\<close>

definition tls10MAC ::
  "('s, 'a, 'c, 'm) cipher_ops \<Rightarrow> 'm \<Rightarrow> bytes \<Rightarrow> bytes \<Rightarrow> bytes \<Rightarrow> bytes \<Rightarrow> bytes" where
  "tls10MAC K h seq header data extra = o_MacSum K h (seq @ header @ data)"

section \<open>\<open>decrypt\<close>\<close>

text \<open>
  The scan for the content type of a TLS 1.3 record, from the end: \<open>None\<close> when all bytes
  are zero.
\<close>

fun strip_zeros :: "bytes \<Rightarrow> nat \<Rightarrow> (byte \<times> bytes) option" where
  "strip_zeros p 0 = None"
| "strip_zeros p (Suc i) = (if p ! i \<noteq> 0 then Some (p ! i, take i p) else strip_zeros p i)"

text \<open>The \<open>switch\<close> on the cipher: the cipher's state, payload, plaintext, padding length and mask.\<close>

definition decrypt_cipher ::
  "('s, 'a, 'c, 'm) cipher_ops \<Rightarrow> ('s, 'a, 'c, 'm) halfConn \<Rightarrow> bytes \<Rightarrow> bytes
     \<Rightarrow> ('s, 'a, 'c, 'm) halfConn \<times> (bytes \<times> bytes \<times> nat \<times> byte) exec" where
  "decrypt_cipher K hc record payload =
     (case hc_cipher hc of
        NilCipher \<Rightarrow> (hc, Ret (payload, payload, 0, 255))
      | Stream c \<Rightarrow>
          let (c, payload) = o_XORKeyStream K c payload
          in (hc\<lparr>hc_cipher := Stream c\<rparr>, Ret (payload, [], 0, 255))
      | Aead c \<Rightarrow>
          if length payload < explicitNonceLen K hc then (hc, Fail (ErrAlert alertBadRecordMAC))
          else let nonce = take (explicitNonceLen K hc) payload;
                   nonce = (if length nonce = 0 then hc_seq hc else nonce);
                   payload = drop (explicitNonceLen K hc) payload;
                   additionalData =
                     (if version hc = VersionTLS13 then take recordHeaderLen record
                      else hc_seq hc @ take 3 record
                           @ put_be 2 (nat ((int (length payload) - int (o_Overhead K c)) mod 65536)));
                   (c, r) = o_Open K c nonce payload additionalData;
                   hc = hc\<lparr>hc_cipher := Aead c\<rparr>
               in (case r of
                     Ret plaintext \<Rightarrow> (hc, Ret (payload, plaintext, 0, 255))
                   | Fail e \<Rightarrow> (hc, Fail (ErrAlert alertBadRecordMAC))
                   | Panic p \<Rightarrow> (hc, Panic p))
      | CBC c \<Rightarrow>
          (case mac hc of
             None \<Rightarrow> (hc, Panic ''nil pointer dereference'')
           | Some m \<Rightarrow>
               let blockSize = o_BlockSize K c;
                   minPayload = explicitNonceLen K hc + roundUp (o_MacSize K m + 1) blockSize
               in if length payload mod blockSize \<noteq> 0 \<or> length payload < minPayload
                  then (hc, Fail (ErrAlert alertBadRecordMAC))
                  else let (c, payload) =
                             (if explicitNonceLen K hc > 0
                              then (o_SetIV K c (take (explicitNonceLen K hc) payload),
                                    drop (explicitNonceLen K hc) payload)
                              else (c, payload));
                           (c, payload) = o_CryptBlocks K c payload;
                           (paddingLen, paddingGood) = extractPadding payload
                       in (hc\<lparr>hc_cipher := CBC c\<rparr>, Ret (payload, [], paddingLen, paddingGood))))"

text \<open>The TLS 1.3 part after the switch.\<close>

definition decrypt_inner :: "byte \<Rightarrow> bytes \<Rightarrow> (byte \<times> bytes) exec" where
  "decrypt_inner typ plaintext =
     (if typ \<noteq> recordTypeApplicationData then Fail (ErrAlert alertUnexpectedMessage)
      else if length plaintext > maxPlaintext + 1 then Fail (ErrAlert alertRecordOverflow)
      else if plaintext = [] then Ret (typ, plaintext)
      else case strip_zeros plaintext (length plaintext) of
             Some r \<Rightarrow> Ret r
           | None \<Rightarrow> Fail (ErrAlert alertUnexpectedMessage))"

text \<open>The MAC check, with the header's length bytes replaced by the plaintext length.\<close>

definition decrypt_mac ::
  "('s, 'a, 'c, 'm) cipher_ops \<Rightarrow> ('s, 'a, 'c, 'm) halfConn \<Rightarrow> 'm \<Rightarrow> bytes \<Rightarrow> bytes \<Rightarrow> nat \<Rightarrow> byte
     \<Rightarrow> bytes exec" where
  "decrypt_mac K hc m record payload paddingLen paddingGood =
     (let macSize = o_MacSize K m
      in if length payload < macSize then Fail (ErrAlert alertBadRecordMAC)
         else let n = length payload - macSize - paddingLen;
                  header = take 3 record @ put_be 2 n;
                  remoteMAC = take macSize (drop n payload);
                  localMAC = tls10MAC K m (hc_seq hc) header (take n payload) (drop (n + macSize) payload);
                  macAndPaddingGood = (if localMAC = remoteMAC then 1 else 0 :: int) AND uint paddingGood
              in if macAndPaddingGood \<noteq> 1 then Fail (ErrAlert alertBadRecordMAC)
                 else Ret (take n payload))"

text \<open>After a successful record the sequence number advances.\<close>

definition then_incSeq ::
  "('s, 'a, 'c, 'm) halfConn \<times> 'r exec \<Rightarrow> ('s, 'a, 'c, 'm) halfConn \<times> 'r exec" where
  "then_incSeq = (\<lambda>(hc, r).
     case r of
       Ret x \<Rightarrow> (case incSeq hc of Ret hc \<Rightarrow> (hc, Ret x) | Fail e \<Rightarrow> (hc, Fail e) | Panic p \<Rightarrow> (hc, Panic p))
     | _ \<Rightarrow> (hc, r))"

definition decrypt ::
  "('s, 'a, 'c, 'm) cipher_ops \<Rightarrow> ('s, 'a, 'c, 'm) halfConn \<Rightarrow> bytes
     \<Rightarrow> ('s, 'a, 'c, 'm) halfConn \<times> (bytes \<times> byte) exec" where
  "decrypt K hc record =
     (if length record < recordHeaderLen then (hc, Panic ''slice bounds out of range'')
      else let typ = record ! 0;
               payload = drop recordHeaderLen record
           in if version hc = VersionTLS13 \<and> typ = recordTypeChangeCipherSpec
              then (hc, Ret (payload, typ))
              else let (hc1, r) = decrypt_cipher K hc record payload
                   in then_incSeq (hc1, exec_bind r (\<lambda>(payload, plaintext, paddingLen, paddingGood).
                        exec_bind (if hc_cipher hc \<noteq> NilCipher \<and> version hc = VersionTLS13
                                   then decrypt_inner typ plaintext else Ret (typ, plaintext)) (\<lambda>(typ, plaintext).
                        exec_bind (case mac hc of
                                     None \<Rightarrow> Ret plaintext
                                   | Some m \<Rightarrow> decrypt_mac K hc m record payload paddingLen paddingGood) (\<lambda>plaintext.
                        Ret (plaintext, typ))))))"

section \<open>\<open>encrypt\<close>\<close>

text \<open>\<open>record[3] = byte(n >> 8); record[4] = byte(n)\<close>, for a record with its header.\<close>

definition set_length :: "nat \<Rightarrow> bytes \<Rightarrow> bytes" where
  "set_length n record = take 3 record @ put_be 2 n @ drop 5 record"

text \<open>
  The explicit nonce: the sequence number for an AEAD, random bytes for CBC.  The slice that
  receives the sequence number is zero before the copy.
\<close>

definition encrypt_nonce ::
  "('s, 'a, 'c, 'm) cipher_ops \<Rightarrow> ('s, 'a, 'c, 'm) halfConn \<Rightarrow> (nat \<Rightarrow> bytes exec) \<Rightarrow> bytes exec" where
  "encrypt_nonce K hc rand =
     (let n = explicitNonceLen K hc
      in if n > 0 then
           if (\<forall>c. hc_cipher hc \<noteq> CBC c) \<and> n < 16 then Ret (go_copy (replicate n 0) (hc_seq hc))
           else rand n
         else Ret [])"

text \<open>The package variable \<open>empty\<close> is \<open>size\<close> zero bytes.\<close>

definition empty_size :: nat where "empty_size = 8192"

text \<open>
  The shape a REALITY server gives its handshake records: the slot of \<open>handshakeLen\<close> for
  the message's type, if the target's handshake was recorded.
\<close>

definition handshake_slot :: "byte \<Rightarrow> nat option" where
  "handshake_slot t =
     (if t = typeEncryptedExtensions then Some 2
      else if t = typeCertificate then Some 3
      else if t = typeCertificateVerify then Some 4
      else if t = typeFinished then Some 5
      else if t = typeNewSessionTicket then Some 6
      else None)"

definition encrypt_padding ::
  "nat \<Rightarrow> nat list \<Rightarrow> bytes \<Rightarrow> bytes \<Rightarrow> nat list \<times> bytes exec" where
  "encrypt_padding overhead lens payload record =
     (if record ! 0 = recordTypeHandshake \<and> lens ! 1 \<noteq> 0 then
        if payload = [] then (lens, Panic ''index out of range'')
        else let slot = handshake_slot (payload ! 0);
                 target = (case slot of Some i \<Rightarrow> lens ! i | None \<Rightarrow> 0);
                 lens = (case slot of Some i \<Rightarrow> lens[i := 0] | None \<Rightarrow> lens);
                 record = (if payload ! 0 = typeNewSessionTicket
                           then record[5 := recordTypeApplicationData, 6 := 0] else record);
                 padding = int target - int (length record + overhead)
             in if padding < 0 then (lens, Fail (ErrMsg ''payload[0], padding''))
                else if nat padding > empty_size then (lens, Panic ''slice bounds out of range'')
                else (lens, Ret (record @ replicate (nat padding) 0))
      else (lens, Ret record))"

definition encrypt_aead13 ::
  "('s, 'a, 'c, 'm) cipher_ops \<Rightarrow> ('s, 'a, 'c, 'm) halfConn \<Rightarrow> 'a \<Rightarrow> bytes \<Rightarrow> bytes \<Rightarrow> bytes
     \<Rightarrow> ('s, 'a, 'c, 'm) halfConn \<times> bytes exec" where
  "encrypt_aead13 K hc c nonce record payload =
     (let record = record @ payload @ [record ! 0];
          (lens, r) = encrypt_padding (o_Overhead K c) (handshakeLen hc) payload record;
          hc = hc\<lparr>handshakeLen := lens\<rparr>
      in case r of
           Ret record \<Rightarrow>
             let record = record[0 := recordTypeApplicationData];
                 record = set_length (length record + o_Overhead K c - recordHeaderLen) record;
                 header = take recordHeaderLen record
             in (case o_Seal K c nonce (drop recordHeaderLen record) header of
                   Ret (c, ct) \<Rightarrow> (hc\<lparr>hc_cipher := Aead c\<rparr>, Ret (header @ ct))
                 | Fail e \<Rightarrow> (hc, Fail e)
                 | Panic p \<Rightarrow> (hc, Panic p))
         | Fail e \<Rightarrow> (hc, Fail e)
         | Panic p \<Rightarrow> (hc, Panic p))"

text \<open>The \<open>switch\<close> on the cipher, with the explicit nonce already appended to \<open>record\<close>.\<close>

definition encrypt_cipher ::
  "('s, 'a, 'c, 'm) cipher_ops \<Rightarrow> ('s, 'a, 'c, 'm) halfConn \<Rightarrow> bytes \<Rightarrow> bytes \<Rightarrow> bytes
     \<Rightarrow> ('s, 'a, 'c, 'm) halfConn \<times> bytes exec" where
  "encrypt_cipher K hc explicitNonce record payload =
     (case hc_cipher hc of
        NilCipher \<Rightarrow> (hc, Panic ''unknown cipher type'')
      | Stream c \<Rightarrow>
          (case mac hc of
             None \<Rightarrow> (hc, Panic ''nil pointer dereference'')
           | Some m \<Rightarrow>
               let mc = tls10MAC K m (hc_seq hc) (take recordHeaderLen record) payload [];
                   (c, d1) = o_XORKeyStream K c payload;
                   (c, d2) = o_XORKeyStream K c mc
               in (hc\<lparr>hc_cipher := Stream c\<rparr>, Ret (record @ d1 @ d2)))
      | Aead c \<Rightarrow>
          let nonce = (if length explicitNonce = 0 then hc_seq hc else explicitNonce)
          in if version hc = VersionTLS13 then encrypt_aead13 K hc c nonce record payload
             else (case o_Seal K c nonce payload (hc_seq hc @ take recordHeaderLen record) of
                     Ret (c, ct) \<Rightarrow> (hc\<lparr>hc_cipher := Aead c\<rparr>, Ret (record @ ct))
                   | Fail e \<Rightarrow> (hc, Fail e)
                   | Panic p \<Rightarrow> (hc, Panic p))
      | CBC c \<Rightarrow>
          (case mac hc of
             None \<Rightarrow> (hc, Panic ''nil pointer dereference'')
           | Some m \<Rightarrow>
               let mc = tls10MAC K m (hc_seq hc) (take recordHeaderLen record) payload [];
                   blockSize = o_BlockSize K c;
                   plaintextLen = length payload + length mc;
                   paddingLen = blockSize - plaintextLen mod blockSize;
                   dst = payload @ mc @ replicate paddingLen (of_nat (paddingLen - 1));
                   c = (if length explicitNonce > 0 then o_SetIV K c explicitNonce else c);
                   (c, dst) = o_CryptBlocks K c dst
               in (hc\<lparr>hc_cipher := CBC c\<rparr>, Ret (record @ dst))))"

definition encrypt ::
  "('s, 'a, 'c, 'm) cipher_ops \<Rightarrow> ('s, 'a, 'c, 'm) halfConn \<Rightarrow> bytes \<Rightarrow> bytes \<Rightarrow> (nat \<Rightarrow> bytes exec)
     \<Rightarrow> ('s, 'a, 'c, 'm) halfConn \<times> bytes exec" where
  "encrypt K hc record payload rand =
     (if hc_cipher hc = NilCipher then (hc, Ret (record @ payload))
      else case encrypt_nonce K hc rand of
             Fail e \<Rightarrow> (hc, Fail e)
           | Panic p \<Rightarrow> (hc, Panic p)
           | Ret explicitNonce \<Rightarrow>
               let (hc, r) = encrypt_cipher K hc explicitNonce (record @ explicitNonce) payload
               in then_incSeq (hc, exec_bind r (\<lambda>record.
                    Ret (set_length (length record - recordHeaderLen) record))))"

section \<open>\<open>incSeq\<close> counts\<close>

lemma inc_from_prefix:
  "length p = i \<Longrightarrow> inc_from i (p @ q) =
     (if get_be p + 1 < 256 ^ i then Some (put_be i (get_be p + 1) @ q) else None)"
proof (induction i arbitrary: p q)
  case (Suc i)
  then obtain p' b where p: "p = p' @ [b]" "length p' = i"
    by (metis length_Suc_conv_rev)
  have upd: "(p @ q)[i := (p @ q) ! i + 1] = p' @ (b + 1) # q" "(p' @ (b + 1) # q) ! i = b + 1"
    using p by (simp_all add: list_update_append nth_append)
  have less: "get_be p' < 256 ^ i" "unat b < 256"
    using get_be_less [of p'] p(2) unat_bound [of b] by simp_all
  have zero: "(of_nat (256 * n) :: byte) = 0" for n
  proof -
    have "(256 :: byte) = 0"
      by simp
    then show ?thesis
      by (metis mult_zero_left of_nat_mult of_nat_numeral)
  qed
  show ?case
  proof (cases "b + 1 = 0")
    case True
    then have "b = 255"
      by (simp add: add_eq_0_iff2)
    then have b: "unat b = 255"
      by simp
    then have sum: "get_be p + 1 = 256 * (get_be p' + 1)"
      by (simp add: p(1))
    have "inc_from (Suc i) (p @ q) = inc_from i (p' @ 0 # q)"
      using upd True by (simp add: Let_def)
    also have "\<dots> = (if get_be p + 1 < 256 ^ Suc i then Some (put_be (Suc i) (get_be p + 1) @ q) else None)"
      unfolding sum using zero [of "get_be p' + 1"] by (simp add: Suc.IH [OF p(2)] del: of_nat_mult of_nat_add of_nat_Suc)
    finally show ?thesis .
  next
    case False
    then have b: "unat b + 1 < 256"
      using unatSuc [of b] unat_bound [of "1 + b"] by (simp add: add.commute)
    then have "get_be p + 1 < 256 ^ Suc i"
      using less(1) by (simp add: p(1))
    moreover have "put_be (Suc i) (get_be p + 1) = p' @ [b + 1]"
    proof -
      have "get_be p + 1 = 256 * get_be p' + (unat b + 1)"
        by (simp add: p(1))
      then have "(get_be p + 1) div 256 = get_be p'" "(of_nat (get_be p + 1) :: byte) = of_nat (unat b + 1)"
        using b by (simp_all only: of_nat_add zero) simp_all
      then show ?thesis
        using p(2) by (simp del: of_nat_add of_nat_Suc) simp
    qed
    ultimately show ?thesis
      using upd False by (simp add: Let_def)
  qed
qed simp

lemma incSeq_eq:
  assumes "length (hc_seq hc) = 8"
  shows "incSeq hc =
     (if get_be (hc_seq hc) + 1 < 2 ^ 64 then Ret (hc\<lparr>hc_seq := put_be 8 (get_be (hc_seq hc) + 1)\<rparr>)
      else Panic ''TLS: sequence number wraparound'')"
  using inc_from_prefix [OF assms, of "[]"] by (simp add: incSeq_def)

section \<open>\<open>extractPadding\<close>\<close>

lemma msb_mask_bit: "msb_mask t = (if bit t 31 then 0 else 255)"
proof -
  have "msb_mask t = (if bit t 31 then 0 else -1)"
    by (rule bit_word_eqI) (auto simp: msb_mask_def bit_simps Suc_le_eq)
  then show ?thesis
    by simp
qed

lemma small_bit31: "n < 2 ^ 31 \<Longrightarrow> \<not> bit (of_nat n :: u64) 31"
proof -
  assume n: "n < 2 ^ 31"
  then have "unat (of_nat n :: u64) = n"
    by (simp add: unat_of_nat)
  moreover have "bit (unat (of_nat n :: u64)) 31 \<longleftrightarrow> bit (of_nat n :: u64) 31"
    by (simp add: bit_unsigned_iff)
  ultimately show ?thesis
    using n by (simp add: bit_iff_odd)
qed

lemma msb_mask_diff:
  assumes "a < 2 ^ 31" "b < 2 ^ 31"
  shows "msb_mask (of_nat a - of_nat b) = (if b \<le> a then 255 else 0)"
proof (cases "b \<le> a")
  case True
  then have "(of_nat a - of_nat b :: u64) = of_nat (a - b)"
    by simp
  moreover have "\<not> bit (of_nat (a - b) :: u64) 31"
    using assms by (intro small_bit31) simp
  ultimately show ?thesis
    using True by (simp add: msb_mask_bit)
next
  case False
  then have "(of_nat a - of_nat b :: u64) = NOT (of_nat (b - a - 1))"
    by (simp add: not_eq_complement of_nat_diff)
  moreover have "\<not> bit (of_nat (b - a - 1) :: u64) 31"
    using assms by (intro small_bit31) simp
  ultimately show ?thesis
    using False by (simp add: msb_mask_bit bit_simps)
qed

lemma fold_good_eq: "fold_good g = (if g = 255 then 255 else 0)"
proof -
  have all: "bit (let g = g AND push_bit 4 g; g = g AND push_bit 2 g; g = g AND push_bit 1 g in g) 7 \<longleftrightarrow>
      (\<forall>n<8. bit g n)"
  proof -
    have "(\<forall>n<8. bit g n) \<longleftrightarrow> list_all (bit g) [0..<8]"
      by (auto simp: list_all_iff)
    moreover have "[0..<8] = [0, 1, 2, 3, 4, 5, 6, 7]"
      by (simp add: upt_rec)
    ultimately have "(\<forall>n<8. bit g n) \<longleftrightarrow> list_all (bit g) [0, 1, 2, 3, 4, 5, 6, 7]"
      by simp
    then show ?thesis
      unfolding Let_def bit_and_iff bit_push_bit_iff by auto
  qed
  have sign: "signed_drop_bit 7 w = (if bit w 7 then -1 else 0)" for w :: byte
    by (rule bit_word_eqI) (auto simp: bit_simps Suc_le_eq)
  have "fold_good g = (if \<forall>n<8. bit g n then -1 else 0)"
    unfolding fold_good_def all [symmetric] by (simp add: Let_def sign)
  moreover have "(\<forall>n<8. bit g n) \<longleftrightarrow> g = -1"
    by (auto simp: bit_eq_iff bit_simps)
  ultimately show ?thesis
    by simp
qed

lemma and_not_eq_ones: "g AND NOT x = (255 :: byte) \<longleftrightarrow> g = 255 \<and> x = 0"
proof -
  have "g AND NOT x = -1 \<longleftrightarrow> g = -1 \<and> x = 0"
    by (auto simp: bit_eq_iff bit_simps)
  moreover have "(255 :: byte) = -1"
    by simp
  ultimately show ?thesis
    by metis
qed

lemma pad_step_good:
  assumes "i < 2 ^ 31"
  shows "pad_step payload p i g = 255 \<longleftrightarrow>
     g = 255 \<and> (i \<le> unat p \<longrightarrow> payload ! (length payload - 1 - i) = p)"
proof -
  have "(ucast p :: u64) = of_nat (unat p)"
    by simp
  moreover have "unat p < 2 ^ 31"
    using unat_bound [of p] by (rule less_le_trans) simp
  ultimately have "msb_mask ((ucast p :: u64) - of_nat i) = (if i \<le> unat p then 255 else 0)"
    using msb_mask_diff [of "unat p", OF _ assms] by simp
  moreover have "(255 AND p) XOR (255 AND b) = 0 \<longleftrightarrow> b = p" for b :: byte
  proof -
    have "(-1 AND p) XOR (-1 AND b) = 0 \<longleftrightarrow> b = p"
      by (auto simp: bit_eq_iff bit_simps)
    moreover have "(255 :: byte) = -1"
      by simp
    ultimately show ?thesis
      by metis
  qed
  ultimately show ?thesis
    by (simp add: pad_step_def Let_def and_not_eq_ones)
qed

lemma fold_pad_step:
  "n \<le> 2 ^ 31 \<Longrightarrow> fold (pad_step payload p) [0..<n] g = 255 \<longleftrightarrow>
     g = 255 \<and> (\<forall>i<n. i \<le> unat p \<longrightarrow> payload ! (length payload - 1 - i) = p)"
  by (induction n) (auto simp: pad_step_good less_Suc_eq)

text \<open>The padding of RFC 5246, 6.2.3.2: every padding byte, and the length byte after them,
  hold the length of the padding.\<close>

definition valid_padding :: "bytes \<Rightarrow> bool" where
  "valid_padding payload \<longleftrightarrow>
     payload \<noteq> [] \<and> unat (last payload) < length payload \<and>
     drop (length payload - (unat (last payload) + 1)) payload =
       replicate (unat (last payload) + 1) (last payload)"

lemma valid_padding_nth:
  "valid_padding payload \<longleftrightarrow>
     payload \<noteq> [] \<and> unat (last payload) < length payload \<and>
     (\<forall>i\<le>unat (last payload). payload ! (length payload - 1 - i) = last payload)"
proof (cases "payload \<noteq> [] \<and> unat (last payload) < length payload")
  case True
  let ?p = "unat (last payload)"
  let ?d = "length payload - (?p + 1)"
  have "length (drop ?d payload) = ?p + 1" "?d \<le> length payload"
    using True by auto
  then have "drop ?d payload = replicate (?p + 1) (last payload) \<longleftrightarrow>
      (\<forall>j\<le>?p. payload ! (?d + j) = last payload)"
    unfolding list_eq_iff_nth_eq by (simp only: length_replicate nth_drop nth_replicate Suc_eq_plus1 [symmetric]
        less_Suc_eq_le simp_thms cong: imp_cong)
  also have "\<dots> \<longleftrightarrow> (\<forall>i\<le>?p. payload ! (length payload - 1 - i) = last payload)"
  proof safe
    fix i
    assume "\<forall>j\<le>?p. payload ! (?d + j) = last payload" "i \<le> ?p"
    then show "payload ! (length payload - 1 - i) = last payload"
    proof -
      have "?d + (?p - i) = length payload - 1 - i"
        using True \<open>i \<le> ?p\<close> by arith
      then show ?thesis
        using \<open>\<forall>j\<le>?p. payload ! (?d + j) = last payload\<close> by (metis diff_le_self)
    qed
  next
    fix j
    assume "\<forall>i\<le>?p. payload ! (length payload - 1 - i) = last payload" "j \<le> ?p"
    then show "payload ! (?d + j) = last payload"
    proof -
      have "length payload - 1 - (?p - j) = ?d + j"
        using True \<open>j \<le> ?p\<close> by arith
      then show ?thesis
        using \<open>\<forall>i\<le>?p. payload ! (length payload - 1 - i) = last payload\<close> by (metis diff_le_self)
    qed
  qed
  finally show ?thesis
    using True by (simp add: valid_padding_def)
qed (auto simp: valid_padding_def)

lemma extractPadding_eq:
  assumes "length payload < 2 ^ 31" "payload \<noteq> []"
  shows "extractPadding payload =
     (if valid_padding payload then (unat (last payload) + 1, 255) else (1, 0))"
proof -
  let ?p = "last payload"
  let ?n = "length payload"
  define toCheck where "toCheck = (if 256 > ?n then ?n else 256)"
  have last: "payload ! (?n - 1) = ?p"
    using assms(2) by (simp add: last_conv_nth)
  have "unat ?p < 256"
    using unat_bound [of ?p] by simp
  have "(ucast ?p :: u64) = of_nat (unat ?p)"
    by simp
  then have mask: "msb_mask ((of_nat (?n - 1) :: u64) - ucast ?p) = (if unat ?p \<le> ?n - 1 then 255 else 0)"
    using msb_mask_diff [of "?n - 1" "unat ?p"] assms(1) \<open>unat ?p < 256\<close> by simp
  define g where "g = fold (pad_step payload ?p) [0..<toCheck] (msb_mask ((of_nat (?n - 1) :: u64) - ucast ?p))"
  have "g = 255 \<longleftrightarrow> unat ?p \<le> ?n - 1 \<and> (\<forall>i<toCheck. i \<le> unat ?p \<longrightarrow> payload ! (?n - 1 - i) = ?p)"
    using fold_pad_step [of toCheck payload ?p] assms(1) unfolding g_def mask by (simp add: toCheck_def)
  also have "\<dots> \<longleftrightarrow> valid_padding payload"
  proof -
    have "unat ?p \<le> ?n - 1 \<longleftrightarrow> unat ?p < ?n"
      using assms(2) by (cases ?n) auto
    moreover have "i < toCheck" if "unat ?p < ?n" "i \<le> unat ?p" for i
      using that le_less_trans [OF that(2) \<open>unat ?p < 256\<close>] by (simp add: toCheck_def)
    ultimately show ?thesis
      unfolding valid_padding_nth using assms(2) by blast
  qed
  finally have g: "g = 255 \<longleftrightarrow> valid_padding payload" .
  have "extractPadding payload = (unat (?p AND fold_good g) + 1, fold_good g)"
  proof -
    have "\<not> ?n < 1"
      using assms(2) by (simp add: Suc_le_eq)
    then show ?thesis
      unfolding extractPadding_def Let_def g_def toCheck_def last by (simp only: if_False)
  qed
  moreover have "?p AND 255 = ?p"
  proof -
    have "(255 :: byte) = -1"
      by simp
    then show ?thesis
      by (metis and.right_neutral)
  qed
  ultimately show ?thesis
    by (simp add: fold_good_eq g)
qed

end
