(* ===== verification/RecordChannel.thy ===== *)
theory RecordChannel
  imports HalfConn
begin

text \<open>
  What one \<open>halfConn\<close> encrypts, the peer's \<open>halfConn\<close> decrypts.  The laws a cipher must obey
  are locales, one for each kind of cipher; each gives the law of \<open>record_channel\<close>, under
  which a run of records arrives complete and in order.  \<open>Ciphers\<close> interprets them on
  AES-GCM, AES-CBC and RC4.
\<close>

section \<open>Channels\<close>

text \<open>The header \<open>writeRecordLocked\<close> puts before the payload.\<close>

definition record_header :: "byte \<Rightarrow> u16 \<Rightarrow> nat \<Rightarrow> bytes" where
  "record_header typ vers m = typ # put_u16 vers @ put_be 2 m"

type_synonym rand_source = "nat \<Rightarrow> bytes exec"

definition rand_ok :: "rand_source \<Rightarrow> bool" where
  "rand_ok rand \<longleftrightarrow> (\<forall>n. \<exists>bs. rand n = Ret bs \<and> length bs = n)"

text \<open>Encrypting records one after the other, and decrypting them.\<close>

fun encrypt_all ::
  "('s, 'a, 'c, 'm) cipher_ops \<Rightarrow> ('s, 'a, 'c, 'm) halfConn \<Rightarrow> u16 \<Rightarrow> rand_source list
     \<Rightarrow> (byte \<times> bytes) list \<Rightarrow> ('s, 'a, 'c, 'm) halfConn \<times> bytes list exec" where
  "encrypt_all K hc vers (rand # rands) ((typ, p) # ps) =
     (case encrypt K hc (record_header typ vers (length p)) p rand of
        (hc, Ret record) \<Rightarrow>
          (let (hc, r) = encrypt_all K hc vers rands ps
           in (hc, exec_bind r (\<lambda>rs. Ret (record # rs))))
      | (hc, Fail e) \<Rightarrow> (hc, Fail e)
      | (hc, Panic e) \<Rightarrow> (hc, Panic e))"
| "encrypt_all K hc vers _ _ = (hc, Ret [])"

fun decrypt_all ::
  "('s, 'a, 'c, 'm) cipher_ops \<Rightarrow> ('s, 'a, 'c, 'm) halfConn \<Rightarrow> bytes list
     \<Rightarrow> ('s, 'a, 'c, 'm) halfConn \<times> (byte \<times> bytes) list exec" where
  "decrypt_all K hc [] = (hc, Ret [])"
| "decrypt_all K hc (record # rs) =
     (case decrypt K hc record of
        (hc, Ret (p, typ)) \<Rightarrow>
          (let (hc, r) = decrypt_all K hc rs in (hc, exec_bind r (\<lambda>ps. Ret ((typ, p) # ps))))
      | (hc, Fail e) \<Rightarrow> (hc, Fail e)
      | (hc, Panic e) \<Rightarrow> (hc, Panic e))"

text \<open>What \<open>readRecordOrCCS\<close> expects of a record on the wire.\<close>

definition framed :: "byte \<Rightarrow> u16 \<Rightarrow> u16 \<Rightarrow> bytes \<Rightarrow> bool" where
  "framed ty vers v rec \<longleftrightarrow>
     (\<exists>t body. rec = record_header t vers (length body) @ body \<and> (t = ty \<or> t = recordTypeApplicationData) \<and>
        length body \<le> (if v = VersionTLS13 then maxCiphertextTLS13 else maxCiphertext))"

lemma framedI:
  "rec = record_header t vers (length body) @ body \<Longrightarrow> t = ty \<or> t = recordTypeApplicationData \<Longrightarrow>
     length body \<le> (if v = VersionTLS13 then maxCiphertextTLS13 else maxCiphertext) \<Longrightarrow> framed ty vers v rec"
  unfolding framed_def by blast

text \<open>
  The contract of a protected connection: in states that are in \<open>sync\<close> after \<open>n\<close> records, a
  record of an acceptable type and size is encrypted, the peer decrypts it, and both
  are in sync after \<open>n + 1\<close> records.
\<close>

locale record_channel =
  fixes K :: "('s, 'a, 'c, 'm) cipher_ops"
    and sync :: "nat \<Rightarrow> ('s, 'a, 'c, 'm) halfConn \<Rightarrow> ('s, 'a, 'c, 'm) halfConn \<Rightarrow> bool"
    and fits :: "byte \<Rightarrow> bytes \<Rightarrow> bool"
  assumes record_step:
    "sync n w r \<Longrightarrow> n < 2 ^ 64 - 1 \<Longrightarrow> fits typ p \<Longrightarrow> rand_ok rand \<Longrightarrow>
     \<exists>w' r' record. encrypt K w (record_header typ vers (length p)) p rand = (w', Ret record) \<and>
       decrypt K r record = (r', Ret (p, typ)) \<and> sync (n + 1) w' r' \<and>
       framed typ vers (version w) record \<and> version w' = version w"
    and sync_cipher: "sync n w r \<Longrightarrow> hc_cipher r \<noteq> NilCipher"
begin

lemma delivered:
  assumes "sync n w r" "n + length ps < 2 ^ 64" "list_all (\<lambda>(typ, p). fits typ p) ps"
    "list_all rand_ok rands" "length rands = length ps"
  shows "\<exists>w' r' records. encrypt_all K w vers rands ps = (w', Ret records) \<and>
     decrypt_all K r records = (r', Ret ps) \<and> sync (n + length ps) w' r'"
  using assms
proof (induction ps arbitrary: n w r rands)
  case Nil
  then show ?case
    by simp
next
  case (Cons tp ps)
  obtain ty p where tp: "tp = (ty, p)"
    by fastforce
  obtain rand rs where rands: "rands = rand # rs"
    using Cons.prems(5) by (cases rands) auto
  obtain w1 r1 out where step: "encrypt K w (record_header ty vers (length p)) p rand = (w1, Ret out)"
    "decrypt K r out = (r1, Ret (p, ty))" "sync (n + 1) w1 r1"
    using record_step [of n w r ty p rand vers] Cons.prems by (auto simp: tp rands)
  obtain w2 r2 records where rest: "encrypt_all K w1 vers rs ps = (w2, Ret records)"
    "decrypt_all K r1 records = (r2, Ret ps)" "sync (n + 1 + length ps) w2 r2"
    using Cons.IH [OF step(3), of rs] Cons.prems by (auto simp: tp rands)
  show ?case
    using step rest by (simp add: tp rands)
qed

end

section \<open>AEAD ciphers\<close>

definition aead_sync ::
  "('s, 'a, 'c, 'm) cipher_ops \<Rightarrow> (nat \<Rightarrow> 'a \<Rightarrow> 'a \<Rightarrow> bool) \<Rightarrow> nat
     \<Rightarrow> ('s, 'a, 'c, 'm) halfConn \<Rightarrow> ('s, 'a, 'c, 'm) halfConn \<Rightarrow> bool" where
  "aead_sync K R n w r \<longleftrightarrow>
     hc_seq w = put_be 8 n \<and> hc_seq r = put_be 8 n \<and> n < 2 ^ 64 \<and> version w = version r \<and>
     mac w = None \<and> mac r = None \<and>
     (\<exists>a b. hc_cipher w = Aead a \<and> hc_cipher r = Aead b \<and> R n a b \<and>
       o_explicitNonceLen K a = (if version w = VersionTLS13 then 0 else 8))"

text \<open>What a TLS 1.3 record carries: the content, its type, and zeros.\<close>

definition inner_plaintext :: "byte \<Rightarrow> bytes \<Rightarrow> nat \<Rightarrow> bytes" where
  "inner_plaintext typ p k = p @ [typ] @ replicate k 0"

lemma strip_zeros_append: "i \<le> length xs \<Longrightarrow> strip_zeros (xs @ ys) i = strip_zeros xs i"
  by (induction i) (simp_all add: nth_append)

lemma strip_zeros_inner:
  "ty \<noteq> 0 \<Longrightarrow> strip_zeros (inner_plaintext ty p k) (length p + 1 + k) = Some (ty, p)"
proof (induction k)
  case (Suc k)
  let ?in = "inner_plaintext ty p k"
  have "inner_plaintext ty p (Suc k) = ?in @ [0]" "length ?in = length p + 1 + k"
    by (simp_all add: inner_plaintext_def replicate_append_same)
  then show ?case
    using Suc strip_zeros_append [of "length p + 1 + k" ?in "[0]"] by (simp add: nth_append)
qed (simp add: inner_plaintext_def)

lemma decrypt_inner_plaintext:
  assumes "typ \<noteq> 0" "length p + k \<le> maxPlaintext"
  shows "decrypt_inner recordTypeApplicationData (inner_plaintext typ p k) = Ret (typ, p)"
proof -
  have "length (inner_plaintext typ p k) = length p + 1 + k" "inner_plaintext typ p k \<noteq> []"
    by (simp_all add: inner_plaintext_def)
  then show ?thesis
    using assms strip_zeros_inner [OF assms(1), of p k] by (simp add: decrypt_inner_def)
qed

lemma record_header_simps [simp]:
  "length (record_header typ vers m) = 5" "record_header typ vers m ! 0 = typ" "(record_header typ vers m @ xs) ! 0 = typ"
  "take 3 (record_header typ vers m @ xs) = typ # put_u16 vers"
  "set_length k (record_header typ vers m @ xs) = record_header typ vers k @ xs"
  by (simp_all add: record_header_def set_length_def)

lemma incSeq_put:
  "hc_seq hc = put_be 8 n \<Longrightarrow> n < 2 ^ 64 - 1 \<Longrightarrow> incSeq hc = Ret (hc\<lparr>hc_seq := put_be 8 (n + 1)\<rparr>)"
  by (simp add: incSeq_eq)

text \<open>
  The laws of an AEAD pair.  \<open>R n a b\<close>: the writer's \<open>a\<close> has sealed the records before number
  \<open>n\<close>, and the reader's \<open>b\<close> has the same key.  The next nonce is the sequence number.
\<close>

locale aead_pair =
  fixes K :: "('s, 'a, 'c, 'm) cipher_ops" and R :: "nat \<Rightarrow> 'a \<Rightarrow> 'a \<Rightarrow> bool"
  assumes seal_open:
    "R n a b \<Longrightarrow> n < 2 ^ 64 - 1 \<Longrightarrow> length p \<le> 2 ^ 15 \<Longrightarrow> length ad \<le> 16 \<Longrightarrow>
     \<exists>a' b' ct. o_Seal K a (put_be 8 n) p ad = Ret (a', ct) \<and> length ct = length p + o_Overhead K a \<and>
       o_Open K b (put_be 8 n) ct ad = (b', Ret p) \<and> R (n + 1) a' b' \<and>
       o_explicitNonceLen K a' = o_explicitNonceLen K a"
    and same_sizes: "R n a b \<Longrightarrow> o_Overhead K a = o_Overhead K b \<and> o_Overhead K a \<le> 128 \<and>
       o_explicitNonceLen K a = o_explicitNonceLen K b"
begin

text \<open>A TLS 1.3 record whose padding is \<open>k\<close> bytes.\<close>

lemma step13:
  assumes sync: "aead_sync K R n w r" and n: "n < 2 ^ 64 - 1" and v: "version w = VersionTLS13"
    and ty: "ty' \<noteq> 0" and size: "length p' + k \<le> maxPlaintext"
    and pad: "encrypt_padding ov (handshakeLen w) p (record_header ty vers (length p) @ p @ [ty]) =
      (lens, Ret (record_header ty vers (length p) @ inner_plaintext ty' p' k))"
    and ov: "\<And>a. hc_cipher w = Aead a \<Longrightarrow> ov = o_Overhead K a"
  shows "\<exists>w' r' out. encrypt K w (record_header ty vers (length p)) p rand = (w', Ret out) \<and>
     decrypt K r out = (r', Ret (p', ty')) \<and> aead_sync K R (n + 1) w' r' \<and>
     length out = recordHeaderLen + length p' + 1 + k + ov \<and> framed ty vers VersionTLS13 out \<and>
     version w' = VersionTLS13 \<and> handshakeLen w' = lens"
proof -
  obtain a b where ab: "hc_cipher w = Aead a" "hc_cipher r = Aead b" "R n a b"
    "o_explicitNonceLen K a = 0"
    using sync v by (auto simp: aead_sync_def)
  note seq = sync [unfolded aead_sync_def]
  let ?in = "inner_plaintext ty' p' k"
  let ?n = "length ?in + o_Overhead K a"
  let ?h = "record_header recordTypeApplicationData vers ?n"
  have ov: "ov = o_Overhead K a" "o_Overhead K b = ov" "ov \<le> 128" "o_explicitNonceLen K b = 0"
    using ov ab same_sizes [OF ab(3)] by simp_all
  have len: "length ?in = length p' + 1 + k"
    by (simp add: inner_plaintext_def)
  have "length ?in \<le> 2 ^ 15"
    using size len by (simp add: maxPlaintext_def)
  then obtain a' b' ct where law: "o_Seal K a (put_be 8 n) ?in ?h = Ret (a', ct)"
    "length ct = ?n" "o_Open K b (put_be 8 n) ct ?h = (b', Ret ?in)" "R (n + 1) a' b'"
    "o_explicitNonceLen K a' = 0"
    using seal_open [OF ab(3) n, of ?in ?h] ov ab(4) by auto
  have upd: "(record_header ty vers m @ xs)[0 := recordTypeApplicationData] =
      record_header recordTypeApplicationData vers m @ xs" for m xs
    by (simp add: record_header_def)
  have take5: "take 5 (record_header t vers m @ xs) = record_header t vers m"
    "drop 5 (record_header t vers m @ xs) = xs" for t m xs
    by simp_all
  have "encrypt K w (record_header ty vers (length p)) p rand =
     (w\<lparr>handshakeLen := lens, hc_cipher := Aead a', hc_seq := put_be 8 (n + 1)\<rparr>, Ret (?h @ ct))"
    using pad seq v
    by (simp add: encrypt_def ab encrypt_nonce_def explicitNonceLen_def encrypt_cipher_def
        encrypt_aead13_def Let_def ov(1) upd law then_incSeq_def incSeq_put [OF _ n] recordHeaderLen_def
        take5)
  moreover have "decrypt K r (?h @ ct) =
     (r\<lparr>hc_cipher := Aead b', hc_seq := put_be 8 (n + 1)\<rparr>, Ret (p', ty'))"
  proof -
    have "version r = VersionTLS13" "recordTypeApplicationData \<noteq> recordTypeChangeCipherSpec"
      using seq v by (auto simp: recordTypeApplicationData_def recordTypeChangeCipherSpec_def)
    then show ?thesis
      using seq decrypt_inner_plaintext [OF ty size]
      by (simp add: decrypt_def ab decrypt_cipher_def explicitNonceLen_def ov(4) law Let_def
          then_incSeq_def incSeq_put [OF _ n] recordHeaderLen_def take5)
  qed
  moreover have "framed ty vers VersionTLS13 (?h @ ct)"
    using law(2) ov size by (intro framedI [of _ recordTypeApplicationData vers ct])
      (simp_all add: len maxPlaintext_def maxCiphertextTLS13_def)
  ultimately show ?thesis
    using law seq v n ov(1) same_sizes [OF law(4)] ab same_sizes [OF ab(3)]
    by (auto simp: aead_sync_def recordHeaderLen_def len)
qed

text \<open>The same without padding.\<close>

lemma step13_plain:
  assumes "aead_sync K R n w r" "n < 2 ^ 64 - 1" "version w = VersionTLS13"
    and "ty \<noteq> 0" "length p \<le> maxPlaintext" "ty \<noteq> recordTypeHandshake \<or> handshakeLen w ! 1 = 0"
  shows "\<exists>w' r' out. encrypt K w (record_header ty vers (length p)) p rand = (w', Ret out) \<and>
     decrypt K r out = (r', Ret (p, ty)) \<and> aead_sync K R (n + 1) w' r' \<and>
     framed ty vers VersionTLS13 out \<and> version w' = VersionTLS13 \<and> handshakeLen w' = handshakeLen w"
proof -
  obtain a where a: "hc_cipher w = Aead a"
    using assms(1) by (auto simp: aead_sync_def)
  have "encrypt_padding (o_Overhead K a) (handshakeLen w) p (record_header ty vers (length p) @ p @ [ty]) =
     (handshakeLen w, Ret (record_header ty vers (length p) @ inner_plaintext ty p 0))"
    using assms(6) by (auto simp: encrypt_padding_def inner_plaintext_def nth_append)
  from step13 [OF assms(1-4) _ this] show ?thesis
    using assms(5) a by fastforce
qed

lemma step12:
  assumes sync: "aead_sync K R n w r" and n: "n < 2 ^ 64 - 1" and v: "version w \<noteq> VersionTLS13"
    and size: "length p \<le> maxPlaintext"
  shows "\<exists>w' r' out. encrypt K w (record_header ty vers (length p)) p rand = (w', Ret out) \<and>
     decrypt K r out = (r', Ret (p, ty)) \<and> aead_sync K R (n + 1) w' r' \<and>
     framed ty vers (version w) out \<and> version w' = version w \<and> handshakeLen w' = handshakeLen w"
proof -
  obtain a b where ab: "hc_cipher w = Aead a" "hc_cipher r = Aead b" "R n a b"
    "o_explicitNonceLen K a = 8"
    using sync v by (auto simp: aead_sync_def)
  note seq = sync [unfolded aead_sync_def]
  let ?seq = "put_be 8 n"
  let ?h = "record_header ty vers"
  let ?ad = "?seq @ ?h (length p)"
  note ov = same_sizes [OF ab(3)]
  obtain a' b' ct where law: "o_Seal K a ?seq p ?ad = Ret (a', ct)"
    "length ct = length p + o_Overhead K a" "o_Open K b ?seq ct ?ad = (b', Ret p)" "R (n + 1) a' b'"
    "o_explicitNonceLen K a' = 8"
    using seal_open [OF ab(3) n, of p ?ad] ab(4) size by (auto simp: maxPlaintext_def)
  have take: "take 5 (?h m @ xs) = ?h m" "drop 5 (?h m @ xs) = xs" for m xs
    by simp_all
  have ad: "?seq @ (ty # put_u16 vers) @ put_be 2 (nat ((int (length p + o_Overhead K a) - int (o_Overhead K a)) mod 65536)) = ?ad"
    using size by (simp add: record_header_def maxPlaintext_def)
  let ?out = "?h (8 + length ct) @ ?seq @ ct"
  have "encrypt K w (?h (length p)) p rand =
     (w\<lparr>hc_cipher := Aead a', hc_seq := put_be 8 (n + 1)\<rparr>, Ret ?out)"
    using seq v
    by (simp add: encrypt_def ab encrypt_nonce_def explicitNonceLen_def encrypt_cipher_def
        Let_def take law then_incSeq_def incSeq_put [OF _ n] recordHeaderLen_def)
  moreover have "decrypt K r ?out =
     (r\<lparr>hc_cipher := Aead b', hc_seq := put_be 8 (n + 1)\<rparr>, Ret (p, ty))"
  proof -
    have "version r \<noteq> VersionTLS13" "o_explicitNonceLen K b = 8" "o_Overhead K b = o_Overhead K a"
      using seq v ov ab(4) by auto
    moreover have "?seq \<noteq> []" "take 3 (?h m) = ty # put_u16 vers" for m
      using length_put_be [of 8 n] by (auto simp: record_header_def simp del: length_put_be)
    ultimately show ?thesis
      using seq ad law(3)
      by (simp add: decrypt_def ab decrypt_cipher_def explicitNonceLen_def law(2) Let_def
          then_incSeq_def incSeq_put [OF _ n] recordHeaderLen_def take)
  qed
  moreover have "framed ty vers (version w) ?out"
    using law(2) ov size v by (intro framedI [of _ ty vers "?seq @ ct"])
      (simp_all add: maxPlaintext_def maxCiphertext_def)
  ultimately show ?thesis
    using law seq v n ab by (auto simp: aead_sync_def recordHeaderLen_def)
qed

text \<open>The records a connection may send in these two cases.\<close>

sublocale aead_channel: record_channel K
  "\<lambda>n w r. aead_sync K R n w r \<and> (version w = VersionTLS13 \<longrightarrow> handshakeLen w ! 1 = 0)"
  "\<lambda>ty p. ty \<noteq> 0 \<and> length p \<le> maxPlaintext"
proof
  fix n w r and ty :: byte and p :: bytes and rand :: rand_source and vers :: u16
  assume "aead_sync K R n w r \<and> (version w = VersionTLS13 \<longrightarrow> handshakeLen w ! 1 = 0)"
    and "n < 2 ^ 64 - 1" "ty \<noteq> 0 \<and> length p \<le> maxPlaintext"
  then show "\<exists>w' r' record. encrypt K w (record_header ty vers (length p)) p rand = (w', Ret record) \<and>
       decrypt K r record = (r', Ret (p, ty)) \<and>
       (aead_sync K R (n + 1) w' r' \<and> (version w' = VersionTLS13 \<longrightarrow> handshakeLen w' ! 1 = 0)) \<and>
       framed ty vers (version w) record \<and> version w' = version w"
    using step13_plain [of n w r ty p vers rand] step12 [of n w r p ty vers rand]
    by (cases "version w = VersionTLS13") fastforce+
qed (auto simp: aead_sync_def)

end

section \<open>MACs\<close>

definition mac_sync ::
  "('m \<Rightarrow> bool) \<Rightarrow> nat \<Rightarrow> ('s, 'a, 'c, 'm) halfConn \<Rightarrow> ('s, 'a, 'c, 'm) halfConn \<Rightarrow> bool" where
  "mac_sync keyed n w r \<longleftrightarrow>
     hc_seq w = put_be 8 n \<and> hc_seq r = put_be 8 n \<and> n < 2 ^ 64 \<and> version w = version r \<and>
     version w \<noteq> VersionTLS13 \<and> mac r = mac w \<and> (\<exists>m. mac w = Some m \<and> keyed m)"

locale mac_keys =
  fixes K :: "('s, 'a, 'c, 'm) cipher_ops" and keyed :: "'m \<Rightarrow> bool"
  assumes mac_size: "keyed m \<Longrightarrow> length (o_MacSum K m x) = o_MacSize K m"
    and mac_small: "keyed m \<Longrightarrow> o_MacSize K m \<le> 1024"
begin

text \<open>The MAC that was computed over the header and the payload is accepted.\<close>

lemma decrypt_mac_ok:
  assumes "keyed m" "length p \<le> maxPlaintext" "hc_seq hc = seq" "padLen = length pad"
  shows "decrypt_mac K hc m (record_header ty vers k @ rest)
     (p @ tls10MAC K m seq (record_header ty vers (length p)) p [] @ pad) padLen 255 = Ret p"
proof -
  have "(1 :: int) AND uint (255 :: byte) = 1"
    by simp
  then show ?thesis
    using assms by (simp add: decrypt_mac_def tls10MAC_def mac_size Let_def record_header_def)
qed

end

section \<open>Stream ciphers\<close>

definition stream_sync ::
  "('m \<Rightarrow> bool) \<Rightarrow> ('s \<Rightarrow> 's \<Rightarrow> bool) \<Rightarrow> nat \<Rightarrow> ('s, 'a, 'c, 'm) halfConn
     \<Rightarrow> ('s, 'a, 'c, 'm) halfConn \<Rightarrow> bool" where
  "stream_sync keyed S n w r \<longleftrightarrow>
     mac_sync keyed n w r \<and> (\<exists>e d. hc_cipher w = Stream e \<and> hc_cipher r = Stream d \<and> S e d)"

locale stream_pair = mac_keys K keyed
  for K :: "('s, 'a, 'c, 'm) cipher_ops" and keyed :: "'m \<Rightarrow> bool" +
  fixes S :: "'s \<Rightarrow> 's \<Rightarrow> bool"
  assumes stream_split:
    "S e d \<Longrightarrow> o_XORKeyStream K e p = (e1, c1) \<Longrightarrow> o_XORKeyStream K e1 q = (e2, c2) \<Longrightarrow>
     length c1 = length p \<and> length c2 = length q \<and> (\<exists>d'. o_XORKeyStream K d (c1 @ c2) = (d', p @ q) \<and> S e2 d')"

sublocale stream_pair \<subseteq> stream_channel: record_channel K "stream_sync keyed S"
  "\<lambda>ty p. length p \<le> maxPlaintext"
proof
  fix n and w r :: "('s, 'a, 'c, 'm) halfConn" and ty :: byte and p :: bytes and rand :: rand_source and vers :: u16
  assume sync: "stream_sync keyed S n w r" and n: "n < 2 ^ 64 - 1" and size: "length p \<le> maxPlaintext"
  obtain e d m where ed: "hc_cipher w = Stream e" "hc_cipher r = Stream d" "S e d"
    and m: "mac w = Some m" "mac r = Some m" "keyed m"
    using sync by (auto simp: stream_sync_def mac_sync_def)
  have seq: "hc_seq w = put_be 8 n" "hc_seq r = put_be 8 n" "version w = version r"
    "version r \<noteq> VersionTLS13" "n < 2 ^ 64"
    using sync by (auto simp: stream_sync_def mac_sync_def)
  let ?h = "record_header ty vers"
  let ?mac = "tls10MAC K m (put_be 8 n) (?h (length p)) p []"
  obtain e1 c1 where c1: "o_XORKeyStream K e p = (e1, c1)"
    by fastforce
  obtain e2 c2 where c2: "o_XORKeyStream K e1 ?mac = (e2, c2)"
    by fastforce
  obtain d' where d': "o_XORKeyStream K d (c1 @ c2) = (d', p @ ?mac)" "S e2 d'"
    using stream_split [OF ed(3) c1 c2] by auto
  have drop: "drop 5 (?h k @ xs) = xs" for k xs
    by simp
  let ?out = "?h (length (c1 @ c2)) @ c1 @ c2"
  have enc: "encrypt K w (?h (length p)) p rand =
     (w\<lparr>hc_cipher := Stream e2, hc_seq := put_be 8 (n + 1)\<rparr>, Ret ?out)"
    using seq m ed
    by (simp add: encrypt_def encrypt_nonce_def explicitNonceLen_def encrypt_cipher_def
        Let_def c1 c2 then_incSeq_def incSeq_put [OF _ n] recordHeaderLen_def)
  have "decrypt_mac K r m ?out (p @ ?mac @ []) 0 255 = Ret p"
    using m size seq by (intro decrypt_mac_ok) simp_all
  then have dec: "decrypt K r ?out =
     (r\<lparr>hc_cipher := Stream d', hc_seq := put_be 8 (n + 1)\<rparr>, Ret (p, ty))"
    using seq m ed d'
    by (simp add: decrypt_def decrypt_cipher_def Let_def then_incSeq_def incSeq_put [OF _ n]
        recordHeaderLen_def drop)
  have "length ?mac = o_MacSize K m" "o_MacSize K m \<le> 1024"
    using m(3) mac_size mac_small by (simp_all add: tls10MAC_def)
  then have "framed ty vers (version w) ?out"
    using stream_split [OF ed(3) c1 c2] size seq
    by (intro framedI [of _ ty vers "c1 @ c2"]) (simp_all add: maxPlaintext_def maxCiphertext_def)
  then show "\<exists>w' r' record. encrypt K w (?h (length p)) p rand = (w', Ret record) \<and>
       decrypt K r record = (r', Ret (p, ty)) \<and> stream_sync keyed S (n + 1) w' r' \<and>
       framed ty vers (version w) record \<and> version w' = version w"
    unfolding enc using dec seq m n d'(2) by (auto simp: stream_sync_def mac_sync_def)
qed (auto simp: stream_sync_def)

section \<open>CBC ciphers\<close>

text \<open>
  With an explicit IV the state after a record does not matter; without one (TLS 1.0) the
  two chains must stay related.
\<close>

definition cbc_sync ::
  "('m \<Rightarrow> bool) \<Rightarrow> ('c \<Rightarrow> 'c \<Rightarrow> bool) \<Rightarrow> nat \<Rightarrow> ('s, 'a, 'c, 'm) halfConn
     \<Rightarrow> ('s, 'a, 'c, 'm) halfConn \<Rightarrow> bool" where
  "cbc_sync keyed C n w r \<longleftrightarrow>
     mac_sync keyed n w r \<and> (\<exists>e d. hc_cipher w = CBC e \<and> hc_cipher r = CBC d \<and> C e d)"

locale cbc_pair = mac_keys K keyed
  for K :: "('s, 'a, 'c, 'm) cipher_ops" and keyed :: "'m \<Rightarrow> bool" +
  fixes C :: "'c \<Rightarrow> 'c \<Rightarrow> bool"
  assumes crypt_blocks:
    "C e d \<Longrightarrow> length p mod o_BlockSize K e = 0 \<Longrightarrow> o_CryptBlocks K e p = (e', ct) \<Longrightarrow>
     length ct = length p \<and> (\<exists>d'. o_CryptBlocks K d ct = (d', p) \<and> C e' d')"
    and set_iv: "C e d \<Longrightarrow> length iv = o_BlockSize K e \<Longrightarrow> C (o_SetIV K e iv) (o_SetIV K d iv)"
    and block_size: "C e d \<Longrightarrow> o_BlockSize K d = o_BlockSize K e \<and> 0 < o_BlockSize K e \<and> o_BlockSize K e \<le> 256"
    and set_iv_size: "C e d \<Longrightarrow> length iv = o_BlockSize K e \<Longrightarrow> o_BlockSize K (o_SetIV K e iv) = o_BlockSize K e"

text \<open>The padding \<open>encrypt\<close> writes.\<close>

definition cbc_pad :: "nat \<Rightarrow> nat \<Rightarrow> bytes" where
  "cbc_pad blockSize n =
     replicate (blockSize - n mod blockSize) (of_nat (blockSize - n mod blockSize - 1))"

lemma padding_valid:
  assumes "0 < k" "k \<le> 256" "length x + k < 2 ^ 31"
  shows "extractPadding (x @ replicate k (of_nat (k - 1))) = (k, 255)"
proof -
  obtain j where k: "k = Suc j"
    using assms(1) by (cases k) auto
  define b :: byte where "b = of_nat j"
  have b: "unat b = j"
    using assms(2) by (simp add: b_def k unat_of_nat)
  have last: "last (x @ replicate (Suc j) b) = b"
    by (simp del: replicate_Suc)
  have "valid_padding (x @ replicate (Suc j) b)"
    unfolding valid_padding_def last b by simp
  then show ?thesis
    using extractPadding_eq [of "x @ replicate (Suc j) b"] assms(3) b last
    by (simp add: k b_def [symmetric] del: replicate_Suc)
qed

lemma cbc_pad_valid:
  assumes "0 < blockSize" "blockSize \<le> 256" "length x + 256 < 2 ^ 31"
  shows "(length x + length (cbc_pad blockSize (length x))) mod blockSize = 0"
    and "extractPadding (x @ cbc_pad blockSize (length x)) = (length (cbc_pad blockSize (length x)), 255)"
proof -
  let ?k = "blockSize - length x mod blockSize"
  have k: "0 < ?k" "?k \<le> 256"
    using assms by (auto simp: le_diff_conv)
  have pad: "cbc_pad blockSize (length x) = replicate ?k (of_nat (?k - 1))"
    by (simp only: cbc_pad_def)
  show "(length x + length (cbc_pad blockSize (length x))) mod blockSize = 0"
  proof -
    have "blockSize * Suc (length x div blockSize) = blockSize + blockSize * (length x div blockSize)"
      by simp
    then have "length x + ?k = blockSize * Suc (length x div blockSize)"
      using mod_less_divisor [OF assms(1), of "length x"] mult_div_mod_eq [of blockSize "length x"]
      by linarith
    then show ?thesis
      unfolding pad length_replicate by (simp only: mod_mult_self1_is_0)
  qed
  have "length x + ?k < 2 ^ 31"
    using k(2) assms(3) by linarith
  from padding_valid [OF k this]
  show "extractPadding (x @ cbc_pad blockSize (length x)) = (length (cbc_pad blockSize (length x)), 255)"
    unfolding pad length_replicate .
qed

lemma roundUp_least:
  assumes "0 < b" "a \<le> m" "m mod b = 0"
  shows "roundUp a b \<le> m"
proof -
  obtain q where q: "m = b * q"
    using assms(3) by auto
  show ?thesis
  proof (cases "a mod b = 0")
    case True
    then show ?thesis
      using assms(1,2) by (simp add: roundUp_def)
  next
    case False
    then have "b * (a div b) < b * q"
      using assms(2) q mult_div_mod_eq [of b a] by linarith
    then have "b * Suc (a div b) \<le> b * q"
      by (metis Suc_leI mult_le_mono2 nat_mult_less_cancel1 mult_less_cancel1)
    moreover have "roundUp a b = b * Suc (a div b)"
    proof -
      have "roundUp a b = a + (b - a mod b)"
        using False assms(1) by (simp add: roundUp_def)
      moreover have "b * Suc (a div b) = b + b * (a div b)"
        by simp
      ultimately show ?thesis
        using mod_less_divisor [OF assms(1), of a] mult_div_mod_eq [of b a] by linarith
    qed
    ultimately show ?thesis
      using q by simp
  qed
qed

lemma encrypt_nonce_cbc:
  assumes "hc_cipher hc = CBC c" "rand_ok rand"
  obtains iv where "encrypt_nonce K hc rand = Ret iv" "length iv = explicitNonceLen K hc"
  using assms(2) [unfolded rand_ok_def, rule_format, of "explicitNonceLen K hc"] assms(1)
  by (cases "explicitNonceLen K hc") (auto simp: encrypt_nonce_def)

sublocale cbc_pair \<subseteq> cbc_channel: record_channel K "cbc_sync keyed C"
  "\<lambda>ty p. length p \<le> maxPlaintext"
proof
  fix n and w r :: "('s, 'a, 'c, 'm) halfConn" and ty :: byte and p :: bytes and rand :: rand_source and vers :: u16
  assume sync: "cbc_sync keyed C n w r" and n: "n < 2 ^ 64 - 1" and size: "length p \<le> maxPlaintext"
    and rand: "rand_ok rand"
  obtain e d m where ed: "hc_cipher w = CBC e" "hc_cipher r = CBC d" "C e d"
    and m: "mac w = Some m" "mac r = Some m" "keyed m"
    using sync by (auto simp: cbc_sync_def mac_sync_def)
  have seq: "hc_seq w = put_be 8 n" "hc_seq r = put_be 8 n" "version w = version r"
    "version r \<noteq> VersionTLS13" "n < 2 ^ 64"
    using sync by (auto simp: cbc_sync_def mac_sync_def)
  let ?h = "record_header ty vers"
  let ?mac = "tls10MAC K m (put_be 8 n) (?h (length p)) p []"
  let ?bs = "o_BlockSize K e"
  let ?pad = "cbc_pad ?bs (length (p @ ?mac))"
  note bs = block_size [OF ed(3)]
  obtain iv where iv: "encrypt_nonce K w rand = Ret iv" "length iv = explicitNonceLen K w"
    by (rule encrypt_nonce_cbc [OF ed(1) rand])
  have xr: "explicitNonceLen K r = length iv" "length iv = 0 \<or> length iv = ?bs"
    using bs seq by (simp_all add: iv(2) explicitNonceLen_def ed)
  define e0 d0 where "e0 = (if length iv > 0 then o_SetIV K e iv else e)"
    and "d0 = (if length iv > 0 then o_SetIV K d iv else d)"
  have ed0: "C e0 d0" "o_BlockSize K e0 = ?bs"
    using xr(2) ed(3) set_iv [of e d iv] set_iv_size [of e d iv] by (auto simp: e0_def d0_def)
  have maclen: "length ?mac = o_MacSize K m" "o_MacSize K m \<le> 1024"
    using m(3) mac_size mac_small by (simp_all add: tls10MAC_def)
  have "length (p @ ?mac) + 256 < 2 ^ 31"
    using size maclen by (simp add: maxPlaintext_def)
  note pad = cbc_pad_valid [OF conjunct1 [OF conjunct2 [OF bs]] conjunct2 [OF conjunct2 [OF bs]] this]
  obtain e1 ct where ct: "o_CryptBlocks K e0 (p @ ?mac @ ?pad) = (e1, ct)"
    by fastforce
  from crypt_blocks [OF ed0(1) _ ct] obtain d1 where d1: "length ct = length (p @ ?mac @ ?pad)"
    "o_CryptBlocks K d0 ct = (d1, p @ ?mac @ ?pad)" "C e1 d1"
    using pad(1) ed0(2) by (auto simp: add.assoc)
  have "length (iv @ ct) mod ?bs = 0"
    using pad(1) xr(2) d1(1) by (auto simp: add.assoc)
  moreover have "length iv + roundUp (o_MacSize K m + 1) ?bs \<le> length (iv @ ct)"
  proof -
    have "0 < length ?pad"
      using bs by (simp add: cbc_pad_def)
    then have "o_MacSize K m + 1 \<le> length ct"
      using d1(1) maclen(1) by (simp add: Suc_le_eq)
    then show ?thesis
      using roundUp_least [of ?bs "o_MacSize K m + 1" "length ct"] pad(1) bs d1(1)
      by (simp add: add.assoc)
  qed
  ultimately have chk: "\<not> (length (iv @ ct) mod ?bs \<noteq> 0 \<or>
      length (iv @ ct) < length iv + roundUp (o_MacSize K m + 1) ?bs)"
    by simp
  have drop: "drop 5 (?h k @ xs) = xs" for k xs
    by simp
  let ?out = "?h (length (iv @ ct)) @ iv @ ct"
  have enc: "encrypt K w (?h (length p)) p rand =
     (w\<lparr>hc_cipher := CBC e1, hc_seq := put_be 8 (n + 1)\<rparr>, Ret ?out)"
  proof -
    have "encrypt_cipher K w iv (?h (length p) @ iv) p = (w\<lparr>hc_cipher := CBC e1\<rparr>, Ret (?h (length p) @ iv @ ct))"
      using ct [unfolded e0_def] by (simp add: encrypt_cipher_def ed m seq recordHeaderLen_def Let_def cbc_pad_def
          cong: if_cong)
    then show ?thesis
      using seq by (simp add: encrypt_def ed iv(1) then_incSeq_def incSeq_put [OF _ n] recordHeaderLen_def)
  qed
  have "decrypt_mac K r m ?out (p @ ?mac @ ?pad) (length ?pad) 255 = Ret p"
    using m size seq by (intro decrypt_mac_ok) simp_all
  moreover have "decrypt_cipher K r ?out (iv @ ct) =
     (r\<lparr>hc_cipher := CBC d1\<rparr>, Ret (p @ ?mac @ ?pad, [], length ?pad, 255))"
  proof -
    have "(if 0 < length iv then (o_SetIV K d (take (length iv) (iv @ ct)), drop (length iv) (iv @ ct)) else (d, iv @ ct)) = (d0, ct)"
      by (simp add: d0_def)
    moreover have "o_BlockSize K d = ?bs"
      using bs by simp
    ultimately show ?thesis
      using chk pad(2) by (simp only: decrypt_cipher_def ed m xr(1) hc_cipher.case option.case Let_def d1(2)
          if_False prod.case append_assoc)
  qed
  ultimately have dec: "decrypt K r ?out =
     (r\<lparr>hc_cipher := CBC d1, hc_seq := put_be 8 (n + 1)\<rparr>, Ret (p, ty))"
    using seq m ed
    by (simp add: decrypt_def Let_def then_incSeq_def incSeq_put [OF _ n] recordHeaderLen_def drop)
  have "length ?pad \<le> 256"
    using bs by (simp add: cbc_pad_def le_diff_conv)
  then have "length (iv @ ct) \<le> maxCiphertext"
    using d1(1) maclen xr(2) bs size by (auto simp: maxPlaintext_def maxCiphertext_def)
  then have "framed ty vers (version w) ?out"
    using seq by (intro framedI [of _ ty vers "iv @ ct"]) simp_all
  then show "\<exists>w' r' record. encrypt K w (?h (length p)) p rand = (w', Ret record) \<and>
       decrypt K r record = (r', Ret (p, ty)) \<and> cbc_sync keyed C (n + 1) w' r' \<and>
       framed ty vers (version w) record \<and> version w' = version w"
    unfolding enc using dec seq m n d1(3) by (auto simp: cbc_sync_def mac_sync_def)
qed (auto simp: cbc_sync_def)

end
