(* ===== verification/Ciphers.thy ===== *)
theory Ciphers
  imports RecordChannel GcmNonces CipherSuites
begin

text \<open>
  The ciphers of the suites: the two AES-GCM wrappers of \<open>cipher_suites.go\<close>, AES-CBC
  (\<open>cipherAES\<close>), RC4 (\<open>cipherRC4\<close>) and HMAC (\<open>macSHA1\<close>, \<open>macSHA256\<close>), as the operations of a
  \<open>halfConn\<close>.  CBC mode, RC4 and HMAC are those of the Go library.  The contracts of
  \<open>RecordChannel\<close> are interpreted on them.
\<close>

section \<open>RC4\<close>

record rc4 =
  rc_s :: bytes
  rc_i :: byte
  rc_j :: byte

definition rc4_next :: "rc4 \<Rightarrow> rc4 \<times> byte" where
  "rc4_next c =
     (let i = rc_i c + 1;
          x = rc_s c ! unat i;
          j = rc_j c + x;
          y = rc_s c ! unat j;
          s = (rc_s c)[unat i := y, unat j := x]
      in (\<lparr>rc_s = s, rc_i = i, rc_j = j\<rparr>, s ! unat (x + y)))"

fun rc4_XORKeyStream :: "rc4 \<Rightarrow> bytes \<Rightarrow> rc4 \<times> bytes" where
  "rc4_XORKeyStream c [] = (c, [])"
| "rc4_XORKeyStream c (b # bs) =
     (let (c, k) = rc4_next c; (c, out) = rc4_XORKeyStream c bs in (c, (b XOR k) # out))"

fun rc4_schedule :: "bytes \<Rightarrow> nat list \<Rightarrow> byte \<Rightarrow> bytes \<Rightarrow> bytes" where
  "rc4_schedule key [] j s = s"
| "rc4_schedule key (i # is) j s =
     (let j = j + s ! i + key ! (i mod length key)
      in rc4_schedule key is j (s[i := s ! unat j, unat j := s ! i]))"

definition rc4_NewCipher :: "bytes \<Rightarrow> rc4 exec" where
  "rc4_NewCipher key =
     (if length key < 1 \<or> length key > 256 then Fail (KeySizeError (length key))
      else Ret \<lparr>rc_s = rc4_schedule key [0..<256] 0 (map of_nat [0..<256]), rc_i = 0, rc_j = 0\<rparr>)"

lemma rc4_append:
  "rc4_XORKeyStream c (xs @ ys) =
     (let (c, o1) = rc4_XORKeyStream c xs; (c, o2) = rc4_XORKeyStream c ys in (c, o1 @ o2))"
  by (induction xs arbitrary: c) (auto simp: Let_def split: prod.splits)

lemma rc4_length: "rc4_XORKeyStream c xs = (c', ys) \<Longrightarrow> length ys = length xs"
  by (induction xs arbitrary: c ys) (auto simp: Let_def split: prod.splits)

lemma rc4_undo:
  "rc4_XORKeyStream c xs = (c', ys) \<Longrightarrow> rc4_XORKeyStream c ys = (c', xs)"
  by (induction xs arbitrary: c ys) (auto simp: Let_def xor.assoc split: prod.splits)

section \<open>CBC mode\<close>

record aes_cbc =
  cb_block :: blockExpanded
  cb_iv :: bytes
  cb_enc :: bool

definition blockD :: "blockExpanded \<Rightarrow> bytes \<Rightarrow> bytes" where
  "blockD c b = (case decryptBlock c (replicate 16 0) b of Ret x \<Rightarrow> x | _ \<Rightarrow> [])"

function cbc_encrypt :: "blockExpanded \<Rightarrow> bytes \<Rightarrow> bytes \<Rightarrow> bytes \<times> bytes" where
  "cbc_encrypt c iv src =
     (if src = [] then (iv, [])
      else let b = blockE c (xor_bytes (take 16 src) iv);
               (iv, out) = cbc_encrypt c b (drop 16 src)
           in (iv, b @ out))"
  by auto
termination
  by (relation "measure (\<lambda>(_, _, X). length X)") auto

function cbc_decrypt :: "blockExpanded \<Rightarrow> bytes \<Rightarrow> bytes \<Rightarrow> bytes \<times> bytes" where
  "cbc_decrypt c iv src =
     (if src = [] then (iv, [])
      else let b = take 16 src;
               (iv', out) = cbc_decrypt c b (drop 16 src)
           in (iv', xor_bytes (blockD c b) iv @ out))"
  by auto
termination
  by (relation "measure (\<lambda>(_, _, X). length X)") auto

declare cbc_encrypt.simps [simp del] cbc_decrypt.simps [simp del]

definition cbc_CryptBlocks :: "aes_cbc \<Rightarrow> bytes \<Rightarrow> aes_cbc \<times> bytes" where
  "cbc_CryptBlocks x src =
     (let (iv, out) = (if cb_enc x then cbc_encrypt (cb_block x) (cb_iv x) src
                       else cbc_decrypt (cb_block x) (cb_iv x) src)
      in (x\<lparr>cb_iv := iv\<rparr>, out))"

lemma blockD_blockE:
  assumes "wf_block c" "length b = 16"
  shows "blockD c (blockE c b) = b" and "length (blockE c b) = 16"
proof -
  have "encryptBlockGeneric c (replicate 16 0) b = Ret (blockE c b)"
    using EncryptBlockInternal_eq(1) [OF assms, of "replicate 16 0"]
    by (simp add: EncryptBlockInternal_def encryptBlock_def)
  from decrypt_encrypt_generic [OF assms this, of "replicate 16 0"]
  show "blockD c (blockE c b) = b"
    by (simp add: blockD_def decryptBlock_def)
  show "length (blockE c b) = 16"
    using EncryptBlockInternal_eq(2) [OF assms, of "replicate 16 0"] by simp
qed

lemma cbc_decrypt_encrypt:
  "wf_block c \<Longrightarrow> length src mod 16 = 0 \<Longrightarrow> length iv = 16 \<Longrightarrow> cbc_encrypt c iv src = (iv', ct) \<Longrightarrow>
     length ct = length src \<and> length iv' = 16 \<and> cbc_decrypt c iv ct = (iv', src)"
proof (induction c iv src arbitrary: iv' ct rule: cbc_encrypt.induct)
  case (1 c iv src)
  show ?case
  proof (cases "src = []")
    case True
    then show ?thesis
      using 1 by (simp add: cbc_encrypt.simps cbc_decrypt.simps)
  next
    case False
    then have src: "length (take 16 src) = 16" "length (drop 16 src) mod 16 = 0"
      using 1(3) by (auto simp: mod_eq_0_iff_dvd dvd_imp_le)
    let ?x = "xor_bytes (take 16 src) iv"
    let ?b = "blockE c ?x"
    have x: "length ?x = 16" "xor_bytes ?x iv = take 16 src"
      using src(1) 1(4) by simp_all
    note b = blockD_blockE [OF 1(2) x(1)]
    obtain iv2 out where rest: "cbc_encrypt c ?b (drop 16 src) = (iv2, out)"
      by fastforce
    have "length out = length (drop 16 src) \<and> length iv2 = 16 \<and>
        cbc_decrypt c ?b out = (iv2, drop 16 src)"
      using 1(1) [OF False refl 1(2) src(2) b(2), of iv2 out] rest by blast
    moreover have "iv' = iv2" "ct = ?b @ out"
      using 1(5) rest False by (simp_all add: cbc_encrypt.simps [of c iv src])
    moreover have "?b \<noteq> []"
      using b(2) by auto
    moreover have "16 \<le> length src"
      using src(1) by simp
    ultimately show ?thesis
      using b x by (simp add: cbc_decrypt.simps [of c iv "?b @ out"])
  qed
qed

section \<open>AES-GCM\<close>

datatype gcm_aead =
    GcmPrefix "GCMForTLS12 prefixNonceAEAD"  \<comment> \<open>\<open>aeadAESGCM\<close>\<close>
  | GcmXor "GCMForTLS13 xorNonceAEAD"        \<comment> \<open>\<open>aeadAESGCMTLS13\<close>\<close>

text \<open>
  \<open>Seal\<close> and \<open>Open\<close> on byte lists: the destination is an empty slice, so that the result is
  what the call appends, and the text, the additional data and a newly allocated buffer lie one
  after the other in memory.
\<close>

definition place_text :: "bytes \<Rightarrow> slice" where "place_text p = byte_slice 1 p"
definition place_data :: "bytes \<Rightarrow> bytes \<Rightarrow> slice" where "place_data p ad = byte_slice (length p + 1) ad"
definition place_new :: "bytes \<Rightarrow> bytes \<Rightarrow> nat" where "place_new p ad = length p + length ad + 2"

definition ga_explicitNonceLen :: "gcm_aead \<Rightarrow> nat" where
  "ga_explicitNonceLen a =
     (case a of GcmPrefix f \<Rightarrow> pn_explicitNonceLen f | GcmXor f \<Rightarrow> xn_explicitNonceLen f)"

definition ga_Overhead :: "gcm_aead \<Rightarrow> nat" where
  "ga_Overhead a =
     (case a of GcmPrefix f \<Rightarrow> t12_Overhead (pn_aead f) | GcmXor f \<Rightarrow> t13_Overhead (xn_aead f))"

definition ga_Seal :: "gcm_aead \<Rightarrow> bytes \<Rightarrow> bytes \<Rightarrow> bytes \<Rightarrow> (gcm_aead \<times> bytes) exec" where
  "ga_Seal a nonce p ad =
     (case a of
        GcmPrefix f \<Rightarrow>
          exec_bind (pn_Seal t12_Seal (place_new p ad) f (byte_slice 0 []) nonce (place_text p) (place_data p ad))
            (\<lambda>(f, r). Ret (GcmPrefix f, dat r))
      | GcmXor f \<Rightarrow>
          exec_bind (xn_Seal t13_Seal (place_new p ad) f (byte_slice 0 []) nonce (place_text p) (place_data p ad))
            (\<lambda>(f, r). Ret (GcmXor f, dat r)))"

definition opened :: "slice \<times> err option \<Rightarrow> bytes exec" where
  "opened = (\<lambda>(r, e). case e of None \<Rightarrow> Ret (dat r) | Some e \<Rightarrow> Fail e)"

definition ga_Open :: "gcm_aead \<Rightarrow> bytes \<Rightarrow> bytes \<Rightarrow> bytes \<Rightarrow> gcm_aead \<times> bytes exec" where
  "ga_Open a nonce p ad =
     (case a of
        GcmPrefix f \<Rightarrow>
          (case pn_Open t12_Open (place_new p ad) f (byte_slice 0 []) nonce (place_text p) (place_data p ad) of
             Ret (f, r) \<Rightarrow> (GcmPrefix f, opened r) | Fail e \<Rightarrow> (a, Fail e) | Panic e \<Rightarrow> (a, Panic e))
      | GcmXor f \<Rightarrow>
          (case xn_Open t13_Open (place_new p ad) f (byte_slice 0 []) nonce (place_text p) (place_data p ad) of
             Ret (f, r) \<Rightarrow> (GcmXor f, opened r) | Fail e \<Rightarrow> (a, Fail e) | Panic e \<Rightarrow> (a, Panic e)))"

section \<open>The operations\<close>

definition lib_ops :: "(rc4, gcm_aead, aes_cbc, hash_fn \<times> bytes) cipher_ops" where
  "lib_ops =
     \<lparr>o_XORKeyStream = rc4_XORKeyStream, o_explicitNonceLen = ga_explicitNonceLen,
      o_Overhead = ga_Overhead, o_Seal = ga_Seal, o_Open = ga_Open,
      o_BlockSize = (\<lambda>_. 16), o_SetIV = (\<lambda>c iv. c\<lparr>cb_iv := iv\<rparr>),
      o_CryptBlocks = cbc_CryptBlocks, o_MacSize = (\<lambda>(h, k). h_size h),
      o_MacSum = (\<lambda>(h, k) x. hmac h k x)\<rparr>"

section \<open>The contracts hold\<close>

text \<open>The reader has the writer's key and nonce mask or prefix.\<close>

definition tls_gcm :: "GCM \<Rightarrow> bool" where
  "tls_gcm g \<longleftrightarrow> wf_gcm g \<and> nonceSize g = 12 \<and> tagSize g = 16"

definition gcm_pair :: "nat \<Rightarrow> gcm_aead \<Rightarrow> gcm_aead \<Rightarrow> bool" where
  "gcm_pair n a b =
     (case (a, b) of
        (GcmXor f, GcmXor f') \<Rightarrow>
          length (xn_nonceMask f) = 12 \<and> xn_nonceMask f' = xn_nonceMask f \<and>
          t13_g (xn_aead f') = t13_g (xn_aead f) \<and> tls_gcm (t13_g (xn_aead f)) \<and>
          tls13_at n (t13_g (xn_aead f)) (xn_nonceMask f) f
      | (GcmPrefix f, GcmPrefix f') \<Rightarrow>
          length (pn_nonce f) = 12 \<and> length (pn_nonce f') = 12 \<and>
          take 4 (pn_nonce f') = take 4 (pn_nonce f) \<and>
          t12_g (pn_aead f') = t12_g (pn_aead f) \<and> tls_gcm (t12_g (pn_aead f)) \<and>
          unat (t12_next (pn_aead f)) \<le> n
      | _ \<Rightarrow> False)"

lemma place_simps [simp]: "dat (place_text p) = p" "dat (place_data p ad) = ad"
  by (simp_all add: place_text_def place_data_def)

lemma placed:
  assumes "tls_gcm g"
  shows "0 < k \<Longrightarrow> snd (sliceForAppend (place_new p ad) (byte_slice 0 []) k) = byte_slice (place_new p ad) (replicate k 0)"
    and "\<not> InexactOverlap (byte_slice (place_new p ad) xs) (place_text p)"
    and "\<not> AnyOverlap (byte_slice (place_new p ad) xs) (place_data p ad)"
  by (auto simp: sliceForAppend_def byte_slice_def go_copy_def Let_def InexactOverlap_def AnyOverlap_def
      place_new_def place_text_def place_data_def)

text \<open>What a call seals in these buffers, it opens.\<close>

lemma placed_seal_open:
  assumes g: "tls_gcm g" and nonce: "length nonce = 12" and p: "length p \<le> 2 ^ 15"
  shows "\<exists>ret r. sealAfterIndicator (place_new p ad) g (byte_slice 0 []) nonce (place_text p) (place_data p ad) = Ret ret \<and>
     length (dat ret) = length p + 16 \<and>
     gcm_Open (place_new (dat ret) ad) g (byte_slice 0 []) nonce (place_text (dat ret)) (place_data (dat ret) ad) =
       Ret (r, None) \<and> dat r = p"
proof -
  have wf: "wf_gcm g" "nonceSize g = 12" "tagSize g = 16"
    using g by (simp_all add: tls_gcm_def)
  have ready: "slen (place_text p) \<le> gcmMaxPlaintext"
    using p by (simp add: place_text_def gcmMaxPlaintext_def gcmBlockSize_def)
  have spot: "snd (sliceForAppend (place_new p ad) (byte_slice 0 []) (slen (place_text p) + tagSize g)) =
      byte_slice (place_new p ad) (replicate (slen (place_text p) + tagSize g) 0)"
    using wf by (intro placed(1) [OF g]) simp
  obtain ret where ret: "gcm_Seal (place_new p ad) g (byte_slice 0 []) nonce (place_text p) (place_data p ad) = Ret ret"
    using gcm_Seal_total [OF wf(1) nonce [folded wf(2)] ready] placed(2,3) [OF g] spot by metis
  have len: "length (dat ret) = length p + 16"
    using gcm_Seal_ae(1) [OF wf(1) ret] length_gcm_tag [of "cipher g"] wf
    by (simp add: gcm_ae_def length_gctr wf_gcm_def Let_def place_text_def)
  have open_r: "open_ready (place_new (dat ret) ad) g (byte_slice 0 []) (place_text (dat ret)) (place_data (dat ret) ad)"
  proof (cases "p = []")
    case True
    then show ?thesis
      using wf len by (simp add: open_ready_def place_text_def place_data_def gcmMaxPlaintext_def gcmBlockSize_def
          sliceForAppend_def InexactOverlap_def AnyOverlap_def byte_slice_def Let_def)
  next
    case False
    then show ?thesis
      using wf len p placed(1) [OF g, of "length p" "dat ret" ad] placed(2,3) [OF g, of "dat ret" ad]
      by (simp add: open_ready_def gcmMaxPlaintext_def gcmBlockSize_def place_text_def [of "dat ret"])
  qed
  obtain r where "gcm_Open (place_new (dat ret) ad) g (byte_slice 0 []) nonce (place_text (dat ret)) (place_data (dat ret) ad) =
       Ret (r, None)" "dat r = p"
    by (rule gcm_Open_Seal [OF wf(1) ret _ _ open_r]) (auto simp: place_text_def place_data_def)
  then show ?thesis
    using ret len by (auto simp: gcm_Seal_def)
qed

lemma gcm_pair_xor:
  assumes pair: "gcm_pair n (GcmXor f) b" and n: "n < 2 ^ 64 - 1" and p: "length p \<le> 2 ^ 15"
  shows "\<exists>a' b' ct. ga_Seal (GcmXor f) (put_be 8 n) p ad = Ret (a', ct) \<and> length ct = length p + 16 \<and>
       ga_Open b (put_be 8 n) ct ad = (b', Ret p) \<and> gcm_pair (n + 1) a' b' \<and>
       ga_explicitNonceLen a' = ga_explicitNonceLen (GcmXor f)"
proof -
  obtain f' where b: "b = GcmXor f'"
    using pair by (cases b) (auto simp: gcm_pair_def)
  define g m where "g = t13_g (xn_aead f)" and "m = xn_nonceMask f"
  have f: "length m = 12" "xn_nonceMask f' = m" "t13_g (xn_aead f') = g" "tls_gcm g" "tls13_at n g m f"
    using pair by (auto simp: gcm_pair_def b g_def m_def)
  have seq: "put_be 8 n = put_u64 (of_nat n)"
    using n by (simp add: put_u64_def unat_of_nat)
  obtain nn where nn: "xor_mask m (put_u64 (of_nat n)) = Ret nn"
    using f(1) by (simp add: xor_mask_def)
  obtain ret r where ret: "sealAfterIndicator (place_new p ad) g (byte_slice 0 []) nn (place_text p) (place_data p ad) = Ret ret"
    and len: "length (dat ret) = length p + 16"
    and r: "gcm_Open (place_new (dat ret) ad) g (byte_slice 0 []) nn (place_text (dat ret)) (place_data (dat ret) ad) = Ret (r, None)"
      "dat r = p"
    using placed_seal_open [OF f(4) nonce_counter_xor(2) [OF f(1) nn] p] by blast
  define args where "args = \<lparr>sa_fresh = place_new p ad, sa_dst = byte_slice 0 [], sa_nonce = nn,
      sa_pt = place_text p, sa_ad = place_data p ad\<rparr>"
  have "wf_gcm g" "nonceSize g = 12"
    using f(4) by (simp_all add: tls_gcm_def)
  moreover have "seal_ready g args"
    using placed [OF f(4)] p f(4)
    by (simp add: seal_ready_def args_def tls_gcm_def gcmMaxPlaintext_def gcmBlockSize_def)
  ultimately obtain f1 out where f1: "xn_Seal t13_Seal (place_new p ad) f (byte_slice 0 []) (put_u64 (of_nat n))
      (place_text p) (place_data p ad) = Ret (f1, out)" "tls13_at (Suc n) g m f1"
    using tls13_step [OF f(5) f(1), of args] n by (auto simp: args_def)
  from xn_Seal_mask [OF f1(1)] have "t13_Seal (place_new p ad) (xn_aead f) (byte_slice 0 []) nn (place_text p)
      (place_data p ad) = Ret (xn_aead f1, out)"
    using nn by (auto simp: m_def)
  then have out: "out = ret"
    using ret by (auto simp: t13_Seal_def Let_def exec_simps g_def split: if_splits)
  have f1': "xn_nonceMask f1 = m" "t13_g (xn_aead f1) = g"
    using f1(2) by (simp_all add: tls13_at_def)
  have "xn_Open t13_Open (place_new (dat ret) ad) f' (byte_slice 0 []) (put_u64 (of_nat n)) (place_text (dat ret))
      (place_data (dat ret) ad) = Ret (f', r, None)"
    using nn r(1) xor_mask_restores [OF nn] f(2,3) by (simp add: xn_Open_def t13_Open_def)
  then show ?thesis
    using f1 f1' out len r(2) f
    by (simp add: ga_Seal_def ga_Open_def b seq opened_def gcm_pair_def ga_explicitNonceLen_def
        xn_explicitNonceLen_def)
qed

lemma gcm_pair_prefix:
  assumes pair: "gcm_pair n (GcmPrefix f) b" and n: "n < 2 ^ 64 - 1" and p: "length p \<le> 2 ^ 15"
  shows "\<exists>a' b' ct. ga_Seal (GcmPrefix f) (put_be 8 n) p ad = Ret (a', ct) \<and> length ct = length p + 16 \<and>
       ga_Open b (put_be 8 n) ct ad = (b', Ret p) \<and> gcm_pair (n + 1) a' b' \<and>
       ga_explicitNonceLen a' = ga_explicitNonceLen (GcmPrefix f)"
proof -
  obtain f' where b: "b = GcmPrefix f'"
    using pair by (cases b) (auto simp: gcm_pair_def)
  define g where "g = t12_g (pn_aead f)"
  have f: "length (pn_nonce f) = 12" "length (pn_nonce f') = 12" "take 4 (pn_nonce f') = take 4 (pn_nonce f)"
    "t12_g (pn_aead f') = g" "tls_gcm g" "unat (t12_next (pn_aead f)) \<le> n"
    using pair by (auto simp: gcm_pair_def b g_def)
  let ?nn = "take 4 (pn_nonce f) @ put_be 8 n"
  have full: "pn_full f (put_be 8 n) = ?nn" "pn_full f' (put_be 8 n) = ?nn"
    using f(1-3) by (simp_all add: pn_full_def)
  have nn: "length ?nn = 12"
    using f(1) by simp
  have unat_n: "unat (of_nat n :: u64) = n"
    using n by (simp add: unat_of_nat)
  have "put_be 8 n = put_u64 (of_nat n)"
    by (simp add: put_u64_def unat_n)
  then have ctr: "nonce_counter ?nn = of_nat n"
    using f(1) by (simp add: nonce_counter_def)
  have max: "(of_nat n :: u64) \<noteq> MaxUint64"
  proof
    assume "(of_nat n :: u64) = MaxUint64"
    then have "unat (of_nat n :: u64) = 2 ^ 64 - 1"
      by (simp add: MaxUint64_def)
    with n unat_n show False
      by simp
  qed
  obtain ret r where ret: "sealAfterIndicator (place_new p ad) g (byte_slice 0 []) ?nn (place_text p) (place_data p ad) = Ret ret"
    and len: "length (dat ret) = length p + 16"
    and r: "gcm_Open (place_new (dat ret) ad) g (byte_slice 0 []) ?nn (place_text (dat ret)) (place_data (dat ret) ad) = Ret (r, None)"
      "dat r = p"
    using placed_seal_open [OF f(5) nn p] by blast
  have not_less: "\<not> of_nat n < t12_next (pn_aead f)"
    using f(6) unat_n by (simp add: word_less_nat_alt)
  let ?f1 = "f\<lparr>pn_nonce := ?nn, pn_aead := (pn_aead f)\<lparr>t12_next := of_nat n + 1\<rparr>\<rparr>"
  have "pn_Seal t12_Seal (place_new p ad) f (byte_slice 0 []) (put_be 8 n) (place_text p) (place_data p ad) =
     Ret (?f1, ret)"
    using nn max not_less ret
    by (simp add: pn_Seal_def full Let_def t12_Seal_def ctr gcmStandardNonceSize_def g_def)
  moreover have "pn_Open t12_Open (place_new (dat ret) ad) f' (byte_slice 0 []) (put_be 8 n) (place_text (dat ret))
      (place_data (dat ret) ad) = Ret (f'\<lparr>pn_nonce := ?nn\<rparr>, r, None)"
    using r(1) f(4) by (simp add: pn_Open_def full Let_def t12_Open_def)
  moreover have "unat ((of_nat n :: u64) + 1) = n + 1"
    using unat_suc_below [OF max] unat_n by simp
  ultimately show ?thesis
    using len r(2) f nn
    by (simp add: ga_Seal_def ga_Open_def b opened_def gcm_pair_def ga_explicitNonceLen_def g_def
        pn_explicitNonceLen_def pn_NonceSize_def)
qed

definition hmac_keyed :: "hash_fn \<times> bytes \<Rightarrow> bool" where
  "hmac_keyed = (\<lambda>(h, k). wf_hash h)"

definition rc4_pair :: "rc4 \<Rightarrow> rc4 \<Rightarrow> bool" where "rc4_pair e d \<longleftrightarrow> e = d"

definition aes_cbc_pair :: "aes_cbc \<Rightarrow> aes_cbc \<Rightarrow> bool" where
  "aes_cbc_pair e d \<longleftrightarrow>
     wf_block (cb_block e) \<and> cb_block d = cb_block e \<and> cb_iv d = cb_iv e \<and> length (cb_iv e) = 16 \<and>
     cb_enc e \<and> \<not> cb_enc d"

interpretation gcm: aead_pair lib_ops gcm_pair
proof
  fix n a b and p ad :: bytes
  assume "gcm_pair n a b" "n < 2 ^ 64 - 1" "length p \<le> 2 ^ 15"
  then show "\<exists>a' b' ct. o_Seal lib_ops a (put_be 8 n) p ad = Ret (a', ct) \<and>
       length ct = length p + o_Overhead lib_ops a \<and>
       o_Open lib_ops b (put_be 8 n) ct ad = (b', Ret p) \<and> gcm_pair (n + 1) a' b' \<and>
       o_explicitNonceLen lib_ops a' = o_explicitNonceLen lib_ops a"
    using gcm_pair_xor [of n _ b p ad] gcm_pair_prefix [of n _ b p ad]
    by (cases a) (simp_all add: lib_ops_def ga_Overhead_def t12_Overhead_def t13_Overhead_def gcmTagSize_def)
next
  fix n a b
  assume "gcm_pair n a b"
  then show "o_Overhead lib_ops a = o_Overhead lib_ops b \<and> o_Overhead lib_ops a \<le> 128 \<and>
       o_explicitNonceLen lib_ops a = o_explicitNonceLen lib_ops b"
    by (auto simp: gcm_pair_def lib_ops_def ga_Overhead_def t12_Overhead_def t13_Overhead_def gcmTagSize_def
        ga_explicitNonceLen_def xn_explicitNonceLen_def pn_explicitNonceLen_def pn_NonceSize_def
        split: gcm_aead.splits)
qed

interpretation hmac_mac: mac_keys lib_ops hmac_keyed
  by unfold_locales (auto simp: lib_ops_def hmac_keyed_def wf_hash_def hmac_def)

interpretation rc4: stream_pair lib_ops hmac_keyed rc4_pair
proof
  fix e d e1 e2 and p c1 q c2 :: bytes
  assume "rc4_pair e d" "o_XORKeyStream lib_ops e p = (e1, c1)" "o_XORKeyStream lib_ops e1 q = (e2, c2)"
  then show "length c1 = length p \<and> length c2 = length q \<and>
      (\<exists>d'. o_XORKeyStream lib_ops d (c1 @ c2) = (d', p @ q) \<and> rc4_pair e2 d')"
    using rc4_length [of e p e1 c1] rc4_length [of e1 q e2 c2] rc4_undo [of e p e1 c1] rc4_undo [of e1 q e2 c2] by (auto simp: lib_ops_def rc4_pair_def rc4_append)
qed

interpretation aes_cbc: cbc_pair lib_ops hmac_keyed aes_cbc_pair
proof
  fix e d e' and p ct :: bytes
  assume pair: "aes_cbc_pair e d" and "length p mod o_BlockSize lib_ops e = 0"
    "o_CryptBlocks lib_ops e p = (e', ct)"
  then obtain iv where "cbc_encrypt (cb_block e) (cb_iv e) p = (iv, ct)" "e' = e\<lparr>cb_iv := iv\<rparr>"
      "length p mod 16 = 0"
    by (auto simp: lib_ops_def cbc_CryptBlocks_def aes_cbc_pair_def split: prod.splits)
  with cbc_decrypt_encrypt [of "cb_block e" p "cb_iv e" iv ct] pair
  show "length ct = length p \<and> (\<exists>d'. o_CryptBlocks lib_ops d ct = (d', p) \<and> aes_cbc_pair e' d')"
    by (auto simp: lib_ops_def cbc_CryptBlocks_def aes_cbc_pair_def)
qed (auto simp: lib_ops_def aes_cbc_pair_def hmac_keyed_def wf_hash_def)

end
