(* ===== verification/Prf.thy ===== *)
theory Prf
  imports KeySchedule
begin

text \<open>
  \<open>prf.go\<close>: the pseudo-random functions of TLS 1.0 to 1.2, the keys derived with them, and
  the running handshake hash.
\<close>

section \<open>The model of \<open>prf.go\<close>\<close>

type_synonym prfFunc = "bytes \<Rightarrow> string \<Rightarrow> bytes \<Rightarrow> nat \<Rightarrow> bytes option"

definition splitPreMasterSecret :: "bytes \<Rightarrow> bytes \<times> bytes" where
  "splitPreMasterSecret secret =
     (take ((length secret + 1) div 2) secret, drop (length secret div 2) secret)"

partial_function (option) pHash_loop ::
  "hash_fn \<Rightarrow> bytes \<Rightarrow> bytes \<Rightarrow> bytes \<Rightarrow> nat \<Rightarrow> bytes \<Rightarrow> bytes option" where
  "pHash_loop h secret seed result j a =
     (if j < length result
      then let b = hmac h secret (a @ seed);
               result = take j result @ go_copy (drop j result) b
           in pHash_loop h secret seed result (j + length b) (hmac h secret a)
      else Some result)"

definition pHash :: "bytes \<Rightarrow> bytes \<Rightarrow> bytes \<Rightarrow> hash_fn \<Rightarrow> bytes option" where
  "pHash result secret seed h = pHash_loop h secret seed result 0 (hmac h secret seed)"

definition prf10 :: "std_hashes \<Rightarrow> prfFunc" where
  "prf10 H secret label seed keyLen =
     (let result = replicate keyLen 0;
          labelAndSeed = str_bytes label @ seed;
          (s1, s2) = splitPreMasterSecret secret
      in Option.bind (pHash result s1 labelAndSeed (md5_h H)) (\<lambda>result.
         Option.bind (pHash (replicate (length result) 0) s2 labelAndSeed (sha1_h H)) (\<lambda>result2.
         Some (xor_bytes result result2))))"

definition prf12 :: "hash_fn \<Rightarrow> prfFunc" where
  "prf12 h secret label seed keyLen = tls12_PRF h secret label seed keyLen"

definition finishedVerifyLength :: nat where "finishedVerifyLength = 12"
definition masterSecretLabel :: string where "masterSecretLabel = ''master secret''"
definition keyExpansionLabel :: string where "keyExpansionLabel = ''key expansion''"
definition clientFinishedLabel :: string where "clientFinishedLabel = ''client finished''"
definition serverFinishedLabel :: string where "serverFinishedLabel = ''server finished''"

definition prfAndHashForVersion ::
  "std_hashes \<Rightarrow> u16 \<Rightarrow> cipherSuite \<Rightarrow> (prfFunc \<times> crypto_hash) exec" where
  "prfAndHashForVersion H version s =
     (if version = VersionTLS10 \<or> version = VersionTLS11 then Ret (prf10 H, NoHash)
      else if version = VersionTLS12
      then if cs_flags s AND suiteSHA384 \<noteq> 0 then Ret (prf12 (sha384_h H), SHA384)
           else Ret (prf12 (sha256_h H), SHA256)
      else Panic ''unknown version'')"

definition prfForVersion :: "std_hashes \<Rightarrow> u16 \<Rightarrow> cipherSuite \<Rightarrow> prfFunc exec" where
  "prfForVersion H version s = exec_bind (prfAndHashForVersion H version s) (\<lambda>(prf, _). Ret prf)"

text \<open>A PRF call inside an \<open>exec\<close> computation; a PRF that does not return is a hang.\<close>

definition prf_ret :: "bytes option \<Rightarrow> bytes exec" where
  "prf_ret r = (case r of None \<Rightarrow> Panic ''does not return'' | Some b \<Rightarrow> Ret b)"

definition masterFromPreMasterSecret ::
  "std_hashes \<Rightarrow> u16 \<Rightarrow> cipherSuite \<Rightarrow> bytes \<Rightarrow> bytes \<Rightarrow> bytes \<Rightarrow> bytes exec" where
  "masterFromPreMasterSecret H version s preMasterSecret clientRandom serverRandom =
     (let seed = clientRandom @ serverRandom
      in exec_bind (prfForVersion H version s) (\<lambda>prf.
         prf_ret (prf preMasterSecret masterSecretLabel seed masterSecretLength)))"

definition extMasterFromPreMasterSecret ::
  "std_hashes \<Rightarrow> u16 \<Rightarrow> cipherSuite \<Rightarrow> bytes \<Rightarrow> bytes \<Rightarrow> bytes exec" where
  "extMasterFromPreMasterSecret H version s preMasterSecret transcript =
     exec_bind (prfAndHashForVersion H version s) (\<lambda>(prf, hash).
     if version = VersionTLS12
     then exec_bind (hash_New H hash) (\<lambda>h.
          prf_ret (tls12_MasterSecret h preMasterSecret transcript))
     else prf_ret (prf preMasterSecret extendedMasterSecretLabel transcript masterSecretLength))"

text \<open>The results are (clientMAC, serverMAC, clientKey, serverKey, clientIV, serverIV).\<close>

definition keysFromMasterSecret ::
  "std_hashes \<Rightarrow> u16 \<Rightarrow> cipherSuite \<Rightarrow> bytes \<Rightarrow> bytes \<Rightarrow> bytes \<Rightarrow> nat \<Rightarrow> nat \<Rightarrow> nat
     \<Rightarrow> (bytes \<times> bytes \<times> bytes \<times> bytes \<times> bytes \<times> bytes) exec" where
  "keysFromMasterSecret H version s masterSecret clientRandom serverRandom macLen keyLen ivLen =
     (let seed = serverRandom @ clientRandom;
          n = 2 * macLen + 2 * keyLen + 2 * ivLen
      in exec_bind (prfForVersion H version s) (\<lambda>prf.
         exec_bind (prf_ret (prf masterSecret keyExpansionLabel seed n)) (\<lambda>keyMaterial.
         let clientMAC = take macLen keyMaterial; keyMaterial = drop macLen keyMaterial;
             serverMAC = take macLen keyMaterial; keyMaterial = drop macLen keyMaterial;
             clientKey = take keyLen keyMaterial; keyMaterial = drop keyLen keyMaterial;
             serverKey = take keyLen keyMaterial; keyMaterial = drop keyLen keyMaterial;
             clientIV = take ivLen keyMaterial; keyMaterial = drop ivLen keyMaterial;
             serverIV = take ivLen keyMaterial
         in Ret (clientMAC, serverMAC, clientKey, serverKey, clientIV, serverIV))))"

text \<open>A nil buffer is \<open>None\<close>, and so are the MD5 hashes from TLS 1.2 on.\<close>

record finishedHash =
  fh_client :: digest
  fh_server :: digest
  fh_clientMD5 :: "digest option"
  fh_serverMD5 :: "digest option"
  fh_buffer :: "bytes option"
  fh_version :: u16
  fh_prf :: prfFunc

definition newFinishedHash :: "std_hashes \<Rightarrow> u16 \<Rightarrow> cipherSuite \<Rightarrow> finishedHash exec" where
  "newFinishedHash H version s =
     (let buffer = (if version \<ge> VersionTLS12 then Some [] else None)
      in exec_bind (prfAndHashForVersion H version s) (\<lambda>(prf, hash).
         if hash \<noteq> NoHash
         then exec_bind (hash_New H hash) (\<lambda>h.
              Ret \<lparr>fh_client = d_new h, fh_server = d_new h, fh_clientMD5 = None, fh_serverMD5 = None,
                   fh_buffer = buffer, fh_version = version, fh_prf = prf\<rparr>)
         else Ret \<lparr>fh_client = d_new (sha1_h H), fh_server = d_new (sha1_h H),
                   fh_clientMD5 = Some (d_new (md5_h H)), fh_serverMD5 = Some (d_new (md5_h H)),
                   fh_buffer = buffer, fh_version = version, fh_prf = prf\<rparr>))"

text \<open>Calling a method of a nil \<open>hash.Hash\<close> would be a nil dereference.\<close>

definition deref :: "'a option \<Rightarrow> 'a exec" where
  "deref p = (case p of None \<Rightarrow> Panic ''nil pointer dereference'' | Some x \<Rightarrow> Ret x)"

definition fh_Write :: "finishedHash \<Rightarrow> bytes \<Rightarrow> (finishedHash \<times> nat) exec" where
  "fh_Write h msg =
     (let h = h\<lparr>fh_client := d_write (fh_client h) msg, fh_server := d_write (fh_server h) msg\<rparr>
      in exec_bind
           (if fh_version h < VersionTLS12
            then exec_bind (deref (fh_clientMD5 h)) (\<lambda>c.
                 exec_bind (deref (fh_serverMD5 h)) (\<lambda>s.
                 Ret (h\<lparr>fh_clientMD5 := Some (d_write c msg), fh_serverMD5 := Some (d_write s msg)\<rparr>)))
            else Ret h)
           (\<lambda>h. Ret (h\<lparr>fh_buffer := map_option (\<lambda>b. b @ msg) (fh_buffer h)\<rparr>, length msg)))"

definition fh_Sum :: "finishedHash \<Rightarrow> bytes exec" where
  "fh_Sum h =
     (if fh_version h \<ge> VersionTLS12 then Ret (d_sum (fh_client h))
      else exec_bind (deref (fh_clientMD5 h)) (\<lambda>m. Ret (d_sum m @ d_sum (fh_client h))))"

definition clientSum :: "finishedHash \<Rightarrow> bytes \<Rightarrow> bytes exec" where
  "clientSum h masterSecret =
     exec_bind (fh_Sum h) (\<lambda>s.
     prf_ret (fh_prf h masterSecret clientFinishedLabel s finishedVerifyLength))"

definition serverSum :: "finishedHash \<Rightarrow> bytes \<Rightarrow> bytes exec" where
  "serverSum h masterSecret =
     exec_bind (fh_Sum h) (\<lambda>s.
     prf_ret (fh_prf h masterSecret serverFinishedLabel s finishedVerifyLength))"

definition hashForClientCertificate ::
  "std_hashes \<Rightarrow> finishedHash \<Rightarrow> byte \<Rightarrow> crypto_hash \<Rightarrow> bytes exec" where
  "hashForClientCertificate H h sigType hashAlg =
     (if (fh_version h \<ge> VersionTLS12 \<or> sigType = signatureEd25519) \<and> fh_buffer h = None
      then Panic ''tls: handshake hash for a client certificate requested after discarding the handshake buffer''
      else if sigType = signatureEd25519 then deref (fh_buffer h)
      else if fh_version h \<ge> VersionTLS12
      then exec_bind (hash_New H hashAlg) (\<lambda>hh.
           exec_bind (deref (fh_buffer h)) (\<lambda>b. Ret (h_sum hh b)))
      else if sigType = signatureECDSA then Ret (d_sum (fh_server h))
      else fh_Sum h)"

definition discardHandshakeBuffer :: "finishedHash \<Rightarrow> finishedHash" where
  "discardHandshakeBuffer h = h\<lparr>fh_buffer := None\<rparr>"

definition noEKMBecauseRenegotiation :: "string \<Rightarrow> bytes option \<Rightarrow> nat \<Rightarrow> bytes exec" where
  "noEKMBecauseRenegotiation label context n =
     Fail (ErrMsg ''crypto/tls: ExportKeyingMaterial is unavailable when renegotiation is enabled'')"

definition noEKMBecauseNoEMS :: "string \<Rightarrow> bytes option \<Rightarrow> nat \<Rightarrow> bytes exec" where
  "noEKMBecauseNoEMS label context n =
     Fail (ErrMsg ''crypto/tls: ExportKeyingMaterial is unavailable when neither TLS 1.3 nor Extended Master Secret are negotiated; override with GODEBUG=tlsunsafeekm=1'')"

definition ekmFromMasterSecret ::
  "std_hashes \<Rightarrow> u16 \<Rightarrow> cipherSuite \<Rightarrow> bytes \<Rightarrow> bytes \<Rightarrow> bytes
     \<Rightarrow> string \<Rightarrow> bytes option \<Rightarrow> nat \<Rightarrow> bytes exec" where
  "ekmFromMasterSecret H version s masterSecret clientRandom serverRandom label context n =
     (if label \<in> {''client finished'', ''server finished'', ''master secret'', ''key expansion''}
      then Fail (ErrMsg (''crypto/tls: reserved ExportKeyingMaterial label: '' @ label))
      else let seed = clientRandom @ serverRandom
           in exec_bind
                (case context of
                   None \<Rightarrow> Ret seed
                 | Some c \<Rightarrow>
                     if length c \<ge> 2 ^ 16
                     then Fail (ErrMsg ''crypto/tls: ExportKeyingMaterial context too long'')
                     else Ret (seed @ [of_nat (length c div 256), of_nat (length c)] @ c))
                (\<lambda>seed. exec_bind (prfForVersion H version s) (\<lambda>prf.
                        prf_ret (prf masterSecret label seed n))))"

section \<open>The reference \<open>P_hash\<close>\<close>

text \<open>
  RFC 5246, Section 5: \<open>A(0)\<close> is the seed, \<open>A(i+1)\<close> the HMAC of \<open>A(i)\<close>, and \<open>P_hash\<close> is the
  stream of the HMACs of \<open>A(i) + seed\<close> for \<open>i\<close> from 1.
\<close>

primrec rfc_A :: "hash_fn \<Rightarrow> bytes \<Rightarrow> bytes \<Rightarrow> nat \<Rightarrow> bytes" where
  "rfc_A h secret seed 0 = seed"
| "rfc_A h secret seed (Suc i) = hmac h secret (rfc_A h secret seed i)"

definition rfc_P :: "hash_fn \<Rightarrow> bytes \<Rightarrow> bytes \<Rightarrow> nat \<Rightarrow> nat \<Rightarrow> bytes" where
  "rfc_P h secret seed i k =
     concat (map (\<lambda>i. hmac h secret (rfc_A h secret seed i @ seed)) [i..<i + k])"

lemma rfc_P_Suc: "rfc_P h secret seed i (Suc k) =
    hmac h secret (rfc_A h secret seed i @ seed) @ rfc_P h secret seed (Suc i) k"
  by (simp add: rfc_P_def upt_conv_Cons del: upt_Suc)

lemma length_rfc_P [simp]: "wf_hash h \<Longrightarrow> length (rfc_P h secret seed i k) = k * h_size h"
  by (induction k arbitrary: i) (simp_all add: rfc_P_Suc, simp add: rfc_P_def)

lemma tls12_pHash_loop_P:
  assumes "wf_hash h" "left \<le> k * h_size h"
  shows "tls12_pHash_loop h secret seed left (rfc_A h secret seed i) =
     Some (take left (rfc_P h secret seed i k))"
  using assms(2)
proof (induction k arbitrary: left i)
  case 0
  then show ?case
    by (subst tls12_pHash_loop.simps) (simp add: rfc_P_def)
next
  case (Suc k)
  let ?s = "h_size h"
  have "left - min left ?s \<le> k * ?s"
    using Suc.prems by (simp add: min_def) arith
  from Suc.IH [OF this, of "Suc i"]
  have rec: "tls12_pHash_loop h secret seed (left - min left ?s) (hmac h secret (rfc_A h secret seed i)) =
      Some (take (left - min left ?s) (rfc_P h secret seed (Suc i) k))"
    by simp
  have "left - min left ?s = left - ?s"
    by (simp add: min_def)
  moreover have "take (min left ?s) b = take left b" if "length b = ?s" for b :: bytes
    using that by (cases "left \<le> ?s") simp_all
  ultimately show ?case
    using rec assms(1)
    by (subst tls12_pHash_loop.simps) (auto simp: Let_def rfc_P_Suc take_append)
qed

lemma copy_block:
  fixes result b rest :: bytes
  assumes "j < length result"
  defines "r \<equiv> take j result @ go_copy (drop j result) b"
  shows "take (length result) (take (j + length b) r @ rest) =
     take (length result) (take j result @ b @ rest)"
proof (cases "length result \<le> j + length b")
  case True
  then have "r = take j result @ take (length result - j) b" "length r = length result"
    using assms(1) by (simp_all add: r_def go_copy_def)
  with True assms(1) show ?thesis
    by simp
next
  case False
  then have "take (j + length b) r = take j result @ b"
    using assms(1) by (simp add: r_def go_copy_def)
  then show ?thesis
    by simp
qed

lemma pHash_loop_P:
  assumes "wf_hash h" "length result \<le> j + k * h_size h"
  shows "pHash_loop h secret seed result j (rfc_A h secret seed i) =
     Some (take (length result) (take j result @ rfc_P h secret seed i k))"
  using assms(2)
proof (induction k arbitrary: result j i)
  case 0
  then show ?case
    by (subst pHash_loop.simps) (simp add: rfc_P_def)
next
  case (Suc k)
  let ?b = "hmac h secret (rfc_A h secret seed i @ seed)"
  show ?case
  proof (cases "j < length result")
    case False
    then show ?thesis
      by (subst pHash_loop.simps) simp
  next
    case True
    let ?r = "take j result @ go_copy (drop j result) ?b"
    have len: "length ?r = length result" and b: "length ?b = h_size h"
      using True assms(1) by simp_all
    have "length ?r \<le> j + length ?b + k * h_size h"
      using Suc.prems len b by simp
    from Suc.IH [OF this, of "Suc i"]
    have "pHash_loop h secret seed ?r (j + length ?b) (hmac h secret (rfc_A h secret seed i)) =
        Some (take (length result) (take (j + length ?b) ?r @ rfc_P h secret seed (Suc i) k))"
      unfolding len rfc_A.simps .
    with True show ?thesis
      unfolding copy_block [OF True] rfc_P_Suc by (subst pHash_loop.simps) (simp add: Let_def)
  qed
qed

text \<open>One block per byte is more than enough, since a block is not empty.\<close>

lemma enough_blocks: "wf_hash h \<Longrightarrow> n \<le> n * h_size h"
  by (simp add: wf_hash_def Suc_leI)

lemma pHash_P:
  "wf_hash h \<Longrightarrow> pHash (replicate n 0) secret seed h = Some (take n (rfc_P h secret seed 1 n))"
  using pHash_loop_P [of h "replicate n 0" 0 n secret seed 1] enough_blocks [of h n]
  by (simp add: pHash_def)

lemma tls12_pHash_P:
  "wf_hash h \<Longrightarrow> tls12_pHash h n secret seed = Some (take n (rfc_P h secret seed 1 n))"
  using tls12_pHash_loop_P [of h n n secret seed 1] enough_blocks [of h n]
  by (simp add: tls12_pHash_def)

lemma length_pHash_stream: "wf_hash h \<Longrightarrow> length (take n (rfc_P h secret seed 1 n)) = n"
  using enough_blocks [of h n] by (simp add: min_absorb2)

text \<open>Every PRF a version selects returns exactly the number of bytes asked for.\<close>

lemma prfForVersion_total:
  assumes "wf_hashes H" "prfForVersion H version s = Ret prf"
  shows "\<exists>out. prf secret label seed n = Some out \<and> length out = n"
  using assms length_pHash_stream
  by (auto simp: prfForVersion_def prfAndHashForVersion_def wf_hashes_def prf10_def prf12_def
      tls12_PRF_def pHash_P tls12_pHash_P splitPreMasterSecret_def Let_def split: if_splits)

text \<open>The key block is cut into its six parts.\<close>

lemma keysFromMasterSecret_total:
  assumes "wf_hashes H" and "prfForVersion H version s = Ret prf"
  shows "\<exists>cm sm ck sk ci si.
     keysFromMasterSecret H version s ms cr sr macLen keyLen ivLen = Ret (cm, sm, ck, sk, ci, si) \<and>
     map length [cm, sm, ck, sk, ci, si] = [macLen, macLen, keyLen, keyLen, ivLen, ivLen] \<and>
     prf ms keyExpansionLabel (sr @ cr) (2 * macLen + 2 * keyLen + 2 * ivLen) =
       Some (cm @ sm @ ck @ sk @ ci @ si)"
proof -
  let ?n = "2 * macLen + 2 * keyLen + 2 * ivLen"
  obtain out where out: "prf ms keyExpansionLabel (sr @ cr) ?n = Some out" "length out = ?n"
    using prfForVersion_total [OF assms] by blast
  define c1 c2 c3 c4 c5 where "c1 = drop macLen out" and "c2 = drop macLen c1"
    and "c3 = drop keyLen c2" and "c4 = drop keyLen c3" and "c5 = drop ivLen c4"
  have "out = take macLen out @ take macLen c1 @ take keyLen c2 @ take keyLen c3 @ take ivLen c4
      @ take ivLen c5"
  proof -
    have "take ivLen c5 = c5"
      using out(2) by (simp add: c1_def c2_def c3_def c4_def c5_def)
    then show ?thesis
      by (simp only: c1_def c2_def c3_def c4_def c5_def append_take_drop_id)
  qed
  moreover have "map length [take macLen out, take macLen c1, take keyLen c2, take keyLen c3,
      take ivLen c4, take ivLen c5] = [macLen, macLen, keyLen, keyLen, ivLen, ivLen]"
    using out(2) by (simp add: c1_def c2_def c3_def c4_def c5_def)
  ultimately show ?thesis
    using assms(2) out(1)
    by (simp add: keysFromMasterSecret_def prf_ret_def Let_def c1_def c2_def c3_def c4_def c5_def
        add.assoc)
qed

section \<open>Properties\<close>

text \<open>The two implementations of \<open>P_hash\<close> agree with each other and with RFC 5246: for a hash
  whose output has a fixed non-zero length, both loops end, and both fill the result with the
  first bytes of the stream of the RFC.\<close>

theorem pHash_implementations_agree:
  assumes "wf_hash h"
  shows "pHash (replicate n 0) secret seed h = Some (take n (rfc_P h secret seed 1 n)) \<and>
     tls12_pHash h n secret seed = pHash (replicate n 0) secret seed h"
  using assms by (simp add: pHash_P tls12_pHash_P)

theorem pHash_implementations_agree_witness:
  "wf_hash (toy_hash 3) \<and>
   tls12_pHash (toy_hash 3) 5 [1] [2] = pHash (replicate 5 0) [1] [2] (toy_hash 3)"
  using pHash_implementations_agree [of "toy_hash 3" 5 "[1]" "[2]"] by simp

text \<open>The key block is cut without overlap or gap: the six keys of \<open>keysFromMasterSecret\<close> have
  the lengths asked for, and put together in order they are exactly the output of the PRF of
  the version on the server random followed by the client random.\<close>

theorem keysFromMasterSecret_partition:
  assumes "wf_hashes H" and "prfForVersion H version s = Ret prf"
  shows "\<exists>cm sm ck sk ci si.
     keysFromMasterSecret H version s ms cr sr macLen keyLen ivLen = Ret (cm, sm, ck, sk, ci, si) \<and>
     map length [cm, sm, ck, sk, ci, si] = [macLen, macLen, keyLen, keyLen, ivLen, ivLen] \<and>
     prf ms keyExpansionLabel (sr @ cr) (2 * macLen + 2 * keyLen + 2 * ivLen) =
       Some (cm @ sm @ ck @ sk @ ci @ si)"
  using assms by (rule keysFromMasterSecret_total)

theorem keysFromMasterSecret_partition_witness:
  "\<exists>cm sm ck sk ci si.
     keysFromMasterSecret toy_hashes VersionTLS12
       (suite TLS_RSA_WITH_AES_128_CBC_SHA 16 20 16 RsaKA 0 (Some CipherAES) (Some MacSHA1) None)
       [1] [2] [3] 20 16 16 = Ret (cm, sm, ck, sk, ci, si) \<and>
     map length [cm, sm, ck, sk, ci, si] = [20, 20, 16, 16, 16, 16]"
proof -
  let ?s = "suite TLS_RSA_WITH_AES_128_CBC_SHA 16 20 16 RsaKA 0 (Some CipherAES) (Some MacSHA1) None"
  have "prfForVersion toy_hashes VersionTLS12 ?s = Ret (prf12 (sha256_h toy_hashes))"
    by (simp add: prfForVersion_def prfAndHashForVersion_def version_ids suite_def)
  from keysFromMasterSecret_partition [OF wf_toy_hashes this, of "[1]" "[2]" "[3]" 20 16 16]
  show ?thesis
    by (elim exE conjE) (intro exI conjI, assumption+)
qed

end
