(* ===== verification/KeyEstablishment.thy ===== *)
theory KeyEstablishment
  imports Ciphers Prf
begin

text \<open>
  From the master secret to a protected connection: \<open>establishKeys\<close> of the TLS 1.0-1.2 server
  and client, with the constructors of the suites (\<open>cipherRC4\<close>, \<open>cipherAES\<close>, \<open>macSHA1\<close>,
  \<open>macSHA256\<close>, \<open>aeadAESGCM\<close>), and the properties of the connection both sides then have.
\<close>

section \<open>The constructors of a suite\<close>

record ('s, 'a, 'c, 'm) suite_impl =
  im_cipher :: "cipher_fn \<Rightarrow> bytes \<Rightarrow> bytes \<Rightarrow> bool \<Rightarrow> ('s, 'a, 'c) hc_cipher exec"
  im_mac :: "mac_fn \<Rightarrow> bytes \<Rightarrow> 'm"
  im_aead :: "aead_fn \<Rightarrow> bytes \<Rightarrow> bytes \<Rightarrow> 'a exec"

text \<open>
  The constructors drop the error of the key size; the nil cipher they would go on with panics.
  3DES and ChaCha20-Poly1305 are library code and not available in this instance.
\<close>

definition cipherRC4 :: "bytes \<Rightarrow> bytes \<Rightarrow> bool \<Rightarrow> (rc4, 'a, 'c) hc_cipher exec" where
  "cipherRC4 key iv isRead = exec_bind (must (rc4_NewCipher key)) (\<lambda>c. Ret (Stream c))"

definition cipherAES :: "bytes \<Rightarrow> bytes \<Rightarrow> bool \<Rightarrow> ('s, 'a, aes_cbc) hc_cipher exec" where
  "cipherAES key iv isRead =
     exec_bind (must (aes_New key)) (\<lambda>block.
     if length iv \<noteq> BlockSize then Panic ''cipher.NewCBCEncrypter: IV length must equal block size''
     else Ret (CBC \<lparr>cb_block = block, cb_iv = iv, cb_enc = \<not> isRead\<rparr>))"

definition macSHA1 :: "std_hashes \<Rightarrow> bytes \<Rightarrow> hash_fn \<times> bytes" where
  "macSHA1 H key = (sha1_h H, key)"

definition macSHA256 :: "std_hashes \<Rightarrow> bytes \<Rightarrow> hash_fn \<times> bytes" where
  "macSHA256 H key = (sha256_h H, key)"

definition lib_impl :: "std_hashes \<Rightarrow> (rc4, gcm_aead, aes_cbc, hash_fn \<times> bytes) suite_impl" where
  "lib_impl H =
     \<lparr>im_cipher = (\<lambda>f. case f of CipherRC4 \<Rightarrow> cipherRC4 | CipherAES \<Rightarrow> cipherAES
                           | Cipher3DES \<Rightarrow> (\<lambda>_ _ _. Panic ''not available'')),
      im_mac = (\<lambda>f. case f of MacSHA1 \<Rightarrow> macSHA1 H | MacSHA256 \<Rightarrow> macSHA256 H),
      im_aead = (\<lambda>f key iv. case f of
                   AeadAESGCM \<Rightarrow> exec_bind (aeadAESGCM key iv) (\<lambda>a. Ret (GcmPrefix a))
                 | AeadAESGCMTLS13 \<Rightarrow> exec_bind (aeadAESGCMTLS13 key iv) (\<lambda>a. Ret (GcmXor a))
                 | AeadChaCha20Poly1305 \<Rightarrow> Panic ''not available'')\<rparr>"

section \<open>\<open>establishKeys\<close>\<close>

text \<open>The two ends; \<open>hin\<close> and \<open>hout\<close> are \<open>c.in\<close> and \<open>c.out\<close>.\<close>

definition suite_keys ::
  "('s, 'a, 'c, 'm) suite_impl \<Rightarrow> cipherSuite \<Rightarrow> bool \<Rightarrow> bool \<Rightarrow> bytes \<Rightarrow> bytes \<Rightarrow> bytes
     \<Rightarrow> (('s, 'a, 'c) hc_cipher \<times> 'm option) exec" where
  "suite_keys M s use_aead isRead macKey key iv =
     (if use_aead then
        exec_bind (deref (cs_aead s)) (\<lambda>f.
        exec_bind (im_aead M f key iv) (\<lambda>a. Ret (Aead a, None)))
      else
        exec_bind (deref (cs_cipher s)) (\<lambda>f.
        exec_bind (im_cipher M f key iv isRead) (\<lambda>c.
        exec_bind (deref (cs_mac s)) (\<lambda>m. Ret (c, Some (im_mac M m macKey))))))"

definition server_establishKeys ::
  "std_hashes \<Rightarrow> ('s, 'a, 'c, 'm) suite_impl \<Rightarrow> u16 \<Rightarrow> cipherSuite \<Rightarrow> bytes \<Rightarrow> bytes \<Rightarrow> bytes
     \<Rightarrow> ('s, 'a, 'c, 'm) halfConn \<Rightarrow> ('s, 'a, 'c, 'm) halfConn
     \<Rightarrow> (('s, 'a, 'c, 'm) halfConn \<times> ('s, 'a, 'c, 'm) halfConn) exec" where
  "server_establishKeys H M vers s masterSecret clientRandom serverRandom hin hout =
     exec_bind (keysFromMasterSecret H vers s masterSecret clientRandom serverRandom
                  (cs_macLen s) (cs_keyLen s) (cs_ivLen s))
       (\<lambda>(clientMAC, serverMAC, clientKey, serverKey, clientIV, serverIV).
     exec_bind (suite_keys M s (cs_aead s \<noteq> None) True clientMAC clientKey clientIV)
       (\<lambda>(clientCipher, clientHash).
     exec_bind (suite_keys M s (cs_aead s \<noteq> None) False serverMAC serverKey serverIV)
       (\<lambda>(serverCipher, serverHash).
     Ret (prepareCipherSpec hin vers clientCipher clientHash,
          prepareCipherSpec hout vers serverCipher serverHash))))"

definition client_establishKeys ::
  "std_hashes \<Rightarrow> ('s, 'a, 'c, 'm) suite_impl \<Rightarrow> u16 \<Rightarrow> cipherSuite \<Rightarrow> bytes \<Rightarrow> bytes \<Rightarrow> bytes
     \<Rightarrow> ('s, 'a, 'c, 'm) halfConn \<Rightarrow> ('s, 'a, 'c, 'm) halfConn
     \<Rightarrow> (('s, 'a, 'c, 'm) halfConn \<times> ('s, 'a, 'c, 'm) halfConn) exec" where
  "client_establishKeys H M vers s masterSecret clientRandom serverRandom hin hout =
     exec_bind (keysFromMasterSecret H vers s masterSecret clientRandom serverRandom
                  (cs_macLen s) (cs_keyLen s) (cs_ivLen s))
       (\<lambda>(clientMAC, serverMAC, clientKey, serverKey, clientIV, serverIV).
     exec_bind (suite_keys M s (cs_cipher s = None) False clientMAC clientKey clientIV)
       (\<lambda>(clientCipher, clientHash).
     exec_bind (suite_keys M s (cs_cipher s = None) True serverMAC serverKey serverIV)
       (\<lambda>(serverCipher, serverHash).
     Ret (prepareCipherSpec hin vers serverCipher serverHash,
          prepareCipherSpec hout vers clientCipher clientHash))))"

section \<open>Delivery\<close>

text \<open>Every run of records written by \<open>w\<close> is read by \<open>r\<close>, complete and in order.\<close>

definition acceptable_record :: "byte \<times> bytes \<Rightarrow> bool" where
  "acceptable_record = (\<lambda>(ty, p). ty \<noteq> 0 \<and> length p \<le> maxPlaintext)"

definition delivers ::
  "('s, 'a, 'c, 'm) cipher_ops \<Rightarrow> ('s, 'a, 'c, 'm) halfConn \<Rightarrow> ('s, 'a, 'c, 'm) halfConn \<Rightarrow> bool" where
  "delivers K w r \<longleftrightarrow>
     (\<forall>vers rands ps. length ps < 2 ^ 64 \<longrightarrow> length rands = length ps \<longrightarrow> list_all rand_ok rands \<longrightarrow>
        list_all acceptable_record ps \<longrightarrow>
        (\<exists>w' r' records. encrypt_all K w vers rands ps = (w', Ret records) \<and>
           decrypt_all K r records = (r', Ret ps)))"

context record_channel begin

lemma sync_delivers:
  assumes "sync 0 w r" "\<And>ty p. ty \<noteq> 0 \<Longrightarrow> length p \<le> maxPlaintext \<Longrightarrow> fits ty p"
  shows "delivers K w r"
  unfolding delivers_def
proof (intro allI impI)
  fix vers rands ps
  assume "length ps < 2 ^ 64" "length rands = length ps" "list_all rand_ok rands"
    and "list_all acceptable_record ps"
  moreover from this have "list_all (\<lambda>(ty, p). fits ty p) ps"
    using assms(2) by (auto simp: list_all_iff acceptable_record_def)
  ultimately show "\<exists>w' r' records. encrypt_all K w vers rands ps = (w', Ret records) \<and>
           decrypt_all K r records = (r', Ret ps)"
    using delivered [OF assms(1), of ps rands vers] by auto
qed

end

section \<open>TLS 1.0-1.2\<close>

text \<open>The two ends of one direction after the constructors.\<close>

definition protects ::
  "(rc4, gcm_aead, aes_cbc) hc_cipher \<Rightarrow> (rc4, gcm_aead, aes_cbc) hc_cipher \<Rightarrow> (hash_fn \<times> bytes) option \<Rightarrow> bool" where
  "protects cw cr m \<longleftrightarrow>
     (case (cw, cr, m) of
        (Aead a, Aead b, None) \<Rightarrow> gcm_pair 0 a b \<and> ga_explicitNonceLen a = 8
      | (Stream e, Stream d, Some k) \<Rightarrow> rc4_pair e d \<and> hmac_keyed k
      | (CBC e, CBC d, Some k) \<Rightarrow> aes_cbc_pair e d \<and> hmac_keyed k
      | _ \<Rightarrow> False)"

lemma protects_cases:
  assumes "protects cw cr m"
  obtains (aead) a b where "cw = Aead a" "cr = Aead b" "m = None" "gcm_pair 0 a b" "ga_explicitNonceLen a = 8"
    | (stream) e d k where "cw = Stream e" "cr = Stream d" "m = Some k" "rc4_pair e d" "hmac_keyed k"
    | (cbc) e d k where "cw = CBC e" "cr = CBC d" "m = Some k" "aes_cbc_pair e d" "hmac_keyed k"
proof -
  have "(\<exists>a b. cw = Aead a \<and> cr = Aead b \<and> m = None \<and> gcm_pair 0 a b \<and> ga_explicitNonceLen a = 8) \<or>
     (\<exists>e d k. cw = Stream e \<and> cr = Stream d \<and> m = Some k \<and> rc4_pair e d \<and> hmac_keyed k) \<or>
     (\<exists>e d k. cw = CBC e \<and> cr = CBC d \<and> m = Some k \<and> aes_cbc_pair e d \<and> hmac_keyed k)"
    using assms by (cases cw; cases cr; cases m) (simp_all add: protects_def)
  then show thesis
    using that by blast
qed

lemma put_be_0: "put_be 8 0 = replicate 8 0"
  by code_simp

lemma protected_delivers:
  assumes p: "protects cw cr m" and v: "vers \<noteq> VersionTLS13"
  obtains w r where "changeCipherSpec (prepareCipherSpec w0 vers cw m) = Ret w"
    "changeCipherSpec (prepareCipherSpec r0 vers cr m) = Ret r" "delivers lib_ops w r"
proof -
  let ?new = "\<lambda>h c. h\<lparr>version := vers, nextCipher := NilCipher, nextMac := None, hc_cipher := c, mac := m,
      hc_seq := replicate 8 0\<rparr>"
  have "cw \<noteq> NilCipher" "cr \<noteq> NilCipher"
    using p by (auto elim: protects_cases)
  then have "changeCipherSpec (prepareCipherSpec w0 vers cw m) = Ret (?new w0 cw)"
    "changeCipherSpec (prepareCipherSpec r0 vers cr m) = Ret (?new r0 cr)"
    using v by (simp_all add: changeCipherSpec_def prepareCipherSpec_def)
  moreover have "delivers lib_ops (?new w0 cw) (?new r0 cr)"
    using p
  proof (cases rule: protects_cases)
    case (aead a b)
    then show ?thesis
      using v by (intro gcm.aead_channel.sync_delivers)
        (auto simp: aead_sync_def put_be_0 lib_ops_def)
  next
    case (stream e d k)
    then show ?thesis
      using v by (intro rc4.stream_channel.sync_delivers)
        (auto simp: stream_sync_def mac_sync_def put_be_0)
  next
    case (cbc e d k)
    then show ?thesis
      using v by (intro aes_cbc.cbc_channel.sync_delivers)
        (auto simp: cbc_sync_def mac_sync_def put_be_0)
  qed
  ultimately show thesis
    by (rule that)
qed

definition library_suite :: "cipherSuite \<Rightarrow> bool" where
  "library_suite s \<longleftrightarrow> cs_cipher s = Some Cipher3DES \<or> cs_aead s = Some AeadChaCha20Poly1305"

definition suite_kind :: "cipherSuite \<Rightarrow> bool" where
  "suite_kind s \<longleftrightarrow>
     library_suite s \<or>
     (cs_aead s = Some AeadAESGCM \<and> cs_cipher s = None \<and> cs_keyLen s \<in> {16, 32} \<and> cs_ivLen s = 4) \<or>
     (cs_aead s = None \<and> cs_mac s \<noteq> None \<and> cs_cipher s = Some CipherRC4 \<and> cs_keyLen s = 16) \<or>
     (cs_aead s = None \<and> cs_mac s \<noteq> None \<and> cs_cipher s = Some CipherAES \<and> cs_keyLen s \<in> {16, 32} \<and>
      cs_ivLen s = 16)"

lemma suite_kinds: "list_all suite_kind cipherSuites"
  by (simp add: cipherSuites_def suite_def suite_kind_def library_suite_def)

lemma cipher_or_aead:
  assumes "s \<in> set cipherSuites"
  shows "(cs_cipher s = None) = (cs_aead s \<noteq> None)"
proof -
  have "list_all (\<lambda>s. (cs_cipher s = None) = (cs_aead s \<noteq> None)) cipherSuites"
    by (simp add: cipherSuites_def suite_def)
  with assms show ?thesis
    by (simp add: list_all_iff)
qed

lemma new_gcm12:
  assumes "length key \<in> {16, 32}" "length iv = 4"
  obtains f where "aeadAESGCM key iv = Ret f" "gcm_pair 0 (GcmPrefix f) (GcmPrefix f)"
proof -
  obtain c where c: "aes_New key = Ret c"
    using aes_New_total [of key] assms(1) by auto
  let ?g = "\<lparr>cipher = c, nonceSize = 12, tagSize = 16\<rparr>"
  have "tls_gcm ?g"
    using wf_new [OF c] by (simp add: tls_gcm_def wf_gcm_def)
  moreover have "aeadAESGCM key iv = Ret \<lparr>pn_nonce = go_copy (replicate aeadNonceLength 0) iv,
      pn_aead = \<lparr>t12_g = ?g, t12_next = 0\<rparr>\<rparr>"
    using assms(2) by (simp add: aeadAESGCM_def noncePrefixLength_def c must_def NewGCMForTLS12_def new_wrapped)
  ultimately show thesis
    by (intro that) (auto simp: gcm_pair_def aeadNonceLength_def)
qed

lemma new_aes_cbc:
  assumes "length key \<in> {16, 32}" "length iv = 16"
  obtains c where "\<And>isRead. cipherAES key iv isRead = Ret (CBC \<lparr>cb_block = c, cb_iv = iv, cb_enc = \<not> isRead\<rparr>)"
    "wf_block c"
proof -
  obtain c where c: "aes_New key = Ret c"
    using aes_New_total [of key] assms(1) by auto
  then show thesis
    using assms(2) wf_new [OF c] by (intro that [of c]) (simp_all add: cipherAES_def must_def BlockSize_def)
qed

lemma suite_keys_pair:
  assumes H: "wf_hashes H" and s: "s \<in> set cipherSuites" "\<not> library_suite s"
    and key: "length key = cs_keyLen s" and iv: "length iv = cs_ivLen s"
  obtains cw cr m where "suite_keys (lib_impl H) s (cs_aead s \<noteq> None) False mk key iv = Ret (cw, m)"
    "suite_keys (lib_impl H) s (cs_aead s \<noteq> None) True mk key iv = Ret (cr, m)" "protects cw cr m"
proof -
  have kind: "suite_kind s"
    using suite_kinds s(1) by (simp add: list_all_iff)
  have keyed: "hmac_keyed (im_mac (lib_impl H) f mk)" for f
    using H by (cases f) (simp_all add: lib_impl_def macSHA1_def macSHA256_def hmac_keyed_def wf_hashes_def)
  consider (gcm) "cs_aead s = Some AeadAESGCM" "length key \<in> {16, 32}" "length iv = 4"
    | (rc4) m where "cs_aead s = None" "cs_mac s = Some m" "cs_cipher s = Some CipherRC4" "length key = 16"
    | (cbc) m where "cs_aead s = None" "cs_mac s = Some m" "cs_cipher s = Some CipherAES"
        "length key \<in> {16, 32}" "length iv = 16"
    using kind s(2) key iv by (auto simp: suite_kind_def)
  then show thesis
  proof cases
    case gcm
    obtain f where "aeadAESGCM key iv = Ret f" "gcm_pair 0 (GcmPrefix f) (GcmPrefix f)"
      by (rule new_gcm12 [OF gcm(2,3)])
    with gcm(1) show thesis
      by (intro that) (auto simp: suite_keys_def deref_def lib_impl_def protects_def ga_explicitNonceLen_def
          pn_explicitNonceLen_def pn_NonceSize_def aeadNonceLength_def noncePrefixLength_def)
  next
    case (rc4 m)
    then show thesis
      using keyed [of m]
      by (intro that) (auto simp: suite_keys_def deref_def lib_impl_def protects_def cipherRC4_def
          rc4_NewCipher_def must_def rc4_pair_def)
  next
    case (cbc m)
    obtain c where "\<And>isRead. cipherAES key iv isRead =
        (Ret (CBC \<lparr>cb_block = c, cb_iv = iv, cb_enc = \<not> isRead\<rparr>) :: (rc4, gcm_aead, aes_cbc) hc_cipher exec)"
      "wf_block c"
      by (rule new_aes_cbc [OF cbc(4,5)]) blast
    with cbc show thesis
      using keyed [of m]
      by (intro that) (auto simp: suite_keys_def deref_def lib_impl_def protects_def aes_cbc_pair_def)
  qed
qed

lemma keys_lengths:
  assumes "wf_hashes H" "vers \<in> {VersionTLS10, VersionTLS11, VersionTLS12}"
  obtains cm sm ck sk ci si where
    "keysFromMasterSecret H vers s ms cr sr macLen keyLen ivLen = Ret (cm, sm, ck, sk, ci, si)"
    "length ck = keyLen" "length sk = keyLen" "length ci = ivLen" "length si = ivLen"
proof -
  have "\<exists>pf. prfForVersion H vers s = Ret pf"
    using assms(2) by (auto simp: prfForVersion_def prfAndHashForVersion_def version_ids)
  then obtain pf where "prfForVersion H vers s = Ret pf"
    by blast
  from keysFromMasterSecret_total [OF assms(1) this, of ms cr sr macLen keyLen ivLen] that show thesis
    by auto
qed

section \<open>Properties\<close>

text \<open>C15: a TLS 1.0-1.2 handshake that agrees on the master secret yields a working connection: for every
  suite of the table but the 3DES and ChaCha20 ones (library ciphers), \<open>establishKeys\<close> of the
  server and of the client return, the change of cipher spec succeeds in all four half connections,
  and then every run of records the client writes is read by the server, complete, unchanged
  and in order, and every run the server writes by the client.\<close>

theorem established_keys_deliver:
  assumes "wf_hashes H" and "s \<in> set cipherSuites" and "\<not> library_suite s"
    and "vers \<in> {VersionTLS10, VersionTLS11, VersionTLS12}"
  shows "\<exists>sin1 sout1 cin1 cout1 sin2 sout2 cin2 cout2.
     server_establishKeys H (lib_impl H) vers s ms cr sr sin sout = Ret (sin1, sout1) \<and>
     client_establishKeys H (lib_impl H) vers s ms cr sr cin cout = Ret (cin1, cout1) \<and>
     changeCipherSpec sin1 = Ret sin2 \<and> changeCipherSpec sout1 = Ret sout2 \<and>
     changeCipherSpec cin1 = Ret cin2 \<and> changeCipherSpec cout1 = Ret cout2 \<and>
     delivers lib_ops cout2 sin2 \<and> delivers lib_ops sout2 cin2"
proof -
  obtain cm sm ck sk ci si where keys:
    "keysFromMasterSecret H vers s ms cr sr (cs_macLen s) (cs_keyLen s) (cs_ivLen s) = Ret (cm, sm, ck, sk, ci, si)"
    "length ck = cs_keyLen s" "length sk = cs_keyLen s" "length ci = cs_ivLen s" "length si = cs_ivLen s"
    by (rule keys_lengths [OF assms(1,4)]) blast
  obtain cw cr' m where c: "suite_keys (lib_impl H) s (cs_aead s \<noteq> None) False cm ck ci = Ret (cw, m)"
    "suite_keys (lib_impl H) s (cs_aead s \<noteq> None) True cm ck ci = Ret (cr', m)" "protects cw cr' m"
    by (rule suite_keys_pair [OF assms(1-3) keys(2,4)])
  obtain sw sr' m' where s: "suite_keys (lib_impl H) s (cs_aead s \<noteq> None) False sm sk si = Ret (sw, m')"
    "suite_keys (lib_impl H) s (cs_aead s \<noteq> None) True sm sk si = Ret (sr', m')" "protects sw sr' m'"
    by (rule suite_keys_pair [OF assms(1-3) keys(3,5)])
  have v: "vers \<noteq> VersionTLS13"
    using assms(4) by (auto simp: version_ids)
  obtain w r where wr: "changeCipherSpec (prepareCipherSpec cout vers cw m) = Ret w"
    "changeCipherSpec (prepareCipherSpec sin vers cr' m) = Ret r" "delivers lib_ops w r"
    by (rule protected_delivers [OF c(3) v])
  obtain w' r' where wr': "changeCipherSpec (prepareCipherSpec sout vers sw m') = Ret w'"
    "changeCipherSpec (prepareCipherSpec cin vers sr' m') = Ret r'" "delivers lib_ops w' r'"
    by (rule protected_delivers [OF s(3) v])
  show ?thesis
    using keys(1) c s wr wr' cipher_or_aead [OF assms(2)]
    by (auto simp: server_establishKeys_def client_establishKeys_def)
qed

text \<open>A half connection at its zero value.\<close>

definition zero_half :: "('s, 'a, 'c, 'm) halfConn" where
  "zero_half =
     \<lparr>handshakeLen = replicate 7 0, handshakeBuf = None, hc_err = None, version = 0,
      hc_cipher = NilCipher, mac = None, hc_seq = replicate 8 0, nextCipher = NilCipher,
      nextMac = None, level = 0, trafficSecret = []\<rparr>"

theorem established_keys_deliver_witness:
  "\<exists>sin1 sout1 cin1 cout1 sin2 cout2 w' r' records.
     server_establishKeys toy_hashes (lib_impl toy_hashes) VersionTLS11 (cipherSuites ! 9) [1, 2] [3] [4]
       zero_half zero_half = Ret (sin1, sout1) \<and>
     client_establishKeys toy_hashes (lib_impl toy_hashes) VersionTLS11 (cipherSuites ! 9) [1, 2] [3] [4]
       zero_half zero_half = Ret (cin1, cout1) \<and>
     changeCipherSpec sin1 = Ret sin2 \<and> changeCipherSpec cout1 = Ret cout2 \<and>
     encrypt_all lib_ops cout2 VersionTLS11 [\<lambda>n. Ret (replicate n 5), \<lambda>n. Ret (replicate n 6)]
       [(22, [1, 2, 3]), (23, [])] = (w', Ret records) \<and>
     decrypt_all lib_ops sin2 records = (r', Ret [(22, [1, 2, 3]), (23, [])])"
proof -
  have s: "cipherSuites ! 9 \<in> set cipherSuites" "\<not> library_suite (cipherSuites ! 9)"
    by (simp_all add: cipherSuites_def library_suite_def suite_def)
  have io: "list_all rand_ok [\<lambda>n. Ret (replicate n 5), \<lambda>n. Ret (replicate n 6)]"
    "list_all acceptable_record [(22, [1, 2, 3]), (23, [])]"
    by (simp_all add: rand_ok_def acceptable_record_def maxPlaintext_def)
  from established_keys_deliver [OF wf_toy_hashes s, of VersionTLS11 "[1, 2]" "[3]" "[4]" zero_half zero_half
      zero_half zero_half]
  obtain sin1 sout1 cin1 cout1 sin2 cout2 where
    "server_establishKeys toy_hashes (lib_impl toy_hashes) VersionTLS11 (cipherSuites ! 9) [1, 2] [3] [4]
       zero_half zero_half = Ret (sin1, sout1)"
    "client_establishKeys toy_hashes (lib_impl toy_hashes) VersionTLS11 (cipherSuites ! 9) [1, 2] [3] [4]
       zero_half zero_half = Ret (cin1, cout1)"
    "changeCipherSpec sin1 = Ret sin2" "changeCipherSpec cout1 = Ret cout2" "delivers lib_ops cout2 sin2"
    by auto
  moreover from this(5) [unfolded delivers_def, rule_format, OF _ _ io, of VersionTLS11]
  obtain w' r' records where
    "encrypt_all lib_ops cout2 VersionTLS11 [\<lambda>n. Ret (replicate n 5), \<lambda>n. Ret (replicate n 6)]
       [(22, [1, 2, 3]), (23, [])] = (w', Ret records)"
    "decrypt_all lib_ops sin2 records = (r', Ret [(22, [1, 2, 3]), (23, [])])"
    by auto
  ultimately show ?thesis
    by blast
qed

end
