(* ===== verification/Tls13Records.thy ===== *)
theory Tls13Records
  imports KeyEstablishment
begin

text \<open>
  Records under TLS 1.3 traffic keys, and the shape a REALITY server gives its handshake records:
  \<open>encrypt\<close> pads each of them to the length recorded from the target's handshake.
\<close>

section \<open>Traffic keys\<close>

lemma new_gcm13:
  assumes "aeadAESGCMTLS13 key iv = Ret f"
  shows "gcm_pair 0 (GcmXor f) (GcmXor f)"
proof -
  obtain c where c: "aes_New key = Ret c" and f: "f = \<lparr>xn_nonceMask = iv, xn_aead =
      \<lparr>t13_g = \<lparr>cipher = c, nonceSize = 12, tagSize = 16\<rparr>, t13_ready = False, t13_mask = 0, t13_next = 0\<rparr>\<rparr>"
    and iv: "length iv = 12"
    using assms by (auto simp: aeadAESGCMTLS13_def must_def NewGCMForTLS13_def new_wrapped
        aeadNonceLength_def exec_simps split: if_splits exec.splits)
  have "tls_gcm \<lparr>cipher = c, nonceSize = 12, tagSize = 16\<rparr>"
    using wf_new [OF c] by (simp add: tls_gcm_def wf_gcm_def)
  then show ?thesis
    using iv by (simp add: f gcm_pair_def tls13_at_def)
qed

text \<open>Two half connections keyed with the same secret are in sync.\<close>

definition tls13_half ::
  "('s, 'a, 'c, 'm) halfConn \<Rightarrow> bool" where
  "tls13_half hc \<longleftrightarrow> version hc = VersionTLS13 \<and> mac hc = None"

lemma traffic_sync:
  assumes H: "wf_hashes H" and s: "s \<in> set cipherSuitesTLS13" "cs13_aead s = AeadAESGCMTLS13"
    and half: "tls13_half w0" "tls13_half r0"
  obtains w r where "setTrafficSecret H (im_aead (lib_impl H) (cs13_aead s)) w0 s lvl secret = Ret w"
    "setTrafficSecret H (im_aead (lib_impl H) (cs13_aead s)) r0 s lvl' secret = Ret r"
    "aead_sync lib_ops gcm_pair 0 w r" "version w = VersionTLS13" "handshakeLen w = handshakeLen w0"
proof -
  obtain key iv f where key: "trafficKey H s secret = Ret (key, iv)" "aeadAESGCMTLS13 key iv = Ret f"
    using trafficKey_total [OF H s(1), of secret] s(2) by auto
  let ?new = "\<lambda>h l. h\<lparr>trafficSecret := secret, level := l, hc_cipher := Aead (GcmXor f), hc_seq := replicate 8 0\<rparr>"
  have "setTrafficSecret H (im_aead (lib_impl H) (cs13_aead s)) h s l secret = Ret (?new h l)" for h l
    using key by (simp add: setTrafficSecret_def s(2) lib_impl_def)
  moreover have "aead_sync lib_ops gcm_pair 0 (?new w0 lvl) (?new r0 lvl')"
    using half new_gcm13 [OF key(2)]
    by (simp add: aead_sync_def tls13_half_def put_be_0 lib_ops_def ga_explicitNonceLen_def xn_explicitNonceLen_def)
  ultimately show thesis
    using half by (intro that [of "?new w0 lvl" "?new r0 lvl'"]) (simp_all add: tls13_half_def)
qed

section \<open>The shape of handshake records\<close>

text \<open>What the peer gets: a lone \<open>typeNewSessionTicket\<close> byte becomes empty application data.\<close>

definition shaped_content :: "bytes \<Rightarrow> bytes \<times> byte" where
  "shaped_content p =
     (if p = [typeNewSessionTicket] then ([], recordTypeApplicationData) else (p, recordTypeHandshake))"

definition shapeable :: "bytes \<Rightarrow> bool" where
  "shapeable p \<longleftrightarrow> p \<noteq> [] \<and> (p ! 0 = typeNewSessionTicket \<longrightarrow> p = [typeNewSessionTicket])"

lemma encrypt_padding_shape:
  assumes p: "shapeable p" and lens: "lens ! 1 \<noteq> 0" and slot: "handshake_slot (p ! 0) = Some i"
    and room: "recordHeaderLen + length p + 1 + ov \<le> lens ! i" "lens ! i \<le> empty_size"
  shows "\<exists>k p' ty'. shaped_content p = (p', ty') \<and>
     encrypt_padding ov lens p (record_header recordTypeHandshake vers (length p) @ p @ [recordTypeHandshake]) =
       (lens[i := 0], Ret (record_header recordTypeHandshake vers (length p) @ inner_plaintext ty' p' k)) \<and>
     recordHeaderLen + length p' + 1 + k + ov = lens ! i"
proof -
  let ?h = "record_header recordTypeHandshake vers (length p)"
  let ?k = "lens ! i - (recordHeaderLen + length p + 1 + ov)"
  have "nat (int (lens ! i) - int (length (?h @ p @ [recordTypeHandshake]) + ov)) = ?k"
    by (simp add: recordHeaderLen_def nat_diff_distrib')
  moreover have "\<not> int (lens ! i) - int (length (?h @ p @ [recordTypeHandshake]) + ov) < 0" "\<not> ?k > empty_size"
    using room by (simp_all add: recordHeaderLen_def)
  ultimately have pad: "encrypt_padding ov lens p (?h @ p @ [recordTypeHandshake]) =
     (lens[i := 0], Ret ((if p ! 0 = typeNewSessionTicket
        then (?h @ p @ [recordTypeHandshake])[5 := recordTypeApplicationData, 6 := 0]
        else ?h @ p @ [recordTypeHandshake]) @ replicate ?k 0))"
    using p lens slot by (simp add: encrypt_padding_def shapeable_def Let_def)
  show ?thesis
  proof (cases "p = [typeNewSessionTicket]")
    case True
    then have "(?h @ p @ [recordTypeHandshake])[5 := recordTypeApplicationData, 6 := 0] =
        ?h @ [recordTypeApplicationData, 0]"
      by (simp add: list_update_append)
    with True pad room show ?thesis
      by (intro exI [of _ "Suc ?k"]) (simp add: shaped_content_def inner_plaintext_def)
  next
    case False
    then have "p ! 0 \<noteq> typeNewSessionTicket"
      using p by (auto simp: shapeable_def)
    with False pad room show ?thesis
      by (intro exI [of _ ?k]) (simp add: shaped_content_def inner_plaintext_def)
  qed
qed

text \<open>The record of a message in its slot.\<close>

lemma shaped_record:
  assumes "aead_sync lib_ops gcm_pair n w r" and "n < 2 ^ 64 - 1" and "version w = VersionTLS13"
    and "handshakeLen w ! 1 \<noteq> 0" and "shapeable p" and "handshake_slot (p ! 0) = Some i"
    and "recordHeaderLen + length p + 1 + gcmTagSize \<le> handshakeLen w ! i"
    and "handshakeLen w ! i \<le> empty_size"
  shows "\<exists>w' r' out. encrypt lib_ops w (record_header recordTypeHandshake vers (length p)) p rand = (w', Ret out) \<and>
     length out = handshakeLen w ! i \<and> handshakeLen w' = (handshakeLen w)[i := 0] \<and>
     decrypt lib_ops r out = (r', Ret (shaped_content p)) \<and> aead_sync lib_ops gcm_pair (n + 1) w' r' \<and>
     version w' = VersionTLS13"
proof -
  obtain a where a: "hc_cipher w = Aead a"
    using assms(1) by (auto simp: aead_sync_def)
  have ov: "o_Overhead lib_ops a = gcmTagSize"
    by (cases a) (simp_all add: lib_ops_def ga_Overhead_def t12_Overhead_def t13_Overhead_def)
  obtain k p' ty' where shape: "shaped_content p = (p', ty')"
    "encrypt_padding gcmTagSize (handshakeLen w) p (record_header recordTypeHandshake vers (length p) @ p @ [recordTypeHandshake]) =
       ((handshakeLen w)[i := 0], Ret (record_header recordTypeHandshake vers (length p) @ inner_plaintext ty' p' k))"
    "recordHeaderLen + length p' + 1 + k + gcmTagSize = handshakeLen w ! i"
    using encrypt_padding_shape [OF assms(5,4,6-8)] by blast
  have ty: "ty' \<noteq> 0"
    using shape(1) by (auto simp: shaped_content_def recordTypeApplicationData_def recordTypeHandshake_def
        split: if_splits)
  have "length p' + k \<le> maxPlaintext"
    using shape(3) assms(8) by (simp add: maxPlaintext_def empty_size_def)
  from gcm.step13 [OF assms(1-3) ty this shape(2), of rand] a ov shape(1,3) show ?thesis
    by auto
qed

section \<open>Properties\<close>

text \<open>TLS 1.3 traffic keys yield a working channel: for the AES suites, two half connections that
  set the same traffic secret both accept it, whatever the secret, and every run of records one
  encrypts is decrypted by the other, complete, unchanged and in order.\<close>

theorem traffic_secret_delivers:
  assumes "wf_hashes H" and "s \<in> set cipherSuitesTLS13" and "cs13_aead s = AeadAESGCMTLS13"
    and "tls13_half w0" and "tls13_half r0" and "handshakeLen w0 ! 1 = 0"
  shows "\<exists>w r. setTrafficSecret H (im_aead (lib_impl H) (cs13_aead s)) w0 s lvl secret = Ret w \<and>
     setTrafficSecret H (im_aead (lib_impl H) (cs13_aead s)) r0 s lvl' secret = Ret r \<and>
     delivers lib_ops w r"
proof -
  obtain w r where wr: "setTrafficSecret H (im_aead (lib_impl H) (cs13_aead s)) w0 s lvl secret = Ret w"
    "setTrafficSecret H (im_aead (lib_impl H) (cs13_aead s)) r0 s lvl' secret = Ret r"
    "aead_sync lib_ops gcm_pair 0 w r" "version w = VersionTLS13" "handshakeLen w = handshakeLen w0"
    by (rule traffic_sync [OF assms(1-5)])
  then have "delivers lib_ops w r"
    using assms(6) by (intro gcm.aead_channel.sync_delivers) simp_all
  with wr show ?thesis
    by blast
qed

definition tls13_zero :: "('s, 'a, 'c, 'm) halfConn" where
  "tls13_zero = zero_half\<lparr>version := VersionTLS13\<rparr>"

theorem traffic_secret_delivers_witness:
  "\<exists>w r w' r' records.
     setTrafficSecret toy_hashes (im_aead (lib_impl toy_hashes) AeadAESGCMTLS13) tls13_zero (cipherSuitesTLS13 ! 0)
       3 [7, 7] = Ret w \<and>
     setTrafficSecret toy_hashes (im_aead (lib_impl toy_hashes) AeadAESGCMTLS13) tls13_zero (cipherSuitesTLS13 ! 0)
       3 [7, 7] = Ret r \<and>
     encrypt_all lib_ops w VersionTLS12 [\<lambda>n. Ret (replicate n 5)] [(23, [1, 2, 3])] = (w', Ret records) \<and>
     decrypt_all lib_ops r records = (r', Ret [(23, [1, 2, 3])])"
proof -
  have s: "cipherSuitesTLS13 ! 0 \<in> set cipherSuitesTLS13" "cs13_aead (cipherSuitesTLS13 ! 0) = AeadAESGCMTLS13"
    by (simp_all add: cipherSuitesTLS13_def)
  have half: "tls13_half tls13_zero" "handshakeLen tls13_zero ! 1 = 0"
    by (simp_all add: tls13_half_def tls13_zero_def zero_half_def)
  have io: "list_all rand_ok [\<lambda>n. Ret (replicate n 5)]" "list_all acceptable_record [(23, [1, 2, 3])]"
    by (simp_all add: rand_ok_def acceptable_record_def maxPlaintext_def)
  from traffic_secret_delivers [OF wf_toy_hashes s half(1,1,2), of 3 "[7, 7]" 3] s(2)
  obtain w r where
    "setTrafficSecret toy_hashes (im_aead (lib_impl toy_hashes) AeadAESGCMTLS13) tls13_zero (cipherSuitesTLS13 ! 0)
       3 [7, 7] = Ret w"
    "setTrafficSecret toy_hashes (im_aead (lib_impl toy_hashes) AeadAESGCMTLS13) tls13_zero (cipherSuitesTLS13 ! 0)
       3 [7, 7] = Ret r" "delivers lib_ops w r"
    by auto
  moreover from this(3) [unfolded delivers_def, rule_format, OF _ _ io, of VersionTLS12]
  obtain w' r' records where
    "encrypt_all lib_ops w VersionTLS12 [\<lambda>n. Ret (replicate n 5)] [(23, [1, 2, 3])] = (w', Ret records)"
    "decrypt_all lib_ops r records = (r', Ret [(23, [1, 2, 3])])"
    by auto
  ultimately show ?thesis
    by blast
qed

text \<open>C28: a REALITY server's handshake records look like the target's: with the target's handshake
  recorded, the record that carries an EncryptedExtensions, Certificate, CertificateVerify or
  Finished message, or the lone ticket byte, is exactly as long as the one recorded for its slot,
  the slot is used up, the client still decrypts the message (for the ticket byte, empty
  application data), and both sides stay in sync.  This holds whenever the message fits the
  slot and the slot is at most 8192.\<close>

theorem reality_record_shape:
  assumes "aead_sync lib_ops gcm_pair n w r" and "n < 2 ^ 64 - 1" and "version w = VersionTLS13"
    and "handshakeLen w ! 1 \<noteq> 0" and "shapeable p" and "handshake_slot (p ! 0) = Some i"
    and "recordHeaderLen + length p + 1 + gcmTagSize \<le> handshakeLen w ! i"
    and "handshakeLen w ! i \<le> empty_size"
  shows "\<exists>w' r' out. encrypt lib_ops w (record_header recordTypeHandshake vers (length p)) p rand = (w', Ret out) \<and>
     length out = handshakeLen w ! i \<and> handshakeLen w' = (handshakeLen w)[i := 0] \<and>
     decrypt lib_ops r out = (r', Ret (shaped_content p)) \<and> aead_sync lib_ops gcm_pair (n + 1) w' r'"
  using shaped_record [OF assms, of vers rand] by blast

text \<open>A target whose records had these lengths.\<close>

definition tls13_target :: "('s, 'a, 'c, 'm) halfConn" where
  "tls13_target = zero_half\<lparr>version := VersionTLS13, handshakeLen := [5, 6, 55, 900, 300, 70, 250]\<rparr>"

theorem reality_record_shape_witness:
  "\<exists>w w' r r' out.
     setTrafficSecret toy_hashes (im_aead (lib_impl toy_hashes) AeadAESGCMTLS13) tls13_target (cipherSuitesTLS13 ! 0)
       2 [7, 7] = Ret w \<and>
     encrypt lib_ops w (record_header recordTypeHandshake VersionTLS12 4) [typeEncryptedExtensions, 0, 0, 0]
       (\<lambda>n. Ret []) = (w', Ret out) \<and>
     length out = 55 \<and> decrypt lib_ops r out = (r', Ret ([typeEncryptedExtensions, 0, 0, 0], recordTypeHandshake))"
proof -
  have s: "cipherSuitesTLS13 ! 0 \<in> set cipherSuitesTLS13" "cs13_aead (cipherSuitesTLS13 ! 0) = AeadAESGCMTLS13"
    by (simp_all add: cipherSuitesTLS13_def)
  have half: "tls13_half tls13_target" "handshakeLen tls13_target = [5, 6, 55, 900, 300, 70, 250]"
    by (simp_all add: tls13_half_def tls13_target_def zero_half_def)
  obtain w r where wr: "setTrafficSecret toy_hashes (im_aead (lib_impl toy_hashes) (cs13_aead (cipherSuitesTLS13 ! 0)))
      tls13_target (cipherSuitesTLS13 ! 0) 2 [7, 7] = Ret w"
    "aead_sync lib_ops gcm_pair 0 w r" "version w = VersionTLS13" "handshakeLen w = [5, 6, 55, 900, 300, 70, 250]"
    using traffic_sync [OF wf_toy_hashes s half(1,1)] half(2) by metis
  have "\<exists>w' r' out. encrypt lib_ops w (record_header recordTypeHandshake VersionTLS12
        (length [typeEncryptedExtensions, 0, 0, 0])) [typeEncryptedExtensions, 0, 0, 0] (\<lambda>n. Ret []) = (w', Ret out) \<and>
     length out = handshakeLen w ! 2 \<and> handshakeLen w' = (handshakeLen w)[2 := 0] \<and>
     decrypt lib_ops r out = (r', Ret (shaped_content [typeEncryptedExtensions, 0, 0, 0])) \<and>
     aead_sync lib_ops gcm_pair (0 + 1) w' r'"
    by (rule reality_record_shape [OF wr(2) _ wr(3)])
      (simp_all add: wr(4) shapeable_def handshake_slot_def recordHeaderLen_def gcmTagSize_def empty_size_def
        handshake_types)
  moreover have "length [typeEncryptedExtensions, 0, 0, 0] = 4" "[5, 6, 55, 900, 300, 70, 250] ! 2 = (55 :: nat)"
    "shaped_content [typeEncryptedExtensions, 0, 0, 0] = ([typeEncryptedExtensions, 0, 0, 0], recordTypeHandshake)"
    by (simp_all add: shaped_content_def)
  ultimately obtain w' r' out where "encrypt lib_ops w (record_header recordTypeHandshake VersionTLS12 4)
        [typeEncryptedExtensions, 0, 0, 0] (\<lambda>n. Ret []) = (w', Ret out)" "length out = 55"
     "decrypt lib_ops r out = (r', Ret ([typeEncryptedExtensions, 0, 0, 0], recordTypeHandshake))"
    by (auto simp only: wr(4))
  then show ?thesis
    using wr(1) unfolding s(2) by blast
qed

text \<open>A message that does not fit the recorded length is an error, not a record of another length:
  \<open>encrypt\<close> fails, the slot is used up and nothing else in the half connection has changed (the
  sequence number in particular).\<close>

theorem reality_record_too_long:
  assumes "hc_cipher w = Aead a" and "version w = VersionTLS13" and "mac w = None"
    and "explicitNonceLen lib_ops w = 0"
    and "handshakeLen w ! 1 \<noteq> 0" and "p \<noteq> []" and "handshake_slot (p ! 0) = Some i"
    and "handshakeLen w ! i < recordHeaderLen + length p + 1 + gcmTagSize"
  shows "encrypt lib_ops w (record_header recordTypeHandshake vers (length p)) p rand =
     (w\<lparr>handshakeLen := (handshakeLen w)[i := 0]\<rparr>, Fail (ErrMsg ''payload[0], padding''))"
proof -
  have ov: "o_Overhead lib_ops a = gcmTagSize"
    by (cases a) (simp_all add: lib_ops_def ga_Overhead_def t12_Overhead_def t13_Overhead_def)
  have "encrypt_padding gcmTagSize (handshakeLen w) p (record_header recordTypeHandshake vers (length p) @ p @ [recordTypeHandshake]) =
     ((handshakeLen w)[i := 0], Fail (ErrMsg ''payload[0], padding''))"
    using assms(5-8) by (simp add: encrypt_padding_def Let_def recordHeaderLen_def)
  then show ?thesis
    using assms(1-4) by (simp add: encrypt_def encrypt_nonce_def encrypt_cipher_def encrypt_aead13_def ov
        then_incSeq_def)
qed

theorem reality_record_too_long_witness:
  "\<exists>f. encrypt lib_ops (tls13_target\<lparr>hc_cipher := Aead (GcmXor f)\<rparr>)
       (record_header recordTypeHandshake VersionTLS12 60) (typeEncryptedExtensions # replicate 59 1) (\<lambda>n. Ret []) =
     (tls13_target\<lparr>hc_cipher := Aead (GcmXor f), handshakeLen := [5, 6, 0, 900, 300, 70, 250]\<rparr>,
      Fail (ErrMsg ''payload[0], padding''))"
proof -
  obtain f :: "GCMForTLS13 xorNonceAEAD" where True
    by blast
  let ?w = "tls13_target\<lparr>hc_cipher := Aead (GcmXor f)\<rparr>" and ?p = "typeEncryptedExtensions # replicate 59 1"
  have w: "hc_cipher ?w = Aead (GcmXor f)" "version ?w = VersionTLS13" "mac ?w = None"
    "handshakeLen ?w = [5, 6, 55, 900, 300, 70, 250]"
    by (simp_all add: tls13_target_def zero_half_def)
  have n: "explicitNonceLen lib_ops ?w = 0"
    by (simp add: w explicitNonceLen_def lib_ops_def ga_explicitNonceLen_def xn_explicitNonceLen_def)
  have len: "length ?p = 60"
    by simp
  have "handshake_slot (?p ! 0) = Some 2" "?p \<noteq> []" "handshakeLen ?w ! 1 \<noteq> 0"
    "handshakeLen ?w ! 2 < recordHeaderLen + length ?p + 1 + gcmTagSize"
    unfolding w len by (simp_all add: handshake_slot_def recordHeaderLen_def gcmTagSize_def)
  from reality_record_too_long [OF w(1-3) n this(3,2,1,4), of VersionTLS12 "\<lambda>n. Ret []"]
  show ?thesis
    unfolding w(4) len by (intro exI [of _ f]) simp
qed

end
