(* ===== verification/RecordSafety.thy ===== *)
theory RecordSafety
  imports KeyEstablishment
begin

text \<open>
  What the record layer guarantees against a peer that does not follow the protocol: sequence
  numbers, padding, failures and what an accepted record proves.
\<close>

section \<open>Failures\<close>

definition decrypt_alerts :: "err set" where
  "decrypt_alerts = {ErrAlert alertBadRecordMAC, ErrAlert alertUnexpectedMessage, ErrAlert alertRecordOverflow}"

lemma decrypt_cipher_keeps:
  assumes "decrypt_cipher K hc record payload = (hc', r)"
  shows "hc_seq hc' = hc_seq hc" "version hc' = version hc" "mac hc' = mac hc"
    "trafficSecret hc' = trafficSecret hc" "nextCipher hc' = nextCipher hc" "hc_err hc' = hc_err hc"
  using assms
  by (auto simp: decrypt_cipher_def Let_def split: hc_cipher.splits if_splits prod.splits
      exec.splits option.splits)

lemma decrypt_cipher_alert:
  "decrypt_cipher K hc record payload = (hc', Fail e) \<Longrightarrow> e \<in> decrypt_alerts"
  by (auto simp: decrypt_cipher_def Let_def decrypt_alerts_def split: hc_cipher.splits if_splits prod.splits
      exec.splits option.splits)

lemma decrypt_inner_alert: "decrypt_inner ty p = Fail e \<Longrightarrow> e \<in> decrypt_alerts"
  by (auto simp: decrypt_inner_def decrypt_alerts_def split: if_splits option.splits)

lemma decrypt_mac_alert: "decrypt_mac K hc m record p n g = Fail e \<Longrightarrow> e \<in> decrypt_alerts"
  by (auto simp: decrypt_mac_def Let_def decrypt_alerts_def split: if_splits)

lemma incSeq_no_fail: "incSeq hc \<noteq> Fail e"
  by (simp add: incSeq_def split: option.splits)

lemma incSeq_keeps:
  "incSeq hc = Ret hc' \<Longrightarrow> version hc' = version hc \<and> mac hc' = mac hc \<and> hc_cipher hc' = hc_cipher hc \<and>
     hc_err hc' = hc_err hc"
  by (auto simp: incSeq_def split: option.splits)

lemma exec_bind_Fail_iff:
  "exec_bind m f = Fail e \<longleftrightarrow> m = Fail e \<or> (\<exists>x. m = Ret x \<and> f x = Fail e)"
  by (cases m) auto

lemma then_incSeq_Fail:
  "then_incSeq (hc, r) = (hc', Fail e) \<longleftrightarrow> r = Fail e \<and> hc' = hc"
  using incSeq_no_fail [of hc] by (auto simp: then_incSeq_def split: exec.splits)

lemma then_incSeq_Ret:
  "then_incSeq (hc, r) = (hc', Ret x) \<longleftrightarrow> r = Ret x \<and> incSeq hc = Ret hc'"
  by (auto simp: then_incSeq_def split: exec.splits)

lemma decrypt_failed:
  assumes "decrypt K hc record = (hc', Fail e)"
  obtains r where "decrypt_cipher K hc record (drop recordHeaderLen record) = (hc', r)" "e \<in> decrypt_alerts"
proof -
  obtain hc1 r where r: "decrypt_cipher K hc record (drop recordHeaderLen record) = (hc1, r)"
    by fastforce
  have "hc' = hc1 \<and> e \<in> decrypt_alerts"
    using assms decrypt_cipher_alert [of K hc "record" "drop recordHeaderLen record" hc1]
    by (auto simp: decrypt_def r Let_def then_incSeq_Fail exec_bind_Fail_iff
        dest: decrypt_inner_alert decrypt_mac_alert split: if_splits option.splits)
  with r that show thesis
    by blast
qed

section \<open>The plaintext of a CBC record\<close>

definition cbc_plaintext ::
  "('s, 'a, 'c, 'm) cipher_ops \<Rightarrow> ('s, 'a, 'c, 'm) halfConn \<Rightarrow> 'c \<Rightarrow> bytes \<Rightarrow> bytes" where
  "cbc_plaintext K hc c payload =
     (let n = explicitNonceLen K hc
      in snd (o_CryptBlocks K (if n > 0 then o_SetIV K c (take n payload) else c) (drop n payload)))"

lemma decrypt_mac_accepts:
  assumes "decrypt_mac K hc m record x padLen g = Ret p" "g = 255 \<or> g = 0"
  shows "g = 255 \<and> (\<exists>rest. x = p @ tls10MAC K m (hc_seq hc) (take 3 record @ put_be 2 (length p)) p [] @ rest)"
proof -
  let ?ms = "o_MacSize K m" and ?n = "length x - o_MacSize K m - padLen"
  have acc: "\<not> length x < ?ms" "p = take ?n x"
    "(if tls10MAC K m (hc_seq hc) (take 3 record @ put_be 2 ?n) (take ?n x) (drop (?n + ?ms) x) = take ?ms (drop ?n x)
      then 1 else 0 :: int) AND uint g = 1"
    using assms(1) by (auto simp: decrypt_mac_def Let_def split: if_splits)
  then have g: "g = 255" and tag: "take ?ms (drop ?n x) = tls10MAC K m (hc_seq hc) (take 3 record @ put_be 2 ?n) p []"
    using assms(2) by (auto simp: tls10MAC_def split: if_splits)
  have "x = p @ take ?ms (drop ?n x) @ drop (?n + ?ms) x"
  proof -
    have "take ?ms (drop ?n x) @ drop (?n + ?ms) x = drop ?n x"
      using append_take_drop_id [of ?ms "drop ?n x"] by (simp only: drop_drop add.commute [of ?ms])
    then show ?thesis
      by (simp only: acc(2) append_take_drop_id)
  qed
  moreover have "?n = length p"
    by (simp add: acc(2))
  ultimately show ?thesis
    using g tag by metis
qed

section \<open>Properties\<close>

text \<open>C31: the constant-time padding check is the check of RFC 5246: for a payload below 2 GiB,
  \<open>extractPadding\<close> returns the number of bytes to remove and 255 when the last byte, as the
  padding length, is matched by all bytes of the padding, and otherwise 1 and 0 (so that only
  one byte is left out of the MAC).\<close>

theorem extractPadding_spec:
  assumes "length payload < 2 ^ 31"
  shows "extractPadding payload =
     (if payload = [] then (0, 0)
      else if valid_padding payload then (unat (last payload) + 1, 255) else (1, 0))"
  using extractPadding_eq [OF assms] by (simp add: extractPadding_def)

theorem extractPadding_spec_witness:
  "extractPadding [9, 9, 2, 2, 2] = (3, 255) \<and> extractPadding [9, 9, 2, 1, 2] = (1, 0)"
  using extractPadding_spec [of "[9, 9, 2, 2, 2]"] extractPadding_spec [of "[9, 9, 2, 1, 2]"]
  by (simp add: valid_padding_def numeral_3_eq_3)

text \<open>Sequence numbers count and never wrap: \<open>incSeq\<close> adds one to the 64-bit big-endian number,
  panics exactly when it would wrap to zero, and changes nothing else.\<close>

theorem incSeq_counts:
  assumes "length (hc_seq hc) = 8"
  shows "incSeq hc =
     (if get_be (hc_seq hc) = 2 ^ 64 - 1 then Panic ''TLS: sequence number wraparound''
      else Ret (hc\<lparr>hc_seq := put_be 8 (get_be (hc_seq hc) + 1)\<rparr>))"
proof -
  have "get_be (hc_seq hc) < 2 ^ 64"
    using get_be_less [of "hc_seq hc"] assms by simp
  then show ?thesis
    using incSeq_eq [OF assms] by auto
qed

theorem incSeq_counts_witness:
  "incSeq (zero_half\<lparr>hc_seq := [0, 0, 0, 0, 0, 0, 1, 255]\<rparr>) =
     Ret (zero_half\<lparr>hc_seq := [0, 0, 0, 0, 0, 0, 2, 0]\<rparr>) \<and>
   incSeq (zero_half\<lparr>hc_seq := [255, 255, 255, 255, 255, 255, 255, 255]\<rparr>) = Panic ''TLS: sequence number wraparound''"
proof -
  let ?a = "[0, 0, 0, 0, 0, 0, 1, 255] :: bytes" and ?b = "[255, 255, 255, 255, 255, 255, 255, 255] :: bytes"
  have count: "get_be ?a = 511" "get_be ?b = 2 ^ 64 - 1" "put_be 8 (511 + 1) = [0, 0, 0, 0, 0, 0, 2, 0]"
    using put_be_get_be [of "[0, 0, 0, 0, 0, 0, 2, 0]" 8] by (simp_all add: get_be_def)
  have half: "hc_seq (zero_half\<lparr>hc_seq := s\<rparr>) = s"
    "(zero_half\<lparr>hc_seq := s\<rparr>)\<lparr>hc_seq := t\<rparr> = zero_half\<lparr>hc_seq := t\<rparr>" for s t
    by simp_all
  have "incSeq (zero_half\<lparr>hc_seq := ?a\<rparr>) = Ret (zero_half\<lparr>hc_seq := [0, 0, 0, 0, 0, 0, 2, 0]\<rparr>)"
    using incSeq_counts [of "zero_half\<lparr>hc_seq := ?a\<rparr>"] unfolding half count by simp
  moreover have "incSeq (zero_half\<lparr>hc_seq := ?b\<rparr>) = Panic ''TLS: sequence number wraparound''"
    using incSeq_counts [of "zero_half\<lparr>hc_seq := ?b\<rparr>"] unfolding half count by simp
  ultimately show ?thesis
    by (rule conjI)
qed

text \<open>C30: a record that is rejected leaves no trace in the sequence: when \<open>decrypt\<close> returns an error, it
  is one of bad_record_mac, unexpected_message and record_overflow, and the sequence number, the
  version, the MAC key and the traffic secret are as before.\<close>

theorem decrypt_failure_safe:
  assumes "decrypt K hc record = (hc', Fail e)"
  shows "e \<in> {ErrAlert alertBadRecordMAC, ErrAlert alertUnexpectedMessage, ErrAlert alertRecordOverflow} \<and>
     hc_seq hc' = hc_seq hc \<and> version hc' = version hc \<and> mac hc' = mac hc \<and>
     trafficSecret hc' = trafficSecret hc"
proof -
  obtain r where r: "decrypt_cipher K hc record (drop recordHeaderLen record) = (hc', r)" "e \<in> decrypt_alerts"
    by (rule decrypt_failed [OF assms])
  then show ?thesis
    using decrypt_cipher_keeps [OF r(1)] by (simp add: decrypt_alerts_def)
qed

theorem decrypt_failure_safe_witness:
  "\<exists>f hc'. decrypt lib_ops (zero_half\<lparr>version := VersionTLS12, hc_cipher := Aead (GcmPrefix f)\<rparr>)
       [23, 3, 3, 0, 1, 9] = (hc', Fail (ErrAlert alertBadRecordMAC)) \<and> hc_seq hc' = replicate 8 0"
proof -
  obtain f where "aeadAESGCM (replicate 16 1) (replicate 4 2) = Ret f"
    by (rule new_gcm12 [of "replicate 16 1" "replicate 4 2"]) simp_all
  let ?hc = "zero_half\<lparr>version := VersionTLS12, hc_cipher := Aead (GcmPrefix f)\<rparr>"
  have "version ?hc \<noteq> VersionTLS13"
    by (simp add: version_ids)
  then have "decrypt lib_ops ?hc [23, 3, 3, 0, 1, 9] = (?hc, Fail (ErrAlert alertBadRecordMAC))"
    by (simp add: decrypt_def decrypt_cipher_def explicitNonceLen_def lib_ops_def ga_explicitNonceLen_def
        pn_explicitNonceLen_def pn_NonceSize_def aeadNonceLength_def noncePrefixLength_def recordHeaderLen_def
        then_incSeq_def)
  moreover from decrypt_failure_safe [OF this] have "hc_seq ?hc = replicate 8 0"
    by (simp add: zero_half_def)
  ultimately show ?thesis
    by blast
qed

text \<open>C29: what CBC lets through is authentic: when \<open>decrypt\<close> accepts a record under a CBC suite, the
  decrypted blocks are the returned plaintext, followed by its MAC under the current sequence
  number and the header with the plaintext's length, followed by the rest of the padding; the
  padding is well formed, and the sequence number has advanced by one.\<close>

theorem cbc_record_authentic:
  assumes "hc_cipher hc = CBC c" and "mac hc = Some m" and "version hc \<noteq> VersionTLS13"
    and "decrypt K hc record = (hc', Ret (p, typ))"
    and "length (cbc_plaintext K hc c (drop recordHeaderLen record)) < 2 ^ 31"
    and "length (hc_seq hc) = 8"
  shows "typ = record ! 0 \<and> valid_padding (cbc_plaintext K hc c (drop recordHeaderLen record)) \<and>
     (\<exists>rest. cbc_plaintext K hc c (drop recordHeaderLen record) =
        p @ tls10MAC K m (hc_seq hc) (take 3 record @ put_be 2 (length p)) p [] @ rest) \<and>
     get_be (hc_seq hc') = get_be (hc_seq hc) + 1"
proof -
  let ?x = "cbc_plaintext K hc c (drop recordHeaderLen record)"
  obtain hc1 r where r: "decrypt_cipher K hc record (drop recordHeaderLen record) = (hc1, r)"
    by fastforce
  obtain payload plaintext padLen g where r': "r = Ret (payload, plaintext, padLen, g)"
    and m: "decrypt_mac K hc m record payload padLen g = Ret p" and ty: "typ = record ! 0"
    and inc: "incSeq hc1 = Ret hc'"
    using assms(1-4)
    by (auto simp: decrypt_def r Let_def then_incSeq_Ret exec_bind_Ret_iff split: if_splits option.splits)
  have x: "payload = ?x" "(padLen, g) = extractPadding ?x"
    using r r' assms(1,2)
    by (auto simp: decrypt_cipher_def cbc_plaintext_def Let_def split: if_splits prod.splits)
  have g: "g = 255 \<or> g = 0"
    using x(2) extractPadding_eq [OF assms(5)] by (cases "?x = []") (auto simp: extractPadding_def split: if_splits)
  note acc = decrypt_mac_accepts [OF m g]
  have "valid_padding ?x"
    using acc x(2) extractPadding_eq [OF assms(5)]
    by (cases "?x = []") (auto simp: extractPadding_def split: if_splits)
  moreover have "get_be (hc_seq hc') = get_be (hc_seq hc) + 1"
  proof -
    have "hc_seq hc1 = hc_seq hc"
      by (rule decrypt_cipher_keeps(1) [OF r])
    then show ?thesis
      using inc incSeq_eq [of hc1] assms(6) by (auto split: if_splits)
  qed
  ultimately show ?thesis
    using acc ty x(1) by auto
qed

text \<open>A record under a block cipher that changes nothing, so that its content is in sight.\<close>

definition clear_ops :: "(rc4, gcm_aead, aes_cbc, hash_fn \<times> bytes) cipher_ops" where
  "clear_ops = lib_ops\<lparr>o_CryptBlocks := \<lambda>c x. (c, x)\<rparr>"

theorem cbc_record_authentic_witness:
  "\<exists>hc :: (rc4, gcm_aead, aes_cbc, hash_fn \<times> bytes) halfConn. \<exists>c rest record hc'.
     decrypt clear_ops hc record = (hc', Ret ([7], 23)) \<and>
     cbc_plaintext clear_ops hc c (drop recordHeaderLen record) =
       [7] @ hmac (toy_hash 20) [1] (replicate 8 0 @ [23, 3, 3, 0, 1, 7]) @ rest \<and>
     get_be (hc_seq hc') = 1"
proof -
  obtain c where "\<And>isRead. cipherAES (replicate 16 1) (replicate 16 2) isRead =
      (Ret (CBC \<lparr>cb_block = c, cb_iv = replicate 16 2, cb_enc = \<not> isRead\<rparr>) :: (rc4, gcm_aead, aes_cbc) hc_cipher exec)"
    by (rule new_aes_cbc [of "replicate 16 1" "replicate 16 2"]) (simp_all, blast)
  define x where "x = \<lparr>cb_block = c, cb_iv = replicate 16 2, cb_enc = False\<rparr>"
  let ?m = "(toy_hash 20, [1])"
  let ?hc = "zero_half\<lparr>version := VersionTLS12, hc_cipher := CBC x, mac := Some ?m\<rparr>
    :: (rc4, gcm_aead, aes_cbc, hash_fn \<times> bytes) halfConn"
  let ?mac = "tls10MAC clear_ops ?m (replicate 8 0) (record_header 23 VersionTLS12 1) [7] []"
  let ?pt = "[7] @ ?mac @ replicate 11 10"
  let ?rec = "record_header 23 VersionTLS12 48 @ replicate 16 0 @ ?pt"
  have keys: "mac_keys clear_ops hmac_keyed"
    by unfold_locales (auto simp: clear_ops_def lib_ops_def hmac_keyed_def wf_hash_def hmac_def)
  have keyed: "hmac_keyed ?m"
    by (simp add: hmac_keyed_def)
  have maclen: "length ?mac = 20"
    by (simp add: tls10MAC_def clear_ops_def lib_ops_def)
      (simp add: toy_hash_def)
  have mac: "decrypt_mac clear_ops ?hc ?m ?rec ?pt 11 255 = Ret [7]"
    using mac_keys.decrypt_mac_ok [OF keys keyed, of "[7]" ?hc "replicate 8 0" 11 "replicate 11 10" 23 VersionTLS12 48]
    by (simp add: maxPlaintext_def zero_half_def)
  have pad: "extractPadding ?pt = (11, 255)"
    using padding_valid [of 11 "[7] @ ?mac"] maclen by simp
  have nonce: "explicitNonceLen clear_ops ?hc = 16"
    by (simp add: explicitNonceLen_def clear_ops_def lib_ops_def version_ids)
  have pt: "cbc_plaintext clear_ops ?hc x (drop recordHeaderLen ?rec) = ?pt"
    by (simp add: cbc_plaintext_def nonce recordHeaderLen_def) (simp add: clear_ops_def)
  have ctr: "get_be (replicate 8 0) = 0"
    by (simp add: get_be_def numeral_eq_Suc)
  have dec: "decrypt clear_ops ?hc ?rec = (?hc\<lparr>hc_cipher := CBC (x\<lparr>cb_iv := replicate 16 0\<rparr>),
      hc_seq := put_be 8 1\<rparr>, Ret ([7], 23))"
  proof -
    have "o_MacSize clear_ops ?m = 20" "o_BlockSize clear_ops x = 16" "roundUp (20 + 1) 16 = 32"
      by (simp_all add: clear_ops_def lib_ops_def toy_hash_def roundUp_def)
    moreover have "(let (c, p) = (if explicitNonceLen clear_ops ?hc > 0
          then (o_SetIV clear_ops x (take 16 (replicate 16 0 @ ?pt)), drop 16 (replicate 16 0 @ ?pt))
          else (x, replicate 16 0 @ ?pt)) in o_CryptBlocks clear_ops c p) = (x\<lparr>cb_iv := replicate 16 0\<rparr>, ?pt)"
      by (simp add: nonce) (simp add: clear_ops_def lib_ops_def)
    ultimately have "decrypt_cipher clear_ops ?hc ?rec (replicate 16 0 @ ?pt) =
        (?hc\<lparr>hc_cipher := CBC (x\<lparr>cb_iv := replicate 16 0\<rparr>)\<rparr>, Ret (?pt, [], 11, 255))"
      using nonce pad maclen by (simp add: decrypt_cipher_def Let_def)
    moreover have "drop 5 (record_header 23 VersionTLS12 48 @ xs) = xs" for xs
      by simp
    moreover have "VersionTLS12 \<noteq> VersionTLS13" "hc_seq ?hc = put_be 8 0"
      by (simp_all add: version_ids put_be_0 zero_half_def)
    ultimately show ?thesis
      using mac by (simp add: decrypt_def recordHeaderLen_def Let_def then_incSeq_def incSeq_put [of _ 0])
  qed
  have "put_be 2 771 = [3, 3]" "put_be 2 1 = [0, 1]"
    using put_be_get_be [of "[3, 3]" 2] put_be_get_be [of "[0, 1]" 2] by (simp_all add: get_be_def)
  then have "record_header 23 VersionTLS12 1 = [23, 3, 3, 0, 1]"
    by (simp add: record_header_def put_u16_def VersionTLS12_def)
  then have tag: "?mac = hmac (toy_hash 20) [1] (replicate 8 0 @ [23, 3, 3, 0, 1, 7])"
    by (simp add: tls10MAC_def clear_ops_def lib_ops_def)
  have "get_be (hc_seq (?hc\<lparr>hc_cipher := CBC (x\<lparr>cb_iv := replicate 16 0\<rparr>), hc_seq := put_be 8 1\<rparr>)) =
      get_be (hc_seq ?hc) + 1"
    using cbc_record_authentic [OF _ _ _ dec, of x ?m] pt maclen by (simp add: zero_half_def version_ids)
  then show ?thesis
    using dec pt tag ctr by (intro exI [of _ ?hc] exI [of _ x] exI [of _ "replicate 11 10"] exI [of _ ?rec] exI conjI)
      (assumption, simp_all add: zero_half_def)
qed

end
