(* ===== verification/GoTime.thy ===== *)
theory GoTime
  imports Main
begin

text \<open>
  Times and durations of the Go library, in nanoseconds: a duration is a 64-bit integer, and
  \<open>Time.Sub\<close> and \<open>Duration.Abs\<close> saturate.
\<close>

definition minDuration :: int where "minDuration = - (2 ^ 63)"
definition maxDuration :: int where "maxDuration = 2 ^ 63 - 1"

definition time_Sub :: "int \<Rightarrow> int \<Rightarrow> int" where
  "time_Sub t u = max minDuration (min maxDuration (t - u))"

definition duration_Abs :: "int \<Rightarrow> int" where
  "duration_Abs d = (if d = minDuration then maxDuration else \<bar>d\<bar>)"

definition second :: int where "second = 1000000000"
definition hour :: int where "hour = 3600 * second"

lemmas go_durations = second_def hour_def minDuration_def maxDuration_def

lemma time_Sub_less: "d \<le> maxDuration \<Longrightarrow> minDuration < d \<Longrightarrow> time_Sub t u < d \<longleftrightarrow> t - u < d"
  by (auto simp: time_Sub_def)

lemma time_Sub_Abs_le:
  "0 \<le> d \<Longrightarrow> d < maxDuration \<Longrightarrow> duration_Abs (time_Sub t u) \<le> d \<longleftrightarrow> \<bar>t - u\<bar> \<le> d"
  by (auto simp: duration_Abs_def time_Sub_def minDuration_def maxDuration_def)

end
