(* ===== verification/RealityAuth.thy ===== *)
theory RealityAuth
  imports Messages12 KeySchedule GoTime
begin

text \<open>
  How the REALITY server recognises its own clients: the part of the first goroutine of \<open>Server\<close>
  (\<open>tls.go\<close>) that follows \<open>readClientHello\<close>.  A client proves that it knows the public key by
  putting an AES-GCM box into the session id.
\<close>

section \<open>Configuration and state\<close>

text \<open>The packages \<open>curve25519\<close> and \<open>hkdf\<close> of \<open>golang.org/x/crypto\<close>: \<open>hkdf.New(\<dots>).Read\<close> of \<open>n\<close> bytes.\<close>

record x_crypto =
  xc_X25519 :: "bytes \<Rightarrow> bytes \<Rightarrow> err + bytes"
  xc_hkdf :: "hash_fn \<Rightarrow> bytes \<Rightarrow> bytes \<Rightarrow> bytes \<Rightarrow> nat \<Rightarrow> err + bytes"

record reality_config =
  ServerNames :: "bytes \<Rightarrow> bool option"
  PrivateKey :: bytes
  MinClientVer :: "bytes option"
  MaxClientVer :: "bytes option"
  MaxTimeDiff :: int
  ShortIds :: "bytes \<Rightarrow> bool option"

text \<open>\<open>direct\<close>: \<open>hs.c.conn\<close> is the client's connection and no longer the mirror.\<close>

record auth_state =
  a_hello :: clientHelloMsg
  AuthKey :: bytes
  ClientVer :: bytes
  ClientTime :: int
  ClientShortId :: bytes
  direct :: bool
  a_err :: "err option"

text \<open>A Go \<open>int\<close> has 64 bits.\<close>

definition Value :: "bytes \<Rightarrow> 64 word" where
  "Value vals =
     fold (\<lambda>i v. v OR push_bit ((length vals - i - 1) * 8) (ucast (vals ! i))) [0..<length vals] 0"

text \<open>
  \<open>copy(hello.sessionId, src)\<close>: the parser made \<open>sessionId\<close> a part of \<open>original\<close>, from byte 39 on.
\<close>

definition set_sessionId :: "clientHelloMsg \<Rightarrow> bytes \<Rightarrow> clientHelloMsg" where
  "set_sessionId m src =
     (let sid = go_copy (ch_sessionId m) src
      in m\<lparr>ch_sessionId := sid,
           ch_original := map_option (\<lambda>raw. take 39 raw @ sid @ drop (39 + length sid) raw) (ch_original m)\<rparr>)"

definition original_bytes :: "clientHelloMsg \<Rightarrow> bytes" where
  "original_bytes m = (case ch_original m of None \<Rightarrow> [] | Some raw \<Rightarrow> raw)"

section \<open>The check of a key share\<close>

definition client_allowed :: "reality_config \<Rightarrow> int \<Rightarrow> bytes \<Rightarrow> int \<Rightarrow> bytes \<Rightarrow> bool" where
  "client_allowed cfg now ver t shortId \<longleftrightarrow>
     (case MinClientVer cfg of None \<Rightarrow> True | Some m \<Rightarrow> sint (Value ver) \<ge> sint (Value m)) \<and>
     (case MaxClientVer cfg of None \<Rightarrow> True | Some m \<Rightarrow> sint (Value ver) \<le> sint (Value m)) \<and>
     (MaxTimeDiff cfg = 0 \<or> duration_Abs (time_Sub now t) \<le> MaxTimeDiff cfg) \<and>
     ShortIds cfg shortId = Some True"

text \<open>The buffers \<open>plainText\<close> and \<open>ciphertext\<close> are fresh, at \<open>p\<close> and after it.\<close>

definition auth_open ::
  "nat \<Rightarrow> GCMForTLS13 \<Rightarrow> bytes \<Rightarrow> bytes \<Rightarrow> bytes \<Rightarrow> (bytes \<times> err option) exec" where
  "auth_open p aead nonce ciphertext ad =
     exec_bind (t13_Open (p + 64 + length ad) aead \<lparr>ptr = p, dat = [], spare = replicate 32 0\<rparr> nonce
                  (byte_slice (p + 32) ciphertext) (byte_slice (p + 64) ad))
       (\<lambda>(r, e). Ret (go_copy (replicate 32 0) (dat r), e))"

text \<open>The parser only lets a \<open>random\<close> of 32 bytes through.\<close>

definition auth_key :: "x_crypto \<Rightarrow> std_hashes \<Rightarrow> reality_config \<Rightarrow> bytes \<Rightarrow> bytes \<Rightarrow> bytes \<times> err option" where
  "auth_key X H cfg random share =
     (case xc_X25519 X (PrivateKey cfg) share of
        Inl e \<Rightarrow> ([], Some e)
      | Inr k \<Rightarrow>
          (case xc_hkdf X (sha256_h H) k (take 20 random) (str_bytes ''REALITY'') (length k) of
             Inl e \<Rightarrow> (k, Some e)
           | Inr k' \<Rightarrow> (k', None)))"

definition auth_share ::
  "x_crypto \<Rightarrow> std_hashes \<Rightarrow> reality_config \<Rightarrow> int \<Rightarrow> nat \<Rightarrow> auth_state \<Rightarrow> keyShare \<Rightarrow> auth_state exec" where
  "auth_share X H cfg now p st ks =
     (let hello = a_hello st;
          (key, e) = auth_key X H cfg (ch_random hello) (ks_data ks);
          st = st\<lparr>AuthKey := key, a_err := e\<rparr>
      in if e \<noteq> None then Ret st
         else case aes_New key of
           Ret block \<Rightarrow> exec_bind (NewGCMForTLS13 block) (\<lambda>aead.
             let ciphertext = go_copy (replicate 32 0) (ch_sessionId hello);
                 hello = set_sessionId hello (replicate 32 0)
             in exec_bind (auth_open p aead (drop 20 (ch_random hello)) ciphertext (original_bytes hello)) (\<lambda>(plainText, e).
                  let st = st\<lparr>a_hello := hello, a_err := e\<rparr>
                  in if e \<noteq> None then Ret st
                     else let st = st\<lparr>a_hello := set_sessionId hello ciphertext,
                                      ClientVer := take 3 plainText,
                                      ClientTime := int (get_be (take 4 (drop 4 plainText))) * second,
                                      ClientShortId := take 8 (drop 8 plainText)\<rparr>
                          in Ret (if client_allowed cfg now (ClientVer st) (ClientTime st) (ClientShortId st)
                                  then st\<lparr>direct := True\<rparr> else st)))
         | _ \<Rightarrow> Panic ''nil pointer dereference'')"

text \<open>The loop over the key shares ends with the first one for X25519.\<close>

fun auth_loop ::
  "x_crypto \<Rightarrow> std_hashes \<Rightarrow> reality_config \<Rightarrow> int \<Rightarrow> nat \<Rightarrow> auth_state \<Rightarrow> keyShare list \<Rightarrow> auth_state exec" where
  "auth_loop X H cfg now p st [] = Ret st"
| "auth_loop X H cfg now p st (ks # kss) =
     (if ks_group ks \<noteq> X25519 \<or> length (ks_data ks) \<noteq> 32 then auth_loop X H cfg now p st kss
      else auth_share X H cfg now p st ks)"

text \<open>
  What the first goroutine does with the result of \<open>readClientHello\<close>; the result is \<open>stole\<close> and the
  state.  A nil \<open>hs.clientHello\<close> is \<open>None\<close>.
\<close>

definition zero_auth :: "clientHelloMsg \<Rightarrow> err option \<Rightarrow> auth_state" where
  "zero_auth hello e =
     \<lparr>a_hello = hello, AuthKey = [], ClientVer = replicate 3 0, ClientTime = 0, ClientShortId = replicate 8 0,
      direct = False, a_err = e\<rparr>"

definition client_section ::
  "x_crypto \<Rightarrow> std_hashes \<Rightarrow> reality_config \<Rightarrow> int \<Rightarrow> nat \<Rightarrow> bool \<Rightarrow> u16 \<Rightarrow> clientHelloMsg option \<Rightarrow> err option
     \<Rightarrow> (bool \<times> auth_state) exec" where
  "client_section X H cfg now p copying vers hello e =
     (case hello of
        None \<Rightarrow> Panic ''invalid memory address or nil pointer dereference''
      | Some hello \<Rightarrow>
          if ServerNames cfg (ch_serverName hello) \<noteq> Some True then Ret (True, zero_auth hello e)
          else if copying \<or> e \<noteq> None \<or> vers \<noteq> VersionTLS13 then Ret (False, zero_auth hello e)
          else exec_bind (auth_loop X H cfg now p (zero_auth hello e) (ch_keyShares hello)) (\<lambda>st. Ret (False, st)))"

section \<open>Who is accepted\<close>

definition usable_share :: "keyShare \<Rightarrow> bool" where
  "usable_share ks \<longleftrightarrow> ks_group ks = X25519 \<and> length (ks_data ks) = 32"

lemma auth_loop_find:
  "auth_loop X H cfg now p st kss =
     (case find usable_share kss of None \<Rightarrow> Ret st | Some ks \<Rightarrow> auth_share X H cfg now p st ks)"
  by (induction kss) (auto simp: usable_share_def)

text \<open>What the parser guarantees of a ClientHello.\<close>

definition parsed_hello :: "clientHelloMsg \<Rightarrow> bool" where
  "parsed_hello m \<longleftrightarrow> length (ch_random m) = 32 \<and>
     (\<exists>raw. ch_original m = Some raw \<and> 39 + length (ch_sessionId m) \<le> length raw \<and>
        take (length (ch_sessionId m)) (drop 39 raw) = ch_sessionId m)"

lemma ch_step_head:
  assumes "ch_ext_step R s v = Some (v', s')"
  shows "ch_random (fst v') = ch_random (fst v) \<and> ch_sessionId (fst v') = ch_sessionId (fst v)"
proof -
  have names: "ch_random m' = ch_random m \<and> ch_sessionId m' = ch_sessionId m"
    if "loop R (ch_serverName_step R) n t m = Some m'" for n t m m'
    using that
    by (rule loop_inv [where I = "\<lambda>x. ch_random x = ch_random m \<and> ch_sessionId x = ch_sessionId m"])
      (auto simp: ch_serverName_step_def bind_eq_Some_conv split: if_splits)
  have "ch_random m' = ch_random m \<and> ch_sessionId m' = ch_sessionId m" if "ch_switch R e d r m = Some (m', l)" for e d r m m' l
    using that names
    by (auto simp: ch_switch_def read_psk_def bind_eq_Some_conv split: if_splits option.splits)
  then show ?thesis
    using assms
    by (cases v) (fastforce simp: ch_ext_step_def bind_eq_Some_conv split: if_splits option.splits)
qed

lemma ch_loop_head:
  assumes "loop R (ch_ext_step R) n s (m, S) = Some (m', S')"
  shows "ch_random m' = ch_random m \<and> ch_sessionId m' = ch_sessionId m"
  using loop_inv [OF assms, of "\<lambda>x. ch_random (fst x) = ch_random m \<and> ch_sessionId (fst x) = ch_sessionId m"]
    ch_step_head by fastforce

lemma unmarshal_parsed_hello:
  assumes R: "cryptobyte_String R" and m: "ch_unmarshal R data = Some m"
  shows "parsed_hello m"
proof -
  let ?n = "get_be (take 1 (drop 38 data))"
  have head: "length (ch_random m) = 32" "39 + ?n \<le> length data" "ch_sessionId m = take ?n (drop 39 data)"
    using m
    by (auto simp: ch_unmarshal_def Let_def bind_eq_Some_conv readUint8LengthPrefixed_def cut_lp_def cutn_def
        cryptobyte_String.Skip_law [OF R] cryptobyte_String.ReadUint16_law [OF R]
        cryptobyte_String.ReadBytes_law [OF R] cryptobyte_String.ReadUint8LengthPrefixed_law [OF R]
        dest!: ch_loop_head split: if_splits)
  then show ?thesis
    using ch_unmarshal_original [OF m] by (auto simp: parsed_hello_def min_def)
qed

text \<open>What the code relies on of the libraries: X25519 returns 32 bytes, HKDF what was asked for.\<close>

definition wf_x_crypto :: "x_crypto \<Rightarrow> bool" where
  "wf_x_crypto X \<longleftrightarrow>
     (\<forall>sk pk k. xc_X25519 X sk pk = Inr k \<longrightarrow> length k = 32) \<and>
     (\<forall>h s salt info n k. xc_hkdf X h s salt info n = Inr k \<longrightarrow> length k = n)"

lemma auth_key_length: "wf_x_crypto X \<Longrightarrow> auth_key X H cfg r s = (k, None) \<Longrightarrow> length k = 32"
  by (auto simp: auth_key_def wf_x_crypto_def split: sum.splits)

lemma set_sessionId_simps [simp]:
  "ch_random (set_sessionId m z) = ch_random m" "ch_keyShares (set_sessionId m z) = ch_keyShares m"
  "ch_serverName (set_sessionId m z) = ch_serverName m"
  by (simp_all add: set_sessionId_def Let_def)

lemma go_copy_restore:
  assumes "length z = n"
  shows "go_copy (go_copy s z) (go_copy (replicate n 0) s) = s"
proof (cases "n \<le> length s")
  case True
  with assms show ?thesis
    by (simp add: go_copy_def)
next
  case False
  with assms show ?thesis
    by (simp add: go_copy_def)
qed

lemma set_sessionId_back:
  assumes "parsed_hello m" "length z = 32"
  shows "set_sessionId (set_sessionId m z) (go_copy (replicate 32 0) (ch_sessionId m)) = m"
proof -
  obtain raw where raw: "ch_original m = Some raw" "39 + length (ch_sessionId m) \<le> length raw"
    "take (length (ch_sessionId m)) (drop 39 raw) = ch_sessionId m"
    using assms by (auto simp: parsed_hello_def)
  have "take 39 raw @ ch_sessionId m @ drop (39 + length (ch_sessionId m)) raw = raw"
    using raw(2) append_take_drop_id [of 39 raw] append_take_drop_id [of "length (ch_sessionId m)" "drop 39 raw"]
    by (simp add: raw(3) add.commute)
  then show ?thesis
    using raw by (simp add: set_sessionId_def Let_def go_copy_restore [OF assms(2)])
qed

lemma box_injective:
  assumes "aes_New key = Ret c" "length pt = 16" "length pt' = 16" "gcm_ae c 16 nonce pt ad = gcm_ae c 16 nonce pt' ad"
  shows "pt = pt'"
proof -
  let ?ctr = "gcmInc32 (gcm_J0 c nonce)"
  have len: "length (gctr c ?ctr x) = length x" "gctr c ?ctr (gctr c ?ctr x) = x" for x
    using length_gctr [OF wf_new [OF assms(1)]] gctr_gctr [OF wf_new [OF assms(1)]] by simp_all
  have "gctr c ?ctr pt = gctr c ?ctr pt'"
    using assms(2-4) by (simp add: gcm_ae_def Let_def len)
  then show ?thesis
    using len(2) by metis
qed

text \<open>Opening a box of 32 bytes: it succeeds exactly on what \<open>Seal\<close> makes of some 16 bytes.\<close>

lemma auth_open_cases:
  assumes c: "aes_New key = Ret c" and g: "NewGCMForTLS13 c = Ret aead"
    and len: "length nonce = 12" "length ct = 32"
  obtains (opened) pt where "length pt = 16" "ct = gcm_ae c 16 nonce pt ad"
      "auth_open p aead nonce ct ad = Ret (pt @ replicate 16 0, None)"
  | (refused) "\<forall>pt. length pt = 16 \<longrightarrow> ct \<noteq> gcm_ae c 16 nonce pt ad"
      "auth_open p aead nonce ct ad = Ret (replicate 32 0, Some errOpen)"
proof -
  let ?g = "\<lparr>cipher = c, nonceSize = 12, tagSize = 16\<rparr>"
  let ?dst = "\<lparr>ptr = p, dat = [], spare = replicate 32 0\<rparr>" and ?ct = "byte_slice (p + 32) ct"
    and ?ad = "byte_slice (p + 64) ad" and ?f = "p + 64 + length ad"
  let ?ctr = "gcmInc32 (gcm_J0 c nonce)"
  have aead: "t13_g aead = ?g"
    using g by (auto simp: NewGCMForTLS13_def new_wrapped)
  have wf: "wf_block c" "wf_gcm ?g"
    using wf_new [OF c] by (simp_all add: wf_gcm_def)
  have ready: "open_ready ?f ?g ?dst ?ct ?ad"
    using len by (simp add: open_ready_def sliceForAppend_def InexactOverlap_def AnyOverlap_def gcmMaxPlaintext_def
        gcmBlockSize_def BlockSize_def Let_def)
  have ctr: "length ?ctr = 16"
    by simp
  have n: "length nonce = nonceSize ?g"
    using len by simp
  obtain r where r: "gcm_Open ?f ?g ?dst nonce ?ct ?ad =
      Ret (r, if take 16 (gcm_tag c nonce ad (take 16 ct)) = drop 16 ct then None else Some errOpen)"
    "dat r = (if take 16 (gcm_tag c nonce ad (take 16 ct)) = drop 16 ct then gctr c ?ctr (take 16 ct)
              else replicate 16 0)"
    by (rule gcm_Open_ad [OF wf(2) n ready]) (rule that, simp_all add: len cong: if_cong)
  show thesis
  proof (cases "take 16 (gcm_tag c nonce ad (take 16 ct)) = drop 16 ct")
    case True
    let ?pt = "gctr c ?ctr (take 16 ct)"
    have "gcm_ae c 16 nonce ?pt ad = take 16 ct @ drop 16 ct"
      by (simp add: gcm_ae_def Let_def gctr_gctr [OF wf(1) ctr] True)
    moreover have "length ?pt = 16"
      using len by (simp add: length_gctr [OF wf(1) ctr])
    ultimately show thesis
      using r True by (intro opened [of ?pt]) (simp_all add: auth_open_def t13_Open_def aead go_copy_short)
  next
    case False
    have "ct \<noteq> gcm_ae c 16 nonce pt ad" if "length pt = 16" for pt
    proof
      assume "ct = gcm_ae c 16 nonce pt ad"
      then have "take 16 ct = gctr c ?ctr pt" "drop 16 ct = take 16 (gcm_tag c nonce ad (gctr c ?ctr pt))"
        using that by (simp_all add: gcm_ae_def Let_def length_gctr [OF wf(1) ctr])
      with False show False
        by simp
    qed
    with r False show thesis
      by (intro refused) (simp_all add: auth_open_def t13_Open_def aead go_copy_short replicate_add [symmetric])
  qed
qed

text \<open>The session id by which a client shows the 16 bytes \<open>pt\<close>.\<close>

definition auth_box :: "x_crypto \<Rightarrow> std_hashes \<Rightarrow> reality_config \<Rightarrow> clientHelloMsg \<Rightarrow> bytes \<Rightarrow> bytes option" where
  "auth_box X H cfg m pt =
     (case find usable_share (ch_keyShares m) of
        None \<Rightarrow> None
      | Some ks \<Rightarrow>
          (case auth_key X H cfg (ch_random m) (ks_data ks) of
             (key, None) \<Rightarrow>
               (case aes_New key of
                  Ret c \<Rightarrow> Some (gcm_ae c 16 (drop 20 (ch_random m)) pt (original_bytes (set_sessionId m (replicate 32 0))))
                | _ \<Rightarrow> None)
           | _ \<Rightarrow> None))"

definition shows_identity ::
  "x_crypto \<Rightarrow> std_hashes \<Rightarrow> reality_config \<Rightarrow> int \<Rightarrow> clientHelloMsg \<Rightarrow> bytes \<Rightarrow> bool" where
  "shows_identity X H cfg now m pt \<longleftrightarrow> length pt = 16 \<and>
     auth_box X H cfg m pt = Some (go_copy (replicate 32 0) (ch_sessionId m)) \<and>
     client_allowed cfg now (take 3 pt) (int (get_be (take 4 (drop 4 pt))) * second) (take 8 (drop 8 pt))"

lemma auth_loop_accepts:
  assumes X: "wf_x_crypto X" and m: "parsed_hello m"
  shows "\<exists>st. auth_loop X H cfg now p (zero_auth m None) (ch_keyShares m) = Ret st \<and>
     (direct st \<longleftrightarrow> (\<exists>pt. shows_identity X H cfg now m pt)) \<and> (direct st \<longrightarrow> a_hello st = m)"
proof (cases "find usable_share (ch_keyShares m)")
  case None
  then show ?thesis
    by (simp add: auth_loop_find zero_auth_def shows_identity_def auth_box_def)
next
  case (Some ks)
  obtain key e where k: "auth_key X H cfg (ch_random m) (ks_data ks) = (key, e)"
    by fastforce
  show ?thesis
  proof (cases e)
    case None
    obtain c where c: "aes_New key = Ret c"
      using aes_New_total [of key] auth_key_length [OF X k [unfolded None]] by auto
    obtain aead where g: "NewGCMForTLS13 c = Ret aead"
      by (simp add: NewGCMForTLS13_def new_wrapped)
    let ?nonce = "drop 20 (ch_random m)" and ?ct = "go_copy (replicate 32 0) (ch_sessionId m)"
      and ?m0 = "set_sessionId m (replicate 32 0)"
    have len: "length ?nonce = 12" "length ?ct = 32"
      using m by (simp_all add: parsed_hello_def)
    have box: "auth_box X H cfg m pt = Some (gcm_ae c 16 ?nonce pt (original_bytes ?m0))" for pt
      using Some k None c by (simp add: auth_box_def)
    note run = auth_loop_find auth_share_def zero_auth_def Some k None c g Let_def
    show ?thesis
    proof (rule auth_open_cases [OF c g len, of "original_bytes ?m0" p])
      fix pt
      assume pt: "length pt = 16" "?ct = gcm_ae c 16 ?nonce pt (original_bytes ?m0)"
        and o: "auth_open p aead ?nonce ?ct (original_bytes ?m0) = Ret (pt @ replicate 16 0, None)"
      have "pt' = pt" if "length pt' = 16" "gcm_ae c 16 ?nonce pt' (original_bytes ?m0) = ?ct" for pt'
        using that pt box_injective [OF c] by metis
      then show ?thesis
        using pt o set_sessionId_back [OF m, of "replicate 32 0"]
        by (auto simp: run box shows_identity_def)
    next
      assume "\<forall>pt. length pt = 16 \<longrightarrow> ?ct \<noteq> gcm_ae c 16 ?nonce pt (original_bytes ?m0)"
        and "auth_open p aead ?nonce ?ct (original_bytes ?m0) = Ret (replicate 32 0, Some errOpen)"
      then show ?thesis
        by (auto simp: run box shows_identity_def)
    qed
  qed (use Some k in \<open>auto simp: auth_loop_find auth_share_def zero_auth_def shows_identity_def auth_box_def\<close>)
qed

lemma server_accepts:
  assumes "wf_x_crypto X" and "parsed_hello m"
  shows "\<exists>stole st. client_section X H cfg now p copying vers (Some m) e = Ret (stole, st) \<and>
     (direct st \<longleftrightarrow> ServerNames cfg (ch_serverName m) = Some True \<and> \<not> copying \<and> e = None \<and> vers = VersionTLS13 \<and>
        (\<exists>pt. shows_identity X H cfg now m pt)) \<and>
     (direct st \<longrightarrow> a_hello st = m) \<and> (stole \<longleftrightarrow> ServerNames cfg (ch_serverName m) \<noteq> Some True)"
proof -
  obtain st where "auth_loop X H cfg now p (zero_auth m None) (ch_keyShares m) = Ret st"
    "direct st \<longleftrightarrow> (\<exists>pt. shows_identity X H cfg now m pt)" "direct st \<longrightarrow> a_hello st = m"
    using auth_loop_accepts [OF assms, of H cfg now p] by blast
  moreover have "\<not> direct (zero_auth m e)"
    by (simp add: zero_auth_def)
  ultimately show ?thesis
    by (auto simp: client_section_def)
qed

text \<open>C3: the REALITY server takes a connection over exactly from those who know the secret.  For every
  ClientHello the parser lets through, the first goroutine makes the client's connection its own
  if and only if the name is configured, the target has not sent anything before, TLS 1.3 was
  negotiated, and the session id is the AES-256-GCM box, under the key that X25519 and HKDF give
  for the first usable key share and with the hello with a zeroed session id as additional data,
  of 16 bytes whose version, time and short id the configuration allows.  It never panics, and the
  ClientHello it leaves to the handshake is the one that was received.\<close>

theorem server_accepts_iff:
  assumes "wf_x_crypto X" and "parsed_hello m"
  shows "\<exists>stole st. client_section X H cfg now p copying vers (Some m) e = Ret (stole, st) \<and>
     (direct st \<longleftrightarrow> ServerNames cfg (ch_serverName m) = Some True \<and> \<not> copying \<and> e = None \<and> vers = VersionTLS13 \<and>
        (\<exists>pt. shows_identity X H cfg now m pt)) \<and>
     (direct st \<longrightarrow> a_hello st = m) \<and> (stole \<longleftrightarrow> ServerNames cfg (ch_serverName m) \<noteq> Some True)"
  using assms by (rule server_accepts)

text \<open>A client of version 1.8.1 with the short id 1, at the time the server has.\<close>

definition demo_crypto :: x_crypto where
  "demo_crypto = \<lparr>xc_X25519 = (\<lambda>sk pk. Inr (go_copy (replicate 32 0) pk)),
                  xc_hkdf = (\<lambda>h s salt info n. Inr (go_copy (replicate n 7) (s @ salt @ info)))\<rparr>"

lemma wf_demo_crypto: "wf_x_crypto demo_crypto"
  by (auto simp: wf_x_crypto_def demo_crypto_def)

definition demo_config :: reality_config where
  "demo_config = \<lparr>ServerNames = [[101, 120] \<mapsto> True], PrivateKey = replicate 32 1, MinClientVer = Some [1, 8],
     MaxClientVer = None, MaxTimeDiff = 60 * second, ShortIds = [[1, 0, 0, 0, 0, 0, 0, 0] \<mapsto> True]\<rparr>"

definition reality_hello :: clientHelloMsg where
  "reality_hello = ch_zero\<lparr>ch_original := Some (replicate 80 0), ch_random := replicate 32 5, ch_sessionId := replicate 32 0,
     ch_serverName := [101, 120], ch_keyShares := [\<lparr>ks_group = X25519, ks_data = replicate 32 9\<rparr>]\<rparr>"

definition demo_plain :: bytes where
  "demo_plain = [1, 8, 1, 0, 0, 0, 0, 100, 1, 0, 0, 0, 0, 0, 0, 0]"

lemma demo_allowed:
  "client_allowed demo_config (130 * second) (take 3 demo_plain) (int (get_be (take 4 (drop 4 demo_plain))) * second)
     (take 8 (drop 8 demo_plain))"
  by code_simp

theorem server_accepts_iff_witness:
  "\<exists>sid st. length sid = 32 \<and>
     client_section demo_crypto toy_hashes demo_config (130 * second) 0 False VersionTLS13
       (Some (set_sessionId reality_hello sid)) None = Ret (False, st) \<and> direct st"
proof -
  obtain key where k: "auth_key demo_crypto toy_hashes demo_config (replicate 32 5) (replicate 32 9) = (key, None)"
    by (simp add: auth_key_def demo_crypto_def)
  obtain c where c: "aes_New key = Ret c"
    using aes_New_total [of key] auth_key_length [OF wf_demo_crypto k] by auto
  let ?sid = "gcm_ae c 16 (replicate 12 5) demo_plain (replicate 80 0)"
  let ?m = "set_sessionId reality_hello ?sid"
  have len: "length ?sid = 32"
    using wf_new [OF c] by (simp add: gcm_ae_def Let_def length_gctr length_gcm_tag demo_plain_def)
  have m: "parsed_hello ?m" "ch_sessionId ?m = ?sid" "ch_serverName ?m = [101, 120]"
    using len by (simp_all add: parsed_hello_def set_sessionId_def reality_hello_def ch_zero_def Let_def)
  have zero: "original_bytes (set_sessionId ?m (replicate 32 0)) = replicate 80 0"
    using len by (simp add: original_bytes_def set_sessionId_def reality_hello_def ch_zero_def Let_def
        replicate_add [symmetric])
  have "find usable_share (ch_keyShares ?m) = Some \<lparr>ks_group = X25519, ks_data = replicate 32 9\<rparr>" "ch_random ?m = replicate 32 5"
    by (simp_all add: reality_hello_def usable_share_def)
  then have "auth_box demo_crypto toy_hashes demo_config ?m demo_plain = Some ?sid"
    using k c zero by (simp add: auth_box_def)
  then have "shows_identity demo_crypto toy_hashes demo_config (130 * second) ?m demo_plain"
    using demo_allowed len m by (simp add: shows_identity_def demo_plain_def)
  moreover have "ServerNames demo_config (ch_serverName ?m) = Some True"
    by (simp add: reality_hello_def demo_config_def)
  moreover obtain stole st where run: "client_section demo_crypto toy_hashes demo_config (130 * second) 0 False VersionTLS13
      (Some ?m) None = Ret (stole, st)"
    and "direct st \<longleftrightarrow> ServerNames demo_config (ch_serverName ?m) = Some True \<and> \<not> False \<and> (None :: err option) = None \<and>
       VersionTLS13 = VersionTLS13 \<and> (\<exists>pt. shows_identity demo_crypto toy_hashes demo_config (130 * second) ?m pt)"
    and "stole \<longleftrightarrow> ServerNames demo_config (ch_serverName ?m) \<noteq> Some True"
    using server_accepts_iff [OF wf_demo_crypto m(1), of toy_hashes demo_config "130 * second" 0 False VersionTLS13 None] by blast
  ultimately have "direct st" "\<not> stole"
    by auto
  with run len show ?thesis
    by auto
qed

end
