(* ===== verification/TargetRecording.thy ===== *)
theory TargetRecording
  imports RealityAuth
begin

text \<open>
  What the REALITY server learns from the target before it answers an accepted client: the loop over
  \<open>types\<close> in the second goroutine of \<open>Server\<close> (\<open>tls.go\<close>).  It cuts what the target sends into the
  records of its handshake and notes their lengths, to which \<open>encrypt\<close> then pads its own.
\<close>

section \<open>The loop\<close>

definition buf_size :: nat where "buf_size = 8192"

text \<open>
  The variables \<open>s2cSaved\<close> and \<open>handshakeLen\<close>, and the fields \<open>out.handshakeLen\<close>, \<open>out.handshakeBuf\<close>
  and \<open>hs.hello\<close>.
\<close>

record recording =
  s2cSaved :: bytes
  hs_len :: nat
  out_lens :: "nat list"
  out_buf :: "bytes option"
  hs_hello :: "serverHelloMsg option"

definition recording_init :: recording where
  "recording_init = \<lparr>s2cSaved = [], hs_len = 0, out_lens = replicate 7 0, out_buf = None, hs_hello = None\<rparr>"

text \<open>How a turn of the outer loop ends: \<open>break f\<close>, \<open>continue f\<close>, or with the handshake.\<close>

datatype outcome = Abandon | More | Ready

definition bad_header :: "nat \<Rightarrow> bytes \<Rightarrow> bool" where
  "bad_header i s \<longleftrightarrow>
     Value (take 2 (drop 1 s)) \<noteq> ucast VersionTLS12 \<or>
     i = 0 \<and> (s ! 0 \<noteq> recordTypeHandshake \<or> s ! 5 \<noteq> typeServerHello) \<or>
     i = 1 \<and> (s ! 0 \<noteq> recordTypeChangeCipherSpec \<or> s ! 5 \<noteq> 1) \<or>
     i > 1 \<and> s ! 0 \<noteq> recordTypeApplicationData"

definition record_len :: "bytes \<Rightarrow> nat" where
  "record_len s = recordHeaderLen + unat (Value (take 2 (drop 3 s)))"

text \<open>The length of a ciphertext of ML-KEM-768.\<close>

definition CiphertextSize768 :: nat where "CiphertextSize768 = 1088"

definition hello_usable :: "serverHelloMsg \<Rightarrow> bool" where
  "hello_usable h \<longleftrightarrow>
     sh_vers h = VersionTLS12 \<and> sh_supportedVersion h = VersionTLS13 \<and>
     cipherSuiteTLS13ByID (sh_cipherSuite h) \<noteq> None \<and>
     (ks_group (sh_serverShare h) = X25519 \<and> length (ks_data (sh_serverShare h)) = 32 \<or>
      ks_group (sh_serverShare h) = X25519MLKEM768 \<and> length (ks_data (sh_serverShare h)) = CiphertextSize768 + 32)"

definition fetch_header :: "recording \<Rightarrow> recording" where
  "fetch_header st =
     (if hs_len st = 0 \<and> length (s2cSaved st) > recordHeaderLen then st\<lparr>hs_len := record_len (s2cSaved st)\<rparr> else st)"

fun record_from :: "reader_ops \<Rightarrow> nat list \<Rightarrow> recording \<Rightarrow> recording \<times> outcome" where
  "record_from R [] st = (st, Ready)"
| "record_from R (i # is) st =
     (if out_lens st ! i \<noteq> 0 then record_from R is st
      else if i = 6 \<and> s2cSaved st = [] then (st, Ready)
      else if hs_len st = 0 \<and> length (s2cSaved st) > recordHeaderLen \<and> bad_header i (s2cSaved st) then (st, Abandon)
      else
        let st = fetch_header st;
            n = hs_len st
        in if n > buf_size then (st, Abandon)
           else if i = 1 \<and> n > 0 \<and> n \<noteq> 6 then (st, Abandon)
           else if i = 2 \<and> n > 512 then (st\<lparr>out_lens := (out_lens st)[i := n], out_buf := Some []\<rparr>, Ready)
           else if i = 6 \<and> n > 0 then (st\<lparr>out_lens := (out_lens st)[i := n]\<rparr>, Ready)
           else if n = 0 \<or> length (s2cSaved st) < n then (st, More)
           else
             let hello = sh_unmarshal R (drop recordHeaderLen (take n (s2cSaved st)));
                 st' = (if i = 0 then st\<lparr>hs_hello := hello\<rparr> else st)
             in if i = 0 \<and> (case hello of None \<Rightarrow> True | Some h \<Rightarrow> \<not> hello_usable h) then (st', Abandon)
                else record_from R is (st'\<lparr>out_lens := (out_lens st)[i := n], s2cSaved := drop n (s2cSaved st), hs_len := 0\<rparr>))"

text \<open>One read of the target, with the mutex held: the new \<open>copying\<close> first.\<close>

definition target_section ::
  "reader_ops \<Rightarrow> bool \<Rightarrow> bool \<Rightarrow> bool \<Rightarrow> recording \<Rightarrow> bytes \<Rightarrow> bool \<times> recording \<times> outcome" where
  "target_section R is_direct stole copying st chunk =
     (let st = st\<lparr>s2cSaved := s2cSaved st @ chunk\<rparr>
      in if \<not> is_direct then (copying \<or> \<not> stole, st, Abandon)
         else if length (s2cSaved st) > buf_size then (copying, st, Abandon)
         else let (st, r) = record_from R [0..<7] st in (copying, st, r))"

text \<open>The reads of an accepted client's target; the result has the reads that are left.\<close>

fun record_all :: "reader_ops \<Rightarrow> recording \<Rightarrow> bytes list \<Rightarrow> recording \<times> outcome \<times> bytes list" where
  "record_all R st [] = (st, More, [])"
| "record_all R st (chunk # chunks) =
     (case target_section R True False False st chunk of
        (_, st, More) \<Rightarrow> record_all R st chunks
      | (_, st, r) \<Rightarrow> (st, r, chunks))"

declare record_from.simps(2) [simp del]

section \<open>\<open>Value\<close>\<close>

lemma fold_or_push:
  "fold (\<lambda>i v. v OR push_bit (f i + 8) (g i)) xs (push_bit 8 a) =
     push_bit 8 (fold (\<lambda>i v. v OR push_bit (f i) (g i)) xs (a :: 64 word))"
proof (induction xs arbitrary: a)
  case (Cons x xs)
  have "push_bit 8 a OR push_bit (f x + 8) (g x) = push_bit 8 (a OR push_bit (f x) (g x))"
    by (simp add: push_bit_or add.commute)
  then show ?case
    by (simp only: fold.simps o_apply Cons)
qed simp

lemma Value_snoc: "Value (vals @ [b]) = push_bit 8 (Value vals) OR ucast b"
proof -
  have "fold (\<lambda>i v. v OR push_bit ((length (vals @ [b]) - i - 1) * 8) (ucast ((vals @ [b]) ! i))) [0..<length vals] 0 =
      fold (\<lambda>i v. v OR push_bit ((length vals - i - 1) * 8 + 8) (ucast (vals ! i))) [0..<length vals] (push_bit 8 0 :: 64 word)"
  proof (rule fold_cong)
    fix i
    assume "i \<in> set [0..<length vals]"
    then have i: "i < length vals"
      by simp
    then have "(length (vals @ [b]) - i - 1) * 8 = (length vals - i - 1) * 8 + 8"
      by simp
    with i show "(\<lambda>v. v OR push_bit ((length (vals @ [b]) - i - 1) * 8) (ucast ((vals @ [b]) ! i))) =
        (\<lambda>v. v OR push_bit ((length vals - i - 1) * 8 + 8) (ucast (vals ! i) :: 64 word))"
      by (simp only: nth_append if_True)
  qed simp_all
  then show ?thesis
    unfolding fold_or_push by (simp add: Value_def)
qed

lemma unat_Value: "length vals \<le> 7 \<Longrightarrow> unat (Value vals) = get_be vals"
proof (induction vals rule: rev_induct)
  case Nil
  then show ?case
    by (simp add: Value_def)
next
  case (snoc b vals)
  let ?w = "Value vals"
  have w: "unat ?w < 2 ^ 56"
  proof -
    have "get_be vals < 256 ^ length vals"
      by (rule get_be_less)
    also have "\<dots> \<le> 256 ^ 6"
      using snoc.prems by (intro power_increasing) auto
    finally show ?thesis
      using snoc by simp
  qed
  have "push_bit 8 ?w OR ucast b = push_bit 8 ?w + ucast b"
    by (rule disjunctive_add [symmetric]) (auto simp: bit_simps dest: bit_imp_le_length)
  moreover have "unat (push_bit 8 ?w + ucast b) = unat ?w * 256 + unat b"
  proof -
    have b: "unat b < 2 ^ 64"
      using unat_bound [of b] by (rule order.strict_trans2) simp
    have "unat (push_bit 8 ?w) = unat ?w * 256" "unat (ucast b :: 64 word) = unat b"
      using w b by (simp_all add: push_bit_eq_mult unat_word_ariths unsigned_ucast_eq take_bit_nat_eq_self_iff)
    moreover have "unat ?w * 256 + unat b < 2 ^ 64"
    proof -
      have "unat ?w + 1 \<le> 2 ^ 56" "unat b < 256"
        using w unat_bound [of b] by simp_all
      then have "unat ?w * 256 + unat b < 2 ^ 56 * 256"
        by linarith
      then show ?thesis
        by simp
    qed
    ultimately show ?thesis
      by (simp add: unat_plus_if_size word_size)
  qed
  ultimately show ?case
    using snoc by (simp add: Value_snoc)
qed

section \<open>What is recorded\<close>

text \<open>A record of the target that the loop accepts in position \<open>i\<close>.\<close>

definition target_record :: "nat \<Rightarrow> bytes \<Rightarrow> bool" where
  "target_record i r \<longleftrightarrow>
     recordHeaderLen \<le> length r \<and> length r = recordHeaderLen + get_be (take 2 (drop 3 r)) \<and>
     length r \<le> buf_size \<and> get_u16 (take 2 (drop 1 r)) = VersionTLS12 \<and>
     r ! 0 = (if i = 0 then recordTypeHandshake else if i = 1 then recordTypeChangeCipherSpec
              else recordTypeApplicationData) \<and>
     (i = 0 \<and> length r > recordHeaderLen \<longrightarrow> r ! 5 = typeServerHello) \<and>
     (i = 1 \<longrightarrow> length r = 6 \<and> r ! 5 = 1) \<and> (i = 2 \<longrightarrow> length r \<le> 512)"

text \<open>\<open>data\<close> is the records \<open>rs\<close>, the first with a usable ServerHello, and what is still in \<open>s2cSaved\<close>.\<close>

definition cut_into :: "reader_ops \<Rightarrow> bytes \<Rightarrow> bytes list \<Rightarrow> recording \<Rightarrow> bool" where
  "cut_into R data rs st \<longleftrightarrow> data = concat rs @ s2cSaved st \<and> (\<forall>i < length rs. target_record i (rs ! i)) \<and>
     (rs \<noteq> [] \<longrightarrow> (\<exists>h. sh_unmarshal R (drop recordHeaderLen (rs ! 0)) = Some h \<and> hello_usable h \<and> hs_hello st = Some h))"

text \<open>A record whose header has arrived.\<close>

definition started :: "nat \<Rightarrow> recording \<Rightarrow> nat \<Rightarrow> bool" where
  "started i st n \<longleftrightarrow>
     length (s2cSaved st) > recordHeaderLen \<and> \<not> bad_header i (s2cSaved st) \<and> n = record_len (s2cSaved st)"

definition recorded_so_far :: "reader_ops \<Rightarrow> bytes \<Rightarrow> bytes list \<Rightarrow> recording \<Rightarrow> bool" where
  "recorded_so_far R data rs st \<longleftrightarrow> cut_into R data rs st \<and> length rs \<le> 6 \<and> out_buf st = None \<and>
     out_lens st = map length rs @ replicate (7 - length rs) 0 \<and>
     (hs_len st = 0 \<or> started (length rs) st (hs_len st))"

text \<open>
  When the handshake starts, the lengths are those of the six records and none for a ticket, or of the
  six records and of a seventh that has begun; or of the first two and of a third that is too long
  for EncryptedExtensions alone, and then the server sends one record.
\<close>

definition recorded :: "reader_ops \<Rightarrow> bytes \<Rightarrow> bytes list \<Rightarrow> recording \<Rightarrow> bool" where
  "recorded R data rs st \<longleftrightarrow> cut_into R data rs st \<and>
     (length rs = 6 \<and> s2cSaved st = [] \<and> out_lens st = map length rs @ [0] \<and> out_buf st = None \<or>
      (\<exists>n. length rs = 6 \<and> started 6 st n \<and> out_lens st = map length rs @ [n] \<and> out_buf st = None) \<or>
      (\<exists>n. length rs = 2 \<and> started 2 st n \<and> n > 512 \<and> out_lens st = map length rs @ n # replicate 4 0 \<and>
         out_buf st = Some []))"

lemma record_len_eq: "record_len s = recordHeaderLen + get_be (take 2 (drop 3 s))"
  by (simp add: record_len_def unat_Value)

lemma header_version:
  assumes "length s > recordHeaderLen"
  shows "Value (take 2 (drop 1 s)) = ucast VersionTLS12 \<longleftrightarrow> get_u16 (take 2 (drop 1 s)) = VersionTLS12"
proof -
  let ?b = "take 2 (drop 1 s)"
  have "length ?b = 2"
    using assms by (simp add: recordHeaderLen_def)
  then have "unat (get_u16 ?b) = get_be ?b" "unat (Value ?b) = get_be ?b"
    by (simp_all add: unat_get_u unat_Value)
  moreover have "unat (ucast VersionTLS12 :: 64 word) = unat VersionTLS12"
    by (simp add: version_ids)
  ultimately show ?thesis
    by (simp only: word_unat_eq_iff)
qed

lemma target_recordD:
  assumes "target_record i r"
  shows "5 \<le> length r" "length r \<le> buf_size" "record_len r = length r" "get_u16 (take 2 (drop 1 r)) = VersionTLS12"
    "i = 1 \<Longrightarrow> length r = 6" "i = 2 \<Longrightarrow> length r \<le> 512"
  using assms unfolding target_record_def record_len_eq recordHeaderLen_def by metis+

lemma target_record_header:
  assumes "target_record i r" "length r > recordHeaderLen"
  shows "\<not> bad_header i r"
proof -
  have "Value (take 2 (drop 1 r)) = ucast VersionTLS12"
    using header_version [OF assms(2)] target_recordD(4) [OF assms(1)] by blast
  moreover have "r ! 0 = (if i = 0 then recordTypeHandshake else if i = 1 then recordTypeChangeCipherSpec
      else recordTypeApplicationData)" "i = 0 \<longrightarrow> r ! 5 = typeServerHello" "i = 1 \<longrightarrow> r ! 5 = 1"
    using assms unfolding target_record_def by blast+
  ultimately show ?thesis
    unfolding bad_header_def by (simp del: One_nat_def)
qed

lemma consumed_record:
  assumes "started i st n" "n \<le> length (s2cSaved st)" "n \<le> buf_size" "i = 1 \<longrightarrow> n = 6" "i = 2 \<longrightarrow> n \<le> 512"
  shows "target_record i (take n (s2cSaved st))"
proof -
  let ?s = "s2cSaved st"
  have h: "length ?s > 5" "\<not> bad_header i ?s" "n = 5 + get_be (take 2 (drop 3 ?s))"
    using assms(1) by (auto simp: started_def record_len_eq recordHeaderLen_def)
  have "take 2 (drop 1 (take n ?s)) = take 2 (drop 1 ?s)" "take 2 (drop 3 (take n ?s)) = take 2 (drop 3 ?s)"
    using h(3) by (auto simp: drop_take take_take min_def)
  then show ?thesis
    using h assms(2-) header_version [of ?s, THEN iffD1]
    by (auto simp: target_record_def bad_header_def recordHeaderLen_def)
qed

lemma fetch_header_simps [simp]:
  "s2cSaved (fetch_header st) = s2cSaved st" "out_lens (fetch_header st) = out_lens st"
  "out_buf (fetch_header st) = out_buf st" "hs_hello (fetch_header st) = hs_hello st"
  by (simp_all add: fetch_header_def)

lemma fetch_header_started:
  assumes "recorded_so_far R data rs st"
    and "\<not> (hs_len st = 0 \<and> length (s2cSaved st) > recordHeaderLen \<and> bad_header (length rs) (s2cSaved st))"
  shows "hs_len (fetch_header st) = 0 \<or> started (length rs) st (hs_len (fetch_header st))"
  using assms by (auto simp: recorded_so_far_def fetch_header_def started_def simp del: neq0_conv)

lemma recorded_slot:
  assumes "recorded_so_far R data rs st"
  shows "i < length rs \<Longrightarrow> out_lens st ! i \<noteq> 0" "out_lens st ! length rs = 0"
    "(out_lens st)[length rs := n] = map length rs @ n # replicate (6 - length rs) 0"
proof -
  have l: "out_lens st = map length rs @ replicate (7 - length rs) 0" "length rs \<le> 6"
    "\<forall>i < length rs. target_record i (rs ! i)"
    using assms by (auto simp: recorded_so_far_def cut_into_def)
  show "out_lens st ! i \<noteq> 0" if "i < length rs"
  proof -
    have "target_record i (rs ! i)"
      using l(3) that by blast
    then have "5 \<le> length (rs ! i)"
      by (rule target_recordD(1))
    then show ?thesis
      using that by (simp add: l(1) nth_append) auto
  qed
  have "7 - length rs = Suc (6 - length rs)"
    using l(2) by simp
  then show "out_lens st ! length rs = 0" "(out_lens st)[length rs := n] = map length rs @ n # replicate (6 - length rs) 0"
    by (simp_all add: l(1) nth_append list_update_append)
qed

text \<open>The slots that are filled are skipped.\<close>

lemma record_from_skip:
  assumes "recorded_so_far R data rs st"
  shows "j \<le> length rs \<Longrightarrow> record_from R [j..<7] st = record_from R [length rs..<7] st"
proof (induction "length rs - j" arbitrary: j)
  case (Suc k)
  have "length rs \<le> 6"
    using assms by (simp add: recorded_so_far_def)
  with Suc have "[j..<7] = j # [Suc j..<7]" "out_lens st ! j \<noteq> 0"
    using recorded_slot(1) [OF assms, of j] by (simp_all add: upt_conv_Cons)
  moreover have "record_from R [Suc j..<7] st = record_from R [length rs..<7] st"
    using Suc by simp
  ultimately show ?case
    by (simp add: record_from.simps(2))
qed simp

text \<open>One turn at the first free slot.\<close>

lemma record_from_turn:
  fixes st
  assumes "recorded_so_far R data rs st"
  defines "i \<equiv> length rs" and "n \<equiv> hs_len (fetch_header st)"
    and "hello \<equiv> sh_unmarshal R (drop recordHeaderLen (take (hs_len (fetch_header st)) (s2cSaved st)))"
  shows "record_from R [i..<7] st =
     (if i = 6 \<and> s2cSaved st = [] then (st, Ready)
      else if hs_len st = 0 \<and> length (s2cSaved st) > recordHeaderLen \<and> bad_header i (s2cSaved st) then (st, Abandon)
      else let st1 = fetch_header st
           in if n > buf_size then (st1, Abandon)
              else if i = 1 \<and> n > 0 \<and> n \<noteq> 6 then (st1, Abandon)
              else if i = 2 \<and> n > 512 then (st1\<lparr>out_lens := (out_lens st)[i := n], out_buf := Some []\<rparr>, Ready)
              else if i = 6 \<and> n > 0 then (st1\<lparr>out_lens := (out_lens st)[i := n]\<rparr>, Ready)
              else if n = 0 \<or> length (s2cSaved st) < n then (st1, More)
              else let st2 = (if i = 0 then st1\<lparr>hs_hello := hello\<rparr> else st1)
                   in if i = 0 \<and> (case hello of None \<Rightarrow> True | Some h \<Rightarrow> \<not> hello_usable h) then (st2, Abandon)
                      else record_from R [Suc i..<7]
                             (st2\<lparr>out_lens := (out_lens st)[i := n], s2cSaved := drop n (s2cSaved st), hs_len := 0\<rparr>))"
proof -
  have upt: "[i..<7] = i # [Suc i..<7]"
    using assms(1) by (simp add: recorded_so_far_def i_def upt_conv_Cons)
  have "out_lens st ! i = 0"
    unfolding i_def by (rule recorded_slot(2) [OF assms(1)])
  then show ?thesis
    unfolding upt record_from.simps(2) n_def hello_def Let_def by (simp only: if_False simp_thms fetch_header_simps)
qed

definition turn_ok :: "reader_ops \<Rightarrow> bytes \<Rightarrow> recording \<Rightarrow> outcome \<Rightarrow> bool" where
  "turn_ok R data st r \<longleftrightarrow>
     (case r of Abandon \<Rightarrow> out_lens st ! 0 = 0 \<longrightarrow> s2cSaved st = data
              | More \<Rightarrow> \<exists>rs. recorded_so_far R data rs st
              | Ready \<Rightarrow> \<exists>rs. recorded R data rs st)"

lemma nothing_taken_off:
  assumes "recorded_so_far R data rs st" "out_lens st ! 0 = 0"
  shows "s2cSaved st = data"
proof (cases rs)
  case Nil
  with assms(1) show ?thesis
    by (simp add: recorded_so_far_def cut_into_def)
next
  case (Cons r rs')
  with recorded_slot(1) [OF assms(1), of 0] assms(2) show ?thesis
    by simp
qed

text \<open>Taking a record off.\<close>

lemma recorded_next:
  assumes "recorded_so_far R data rs st" "started (length rs) st n" "n \<le> length (s2cSaved st)" "n \<le> buf_size"
    "length rs \<noteq> 6" "length rs = 1 \<longrightarrow> n = 6" "length rs = 2 \<longrightarrow> n \<le> 512"
    and hello: "rs = [] \<longrightarrow> (\<exists>h. sh_unmarshal R (drop recordHeaderLen (take n (s2cSaved st))) = Some h \<and> hello_usable h \<and>
      hs_hello st' = Some h)" "rs \<noteq> [] \<longrightarrow> hs_hello st' = hs_hello st"
    and st': "out_lens st' = (out_lens st)[length rs := n]" "s2cSaved st' = drop n (s2cSaved st)" "hs_len st' = 0"
      "out_buf st' = out_buf st"
  shows "recorded_so_far R data (rs @ [take n (s2cSaved st)]) st'"
proof -
  let ?r = "take n (s2cSaved st)"
  have r: "target_record (length rs) ?r"
    using assms by (intro consumed_record) simp_all
  have cut: "data = concat rs @ s2cSaved st" "\<forall>i < length rs. target_record i (rs ! i)" "length rs \<le> 6"
    "out_buf st = None" "rs \<noteq> [] \<longrightarrow> (\<exists>h. sh_unmarshal R (drop recordHeaderLen (rs ! 0)) = Some h \<and>
      hello_usable h \<and> hs_hello st = Some h)"
    using assms(1) unfolding recorded_so_far_def cut_into_def by blast+
  have "data = concat (rs @ [?r]) @ s2cSaved st'"
    using cut(1) st'(2) by simp
  moreover have "\<forall>i < length (rs @ [?r]). target_record i ((rs @ [?r]) ! i)"
    using cut(2) r by (auto simp: nth_append less_Suc_eq)
  moreover have "\<exists>h. sh_unmarshal R (drop recordHeaderLen ((rs @ [?r]) ! 0)) = Some h \<and> hello_usable h \<and> hs_hello st' = Some h"
    using hello cut(5) by (cases "rs = []") (auto simp: nth_append)
  moreover have "out_lens st' = map length (rs @ [?r]) @ replicate (7 - length (rs @ [?r])) 0"
    using assms(3) cut(3) recorded_slot(3) [OF assms(1), of n] by (simp add: st'(1) min_def)
  ultimately show ?thesis
    using cut(3,4) assms(5) st' by (simp add: recorded_so_far_def cut_into_def)
qed

lemma fetch_header_recorded:
  assumes "recorded_so_far R data rs st"
    and "\<not> (hs_len st = 0 \<and> length (s2cSaved st) > recordHeaderLen \<and> bad_header (length rs) (s2cSaved st))"
  shows "recorded_so_far R data rs (fetch_header st)"
  using fetch_header_started [OF assms] assms(1)
  by (simp add: recorded_so_far_def cut_into_def started_def del: neq0_conv)

text \<open>The ways a turn ends without taking a record off.\<close>

lemma recorded_cases:
  assumes "recorded_so_far R data rs st"
  shows "length rs = 6 \<Longrightarrow> s2cSaved st = [] \<Longrightarrow> recorded R data rs st"
    and "length rs = 6 \<Longrightarrow> started 6 st n \<Longrightarrow> recorded R data rs ((fetch_header st)\<lparr>out_lens := (out_lens st)[6 := n]\<rparr>)"
    and "length rs = 2 \<Longrightarrow> started 2 st n \<Longrightarrow> n > 512 \<Longrightarrow>
      recorded R data rs ((fetch_header st)\<lparr>out_lens := (out_lens st)[2 := n], out_buf := Some []\<rparr>)"
proof -
  have cut: "cut_into R data rs st" "out_buf st = None" "out_lens st = map length rs @ replicate (7 - length rs) 0"
    using assms by (simp_all add: recorded_so_far_def)
  show "length rs = 6 \<Longrightarrow> s2cSaved st = [] \<Longrightarrow> recorded R data rs st"
    using cut by (simp add: recorded_def)
  show "length rs = 6 \<Longrightarrow> started 6 st n \<Longrightarrow> recorded R data rs ((fetch_header st)\<lparr>out_lens := (out_lens st)[6 := n]\<rparr>)"
    using cut(1,2) recorded_slot(3) [OF assms, of n] by (simp add: recorded_def cut_into_def started_def)
  have "replicate 4 0 = replicate (6 - 2) (0 :: nat)"
    by simp
  then show "length rs = 2 \<Longrightarrow> started 2 st n \<Longrightarrow> n > 512 \<Longrightarrow>
      recorded R data rs ((fetch_header st)\<lparr>out_lens := (out_lens st)[2 := n], out_buf := Some []\<rparr>)"
    using cut(1) recorded_slot(3) [OF assms, of n] by (simp add: recorded_def cut_into_def started_def)
qed

lemma record_from_sound:
  assumes "recorded_so_far R data rs st" "record_from R [length rs..<7] st = (st', r)"
  shows "turn_ok R data st' r"
  using assms
proof (induction "6 - length rs" arbitrary: rs st rule: less_induct)
  case less
  let ?i = "length rs" and ?st1 = "fetch_header st" and ?s = "s2cSaved st"
  let ?n = "hs_len ?st1"
  let ?hello = "sh_unmarshal R (drop recordHeaderLen (take ?n ?s))"
  let ?st2 = "if ?i = 0 then ?st1\<lparr>hs_hello := ?hello\<rparr> else ?st1"
  let ?st3 = "?st2\<lparr>out_lens := (out_lens st)[?i := ?n], s2cSaved := drop ?n ?s, hs_len := 0\<rparr>"
  note turn = record_from_turn [OF less.prems(1), unfolded less.prems(2) Let_def]
  have i: "?i \<le> 6"
    using less.prems(1) by (simp add: recorded_so_far_def)
  have none: "out_lens st ! 0 = 0 \<Longrightarrow> ?s = data"
    by (rule nothing_taken_off [OF less.prems(1)])
  consider (ready0) "?i = 6" "?s = []"
    | (bad) "\<not> (?i = 6 \<and> ?s = [])" "hs_len st = 0 \<and> length ?s > recordHeaderLen \<and> bad_header ?i ?s"
    | (good) "\<not> (?i = 6 \<and> ?s = [])" "\<not> (hs_len st = 0 \<and> length ?s > recordHeaderLen \<and> bad_header ?i ?s)"
    by blast
  then show ?case
  proof cases
    case good
    note start = fetch_header_started [OF less.prems(1) good(2)]
    consider (long) "?n > buf_size \<or> ?i = 1 \<and> ?n > 0 \<and> ?n \<noteq> 6"
      | (one) "\<not> ?n > buf_size" "?i = 2" "?n > 512"
      | (ticket) "\<not> ?n > buf_size" "?i = 6" "?n > 0"
      | (more) "\<not> ?n > buf_size" "\<not> (?i = 1 \<and> ?n > 0 \<and> ?n \<noteq> 6)" "\<not> (?i = 2 \<and> ?n > 512)" "\<not> (?i = 6 \<and> ?n > 0)"
          "?n = 0 \<or> length ?s < ?n"
      | (off) "\<not> ?n > buf_size" "\<not> (?i = 1 \<and> ?n > 0 \<and> ?n \<noteq> 6)" "\<not> (?i = 2 \<and> ?n > 512)" "?i \<noteq> 6" "?n \<noteq> 0" "?n \<le> length ?s"
      by fastforce
    then show ?thesis
    proof cases
      case long
      then have "st' = ?st1 \<and> r = Abandon"
        using turn good by (auto split: if_splits)
      then show ?thesis
        using none by (simp add: turn_ok_def)
    next
      case one
      with turn good start recorded_cases(3) [OF less.prems(1), of ?n] show ?thesis
        by (auto simp: turn_ok_def)
    next
      case ticket
      with turn good start recorded_cases(2) [OF less.prems(1), of ?n] show ?thesis
        by (auto simp: turn_ok_def)
    next
      case more
      then have "(st', r) = (?st1, More)"
        using turn good by (simp only: if_False if_True simp_thms if_cancel split: if_split)
      then show ?thesis
        using fetch_header_recorded [OF less.prems(1) good(2)] by (auto simp: turn_ok_def)
    next
      case off
      show ?thesis
      proof (cases "?i = 0 \<and> (case ?hello of None \<Rightarrow> True | Some h \<Rightarrow> \<not> hello_usable h)")
        case True
        then have "st' = ?st2 \<and> r = Abandon"
          using turn good off by auto
        then show ?thesis
          using none by (simp add: turn_ok_def)
      next
        case False
        have "recorded_so_far R data (rs @ [take ?n ?s]) ?st3"
          using less.prems(1)
        proof (rule recorded_next)
          show "rs = [] \<longrightarrow> (\<exists>h. ?hello = Some h \<and> hello_usable h \<and> hs_hello ?st3 = Some h)"
            using False by (auto split: option.splits)
        qed (use start off in auto)
        moreover have "record_from R [length (rs @ [take ?n ?s])..<7] ?st3 = (st', r)"
          using turn good off(1-5) off(6) [folded not_less] False
          by (simp only: if_False simp_thms length_append list.size add_0_right add_Suc_right)
        ultimately show ?thesis
          by (rule less.hyps [rotated]) (use off i in auto)
      qed
    qed
  qed (use turn recorded_cases(1) [OF less.prems(1)] none in \<open>auto simp: turn_ok_def\<close>)
qed

text \<open>More data does not change what the header says.\<close>

lemma header_append:
  assumes "length s > recordHeaderLen"
  shows "bad_header i (s @ t) = bad_header i s" "record_len (s @ t) = record_len s"
proof -
  have "take 2 (drop 1 (s @ t)) = take 2 (drop 1 s)" "take 2 (drop 3 (s @ t)) = take 2 (drop 3 s)"
    using assms by (simp_all add: recordHeaderLen_def)
  moreover have "(s @ t) ! 0 = s ! 0" "(s @ t) ! 5 = s ! 5"
    using assms by (auto simp: nth_append recordHeaderLen_def)
  ultimately show "bad_header i (s @ t) = bad_header i s" "record_len (s @ t) = record_len s"
    by (simp_all only: bad_header_def record_len_def)
qed

lemma recorded_append:
  assumes "recorded_so_far R data rs st"
  shows "recorded_so_far R (data @ chunk) rs (st\<lparr>s2cSaved := s2cSaved st @ chunk\<rparr>)"
  using assms header_append(1) [of "s2cSaved st" "length rs" chunk] header_append(2) [of "s2cSaved st" chunk]
  by (auto simp: recorded_so_far_def cut_into_def started_def simp del: neq0_conv)

lemma target_section_sound:
  assumes "recorded_so_far R data rs st" "target_section R True False copying st chunk = (c, st', r)"
  shows "turn_ok R (data @ chunk) st' r"
proof -
  let ?st = "st\<lparr>s2cSaved := s2cSaved st @ chunk\<rparr>"
  note rec = recorded_append [OF assms(1), of chunk]
  show ?thesis
  proof (cases "length (s2cSaved st @ chunk) > buf_size")
    case False
    then have "record_from R [0..<7] ?st = (st', r)"
      using assms(2) by (auto simp: target_section_def Let_def split: prod.splits)
    then have "record_from R [length rs..<7] ?st = (st', r)"
      using record_from_skip [OF rec, of 0] by simp
    with rec show ?thesis
      by (rule record_from_sound)
  next
    case True
    then have "st' = ?st" "r = Abandon"
      using assms(2) by (simp_all add: target_section_def)
    then show ?thesis
      using nothing_taken_off [OF rec] by (simp add: turn_ok_def)
  qed
qed

lemma record_all_sound:
  assumes "recorded_so_far R data rs st" "record_all R st chunks = (st', Ready, left)"
  shows "\<exists>used rs'. chunks = used @ left \<and> recorded R (data @ concat used) rs' st'"
  using assms
proof (induction chunks arbitrary: data rs st)
  case (Cons chunk chunks)
  obtain c st1 r where t: "target_section R True False False st chunk = (c, st1, r)"
    using prod_cases3 by blast
  note ok = target_section_sound [OF Cons.prems(1) t]
  show ?case
  proof (cases r)
    case More
    then obtain rs1 where "recorded_so_far R (data @ chunk) rs1 st1"
      using ok by (auto simp: turn_ok_def)
    then obtain used rs' where "chunks = used @ left" "recorded R ((data @ chunk) @ concat used) rs' st'"
      using Cons.IH Cons.prems(2) t More by fastforce
    then show ?thesis
      by (intro exI [of _ "chunk # used"] exI [of _ rs']) simp
  next
    case Ready
    then have "st' = st1" "left = chunks"
      using Cons.prems(2) t by simp_all
    moreover obtain rs' where "recorded R (data @ chunk) rs' st1"
      using ok Ready by (auto simp: turn_ok_def)
    ultimately show ?thesis
      by (intro exI [of _ "[chunk]"] exI [of _ rs']) simp
  qed (use Cons.prems(2) t in simp)
qed simp

lemma recorded_init: "recorded_so_far R [] [] recording_init"
  by (simp add: recorded_so_far_def cut_into_def recording_init_def)

text \<open>C7: when the handshake starts, \<open>out.handshakeLen\<close> holds lengths of records of the target: what was
  read of it, in whatever pieces, is a run of TLS 1.2 records with the types of a TLS 1.3 server
  flight, the first a usable ServerHello, and the noted lengths are theirs, in order; only for the
  last one is it the length its header announces, for a session ticket, or for one record with the
  whole encrypted part, which then is collected into one record.\<close>

theorem recorded_lengths:
  assumes "record_all R recording_init chunks = (st, Ready, left)"
  shows "\<exists>used rs. chunks = used @ left \<and> recorded R (concat used) rs st"
  using record_all_sound [OF recorded_init assms] by simp

section \<open>A well-formed flight is recognised\<close>

text \<open>The six records a TLS 1.3 server sends without a ticket, none empty.\<close>

definition server_flight :: "reader_ops \<Rightarrow> bytes list \<Rightarrow> bool" where
  "server_flight R rs \<longleftrightarrow> length rs = 6 \<and>
     (\<forall>i < 6. target_record i (rs ! i) \<and> length (rs ! i) > recordHeaderLen) \<and>
     (\<exists>h. sh_unmarshal R (drop recordHeaderLen (rs ! 0)) = Some h \<and> hello_usable h) \<and>
     length (concat rs) \<le> buf_size"

lemma flight_header:
  assumes "server_flight R rs" "i < 6" "s @ later = concat (drop i rs)" "length s > recordHeaderLen"
  shows "\<not> bad_header i s" "record_len s = length (rs ! i)"
proof -
  have r: "target_record i (rs ! i)" "length (rs ! i) > recordHeaderLen" "i < length rs"
    using assms(1,2) by (simp_all add: server_flight_def)
  then have s: "s @ later = rs ! i @ concat (drop (Suc i) rs)"
    using assms(3) Cons_nth_drop_Suc [of i rs] by (metis concat.simps(2))
  have "bad_header i s = bad_header i (rs ! i)" "record_len s = record_len (rs ! i)"
    using header_append(1) [OF assms(4), of i later] header_append(2) [OF assms(4), of later]
      header_append(1) [OF r(2), of i "concat (drop (Suc i) rs)"] header_append(2) [OF r(2), of "concat (drop (Suc i) rs)"]
    by (simp_all add: s)
  moreover have "\<not> bad_header i (rs ! i)"
    by (rule target_record_header [OF r(1,2)])
  moreover have "record_len (rs ! i) = length (rs ! i)"
    by (rule target_recordD(3) [OF r(1)])
  ultimately show "\<not> bad_header i s" "record_len s = length (rs ! i)"
    by simp_all
qed

lemma record_from_flight:
  assumes "server_flight R rs"
    and "recorded_so_far R data (take k rs) st" "k \<le> 6" "concat rs = data @ later"
    and "record_from R [k..<7] st = (st', r)"
  shows "r = Ready \<and> later = [] \<and> out_lens st' = map length rs @ [0] \<or>
     r = More \<and> later \<noteq> [] \<and> (\<exists>k' \<le> 6. recorded_so_far R data (take k' rs) st')"
  using assms(2-)
proof (induction "6 - k" arbitrary: k st rule: less_induct)
  case less
  let ?rs = "take k rs"
  have len: "length rs = 6" "length ?rs = k"
    using assms(1) less.prems by (simp_all add: server_flight_def)
  have cut: "data = concat ?rs @ s2cSaved st"
    using less.prems(1) by (simp add: recorded_so_far_def cut_into_def)
  have rest: "s2cSaved st @ later = concat (drop k rs)"
  proof -
    have "concat rs = concat ?rs @ concat (drop k rs)"
      by (simp flip: concat_append)
    with cut less.prems(3) show ?thesis
      by simp
  qed
  note turn = record_from_turn [OF less.prems(1), unfolded len(2) less.prems(4) Let_def]
  show ?case
  proof (cases "k = 6")
    case True
    then have "s2cSaved st = []" "later = []"
      using rest len by simp_all
    then show ?thesis
      using turn True less.prems(1) len by (simp add: recorded_so_far_def)
  next
    case False
    then have k: "k < 6"
      using less.prems(2) by simp
    let ?n = "hs_len (fetch_header st)"
    have r: "target_record k (rs ! k)" "length (rs ! k) > 5"
      using assms(1) k by (simp_all add: server_flight_def recordHeaderLen_def)
    have split: "s2cSaved st @ later = rs ! k @ concat (drop (Suc k) rs)"
      using rest k len(1) Cons_nth_drop_Suc [of k rs] by (metis concat.simps(2))
    note head = flight_header [OF assms(1) k rest]
    have bad: "\<not> (hs_len st = 0 \<and> length (s2cSaved st) > recordHeaderLen \<and> bad_header k (s2cSaved st))"
      using head(1) by blast
    have start: "?n = 0 \<or> started k st ?n"
      using fetch_header_started [OF less.prems(1), unfolded len(2), OF bad] .
    then have n: "?n = 0 \<or> ?n = length (rs ! k)"
      using head(2) by (auto simp: started_def)
    have n0: "?n = 0 \<Longrightarrow> length (s2cSaved st) \<le> 5"
      by (auto simp: fetch_header_def recordHeaderLen_def record_len_def split: if_splits)
    have fits: "\<not> ?n > buf_size" "\<not> (k = 1 \<and> ?n > 0 \<and> ?n \<noteq> 6)" "\<not> (k = 2 \<and> ?n > 512)"
      using n target_recordD(2,5,6) [OF r(1)] by auto
    show ?thesis
    proof (cases "?n = 0 \<or> length (s2cSaved st) < ?n")
      case True
      then have "(st', r) = (fetch_header st, More)"
        using turn False bad fits by (simp only: if_False if_True simp_thms)
      moreover have "later \<noteq> []"
        using True n n0 r(2) arg_cong [OF split, of length] by auto
      ultimately show ?thesis
        using fetch_header_recorded [OF less.prems(1), unfolded len(2), OF bad] less.prems(2) by auto
    next
      case False2: False
      then have off: "?n = length (rs ! k)" "take ?n (s2cSaved st) = rs ! k"
      proof -
        show "?n = length (rs ! k)"
          using n False2 by blast
        then show "take ?n (s2cSaved st) = rs ! k"
          using arg_cong [OF split, of "take ?n"] False2 by simp
      qed
      let ?hello = "sh_unmarshal R (drop recordHeaderLen (take ?n (s2cSaved st)))"
      let ?st2 = "if k = 0 then (fetch_header st)\<lparr>hs_hello := ?hello\<rparr> else fetch_header st"
      let ?st3 = "?st2\<lparr>out_lens := (out_lens st)[k := ?n], s2cSaved := drop ?n (s2cSaved st), hs_len := 0\<rparr>"
      have hello: "k = 0 \<Longrightarrow> \<exists>h. ?hello = Some h \<and> hello_usable h"
        using assms(1) off by (auto simp: server_flight_def)
      have "recorded_so_far R data (?rs @ [take ?n (s2cSaved st)]) ?st3"
        using less.prems(1)
      proof (rule recorded_next)
        show "started (length ?rs) st ?n"
          using start False2 unfolding len(2) by blast
        show "?rs = [] \<longrightarrow> (\<exists>h. ?hello = Some h \<and> hello_usable h \<and> hs_hello ?st3 = Some h)"
          using hello len by auto
      qed (use False2 fits False len in auto)
      then have "recorded_so_far R data (take (Suc k) rs) ?st3"
        using off k len(1) by (simp add: take_Suc_conv_app_nth)
      moreover have "record_from R [Suc k..<7] ?st3 = (st', r)"
      proof -
        have "\<not> (k = 0 \<and> (case ?hello of None \<Rightarrow> True | Some h \<Rightarrow> \<not> hello_usable h))"
          using hello by (cases "k = 0") auto
        then show ?thesis
          using turn False bad fits False2 by (simp only: if_False simp_thms)
      qed
      ultimately show ?thesis
        using less.hyps [of "Suc k" ?st3] less.prems(3) k by simp
    qed
  qed
qed

lemma record_all_flight:
  assumes "server_flight R rs"
  shows "recorded_so_far R data (take k rs) st \<Longrightarrow> k \<le> 6 \<Longrightarrow> concat rs = data @ concat chunks \<Longrightarrow>
     [] \<notin> set chunks \<Longrightarrow> chunks \<noteq> [] \<Longrightarrow>
     \<exists>st'. record_all R st chunks = (st', Ready, []) \<and> out_lens st' = map length rs @ [0]"
proof (induction chunks arbitrary: data k st)
  case (Cons chunk chunks)
  let ?st = "st\<lparr>s2cSaved := s2cSaved st @ chunk\<rparr>"
  have len: "length (take k rs) = k"
    using assms Cons.prems(2) by (simp add: server_flight_def)
  obtain st1 r where f: "record_from R [k..<7] ?st = (st1, r)"
    by fastforce
  have all: "concat rs = (data @ chunk) @ concat chunks"
    using Cons.prems(3) by simp
  note rec = recorded_append [OF Cons.prems(1), of chunk]
  have "length (s2cSaved st @ chunk) \<le> length (concat rs)"
    using Cons.prems(1) by (simp add: all recorded_so_far_def cut_into_def)
  then have "\<not> length (s2cSaved st @ chunk) > buf_size"
    using assms by (simp add: server_flight_def)
  then have t: "target_section R True False False st chunk = (False, st1, r)"
    using f record_from_skip [OF rec, of 0, unfolded len] by (simp add: target_section_def)
  from record_from_flight [OF assms rec Cons.prems(2) all f] show ?case
  proof (elim disjE conjE exE)
    assume "r = Ready" "concat chunks = []" "out_lens st1 = map length rs @ [0]"
    moreover from this have "chunks = []"
      using Cons.prems(4) by (cases chunks) auto
    ultimately show ?thesis
      using t by simp
  next
    fix k'
    assume "r = More" "concat chunks \<noteq> []" "k' \<le> 6" "recorded_so_far R (data @ chunk) (take k' rs) st1"
    moreover from this have "chunks \<noteq> []"
      by auto
    ultimately show ?thesis
      using Cons.IH [of "data @ chunk" k' st1] Cons.prems(4) all t by auto
  qed
qed simp

text \<open>C8: a target with a regular flight is always recognised: whenever the six records of a TLS 1.3 server
  without a ticket arrive, with a usable ServerHello, a ChangeCipherSpec and an EncryptedExtensions
  record of at most 512 bytes, 8192 bytes in all, then however the network cuts them into reads the
  handshake starts with exactly their lengths and nothing left over.\<close>

theorem flight_recognised:
  assumes "server_flight R rs" and "concat chunks = concat rs" and "[] \<notin> set chunks"
  shows "\<exists>st. record_all R recording_init chunks = (st, Ready, []) \<and> out_lens st = map length rs @ [0]"
proof -
  have "length (rs ! 0) > recordHeaderLen" "length rs > 0"
    using assms(1) by (simp_all add: server_flight_def)
  then have "concat rs \<noteq> []"
    by (cases rs) auto
  then have "chunks \<noteq> []"
    using assms(2) by auto
  with record_all_flight [OF assms(1), of "[]" 0] recorded_init assms(2,3) show ?thesis
    by simp
qed

definition demo_flight :: "bytes list" where
  "demo_flight =
     [[22, 3, 3, 0, 90, 2, 0, 0, 86, 3, 3] @ replicate 32 7 @ [0, 0x13, 1, 0, 0, 46, 0, 43, 0, 2, 3, 4, 0, 51, 0, 36, 0, 29, 0, 32] @
        replicate 32 9,
      [20, 3, 3, 0, 1, 1], [23, 3, 3, 0, 2, 1, 2], [23, 3, 3, 0, 3, 4, 5, 6], [23, 3, 3, 0, 1, 8], [23, 3, 3, 0, 2, 5, 5]]"

lemma demo_server_flight: "server_flight ref_reader demo_flight"
proof -
  have "target_record i (demo_flight ! i) \<and> length (demo_flight ! i) > recordHeaderLen" if "i < 6" for i
  proof -
    have "i \<in> {0, 1, 2, 3, 4, 5}"
      using that by auto
    then show ?thesis
      by (auto simp: target_record_def demo_flight_def recordHeaderLen_def buf_size_def get_be_def get_u16_def
          version_ids record_types typeServerHello_def)
  qed
  moreover have "case sh_unmarshal ref_reader (drop recordHeaderLen (demo_flight ! 0)) of None \<Rightarrow> False | Some h \<Rightarrow> hello_usable h"
    by code_simp
  moreover have "length (concat demo_flight) \<le> buf_size" "length demo_flight = 6"
    by (simp_all add: demo_flight_def buf_size_def)
  ultimately show ?thesis
    by (auto simp: server_flight_def split: option.splits)
qed

theorem recorded_lengths_witness:
  "\<exists>st used rs. record_all ref_reader recording_init demo_flight = (st, Ready, []) \<and> demo_flight = used \<and>
     recorded ref_reader (concat used) rs st \<and> out_lens st = [95, 6, 7, 8, 6, 7, 0]"
proof -
  have "[] \<notin> set demo_flight" "demo_flight \<noteq> []"
    by (simp_all add: demo_flight_def)
  then obtain st where st: "record_all ref_reader recording_init demo_flight = (st, Ready, [])"
    "out_lens st = map length demo_flight @ [0]"
    using record_all_flight [OF demo_server_flight, of "[]" 0 recording_init demo_flight] recorded_init by auto
  moreover have "map length demo_flight @ [0] = [95, 6, 7, 8, 6, 7, 0]"
    by (simp add: demo_flight_def)
  ultimately show ?thesis
    using recorded_lengths [OF st(1)] by auto
qed

theorem flight_recognised_witness:
  "\<exists>st. record_all ref_reader recording_init (map (\<lambda>b. [b]) (concat demo_flight)) = (st, Ready, []) \<and>
     out_lens st = map length demo_flight @ [0]"
  using flight_recognised [OF demo_server_flight, of "map (\<lambda>b. [b]) (concat demo_flight)"] by (auto simp: concat_map_singleton)

end
