(* ===== verification/Conn.thy ===== *)
theory Conn
  imports RecordChannel Messages12
begin

text \<open>
  The record layer of a connection: \<open>conn.go\<close> from \<open>readRecordOrCCS\<close> to
  \<open>writeChangeCipherRecord\<close>, for connections that are not QUIC (\<open>c.quic\<close> is nil).  The transport is a
  list of what the next reads return and of what the next writes return; when the first is used up
  the peer has closed, when the second is, writes succeed until the write deadline has passed.  Functions return the connection next to
  their result, so that the state an error leaves behind is visible.  \<open>Ret ()\<close> is a nil error.
\<close>

section \<open>The connection\<close>

record ('s, 'a, 'c, 'm) conn =
  isClient :: bool
  c_vers :: u16
  haveVers :: bool
  isHandshakeComplete :: bool
  handshakeErr :: "err option"
  handshakes :: nat
  c_cipherSuite :: u16
  Renegotiation :: int
  closeNotifyErr :: "err option"
  closeNotifySent :: bool
  activeCall :: int
  c_in :: "('s, 'a, 'c, 'm) halfConn"
  c_out :: "('s, 'a, 'c, 'm) halfConn"
  rawInput :: bytes
  c_input :: bytes
  hand :: bytes
  buffering :: bool
  sendBuf :: bytes
  bytesSent :: nat
  packetsSent :: nat
  retryCount :: nat
  DynamicRecordSizingDisabled :: bool
  c_rand :: "nat \<Rightarrow> rand_source"     \<comment> \<open>what \<open>config.rand()\<close> yields for each record\<close>
  c_draws :: nat
  net_in :: "(bytes \<times> err option) list"
  net_wr :: "(nat \<times> err option) list"
  net_out :: bytes
  write_expired :: bool      \<comment> \<open>the deadline set by \<open>SetWriteDeadline\<close> has passed\<close>
  net_close :: "err option"  \<comment> \<open>what \<open>Close\<close> of the transport returns\<close>
  net_closed :: bool

definition err_exec :: "err option \<Rightarrow> unit exec" where
  "err_exec e = (case e of None \<Rightarrow> Ret () | Some e \<Rightarrow> Fail e)"

text \<open>\<open>c.in.setErrorLocked(e)\<close> and \<open>c.out.setErrorLocked(e)\<close>.\<close>

definition in_setErrorLocked ::
  "('s, 'a, 'c, 'm) conn \<Rightarrow> err option \<Rightarrow> ('s, 'a, 'c, 'm) conn \<times> unit exec" where
  "in_setErrorLocked c e = (let (h, e) = setErrorLocked (c_in c) e in (c\<lparr>c_in := h\<rparr>, err_exec e))"

definition out_setErrorLocked ::
  "('s, 'a, 'c, 'm) conn \<Rightarrow> err option \<Rightarrow> ('s, 'a, 'c, 'm) conn \<times> unit exec" where
  "out_setErrorLocked c e = (let (h, e) = setErrorLocked (c_out c) e in (c\<lparr>c_out := h\<rparr>, err_exec e))"

section \<open>Writing\<close>

definition net_write :: "('s, 'a, 'c, 'm) conn \<Rightarrow> bytes \<Rightarrow> ('s, 'a, 'c, 'm) conn \<times> nat \<times> err option" where
  "net_write c data =
     (if write_expired c then (c, 0, Some (NetError ''i/o timeout'' True))
      else case net_wr c of
        [] \<Rightarrow> (c\<lparr>net_out := net_out c @ data\<rparr>, length data, None)
      | (n, e) # ws \<Rightarrow> (c\<lparr>net_wr := ws, net_out := net_out c @ take n data\<rparr>, n, e))"

definition conn_write :: "('s, 'a, 'c, 'm) conn \<Rightarrow> bytes \<Rightarrow> ('s, 'a, 'c, 'm) conn \<times> nat \<times> err option" where
  "conn_write c data =
     (if buffering c then (c\<lparr>sendBuf := sendBuf c @ data\<rparr>, length data, None)
      else let (c, n, e) = net_write c data in (c\<lparr>bytesSent := bytesSent c + n\<rparr>, n, e))"

definition conn_flush :: "('s, 'a, 'c, 'm) conn \<Rightarrow> ('s, 'a, 'c, 'm) conn \<times> nat \<times> err option" where
  "conn_flush c =
     (if sendBuf c = [] then (c, 0, None)
      else let (c, n, e) = net_write c (sendBuf c)
           in (c\<lparr>bytesSent := bytesSent c + n, sendBuf := [], buffering := False\<rparr>, n, e))"

definition tcpMSSEstimate :: int where "tcpMSSEstimate = 1208"
definition recordSizeBoostThreshold :: nat where "recordSizeBoostThreshold = 128 * 1024"

definition cipher_payload ::
  "('s, 'a, 'c, 'm) cipher_ops \<Rightarrow> ('s, 'a, 'c, 'm) halfConn \<Rightarrow> int \<Rightarrow> int exec" where
  "cipher_payload K hc payloadBytes =
     (case hc_cipher hc of
        NilCipher \<Rightarrow> Ret payloadBytes
      | Aead a \<Rightarrow> Ret (payloadBytes - int (o_Overhead K a))
      | Stream _ \<Rightarrow>
          (case mac hc of None \<Rightarrow> Panic ''nil pointer dereference''
                        | Some m \<Rightarrow> Ret (payloadBytes - int (o_MacSize K m)))
      | CBC x \<Rightarrow>
          (case mac hc of None \<Rightarrow> Panic ''nil pointer dereference''
                        | Some m \<Rightarrow>
              Ret ((payloadBytes AND NOT (int (o_BlockSize K x) - 1)) - 1 - int (o_MacSize K m))))"

definition maxPayloadSizeForWrite ::
  "('s, 'a, 'c, 'm) cipher_ops \<Rightarrow> ('s, 'a, 'c, 'm) conn \<Rightarrow> byte \<Rightarrow> ('s, 'a, 'c, 'm) conn \<times> int exec" where
  "maxPayloadSizeForWrite K c typ =
     (if DynamicRecordSizingDisabled c \<or> typ \<noteq> recordTypeApplicationData then (c, Ret (int maxPlaintext))
      else if bytesSent c \<ge> recordSizeBoostThreshold then (c, Ret (int maxPlaintext))
      else case cipher_payload K (c_out c)
                  (tcpMSSEstimate - int recordHeaderLen - int (explicitNonceLen K (c_out c))) of
             Ret payloadBytes \<Rightarrow>
               let payloadBytes = (if c_vers c = VersionTLS13 then payloadBytes - 1 else payloadBytes);
                   pkt = packetsSent c;
                   c = c\<lparr>packetsSent := pkt + 1\<rparr>
               in if pkt > 1000 then (c, Ret (int maxPlaintext))
                  else let n = payloadBytes * int (pkt + 1)
                       in (c, Ret (if n > int maxPlaintext then int maxPlaintext else n))
           | Fail e \<Rightarrow> (c, Fail e)
           | Panic p \<Rightarrow> (c, Panic p))"

text \<open>The version in the header of a record.\<close>

definition wire_vers :: "u16 \<Rightarrow> u16" where
  "wire_vers vers =
     (if vers = 0 then VersionTLS10 else if vers = VersionTLS13 then VersionTLS12 else vers)"

text \<open>One turn of the loop of \<open>writeRecordLocked\<close>; the result is the number of bytes written.\<close>

definition write_one ::
  "('s, 'a, 'c, 'm) cipher_ops \<Rightarrow> ('s, 'a, 'c, 'm) conn \<Rightarrow> byte \<Rightarrow> bytes
     \<Rightarrow> ('s, 'a, 'c, 'm) conn \<times> nat exec" where
  "write_one K c typ data =
     (let (c, r) = maxPayloadSizeForWrite K c typ
      in case r of
           Fail e \<Rightarrow> (c, Fail e)
         | Panic p \<Rightarrow> (c, Panic p)
         | Ret maxPayload \<Rightarrow>
             if int (length data) > maxPayload \<and> maxPayload < 0
             then (c, Panic ''slice bounds out of range'')
             else let m = (if int (length data) > maxPayload then nat maxPayload else length data);
                      (h, r) = encrypt K (c_out c) (record_header typ (wire_vers (c_vers c)) m) (take m data)
                                 (c_rand c (c_draws c));
                      c = c\<lparr>c_out := h, c_draws := c_draws c + 1\<rparr>
                  in case r of
                       Fail e \<Rightarrow> (c, Fail e)
                     | Panic p \<Rightarrow> (c, Panic p)
                     | Ret outBuf \<Rightarrow>
                         let (c, _, e) = conn_write c outBuf
                         in (c, case e of None \<Rightarrow> Ret m | Some e \<Rightarrow> Fail e))"

text \<open>Every turn either sends data or counts a packet, so the loop ends.\<close>

lemma maxPayload_frame:
  "maxPayloadSizeForWrite K c typ = (c', r) \<Longrightarrow> c' = c\<lparr>packetsSent := packetsSent c'\<rparr> \<and>
     (packetsSent c' = packetsSent c \<and> (r = Ret x \<longrightarrow> x = int maxPlaintext) \<or>
      packetsSent c' = Suc (packetsSent c) \<and> (packetsSent c > 1000 \<longrightarrow> r = Ret (int maxPlaintext)))"
  by (auto simp: maxPayloadSizeForWrite_def Let_def split: if_splits exec.splits)

lemma conn_write_frame:
  "conn_write c d = (c', n, e) \<Longrightarrow> packetsSent c' = packetsSent c \<and> c_out c' = c_out c \<and> c_vers c' = c_vers c"
  by (auto simp: conn_write_def net_write_def split: if_splits list.splits)

lemma write_one_progress:
  assumes "write_one K c typ data = (c', Ret m)" "data \<noteq> []"
  shows "length (drop m data) + (1001 - packetsSent c') < length data + (1001 - packetsSent c)"
proof -
  obtain c1 r where p: "maxPayloadSizeForWrite K c typ = (c1, r)"
    by fastforce
  then obtain x where x: "r = Ret x" "m = (if int (length data) > x then nat x else length data)"
      "packetsSent c' = packetsSent c1"
    using assms(1)
    by (auto simp: write_one_def Let_def dest!: conn_write_frame split: prod.splits exec.splits if_splits option.splits)
  show ?thesis
    using maxPayload_frame [OF p, of x] x assms(2)
    by (cases data) (auto simp: maxPlaintext_def split: if_splits)
qed

function write_loop ::
  "('s, 'a, 'c, 'm) cipher_ops \<Rightarrow> byte \<Rightarrow> ('s, 'a, 'c, 'm) conn \<Rightarrow> bytes \<Rightarrow> nat
     \<Rightarrow> ('s, 'a, 'c, 'm) conn \<times> nat \<times> unit exec" where
  "write_loop K typ c data n =
     (if data = [] then (c, n, Ret ())
      else case write_one K c typ data of
             (c, Ret m) \<Rightarrow> write_loop K typ c (drop m data) (n + m)
           | (c, Fail e) \<Rightarrow> (c, n, Fail e)
           | (c, Panic p) \<Rightarrow> (c, n, Panic p))"
  by auto
termination
  by (relation "measure (\<lambda>(K, typ, c, data, n). length data + (1001 - packetsSent c))")
    (auto dest!: write_one_progress [OF sym] simp del: length_drop)

declare write_loop.simps [simp del]

section \<open>Alerts\<close>

text \<open>
  \<open>writeRecordLocked\<close> and \<open>sendAlertLocked\<close> call each other, but an alert record does not get
  to the second call: for it \<open>writeRecordLocked\<close> is the loop.
\<close>

definition alert_level :: "byte \<Rightarrow> byte" where
  "alert_level a = (if a = alertNoRenegotiation \<or> a = alertCloseNotify then alertLevelWarning else alertLevelError)"

definition sendAlertLocked ::
  "('s, 'a, 'c, 'm) cipher_ops \<Rightarrow> ('s, 'a, 'c, 'm) conn \<Rightarrow> byte \<Rightarrow> ('s, 'a, 'c, 'm) conn \<times> unit exec" where
  "sendAlertLocked K c a =
     (let (c, _, w) = write_loop K recordTypeAlert c [alert_level a, a] 0
      in case w of
           Panic p \<Rightarrow> (c, Panic p)
         | _ \<Rightarrow> if a = alertCloseNotify then (c, w)
                else out_setErrorLocked c (Some (OpError ''local error'' a)))"

definition sendAlert ::
  "('s, 'a, 'c, 'm) cipher_ops \<Rightarrow> ('s, 'a, 'c, 'm) conn \<Rightarrow> byte \<Rightarrow> ('s, 'a, 'c, 'm) conn \<times> unit exec" where
  "sendAlert K c a = sendAlertLocked K c a"

definition writeRecordLocked ::
  "('s, 'a, 'c, 'm) cipher_ops \<Rightarrow> ('s, 'a, 'c, 'm) conn \<Rightarrow> byte \<Rightarrow> bytes
     \<Rightarrow> ('s, 'a, 'c, 'm) conn \<times> nat \<times> unit exec" where
  "writeRecordLocked K c typ data =
     (let (c, n, r) = write_loop K typ c data 0
      in if r = Ret () \<and> typ = recordTypeChangeCipherSpec \<and> c_vers c \<noteq> VersionTLS13
         then (case changeCipherSpec (c_out c) of
                 Ret h \<Rightarrow> (c\<lparr>c_out := h\<rparr>, n, Ret ())
               | Fail (ErrAlert a) \<Rightarrow> let (c, r) = sendAlertLocked K c a in (c, n, r)
               | _ \<Rightarrow> (c, n, Panic ''interface conversion''))
         else (c, n, r))"

section \<open>Reading from the transport\<close>

text \<open>
  \<open>rawInput.ReadFrom(&atLeastReader{r, needs})\<close>: \<open>N\<close> is the number of bytes still needed.  \<open>ReadFrom\<close>
  turns \<open>io.EOF\<close> into nil.
\<close>

fun read_loop ::
  "int \<Rightarrow> (bytes \<times> err option) list \<Rightarrow> bytes \<Rightarrow> (bytes \<times> err option) list \<times> bytes \<times> err option" where
  "read_loop N [] buf = ([], buf, if N \<le> 0 then None else Some ErrUnexpectedEOF)"
| "read_loop N ((bs, e) # evs) buf =
     (if N \<le> 0 then ((bs, e) # evs, buf, None)
      else let N = N - int (length bs);
               e = (if N > 0 \<and> e = Some ErrEOF then Some ErrUnexpectedEOF
                    else if N \<le> 0 \<and> e = None then Some ErrEOF else e)
           in case e of
                None \<Rightarrow> read_loop N evs (buf @ bs)
              | Some e \<Rightarrow> (evs, buf @ bs, if e = ErrEOF then None else Some e))"

definition readFromUntil :: "('s, 'a, 'c, 'm) conn \<Rightarrow> nat \<Rightarrow> ('s, 'a, 'c, 'm) conn \<times> err option" where
  "readFromUntil c n =
     (if length (rawInput c) \<ge> n then (c, None)
      else let (evs, buf, e) = read_loop (int n - int (length (rawInput c))) (net_in c) (rawInput c)
           in (c\<lparr>net_in := evs, rawInput := buf\<rparr>, e))"

section \<open>\<open>readRecordOrCCS\<close>\<close>

text \<open>
  A part of a function: \<open>Inl r\<close> when the function returns \<open>r\<close> there, \<open>Inr x\<close> when it goes on
  with \<open>x\<close>.
\<close>

definition returning ::
  "('s, 'a, 'c, 'm) conn \<times> unit exec \<Rightarrow> ('s, 'a, 'c, 'm) conn \<times> (unit exec + 'x)" where
  "returning = (\<lambda>(c, r). (c, Inl r))"

text \<open>\<open>return c.in.setErrorLocked(c.sendAlert(a))\<close>.\<close>

definition in_alert ::
  "('s, 'a, 'c, 'm) cipher_ops \<Rightarrow> ('s, 'a, 'c, 'm) conn \<Rightarrow> byte \<Rightarrow> ('s, 'a, 'c, 'm) conn \<times> unit exec" where
  "in_alert K c a =
     (let (c, r) = sendAlert K c a
      in case r of
           Panic p \<Rightarrow> (c, Panic p)
         | Fail e \<Rightarrow> in_setErrorLocked c (Some e)
         | Ret _ \<Rightarrow> in_setErrorLocked c None)"

text \<open>\<open>c.sendAlert(a); return c.in.setErrorLocked(e)\<close>.\<close>

definition alert_then ::
  "('s, 'a, 'c, 'm) cipher_ops \<Rightarrow> ('s, 'a, 'c, 'm) conn \<Rightarrow> byte \<Rightarrow> err \<Rightarrow> ('s, 'a, 'c, 'm) conn \<times> unit exec" where
  "alert_then K c a e =
     (let (c, r) = sendAlert K c a
      in case r of Panic p \<Rightarrow> (c, Panic p) | _ \<Rightarrow> in_setErrorLocked c (Some e))"

text \<open>The error of a read: only a temporary \<open>net.Error\<close> does not stick.\<close>

definition read_failed ::
  "('s, 'a, 'c, 'm) conn \<Rightarrow> err \<Rightarrow> ('s, 'a, 'c, 'm) conn \<times> unit exec" where
  "read_failed c e =
     (if \<not> is_net_error e \<or> \<not> Temporary e then (fst (in_setErrorLocked c (Some e)), Fail e)
      else (c, Fail e))"

text \<open>The texts of the header errors are shortened: they leave out the numbers.\<close>

definition newRecordHeaderError :: "('s, 'a, 'c, 'm) conn \<Rightarrow> bool \<Rightarrow> string \<Rightarrow> err" where
  "newRecordHeaderError c hasConn msg = RecordHeaderError msg (go_copy (replicate 5 0) (rawInput c)) hasConn"

text \<open>The checks of the header; the length of the payload when it passes.\<close>

definition check_header ::
  "('s, 'a, 'c, 'm) cipher_ops \<Rightarrow> ('s, 'a, 'c, 'm) conn \<Rightarrow> bytes
     \<Rightarrow> ('s, 'a, 'c, 'm) conn \<times> (unit exec + nat)" where
  "check_header K c hdr =
     (let typ = hdr ! 0;
          vers = get_u16 (take 2 (drop 1 hdr));
          expectedVers = (if c_vers c = VersionTLS13 then VersionTLS12 else c_vers c);
          n = get_be (take 2 (drop 3 hdr))
      in if \<not> isHandshakeComplete c \<and> typ = 0x80
         then returning (alert_then K c alertProtocolVersion
                (newRecordHeaderError c False ''unsupported SSLv2 handshake received''))
         else if haveVers c \<and> vers \<noteq> expectedVers
         then returning (alert_then K c alertProtocolVersion
                (newRecordHeaderError c False ''received record with unexpected version''))
         else if \<not> haveVers c \<and>
                 (typ \<noteq> recordTypeAlert \<and> typ \<noteq> recordTypeHandshake \<or> vers \<ge> 0x1000)
         then returning (in_setErrorLocked c
                (Some (newRecordHeaderError c True ''first record does not look like a TLS handshake'')))
         else if c_vers c = VersionTLS13 \<and> n > maxCiphertextTLS13 \<or> n > maxCiphertext
         then returning (alert_then K c alertRecordOverflow
                (newRecordHeaderError c False ''oversized record received''))
         else (c, Inr n))"

text \<open>Reading the bytes of a record.\<close>

definition fetch_record ::
  "('s, 'a, 'c, 'm) cipher_ops \<Rightarrow> ('s, 'a, 'c, 'm) conn \<Rightarrow> ('s, 'a, 'c, 'm) conn \<times> (unit exec + bytes)" where
  "fetch_record K c =
     (case readFromUntil c recordHeaderLen of
        (c, Some e) \<Rightarrow>
          returning (read_failed c (if e = ErrUnexpectedEOF \<and> rawInput c = [] then ErrEOF else e))
      | (c, None) \<Rightarrow>
          (case check_header K c (take recordHeaderLen (rawInput c)) of
             (c, Inl r) \<Rightarrow> (c, Inl r)
           | (c, Inr n) \<Rightarrow>
               (case readFromUntil c (recordHeaderLen + n) of
                  (c, Some e) \<Rightarrow> returning (read_failed c e)
                | (c, None) \<Rightarrow>
                    (c\<lparr>rawInput := drop (recordHeaderLen + n) (rawInput c)\<rparr>,
                     Inr (take (recordHeaderLen + n) (rawInput c))))))"

text \<open>Decrypting it, and the checks that hold for every type.\<close>

definition open_record ::
  "('s, 'a, 'c, 'm) cipher_ops \<Rightarrow> ('s, 'a, 'c, 'm) conn \<Rightarrow> bytes
     \<Rightarrow> ('s, 'a, 'c, 'm) conn \<times> (unit exec + byte \<times> bytes)" where
  "open_record K c record =
     (let (h, r) = decrypt K (c_in c) record;
          c = c\<lparr>c_in := h\<rparr>
      in case r of
           Fail (ErrAlert a) \<Rightarrow> returning (in_alert K c a)
         | Fail _ \<Rightarrow> (c, Inl (Panic ''interface conversion''))
         | Panic p \<Rightarrow> (c, Inl (Panic p))
         | Ret (data, typ) \<Rightarrow>
             if length data > maxPlaintext then returning (in_alert K c alertRecordOverflow)
             else if hc_cipher (c_in c) = NilCipher \<and> typ = recordTypeApplicationData
             then returning (in_alert K c alertUnexpectedMessage)
             else
               let c = (if typ \<noteq> recordTypeAlert \<and> typ \<noteq> recordTypeChangeCipherSpec \<and> length data > 0
                        then c\<lparr>retryCount := 0\<rparr> else c)
               in if c_vers c = VersionTLS13 \<and> typ \<noteq> recordTypeHandshake \<and> length (hand c) > 0
                  then returning (in_alert K c alertUnexpectedMessage)
                  else (c, Inr (typ, data)))"

text \<open>The \<open>switch\<close> on the type; \<open>Inr ()\<close> is a call of \<open>retryReadRecord\<close>.\<close>

definition process_record ::
  "('s, 'a, 'c, 'm) cipher_ops \<Rightarrow> ('s, 'a, 'c, 'm) conn \<Rightarrow> bool \<Rightarrow> byte \<Rightarrow> bytes
     \<Rightarrow> ('s, 'a, 'c, 'm) conn \<times> (unit exec + unit)" where
  "process_record K c expectCCS typ data =
     (if typ = recordTypeAlert then
        if length data \<noteq> 2 then returning (in_alert K c alertUnexpectedMessage)
        else if data ! 1 = alertCloseNotify then returning (in_setErrorLocked c (Some ErrEOF))
        else if c_vers c = VersionTLS13 then
          if data ! 1 = alertUserCanceled then (c, Inr ())
          else returning (in_setErrorLocked c (Some (OpError ''remote error'' (data ! 1))))
        else if data ! 0 = alertLevelWarning then (c, Inr ())
        else if data ! 0 = alertLevelError
        then returning (in_setErrorLocked c (Some (OpError ''remote error'' (data ! 1))))
        else returning (in_alert K c alertUnexpectedMessage)
      else if typ = recordTypeChangeCipherSpec then
        if length data \<noteq> 1 \<or> data ! 0 \<noteq> 1 then returning (in_alert K c alertDecodeError)
        else if length (hand c) > 0 then returning (in_alert K c alertUnexpectedMessage)
        else if c_vers c = VersionTLS13 \<and> \<not> isHandshakeComplete c then (c, Inr ())
        else if \<not> expectCCS then returning (in_alert K c alertUnexpectedMessage)
        else (case changeCipherSpec (c_in c) of
                Ret h \<Rightarrow> (c\<lparr>c_in := h\<rparr>, Inl (Ret ()))
              | Fail (ErrAlert a) \<Rightarrow> returning (in_alert K c a)
              | _ \<Rightarrow> (c, Inl (Panic ''interface conversion'')))
      else if typ = recordTypeApplicationData then
        if \<not> isHandshakeComplete c \<or> expectCCS then returning (in_alert K c alertUnexpectedMessage)
        else if length data = 0 then (c, Inr ())
        else (c\<lparr>c_input := data\<rparr>, Inl (Ret ()))
      else if typ = recordTypeHandshake then
        if length data = 0 \<or> expectCCS then returning (in_alert K c alertUnexpectedMessage)
        else (c\<lparr>hand := hand c @ data\<rparr>, Inl (Ret ()))
      else returning (in_alert K c alertUnexpectedMessage))"

text \<open>\<open>readRecordOrCCS\<close> up to a recursive call.\<close>

definition read_one ::
  "('s, 'a, 'c, 'm) cipher_ops \<Rightarrow> ('s, 'a, 'c, 'm) conn \<Rightarrow> bool \<Rightarrow> ('s, 'a, 'c, 'm) conn \<times> (unit exec + unit)" where
  "read_one K c expectCCS =
     (case hc_err (c_in c) of
        Some e \<Rightarrow> (c, Inl (Fail e))
      | None \<Rightarrow>
          if length (c_input c) \<noteq> 0
          then returning (in_setErrorLocked c (Some (ErrMsg
                 ''tls: internal error: attempted to read record with pending application data'')))
          else case fetch_record K c of
                 (c, Inl r) \<Rightarrow> (c, Inl r)
               | (c, Inr record) \<Rightarrow>
                   (case open_record K c record of
                      (c, Inl r) \<Rightarrow> (c, Inl r)
                    | (c, Inr (typ, data)) \<Rightarrow> process_record K c expectCCS typ data))"

text \<open>A record that is dropped does not reset the count of dropped records, so the recursion ends.\<close>

lemma returning_Inr [simp]: "returning x \<noteq> (c, Inr y)"
  by (cases x) (simp add: returning_def)

lemma readFromUntil_frame:
  "readFromUntil c n = (c', e) \<Longrightarrow> \<exists>evs buf. c' = c\<lparr>net_in := evs, rawInput := buf\<rparr>"
proof (cases "length (rawInput c) \<ge> n")
  case True
  assume "readFromUntil c n = (c', e)"
  with True have "c' = c\<lparr>net_in := net_in c, rawInput := rawInput c\<rparr>"
    by (simp add: readFromUntil_def)
  then show ?thesis
    by blast
qed (auto simp: readFromUntil_def split: prod.splits)

lemma check_header_Inr: "check_header K c hdr = (c', Inr n) \<Longrightarrow> c' = c"
  by (auto simp: check_header_def Let_def split: if_splits)

lemma fetch_record_frame:
  assumes "fetch_record K c = (c', Inr rec)"
  shows "\<exists>evs buf. c' = c\<lparr>net_in := evs, rawInput := buf\<rparr>"
proof -
  obtain c1 n c2 where c1: "readFromUntil c recordHeaderLen = (c1, None)"
    and c2: "readFromUntil c1 (recordHeaderLen + n) = (c2, None)"
    and c': "c' = c2\<lparr>rawInput := drop (recordHeaderLen + n) (rawInput c2)\<rparr>"
    using assms by (auto simp: fetch_record_def split: prod.splits option.splits sum.splits dest!: check_header_Inr)
  show ?thesis
    using readFromUntil_frame [OF c1] readFromUntil_frame [OF c2] unfolding c' by fastforce
qed

lemma open_record_frame:
  assumes "open_record K c rec = (c', Inr (ty, data))"
  shows "\<exists>h k. c' = c\<lparr>c_in := h, retryCount := k\<rparr> \<and>
     k = (if ty \<noteq> recordTypeAlert \<and> ty \<noteq> recordTypeChangeCipherSpec \<and> data \<noteq> [] then 0 else retryCount c)"
proof -
  obtain h r where d: "decrypt K (c_in c) rec = (h, r)"
    by fastforce
  let ?k = "if ty \<noteq> recordTypeAlert \<and> ty \<noteq> recordTypeChangeCipherSpec \<and> data \<noteq> [] then 0 else retryCount c"
  have "c' = c\<lparr>c_in := h, retryCount := ?k\<rparr>"
    using assms by (auto simp: open_record_def Let_def d split: exec.splits err.splits if_splits prod.splits)
  then show ?thesis
    by blast
qed

lemma process_record_Inr:
  "process_record K c x ty data = (c', Inr u) \<Longrightarrow>
     c' = c \<and> (ty = recordTypeAlert \<or> ty = recordTypeChangeCipherSpec \<or> data = [])"
  by (auto simp: process_record_def split: if_splits exec.splits err.splits)

lemma read_one_retry:
  assumes "read_one K c x = (c', Inr u)"
  shows "retryCount c' = retryCount c"
proof -
  obtain c1 rec c2 ty data where r: "fetch_record K c = (c1, Inr rec)" "open_record K c1 rec = (c2, Inr (ty, data))"
    "process_record K c2 x ty data = (c', Inr u)"
    using assms by (auto simp: read_one_def split: option.splits if_splits prod.splits sum.splits)
  show ?thesis
    using fetch_record_frame [OF r(1)] open_record_frame [OF r(2)] process_record_Inr [OF r(3)] by auto
qed

function readRecordOrCCS ::
  "('s, 'a, 'c, 'm) cipher_ops \<Rightarrow> ('s, 'a, 'c, 'm) conn \<Rightarrow> bool \<Rightarrow> ('s, 'a, 'c, 'm) conn \<times> unit exec" where
  "readRecordOrCCS K c expectCCS =
     (case read_one K c expectCCS of
        (c, Inl r) \<Rightarrow> (c, r)
      | (c, Inr _) \<Rightarrow>
          let c = c\<lparr>retryCount := retryCount c + 1\<rparr>
          in if retryCount c > maxUselessRecords
             then alert_then K c alertUnexpectedMessage (ErrMsg ''tls: too many ignored records'')
             else readRecordOrCCS K c expectCCS)"
  by auto
termination
  by (relation "measure (\<lambda>(K, c, x). maxUselessRecords + 1 - retryCount c)")
    (auto dest!: read_one_retry [OF sym])

declare readRecordOrCCS.simps [simp del]

definition readRecord ::
  "('s, 'a, 'c, 'm) cipher_ops \<Rightarrow> ('s, 'a, 'c, 'm) conn \<Rightarrow> ('s, 'a, 'c, 'm) conn \<times> unit exec" where
  "readRecord K c = readRecordOrCCS K c False"

definition readChangeCipherSpec ::
  "('s, 'a, 'c, 'm) cipher_ops \<Rightarrow> ('s, 'a, 'c, 'm) conn \<Rightarrow> ('s, 'a, 'c, 'm) conn \<times> unit exec" where
  "readChangeCipherSpec K c = readRecordOrCCS K c True"

section \<open>Every record that is read shortens the input\<close>

definition avail :: "('s, 'a, 'c, 'm) conn \<Rightarrow> nat" where
  "avail c = length (rawInput c) + sum_list (map (\<lambda>(bs, e). length bs) (net_in c))"

text \<open>What writing leaves alone.\<close>

definition same_part :: "('s, 'a, 'c, 'm) conn \<Rightarrow> ('s, 'a, 'c, 'm) conn \<Rightarrow> bool" where
  "same_part c c' \<longleftrightarrow>
     rawInput c' = rawInput c \<and> net_in c' = net_in c \<and> c_input c' = c_input c \<and> hand c' = hand c \<and>
     retryCount c' = retryCount c \<and> isClient c' = isClient c \<and> c_vers c' = c_vers c \<and>
     haveVers c' = haveVers c \<and> isHandshakeComplete c' = isHandshakeComplete c"

lemma same_part_refl [simp]: "same_part c c"
  by (simp add: same_part_def)

lemma same_part_trans: "same_part a b \<Longrightarrow> same_part b c \<Longrightarrow> same_part a c"
  by (simp add: same_part_def)

lemma setErrorLocked_input:
  "same_part c (fst (in_setErrorLocked c e))" "same_part c (fst (out_setErrorLocked c e))"
  by (simp_all add: in_setErrorLocked_def out_setErrorLocked_def same_part_def split: prod.splits)

lemma in_setErrorLocked_Some [simp]: "snd (in_setErrorLocked c (Some e)) \<noteq> Ret ()"
  by (simp add: in_setErrorLocked_def setErrorLocked_def err_exec_def Let_def)

lemma in_setErrorLocked_not_Ret [simp]: "in_setErrorLocked c (Some e) \<noteq> (c', Ret ())"
  using in_setErrorLocked_Some [of c e] by (metis snd_conv)

lemma returning_simps [simp]:
  "fst (returning x) = fst x" "returning x = (c, Inl r) \<longleftrightarrow> x = (c, r)"
  by (cases x; simp add: returning_def)+

lemma conn_write_input: "same_part c (fst (conn_write c d))"
  by (auto simp: conn_write_def net_write_def same_part_def split: prod.splits list.splits)

lemma maxPayload_input: "same_part c (fst (maxPayloadSizeForWrite K c ty))"
  by (auto simp: maxPayloadSizeForWrite_def same_part_def Let_def split: exec.splits)

lemma write_one_input: "same_part c (fst (write_one K c ty data))"
proof -
  obtain c1 r where p: "maxPayloadSizeForWrite K c ty = (c1, r)"
    by fastforce
  have c1: "same_part c c1"
    using maxPayload_input [of c K ty] by (simp add: p)
  show ?thesis
  proof (cases r)
    case (Ret x)
    let ?m = "if int (length data) > x then nat x else length data"
    obtain h o1 where e: "encrypt K (c_out c1) (record_header ty (wire_vers (c_vers c1)) ?m) (take ?m data)
        (c_rand c1 (c_draws c1)) = (h, o1)"
      by fastforce
    let ?c2 = "c1\<lparr>c_out := h, c_draws := c_draws c1 + 1\<rparr>"
    have c2: "same_part c ?c2"
      using c1 by (simp add: same_part_def)
    then have c3: "same_part c (fst (conn_write ?c2 b))" for b
      by (rule same_part_trans) (rule conn_write_input)
    show ?thesis
    proof (cases o1)
      case (Ret b)
      obtain c4 n4 e4 where "conn_write ?c2 b = (c4, n4, e4)"
        using prod_cases3 by blast
      then show ?thesis
        using c1 c3 [of b] Ret \<open>r = Ret x\<close> by (simp add: write_one_def p Let_def e)
    qed (use c1 c2 Ret e in \<open>simp_all add: write_one_def p Let_def\<close>)
  qed (use c1 p in \<open>simp_all add: write_one_def\<close>)
qed

lemma write_loop_input: "same_part c (fst (write_loop K ty c data n))"
proof (induction K ty c data n rule: write_loop.induct)
  case (1 K ty c data n)
  obtain c1 r where w: "write_one K c ty data = (c1, r)"
    by fastforce
  have "same_part c c1"
    using write_one_input [of c K ty data] by (simp add: w)
  then show ?case
    using 1 w by (cases r) (auto simp: write_loop.simps [of K ty c data n] intro: same_part_trans)
qed

lemma sendAlert_input: "same_part c (fst (sendAlert K c a))"
proof -
  obtain c1 n w where l: "write_loop K recordTypeAlert c [alert_level a, a] 0 = (c1, n, w)"
    using prod_cases3 by blast
  have "same_part c c1"
    using write_loop_input [of c K recordTypeAlert "[alert_level a, a]" 0] by (simp add: l)
  then show ?thesis
    by (auto simp: sendAlert_def sendAlertLocked_def l split: exec.splits
        intro: same_part_trans [OF _ setErrorLocked_input(2)])
qed

lemma in_alert_input: "same_part c (fst (in_alert K c a))"
proof -
  obtain c1 r where l: "sendAlert K c a = (c1, r)"
    by fastforce
  have "same_part c c1"
    using sendAlert_input [of c K a] by (simp add: l)
  then show ?thesis
    by (auto simp: in_alert_def l split: exec.splits
        intro: same_part_trans [OF _ setErrorLocked_input(1)])
qed

lemma alert_then_input: "same_part c (fst (alert_then K c a e))"
proof -
  obtain c1 r where l: "sendAlert K c a = (c1, r)"
    by fastforce
  have "same_part c c1"
    using sendAlert_input [of c K a] by (simp add: l)
  then show ?thesis
    by (auto simp: alert_then_def l split: exec.splits
        intro: same_part_trans [OF _ setErrorLocked_input(1)])
qed

text \<open>The bytes that wait for the reader.\<close>

definition same_input :: "('s, 'a, 'c, 'm) conn \<Rightarrow> ('s, 'a, 'c, 'm) conn \<Rightarrow> bool" where
  "same_input c c' \<longleftrightarrow> rawInput c' = rawInput c \<and> net_in c' = net_in c"

lemma same_input_refl [simp]: "same_input c c"
  by (simp add: same_input_def)

lemma same_input_trans: "same_input a b \<Longrightarrow> same_input b c \<Longrightarrow> same_input a c"
  by (simp add: same_input_def)

lemma same_part_input: "same_part c c' \<Longrightarrow> same_input c c'"
  by (simp add: same_part_def same_input_def)

lemma same_input_avail: "same_input c c' \<Longrightarrow> avail c' = avail c"
  by (simp add: same_input_def avail_def)

lemma alert_then_not_Ret [simp]: "alert_then K c a e \<noteq> (c', Ret ())"
  by (auto simp: alert_then_def split: prod.splits exec.splits)

lemma read_loop_avail:
  "read_loop N evs buf = (evs', buf', e) \<Longrightarrow>
     length buf' + sum_list (map (\<lambda>(bs, e). length bs) evs') =
       length buf + sum_list (map (\<lambda>(bs, e). length bs) evs) \<and>
     (e = None \<longrightarrow> int (length buf) + N \<le> int (length buf'))"
  by (induction N evs buf rule: read_loop.induct) (auto simp: Let_def split: if_splits option.splits)

lemma readFromUntil_avail:
  "readFromUntil c n = (c', e) \<Longrightarrow> avail c' = avail c \<and> (e = None \<longrightarrow> n \<le> length (rawInput c'))"
  by (auto simp: readFromUntil_def avail_def split: if_splits prod.splits dest!: read_loop_avail)

lemma fetch_record_avail:
  assumes "fetch_record K c = (c', Inr rec)"
  shows "avail c' + length rec = avail c" "recordHeaderLen \<le> length rec"
proof -
  obtain c1 n c2 where c1: "readFromUntil c recordHeaderLen = (c1, None)"
    and c2: "readFromUntil c1 (recordHeaderLen + n) = (c2, None)"
    and c': "c' = c2\<lparr>rawInput := drop (recordHeaderLen + n) (rawInput c2)\<rparr>"
    and rec: "rec = take (recordHeaderLen + n) (rawInput c2)"
    using assms by (auto simp: fetch_record_def split: prod.splits option.splits sum.splits dest!: check_header_Inr)
  show "avail c' + length rec = avail c" "recordHeaderLen \<le> length rec"
    using readFromUntil_avail [OF c1] readFromUntil_avail [OF c2] by (simp_all add: c' rec avail_def)
qed

lemma check_header_Inl [simp]: "check_header K c hdr \<noteq> (c', Inl (Ret ()))"
  by (simp add: check_header_def Let_def)

lemma fetch_record_Inl [simp]: "fetch_record K c \<noteq> (c', Inl (Ret ()))"
  by (auto simp: fetch_record_def read_failed_def split: prod.splits option.splits sum.splits if_splits)

lemma open_record_input: "same_input c (fst (open_record K c rec))"
proof -
  obtain h r where d: "decrypt K (c_in c) rec = (h, r)"
    by fastforce
  have s: "same_input c (c\<lparr>c_in := h\<rparr>)" "same_input c (c\<lparr>c_in := h, retryCount := k\<rparr>)" for k
    by (simp_all add: same_input_def)
  show ?thesis
    using s by (auto simp: open_record_def d Let_def split: exec.splits err.splits
        intro: same_input_trans [OF _ same_part_input [OF in_alert_input]])
qed

lemma same_input_if:
  "(P \<Longrightarrow> same_input c (fst a)) \<Longrightarrow> (\<not> P \<Longrightarrow> same_input c (fst b)) \<Longrightarrow> same_input c (fst (if P then a else b))"
  by simp

lemma process_record_input: "same_input c (fst (process_record K c x ty data))"
proof -
  have s: "same_input c (c\<lparr>c_in := h\<rparr>)" "same_input c (c\<lparr>c_input := data\<rparr>)"
    "same_input c (c\<lparr>hand := hand c @ data\<rparr>)" for h
    by (simp_all add: same_input_def)
  show ?thesis
    unfolding process_record_def
    by (intro same_input_if) (simp_all add: s same_part_input [OF in_alert_input]
        same_part_input [OF setErrorLocked_input(1)] split: exec.splits err.splits)
qed

lemma read_one_avail:
  assumes "read_one K c x = (c', r)" "r = Inl (Ret ()) \<or> r = Inr ()"
  shows "avail c' < avail c"
proof -
  obtain c1 rec where f: "fetch_record K c = (c1, Inr rec)"
    using assms by (auto simp: read_one_def split: option.splits if_splits prod.splits sum.splits)
  obtain c2 r2 where o: "open_record K c1 rec = (c2, r2)"
    by fastforce
  have c': "c' = c2 \<or> (\<exists>ty data. process_record K c2 x ty data = (c', r))"
    using assms f o
    by (auto simp: read_one_def split: option.splits if_splits prod.splits sum.splits)
  have "same_input c1 c2"
    using open_record_input [of c1 K rec] by (simp add: o)
  then have "avail c' = avail c1"
    using c' same_input_avail same_input_trans process_record_input by (metis fst_conv)
  then show ?thesis
    using fetch_record_avail [OF f] by (simp add: recordHeaderLen_def)
qed

text \<open>A call that returns nil has used up at least one record.\<close>

lemma readRecordOrCCS_avail:
  "readRecordOrCCS K c x = (c', Ret ()) \<Longrightarrow> avail c' < avail c"
proof (induction K c x rule: readRecordOrCCS.induct)
  case (1 K c x)
  obtain c1 r where r: "read_one K c x = (c1, r)"
    by fastforce
  show ?case
  proof (cases r)
    case (Inl a)
    then show ?thesis
      using 1(2) r read_one_avail [OF r] by (simp add: readRecordOrCCS.simps [of K c x])
  next
    case (Inr a)
    let ?c2 = "c1\<lparr>retryCount := retryCount c1 + 1\<rparr>"
    have "avail ?c2 < avail c"
      using read_one_avail [OF r] Inr by (simp add: avail_def)
    moreover have "\<not> retryCount ?c2 > maxUselessRecords" "readRecordOrCCS K ?c2 x = (c', Ret ())"
      using 1(2) r Inr
      by (auto simp: readRecordOrCCS.simps [of K c x] Let_def split: if_splits)
    ultimately show ?thesis
      using 1(1) [OF r [symmetric] Inr refl] by simp
  qed
qed

section \<open>Handshake messages\<close>

function readHandshakeBytes ::
  "('s, 'a, 'c, 'm) cipher_ops \<Rightarrow> ('s, 'a, 'c, 'm) conn \<Rightarrow> nat \<Rightarrow> ('s, 'a, 'c, 'm) conn \<times> unit exec" where
  "readHandshakeBytes K c n =
     (if length (hand c) < n
      then case readRecord K c of
             (c, Ret _) \<Rightarrow> readHandshakeBytes K c n
           | (c, Fail e) \<Rightarrow> (c, Fail e)
           | (c, Panic p) \<Rightarrow> (c, Panic p)
      else (c, Ret ()))"
  by auto
termination
  by (relation "measure (\<lambda>(K, c, n). avail c)")
    (auto simp: readRecord_def dest!: readRecordOrCCS_avail [OF sym])

declare readHandshakeBytes.simps [simp del]

text \<open>The transcript is \<open>None\<close> when nil.\<close>

definition parsed :: "('x \<Rightarrow> handshakeMessage) \<Rightarrow> 'x option \<Rightarrow> handshakeMessage option exec" where
  "parsed f m = Ret (map_option f m)"

text \<open>
  The message type picks the parser.  The outer option is \<open>None\<close> for an unknown type.
\<close>

definition parse_message ::
  "reader_ops \<Rightarrow> u16 \<Rightarrow> bytes \<Rightarrow> handshakeMessage option exec option" where
  "parse_message R vers data =
     (let t = data ! 0; tls13 = (vers = VersionTLS13)
      in if t = typeHelloRequest then Some (parsed (\<lambda>_. HelloRequest) (hreq_unmarshal data))
         else if t = typeClientHello then Some (parsed ClientHello (ch_unmarshal R data))
         else if t = typeServerHello then Some (parsed ServerHello (sh_unmarshal R data))
         else if t = typeNewSessionTicket then
           Some (if tls13 then parsed NewSessionTicketTLS13 (nst13_unmarshal R data)
                 else parsed NewSessionTicket (nst_unmarshal data))
         else if t = typeCertificate then
           Some (if tls13 then parsed CertificateTLS13 (c13_unmarshal R data)
                 else exec_bind (cm_unmarshal data) (parsed CertificateM))
         else if t = typeCertificateRequest then
           Some (if tls13 then parsed CertificateRequestTLS13 (cr13_unmarshal R data)
                 else exec_bind (crm_unmarshal
                        \<lparr>crm_hasSignatureAlgorithm = (vers \<ge> VersionTLS12), crm_certificateTypes = [],
                         crm_supportedSignatureAlgorithms = [], crm_certificateAuthorities = []\<rparr> data)
                        (parsed CertificateRequest))
         else if t = typeCertificateStatus then Some (parsed CertificateStatus (cst_unmarshal R data))
         else if t = typeServerKeyExchange then Some (parsed ServerKeyExchange (skx_unmarshal data))
         else if t = typeServerHelloDone then Some (parsed (\<lambda>_. ServerHelloDone) (shd_unmarshal data))
         else if t = typeClientKeyExchange then Some (parsed ClientKeyExchange (ckx_unmarshal data))
         else if t = typeCertificateVerify then
           Some (parsed CertificateVerify (cv_unmarshal R
                   \<lparr>cv_hasSignatureAlgorithm = (vers \<ge> VersionTLS12), cv_signatureAlgorithm = 0, cv_signature = []\<rparr> data))
         else if t = typeFinished then Some (parsed Finished (fin_unmarshal R data))
         else if t = typeEncryptedExtensions then Some (parsed EncryptedExtensions (ee_unmarshal R data))
         else if t = typeEndOfEarlyData then Some (parsed (\<lambda>_. EndOfEarlyData) (eoed_unmarshal data))
         else if t = typeKeyUpdate then Some (parsed KeyUpdate (ku_unmarshal R data))
         else None)"

text \<open>\<open>return nil, err\<close> for an error that is never nil.\<close>

definition no_message :: "unit exec \<Rightarrow> handshakeMessage exec" where
  "no_message r = exec_bind r (\<lambda>_. Panic ''nil message'')"

definition transcript_Write :: "digest option \<Rightarrow> bytes \<Rightarrow> digest option" where
  "transcript_Write t data = map_option (\<lambda>d. d_write d data) t"

definition unmarshalHandshakeMessage ::
  "reader_ops \<Rightarrow> ('s, 'a, 'c, 'm) cipher_ops \<Rightarrow> ('s, 'a, 'c, 'm) conn \<Rightarrow> bytes \<Rightarrow> digest option
     \<Rightarrow> ('s, 'a, 'c, 'm) conn \<times> digest option \<times> handshakeMessage exec" where
  "unmarshalHandshakeMessage R K c data transcript =
     (case parse_message R (c_vers c) data of
        Some (Ret (Some m)) \<Rightarrow> (c, transcript_Write transcript data, Ret m)
      | Some (Fail e) \<Rightarrow> (c, transcript, Fail e)
      | Some (Panic p) \<Rightarrow> (c, transcript, Panic p)
      | _ \<Rightarrow> let (c, r) = in_alert K c alertUnexpectedMessage in (c, transcript, no_message r))"

definition readHandshake ::
  "reader_ops \<Rightarrow> ('s, 'a, 'c, 'm) cipher_ops \<Rightarrow> ('s, 'a, 'c, 'm) conn \<Rightarrow> digest option
     \<Rightarrow> ('s, 'a, 'c, 'm) conn \<times> digest option \<times> handshakeMessage exec" where
  "readHandshake R K c transcript =
     (let (c, r) = readHandshakeBytes K c 4
      in if r \<noteq> Ret () then (c, transcript, no_message r)
         else let data = hand c;
                  maxHandshakeSize = (if haveVers c \<and> data ! 0 = typeCertificate
                                      then maxHandshakeCertificateMsg else maxHandshake);
                  n = get_be (take 3 (drop 1 data))
              in if n > maxHandshakeSize
                 then let (c, r) = alert_then K c alertInternalError
                                     (ErrMsg ''tls: handshake message exceeds maximum size'')
                      in (c, transcript, no_message r)
                 else let (c, r) = readHandshakeBytes K c (4 + n)
                      in if r \<noteq> Ret () then (c, transcript, no_message r)
                         else let data = take (4 + n) (hand c)
                              in unmarshalHandshakeMessage R K (c\<lparr>hand := drop (4 + n) (hand c)\<rparr>) data transcript)"

text \<open>
  REALITY collects the messages between ServerHello and Finished in \<open>handshakeBuf\<close>, which then go
  out as one record: \<open>None\<close> as the data means that nothing is written yet.
\<close>

definition collect ::
  "('s, 'a, 'c, 'm) halfConn \<Rightarrow> bytes \<Rightarrow> ('s, 'a, 'c, 'm) halfConn \<times> bytes option" where
  "collect h data =
     (case handshakeBuf h of
        Some buf \<Rightarrow>
          if length data > 0 \<and> data ! 0 \<noteq> typeServerHello then
            if data ! 0 \<noteq> typeFinished then (h\<lparr>handshakeBuf := Some (buf @ data)\<rparr>, None)
            else (h\<lparr>handshakeBuf := None\<rparr>, Some (buf @ data))
          else (h, Some data)
      | None \<Rightarrow> (h, Some data))"

definition writeHandshakeRecord ::
  "'b builder_ops \<Rightarrow> ('s, 'a, 'c, 'm) cipher_ops \<Rightarrow> ('s, 'a, 'c, 'm) conn \<Rightarrow> handshakeMessage \<Rightarrow> digest option
     \<Rightarrow> ('s, 'a, 'c, 'm) conn \<times> digest option \<times> nat \<times> unit exec" where
  "writeHandshakeRecord B K c msg transcript =
     (case hm_marshal B msg of
        Fail e \<Rightarrow> (c, transcript, 0, Fail e)
      | Panic p \<Rightarrow> (c, transcript, 0, Panic p)
      | Ret data \<Rightarrow>
          let transcript = transcript_Write transcript data;
              (h, out) = collect (c_out c) data;
              c = c\<lparr>c_out := h\<rparr>
          in case out of
               None \<Rightarrow> (c, transcript, length data, Ret ())
             | Some data \<Rightarrow> let (c, n, r) = writeRecordLocked K c recordTypeHandshake data
                            in (c, transcript, n, r))"

definition writeRecord ::
  "('s, 'a, 'c, 'm) cipher_ops \<Rightarrow> ('s, 'a, 'c, 'm) conn \<Rightarrow> byte \<Rightarrow> bytes
     \<Rightarrow> ('s, 'a, 'c, 'm) conn \<times> nat \<times> unit exec" where
  "writeRecord K c typ data =
     (let (h, out) = (if typ = recordTypeHandshake then collect (c_out c) data else (c_out c, Some data));
          c = c\<lparr>c_out := h\<rparr>
      in case out of
           None \<Rightarrow> (c, length data, Ret ())
         | Some data \<Rightarrow> writeRecordLocked K c typ data)"

definition writeChangeCipherRecord ::
  "('s, 'a, 'c, 'm) cipher_ops \<Rightarrow> ('s, 'a, 'c, 'm) conn \<Rightarrow> ('s, 'a, 'c, 'm) conn \<times> unit exec" where
  "writeChangeCipherRecord K c =
     (let (c, n, r) = writeRecordLocked K c recordTypeChangeCipherSpec [1] in (c, r))"

end
