(* ===== verification/ConnApi.thy ===== *)
theory ConnApi
  imports Conn KeyEstablishment
begin

text \<open>
  The operations of a connection that its user calls: \<open>conn.go\<close> from \<open>Write\<close> to
  \<open>handshakeContext\<close>, again without QUIC.  A call runs alone here: the mutexes of the connection
  are not modelled.
\<close>

section \<open>What the operations are given\<close>

text \<open>
  \<open>handshakeFn\<close> is the field of the connection.  \<open>clientHandshake\<close> and the part of
  \<open>handleNewSessionTicket\<close> for clients are not modelled: a server does not get there.
\<close>

record ('s, 'a, 'c, 'm, 'b) conn_env =
  ops :: "('s, 'a, 'c, 'm) cipher_ops"
  impl :: "('s, 'a, 'c, 'm) suite_impl"
  hashes :: std_hashes
  reader :: reader_ops
  builder :: "'b builder_ops"
  handshakeFn :: "('s, 'a, 'c, 'm) conn \<Rightarrow> ('s, 'a, 'c, 'm) conn \<times> unit exec"
  clientHandshake :: "('s, 'a, 'c, 'm) conn \<Rightarrow> ('s, 'a, 'c, 'm) conn \<times> unit exec"
  clientNewSessionTicket ::
    "newSessionTicketMsgTLS13 \<Rightarrow> ('s, 'a, 'c, 'm) conn \<Rightarrow> ('s, 'a, 'c, 'm) conn \<times> unit exec"

definition net_ErrClosed :: err where "net_ErrClosed = NetError ''use of closed network connection'' False"
definition errShutdown :: err where "errShutdown = ErrMsg ''tls: protocol is shutdown''"
definition errEarlyCloseWrite :: err where
  "errEarlyCloseWrite = ErrMsg ''tls: CloseWrite called before handshake complete''"

fun exec_err :: "unit exec \<Rightarrow> err option" where
  "exec_err (Fail e) = Some e"
| "exec_err _ = None"

section \<open>\<open>Handshake\<close>\<close>

text \<open>\<open>handshakeContext\<close> with a context that is never cancelled, as \<open>Handshake\<close> calls it.\<close>

definition conn_Handshake ::
  "('s, 'a, 'c, 'm, 'b) conn_env \<Rightarrow> ('s, 'a, 'c, 'm) conn \<Rightarrow> ('s, 'a, 'c, 'm) conn \<times> unit exec" where
  "conn_Handshake E c =
     (if isHandshakeComplete c then (c, Ret ())
      else case handshakeErr c of
             Some e \<Rightarrow> (c, Fail e)
           | None \<Rightarrow>
               (case handshakeFn E c of
                  (c, Panic p) \<Rightarrow> (c, Panic p)
                | (c, Ret _) \<Rightarrow>
                    let c = c\<lparr>handshakeErr := None, handshakes := handshakes c + 1\<rparr>
                    in if \<not> isHandshakeComplete c
                       then let e = ErrMsg ''tls: internal error: handshake should have had a result''
                            in (c\<lparr>handshakeErr := Some e\<rparr>, Fail e)
                       else (c, Ret ())
                | (c, Fail e) \<Rightarrow>
                    let (c, _, _) = conn_flush (c\<lparr>handshakeErr := Some e\<rparr>)
                    in if isHandshakeComplete c
                       then (c, Panic ''tls: internal error: handshake returned an error but is marked successful'')
                       else (c, Fail e)))"

section \<open>\<open>Write\<close>\<close>

text \<open>\<open>return n + m, c.out.setErrorLocked(err)\<close>.\<close>

definition write_return ::
  "nat \<Rightarrow> ('s, 'a, 'c, 'm) conn \<times> nat \<times> unit exec \<Rightarrow> ('s, 'a, 'c, 'm) conn \<times> nat \<times> unit exec" where
  "write_return m = (\<lambda>(c, n, r).
     case r of
       Panic p \<Rightarrow> (c, n, Panic p)
     | _ \<Rightarrow> let (c, r) = out_setErrorLocked c (exec_err r) in (c, n + m, r))"

text \<open>The countermeasure against predictable IVs.\<close>

definition splits_first :: "('s, 'a, 'c, 'm) conn \<Rightarrow> bytes \<Rightarrow> bool" where
  "splits_first c b \<longleftrightarrow> length b > 1 \<and> c_vers c = VersionTLS10 \<and>
     (case hc_cipher (c_out c) of CBC _ \<Rightarrow> True | _ \<Rightarrow> False)"

definition write_data ::
  "('s, 'a, 'c, 'm) cipher_ops \<Rightarrow> ('s, 'a, 'c, 'm) conn \<Rightarrow> bytes \<Rightarrow> ('s, 'a, 'c, 'm) conn \<times> nat \<times> unit exec" where
  "write_data K c b =
     (if splits_first c b
      then case writeRecordLocked K c recordTypeApplicationData (take 1 b) of
             (c, n, Ret _) \<Rightarrow>
               write_return 1 (writeRecordLocked K c recordTypeApplicationData (drop 1 b))
           | (c, n, r) \<Rightarrow> write_return 0 (c, n, r)
      else write_return 0 (writeRecordLocked K c recordTypeApplicationData b))"

definition conn_Write ::
  "('s, 'a, 'c, 'm, 'b) conn_env \<Rightarrow> ('s, 'a, 'c, 'm) conn \<Rightarrow> bytes \<Rightarrow> ('s, 'a, 'c, 'm) conn \<times> nat \<times> unit exec" where
  "conn_Write E c b =
     (let x = activeCall c
      in if x AND 1 \<noteq> 0 then (c, 0, Fail net_ErrClosed)
         else let c = c\<lparr>activeCall := x + 2\<rparr>;
                  (c, n, r) =
                    (case conn_Handshake E c of
                       (c, Fail e) \<Rightarrow> (c, 0, Fail e)
                     | (c, Panic p) \<Rightarrow> (c, 0, Panic p)
                     | (c, Ret _) \<Rightarrow>
                         (case hc_err (c_out c) of
                            Some e \<Rightarrow> (c, 0, Fail e)
                          | None \<Rightarrow>
                              if \<not> isHandshakeComplete c then (c, 0, Fail (ErrAlert alertInternalError))
                              else if closeNotifySent c then (c, 0, Fail errShutdown)
                              else write_data (ops E) c b))
              in (c\<lparr>activeCall := activeCall c - 2\<rparr>, n, r))"

section \<open>\<open>Close\<close>\<close>

definition closeNotify ::
  "('s, 'a, 'c, 'm) cipher_ops \<Rightarrow> ('s, 'a, 'c, 'm) conn \<Rightarrow> ('s, 'a, 'c, 'm) conn \<times> unit exec" where
  "closeNotify K c =
     (if closeNotifySent c then (c, err_exec (closeNotifyErr c))
      else case sendAlertLocked K (c\<lparr>write_expired := False\<rparr>) alertCloseNotify of
             (c, Panic p) \<Rightarrow> (c, Panic p)
           | (c, r) \<Rightarrow>
               (c\<lparr>closeNotifyErr := exec_err r, closeNotifySent := True, write_expired := True\<rparr>, r))"

definition CloseWrite ::
  "('s, 'a, 'c, 'm) cipher_ops \<Rightarrow> ('s, 'a, 'c, 'm) conn \<Rightarrow> ('s, 'a, 'c, 'm) conn \<times> unit exec" where
  "CloseWrite K c = (if \<not> isHandshakeComplete c then (c, Fail errEarlyCloseWrite) else closeNotify K c)"

definition transport_Close ::
  "('s, 'a, 'c, 'm) conn \<Rightarrow> ('s, 'a, 'c, 'm) conn \<times> unit exec" where
  "transport_Close c = (c\<lparr>net_closed := True\<rparr>, err_exec (net_close c))"

definition conn_Close ::
  "('s, 'a, 'c, 'm) cipher_ops \<Rightarrow> ('s, 'a, 'c, 'm) conn \<Rightarrow> ('s, 'a, 'c, 'm) conn \<times> unit exec" where
  "conn_Close K c =
     (let x = activeCall c
      in if x AND 1 \<noteq> 0 then (c, Fail net_ErrClosed)
         else let c = c\<lparr>activeCall := x OR 1\<rparr>
              in if x \<noteq> 0 then transport_Close c
                 else case (if isHandshakeComplete c then closeNotify K c else (c, Ret ())) of
                        (c, Panic p) \<Rightarrow> (c, Panic p)
                      | (c, r) \<Rightarrow>
                          (case transport_Close c of
                             (c, Fail e) \<Rightarrow> (c, Fail e)
                           | (c, _) \<Rightarrow>
                               (c, case r of Ret _ \<Rightarrow> Ret ()
                                   | _ \<Rightarrow> Fail (ErrMsg
                                       ''tls: failed to send closeNotify alert (but connection was closed anyway)''))))"

section \<open>Messages after the handshake\<close>

text \<open>\<open>c.sendAlert(a); return e\<close>.\<close>

definition alert_and ::
  "('s, 'a, 'c, 'm) cipher_ops \<Rightarrow> ('s, 'a, 'c, 'm) conn \<Rightarrow> byte \<Rightarrow> err \<Rightarrow> ('s, 'a, 'c, 'm) conn \<times> unit exec" where
  "alert_and K c a e = (case sendAlert K c a of (c, Panic p) \<Rightarrow> (c, Panic p) | (c, _) \<Rightarrow> (c, Fail e))"

definition RenegotiateNever :: int where "RenegotiateNever = 0"
definition RenegotiateOnceAsClient :: int where "RenegotiateOnceAsClient = 1"
definition RenegotiateFreelyAsClient :: int where "RenegotiateFreelyAsClient = 2"

definition renegotiate ::
  "('s, 'a, 'c, 'm, 'b) conn_env \<Rightarrow> ('s, 'a, 'c, 'm) conn \<Rightarrow> ('s, 'a, 'c, 'm) conn \<times> unit exec" where
  "renegotiate E c =
     (case clientHandshake E (c\<lparr>isHandshakeComplete := False\<rparr>) of
        (c, Ret _) \<Rightarrow> (c\<lparr>handshakeErr := None, handshakes := handshakes c + 1\<rparr>, Ret ())
      | (c, Fail e) \<Rightarrow> (c\<lparr>handshakeErr := Some e\<rparr>, Fail e)
      | (c, Panic p) \<Rightarrow> (c, Panic p))"

definition handleRenegotiation ::
  "('s, 'a, 'c, 'm, 'b) conn_env \<Rightarrow> ('s, 'a, 'c, 'm) conn \<Rightarrow> ('s, 'a, 'c, 'm) conn \<times> unit exec" where
  "handleRenegotiation E c =
     (if c_vers c = VersionTLS13 then (c, Fail (ErrMsg ''tls: internal error: unexpected renegotiation''))
      else case readHandshake (reader E) (ops E) c None of
             (c, _, Fail e) \<Rightarrow> (c, Fail e)
           | (c, _, Panic p) \<Rightarrow> (c, Panic p)
           | (c, _, Ret msg) \<Rightarrow>
               if msg \<noteq> HelloRequest
               then alert_and (ops E) c alertUnexpectedMessage (ErrMsg ''tls: received unexpected handshake message'')
               else if \<not> isClient c then sendAlert (ops E) c alertNoRenegotiation
               else if Renegotiation c = RenegotiateNever then sendAlert (ops E) c alertNoRenegotiation
               else if Renegotiation c = RenegotiateOnceAsClient then
                 if handshakes c > 1 then sendAlert (ops E) c alertNoRenegotiation else renegotiate E c
               else if Renegotiation c = RenegotiateFreelyAsClient then renegotiate E c
               else alert_and (ops E) c alertInternalError (ErrMsg ''tls: unknown Renegotiation value''))"

definition handleNewSessionTicket ::
  "('s, 'a, 'c, 'm, 'b) conn_env \<Rightarrow> ('s, 'a, 'c, 'm) conn \<Rightarrow> newSessionTicketMsgTLS13
     \<Rightarrow> ('s, 'a, 'c, 'm) conn \<times> unit exec" where
  "handleNewSessionTicket E c msg =
     (if \<not> isClient c
      then alert_and (ops E) c alertUnexpectedMessage
             (ErrMsg ''tls: received new session ticket from a client'')
      else clientNewSessionTicket E msg c)"

text \<open>The next secret of one direction; the result is \<open>Fail\<close> never, and \<open>Panic\<close> when the suite has no hash.\<close>

definition next_half ::
  "('s, 'a, 'c, 'm, 'b) conn_env \<Rightarrow> cipherSuiteTLS13 \<Rightarrow> ('s, 'a, 'c, 'm) halfConn \<Rightarrow> ('s, 'a, 'c, 'm) halfConn exec" where
  "next_half E s h =
     exec_bind (nextTrafficSecret (hashes E) s (trafficSecret h)) (\<lambda>secret.
     setTrafficSecret (hashes E) (im_aead (impl E) (cs13_aead s)) h s 0 secret)"

definition handleKeyUpdate ::
  "('s, 'a, 'c, 'm, 'b) conn_env \<Rightarrow> ('s, 'a, 'c, 'm) conn \<Rightarrow> keyUpdateMsg \<Rightarrow> ('s, 'a, 'c, 'm) conn \<times> unit exec" where
  "handleKeyUpdate E c m =
     (case cipherSuiteTLS13ByID (c_cipherSuite c) of
        None \<Rightarrow> in_alert (ops E) c alertInternalError
      | Some s \<Rightarrow>
          (case next_half E s (c_in c) of
             Fail e \<Rightarrow> (c, Fail e)
           | Panic p \<Rightarrow> (c, Panic p)
           | Ret h \<Rightarrow>
               let c = c\<lparr>c_in := h\<rparr>
               in if \<not> ku_updateRequested m then (c, Ret ())
                  else case ku_marshal (builder E) \<lparr>ku_updateRequested = False\<rparr> of
                         Fail e \<Rightarrow> (c, Fail e)
                       | Panic p \<Rightarrow> (c, Panic p)
                       | Ret msgBytes \<Rightarrow>
                           (case writeRecordLocked (ops E) c recordTypeHandshake msgBytes of
                              (c, _, Panic p) \<Rightarrow> (c, Panic p)
                            | (c, _, Fail e) \<Rightarrow> (fst (out_setErrorLocked c (Some e)), Ret ())
                            | (c, _, Ret _) \<Rightarrow>
                                (case next_half E s (c_out c) of
                                   Ret h \<Rightarrow> (c\<lparr>c_out := h\<rparr>, Ret ())
                                 | Fail e \<Rightarrow> (c, Fail e)
                                 | Panic p \<Rightarrow> (c, Panic p)))))"

definition handlePostHandshakeMessage ::
  "('s, 'a, 'c, 'm, 'b) conn_env \<Rightarrow> ('s, 'a, 'c, 'm) conn \<Rightarrow> ('s, 'a, 'c, 'm) conn \<times> unit exec" where
  "handlePostHandshakeMessage E c =
     (if c_vers c \<noteq> VersionTLS13 then handleRenegotiation E c
      else case readHandshake (reader E) (ops E) c None of
             (c, _, Fail e) \<Rightarrow> (c, Fail e)
           | (c, _, Panic p) \<Rightarrow> (c, Panic p)
           | (c, _, Ret msg) \<Rightarrow>
               let c = c\<lparr>retryCount := retryCount c + 1\<rparr>
               in if retryCount c > maxUselessRecords
                  then alert_then (ops E) c alertUnexpectedMessage (ErrMsg ''tls: too many non-advancing records'')
                  else case msg of
                         NewSessionTicketTLS13 m \<Rightarrow> handleNewSessionTicket E c m
                       | KeyUpdate m \<Rightarrow> handleKeyUpdate E c m
                       | _ \<Rightarrow> alert_and (ops E) c alertUnexpectedMessage
                                (ErrMsg ''tls: received unexpected handshake message''))"

section \<open>\<open>Read\<close>\<close>

text \<open>
  Nothing in the code bounds these loops: on a server each turn takes a record or handshake data from
  the transport (\<open>ConnSafety\<close>), and a client may renegotiate for ever.
\<close>

partial_function (option) post_loop ::
  "('s, 'a, 'c, 'm, 'b) conn_env \<Rightarrow> ('s, 'a, 'c, 'm) conn \<Rightarrow> (('s, 'a, 'c, 'm) conn \<times> unit exec) option" where
  "post_loop E c =
     (if hand c = [] then Some (c, Ret ())
      else let (c, r) = handlePostHandshakeMessage E c
           in if r = Ret () then post_loop E c else Some (c, r))"

partial_function (option) input_loop ::
  "('s, 'a, 'c, 'm, 'b) conn_env \<Rightarrow> ('s, 'a, 'c, 'm) conn \<Rightarrow> (('s, 'a, 'c, 'm) conn \<times> unit exec) option" where
  "input_loop E c =
     (if c_input c \<noteq> [] then Some (c, Ret ())
      else let (c, r) = readRecord (ops E) c
           in if r \<noteq> Ret () then Some (c, r)
              else Option.bind (post_loop E c) (\<lambda>(c, r).
                     if r = Ret () then input_loop E c else Some (c, r)))"

text \<open>\<open>Read(b)\<close> with \<open>k = len(b)\<close>: the bytes put into \<open>b\<close> and the error.\<close>

definition conn_Read ::
  "('s, 'a, 'c, 'm, 'b) conn_env \<Rightarrow> ('s, 'a, 'c, 'm) conn \<Rightarrow> nat
     \<Rightarrow> (('s, 'a, 'c, 'm) conn \<times> bytes \<times> unit exec) option" where
  "conn_Read E c k =
     (let (c, r) = conn_Handshake E c
      in if r \<noteq> Ret () then Some (c, [], r)
         else if k = 0 then Some (c, [], Ret ())
         else Option.bind (input_loop E c) (\<lambda>(c, r).
                if r \<noteq> Ret () then Some (c, [], r)
                else let b = take k (c_input c);
                         c = c\<lparr>c_input := drop k (c_input c)\<rparr>
                     in if b \<noteq> [] \<and> c_input c = [] \<and> rawInput c \<noteq> [] \<and> rawInput c ! 0 = recordTypeAlert
                        then let (c, r) = readRecord (ops E) c in Some (c, b, r)
                        else Some (c, b, Ret ())))"

end
