(* ===== verification/ConnSafety.thy ===== *)
theory ConnSafety
  imports ConnApi RecordSafety
begin

text \<open>
  What a call of the read side promises: what it may change when it succeeds, that errors stay, how
  many useless records and messages it puts up with, and that the loops of \<open>Read\<close> on a server take from
  the transport in every turn.
\<close>

section \<open>A successful read\<close>

text \<open>The three outcomes the comment of \<open>readRecordOrCCS\<close> lists.\<close>

definition hand_grew :: "('s, 'a, 'c, 'm) conn \<Rightarrow> ('s, 'a, 'c, 'm) conn \<Rightarrow> bool" where
  "hand_grew c c' \<longleftrightarrow> (\<exists>d. d \<noteq> [] \<and> hand c' = hand c @ d) \<and> c_input c' = []"

definition input_set :: "('s, 'a, 'c, 'm) conn \<Rightarrow> ('s, 'a, 'c, 'm) conn \<Rightarrow> bool" where
  "input_set c c' \<longleftrightarrow> c_input c' \<noteq> [] \<and> length (c_input c') \<le> maxPlaintext \<and> hand c' = hand c \<and> isHandshakeComplete c"

definition ccs_done :: "('s, 'a, 'c, 'm) conn \<Rightarrow> ('s, 'a, 'c, 'm) conn \<Rightarrow> bool" where
  "ccs_done c c' \<longleftrightarrow>
     (\<exists>h. changeCipherSpec h = Ret (c_in c')) \<and> hand c = [] \<and> hand c' = [] \<and> c_input c' = []"

lemma open_record_bound:
  "open_record K c rec = (c', Inr (ty, data)) \<Longrightarrow> length data \<le> maxPlaintext"
  by (auto simp: open_record_def Let_def split: exec.splits err.splits if_splits prod.splits)

lemma in_alert_not_Ret [simp]:
  "a \<noteq> alertCloseNotify \<Longrightarrow> in_alert K c a \<noteq> (c', Ret ())"
  by (auto simp: in_alert_def sendAlert_def sendAlertLocked_def out_setErrorLocked_def setErrorLocked_def
      err_exec_def Let_def split: prod.splits exec.splits)

lemma changeCipherSpec_alert:
  "changeCipherSpec h = Fail e \<Longrightarrow> e = ErrAlert alertInternalError"
  by (auto simp: changeCipherSpec_def split: if_splits)

lemma changeCipherSpec_no_panic [simp]: "changeCipherSpec h \<noteq> Panic p"
  by (simp add: changeCipherSpec_def)

lemma process_record_Ret:
  assumes "process_record K c x ty data = (c', Inl (Ret ()))" "c_input c = []" "length data \<le> maxPlaintext"
  shows "hand_grew c c' \<and> \<not> x \<or> input_set c c' \<and> \<not> x \<or> ccs_done c c' \<and> x"
  using assms
  by (auto simp: process_record_def hand_grew_def input_set_def ccs_done_def alert_ids
      dest: changeCipherSpec_alert split: if_splits exec.splits err.splits)

lemma not_close [simp]:
  "alertRecordOverflow \<noteq> alertCloseNotify" "alertUnexpectedMessage \<noteq> alertCloseNotify"
  "alertInternalError \<noteq> alertCloseNotify" "alertDecodeError \<noteq> alertCloseNotify"
  by (simp_all add: alert_ids)

lemma decrypt_alert_not_close:
  assumes "decrypt K hc rec = (hc', Fail (ErrAlert a))"
  shows "a \<noteq> alertCloseNotify"
  by (rule decrypt_failed [OF assms]) (auto simp: decrypt_alerts_def alert_ids)

lemma open_record_not_Ret [simp]: "open_record K c rec \<noteq> (c', Inl (Ret ()))"
proof -
  obtain h r where d: "decrypt K (c_in c) rec = (h, r)"
    by fastforce
  then have "r = Fail (ErrAlert a) \<Longrightarrow> a \<noteq> alertCloseNotify" for a
    using decrypt_alert_not_close by blast
  then show ?thesis
    by (cases r) (auto simp: open_record_def d Let_def split: err.splits if_splits)
qed

text \<open>Fetching and decrypting leave the rest alone.\<close>

lemma read_steps:
  assumes "read_one K c x = (c', r)" "r = Inl (Ret ()) \<or> r = Inr ()"
  obtains c2 ty data where "process_record K c2 x ty data = (c', r)" "length data \<le> maxPlaintext"
    "hand c2 = hand c" "c_input c2 = []" "isHandshakeComplete c2 = isHandshakeComplete c" "isClient c2 = isClient c"
    "c_vers c2 = c_vers c"
proof -
  have c: "hc_err (c_in c) = None" "c_input c = []"
    using assms by (auto simp: read_one_def split: option.splits if_splits)
  obtain c1 r1 where f: "fetch_record K c = (c1, r1)"
    by fastforce
  then obtain rec where rec: "r1 = Inr rec"
    using assms c by (cases r1) (auto simp: read_one_def)
  obtain c2 r2 where o2: "open_record K c1 rec = (c2, r2)"
    by fastforce
  then obtain ty data where "r2 = Inr (ty, data)"
    using assms c f rec by (cases r2) (auto simp: read_one_def)
  with o2 have o: "open_record K c1 rec = (c2, Inr (ty, data))" "process_record K c2 x ty data = (c', r)"
    using assms(1) c f rec by (simp_all add: read_one_def)
  show thesis
    using that [OF o(2) open_record_bound [OF o(1)]] fetch_record_frame [OF f [unfolded rec]] open_record_frame [OF o(1)] c by auto
qed

lemma read_one_Inr:
  assumes "read_one K c x = (c', Inr u)"
  shows "hand c' = hand c \<and> isHandshakeComplete c' = isHandshakeComplete c \<and> isClient c' = isClient c \<and>
     c_vers c' = c_vers c"
  by (rule read_steps [OF assms]) (auto dest: process_record_Inr)

lemma readRecordOrCCS_Ret:
  "readRecordOrCCS K c x = (c', Ret ()) \<Longrightarrow>
     hand_grew c c' \<and> \<not> x \<or> input_set c c' \<and> \<not> x \<or> ccs_done c c' \<and> x"
proof (induction K c x rule: readRecordOrCCS.induct)
  case (1 K c x)
  obtain c1 r where r: "read_one K c x = (c1, r)"
    by fastforce
  show ?case
  proof (cases r)
    case (Inl a)
    then have a: "a = Ret ()" "c1 = c'"
      using 1(2) r by (simp_all add: readRecordOrCCS.simps [of K c x])
    then obtain c2 ty data where p: "process_record K c2 x ty data = (c', Inl (Ret ()))" "length data \<le> maxPlaintext"
      "hand c2 = hand c" "c_input c2 = []" "isHandshakeComplete c2 = isHandshakeComplete c"
      using read_steps [OF r] Inl by blast
    then show ?thesis
      using process_record_Ret [OF p(1,4,2)] by (simp add: hand_grew_def input_set_def ccs_done_def)
  next
    case (Inr a)
    let ?c = "c1\<lparr>retryCount := retryCount c1 + 1\<rparr>"
    have again: "\<not> retryCount ?c > maxUselessRecords" "readRecordOrCCS K ?c x = (c', Ret ())"
      using 1(2) r Inr by (auto simp: readRecordOrCCS.simps [of K c x] Let_def split: if_splits)
    have "hand ?c = hand c" "isHandshakeComplete ?c = isHandshakeComplete c"
      using read_one_Inr [OF r [unfolded Inr]] by simp_all
    then show ?thesis
      using 1(1) [OF r [symmetric] Inr refl again] by (simp add: hand_grew_def input_set_def ccs_done_def)
  qed
qed

lemma process_record_Ret_keeps:
  "process_record K c x ty data = (c', Inl (Ret ())) \<Longrightarrow>
     isClient c' = isClient c \<and> isHandshakeComplete c' = isHandshakeComplete c"
  by (auto simp: process_record_def dest: changeCipherSpec_alert split: if_splits exec.splits err.splits)

lemma readRecordOrCCS_keeps:
  "readRecordOrCCS K c x = (c', Ret ()) \<Longrightarrow>
     isClient c' = isClient c \<and> isHandshakeComplete c' = isHandshakeComplete c"
proof (induction K c x rule: readRecordOrCCS.induct)
  case (1 K c x)
  obtain c1 r where r: "read_one K c x = (c1, r)"
    by fastforce
  show ?case
  proof (cases r)
    case (Inl a)
    then have a: "c1 = c'" "r = Inl (Ret ())"
      using 1(2) r by (simp_all add: readRecordOrCCS.simps [of K c x])
    have "isClient c1 = isClient c \<and> isHandshakeComplete c1 = isHandshakeComplete c"
      by (rule read_steps [OF r]) (use a(2) in \<open>auto dest: process_record_Ret_keeps\<close>)
    then show ?thesis
      by (simp add: a(1))
  next
    case (Inr a)
    let ?c = "c1\<lparr>retryCount := retryCount c1 + 1\<rparr>"
    have "\<not> retryCount ?c > maxUselessRecords" "readRecordOrCCS K ?c x = (c', Ret ())"
      using 1(2) r Inr by (auto simp: readRecordOrCCS.simps [of K c x] Let_def split: if_splits)
    then show ?thesis
      using 1(1) [OF r [symmetric] Inr refl] read_one_Inr [OF r [unfolded Inr]] by simp
  qed
qed

section \<open>Errors stay\<close>

definition stuck :: "('s, 'a, 'c, 'm) conn \<Rightarrow> err \<Rightarrow> bool" where
  "stuck c e \<longleftrightarrow> hc_err (c_in c) = Some e \<or> hc_err (c_in c) = Some (PermanentError e)"

lemma in_setErrorLocked_stuck: "in_setErrorLocked c o1 = (c', Fail e) \<Longrightarrow> stuck c' e"
  by (auto simp: in_setErrorLocked_def setErrorLocked_def err_exec_def stuck_def Let_def split: option.splits)

lemma in_alert_stuck: "in_alert K c a = (c', Fail e) \<Longrightarrow> stuck c' e"
  by (auto simp: in_alert_def dest: in_setErrorLocked_stuck split: prod.splits exec.splits)

lemma alert_then_stuck: "alert_then K c a e' = (c', Fail e) \<Longrightarrow> stuck c' e"
  by (auto simp: alert_then_def dest: in_setErrorLocked_stuck split: prod.splits exec.splits)

lemma read_failed_stuck:
  "read_failed c e' = (c', Fail e) \<Longrightarrow> \<not> (is_net_error e \<and> Temporary e) \<Longrightarrow> stuck c' e"
  by (auto simp: read_failed_def in_setErrorLocked_def setErrorLocked_def stuck_def Let_def split: if_splits)

lemmas stuck_intros = in_setErrorLocked_stuck in_alert_stuck alert_then_stuck read_failed_stuck

lemma check_header_stuck: "check_header K c hdr = (c', Inl (Fail e)) \<Longrightarrow> stuck c' e"
  by (auto simp: check_header_def Let_def intro: stuck_intros split: if_splits)

lemma fetch_record_stuck:
  assumes "fetch_record K c = (c', Inl (Fail e))" "\<not> (is_net_error e \<and> Temporary e)"
  shows "stuck c' e"
proof -
  obtain c1 e1 where r1: "readFromUntil c recordHeaderLen = (c1, e1)"
    by fastforce
  obtain c2 r2 where h: "check_header K c1 (take recordHeaderLen (rawInput c1)) = (c2, r2)"
    by fastforce
  show ?thesis
    using assms check_header_stuck [of K c1 "take recordHeaderLen (rawInput c1)" c2]
    by (auto simp: fetch_record_def r1 h intro: read_failed_stuck split: option.splits sum.splits prod.splits)
qed

lemma open_record_stuck: "open_record K c rec = (c', Inl (Fail e)) \<Longrightarrow> stuck c' e"
  by (cases "decrypt K (c_in c) rec")
    (auto simp: open_record_def Let_def intro: stuck_intros split: exec.splits err.splits if_splits)

lemma process_record_stuck: "process_record K c x ty data = (c', Inl (Fail e)) \<Longrightarrow> stuck c' e"
  by (auto simp: process_record_def intro: stuck_intros split: if_splits exec.splits err.splits)

lemma read_one_stuck:
  assumes "read_one K c x = (c', Inl (Fail e))" "\<not> (is_net_error e \<and> Temporary e)"
  shows "stuck c' e"
proof (cases "hc_err (c_in c) = None \<and> c_input c = []")
  case False
  then show ?thesis
    using assms by (auto simp: read_one_def stuck_def [of c'] dest: in_setErrorLocked_stuck split: option.splits if_splits)
next
  case True
  obtain c1 r1 where f: "fetch_record K c = (c1, r1)"
    by fastforce
  show ?thesis
  proof (cases r1)
    case (Inl a)
    then show ?thesis
      using True assms f fetch_record_stuck by (auto simp: read_one_def)
  next
    case (Inr rec)
    obtain c2 r2 where o: "open_record K c1 rec = (c2, r2)"
      by fastforce
    show ?thesis
      using True assms f Inr o open_record_stuck process_record_stuck
      by (cases r2) (auto simp: read_one_def)
  qed
qed

lemma readRecordOrCCS_stuck:
  "readRecordOrCCS K c x = (c', Fail e) \<Longrightarrow> \<not> (is_net_error e \<and> Temporary e) \<Longrightarrow> stuck c' e"
proof (induction K c x rule: readRecordOrCCS.induct)
  case (1 K c x)
  obtain c1 r where r: "read_one K c x = (c1, r)"
    by fastforce
  show ?case
  proof (cases r)
    case (Inl a)
    then show ?thesis
      using 1(2,3) r read_one_stuck by (simp add: readRecordOrCCS.simps [of K c x])
  next
    case (Inr a)
    then show ?thesis
      using 1(1) [OF r [symmetric] Inr refl] 1(2,3) r alert_then_stuck
      by (auto simp: readRecordOrCCS.simps [of K c x] Let_def split: if_splits)
  qed
qed

lemma stuck_reads: "hc_err (c_in c) = Some e \<Longrightarrow> readRecordOrCCS K c x = (c, Fail e)"
  by (simp add: readRecordOrCCS.simps [of K c x] read_one_def)

section \<open>\<open>Read\<close> returns\<close>

text \<open>What the loops of \<open>Read\<close> use up: records, and between records bytes of handshake data.\<close>

definition uses_up :: "('s, 'a, 'c, 'm) conn \<Rightarrow> ('s, 'a, 'c, 'm) conn \<Rightarrow> bool" where
  "uses_up c c' \<longleftrightarrow> (avail c' < avail c \<or> avail c' = avail c \<and> length (hand c') < length (hand c)) \<and>
     isClient c' = isClient c \<and> isHandshakeComplete c' = isHandshakeComplete c"

lemma uses_up_same_part: "uses_up c c1 \<Longrightarrow> same_part c1 c' \<Longrightarrow> uses_up c c'"
  using same_input_avail [OF same_part_input, of c1 c'] by (auto simp: uses_up_def same_part_def)

lemma readHandshakeBytes_keeps:
  "readHandshakeBytes K c n = (c', Ret ()) \<Longrightarrow>
     (c' = c \<or> avail c' < avail c) \<and> isClient c' = isClient c \<and> isHandshakeComplete c' = isHandshakeComplete c \<and>
     n \<le> length (hand c')"
proof (induction K c n rule: readHandshakeBytes.induct)
  case (1 K c n)
  show ?case
  proof (cases "length (hand c) < n")
    case False
    then show ?thesis
      using 1(2) by (simp add: readHandshakeBytes.simps [of K c n])
  next
    case True
    obtain c1 r where r: "readRecord K c = (c1, r)"
      by fastforce
    then have "r = Ret ()" "readHandshakeBytes K c1 n = (c', Ret ())"
      using 1(2) True by (auto simp: readHandshakeBytes.simps [of K c n] split: exec.splits)
    moreover from this have "avail c1 < avail c" "isClient c1 = isClient c" "isHandshakeComplete c1 = isHandshakeComplete c"
      using r readRecordOrCCS_avail readRecordOrCCS_keeps unfolding readRecord_def by blast+
    ultimately show ?thesis
      using 1(1) [OF True r [symmetric]] by auto
  qed
qed

lemma unmarshal_keeps: "same_part c (fst (unmarshalHandshakeMessage R K c data t))"
  using in_alert_input [of c K alertUnexpectedMessage]
  by (auto simp: unmarshalHandshakeMessage_def Let_def split: option.splits exec.splits prod.splits)

lemma readHandshake_uses_up:
  assumes "readHandshake R K c t = (c', t', Ret m)"
  shows "uses_up c c'"
proof -
  obtain c1 r1 where h: "readHandshakeBytes K c 4 = (c1, r1)"
    by fastforce
  then have r1: "r1 = Ret ()"
    using assms by (auto simp: readHandshake_def no_message_def exec_simps split: if_splits)
  let ?n = "get_be (take 3 (drop 1 (hand c1)))"
  obtain c2 r2 where b: "readHandshakeBytes K c1 (4 + ?n) = (c2, r2)"
    by fastforce
  let ?c = "c2\<lparr>hand := drop (4 + ?n) (hand c2)\<rparr>"
  have r2: "r2 = Ret ()" "c' = fst (unmarshalHandshakeMessage R K ?c (take (4 + ?n) (hand c2)) t)"
    using assms h r1 b by (auto simp: readHandshake_def no_message_def exec_simps Let_def split: if_splits prod.splits)
  have "uses_up c ?c"
    using readHandshakeBytes_keeps [OF h [unfolded r1]] readHandshakeBytes_keeps [OF b [unfolded r2(1)]]
    by (auto simp: uses_up_def avail_def)
  then show ?thesis
    unfolding r2(2) by (rule uses_up_same_part) (rule unmarshal_keeps)
qed

lemma alert_and_not_Ret [simp]: "alert_and K c a e \<noteq> (c', Ret x)"
  by (auto simp: alert_and_def split: prod.splits exec.splits)

lemma sendAlert_uses_up: "uses_up c c1 \<Longrightarrow> sendAlert K c1 a = (c', r) \<Longrightarrow> uses_up c c'"
  using uses_up_same_part sendAlert_input [of c1 K a] by fastforce

lemma handleRenegotiation_uses_up:
  assumes "handleRenegotiation E c = (c', Ret ())" "\<not> isClient c"
  shows "uses_up c c'"
proof -
  obtain c1 t m where h: "readHandshake (reader E) (ops E) c None = (c1, t, m)"
    using prod_cases3 by blast
  obtain msg where m: "m = Ret msg"
    using assms h by (cases m) (simp_all add: handleRenegotiation_def split: if_splits)
  have u: "uses_up c c1"
    using readHandshake_uses_up h m by blast
  then have "\<not> isClient c1"
    using assms(2) by (simp add: uses_up_def)
  then show ?thesis
    using assms h m sendAlert_uses_up [OF u] by (auto simp: handleRenegotiation_def split: if_splits)
qed

lemma writeRecordLocked_input: "same_part c (fst (writeRecordLocked K c ty data))"
proof -
  obtain c1 n r where w: "write_loop K ty c data 0 = (c1, n, r)"
    using prod_cases3 by blast
  have c1: "same_part c c1"
    using write_loop_input [of c K ty data 0] by (simp add: w)
  have "sendAlertLocked K c1 a = (c2, r') \<Longrightarrow> same_part c c2" for a c2 r'
    using same_part_trans [OF c1 sendAlert_input [of c1 K a]] by (simp add: sendAlert_def)
  moreover have "same_part c (c1\<lparr>c_out := h\<rparr>)" for h
    using c1 by (simp add: same_part_def)
  ultimately show ?thesis
    using c1 by (auto simp: writeRecordLocked_def w split: exec.splits err.splits prod.splits)
qed

lemma handleKeyUpdate_input:
  assumes "handleKeyUpdate E c m = (c', Ret ())"
  shows "same_part c c'"
proof -
  obtain s h where sh: "cipherSuiteTLS13ByID (c_cipherSuite c) = Some s" "next_half E s (c_in c) = Ret h"
    using assms by (auto simp: handleKeyUpdate_def split: option.splits exec.splits)
  let ?c = "c\<lparr>c_in := h\<rparr>"
  have c: "same_part c ?c"
    by (simp add: same_part_def)
  show ?thesis
  proof (cases "ku_updateRequested m")
    case False
    then show ?thesis
      using assms sh c by (simp add: handleKeyUpdate_def)
  next
    case True
    obtain bs where bs: "ku_marshal (builder E) \<lparr>ku_updateRequested = False\<rparr> = Ret bs"
      using assms sh True by (auto simp: handleKeyUpdate_def Let_def split: exec.splits)
    obtain c1 n r where w: "writeRecordLocked (ops E) ?c recordTypeHandshake bs = (c1, n, r)"
      using prod_cases3 by blast
    have c1: "same_part c c1"
      using same_part_trans [OF c writeRecordLocked_input [of ?c "ops E" recordTypeHandshake bs]] by (simp add: w)
    have "same_part c (c1\<lparr>c_out := h\<rparr>)" "same_part c (fst (out_setErrorLocked c1 e))" for h e
      using c1 same_part_trans [OF c1 setErrorLocked_input(2)] by (simp_all add: same_part_def)
    then show ?thesis
      using assms sh True bs w by (auto simp: handleKeyUpdate_def Let_def split: exec.splits)
  qed
qed

lemma handlePostHandshakeMessage_uses_up:
  assumes "handlePostHandshakeMessage E c = (c', Ret ())" "\<not> isClient c"
  shows "uses_up c c'"
proof (cases "c_vers c = VersionTLS13")
  case False
  then show ?thesis
    using assms handleRenegotiation_uses_up by (simp add: handlePostHandshakeMessage_def)
next
  case True
  obtain c1 t m where h: "readHandshake (reader E) (ops E) c None = (c1, t, m)"
    using prod_cases3 by blast
  obtain msg where m: "m = Ret msg"
    using assms h True by (cases m) (simp_all add: handlePostHandshakeMessage_def)
  let ?c = "c1\<lparr>retryCount := retryCount c1 + 1\<rparr>"
  have u: "uses_up c ?c"
    using readHandshake_uses_up h m by (fastforce simp: uses_up_def avail_def)
  then have "\<not> isClient ?c"
    using assms(2) by (simp add: uses_up_def)
  then show ?thesis
    using assms h m True uses_up_same_part [OF u handleKeyUpdate_input]
    by (auto simp: handlePostHandshakeMessage_def handleNewSessionTicket_def Let_def
        split: if_splits handshakeMessage.splits)
qed

lemma post_loop_returns:
  assumes "\<not> isClient c"
  shows "\<exists>c' r. post_loop E c = Some (c', r) \<and>
     (r = Ret () \<longrightarrow> avail c' \<le> avail c \<and> \<not> isClient c' \<and> hand c' = [])"
  using assms
proof (induction c rule: wf_induct [OF wf_measures, of "[avail, \<lambda>c. length (hand c)]"])
  case (1 c)
  show ?case
  proof (cases "hand c = []")
    case True
    then show ?thesis
      using 1(2) by (simp add: post_loop.simps [of E c])
  next
    case False
    obtain c1 r where p: "handlePostHandshakeMessage E c = (c1, r)"
      by fastforce
    show ?thesis
    proof (cases "r = Ret ()")
      case r: True
      have u: "uses_up c c1"
        using handlePostHandshakeMessage_uses_up p r 1(2) by blast
      then have "(c1, c) \<in> measures [avail, \<lambda>c. length (hand c)]" "\<not> isClient c1" "avail c1 \<le> avail c"
        using 1(2) by (auto simp: uses_up_def)
      then show ?thesis
        using 1(1) False p r by (fastforce simp: post_loop.simps [of E c])
    qed (use False p in \<open>simp add: post_loop.simps [of E c]\<close>)
  qed
qed

lemma input_loop_returns:
  "\<not> isClient c \<Longrightarrow> \<exists>res. input_loop E c = Some res"
proof (induction "avail c" arbitrary: c rule: less_induct)
  case less
  show ?case
  proof (cases "c_input c = []")
    case True
    obtain c1 r where r: "readRecord (ops E) c = (c1, r)"
      by fastforce
    show ?thesis
    proof (cases "r = Ret ()")
      case ok: True
      have c1: "avail c1 < avail c" "\<not> isClient c1"
        using readRecordOrCCS_avail readRecordOrCCS_keeps r ok less.prems unfolding readRecord_def by blast+
      obtain c2 r2 where p: "post_loop E c1 = Some (c2, r2)" "r2 = Ret () \<longrightarrow> avail c2 \<le> avail c1 \<and> \<not> isClient c2"
        using post_loop_returns [OF c1(2), of E] by blast
      then show ?thesis
        using less.hyps [of c2] c1 True r ok by (cases "r2 = Ret ()") (simp_all add: input_loop.simps [of E c])
    qed (use True r in \<open>simp add: input_loop.simps [of E c]\<close>)
  qed (simp add: input_loop.simps [of E c])
qed

text \<open>
  So \<open>Read\<close> on a server returns once the transport has nothing more to give.  This is all that
  can be said of \<open>Read\<close> as a whole: a peer that never stops sending handshake records keeps it busy,
  because each of them resets \<open>retryCount\<close>.
\<close>

lemma read_returns:
  assumes "isHandshakeComplete c" and "\<not> isClient c"
  shows "\<exists>c' b r. conn_Read E c k = Some (c', b, r)"
proof -
  obtain c1 r1 where "input_loop E c = Some (c1, r1)"
    using input_loop_returns [OF assms(2), of E] by fastforce
  then show ?thesis
    using assms(1) by (auto simp: conn_Read_def conn_Handshake_def Let_def split: prod.splits)
qed

section \<open>Useless records\<close>

text \<open>
  \<open>drop_records K x n c\<close> is the connection after \<open>n\<close> records in a row that \<open>readRecordOrCCS\<close> drops and
  counts, whatever the limit is, and \<open>None\<close> when one of them is not of this kind.
\<close>

fun drop_records ::
  "('s, 'a, 'c, 'm) cipher_ops \<Rightarrow> bool \<Rightarrow> nat \<Rightarrow> ('s, 'a, 'c, 'm) conn \<Rightarrow> ('s, 'a, 'c, 'm) conn option" where
  "drop_records K x 0 c = Some c"
| "drop_records K x (Suc n) c =
     (case read_one K c x of
        (c, Inr _) \<Rightarrow> drop_records K x n (c\<lparr>retryCount := retryCount c + 1\<rparr>)
      | _ \<Rightarrow> None)"

lemma drop_records_retry:
  "drop_records K x n c = Some c1 \<Longrightarrow> retryCount c1 = retryCount c + n"
  by (induction n arbitrary: c) (auto split: prod.splits sum.splits dest: read_one_retry)

lemma dropped_on:
  "drop_records K x n c = Some c1 \<Longrightarrow> retryCount c + n \<le> maxUselessRecords \<Longrightarrow>
     readRecordOrCCS K c x = readRecordOrCCS K c1 x"
proof (induction n arbitrary: c)
  case (Suc n)
  obtain c2 u where r: "read_one K c x = (c2, Inr u)" "drop_records K x n (c2\<lparr>retryCount := retryCount c2 + 1\<rparr>) = Some c1"
    using Suc.prems(1) by (auto split: prod.splits sum.splits)
  moreover have "retryCount c2 = retryCount c"
    using r(1) by (rule read_one_retry)
  ultimately show ?case
    using Suc.prems(2) Suc.IH [OF r(2)] by (subst readRecordOrCCS.simps) (simp add: Let_def)
qed simp

lemma dropped_over:
  assumes "drop_records K x n c = Some c1" "n > 0" "retryCount c + n = maxUselessRecords + 1"
  shows "readRecordOrCCS K c x = alert_then K c1 alertUnexpectedMessage (ErrMsg ''tls: too many ignored records'')"
  using assms
proof (induction n arbitrary: c)
  case (Suc n)
  obtain c2 u where r: "read_one K c x = (c2, Inr u)" "drop_records K x n (c2\<lparr>retryCount := retryCount c2 + 1\<rparr>) = Some c1"
    using Suc.prems(1) by (auto split: prod.splits sum.splits)
  moreover have "retryCount c2 = retryCount c"
    using r(1) by (rule read_one_retry)
  ultimately show ?case
    using Suc.prems(3) Suc.IH [OF r(2)] by (cases "n = 0"; subst readRecordOrCCS.simps) (simp_all add: Let_def)
qed simp

text \<open>How much of the transport a call uses: no record is longer than its header allows.\<close>

definition max_record :: nat where "max_record = recordHeaderLen + maxCiphertext"

lemma alert_avail:
  "avail (fst (alert_then K c a e)) = avail c" "avail (fst (in_alert K c a)) = avail c"
  "avail (fst (in_setErrorLocked c e')) = avail c"
  using alert_then_input in_alert_input setErrorLocked_input(1) same_input_avail same_part_input by metis+

lemma read_failed_avail: "avail (fst (read_failed c e)) = avail c"
  by (simp add: read_failed_def alert_avail)

lemma check_header_avail:
  "check_header K c hdr = (c', r) \<Longrightarrow> avail c' = avail c \<and> (\<forall>n. r = Inr n \<longrightarrow> n \<le> maxCiphertext)"
  by (auto simp: check_header_def Let_def returning_def split: if_splits prod.splits
      dest!: arg_cong [of _ _ fst] simp: alert_avail)

lemma fetch_record_used:
  assumes "fetch_record K c = (c', r)"
  shows "avail c \<le> avail c' + (case r of Inl _ \<Rightarrow> 0 | Inr rec \<Rightarrow> max_record)"
proof -
  obtain c1 e1 where r1: "readFromUntil c recordHeaderLen = (c1, e1)"
    by fastforce
  obtain c2 r2 where h: "check_header K c1 (take recordHeaderLen (rawInput c1)) = (c2, r2)"
    by fastforce
  obtain c3 e3 where r3: "readFromUntil c2 (recordHeaderLen + projr r2) = (c3, e3)"
    by fastforce
  note a = readFromUntil_avail [OF r1] check_header_avail [OF h] readFromUntil_avail [OF r3]
  have f: "read_failed c e = (c', r') \<Longrightarrow> avail c' = avail c" for c c' :: "('a, 'b, 'c, 'd) conn" and e r'
    using read_failed_avail [of c e] by simp
  show ?thesis
    using assms a r3 by (auto simp: fetch_record_def r1 h returning_def max_record_def split: option.splits sum.splits
        prod.splits if_splits dest!: f) (auto simp: avail_def)
qed

lemma read_one_used:
  assumes "read_one K c x = (c', r)"
  shows "avail c \<le> avail c' + max_record"
proof (cases "hc_err (c_in c) = None \<and> c_input c = []")
  case False
  then show ?thesis
    using assms alert_avail(3) [of c] by (auto simp: read_one_def returning_def split: option.splits if_splits prod.splits
        dest!: arg_cong [of _ _ fst])
next
  case True
  obtain c1 r1 where f: "fetch_record K c = (c1, r1)"
    by fastforce
  have "avail c' = avail c1"
  proof (cases r1)
    case (Inr rec)
    obtain c2 r2 where o: "open_record K c1 rec = (c2, r2)"
      by fastforce
    have "same_input c1 c2"
      using open_record_input [of c1 K rec] by (simp add: o)
    moreover have "c' = c2 \<or> same_input c2 c'"
      using True assms f Inr o process_record_input [of c2 K x]
      by (auto simp: read_one_def split: sum.splits) (metis fst_conv)
    ultimately show ?thesis
      using same_input_avail by metis
  qed (use True assms f in \<open>simp add: read_one_def\<close>)
  then show ?thesis
    using fetch_record_used [OF f] by (auto split: sum.splits)
qed

lemma readRecordOrCCS_used:
  "avail c \<le> avail (fst (readRecordOrCCS K c x)) + Suc (maxUselessRecords - retryCount c) * max_record"
proof (induction K c x rule: readRecordOrCCS.induct)
  case (1 K c x)
  obtain c1 r where r: "read_one K c x = (c1, r)"
    by fastforce
  show ?case
  proof (cases r)
    case (Inl a)
    then show ?thesis
      using read_one_used [OF r] r by (subst readRecordOrCCS.simps) (simp add: trans_le_add1)
  next
    case (Inr u)
    let ?c = "c1\<lparr>retryCount := retryCount c1 + 1\<rparr>"
    have used: "avail c \<le> avail ?c + max_record"
      using read_one_used [OF r] by (simp add: avail_def)
    have rc: "retryCount c1 = retryCount c"
      using r Inr read_one_retry by blast
    show ?thesis
    proof (cases "retryCount ?c > maxUselessRecords")
      case True
      then show ?thesis
        using used r Inr by (subst readRecordOrCCS.simps) (simp add: alert_avail trans_le_add1)
    next
      case False
      then have "Suc (maxUselessRecords - retryCount c) = Suc (Suc (maxUselessRecords - retryCount ?c))"
        using rc by simp
      then show ?thesis
        using 1 [OF r [symmetric] Inr refl False] used r Inr False by (subst readRecordOrCCS.simps) simp
    qed
  qed
qed

text \<open>The count starts again with every record that brings handshake or application data.\<close>

lemma advancing_resets:
  "readRecordOrCCS K c False = (c', Ret ()) \<Longrightarrow> retryCount c' = 0"
proof (induction K c "False" rule: readRecordOrCCS.induct)
  case (1 K c)
  obtain c1 r where r: "read_one K c False = (c1, r)"
    by fastforce
  show ?case
  proof (cases r)
    case (Inr u)
    let ?c = "c1\<lparr>retryCount := retryCount c1 + 1\<rparr>"
    have "\<not> retryCount ?c > maxUselessRecords" "readRecordOrCCS K ?c False = (c', Ret ())"
      using 1(2) r Inr by (auto simp: readRecordOrCCS.simps [of K c False] Let_def split: if_splits)
    then show ?thesis
      using 1(1) [OF r [symmetric] Inr refl] by blast
  next
    case (Inl a)
    then have "read_one K c False = (c', Inl (Ret ()))"
      using 1(2) r by (simp add: readRecordOrCCS.simps [of K c False])
    then obtain c0 rec c2 ty data where o: "open_record K c0 rec = (c2, Inr (ty, data))"
      "process_record K c2 False ty data = (c', Inl (Ret ()))"
      by (auto simp: read_one_def split: option.splits if_splits prod.splits sum.splits)
    have "retryCount c' = retryCount c2 \<and> data \<noteq> [] \<and> ty \<noteq> recordTypeAlert \<and> ty \<noteq> recordTypeChangeCipherSpec"
      using o(2) by (auto simp: process_record_def record_types dest: changeCipherSpec_alert split: if_splits exec.splits err.splits)
    then show ?thesis
      using open_record_frame [OF o(1)] by auto
  qed
qed

text \<open>Messages after the handshake are counted, too.\<close>

lemma readHandshakeBytes_retry:
  "readHandshakeBytes K c n = (c', Ret ()) \<Longrightarrow> retryCount c' = 0 \<or> c' = c"
proof (induction K c n rule: readHandshakeBytes.induct)
  case (1 K c n)
  show ?case
  proof (cases "length (hand c) < n")
    case False
    then show ?thesis
      using 1(2) by (simp add: readHandshakeBytes.simps [of K c n])
  next
    case True
    obtain c1 r where r: "readRecord K c = (c1, r)"
      by fastforce
    then have "r = Ret ()" "readHandshakeBytes K c1 n = (c', Ret ())"
      using 1(2) True by (auto simp: readHandshakeBytes.simps [of K c n] split: exec.splits)
    then show ?thesis
      using 1(1) [OF True r [symmetric]] r advancing_resets [of K c c1] by (auto simp: readRecord_def)
  qed
qed

lemma readHandshake_retry:
  assumes "readHandshake R K c t = (c', t', Ret m)"
  shows "retryCount c' = 0 \<or> retryCount c' = retryCount c"
proof -
  obtain c1 r1 where h: "readHandshakeBytes K c 4 = (c1, r1)"
    by fastforce
  then have r1: "r1 = Ret ()"
    using assms by (auto simp: readHandshake_def no_message_def exec_simps split: if_splits)
  let ?n = "get_be (take 3 (drop 1 (hand c1)))"
  obtain c2 r2 where b: "readHandshakeBytes K c1 (4 + ?n) = (c2, r2)"
    by fastforce
  let ?c = "c2\<lparr>hand := drop (4 + ?n) (hand c2)\<rparr>"
  have r2: "r2 = Ret ()" "c' = fst (unmarshalHandshakeMessage R K ?c (take (4 + ?n) (hand c2)) t)"
    using assms h r1 b by (auto simp: readHandshake_def no_message_def exec_simps Let_def split: if_splits prod.splits)
  have "retryCount c' = retryCount c2"
    unfolding r2(2) using unmarshal_keeps [of ?c R K] by (simp add: same_part_def)
  then show ?thesis
    using readHandshakeBytes_retry [OF h [unfolded r1]] readHandshakeBytes_retry [OF b [unfolded r2(1)]] by auto
qed

lemma handlePostHandshakeMessage_retry:
  assumes "handlePostHandshakeMessage E c = (c', Ret ())" "\<not> isClient c" "c_vers c = VersionTLS13"
  shows "retryCount c' \<le> maxUselessRecords \<and> (retryCount c' = 1 \<or> retryCount c' = Suc (retryCount c))"
proof -
  obtain c1 t m where h: "readHandshake (reader E) (ops E) c None = (c1, t, m)"
    using prod_cases3 by blast
  obtain msg where m: "m = Ret msg"
    using assms h by (cases m) (simp_all add: handlePostHandshakeMessage_def)
  let ?c = "c1\<lparr>retryCount := retryCount c1 + 1\<rparr>"
  have u: "retryCount c1 = 0 \<or> retryCount c1 = retryCount c" "\<not> isClient ?c"
    using readHandshake_retry readHandshake_uses_up h m assms(2) by (fastforce simp: uses_up_def)+
  have small: "\<not> retryCount ?c > maxUselessRecords"
    using assms(1,3) h m by (auto simp: handlePostHandshakeMessage_def Let_def)
  then have "retryCount c' = retryCount ?c"
    using assms(1,3) h m u(2) handleKeyUpdate_input [of E ?c]
    by (auto simp: handlePostHandshakeMessage_def handleNewSessionTicket_def Let_def same_part_def
        split: handshakeMessage.splits)
  then show ?thesis
    using small u(1) by auto
qed

section \<open>Properties\<close>

text \<open>A connection of a server with the given half connections and nothing in transit.\<close>

definition idle_conn ::
  "('s, 'a, 'c, 'm) halfConn \<Rightarrow> ('s, 'a, 'c, 'm) halfConn \<Rightarrow> ('s, 'a, 'c, 'm) conn" where
  "idle_conn hin hout =
     \<lparr>isClient = False, c_vers = VersionTLS13, haveVers = True, isHandshakeComplete = True, handshakeErr = None,
      handshakes = 1, c_cipherSuite = TLS_AES_128_GCM_SHA256, Renegotiation = 0, closeNotifyErr = None, closeNotifySent = False,
      activeCall = 0, c_in = hin, c_out = hout, rawInput = [], c_input = [], hand = [], buffering = False,
      sendBuf = [], bytesSent = 0, packetsSent = 0, retryCount = 0, DynamicRecordSizingDisabled = False,
      c_rand = (\<lambda>i n. Ret (replicate n (of_nat i))), c_draws = 0, net_in = [], net_wr = [], net_out = [], write_expired = False,
      net_close = None, net_closed = False\<rparr>"

definition lib_env :: "(rc4, gcm_aead, aes_cbc, hash_fn \<times> bytes, bytes exec) conn_env" where
  "lib_env = \<lparr>ops = lib_ops, impl = lib_impl toy_hashes, hashes = toy_hashes, reader = ref_reader, builder = ref_builder,
     handshakeFn = (\<lambda>c. (c, Ret ())), clientHandshake = (\<lambda>c. (c, Ret ())), clientNewSessionTicket = (\<lambda>_ c. (c, Ret ()))\<rparr>"

text \<open>C13: the contract of \<open>readRecordOrCCS\<close>: when it returns nil, exactly one thing has happened.
  Without \<open>expectChangeCipherSpec\<close>, either \<open>hand\<close> grew, or the handshake is complete and \<open>input\<close>
  holds between 1 and \<open>maxPlaintext\<close> bytes; with it, \<open>in.changeCipherSpec\<close> was called and no handshake
  data is pending.\<close>

theorem read_contract:
  assumes "readRecordOrCCS K c x = (c', Ret ())"
  shows "(\<not> x \<and> (hand_grew c c' \<noteq> input_set c c') \<or> x \<and> ccs_done c c' \<and> \<not> hand_grew c c' \<and> \<not> input_set c c')"
  using readRecordOrCCS_Ret [OF assms] by (auto simp: hand_grew_def input_set_def ccs_done_def)

text \<open>Before the keys are set no cipher is called, and any operations do.\<close>

definition null_ops :: "(unit, unit, unit, unit) cipher_ops" where
  "null_ops =
     \<lparr>o_XORKeyStream = (\<lambda>s p. (s, p)), o_explicitNonceLen = (\<lambda>a. 0), o_Overhead = (\<lambda>a. 0),
      o_Seal = (\<lambda>a n p ad. Ret (a, p)), o_Open = (\<lambda>a n p ad. (a, Ret p)), o_BlockSize = (\<lambda>c. 1),
      o_SetIV = (\<lambda>c iv. c), o_CryptBlocks = (\<lambda>c p. (c, p)), o_MacSize = (\<lambda>m. 0), o_MacSum = (\<lambda>m p. [])\<rparr>"

definition null_env :: "(unit, unit, unit, unit, bytes exec) conn_env" where
  "null_env =
     \<lparr>ops = null_ops,
      impl = \<lparr>im_cipher = (\<lambda>_ _ _ _. Ret NilCipher), im_mac = (\<lambda>_ _. ()), im_aead = (\<lambda>_ _ _. Ret ())\<rparr>,
      hashes = toy_hashes, reader = ref_reader, builder = ref_builder,
      handshakeFn = (\<lambda>c. (c, Ret ())), clientHandshake = (\<lambda>c. (c, Ret ())), clientNewSessionTicket = (\<lambda>_ c. (c, Ret ()))\<rparr>"

text \<open>A connection before the first message, which is about to read a record that holds one byte.\<close>

definition first_read :: "('s, 'a, 'c, 'm) conn" where
  "first_read = (idle_conn zero_half zero_half)\<lparr>haveVers := False, c_vers := 0, isHandshakeComplete := False,
     net_in := [([22, 3], None), ([1, 0, 1, 5], None)]\<rparr>"

theorem read_contract_witness:
  "\<exists>c'. readRecordOrCCS null_ops first_read False = (c', Ret ()) \<and> hand c' = [5] \<and>
     hand_grew first_read c' \<and> \<not> input_set first_read c'"
proof -
  have "case readRecordOrCCS null_ops first_read False of (c, r) \<Rightarrow>
      (case r of Ret _ \<Rightarrow> hand c = [5] \<and> c_input c = [] | _ \<Rightarrow> False)"
    by code_simp
  then obtain c' where c': "readRecordOrCCS null_ops first_read False = (c', Ret ())" "hand c' = [5]" "c_input c' = []"
    by (auto split: prod.splits exec.splits)
  with read_contract [of null_ops first_read False c'] c' show ?thesis
    by (auto simp: input_set_def)
qed


text \<open>A failed read is final: after \<open>readRecordOrCCS\<close> returned an error other than a temporary
  network error, every further call returns this error (a network error as a permanent one) and
  changes nothing.\<close>

theorem read_error_sticky:
  assumes "readRecordOrCCS K c x = (c', Fail e)" and "\<not> (is_net_error e \<and> Temporary e)"
  shows "\<exists>e' \<in> {e, PermanentError e}. \<forall>y. readRecordOrCCS K c' y = (c', Fail e')"
  using readRecordOrCCS_stuck [OF assms] stuck_reads [of c'] by (auto simp: stuck_def)

theorem read_error_sticky_witness:
  "\<exists>c'. readRecordOrCCS null_ops (first_read\<lparr>net_in := []\<rparr>) False = (c', Fail ErrEOF) \<and>
     readRecordOrCCS null_ops c' False = (c', Fail ErrEOF)"
proof -
  have "case readRecordOrCCS null_ops (first_read\<lparr>net_in := []\<rparr>) False of (c, r) \<Rightarrow>
      r = Fail ErrEOF \<and> hc_err (c_in c) = Some ErrEOF"
    by code_simp
  then obtain c' where c': "readRecordOrCCS null_ops (first_read\<lparr>net_in := []\<rparr>) False = (c', Fail ErrEOF)"
    "hc_err (c_in c') = Some ErrEOF"
    by (auto split: prod.splits)
  from read_error_sticky [OF c'(1)] c' show ?thesis
    by (auto simp: stuck_reads)
qed


text \<open>C12: the limit on useless records.  A call of \<open>readRecordOrCCS\<close> that meets up to \<open>maxUselessRecords\<close>
  droppable records in a row (counted from the last that brought data) goes on behind them as if they had
  not come; the next one makes it send \<open>unexpected_message\<close> and fail, and never succeed; so whatever
  the peer sends, one call takes at most \<open>maxUselessRecords + 1\<close> records of bounded length from the
  transport.  After the handshake a server counts the messages in the same way: it handles at most
  \<open>maxUselessRecords\<close> of them before the next record that brings data.  Every such record sets the count to
  zero, one that holds only a key update too, so that nothing limits how many of those a peer sends.\<close>

theorem useless_records_bounded:
  assumes "drop_records K x n c = Some c1"
  shows "(retryCount c + n \<le> maxUselessRecords \<longrightarrow> readRecordOrCCS K c x = readRecordOrCCS K c1 x) \<and>
     (n > 0 \<and> retryCount c + n = maxUselessRecords + 1 \<longrightarrow>
        readRecordOrCCS K c x = alert_then K c1 alertUnexpectedMessage (ErrMsg ''tls: too many ignored records'') \<and>
        snd (readRecordOrCCS K c x) \<noteq> Ret ()) \<and>
     avail c \<le> avail (fst (readRecordOrCCS K c x)) + Suc (maxUselessRecords - retryCount c) * max_record \<and>
     (\<forall>E d d'. handlePostHandshakeMessage E d = (d', Ret ()) \<and> \<not> isClient d \<and> c_vers d = VersionTLS13 \<longrightarrow>
        retryCount d' \<le> maxUselessRecords \<and> (retryCount d' = 1 \<or> retryCount d' = Suc (retryCount d))) \<and>
     (\<forall>d d'. readRecordOrCCS K d False = (d', Ret ()) \<longrightarrow> retryCount d' = 0)"
proof (intro conjI impI allI)
  have "snd (alert_then K c1 a e) \<noteq> Ret ()" for a e
    using alert_then_not_Ret [of K c1 a e "fst (alert_then K c1 a e)"] by (metis prod.collapse)
  moreover assume "n > 0 \<and> retryCount c + n = maxUselessRecords + 1"
  ultimately show "readRecordOrCCS K c x = alert_then K c1 alertUnexpectedMessage (ErrMsg ''tls: too many ignored records'')"
    "snd (readRecordOrCCS K c x) \<noteq> Ret ()"
    using dropped_over [OF assms] by simp_all
qed (use dropped_on [OF assms] readRecordOrCCS_used [of c K x] handlePostHandshakeMessage_retry advancing_resets in blast)+

text \<open>A TLS 1.3 connection that dropped 15 records and gets two more alerts \<open>user_canceled\<close>.\<close>

definition canceled_conn :: "('s, 'a, 'c, 'm) conn" where
  "canceled_conn = (idle_conn zero_half zero_half)
     \<lparr>retryCount := 15, rawInput := [21, 3, 3, 0, 2, 1, 90, 21, 3, 3, 0, 2, 1, 90]\<rparr>"

lemma read_canceled:
  assumes "rawInput c = [21, 3, 3, 0, 2, 1, 90] @ rest" "hc_err (c_in c) = None" "c_input c = []" "hand c = []"
    "c_vers c = VersionTLS13" "haveVers c" "isHandshakeComplete c" "hc_cipher (c_in c) = NilCipher"
    "mac (c_in c) = None" "incSeq (c_in c) = Ret h" "hc_cipher h = NilCipher"
  shows "read_one null_ops c False = (c\<lparr>rawInput := rest, c_in := h\<rparr>, Inr ())"
proof -
  have f: "fetch_record null_ops c = (c\<lparr>rawInput := rest\<rparr>, Inr [21, 3, 3, 0, 2, 1, 90])"
    using assms by (simp add: fetch_record_def readFromUntil_def check_header_def recordHeaderLen_def
        record_types size_limits get_be_def get_u16_def version_ids Let_def)
  have "decrypt null_ops (c_in c) [21, 3, 3, 0, 2, 1, 90] = (h, Ret ([1, 90], 21))"
    using assms by (simp add: decrypt_def recordHeaderLen_def decrypt_cipher_def then_incSeq_def record_types Let_def)
  then have "open_record null_ops (c\<lparr>rawInput := rest\<rparr>) [21, 3, 3, 0, 2, 1, 90] =
      (c\<lparr>rawInput := rest, c_in := h\<rparr>, Inr (21, [1, 90]))"
    using assms by (simp add: open_record_def record_types size_limits)
  then show ?thesis
    using assms f by (simp add: read_one_def process_record_def record_types alert_ids)
qed

theorem useless_records_bounded_witness:
  "\<exists>c1. drop_records null_ops False 2 canceled_conn = Some c1 \<and> retryCount c1 = 17 \<and>
     readRecordOrCCS null_ops canceled_conn False =
       alert_then null_ops c1 alertUnexpectedMessage (ErrMsg ''tls: too many ignored records'')"
proof -
  define h1 :: "(unit, unit, unit, unit) halfConn" where "h1 = zero_half\<lparr>hc_seq := [0, 0, 0, 0, 0, 0, 0, 1]\<rparr>"
  define h2 :: "(unit, unit, unit, unit) halfConn" where "h2 = zero_half\<lparr>hc_seq := [0, 0, 0, 0, 0, 0, 0, 2]\<rparr>"
  have inc: "incSeq zero_half = Ret h1" "incSeq h1 = Ret h2"
    unfolding h1_def h2_def by code_simp+
  have "read_one null_ops canceled_conn False =
      (canceled_conn\<lparr>rawInput := [21, 3, 3, 0, 2, 1, 90], c_in := h1\<rparr>, Inr ())"
    by (rule read_canceled) (use inc in \<open>simp_all add: canceled_conn_def idle_conn_def zero_half_def h1_def\<close>)
  moreover define c2 where
    "c2 = canceled_conn\<lparr>rawInput := [21, 3, 3, 0, 2, 1, 90], c_in := h1, retryCount := 16\<rparr>"
  moreover have "read_one null_ops c2 False = (c2\<lparr>rawInput := [], c_in := h2\<rparr>, Inr ())"
    by (rule read_canceled) (use inc in \<open>simp_all add: c2_def canceled_conn_def idle_conn_def zero_half_def h1_def h2_def\<close>)
  ultimately have c1: "drop_records null_ops False 2 canceled_conn = Some (c2\<lparr>rawInput := [], c_in := h2, retryCount := 17\<rparr>)"
    by (simp add: numeral_2_eq_2 canceled_conn_def)
  have "retryCount canceled_conn + 2 = maxUselessRecords + 1"
    by (simp add: canceled_conn_def maxUselessRecords_def)
  with useless_records_bounded [OF c1] c1 show ?thesis
    by auto
qed

end
