(* ===== verification/Config.thy ===== *)
theory Config
  imports CipherSuites "HOL-Library.Sublist"
begin

text \<open>
  What the configuration decides: versions, curves and cipher suites (\<open>common.go\<close>, \<open>Config\<close>).
  \<open>fips\<close> is \<open>fips140tls.Required()\<close>.  A nil \<open>*Config\<close> is \<open>None\<close>.
\<close>

section \<open>The lists of \<open>defaults_fips140.go\<close>\<close>

definition allowedSupportedVersionsFIPS :: "u16 list" where
  "allowedSupportedVersionsFIPS = [VersionTLS12, VersionTLS13]"

definition allowedCurvePreferencesFIPS :: "CurveID list" where
  "allowedCurvePreferencesFIPS = [X25519MLKEM768, CurveP256, CurveP384, CurveP521]"

definition allowedSupportedSignatureAlgorithmsFIPS :: "SignatureScheme list" where
  "allowedSupportedSignatureAlgorithmsFIPS =
     [PSSWithSHA256, ECDSAWithP256AndSHA256, Ed25519, PSSWithSHA384, PSSWithSHA512,
      PKCS1WithSHA256, PKCS1WithSHA384, PKCS1WithSHA512, ECDSAWithP384AndSHA384, ECDSAWithP521AndSHA512]"

definition allowedCipherSuitesFIPS :: "u16 list" where
  "allowedCipherSuitesFIPS =
     [TLS_ECDHE_RSA_WITH_AES_128_GCM_SHA256, TLS_ECDHE_RSA_WITH_AES_256_GCM_SHA384,
      TLS_ECDHE_ECDSA_WITH_AES_128_GCM_SHA256, TLS_ECDHE_ECDSA_WITH_AES_256_GCM_SHA384,
      TLS_ECDHE_ECDSA_WITH_AES_128_CBC_SHA256, TLS_ECDHE_RSA_WITH_AES_128_CBC_SHA256]"

definition allowedCipherSuitesTLS13FIPS :: "u16 list" where
  "allowedCipherSuitesTLS13FIPS = [TLS_AES_128_GCM_SHA256, TLS_AES_256_GCM_SHA384]"

section \<open>The configuration\<close>

record config =
  MinVersion :: u16
  MaxVersion :: u16
  hasECHConfigList :: bool
  CurvePreferences :: "CurveID list"
  CipherSuites :: "u16 list option"

definition supportedVersions_all :: "u16 list" where
  "supportedVersions_all = [VersionTLS13, VersionTLS12, VersionTLS11, VersionTLS10]"

definition version_skipped :: "bool \<Rightarrow> config option \<Rightarrow> bool \<Rightarrow> u16 \<Rightarrow> bool" where
  "version_skipped fips c client v \<longleftrightarrow>
     fips \<and> v \<notin> set allowedSupportedVersionsFIPS \<or>
     (case c of None \<Rightarrow> True | Some c \<Rightarrow> MinVersion c = 0) \<and> v < VersionTLS12 \<or>
     client \<and> (case c of None \<Rightarrow> False | Some c \<Rightarrow> hasECHConfigList c) \<and> v < VersionTLS13 \<or>
     (case c of None \<Rightarrow> False | Some c \<Rightarrow> MinVersion c \<noteq> 0 \<and> v < MinVersion c) \<or>
     (case c of None \<Rightarrow> False | Some c \<Rightarrow> MaxVersion c \<noteq> 0 \<and> v > MaxVersion c)"

text \<open>A client with a nil configuration would dereference it; no caller passes one.\<close>

definition supportedVersions :: "bool \<Rightarrow> config option \<Rightarrow> bool \<Rightarrow> u16 list" where
  "supportedVersions fips c client = filter (\<lambda>v. \<not> version_skipped fips c client v) supportedVersions_all"

definition maxSupportedVersion :: "bool \<Rightarrow> config option \<Rightarrow> bool \<Rightarrow> u16" where
  "maxSupportedVersion fips c client = (case supportedVersions fips c client of [] \<Rightarrow> 0 | v # _ \<Rightarrow> v)"

definition supportedVersionsFromMax :: "u16 \<Rightarrow> u16 list" where
  "supportedVersionsFromMax maxVersion = filter (\<lambda>v. \<not> v > maxVersion) supportedVersions_all"

definition curvePreferences :: "bool \<Rightarrow> config option \<Rightarrow> u16 \<Rightarrow> CurveID list" where
  "curvePreferences fips c vers =
     (let curves = defaultCurvePreferences;
          curves = (if fips then filter (\<lambda>x. x \<in> set allowedCurvePreferencesFIPS) curves else curves);
          curves = (case c of
                      None \<Rightarrow> curves
                    | Some c \<Rightarrow> if CurvePreferences c \<noteq> [] then filter (\<lambda>x. x \<in> set (CurvePreferences c)) curves
                                else curves)
      in if vers < VersionTLS13 then filter (\<lambda>x. \<not> isTLS13OnlyKeyExchange x) curves else curves)"

definition supportsCurve :: "bool \<Rightarrow> config option \<Rightarrow> u16 \<Rightarrow> CurveID \<Rightarrow> bool" where
  "supportsCurve fips c vers curve \<longleftrightarrow> curve \<in> set (curvePreferences fips c vers)"

fun first_common :: "u16 list \<Rightarrow> u16 list \<Rightarrow> u16 \<times> bool" where
  "first_common own [] = (0, False)"
| "first_common own (v # vs) = (if v \<in> set own then (v, True) else first_common own vs)"

definition mutualVersion :: "bool \<Rightarrow> config option \<Rightarrow> bool \<Rightarrow> u16 list \<Rightarrow> u16 \<times> bool" where
  "mutualVersion fips c client peerVersions = first_common (supportedVersions fips c client) peerVersions"

definition config_cipherSuites :: "bool \<Rightarrow> config \<Rightarrow> bool \<Rightarrow> u16 list" where
  "config_cipherSuites fips c aesGCMPreferred =
     (let suites = (case CipherSuites c of
                      None \<Rightarrow> defaultCipherSuites aesGCMPreferred
                    | Some ids \<Rightarrow> filter (\<lambda>i. i \<in> set ids) (supportedCipherSuites aesGCMPreferred))
      in if fips then filter (\<lambda>i. i \<in> set allowedCipherSuitesFIPS) suites else suites)"

definition config_supportedCipherSuites :: "bool \<Rightarrow> config \<Rightarrow> u16 list" where
  "config_supportedCipherSuites fips c = config_cipherSuites fips c False"

definition supportedSignatureAlgorithms :: "bool \<Rightarrow> SignatureScheme list" where
  "supportedSignatureAlgorithms fips =
     (if fips then allowedSupportedSignatureAlgorithmsFIPS else defaultSupportedSignatureAlgorithms)"

definition isSupportedSignatureAlgorithm :: "SignatureScheme \<Rightarrow> SignatureScheme list \<Rightarrow> bool" where
  "isSupportedSignatureAlgorithm sigAlg algs \<longleftrightarrow> sigAlg \<in> set algs"

section \<open>Properties\<close>

lemma find_first: "find P xs = Some x \<longleftrightarrow> (\<exists>us ws. xs = us @ x # ws \<and> P x \<and> list_all (\<lambda>u. \<not> P u) us)"
proof (induction xs)
  case (Cons y xs)
  show ?case
  proof (cases "P y")
    case True
    then show ?thesis
      by (auto simp: Cons_eq_append_conv)
  next
    case False
    have "(\<exists>us ws. y # xs = us @ x # ws \<and> P x \<and> list_all (\<lambda>u. \<not> P u) us) \<longleftrightarrow>
        (\<exists>us ws. xs = us @ x # ws \<and> P x \<and> list_all (\<lambda>u. \<not> P u) us)" (is "?l \<longleftrightarrow> ?r")
    proof
      assume ?l
      then obtain us ws where "y # xs = us @ x # ws" "P x" "list_all (\<lambda>u. \<not> P u) us"
        by blast
      with False show ?r
        by (cases us) auto
    next
      assume ?r
      then obtain us ws where "xs = us @ x # ws" "P x" "list_all (\<lambda>u. \<not> P u) us"
        by blast
      with False show ?l
        by (intro exI [of _ "y # us"] exI [of _ ws]) auto
    qed
    with False Cons show ?thesis
      by simp
  qed
qed simp

lemma first_common_find:
  "first_common own vs = (case find (\<lambda>v. v \<in> set own) vs of None \<Rightarrow> (0, False) | Some v \<Rightarrow> (v, True))"
  by (induction vs) auto

lemma first_common_iff:
  "first_common own vs = (v, True) \<longleftrightarrow> (\<exists>us ws. vs = us @ v # ws \<and> v \<in> set own \<and> set us \<inter> set own = {})"
  using find_first [of "\<lambda>v. v \<in> set own" vs v]
  by (auto simp: first_common_find list_all_iff disjoint_iff split: option.splits)

lemma first_common_none: "first_common own vs = (v, False) \<longleftrightarrow> v = 0 \<and> set vs \<inter> set own = {}"
  by (induction vs) auto

lemma supportedVersions_range:
  assumes "v \<in> set (supportedVersions fips (Some c) client)"
  shows "v \<in> {VersionTLS10, VersionTLS11, VersionTLS12, VersionTLS13}"
    "MinVersion c = 0 \<Longrightarrow> VersionTLS12 \<le> v" "MinVersion c \<le> v" "MaxVersion c \<noteq> 0 \<Longrightarrow> v \<le> MaxVersion c"
    "fips \<Longrightarrow> VersionTLS12 \<le> v"
proof -
  have v: "v \<in> set supportedVersions_all" "\<not> version_skipped fips (Some c) client v"
    using assms by (simp_all add: supportedVersions_def)
  show "v \<in> {VersionTLS10, VersionTLS11, VersionTLS12, VersionTLS13}"
    using v(1) by (auto simp: supportedVersions_all_def)
  show "MinVersion c = 0 \<Longrightarrow> VersionTLS12 \<le> v" "MaxVersion c \<noteq> 0 \<Longrightarrow> v \<le> MaxVersion c"
    using v(2) by (simp_all add: version_skipped_def not_less)
  show "MinVersion c \<le> v"
    using v(2) by (cases "MinVersion c = 0") (simp_all add: version_skipped_def not_less)
  show "fips \<Longrightarrow> VersionTLS12 \<le> v"
    using v(2) by (auto simp: version_skipped_def allowedSupportedVersionsFIPS_def version_ids)
qed

text \<open>Version negotiation: \<open>mutualVersion\<close> returns the first version of the peer's list that lies in
  the configured range, at least TLS 1.2 when no minimum is configured and when FIPS mode is on; it
  reports failure exactly when no version of the peer qualifies.\<close>

theorem mutualVersion_first:
  assumes "mutualVersion fips (Some c) client peer = (v, ok)"
  shows "(ok \<longrightarrow> (\<exists>us ws. peer = us @ v # ws \<and> set us \<inter> set (supportedVersions fips (Some c) client) = {}) \<and>
            v \<in> {VersionTLS10, VersionTLS11, VersionTLS12, VersionTLS13} \<and> MinVersion c \<le> v \<and>
            (MaxVersion c \<noteq> 0 \<longrightarrow> v \<le> MaxVersion c) \<and> (MinVersion c = 0 \<or> fips \<longrightarrow> VersionTLS12 \<le> v)) \<and>
     (\<not> ok \<longrightarrow> set peer \<inter> set (supportedVersions fips (Some c) client) = {})"
proof (cases ok)
  case True
  then obtain us ws where split: "peer = us @ v # ws" "v \<in> set (supportedVersions fips (Some c) client)"
    "set us \<inter> set (supportedVersions fips (Some c) client) = {}"
    using assms by (auto simp: mutualVersion_def first_common_iff)
  with True supportedVersions_range [OF split(2)] show ?thesis
    by blast
qed (use assms in \<open>simp add: mutualVersion_def first_common_none\<close>)

definition default_config :: config where
  "default_config = \<lparr>MinVersion = 0, MaxVersion = 0, hasECHConfigList = False, CurvePreferences = [], CipherSuites = None\<rparr>"

theorem mutualVersion_first_witness:
  "mutualVersion False (Some default_config) False [0x0304, 0x0303] = (0x0304, True) \<and> VersionTLS12 \<le> 0x0304"
proof -
  have m: "mutualVersion False (Some default_config) False [0x0304, 0x0303] = (0x0304, True)"
    by code_simp
  show ?thesis
    using mutualVersion_first [OF m] m by (simp add: default_config_def)
qed

text \<open>The configured lists only filter: every suite and curve that is offered is one the
  defaults offer, or, for suites, one that is both listed by the user and implemented; the order
  is the library's, and no TLS 1.3 key exchange is offered below TLS 1.3.\<close>

theorem config_lists_filter:
  "subseq (config_cipherSuites fips c aes) (supportedCipherSuites aes) \<and>
   (CipherSuites c = None \<longrightarrow> subseq (config_cipherSuites fips c aes) (defaultCipherSuites aes)) \<and>
   (\<forall>ids. CipherSuites c = Some ids \<longrightarrow> set (config_cipherSuites fips c aes) \<subseteq> set ids) \<and>
   subseq (curvePreferences fips (Some c) vers) defaultCurvePreferences \<and>
   (vers < VersionTLS13 \<longrightarrow> X25519MLKEM768 \<notin> set (curvePreferences fips (Some c) vers))"
proof -
  have f: "subseq (filter P xs) ys" if "subseq xs ys" for P and xs ys :: "u16 list"
    using that subseq_filter_left subseq_order.trans by blast
  have "subseq (config_cipherSuites fips c aes) (supportedCipherSuites aes)"
    by (cases "CipherSuites c") (simp_all add: config_cipherSuites_def defaultCipherSuites_def Let_def f)
  moreover have "CipherSuites c = None \<longrightarrow> subseq (config_cipherSuites fips c aes) (defaultCipherSuites aes)"
    by (simp add: config_cipherSuites_def Let_def f)
  moreover have "\<forall>ids. CipherSuites c = Some ids \<longrightarrow> set (config_cipherSuites fips c aes) \<subseteq> set ids"
    by (auto simp: config_cipherSuites_def Let_def split: if_splits)
  moreover have "subseq (curvePreferences fips (Some c) vers) defaultCurvePreferences"
    by (simp add: curvePreferences_def Let_def f)
  moreover have "vers < VersionTLS13 \<longrightarrow> X25519MLKEM768 \<notin> set (curvePreferences fips (Some c) vers)"
    by (simp add: curvePreferences_def Let_def isTLS13OnlyKeyExchange_def)
  ultimately show ?thesis
    by blast
qed

theorem config_lists_filter_witness:
  "config_cipherSuites False (default_config\<lparr>CipherSuites := Some [0x009c, 0xc02f, 7]\<rparr>) True = [0xc02f, 0x009c] \<and>
   subseq [0xc02f, 0x009c] (supportedCipherSuites True)"
proof -
  have c: "config_cipherSuites False (default_config\<lparr>CipherSuites := Some [0x009c, 0xc02f, 7]\<rparr>) True = [0xc02f, 0x009c]"
    by code_simp
  show ?thesis
    using config_lists_filter [of False "default_config\<lparr>CipherSuites := Some [0x009c, 0xc02f, 7]\<rparr>" True 0] c by simp
qed

end
