(* ===== verification/ClientHelloRead.thy ===== *)
theory ClientHelloRead
  imports ConnSafety Config RealityAuth
begin

text \<open>
  \<open>readClientHello\<close> (\<open>handshake_server.go\<close>) with the part of \<open>processECHClientHello\<close> (\<open>ech.go\<close>) that a
  configuration without \<open>EncryptedClientHelloKeys\<close> reaches, and what the first goroutine of \<open>Server\<close>
  (\<open>tls.go\<close>) makes of it on the mirrored connection.
\<close>

section \<open>Encrypted ClientHello\<close>

definition errMalformedECHExt :: err where
  "errMalformedECHExt = ErrMsg ''tls: malformed encrypted_client_hello extension''"
definition errInvalidECHExt :: err where
  "errInvalidECHExt = ErrMsg ''tls: client sent invalid encrypted_client_hello extension''"

definition innerECHExt :: byte where "innerECHExt = 1"
definition outerECHExt :: byte where "outerECHExt = 0"

record ech_ext =
  ee_type :: byte
  ee_KDFID :: u16
  ee_AEADID :: u16
  ee_configID :: byte
  ee_encap :: bytes
  ee_payload :: bytes

definition parseECHExt :: "reader_ops \<Rightarrow> bytes \<Rightarrow> ech_ext exec" where
  "parseECHExt R ext =
     (case r_ReadUint8 R ext of
        None \<Rightarrow> Fail errMalformedECHExt
      | Some (echType, s) \<Rightarrow>
          if echType = innerECHExt then
            if \<not> r_Empty R s then Fail errMalformedECHExt
            else Ret \<lparr>ee_type = echType, ee_KDFID = 0, ee_AEADID = 0, ee_configID = 0, ee_encap = [], ee_payload = []\<rparr>
          else if echType \<noteq> outerECHExt then Fail errInvalidECHExt
          else
            (case do {(kdf, s) \<leftarrow> r_ReadUint16 R s;
                      (aead, s) \<leftarrow> r_ReadUint16 R s;
                      (configID, s) \<leftarrow> r_ReadUint8 R s;
                      (encap, s) \<leftarrow> readUint16LengthPrefixed R s;
                      (payload, s) \<leftarrow> readUint16LengthPrefixed R s;
                      Some \<lparr>ee_type = echType, ee_KDFID = kdf, ee_AEADID = aead, ee_configID = configID,
                            ee_encap = encap, ee_payload = payload\<rparr>} of
               None \<Rightarrow> Fail errMalformedECHExt
             | Some e \<Rightarrow> Ret e))"

text \<open>The result is the hello to go on with and whether there is a context, an inner one.\<close>

definition fail_alert ::
  "('s, 'a, 'c, 'm) cipher_ops \<Rightarrow> ('s, 'a, 'c, 'm) conn \<Rightarrow> byte \<Rightarrow> err \<Rightarrow> ('s, 'a, 'c, 'm) conn \<times> 'x exec" where
  "fail_alert K c a e = (case alert_and K c a e of (c, Panic p) \<Rightarrow> (c, Panic p) | (c, _) \<Rightarrow> (c, Fail e))"

definition processECHClientHello ::
  "reader_ops \<Rightarrow> ('s, 'a, 'c, 'm) cipher_ops \<Rightarrow> ('s, 'a, 'c, 'm) conn \<Rightarrow> clientHelloMsg
     \<Rightarrow> ('s, 'a, 'c, 'm) conn \<times> (clientHelloMsg \<times> bool option) exec" where
  "processECHClientHello R K c outer =
     (case parseECHExt R (ch_encryptedClientHello outer) of
        Fail e \<Rightarrow> fail_alert K c (if e = errInvalidECHExt then alertIllegalParameter else alertDecodeError) errInvalidECHExt
      | Panic p \<Rightarrow> (c, Panic p)
      | Ret ext \<Rightarrow> if ee_type ext = innerECHExt then (c, Ret (outer, Some True)) else (c, Ret (outer, None)))"

section \<open>\<open>readClientHello\<close>\<close>

text \<open>The versions the client offers.\<close>

definition client_versions :: "clientHelloMsg \<Rightarrow> u16 list" where
  "client_versions m =
     (if ch_vers m \<ge> VersionTLS13 \<and> ch_supportedVersions m = [] then supportedVersionsFromMax VersionTLS12
      else if ch_supportedVersions m = [] then supportedVersionsFromMax (ch_vers m)
      else ch_supportedVersions m)"

text \<open>
  \<open>GetConfigForClient\<close> is \<open>None\<close> when it is nil; its result \<open>None\<close> keeps the configuration.  The ticket
  keys are left out: nothing on the way of a REALITY connection uses them.
\<close>

definition hello_config ::
  "('s, 'a, 'c, 'm) cipher_ops \<Rightarrow> (clientHelloMsg \<Rightarrow> config option exec) option \<Rightarrow> config
     \<Rightarrow> ('s, 'a, 'c, 'm) conn \<Rightarrow> clientHelloMsg \<Rightarrow> ('s, 'a, 'c, 'm) conn \<times> config exec" where
  "hello_config K getConfig cfg c m =
     (case getConfig of
        None \<Rightarrow> (c, Ret cfg)
      | Some f \<Rightarrow>
          (case f m of
             Fail e \<Rightarrow> fail_alert K c alertInternalError e
           | Panic p \<Rightarrow> (c, Panic p)
           | Ret None \<Rightarrow> (c, Ret cfg)
           | Ret (Some cfg') \<Rightarrow> (c, Ret cfg')))"

definition negotiate_version ::
  "('s, 'a, 'c, 'm) cipher_ops \<Rightarrow> bool \<Rightarrow> config \<Rightarrow> ('s, 'a, 'c, 'm) conn \<Rightarrow> clientHelloMsg \<Rightarrow> bool option
     \<Rightarrow> ('s, 'a, 'c, 'm) conn \<times> (clientHelloMsg \<times> bool option) exec" where
  "negotiate_version K fips cfg c m ech =
     (let (v, ok) = mutualVersion fips (Some cfg) False (client_versions m);
          c = c\<lparr>c_vers := v\<rparr>
      in if \<not> ok then fail_alert K c alertProtocolVersion (ErrMsg ''tls: client offered only unsupported versions'')
         else let c = c\<lparr>haveVers := True, c_in := (c_in c)\<lparr>version := v\<rparr>, c_out := (c_out c)\<lparr>version := v\<rparr>\<rparr>
              in if v \<noteq> VersionTLS13 \<and> ech = Some False
                 then fail_alert K c alertIllegalParameter
                        (ErrMsg ''tls: Encrypted Client Hello cannot be used pre-TLS 1.3'')
                 else (c, Ret (m, ech)))"

definition readClientHello ::
  "reader_ops \<Rightarrow> ('s, 'a, 'c, 'm) cipher_ops \<Rightarrow> bool \<Rightarrow> (clientHelloMsg \<Rightarrow> config option exec) option \<Rightarrow> config
     \<Rightarrow> ('s, 'a, 'c, 'm) conn \<Rightarrow> ('s, 'a, 'c, 'm) conn \<times> (clientHelloMsg \<times> bool option) exec" where
  "readClientHello R K fips getConfig cfg c =
     (case readHandshake R K c None of
        (c, _, Fail e) \<Rightarrow> (c, Fail e)
      | (c, _, Panic p) \<Rightarrow> (c, Panic p)
      | (c, _, Ret (ClientHello m)) \<Rightarrow>
          (case (if ch_encryptedClientHello m \<noteq> [] then processECHClientHello R K c m else (c, Ret (m, None))) of
             (c, Fail e) \<Rightarrow> (c, Fail e)
           | (c, Panic p) \<Rightarrow> (c, Panic p)
           | (c, Ret (m, ech)) \<Rightarrow>
               (case hello_config K getConfig cfg c m of
                  (c, Fail e) \<Rightarrow> (c, Fail e)
                | (c, Panic p) \<Rightarrow> (c, Panic p)
                | (c, Ret cfg) \<Rightarrow> negotiate_version K fips cfg c m ech))
      | (c, _, Ret _) \<Rightarrow> fail_alert K c alertUnexpectedMessage (ErrMsg ''tls: received unexpected handshake message''))"

section \<open>The first goroutine\<close>

text \<open>
  The connection \<open>Server\<close> creates: nothing is known of it but what the client sends; \<open>Write\<close> of the
  mirror always fails, and \<open>readClientHello\<close> tries a few alerts at most.
\<close>

definition mirror_conn :: "(bytes \<times> err option) list \<Rightarrow> (nat \<Rightarrow> rand_source) \<Rightarrow> (unit, unit, unit, unit) conn" where
  "mirror_conn evs rnd =
     \<lparr>isClient = False, c_vers = 0, haveVers = False, isHandshakeComplete = False, handshakeErr = None,
      handshakes = 0, c_cipherSuite = 0, Renegotiation = 0, closeNotifyErr = None, closeNotifySent = False,
      activeCall = 0, c_in = zero_half, c_out = zero_half, rawInput = [], c_input = [], hand = [], buffering = False,
      sendBuf = [], bytesSent = 0, packetsSent = 0, retryCount = 0, DynamicRecordSizingDisabled = False,
      c_rand = rnd, c_draws = 0, net_in = evs, net_wr = replicate 16 (0, Some (ErrMsg ''Write'')), net_out = [],
      write_expired = False, net_close = Some (ErrMsg ''Close()''), net_closed = False\<rparr>"

record server_env =
  se_reader :: reader_ops
  se_ops :: "(unit, unit, unit, unit) cipher_ops"
  se_crypto :: x_crypto
  se_hashes :: std_hashes
  se_fips :: bool
  se_getConfig :: "(clientHelloMsg \<Rightarrow> config option exec) option"
  se_config :: config
  se_reality :: reality_config
  se_now :: int
  se_rand :: "nat \<Rightarrow> rand_source"

text \<open>
  What the goroutine decides once the client has sent \<open>evs\<close>: \<open>None\<close> while \<open>readClientHello\<close> waits for
  more, which shows when it also takes an event put behind them.
\<close>

definition waiting :: "bytes \<times> err option" where
  "waiting = ([], Some (NetError ''would block'' True))"

definition server_auth :: "server_env \<Rightarrow> bool \<Rightarrow> (bytes \<times> err option) list \<Rightarrow> (bool \<times> auth_state) exec option" where
  "server_auth E copying evs =
     (let (c, r) = readClientHello (se_reader E) (se_ops E) (se_fips E) (se_getConfig E) (se_config E)
                     (mirror_conn (evs @ [waiting]) (se_rand E))
      in if net_in c = [] then None
         else Some (case r of
           Panic p \<Rightarrow> Panic p
         | Fail e \<Rightarrow> client_section (se_crypto E) (se_hashes E) (se_reality E) (se_now E) 0 copying (c_vers c) None (Some e)
         | Ret (m, _) \<Rightarrow>
             client_section (se_crypto E) (se_hashes E) (se_reality E) (se_now E) 0 copying (c_vers c) (Some m) None))"

section \<open>Properties\<close>

lemma fail_alert_not_Ret [simp]: "fail_alert K c a e \<noteq> (c', Ret x)"
  by (auto simp: fail_alert_def split: prod.splits exec.splits)

text \<open>C9: a ClientHello that \<open>readClientHello\<close> returns settles the version: it is one the client offers
  and the configuration in force allows, the first such in the client's order, and the connection
  and both of its halves have it.\<close>

theorem readClientHello_version:
  assumes "readClientHello R K fips getConfig cfg c = (c', Ret (m, ech))"
  shows "\<exists>cfg'. (getConfig = None \<longrightarrow> cfg' = cfg) \<and>
     mutualVersion fips (Some cfg') False (client_versions m) = (c_vers c', True) \<and>
     c_vers c' \<in> set (client_versions m) \<and> c_vers c' \<in> set (supportedVersions fips (Some cfg') False) \<and>
     haveVers c' \<and> version (c_in c') = c_vers c' \<and> version (c_out c') = c_vers c'"
proof -
  obtain c1 m1 ech1 c2 cfg' where h: "hello_config K getConfig cfg c1 m1 = (c2, Ret cfg')"
    and n: "negotiate_version K fips cfg' c2 m1 ech1 = (c', Ret (m, ech))"
    using assms
    by (auto simp: readClientHello_def split: prod.splits exec.splits handshakeMessage.splits if_splits)
  have "getConfig = None \<longrightarrow> cfg' = cfg"
    using h by (auto simp: hello_config_def)
  moreover have v: "mutualVersion fips (Some cfg') False (client_versions m) = (c_vers c', True)"
    "haveVers c'" "version (c_in c') = c_vers c'" "version (c_out c') = c_vers c'"
    using n by (auto simp: negotiate_version_def Let_def split: prod.splits if_splits)
  moreover have "c_vers c' \<in> set (client_versions m)" "c_vers c' \<in> set (supportedVersions fips (Some cfg') False)"
    using v(1) first_common_iff [of "supportedVersions fips (Some cfg') False" "client_versions m" "c_vers c'"]
    by (auto simp: mutualVersion_def)
  ultimately show ?thesis
    by blast
qed

lemma failed_read_fails_hello:
  assumes "read_one K c False = (c', Inl (Fail e))" "hand c = []"
  shows "readClientHello R K fips getConfig cfg c = (c', Fail e)"
proof -
  have "readRecord K c = (c', Fail e)"
    using assms(1) by (simp add: readRecord_def readRecordOrCCS.simps)
  then have "readHandshakeBytes K c 4 = (c', Fail e)"
    using assms(2) by (simp add: readHandshakeBytes.simps)
  then show ?thesis
    by (simp add: readClientHello_def readHandshake_def no_message_def)
qed

lemma failed_read_panics:
  assumes "read_one (se_ops E) (mirror_conn (evs @ [waiting]) (se_rand E)) False = (c', Inl (Fail e))" "net_in c' \<noteq> []"
  shows "server_auth E copying evs = Some (Panic ''invalid memory address or nil pointer dereference'')"
proof -
  have "hand (mirror_conn (evs @ [waiting]) (se_rand E)) = []"
    by (simp add: mirror_conn_def)
  from failed_read_fails_hello [OF assms(1) this] assms(2) show ?thesis
    by (simp add: server_auth_def client_section_def)
qed

text \<open>C10: the server does not survive a peer that does not speak TLS: whatever the configuration, when a
  client closes at once, or when its first five bytes are not the header of an alert or a handshake
  record, \<open>readClientHello\<close> returns a nil ClientHello, and the first goroutine of \<open>Server\<close>, which looks up
  its server name before it checks the error, panics; nothing recovers there.\<close>

theorem not_tls_panics:
  assumes "5 \<le> length bs" and "bs ! 0 \<notin> {recordTypeAlert, recordTypeHandshake, 0x80}"
  shows "server_auth E copying [(bs, None)] = Some (Panic ''invalid memory address or nil pointer dereference'') \<and>
     server_auth E copying [([], Some ErrEOF)] = Some (Panic ''invalid memory address or nil pointer dereference'')"
  proof
  obtain b0 b1 b2 b3 b4 rest where bs: "bs = b0 # b1 # b2 # b3 # b4 # rest"
    using assms(1) by (auto simp: Suc_le_length_iff eval_nat_numeral)
  note run = read_one_def fetch_record_def readFromUntil_def mirror_conn_def zero_half_def read_failed_def
    recordHeaderLen_def in_setErrorLocked_def setErrorLocked_def returning_def Let_def waiting_def
  have "\<exists>c' e. read_one (se_ops E) (mirror_conn ([(bs, None)] @ [waiting]) (se_rand E)) False = (c', Inl (Fail e)) \<and> net_in c' \<noteq> []"
    using assms(2) by (simp add: run bs check_header_def err_exec_def)
  then show "server_auth E copying [(bs, None)] = Some (Panic ''invalid memory address or nil pointer dereference'')"
    using failed_read_panics by blast
  have "\<exists>c' e. read_one (se_ops E) (mirror_conn ([([], Some ErrEOF)] @ [waiting]) (se_rand E)) False = (c', Inl (Fail e)) \<and> net_in c' \<noteq> []"
    by (simp add: run err_exec_def)
  then show "server_auth E copying [([], Some ErrEOF)] = Some (Panic ''invalid memory address or nil pointer dereference'')"
    using failed_read_panics by blast
qed

text \<open>A small ClientHello for TLS 1.3 that has been received, and a server.\<close>

definition hello_bytes :: bytes where
  "hello_bytes =
     [1, 0, 0, 124, 3, 3] @ replicate 32 5 @ [32] @ replicate 32 0 @ [0, 2, 0x13, 1, 1, 0, 0, 49] @
     [0, 43, 0, 3, 2, 3, 4, 0, 51, 0, 38, 0, 36, 0, 29, 0, 32] @ replicate 32 9"

definition hello_conn :: "(unit, unit, unit, unit) conn" where
  "hello_conn = (mirror_conn [] (\<lambda>_ n. Ret (replicate n 0)))\<lparr>hand := hello_bytes\<rparr>"

definition demo_server :: server_env where
  "demo_server = \<lparr>se_reader = ref_reader, se_ops = null_ops, se_crypto = demo_crypto, se_hashes = toy_hashes, se_fips = False,
     se_getConfig = None, se_config = default_config, se_reality = demo_config, se_now = 130 * second,
     se_rand = (\<lambda>_ n. Ret (replicate n 0))\<rparr>"

theorem readClientHello_version_witness:
  "\<exists>c' m. readClientHello ref_reader null_ops False None default_config hello_conn = (c', Ret (m, None)) \<and>
     c_vers c' = VersionTLS13 \<and> VersionTLS13 \<in> set (supportedVersions False (Some default_config) False)"
proof -
  have "case ch_unmarshal ref_reader hello_bytes of
      None \<Rightarrow> False
    | Some m \<Rightarrow> ch_encryptedClientHello m = [] \<and> client_versions m = [VersionTLS13]"
    by code_simp
  then obtain m where u: "ch_unmarshal ref_reader hello_bytes = Some m"
    and m: "ch_encryptedClientHello m = []" "client_versions m = [VersionTLS13]"
    by (auto split: option.splits)
  have p: "parse_message ref_reader 0 hello_bytes = Some (Ret (Some (ClientHello m)))"
  proof -
    have "hello_bytes ! 0 = 1"
      by (simp add: hello_bytes_def)
    with u show ?thesis
      by (simp add: parse_message_def handshake_types parsed_def Let_def)
  qed
  have len: "length hello_bytes = 128" "get_be (take 3 (drop 1 hello_bytes)) = 124"
    by (simp_all add: hello_bytes_def get_be_def)
  have hand: "hand hello_conn = hello_bytes" "haveVers hello_conn = False" "c_vers hello_conn = 0"
    by (simp_all add: hello_conn_def mirror_conn_def)
  have bytes: "readHandshakeBytes null_ops hello_conn n = (hello_conn, Ret ())" if "n \<le> 128" for n
    using that len(1) by (simp add: readHandshakeBytes.simps [of null_ops hello_conn] hand)
  have "readHandshake ref_reader null_ops hello_conn None = (hello_conn\<lparr>hand := []\<rparr>, None, Ret (ClientHello m))"
    using len p
    by (simp add: readHandshake_def bytes hand Let_def maxHandshake_def unmarshalHandshakeMessage_def transcript_Write_def)
  moreover have "mutualVersion False (Some default_config) False [VersionTLS13] = (VersionTLS13, True)"
    by code_simp
  ultimately obtain c' where c': "readClientHello ref_reader null_ops False None default_config hello_conn = (c', Ret (m, None))"
    "c_vers c' = VersionTLS13"
    using m by (simp add: readClientHello_def hello_config_def negotiate_version_def Let_def)
  then show ?thesis
    using readClientHello_version [OF c'(1)] by auto
qed

theorem not_tls_panics_witness:
  "server_auth demo_server False [(map of_char ''GET /'', None)] =
     Some (Panic ''invalid memory address or nil pointer dereference'')"
proof -
  have "map of_char ''GET /'' = [71, 69, 84, 32, 47 :: byte]"
    by code_simp
  then show ?thesis
    using not_tls_panics [of "[71, 69, 84, 32, 47]" demo_server False] by (simp add: record_types)
qed

end
