(* ===== verification/RealityServer.thy ===== *)
theory RealityServer
  imports TargetRecording ClientHelloRead
begin

text \<open>
  The two goroutines of \<open>Server\<close> (\<open>tls.go\<close>), interleaved: the first reads the ClientHello through the
  mirror, which sends every byte on to the target, and decides whether the client is one of ours;
  the second reads the target, and either forwards or answers.  One step is what a goroutine does
  between two calls that wait for the network, with the mutex held or after it was released.
\<close>

section \<open>State\<close>

text \<open>
  The first goroutine reads the ClientHello, copies from the client to the target, is done, or has
  taken the process down with a panic.
\<close>

datatype phaseA = AReading | AForwarding | ADone | ACrashed

text \<open>
  The second goroutine reads the target, has left the loop and released the mutex, forwards to the
  client, has started to answer by itself, or is done.
\<close>

datatype phaseB = BReading | BAfter | BForwarding | BAnswering | BDone

record server =
  sv_a :: phaseA
  sv_b :: phaseB
  sv_copying :: bool
  sv_stole :: bool
  sv_direct :: bool          \<comment> \<open>\<open>hs.c.conn == conn\<close>\<close>
  sv_rec :: recording
  sv_copier :: bool          \<comment> \<open>the goroutine that is added after an invalid Server Hello\<close>
  sv_events :: "(bytes \<times> err option) list"  \<comment> \<open>what the mirror's reads returned\<close>
  from_client :: bytes
  to_target :: bytes
  from_target :: bytes
  to_client :: bytes
  target_closed :: bool
  client_closed :: bool

definition server_init :: server where
  "server_init =
     \<lparr>sv_a = AReading, sv_b = BReading, sv_copying = False, sv_stole = False, sv_direct = False,
      sv_rec = recording_init, sv_copier = False, sv_events = [], from_client = [], to_target = [],
      from_target = [], to_client = [], target_closed = False, client_closed = False\<rparr>"

section \<open>Steps\<close>

definition send_target :: "bytes \<Rightarrow> server \<Rightarrow> server" where
  "send_target bs s = (if target_closed s then s else s\<lparr>to_target := to_target s @ bs\<rparr>)"

definition send_client :: "bytes \<Rightarrow> server \<Rightarrow> server" where
  "send_client bs s = (if client_closed s then s else s\<lparr>to_client := to_client s @ bs\<rparr>)"

text \<open>\<open>MirrorConn.Read\<close>.\<close>

definition mirror_Read :: "bytes \<times> err option \<Rightarrow> server \<Rightarrow> server" where
  "mirror_Read ev s =
     (let s = s\<lparr>sv_events := sv_events s @ [ev], from_client := from_client s @ fst ev\<rparr>;
          s = (if fst ev \<noteq> [] then send_target (fst ev) s else s)
      in if snd ev \<noteq> None then s\<lparr>target_closed := True\<rparr> else s)"

text \<open>
  The first goroutine after a read of the mirror: \<open>auth\<close> is what \<open>readClientHello\<close> and the check of the
  client make of the events so far.
\<close>

definition first_section :: "(bool \<times> bool) exec option \<Rightarrow> server \<Rightarrow> server" where
  "first_section r s =
     (case r of
        None \<Rightarrow> s
      | Some (Ret (stole, is_direct)) \<Rightarrow>
          s\<lparr>sv_stole := stole, sv_direct := is_direct, sv_a := if \<not> is_direct \<and> \<not> stole then AForwarding else ADone\<rparr>
      | Some _ \<Rightarrow> s\<lparr>sv_a := ACrashed\<rparr>)"

text \<open>The second goroutine after a read of the target.\<close>

definition second_section :: "reader_ops \<Rightarrow> bytes \<Rightarrow> server \<Rightarrow> server" where
  "second_section R chunk s =
     (let (copying, rec, r) = target_section R (sv_direct s) (sv_stole s) (sv_copying s) (sv_rec s) chunk;
          s = s\<lparr>from_target := from_target s @ chunk, sv_copying := copying, sv_rec := rec\<rparr>
      in s\<lparr>sv_b := case r of More \<Rightarrow> BReading | Ready \<Rightarrow> BAnswering | Abandon \<Rightarrow> BAfter\<rparr>)"

text \<open>The code behind its loop.\<close>

definition after_loop :: "server \<Rightarrow> server" where
  "after_loop s =
     (if out_lens (sv_rec s) ! 0 = 0 then
        let s = s\<lparr>sv_copier := sv_direct s\<rparr>
        in if \<not> sv_stole s then (send_client (s2cSaved (sv_rec s)) s)\<lparr>sv_b := BForwarding\<rparr>
           else s\<lparr>sv_b := BDone\<rparr>
      else s\<lparr>sv_b := BDone\<rparr>)"

text \<open>
  The steps.  \<open>own\<close> is what the handshake and then the application write; the mutex keeps the first
  goroutine from deciding while the second answers.
\<close>

inductive server_step ::
  "(bool \<Rightarrow> (bytes \<times> err option) list \<Rightarrow> (bool \<times> bool) exec option) \<Rightarrow> reader_ops \<Rightarrow> server \<Rightarrow> server \<Rightarrow> bool"
  for auth R where
  client_hello:
    "sv_a s = AReading \<Longrightarrow>
     server_step auth R s
       (let s = mirror_Read ev s in first_section (auth (sv_copying s) (sv_events s)) s)"
| client_forward:
    "sv_a s = AForwarding \<or> sv_a s \<noteq> ACrashed \<and> sv_copier s \<Longrightarrow>
     server_step auth R s (send_target bs (s\<lparr>from_client := from_client s @ bs\<rparr>))"
| client_end:
    "sv_a s = AForwarding \<Longrightarrow> server_step auth R s (s\<lparr>sv_a := ADone\<rparr>)"
| target_read:
    "sv_a s \<noteq> ACrashed \<Longrightarrow> sv_b s = BReading \<Longrightarrow> chunk \<noteq> [] \<Longrightarrow> server_step auth R s (second_section R chunk s)"
| target_end:
    "sv_a s \<noteq> ACrashed \<Longrightarrow> sv_b s = BReading \<Longrightarrow> server_step auth R s (s\<lparr>client_closed := True, sv_b := BDone\<rparr>)"
| leave_loop:
    "sv_a s \<noteq> ACrashed \<Longrightarrow> sv_b s = BAfter \<Longrightarrow> server_step auth R s (after_loop s)"
| target_forward:
    "sv_a s \<noteq> ACrashed \<Longrightarrow> sv_b s = BForwarding \<Longrightarrow>
     server_step auth R s (send_client bs (s\<lparr>from_target := from_target s @ bs\<rparr>))"
| forward_end:
    "sv_a s \<noteq> ACrashed \<Longrightarrow> sv_b s = BForwarding \<Longrightarrow> server_step auth R s (s\<lparr>sv_b := BDone\<rparr>)"
| answer:
    "sv_a s \<noteq> ACrashed \<Longrightarrow> sv_b s = BAnswering \<Longrightarrow> server_step auth R s (send_client own s)"
| answer_read:
    "sv_a s \<noteq> ACrashed \<Longrightarrow> sv_b s = BAnswering \<Longrightarrow>
     server_step auth R s (s\<lparr>from_client := from_client s @ bs\<rparr>)"

inductive server_reachable ::
  "(bool \<Rightarrow> (bytes \<times> err option) list \<Rightarrow> (bool \<times> bool) exec option) \<Rightarrow> reader_ops \<Rightarrow> server \<Rightarrow> bool"
  for auth R where
  init: "server_reachable auth R server_init"
| step: "server_reachable auth R s \<Longrightarrow> server_step auth R s s' \<Longrightarrow> server_reachable auth R s'"

inductive_cases server_stepE: "server_step auth R s s'"

section \<open>The interface to the client's authentication\<close>

locale auth_gate =
  fixes auth :: "bool \<Rightarrow> (bytes \<times> err option) list \<Rightarrow> (bool \<times> bool) exec option"
  assumes not_while_copying: "auth True evs = Some (Ret (st, d)) \<Longrightarrow> \<not> d"
    and not_both: "auth copying evs = Some (Ret (st, d)) \<Longrightarrow> \<not> (st \<and> d)"

text \<open>The bytes the client sees and the bytes the target sees.\<close>

definition client_view :: "reader_ops \<Rightarrow> server \<Rightarrow> bool" where
  "client_view R s \<longleftrightarrow>
     (case sv_b s of
        BReading \<Rightarrow> to_client s = [] \<and> \<not> client_closed s \<and> (\<exists>rs. recorded_so_far R (from_target s) rs (sv_rec s)) \<and>
          (\<not> sv_direct s \<longrightarrow> from_target s = [] \<and> out_lens (sv_rec s) ! 0 = 0)
      | BAfter \<Rightarrow> to_client s = [] \<and> \<not> client_closed s \<and>
          (out_lens (sv_rec s) ! 0 = 0 \<longrightarrow> s2cSaved (sv_rec s) = from_target s) \<and>
          (\<not> sv_direct s \<longrightarrow> (sv_copying s \<or> sv_stole s) \<and> out_lens (sv_rec s) ! 0 = 0)
      | BForwarding \<Rightarrow> to_client s = from_target s \<and> \<not> client_closed s \<and> (sv_direct s = sv_copier s) \<and>
          (\<not> sv_direct s \<longrightarrow> sv_copying s \<or> sv_stole s)
      | BAnswering \<Rightarrow> sv_direct s \<and> (\<exists>rs. recorded R (from_target s) rs (sv_rec s))
      | BDone \<Rightarrow> (to_client s = [] \<or> to_client s = from_target s) \<and>
          (\<not> sv_direct s \<and> \<not> sv_stole s \<longrightarrow> to_client s = from_target s))"

definition target_view :: "server \<Rightarrow> bool" where
  "target_view s \<longleftrightarrow> prefix (to_target s) (from_client s) \<and>
     (sv_b s \<noteq> BAnswering \<and> \<not> target_closed s \<longrightarrow> to_target s = from_client s)"

context auth_gate begin

definition decided :: "server \<Rightarrow> bool" where
  "decided s \<longleftrightarrow>
     (sv_copying s \<longrightarrow> \<not> sv_direct s) \<and> \<not> (sv_direct s \<and> sv_stole s) \<and>
     (sv_a s = AReading \<or> sv_a s = AForwarding \<longrightarrow> \<not> sv_direct s \<and> \<not> sv_stole s) \<and>
     (sv_copier s \<longrightarrow> sv_b s = BForwarding \<or> sv_b s = BDone) \<and>
     (sv_direct s \<longrightarrow> auth False (sv_events s) = Some (Ret (False, True)))"

definition good :: "reader_ops \<Rightarrow> server \<Rightarrow> bool" where
  "good R s \<longleftrightarrow> decided s \<and> client_view R s \<and> target_view s"

lemma good_init: "good R server_init"
  using recorded_init
  by (auto simp: good_def decided_def client_view_def target_view_def server_init_def recording_init_def)

lemma send_simps [simp]:
  "sv_a (send_target bs s) = sv_a s" "sv_b (send_target bs s) = sv_b s" "sv_copying (send_target bs s) = sv_copying s"
  "sv_stole (send_target bs s) = sv_stole s" "sv_direct (send_target bs s) = sv_direct s"
  "sv_rec (send_target bs s) = sv_rec s" "sv_copier (send_target bs s) = sv_copier s"
  "sv_events (send_target bs s) = sv_events s" "from_client (send_target bs s) = from_client s"
  "from_target (send_target bs s) = from_target s" "to_client (send_target bs s) = to_client s"
  "target_closed (send_target bs s) = target_closed s" "client_closed (send_target bs s) = client_closed s"
  "sv_a (send_client bs s) = sv_a s" "sv_b (send_client bs s) = sv_b s" "sv_copying (send_client bs s) = sv_copying s"
  "sv_stole (send_client bs s) = sv_stole s" "sv_direct (send_client bs s) = sv_direct s"
  "sv_rec (send_client bs s) = sv_rec s" "sv_copier (send_client bs s) = sv_copier s"
  "sv_events (send_client bs s) = sv_events s" "from_client (send_client bs s) = from_client s"
  "from_target (send_client bs s) = from_target s" "to_target (send_client bs s) = to_target s"
  "target_closed (send_client bs s) = target_closed s" "client_closed (send_client bs s) = client_closed s"
  "to_target (send_target bs s) = (if target_closed s then to_target s else to_target s @ bs)"
  "to_client (send_client bs s) = (if client_closed s then to_client s else to_client s @ bs)"
  by (simp_all add: send_target_def send_client_def)

lemma mirror_Read_frame:
  assumes "target_view s" "sv_b s \<noteq> BAnswering"
  shows "target_view (mirror_Read ev s)" "sv_a (mirror_Read ev s) = sv_a s" "sv_b (mirror_Read ev s) = sv_b s"
    "sv_copying (mirror_Read ev s) = sv_copying s" "sv_stole (mirror_Read ev s) = sv_stole s"
    "sv_direct (mirror_Read ev s) = sv_direct s" "sv_rec (mirror_Read ev s) = sv_rec s"
    "sv_copier (mirror_Read ev s) = sv_copier s" "sv_events (mirror_Read ev s) = sv_events s @ [ev]"
    "from_target (mirror_Read ev s) = from_target s" "to_client (mirror_Read ev s) = to_client s"
    "client_closed (mirror_Read ev s) = client_closed s"
  using assms by (auto simp: mirror_Read_def target_view_def Let_def)

lemma first_section_frame:
  "from_client (first_section r s) = from_client s" "to_target (first_section r s) = to_target s"
  "sv_b (first_section r s) = sv_b s" "target_closed (first_section r s) = target_closed s"
  "sv_copying (first_section r s) = sv_copying s" "sv_rec (first_section r s) = sv_rec s"
  "sv_copier (first_section r s) = sv_copier s" "sv_events (first_section r s) = sv_events s"
  "from_target (first_section r s) = from_target s" "to_client (first_section r s) = to_client s"
  "client_closed (first_section r s) = client_closed s"
  by (auto simp: first_section_def split: option.splits exec.splits)

lemma good_client_hello:
  assumes "good R s" "sv_a s = AReading"
  shows "good R (let s = mirror_Read ev s in first_section (auth (sv_copying s) (sv_events s)) s)"
proof -
  define s1 where "s1 = mirror_Read ev s"
  define r where "r = auth (sv_copying s1) (sv_events s1)"
  define s2 where "s2 = first_section r s1"
  have g: "decided s" "client_view R s" "target_view s"
    using assms(1) by (simp_all add: good_def)
  have undecided: "\<not> sv_direct s" "\<not> sv_stole s"
    using g(1) assms(2) by (simp_all add: decided_def)
  then have b: "sv_b s \<noteq> BAnswering"
    using g(2) by (auto simp: client_view_def)
  note m = mirror_Read_frame [OF g(3) b, of ev, folded s1_def]
  note f = first_section_frame [of r s1, folded s2_def]
  have tv: "target_view s2"
    using m(1) by (simp add: target_view_def f)
  have "good R s2"
  proof (cases "\<exists>st d. r = Some (Ret (st, d))")
    case False
    then have "sv_direct s2 = sv_direct s1" "sv_stole s2 = sv_stole s1"
      by (auto simp: s2_def first_section_def split: option.splits exec.splits)
    then show ?thesis
      using tv g undecided m
      by (auto simp: good_def decided_def client_view_def f split: phaseB.splits)
  next
    case True
    then obtain st d where r: "r = Some (Ret (st, d))"
      by blast
    have s2: "sv_direct s2 = d" "sv_stole s2 = st" "sv_a s2 \<noteq> AReading" "sv_a s2 = AForwarding \<longrightarrow> \<not> d \<and> \<not> st"
      using r by (simp_all add: s2_def first_section_def)
    have gate: "sv_copying s \<longrightarrow> \<not> d" "\<not> (st \<and> d)"
      using r not_while_copying not_both m(4) by (cases "sv_copying s"; fastforce simp: r_def)+
    have "d \<longrightarrow> auth False (sv_events s2) = Some (Ret (False, True))"
      using r gate m by (cases "sv_copying s") (auto simp: f r_def)
    then have "decided s2"
      using g(1) s2 gate m(3,4,8) f(3,5,7) by (auto simp: decided_def)
    moreover have "client_view R s2"
      using g(2) undecided s2 gate m
      by (auto simp: client_view_def f split: phaseB.splits)
    ultimately show ?thesis
      using tv by (simp add: good_def)
  qed
  then show ?thesis
    by (simp add: s2_def r_def s1_def Let_def)
qed

lemma good_target_read:
  assumes "good R s" "sv_b s = BReading"
  shows "good R (second_section R chunk s)"
proof -
  obtain copying rec r where t: "target_section R (sv_direct s) (sv_stole s) (sv_copying s) (sv_rec s) chunk = (copying, rec, r)"
    using prod_cases3 by blast
  have g: "decided s" "target_view s" "to_client s = []" "\<not> client_closed s"
    "\<not> sv_direct s \<longrightarrow> out_lens (sv_rec s) ! 0 = 0"
    using assms by (simp_all add: good_def client_view_def)
  obtain rs where rs: "recorded_so_far R (from_target s) rs (sv_rec s)"
    using assms by (auto simp: good_def client_view_def)
  have ok: "turn_ok R (from_target s @ chunk) rec r \<and> (sv_direct s \<longrightarrow> copying = sv_copying s) \<and>
    (\<not> sv_direct s \<longrightarrow> r = Abandon \<and> (copying \<or> sv_stole s) \<and> out_lens rec ! 0 = 0)"
  proof (cases "sv_direct s")
    case True
    then show ?thesis
      using target_section_sound [OF rs] t by (auto simp: target_section_def Let_def split: prod.splits if_splits)
  next
    case False
    then show ?thesis
      using t nothing_taken_off [OF recorded_append [OF rs], of chunk] g(5)
      by (auto simp: target_section_def turn_ok_def)
  qed
  then show ?thesis
    using g t assms(2)
    by (cases "sv_direct s"; cases r)
      (auto simp: second_section_def good_def decided_def client_view_def target_view_def turn_ok_def)
qed

lemma good_step:
  assumes "good R s" "server_step auth R s s'"
  shows "good R s'"
  using assms(2)
proof (cases rule: server_step.cases)
  case (client_hello ev)
  then show ?thesis
    using good_client_hello [OF assms(1)] by simp
next
  case (target_read chunk)
  then show ?thesis
    using good_target_read [OF assms(1)] by simp
next
  case leave_loop
  then show ?thesis
    using assms(1) by (auto simp: good_def decided_def client_view_def target_view_def after_loop_def Let_def)
qed (use assms(1) in \<open>auto simp: good_def decided_def client_view_def target_view_def split: phaseB.splits\<close>)

lemma reachable_good: "server_reachable auth R s \<Longrightarrow> good R s"
  by (induction rule: server_reachable.induct) (auto intro: good_init good_step)

end

section \<open>The server of the code\<close>

definition gate :: "server_env \<Rightarrow> bool \<Rightarrow> (bytes \<times> err option) list \<Rightarrow> (bool \<times> bool) exec option" where
  "gate E copying evs =
     map_option (\<lambda>r. exec_bind r (\<lambda>(stole, st). Ret (stole, direct st))) (server_auth E copying evs)"

lemma client_section_laws:
  assumes "client_section X H cfg now p copying vers m e = Ret (stole, st)"
  shows "direct st \<Longrightarrow> \<not> copying" "\<not> (stole \<and> direct st)"
  using assms by (auto simp: client_section_def zero_auth_def exec_simps split: option.splits if_splits)

interpretation server_gate: auth_gate "gate E"
proof
  fix evs copying st d
  have *: "\<exists>a. server_auth E copying evs = Some (Ret (st, a)) \<and> d = direct a"
    if "gate E copying evs = Some (Ret (st, d))" for copying
    using that by (auto simp: gate_def exec_simps)
  show "gate E True evs = Some (Ret (st, d)) \<Longrightarrow> \<not> d"
    using * [of True] client_section_laws(1) by (fastforce simp: server_auth_def Let_def split: prod.splits if_splits exec.splits)
  show "gate E copying evs = Some (Ret (st, d)) \<Longrightarrow> \<not> (st \<and> d)"
    using * [of copying] client_section_laws(2) by (fastforce simp: server_auth_def Let_def split: prod.splits if_splits exec.splits)
qed

section \<open>Properties\<close>

lemma readHandshake_hello:
  assumes "readHandshake R K c t = (c', t', Ret (ClientHello m))"
  shows "\<exists>data. ch_unmarshal R data = Some m"
proof -
  have "\<exists>vers data. parse_message R vers data = Some (Ret (Some (ClientHello m)))"
    using assms
    by (auto simp: readHandshake_def unmarshalHandshakeMessage_def no_message_def Let_def exec_simps
        split: prod.splits if_splits option.splits exec.splits)
  then obtain vers data where "parse_message R vers data = Some (Ret (Some (ClientHello m)))"
    by blast
  then have "ch_unmarshal R data = Some m"
    by (auto simp: parse_message_def parsed_def exec_simps Let_def split: if_splits)
  then show ?thesis
    by blast
qed

lemma readClientHello_parsed:
  assumes "readClientHello R K fips getConfig cfg c = (c', Ret (m, ech))"
  shows "\<exists>data. ch_unmarshal R data = Some m"
proof -
  obtain c1 t1 m1 where h: "readHandshake R K c None = (c1, t1, Ret (ClientHello m1))"
    using assms by (auto simp: readClientHello_def split: prod.splits exec.splits handshakeMessage.splits)
  moreover have "m = m1"
    using assms h
    by (auto simp: readClientHello_def negotiate_version_def processECHClientHello_def Let_def
        split: prod.splits exec.splits if_splits)
  ultimately show ?thesis
    using readHandshake_hello by blast
qed

text \<open>C2: to anyone it does not accept, the REALITY server is the target, in every interleaving of the two
  goroutines.  While the second goroutine waits for the target, nothing was sent to the client, and
  nothing that the target sent is held back from a client that is not accepted.  When it leaves its loop
  for such a client, the client gets all the target sent so far and forwarding begins; only a client that
  asked for an unknown server name gets nothing more: the code ends without forwarding to it.  While it
  forwards, the client has received exactly what the target sent; when it is done, too, unless the client
  was accepted or asked for an unknown name, and then it is that or nothing.  In the other direction the
  target has received exactly what was read from the client, as long as the server does not answer by
  itself and the mirror has not closed the target, and never anything else.\<close>

theorem reality_transparent:
  assumes "server_reachable (gate E) R s"
  shows "(sv_b s = BReading \<longrightarrow> to_client s = [] \<and> (\<not> sv_direct s \<longrightarrow> from_target s = [])) \<and>
     (sv_b s = BAfter \<longrightarrow> to_client s = [] \<and>
       (\<not> sv_direct s \<longrightarrow> to_client (after_loop s) = (if sv_stole s then [] else from_target s) \<and>
          sv_b (after_loop s) = (if sv_stole s then BDone else BForwarding))) \<and>
     (sv_b s = BForwarding \<longrightarrow> to_client s = from_target s \<and> \<not> client_closed s) \<and>
     (sv_b s = BDone \<longrightarrow> (to_client s = [] \<or> to_client s = from_target s) \<and>
       (\<not> sv_direct s \<and> \<not> sv_stole s \<longrightarrow> to_client s = from_target s)) \<and>
     prefix (to_target s) (from_client s) \<and>
     (sv_b s \<noteq> BAnswering \<and> \<not> target_closed s \<longrightarrow> to_target s = from_client s)"
  using server_gate.reachable_good [OF assms]
  by (auto simp: server_gate.good_def client_view_def target_view_def after_loop_def Let_def split: phaseB.splits)

text \<open>C1: the server answers by itself only to a client that has shown its identity: when it does, the
  events the mirror has read contain a ClientHello for a configured name, with the box for some 16
  bytes that the configuration allows, and the target's flight has been recorded.\<close>

theorem only_clients_answered:
  assumes "server_reachable (gate E) R s" and "sv_b s = BAnswering"
    and "cryptobyte_String (se_reader E)" and "wf_x_crypto (se_crypto E)"
  shows "\<exists>c m ech pt rs.
     readClientHello (se_reader E) (se_ops E) (se_fips E) (se_getConfig E) (se_config E)
       (mirror_conn (sv_events s @ [waiting]) (se_rand E)) = (c, Ret (m, ech)) \<and> c_vers c = VersionTLS13 \<and>
     ServerNames (se_reality E) (ch_serverName m) = Some True \<and>
     shows_identity (se_crypto E) (se_hashes E) (se_reality E) (se_now E) m pt \<and>
     recorded R (from_target s) rs (sv_rec s)"
proof -
  have "sv_direct s" and rec: "\<exists>rs. recorded R (from_target s) rs (sv_rec s)" and "gate E False (sv_events s) = Some (Ret (False, True))"
    using server_gate.reachable_good [OF assms(1)] assms(2)
    by (auto simp: server_gate.good_def server_gate.decided_def client_view_def)
  then obtain st where st: "server_auth E False (sv_events s) = Some (Ret (False, st))" "direct st"
    by (auto simp: gate_def exec_simps)
  obtain c r where h: "readClientHello (se_reader E) (se_ops E) (se_fips E) (se_getConfig E) (se_config E)
      (mirror_conn (sv_events s @ [waiting]) (se_rand E)) = (c, r)"
    by fastforce
  obtain m ech where r: "r = Ret (m, ech)"
    and sec: "client_section (se_crypto E) (se_hashes E) (se_reality E) (se_now E) 0 False (c_vers c) (Some m) None = Ret (False, st)"
    using st(1) h by (cases r) (auto simp: server_auth_def client_section_def split: if_splits)
  obtain data where "ch_unmarshal (se_reader E) data = Some m"
    using readClientHello_parsed h r by blast
  then have m: "parsed_hello m"
    by (rule unmarshal_parsed_hello [OF assms(3)])
  have "ServerNames (se_reality E) (ch_serverName m) = Some True \<and> c_vers c = VersionTLS13 \<and>
      (\<exists>pt. shows_identity (se_crypto E) (se_hashes E) (se_reality E) (se_now E) m pt)"
    using server_accepts [OF assms(4) m, of "se_hashes E" "se_reality E" "se_now E" 0 False "c_vers c" None] sec st(2)
    by (auto simp only: exec.inject prod.inject)
  with h r rec show ?thesis
    by blast
qed

section \<open>A complete run\<close>

text \<open>The ClientHello of a client of the server \<open>demo_server\<close>, with the session id left open.\<close>

definition run_hello :: "bytes \<Rightarrow> bytes" where
  "run_hello sid =
     [1, 0, 0, 135, 3, 3] @ replicate 32 5 @ [32] @ sid @ [0, 2, 0x13, 1, 1, 0, 0, 60] @
     [0, 0, 0, 7, 0, 5, 0, 0, 2, 101, 120, 0, 43, 0, 3, 2, 3, 4, 0, 51, 0, 38, 0, 36, 0, 29, 0, 32] @ replicate 32 9"

definition run_tail :: bytes where
  "run_tail =
     [0, 0, 0, 7, 0, 5, 0, 0, 2, 101, 120, 0, 43, 0, 3, 2, 3, 4, 0, 51, 0, 38, 0, 36, 0, 29, 0, 32] @ replicate 32 9"

lemma run_extensions:
  "case loop ref_reader (ch_ext_step ref_reader) 60 run_tail
     (ch_zero\<lparr>ch_original := raw, ch_vers := 0x0303, ch_random := rnd, ch_sessionId := sid, ch_cipherSuites := cs,
       ch_secureRenegotiationSupported := False, ch_compressionMethods := [0]\<rparr>, {}) of
     None \<Rightarrow> False
   | Some (m, _) \<Rightarrow> ch_serverName m = [101, 120] \<and> ch_random m = rnd \<and>
       ch_keyShares m = [\<lparr>ks_group = X25519, ks_data = replicate 32 9\<rparr>] \<and> ch_sessionId m = sid \<and>
       ch_original m = raw \<and> ch_encryptedClientHello m = [] \<and> client_versions m = [VersionTLS13]"
  by code_simp

lemma run_hello_parsed:
  assumes "length sid = 32"
  shows "\<exists>m. ch_unmarshal ref_reader (run_hello sid) = Some m \<and> ch_serverName m = [101, 120] \<and> ch_random m = replicate 32 5 \<and>
     ch_keyShares m = [\<lparr>ks_group = X25519, ks_data = replicate 32 9\<rparr>] \<and> ch_sessionId m = sid \<and>
     ch_original m = Some (run_hello sid) \<and> ch_encryptedClientHello m = [] \<and> client_versions m = [VersionTLS13]"
proof -
  let ?m0 = "ch_zero\<lparr>ch_original := Some (run_hello sid), ch_vers := 0x0303, ch_random := replicate 32 5, ch_sessionId := sid,
    ch_cipherSuites := [0x1301], ch_secureRenegotiationSupported := False, ch_compressionMethods := [0]\<rparr>"
  have "ch_unmarshal ref_reader (run_hello sid) =
      Option.bind (loop ref_reader (ch_ext_step ref_reader) 60 run_tail (?m0, {})) (\<lambda>(m, _). Some m)"
    using assms
    by (simp add: ch_unmarshal_def run_hello_def run_tail_def readUint8LengthPrefixed_def read_list_def scsvRenegotiation_def
        ref_reader.Skip_law ref_reader.ReadUint16_law ref_reader.ReadBytes_law ref_reader.ReadUint8LengthPrefixed_law
        ref_reader.ReadUint16LengthPrefixed_law ref_reader.Empty_law cutn_def cut_lp_def get_be_def get_u16_def)
  moreover obtain m seen where "loop ref_reader (ch_ext_step ref_reader) 60 run_tail (?m0, {}) = Some (m, seen)"
    "ch_serverName m = [101, 120] \<and> ch_random m = replicate 32 5 \<and>
       ch_keyShares m = [\<lparr>ks_group = X25519, ks_data = replicate 32 9\<rparr>] \<and> ch_sessionId m = sid \<and>
       ch_original m = Some (run_hello sid) \<and> ch_encryptedClientHello m = [] \<and> client_versions m = [VersionTLS13]"
    using run_extensions [where raw = "Some (run_hello sid)" and rnd = "replicate 32 5" and sid = sid and cs = "[0x1301]"]
    by (auto split: option.splits prod.splits)
  ultimately show ?thesis
    by simp
qed

lemma mirror_conn_simps:
  "c_in (mirror_conn evs rnd) = zero_half" "c_input (mirror_conn evs rnd) = []" "hand (mirror_conn evs rnd) = []"
  "c_vers (mirror_conn evs rnd) = 0" "haveVers (mirror_conn evs rnd) = False" "net_in (mirror_conn evs rnd) = evs"
  by (simp_all add: mirror_conn_def)

definition run_record :: "bytes \<Rightarrow> bytes" where
  "run_record sid = [22, 3, 1, 0, 139] @ run_hello sid"

lemma run_lengths:
  assumes "length sid = 32"
  shows "length (run_hello sid) = 139" "run_hello sid ! 0 = 1" "get_be (take 3 (drop 1 (run_hello sid))) = 135"
  using assms by (simp_all add: run_hello_def get_be_def)

lemma run_fetch:
  assumes "length sid = 32"
  shows "fetch_record null_ops (mirror_conn ([(run_record sid, None)] @ [waiting]) rnd) =
    ((mirror_conn [waiting] rnd), Inr (run_record sid))"
  using run_lengths [OF assms]
  by (simp add: fetch_record_def readFromUntil_def mirror_conn_def check_header_def run_record_def recordHeaderLen_def
      record_types size_limits get_be_def get_u16_def version_ids Let_def)

lemma run_read:
  assumes "length sid = 32"
  shows "\<exists>h. readRecord null_ops (mirror_conn ([(run_record sid, None)] @ [waiting]) rnd) =
    ((mirror_conn [waiting] rnd)\<lparr>c_in := h, hand := run_hello sid\<rparr>, Ret ())"
proof -
  have "incSeq (zero_half :: (unit, unit, unit, unit) halfConn) = Ret (zero_half\<lparr>hc_seq := [0, 0, 0, 0, 0, 0, 0, 1]\<rparr>)"
    by code_simp
  then have "decrypt null_ops zero_half (run_record sid) =
      (zero_half\<lparr>hc_seq := [0, 0, 0, 0, 0, 0, 0, 1]\<rparr>, Ret (run_hello sid, 22))"
    by (simp add: decrypt_def run_record_def recordHeaderLen_def decrypt_cipher_def then_incSeq_def zero_half_def version_ids
        record_types)
  then have o: "open_record null_ops (mirror_conn [waiting] rnd) (run_record sid) =
      ((mirror_conn [waiting] rnd)\<lparr>c_in := zero_half\<lparr>hc_seq := [0, 0, 0, 0, 0, 0, 0, 1]\<rparr>\<rparr>, Inr (22, run_hello sid))"
    using run_lengths(1) [OF assms]
    by (simp add: open_record_def mirror_conn_def size_limits record_types version_ids)
  have "read_one null_ops (mirror_conn ([(run_record sid, None)] @ [waiting]) rnd) False =
      ((mirror_conn [waiting] rnd)\<lparr>c_in := zero_half\<lparr>hc_seq := [0, 0, 0, 0, 0, 0, 0, 1]\<rparr>, hand := run_hello sid\<rparr>, Inl (Ret ()))"
  proof -
    have "hc_err (zero_half :: (unit, unit, unit, unit) halfConn) = None"
      by (simp add: zero_half_def)
    moreover have "run_hello sid \<noteq> []"
      by (simp add: run_hello_def)
    ultimately show ?thesis
      using run_fetch [OF assms, of rnd] o
      by (simp add: read_one_def process_record_def record_types mirror_conn_simps)
  qed
  then show ?thesis
    by (auto simp: readRecord_def readRecordOrCCS.simps)
qed

lemma run_readClientHello:
  assumes "length sid = 32"
  shows "\<exists>c m. readClientHello ref_reader null_ops False None default_config
       (mirror_conn ([(run_record sid, None)] @ [waiting]) rnd) = (c, Ret (m, None)) \<and>
     net_in c = [waiting] \<and> c_vers c = VersionTLS13 \<and> ch_serverName m = [101, 120] \<and> ch_random m = replicate 32 5 \<and>
     ch_keyShares m = [\<lparr>ks_group = X25519, ks_data = replicate 32 9\<rparr>] \<and> ch_sessionId m = sid \<and>
     ch_original m = Some (run_hello sid)"
proof -
  let ?c = "mirror_conn ([(run_record sid, None)] @ [waiting]) rnd"
  obtain h where read: "readRecord null_ops ?c = ((mirror_conn [waiting] rnd)\<lparr>c_in := h, hand := run_hello sid\<rparr>, Ret ())"
    using run_read [OF assms] by blast
  define c1 where "c1 = (mirror_conn [waiting] rnd)\<lparr>c_in := h, hand := run_hello sid\<rparr>"
  obtain m where m: "ch_unmarshal ref_reader (run_hello sid) = Some m" "ch_encryptedClientHello m = []"
    "client_versions m = [VersionTLS13]"
    and fields: "ch_serverName m = [101, 120]" "ch_random m = replicate 32 5"
     "ch_keyShares m = [\<lparr>ks_group = X25519, ks_data = replicate 32 9\<rparr>]" "ch_sessionId m = sid"
     "ch_original m = Some (run_hello sid)"
    using run_hello_parsed [OF assms] by blast
  note len = run_lengths [OF assms]
  have c1: "hand c1 = run_hello sid" "haveVers c1 = False" "c_vers c1 = 0" "net_in c1 = [waiting]"
    by (simp_all add: c1_def mirror_conn_simps)
  have p: "parse_message ref_reader 0 (run_hello sid) = Some (Ret (Some (ClientHello m)))"
    using m(1) len(2) by (simp add: parse_message_def handshake_types parsed_def Let_def)
  have more: "readHandshakeBytes null_ops c1 n = (c1, Ret ())" if "n \<le> 139" for n
    using that len(1) by (simp add: readHandshakeBytes.simps [of null_ops c1] c1)
  have "readHandshakeBytes null_ops ?c 4 = (c1, Ret ())"
    using read more [of 4] by (subst readHandshakeBytes.simps) (simp add: mirror_conn_simps c1_def)
  then have "readHandshake ref_reader null_ops ?c None = (c1\<lparr>hand := []\<rparr>, None, Ret (ClientHello m))"
    using len p more
    by (simp add: readHandshake_def c1 Let_def maxHandshake_def unmarshalHandshakeMessage_def transcript_Write_def)
  moreover have "mutualVersion False (Some default_config) False [VersionTLS13] = (VersionTLS13, True)"
    by code_simp
  ultimately show ?thesis
    using m fields c1(4) by (simp add: readClientHello_def hello_config_def negotiate_version_def Let_def)
qed

text \<open>With the right box in the session id the gate opens.\<close>

lemma run_gate:
  obtains sid where "length sid = 32" "gate demo_server False [(run_record sid, None)] = Some (Ret (False, True))"
proof -
  obtain key where k: "auth_key demo_crypto toy_hashes demo_config (replicate 32 5) (replicate 32 9) = (key, None)"
    by (simp add: auth_key_def demo_crypto_def)
  obtain c where c: "aes_New key = Ret c"
    using aes_New_total [of key] auth_key_length [OF wf_demo_crypto k] by auto
  define sid where "sid = gcm_ae c 16 (replicate 12 5) demo_plain (run_hello (replicate 32 0))"
  have len: "length sid = 32"
    using wf_new [OF c] by (simp add: sid_def gcm_ae_def Let_def length_gctr length_gcm_tag demo_plain_def)
  obtain cn m where r: "readClientHello ref_reader null_ops False None default_config
      (mirror_conn ([(run_record sid, None)] @ [waiting]) (se_rand demo_server)) = (cn, Ret (m, None))" "net_in cn = [waiting]"
    "c_vers cn = VersionTLS13"
    and m: "ch_serverName m = [101, 120]" "ch_random m = replicate 32 5"
      "ch_keyShares m = [\<lparr>ks_group = X25519, ks_data = replicate 32 9\<rparr>]" "ch_sessionId m = sid"
      "ch_original m = Some (run_hello sid)"
    using run_readClientHello [OF len, of "se_rand demo_server"] by blast
  have zero: "original_bytes (set_sessionId m (replicate 32 0)) = run_hello (replicate 32 0)"
    using len by (simp add: original_bytes_def set_sessionId_def m run_hello_def go_copy_short Let_def)
  have parsed: "parsed_hello m"
    using len by (simp add: parsed_hello_def m run_hello_def)
  have "auth_box demo_crypto toy_hashes demo_config m demo_plain = Some sid"
    using k c zero by (simp add: auth_box_def m usable_share_def sid_def)
  then have "shows_identity demo_crypto toy_hashes demo_config (130 * second) m demo_plain"
    using demo_allowed len by (simp add: shows_identity_def demo_plain_def m(4))
  moreover have "ServerNames demo_config (ch_serverName m) = Some True"
    by (simp add: m demo_config_def)
  moreover obtain stole st where run: "client_section demo_crypto toy_hashes demo_config (130 * second) 0 False VersionTLS13
      (Some m) None = Ret (stole, st)"
    and "direct st \<longleftrightarrow> ServerNames demo_config (ch_serverName m) = Some True \<and> \<not> False \<and> (None :: err option) = None \<and>
       VersionTLS13 = VersionTLS13 \<and> (\<exists>pt. shows_identity demo_crypto toy_hashes demo_config (130 * second) m pt)"
    and "stole \<longleftrightarrow> ServerNames demo_config (ch_serverName m) \<noteq> Some True"
    using server_accepts [OF wf_demo_crypto parsed, of toy_hashes demo_config "130 * second" 0 False VersionTLS13 None] by blast
  ultimately have "direct st" "\<not> stole"
    by auto
  then have "gate demo_server False [(run_record sid, None)] = Some (Ret (False, True))"
    using r run by (simp add: gate_def server_auth_def demo_server_def)
  with len show thesis
    by (rule that)
qed

theorem reality_transparent_witness:
  "\<exists>s. server_reachable (gate demo_server) ref_reader s \<and> sv_b s = BForwarding \<and> from_target s = [1, 2, 3] \<and>
     to_client s = from_target s"
proof -
  let ?s1 = "second_section ref_reader [1, 2, 3] server_init"
  let ?s2 = "after_loop ?s1"
  have "server_step (gate demo_server) ref_reader server_init ?s1"
    by (rule server_step.target_read) (simp_all add: server_init_def)
  moreover have "server_step (gate demo_server) ref_reader ?s1 ?s2"
    by (rule server_step.leave_loop) (simp_all add: second_section_def target_section_def server_init_def)
  ultimately have "server_reachable (gate demo_server) ref_reader ?s2"
    by (meson server_reachable.intros)
  moreover have "sv_b ?s2 = BForwarding" "from_target ?s2 = [1, 2, 3]" "to_client ?s2 \<noteq> []"
    by (simp_all add: after_loop_def second_section_def target_section_def server_init_def recording_init_def Let_def)
  ultimately show ?thesis
    using reality_transparent [of demo_server ref_reader ?s2] by auto
qed

theorem only_clients_answered_witness:
  "\<exists>s. server_reachable (gate demo_server) ref_reader s \<and> sv_b s = BAnswering \<and>
     out_lens (sv_rec s) = map length demo_flight @ [0] \<and> to_client s = [] \<and>
     (\<exists>m pt. shows_identity demo_crypto toy_hashes demo_config (130 * second) m pt)"
proof -
  obtain sid where sid: "length sid = 32" "gate demo_server False [(run_record sid, None)] = Some (Ret (False, True))"
    by (rule run_gate)
  let ?s1 = "let s = mirror_Read (run_record sid, None) server_init
    in first_section (gate demo_server (sv_copying s) (sv_events s)) s"
  let ?s2 = "second_section ref_reader (concat demo_flight) ?s1"
  have s1: "sv_a ?s1 = ADone" "sv_b ?s1 = BReading" "sv_direct ?s1" "\<not> sv_stole ?s1" "\<not> sv_copying ?s1" "sv_rec ?s1 = recording_init"
    "to_client ?s1 = []"
  proof -
    have "run_record sid \<noteq> []"
      by (simp add: run_record_def)
    with sid(2) show "sv_a ?s1 = ADone" "sv_b ?s1 = BReading" "sv_direct ?s1" "\<not> sv_stole ?s1" "\<not> sv_copying ?s1"
      "sv_rec ?s1 = recording_init" "to_client ?s1 = []"
      by (simp_all add: mirror_Read_def server_init_def send_target_def first_section_def Let_def)
  qed
  have "server_step (gate demo_server) ref_reader server_init ?s1"
    by (rule server_step.client_hello) (simp add: server_init_def)
  moreover have "server_step (gate demo_server) ref_reader ?s1 ?s2"
    by (rule server_step.target_read) (simp_all add: s1 demo_flight_def del: Let_def)
  ultimately have reach: "server_reachable (gate demo_server) ref_reader ?s2"
    by (meson server_reachable.intros)
  obtain st where "record_all ref_reader recording_init [concat demo_flight] = (st, Ready, [])"
    "out_lens st = map length demo_flight @ [0]"
    using record_all_flight [OF demo_server_flight, of "[]" 0 recording_init "[concat demo_flight]"] recorded_init
    by (auto simp: demo_flight_def)
  then have t: "target_section ref_reader True False False recording_init (concat demo_flight) = (False, st, Ready)"
    "out_lens st = map length demo_flight @ [0]"
    by (auto simp: target_section_def Let_def split: prod.splits outcome.splits if_splits)
  have s2: "sv_b ?s2 = BAnswering" "sv_rec ?s2 = st" "to_client ?s2 = []"
    using t(1) by (simp_all add: second_section_def s1 del: Let_def)
  have "se_reader demo_server = ref_reader" "se_crypto demo_server = demo_crypto"
    by (simp_all add: demo_server_def)
  then show ?thesis
    using only_clients_answered [OF reach s2(1)] ref_reader.cryptobyte_String_axioms wf_demo_crypto reach s2 t(2)
    by (auto simp: demo_server_def)
qed

end
