(* ===== verification/ConnDelivery.thy ===== *)
theory ConnDelivery
  imports ConnSafety Tls13Records
begin

text \<open>
  What the record layer of one connection writes, the record layer of the other reads: whatever the
  write cuts its data into, and whatever pieces the network delivers the bytes in.
\<close>

section \<open>Reading from a healthy transport\<close>

definition healthy :: "(bytes \<times> err option) list \<Rightarrow> bool" where
  "healthy evs \<longleftrightarrow> list_all (\<lambda>(bs, e). e = None) evs"

definition pending :: "(bytes \<times> err option) list \<Rightarrow> bytes" where
  "pending evs = concat (map fst evs)"

definition stream_of :: "('s, 'a, 'c, 'm) conn \<Rightarrow> bytes" where
  "stream_of c = rawInput c @ pending (net_in c)"

lemma healthy_simps [simp]:
  "healthy []" "healthy ((bs, e) # evs) \<longleftrightarrow> e = None \<and> healthy evs"
  "pending [] = []" "pending ((bs, e) # evs) = bs @ pending evs"
  by (simp_all add: healthy_def pending_def)

lemma read_loop_ok:
  "healthy evs \<Longrightarrow> N \<le> int (length (pending evs)) \<Longrightarrow>
     \<exists>evs' buf'. read_loop N evs buf = (evs', buf', None) \<and> healthy evs' \<and>
       buf' @ pending evs' = buf @ pending evs \<and> int (length buf) + N \<le> int (length buf')"
proof (induction N evs buf rule: read_loop.induct)
  case (2 N bs e evs buf)
  show ?case
  proof (cases "N \<le> 0")
    case False
    show ?thesis
    proof (cases "N - int (length bs) \<le> 0")
      case True
      then show ?thesis
        using 2(2,3) False by simp
    next
      case more: False
      have "\<exists>evs' buf'. read_loop (N - int (length bs)) evs (buf @ bs) = (evs', buf', None) \<and> healthy evs' \<and>
          buf' @ pending evs' = (buf @ bs) @ pending evs \<and>
          int (length (buf @ bs)) + (N - int (length bs)) \<le> int (length buf')"
        using 2(2,3) more False by (intro 2(1)) (auto simp: Let_def)
      then show ?thesis
        using 2(2) more False by (auto simp: Let_def)
    qed
  qed (use 2 in auto)
qed auto

lemma readFromUntil_ok:
  assumes "healthy (net_in c)" "n \<le> length (stream_of c)"
  obtains evs buf where "readFromUntil c n = (c\<lparr>net_in := evs, rawInput := buf\<rparr>, None)" "healthy evs"
    "buf @ pending evs = stream_of c" "n \<le> length buf"
proof (cases "n \<le> length (rawInput c)")
  case True
  then show ?thesis
    using assms(1) by (intro that [where evs = "net_in c" and buf = "rawInput c"]) (simp_all add: readFromUntil_def stream_of_def)
next
  case False
  have "int n - int (length (rawInput c)) \<le> int (length (pending (net_in c)))"
    using assms(2) by (simp add: stream_of_def)
  from read_loop_ok [OF assms(1) this, of "rawInput c"] False show ?thesis
    using that by (auto simp: readFromUntil_def stream_of_def)
qed

lemma take_stream: "buf @ rest = xs \<Longrightarrow> n \<le> length buf \<Longrightarrow> take n buf = take n xs"
  by auto

lemma split_stream:
  "buf @ rest = xs @ ys \<Longrightarrow> length xs \<le> length buf \<Longrightarrow>
     take (length xs) buf = xs \<and> drop (length xs) buf @ rest = ys"
  by (auto simp: append_eq_append_conv2)

section \<open>One record\<close>

definition reader_ready :: "('s, 'a, 'c, 'm) conn \<Rightarrow> bool" where
  "reader_ready c \<longleftrightarrow>
     hc_err (c_in c) = None \<and> c_input c = [] \<and> hand c = [] \<and> isHandshakeComplete c \<and> haveVers c \<and>
     c_vers c \<noteq> 0 \<and> healthy (net_in c)"

lemma header_fields:
  assumes "n < 65536"
  shows "get_u16 (take 2 (drop 1 (record_header t vers n))) = vers"
    and "get_be (take 2 (drop 3 (record_header t vers n))) = n"
proof -
  have "take 2 (drop 1 (record_header t vers n)) = put_u16 vers"
    "take 2 (drop 3 (record_header t vers n)) = put_be 2 n"
    by (simp_all add: record_header_def)
  then show "get_u16 (take 2 (drop 1 (record_header t vers n))) = vers"
    "get_be (take 2 (drop 3 (record_header t vers n))) = n"
    using assms by simp_all
qed

lemma fetch_framed:
  assumes ready: "reader_ready c" and rec: "framed ty (wire_vers (c_vers c)) (c_vers c) rec"
    and stream: "stream_of c = rec @ rest"
  obtains evs buf where "fetch_record K c = (c\<lparr>net_in := evs, rawInput := buf\<rparr>, Inr rec)"
    "healthy evs" "buf @ pending evs = rest"
proof -
  let ?v = "wire_vers (c_vers c)"
  obtain t body where body: "rec = record_header t ?v (length body) @ body"
    "length body \<le> (if c_vers c = VersionTLS13 then maxCiphertextTLS13 else maxCiphertext)"
    using rec by (auto simp: framed_def)
  let ?n = "length body"
  have small: "?n < 65536"
    using body(2) by (auto simp: maxCiphertextTLS13_def maxCiphertext_def split: if_splits)
  have len: "recordHeaderLen \<le> length (stream_of c)" "length rec = recordHeaderLen + ?n"
    by (simp_all add: stream body(1) recordHeaderLen_def)
  obtain evs buf where r1: "readFromUntil c recordHeaderLen = (c\<lparr>net_in := evs, rawInput := buf\<rparr>, None)"
    "healthy evs" "buf @ pending evs = stream_of c" "recordHeaderLen \<le> length buf"
    by (rule readFromUntil_ok [OF _ len(1)]) (use ready in \<open>simp add: reader_ready_def\<close>)
  let ?c1 = "c\<lparr>net_in := evs, rawInput := buf\<rparr>"
  have hdr: "take recordHeaderLen buf = record_header t ?v ?n"
    using take_stream [OF r1(3,4)] by (simp add: stream body(1) recordHeaderLen_def)
  have bound: "?n \<le> maxCiphertext" "c_vers c = VersionTLS13 \<longrightarrow> ?n \<le> maxCiphertextTLS13"
    using body(2) by (auto simp: maxCiphertextTLS13_def maxCiphertext_def split: if_splits)
  have "check_header K ?c1 (record_header t ?v ?n) = (?c1, Inr ?n)"
    using ready bound header_fields [OF small]
    by (auto simp: check_header_def reader_ready_def wire_vers_def Let_def not_less)
  moreover have c1: "healthy (net_in ?c1)" "recordHeaderLen + ?n \<le> length (stream_of ?c1)"
    using r1(2,3) stream len(2) by (simp_all add: stream_of_def)
  obtain evs2 buf2 where r2: "readFromUntil ?c1 (recordHeaderLen + ?n) = (?c1\<lparr>net_in := evs2, rawInput := buf2\<rparr>, None)"
    "healthy evs2" "buf2 @ pending evs2 = stream_of ?c1" "recordHeaderLen + ?n \<le> length buf2"
    by (rule readFromUntil_ok [OF c1])
  moreover have "take (recordHeaderLen + ?n) buf2 = rec \<and> drop (recordHeaderLen + ?n) buf2 @ pending evs2 = rest"
    using split_stream [of buf2 "pending evs2" rec rest] r2(3,4) r1(3) stream len(2) by (simp add: stream_of_def)
  ultimately show thesis
    using r1(1) hdr by (intro that [where evs = evs2 and buf = "drop (recordHeaderLen + ?n) buf2"]) (simp_all add: fetch_record_def)
qed

text \<open>A record of application data is read into \<open>input\<close>.\<close>

lemma read_data_record:
  assumes ready: "reader_ready c" and rec: "framed recordTypeApplicationData (wire_vers (c_vers c)) (c_vers c) rec"
    and stream: "stream_of c = rec @ rest"
    and dec: "decrypt K (c_in c) rec = (h, Ret (data, recordTypeApplicationData))"
    and h: "hc_cipher h \<noteq> NilCipher" and data: "data \<noteq> []" "length data \<le> maxPlaintext"
  obtains evs buf where "readRecord K c = (c\<lparr>net_in := evs, rawInput := buf, c_in := h, retryCount := 0, c_input := data\<rparr>, Ret ())"
    "healthy evs" "buf @ pending evs = rest"
proof -
  obtain evs buf where f: "fetch_record K c = (c\<lparr>net_in := evs, rawInput := buf\<rparr>, Inr rec)"
    "healthy evs" "buf @ pending evs = rest"
    by (rule fetch_framed [OF ready rec stream])
  have "recordTypeApplicationData \<noteq> recordTypeAlert" "recordTypeApplicationData \<noteq> recordTypeChangeCipherSpec"
    by (simp_all add: record_types)
  moreover have "open_record K (c\<lparr>net_in := evs, rawInput := buf\<rparr>) rec =
      (c\<lparr>net_in := evs, rawInput := buf, c_in := h, retryCount := 0\<rparr>, Inr (recordTypeApplicationData, data))"
    using ready dec h data calculation by (simp add: open_record_def reader_ready_def)
  ultimately have "read_one K c False =
      (c\<lparr>net_in := evs, rawInput := buf, c_in := h, retryCount := 0, c_input := data\<rparr>, Inl (Ret ()))"
    using ready f(1) data by (simp add: read_one_def reader_ready_def process_record_def)
  then show thesis
    using f(2,3) by (intro that) (simp_all add: readRecord_def readRecordOrCCS.simps [of K c False])
qed

section \<open>Records in transit\<close>

text \<open>\<open>recs\<close> are records of application data; \<open>r\<close> decrypts them, in order, to \<open>ds\<close>.\<close>

fun carries ::
  "('s, 'a, 'c, 'm) cipher_ops \<Rightarrow> u16 \<Rightarrow> ('s, 'a, 'c, 'm) halfConn \<Rightarrow> bytes list \<Rightarrow> bytes list
     \<Rightarrow> ('s, 'a, 'c, 'm) halfConn \<Rightarrow> bool" where
  "carries K v r [] [] r' \<longleftrightarrow> r' = r"
| "carries K v r (rec # recs) (d # ds) r' \<longleftrightarrow>
     framed recordTypeApplicationData (wire_vers v) v rec \<and> d \<noteq> [] \<and> length d \<le> maxPlaintext \<and>
     (\<exists>r1. decrypt K r rec = (r1, Ret (d, recordTypeApplicationData)) \<and> hc_cipher r1 \<noteq> NilCipher \<and>
        hc_err r1 = hc_err r \<and> carries K v r1 recs ds r')"
| "carries K v r _ _ r' \<longleftrightarrow> False"

lemma carries_append:
  "carries K v r recs ds r1 \<Longrightarrow> carries K v r1 recs' ds' r' \<Longrightarrow> carries K v r (recs @ recs') (ds @ ds') r'"
  by (induction K v r recs ds r1 rule: carries.induct) auto

lemma carries_length: "carries K v r recs ds r' \<Longrightarrow> length recs = length ds"
  by (induction K v r recs ds r' rule: carries.induct) auto

lemma carries_cases:
  assumes "carries K v r recs ds r'" "concat ds \<noteq> []"
  obtains rec recs' d ds' r1 where "recs = rec # recs'" "ds = d # ds'"
    "framed recordTypeApplicationData (wire_vers v) v rec" "d \<noteq> []" "length d \<le> maxPlaintext"
    "decrypt K r rec = (r1, Ret (d, recordTypeApplicationData))" "hc_cipher r1 \<noteq> NilCipher"
    "hc_err r1 = hc_err r" "carries K v r1 recs' ds' r'"
  using assms by (cases recs; cases ds) auto

section \<open>Writing\<close>

definition writer_ready :: "('s, 'a, 'c, 'm) conn \<Rightarrow> bool" where
  "writer_ready c \<longleftrightarrow> \<not> buffering c \<and> net_wr c = [] \<and> \<not> write_expired c \<and> (\<forall>i. rand_ok (c_rand c i)) \<and>
     version (c_out c) = c_vers c"

text \<open>What writing a record changes.\<close>

definition same_but_writer :: "('s, 'a, 'c, 'm) conn \<Rightarrow> ('s, 'a, 'c, 'm) conn \<Rightarrow> bool" where
  "same_but_writer c c' \<longleftrightarrow>
     (\<exists>p h d out n. c' = c\<lparr>packetsSent := p, c_out := h, c_draws := d, net_out := out, bytesSent := n\<rparr>)"

lemma same_but_writerI: "c' = c\<lparr>packetsSent := p, c_out := h, c_draws := d, net_out := out, bytesSent := n\<rparr> \<Longrightarrow> same_but_writer c c'"
  unfolding same_but_writer_def by blast

lemma same_but_writer_refl [simp]: "same_but_writer c c"
  by (rule same_but_writerI [where p = "packetsSent c" and h = "c_out c" and d = "c_draws c" and out = "net_out c" and n = "bytesSent c"]) simp

lemma same_but_writer_trans: "same_but_writer a b \<Longrightarrow> same_but_writer b c \<Longrightarrow> same_but_writer a c"
  unfolding same_but_writer_def by fastforce

lemma same_but_writer_simps:
  assumes "same_but_writer c c'"
  shows "c_vers c' = c_vers c" "buffering c' = buffering c" "net_wr c' = net_wr c" "write_expired c' = write_expired c"
    "c_rand c' = c_rand c" "c_in c' = c_in c" "isHandshakeComplete c' = isHandshakeComplete c"
    "closeNotifySent c' = closeNotifySent c" "activeCall c' = activeCall c"
  using assms by (auto simp: same_but_writer_def)

text \<open>Reading a record does not touch the error.\<close>

lemma decrypt_keeps:
  assumes "decrypt K h rec = (h', Ret x)"
  shows "hc_err h' = hc_err h"
proof -
  obtain h1 r where d: "decrypt_cipher K h rec (drop recordHeaderLen rec) = (h1, r)"
    by fastforce
  show ?thesis
    using assms decrypt_cipher_keeps(6) [OF d]
    by (auto simp: decrypt_def d Let_def then_incSeq_Ret dest: incSeq_keeps split: if_splits)
qed

locale conn_channel = record_channel K sync "\<lambda>ty p. ty = recordTypeApplicationData \<and> length p \<le> maxPlaintext"
  for K :: "('s, 'a, 'c, 'm) cipher_ops"
    and sync :: "nat \<Rightarrow> ('s, 'a, 'c, 'm) halfConn \<Rightarrow> ('s, 'a, 'c, 'm) halfConn \<Rightarrow> bool" +
  assumes payload: "sync n w r \<Longrightarrow>
      \<exists>x \<ge> 2. cipher_payload K w (tcpMSSEstimate - int recordHeaderLen - int (explicitNonceLen K w)) = Ret x"
    and sync_err: "sync n w r \<Longrightarrow> sync n (w\<lparr>hc_err := e\<rparr>) r"
begin

lemma maxPayload_ok:
  assumes "sync n (c_out c) r"
  shows "\<exists>p x. maxPayloadSizeForWrite K c ty = (c\<lparr>packetsSent := p\<rparr>, Ret x) \<and> 1 \<le> x \<and> x \<le> int maxPlaintext"
proof -
  obtain x where x: "x \<ge> 2"
    "cipher_payload K (c_out c) (tcpMSSEstimate - int recordHeaderLen - int (explicitNonceLen K (c_out c))) = Ret x"
    using payload [OF assms] by blast
  have same: "c = c\<lparr>packetsSent := packetsSent c\<rparr>"
    by simp
  have "1 \<le> y * int (packetsSent c + 1)" if "1 \<le> y" for y
    using that mult_mono [of 1 y 1 "int (packetsSent c + 1)"] by simp
  from this [of x] this [of "x - 1"] x same show ?thesis
    by (auto simp: maxPayloadSizeForWrite_def Let_def maxPlaintext_def intro: exI [of _ "packetsSent c"])
qed


lemma write_one_ok:
  assumes w: "writer_ready c" and sync: "sync n (c_out c) r" and n: "n < 2 ^ 64 - 1"
    and data: "data \<noteq> []" and cipher: "hc_cipher r \<noteq> NilCipher"
  obtains c' m rec r' where "write_one K c recordTypeApplicationData data = (c', Ret m)" "0 < m" "m \<le> length data"
    "carries K (c_vers c) r [rec] [take m data] r'" "net_out c' = net_out c @ rec"
    "sync (n + 1) (c_out c') r'" "writer_ready c'" "same_but_writer c c'"
proof -
  obtain p x where x: "maxPayloadSizeForWrite K c recordTypeApplicationData = (c\<lparr>packetsSent := p\<rparr>, Ret x)"
    "1 \<le> x" "x \<le> int maxPlaintext"
    using maxPayload_ok [OF sync, of recordTypeApplicationData] by blast
  let ?m = "if int (length data) > x then nat x else length data"
  have m: "0 < ?m" "?m \<le> maxPlaintext" "?m \<le> length data" "length (take ?m data) = ?m"
    using x(2,3) data by auto
  let ?h = "record_header recordTypeApplicationData (wire_vers (c_vers c))"
  obtain h r' rec where rec: "encrypt K (c_out c) (?h ?m) (take ?m data) (c_rand c (c_draws c)) = (h, Ret rec)"
    "decrypt K r rec = (r', Ret (take ?m data, recordTypeApplicationData))" "sync (n + 1) h r'"
    "framed recordTypeApplicationData (wire_vers (c_vers c)) (version (c_out c)) rec" "version h = version (c_out c)"
    using record_step [OF sync n, of recordTypeApplicationData "take ?m data" "c_rand c (c_draws c)" "wire_vers (c_vers c)"] w m
    by (auto simp: writer_ready_def record_types)
  let ?c = "c\<lparr>packetsSent := p, c_out := h, c_draws := c_draws c + 1, net_out := net_out c @ rec,
      bytesSent := bytesSent c + length rec\<rparr>"
  have "write_one K c recordTypeApplicationData data = (?c, Ret ?m)"
    using w x(1,2) rec(1) by (simp add: write_one_def Let_def conn_write_def net_write_def writer_ready_def)
  moreover have "carries K (c_vers c) r [rec] [take ?m data] r'"
    using rec m w data decrypt_keeps [OF rec(2)] sync_cipher [OF rec(3)] by (auto simp: writer_ready_def)
  ultimately show thesis
    using that [of ?c ?m rec r'] m(1,3) rec(3,5) w same_but_writerI [of ?c] by (auto simp: writer_ready_def)
qed

lemma write_loop_ok:
  assumes "writer_ready c" "sync n (c_out c) r" "n + length data < 2 ^ 64" "hc_cipher r \<noteq> NilCipher"
  shows "\<exists>c' recs ds r'. write_loop K recordTypeApplicationData c data k = (c', k + length data, Ret ()) \<and>
     carries K (c_vers c) r recs ds r' \<and> concat ds = data \<and> net_out c' = net_out c @ concat recs \<and>
     sync (n + length recs) (c_out c') r' \<and> length recs \<le> length data \<and> writer_ready c' \<and> same_but_writer c c'"
  using assms
proof (induction "length data" arbitrary: c n r data k rule: less_induct)
  case less
  show ?case
  proof (cases "data = []")
    case True
    then show ?thesis
      using less.prems by (intro exI [of _ c] exI [of _ "[]"] exI [of _ r]) (simp add: write_loop.simps)
  next
    case False
    have n: "n < 2 ^ 64 - 1"
      using less.prems(3) False by (cases data) auto
    obtain c1 m rec r1 where one: "write_one K c recordTypeApplicationData data = (c1, Ret m)" "0 < m" "m \<le> length data"
      "carries K (c_vers c) r [rec] [take m data] r1" "net_out c1 = net_out c @ rec"
      "sync (n + 1) (c_out c1) r1" "writer_ready c1" "same_but_writer c c1"
      by (rule write_one_ok [OF less.prems(1,2) n False less.prems(4)])
    have shorter: "length (drop m data) < length data" "n + 1 + length (drop m data) < 2 ^ 64"
      using one(2,3) False less.prems(3) by (cases data; simp)+
    obtain c2 recs ds r2 where rest: "write_loop K recordTypeApplicationData c1 (drop m data) (k + m) =
        (c2, k + m + length (drop m data), Ret ())"
      "carries K (c_vers c1) r1 recs ds r2" "concat ds = drop m data" "net_out c2 = net_out c1 @ concat recs"
      "sync (n + 1 + length recs) (c_out c2) r2" "length recs \<le> length (drop m data)" "writer_ready c2"
      "same_but_writer c1 c2"
      using less.hyps [OF shorter(1) one(7,6) shorter(2) sync_cipher [OF one(6)], of "k + m"] by blast
    have total: "m + length (drop m data) = length data"
      using one(3) by simp
    have "carries K (c_vers c) r (rec # recs) (take m data # ds) r2"
      using carries_append [OF one(4), of recs ds r2] rest(2) same_but_writer_simps(1) [OF one(8)] by simp
    then show ?thesis
      using one rest total False same_but_writer_trans [OF one(8) rest(8)] shorter
      by (intro exI [of _ c2] exI [of _ "rec # recs"] exI [of _ "take m data # ds"] exI [of _ r2])
        (simp add: write_loop.simps [of K recordTypeApplicationData c data k] add.assoc)
  qed
qed


text \<open>One call of \<open>writeRecordLocked\<close>, and one of \<open>Write\<close> after its checks.\<close>

definition transmits :: "('s, 'a, 'c, 'm) conn \<Rightarrow> bytes \<Rightarrow> ('s, 'a, 'c, 'm) conn \<Rightarrow> nat
     \<Rightarrow> ('s, 'a, 'c, 'm) halfConn \<Rightarrow> bytes list \<Rightarrow> ('s, 'a, 'c, 'm) halfConn \<Rightarrow> bool" where
  "transmits c data c' n r recs r' \<longleftrightarrow>
     (\<exists>ds. carries K (c_vers c) r recs ds r' \<and> concat ds = data) \<and> net_out c' = net_out c @ concat recs \<and>
     sync (n + length recs) (c_out c') r' \<and> length recs \<le> length data \<and> writer_ready c' \<and> same_but_writer c c'"

lemma writeRecordLocked_ok:
  assumes "writer_ready c" "sync n (c_out c) r" "n + length data < 2 ^ 64" "hc_cipher r \<noteq> NilCipher"
  shows "\<exists>c' recs r'. writeRecordLocked K c recordTypeApplicationData data = (c', length data, Ret ()) \<and>
     transmits c data c' n r recs r'"
  using write_loop_ok [OF assms, of 0]
  by (fastforce simp: writeRecordLocked_def transmits_def record_types)

lemma transmits_append:
  assumes "transmits c a c1 n r recs r1" "transmits c1 b c2 (n + length recs) r1 recs' r2"
  shows "transmits c (a @ b) c2 n r (recs @ recs') r2"
proof -
  obtain ds ds' where "carries K (c_vers c) r recs ds r1" "concat ds = a"
    "carries K (c_vers c1) r1 recs' ds' r2" "concat ds' = b"
    using assms by (auto simp: transmits_def)
  moreover have "c_vers c1 = c_vers c"
    using assms(1) same_but_writer_simps(1) by (auto simp: transmits_def)
  ultimately show ?thesis
    using assms carries_append by (fastforce simp: transmits_def add.assoc intro: same_but_writer_trans)
qed


lemma write_return_ok: "write_return m (c, n, Ret ()) = (c\<lparr>c_out := (c_out c)\<lparr>hc_err := None\<rparr>\<rparr>, n + m, Ret ())"
  by (simp add: write_return_def out_setErrorLocked_def setErrorLocked_def err_exec_def Let_def)

lemma transmits_no_err:
  assumes "transmits c b c' n r recs r'"
  shows "transmits c b (c'\<lparr>c_out := (c_out c')\<lparr>hc_err := None\<rparr>\<rparr>) n r recs r'"
proof -
  have "same_but_writer c' (c'\<lparr>c_out := (c_out c')\<lparr>hc_err := None\<rparr>\<rparr>)"
    by (rule same_but_writerI [where p = "packetsSent c'" and h = "(c_out c')\<lparr>hc_err := None\<rparr>" and d = "c_draws c'"
          and out = "net_out c'" and n = "bytesSent c'"]) simp
  then show ?thesis
    using assms sync_err by (auto simp: transmits_def writer_ready_def intro: same_but_writer_trans)
qed

lemma write_data_ok:
  assumes "writer_ready c" "sync n (c_out c) r" "n + length b < 2 ^ 64" "hc_cipher r \<noteq> NilCipher"
  shows "\<exists>c' recs r'. write_data K c b = (c', length b, Ret ()) \<and> transmits c b c' n r recs r' \<and> hc_err (c_out c') = None"
proof (cases "splits_first c b")
  case False
  obtain c1 recs r1 where "writeRecordLocked K c recordTypeApplicationData b = (c1, length b, Ret ())"
    "transmits c b c1 n r recs r1"
    using writeRecordLocked_ok [OF assms] by blast
  then show ?thesis
    using False transmits_no_err by (fastforce simp: write_data_def write_return_ok)
next
  case True
  then have b: "b = take 1 b @ drop 1 b" "length (take 1 b) = 1" "length (drop 1 b) + 1 = length b"
    by (auto simp: splits_first_def)
  have small: "n + length (take 1 b) < 2 ^ 64"
    using assms(3) b(2,3) by linarith
  obtain c1 recs r1 where one: "writeRecordLocked K c recordTypeApplicationData (take 1 b) = (c1, 1, Ret ())"
    "transmits c (take 1 b) c1 n r recs r1"
    using writeRecordLocked_ok [OF assms(1,2) small assms(4)] unfolding b(2) by blast
  then have r1: "sync (n + length recs) (c_out c1) r1" "length recs \<le> 1" "writer_ready c1"
    using b(2) by (auto simp: transmits_def)
  then have "n + length recs + length (drop 1 b) < 2 ^ 64"
    using assms(3) b(3) by linarith
  then obtain c2 recs' r2 where two:
    "writeRecordLocked K c1 recordTypeApplicationData (drop 1 b) = (c2, length (drop 1 b), Ret ())"
    "transmits c1 (drop 1 b) c2 (n + length recs) r1 recs' r2"
    using writeRecordLocked_ok [OF r1(3,1) _ sync_cipher [OF r1(1)]] by blast
  have "transmits c b c2 n r (recs @ recs') r2"
    using transmits_append [OF one(2) two(2)] b(1) by simp
  then show ?thesis
    using True one(1) two(1) b(3) transmits_no_err
    by (fastforce simp: write_data_def write_return_ok simp del: One_nat_def)
qed

end

section \<open>Reading\<close>

text \<open>A connection that is going to read \<open>data\<close>: part of it is decrypted, the rest in transit.\<close>

definition holds :: "('s, 'a, 'c, 'm) cipher_ops \<Rightarrow> u16 \<Rightarrow> ('s, 'a, 'c, 'm) conn \<Rightarrow> bytes \<Rightarrow> ('s, 'a, 'c, 'm) halfConn \<Rightarrow> bool" where
  "holds K v c data r' \<longleftrightarrow>
     reader_ready (c\<lparr>c_input := []\<rparr>) \<and> c_vers c = v \<and>
     (\<exists>recs ds. carries K v (c_in c) recs ds r' \<and> stream_of c = concat recs \<and> data = c_input c @ concat ds)"

lemma framed_first:
  assumes "framed recordTypeApplicationData vers v rec"
  obtains body where "rec = recordTypeApplicationData # body"
  using assms by (auto simp: framed_def record_header_def)

text \<open>The look ahead of \<open>Read\<close> finds no alert.\<close>

lemma no_alert_waiting:
  assumes "carries K v r recs ds r'" "raw @ rest = concat recs" "raw \<noteq> []"
  shows "raw ! 0 = recordTypeApplicationData"
proof -
  have "concat ds \<noteq> []"
    using assms by (cases recs; cases ds) auto
  from carries_cases [OF assms(1) this] obtain rec recs' where "recs = rec # recs'"
    "framed recordTypeApplicationData (wire_vers v) v rec"
    by metis
  moreover from this(2) obtain body where "rec = recordTypeApplicationData # body"
    by (rule framed_first)
  ultimately show ?thesis
    using assms(2,3) by (cases raw) auto
qed

text \<open>After the loop there is data in \<open>input\<close>.\<close>

lemma input_loop_ok:
  assumes h: "holds (ops E) v c data r'" and data: "data \<noteq> []"
  obtains c' where "input_loop E c = Some (c', Ret ())" "c_input c' \<noteq> []" "holds (ops E) v c' data r'"
proof (cases "c_input c = []")
  case False
  then show ?thesis
    using h by (intro that [of c]) (simp_all add: input_loop.simps [of E c])
next
  case True
  obtain recs ds where t: "carries (ops E) v (c_in c) recs ds r'" "stream_of c = concat recs" "data = concat ds"
    using h True by (auto simp: holds_def)
  obtain rec recs' d ds' r1 where s: "recs = rec # recs'" "ds = d # ds'"
    "framed recordTypeApplicationData (wire_vers v) v rec" "d \<noteq> []" "length d \<le> maxPlaintext"
    "decrypt (ops E) (c_in c) rec = (r1, Ret (d, recordTypeApplicationData))" "hc_cipher r1 \<noteq> NilCipher"
    "hc_err r1 = hc_err (c_in c)" "carries (ops E) v r1 recs' ds' r'"
    using t(1) data [unfolded t(3)] by (rule carries_cases)
  have ready: "reader_ready c" and v: "c_vers c = v" and stream: "stream_of c = rec @ concat recs'"
    using h True t(2) s(1) by (auto simp: holds_def reader_ready_def)
  obtain evs buf where r: "readRecord (ops E) c =
      (c\<lparr>net_in := evs, rawInput := buf, c_in := r1, retryCount := 0, c_input := d\<rparr>, Ret ())"
    "healthy evs" "buf @ pending evs = concat recs'"
    by (rule read_data_record [OF ready _ stream s(6,7,4,5)]) (use s(3) v in simp)
  let ?c = "c\<lparr>net_in := evs, rawInput := buf, c_in := r1, retryCount := 0, c_input := d\<rparr>"
  have "holds (ops E) v ?c data r'"
    using ready v r(2,3) s t(3) by (auto simp: holds_def reader_ready_def stream_of_def)
  moreover have "input_loop E c = Some (?c, Ret ())"
    using True ready r(1) s(4)
    by (simp add: input_loop.simps [of E c] input_loop.simps [of E ?c] post_loop.simps [of E ?c] reader_ready_def)
  ultimately show ?thesis
    using s(4) by (intro that [of ?c]) simp_all
qed

lemma conn_Read_ok:
  assumes h: "holds (ops E) v c data r'" and data: "data \<noteq> []" and k: "0 < k"
  obtains c' b rest where "conn_Read E c k = Some (c', b, Ret ())" "b \<noteq> []" "length b \<le> k" "data = b @ rest"
    "holds (ops E) v c' rest r'"
proof -
  obtain c1 where c1: "input_loop E c = Some (c1, Ret ())" "c_input c1 \<noteq> []" "holds (ops E) v c1 data r'"
    by (rule input_loop_ok [OF h data])
  let ?c = "c1\<lparr>c_input := drop k (c_input c1)\<rparr>"
  obtain recs ds where t: "carries (ops E) v (c_in c1) recs ds r'" "stream_of c1 = concat recs"
    "data = c_input c1 @ concat ds"
    using c1(3) by (auto simp: holds_def)
  have "rawInput c1 \<noteq> [] \<longrightarrow> rawInput c1 ! 0 \<noteq> recordTypeAlert"
    using no_alert_waiting [OF t(1)] t(2) by (auto simp: stream_of_def record_types)
  moreover have "isHandshakeComplete c"
    using h by (simp add: holds_def reader_ready_def)
  ultimately have "conn_Read E c k = Some (?c, take k (c_input c1), Ret ())"
    using c1(1) k by (auto simp: conn_Read_def conn_Handshake_def Let_def)
  moreover have "holds (ops E) v ?c (drop k (c_input c1) @ concat ds) r'"
    using c1(3) t by (auto simp: holds_def stream_of_def)
  moreover have "take k (c_input c1) \<noteq> []" "length (take k (c_input c1)) \<le> k"
    using c1(2) k by simp_all
  ultimately show thesis
    using t(3) by (intro that [of ?c "take k (c_input c1)" "drop k (c_input c1) @ concat ds"]) simp_all
qed

section \<open>The ciphers of the library\<close>

text \<open>Two half connections after \<open>n\<close> records.\<close>

definition in_sync ::
  "nat \<Rightarrow> (rc4, gcm_aead, aes_cbc, hash_fn \<times> bytes) halfConn \<Rightarrow> (rc4, gcm_aead, aes_cbc, hash_fn \<times> bytes) halfConn \<Rightarrow> bool" where
  "in_sync n w r \<longleftrightarrow>
     aead_sync lib_ops gcm_pair n w r \<or> stream_sync hmac_keyed rc4_pair n w r \<or> cbc_sync hmac_keyed aes_cbc_pair n w r"

lemma lib_payload:
  assumes "in_sync n w r"
  shows "\<exists>x \<ge> 2. cipher_payload lib_ops w (tcpMSSEstimate - int recordHeaderLen - int (explicitNonceLen lib_ops w)) = Ret x"
  using assms unfolding in_sync_def
proof (elim disjE)
  assume "aead_sync lib_ops gcm_pair n w r"
  then show ?thesis
    using gcm.same_sizes
    by (fastforce simp: aead_sync_def cipher_payload_def explicitNonceLen_def tcpMSSEstimate_def recordHeaderLen_def)
next
  assume "stream_sync hmac_keyed rc4_pair n w r"
  then show ?thesis
    using hmac_mac.mac_small
    by (fastforce simp: stream_sync_def mac_sync_def cipher_payload_def explicitNonceLen_def tcpMSSEstimate_def recordHeaderLen_def)
next
  assume "cbc_sync hmac_keyed aes_cbc_pair n w r"
  then show ?thesis
    using hmac_mac.mac_small
    by (fastforce simp: cbc_sync_def mac_sync_def cipher_payload_def explicitNonceLen_def tcpMSSEstimate_def
        recordHeaderLen_def lib_ops_def BlockSize_def)
qed

interpretation lib_channel: conn_channel lib_ops in_sync
proof
  fix n w r and ty :: byte and p :: bytes and rand :: rand_source and vers :: u16
  assume *: "in_sync n w r" "n < 2 ^ 64 - 1" "ty = recordTypeApplicationData \<and> length p \<le> maxPlaintext" "rand_ok rand"
  have "\<exists>w' r' record. encrypt lib_ops w (record_header ty vers (length p)) p rand = (w', Ret record) \<and>
       decrypt lib_ops r record = (r', Ret (p, ty)) \<and> aead_sync lib_ops gcm_pair (n + 1) w' r' \<and>
       framed ty vers (version w) record \<and> version w' = version w" if "aead_sync lib_ops gcm_pair n w r"
    unfolding record_types
    using gcm.step13_plain [OF that, of ty p vers rand] gcm.step12 [OF that, of p ty vers rand] *
    by (cases "version w = VersionTLS13") (auto simp: record_types)
  with * show "\<exists>w' r' record. encrypt lib_ops w (record_header ty vers (length p)) p rand = (w', Ret record) \<and>
       decrypt lib_ops r record = (r', Ret (p, ty)) \<and> in_sync (n + 1) w' r' \<and>
       framed ty vers (version w) record \<and> version w' = version w"
    using rc4.stream_channel.record_step [of n w r p rand ty vers]
      aes_cbc.cbc_channel.record_step [of n w r p rand ty vers]
    unfolding in_sync_def by blast
next
  fix n w r
  assume "in_sync n w r"
  moreover have "hc_cipher r \<noteq> NilCipher" if "aead_sync lib_ops gcm_pair n w r"
    using that by (auto simp: aead_sync_def)
  ultimately show "hc_cipher r \<noteq> NilCipher"
    using rc4.stream_channel.sync_cipher aes_cbc.cbc_channel.sync_cipher unfolding in_sync_def by blast
next
  fix n w r
  assume "in_sync n w r"
  then show "\<exists>x \<ge> 2. cipher_payload lib_ops w
      (tcpMSSEstimate - int recordHeaderLen - int (explicitNonceLen lib_ops w)) = Ret x"
    by (rule lib_payload)
qed (auto simp: in_sync_def aead_sync_def stream_sync_def cbc_sync_def mac_sync_def)

section \<open>From \<open>Write\<close> to \<open>Read\<close>\<close>

text \<open>\<open>cw\<close> may write and \<open>cr\<close> has read all that \<open>cw\<close> wrote so far, in \<open>n\<close> records.\<close>

definition linked ::
  "nat \<Rightarrow> (rc4, gcm_aead, aes_cbc, hash_fn \<times> bytes) conn \<Rightarrow> (rc4, gcm_aead, aes_cbc, hash_fn \<times> bytes) conn \<Rightarrow> bool" where
  "linked n cw cr \<longleftrightarrow>
     writer_ready cw \<and> isHandshakeComplete cw \<and> hc_err (c_out cw) = None \<and> \<not> closeNotifySent cw \<and>
     activeCall cw AND 1 = 0 \<and> reader_ready cr \<and> stream_of cr = [] \<and> c_vers cr = c_vers cw \<and>
     in_sync n (c_out cw) (c_in cr)"

text \<open>Calls of \<open>Read\<close> with buffers of the given sizes until \<open>n\<close> bytes have been read or one fails.\<close>

function read_data ::
  "('s, 'a, 'c, 'm, 'b) conn_env \<Rightarrow> (nat \<Rightarrow> nat) \<Rightarrow> ('s, 'a, 'c, 'm) conn \<Rightarrow> nat
     \<Rightarrow> (('s, 'a, 'c, 'm) conn \<times> bytes \<times> unit exec) option" where
  "read_data E sizes c n =
     (if n = 0 then Some (c, [], Ret ())
      else Option.bind (conn_Read E c (sizes 0)) (\<lambda>(c, b, r).
             if r \<noteq> Ret () then Some (c, b, r)
             else if b = [] then Some (c, [], Fail (ErrMsg ''no progress''))
             else Option.bind (read_data E (sizes \<circ> Suc) c (n - length b)) (\<lambda>(c, b', r). Some (c, b @ b', r))))"
  by auto
termination
  by (relation "measure (\<lambda>(E, sizes, c, n). n)") auto

declare read_data.simps [simp del]

lemma read_data_ok:
  "holds (ops E) v c data r' \<Longrightarrow> (\<And>i. 0 < sizes i) \<Longrightarrow>
     \<exists>c'. read_data E sizes c (length data) = Some (c', data, Ret ()) \<and> holds (ops E) v c' [] r'"
proof (induction "length data" arbitrary: c data sizes rule: less_induct)
  case less
  show ?case
  proof (cases "data = []")
    case True
    then show ?thesis
      using less.prems(1) by (simp add: read_data.simps)
  next
    case False
    obtain c1 b rest where one: "conn_Read E c (sizes 0) = Some (c1, b, Ret ())" "b \<noteq> []" "data = b @ rest"
      "holds (ops E) v c1 rest r'"
      by (rule conn_Read_ok [OF less.prems(1) False less.prems(2)])
    obtain c2 where "read_data E (sizes \<circ> Suc) c1 (length rest) = Some (c2, rest, Ret ())" "holds (ops E) v c2 [] r'"
      using less.hyps [OF _ one(4), of "sizes \<circ> Suc"] one(2,3) less.prems(2) by auto
    then show ?thesis
      using one(1-3) by (simp add: read_data.simps [of E sizes c])
  qed
qed

lemma holds_all: "holds K v c [] r' \<Longrightarrow> reader_ready c \<and> stream_of c = [] \<and> c_in c = r' \<and> c_vers c = v"
proof -
  assume h: "holds K v c [] r'"
  then obtain recs ds where t: "carries K v (c_in c) recs ds r'" "stream_of c = concat recs" "c_input c = []" "concat ds = []"
    "reader_ready (c\<lparr>c_input := []\<rparr>)" "c_vers c = v"
    by (auto simp: holds_def)
  then show ?thesis
    by (cases recs; cases ds) (auto simp: reader_ready_def)
qed

text \<open>C11: Application data arrives: on two connections that share keys, whatever \<open>Write\<close> is given it
  accepts completely, splits and encrypts, and the reader gets exactly these bytes in order, whatever
  pieces the network delivers and whatever buffers \<open>Read\<close> is called with.  Afterwards the
  connections are ready for the next \<open>Write\<close>.\<close>

theorem data_delivered:
  assumes "linked n cw cr" and "n + length b < 2 ^ 64" and "ops E = lib_ops" and "ops E' = lib_ops"
  shows "\<exists>cw' wire m. conn_Write E cw b = (cw', length b, Ret ()) \<and> net_out cw' = net_out cw @ wire \<and> m \<le> length b \<and>
     (\<forall>evs sizes. healthy evs \<longrightarrow> pending evs = wire \<longrightarrow> (\<forall>i. 0 < sizes i) \<longrightarrow>
        (\<exists>cr'. read_data E' sizes (cr\<lparr>net_in := net_in cr @ evs\<rparr>) (length b) = Some (cr', b, Ret ()) \<and>
           linked (n + m) cw' cr'))"
proof -
  let ?v = "c_vers cw"
  let ?cw = "cw\<lparr>activeCall := activeCall cw + 2\<rparr>"
  have w: "writer_ready ?cw" "in_sync n (c_out ?cw) (c_in cr)"
    using assms(1) by (simp_all add: linked_def writer_ready_def)
  obtain c1 recs r' where one: "write_data lib_ops ?cw b = (c1, length b, Ret ())"
    "lib_channel.transmits ?cw b c1 n (c_in cr) recs r'" "hc_err (c_out c1) = None"
    using lib_channel.write_data_ok [OF w assms(2) lib_channel.sync_cipher [OF w(2)]] by blast
  obtain ds where t: "carries lib_ops ?v (c_in cr) recs ds r'" "concat ds = b" "net_out c1 = net_out cw @ concat recs"
    "in_sync (n + length recs) (c_out c1) r'" "length recs \<le> length b" "writer_ready c1" "same_but_writer ?cw c1"
    using one(2) by (auto simp: lib_channel.transmits_def)
  let ?c1 = "c1\<lparr>activeCall := activeCall c1 - 2\<rparr>"
  note same = same_but_writer_simps [OF t(7)]
  have wrote: "conn_Write E cw b = (?c1, length b, Ret ())"
    using assms(1,3) one(1) by (simp add: conn_Write_def Let_def conn_Handshake_def linked_def)
  have read: "\<exists>cr'. read_data E' sizes (cr\<lparr>net_in := net_in cr @ evs\<rparr>) (length b) = Some (cr', b, Ret ()) \<and>
      linked (n + length recs) ?c1 cr'"
    if evs: "healthy evs" "pending evs = concat recs" and sizes: "\<forall>i. 0 < sizes i" for evs sizes
  proof -
    let ?cr = "cr\<lparr>net_in := net_in cr @ evs\<rparr>"
    have "stream_of ?cr = stream_of cr @ pending evs"
      by (simp add: stream_of_def pending_def)
    then have "stream_of ?cr = concat recs" "reader_ready (?cr\<lparr>c_input := []\<rparr>)" "c_vers ?cr = ?v" "c_input ?cr = []"
      using assms(1) evs by (auto simp: linked_def reader_ready_def healthy_def)
    then have "holds lib_ops ?v ?cr b r'"
      using t(1,2) by (auto simp: holds_def)
    then obtain cr' where "read_data E' sizes ?cr (length b) = Some (cr', b, Ret ())" "holds lib_ops ?v cr' [] r'"
      using read_data_ok [of E' ?v ?cr b r' sizes] assms(4) sizes by auto
    moreover have "linked (n + length recs) ?c1 cr'"
      using holds_all [OF calculation(2)] assms(1) t(4,6) same one(3) by (simp add: linked_def writer_ready_def)
    ultimately show ?thesis
      by blast
  qed
  show ?thesis
    by (intro exI [of _ ?c1] exI [of _ "concat recs"] exI [of _ "length recs"]) (use wrote read t(3,5) in simp)
qed

text \<open>Two connections with the same TLS 1.3 traffic secret.\<close>

lemma idle_linked:
  assumes "aead_sync lib_ops gcm_pair 0 w r" "version w = VersionTLS13" "hc_err w = None" "hc_err r = None"
  shows "linked 0 (idle_conn hin w) (idle_conn r hout)"
  using assms
  by (simp add: linked_def writer_ready_def reader_ready_def idle_conn_def stream_of_def in_sync_def rand_ok_def VersionTLS13_def)

theorem data_delivered_witness:
  "\<exists>cw cr :: (rc4, gcm_aead, aes_cbc, hash_fn \<times> bytes) conn. \<exists>cw' cr'.
     conn_Write lib_env cw [1, 2, 3] = (cw', 3, Ret ()) \<and>
     read_data lib_env (\<lambda>i. 2) (cr\<lparr>net_in := net_in cr @ map (\<lambda>b. ([b], None)) (net_out cw')\<rparr>) 3 = Some (cr', [1, 2, 3], Ret ())"
proof -
  have s: "cipherSuitesTLS13 ! 0 \<in> set cipherSuitesTLS13" "cs13_aead (cipherSuitesTLS13 ! 0) = AeadAESGCMTLS13"
    by (simp_all add: cipherSuitesTLS13_def)
  let ?zero = "tls13_zero :: (rc4, gcm_aead, aes_cbc, hash_fn \<times> bytes) halfConn"
  have half: "tls13_half ?zero" "handshakeLen ?zero ! 1 = 0"
    by (simp_all add: tls13_half_def tls13_zero_def zero_half_def)
  obtain w r :: "(rc4, gcm_aead, aes_cbc, hash_fn \<times> bytes) halfConn" where
    wr: "setTrafficSecret toy_hashes (im_aead (lib_impl toy_hashes) (cs13_aead (cipherSuitesTLS13 ! 0))) ?zero
       (cipherSuitesTLS13 ! 0) 3 [7, 7] = Ret w"
    "setTrafficSecret toy_hashes (im_aead (lib_impl toy_hashes) (cs13_aead (cipherSuitesTLS13 ! 0))) ?zero
       (cipherSuitesTLS13 ! 0) 3 [7, 7] = Ret r"
    "aead_sync lib_ops gcm_pair 0 w r" "version w = VersionTLS13" "handshakeLen w = handshakeLen ?zero"
    by (rule traffic_sync [OF wf_toy_hashes s half(1,1), of 3 "[7, 7]" 3])
  have "hc_err w = None" "hc_err r = None"
    using wr(1,2) by (auto simp: setTrafficSecret_def exec_simps tls13_zero_def zero_half_def)
  then have linked: "linked 0 (idle_conn r w) (idle_conn r w)"
    using wr(3,4) by (intro idle_linked) simp_all
  have ops: "ops lib_env = lib_ops"
    by (simp add: lib_env_def)
  obtain cw' wire where w: "conn_Write lib_env (idle_conn r w) [1, 2, 3] = (cw', length [1, 2, 3 :: byte], Ret ())"
    "net_out cw' = net_out (idle_conn r w) @ wire"
    "\<And>evs sizes. healthy evs \<Longrightarrow> pending evs = wire \<Longrightarrow> (\<forall>i. 0 < sizes i) \<Longrightarrow>
       \<exists>cr'. read_data lib_env sizes ((idle_conn r w)\<lparr>net_in := net_in (idle_conn r w) @ evs\<rparr>)
          (length [1, 2, 3 :: byte]) = Some (cr', [1, 2, 3], Ret ())"
  proof -
    have "0 + length [1, 2, 3 :: byte] < 2 ^ 64"
      by simp
    from data_delivered [OF linked this ops ops] that show thesis
      by blast
  qed
  have evs: "net_out cw' = wire" "healthy (map (\<lambda>b. ([b], None)) wire)" "pending (map (\<lambda>b. ([b], None)) wire) = wire"
    using w(2) by (simp_all add: idle_conn_def healthy_def pending_def list_all_iff comp_def)
  have two: "\<forall>i :: nat. 0 < (2 :: nat)" and len: "length [1, 2, 3 :: byte] = 3"
    by simp_all
  show ?thesis
    using w(1) w(3) [OF evs(2,3) two] unfolding len evs(1) [symmetric] by blast
qed

end
