(* ===== verification/KeyUpdates.thy ===== *)
theory KeyUpdates
  imports ConnDelivery
begin

text \<open>
  TLS 1.3 key updates on a connection of the REALITY server.
\<close>

section \<open>A requested key update\<close>

text \<open>The lengths recorded from the target stay in \<open>out.handshakeLen\<close> after the handshake.\<close>

definition reality_writer :: "('s, 'a, 'c, 'm) cipher_ops \<Rightarrow> ('s, 'a, 'c, 'm) conn \<Rightarrow> bool" where
  "reality_writer K c \<longleftrightarrow>
     c_vers c = VersionTLS13 \<and> version (c_out c) = VersionTLS13 \<and> handshakeLen (c_out c) ! 1 \<noteq> 0 \<and>
     (\<exists>a. hc_cipher (c_out c) = Aead a \<and> o_explicitNonceLen K a = 0)"

lemma encrypt_no_slot:
  assumes "version h = VersionTLS13" "handshakeLen h ! 1 \<noteq> 0" "hc_cipher h = Aead a" "o_explicitNonceLen K a = 0"
    and "p \<noteq> []" "handshake_slot (p ! 0) = None"
  shows "\<exists>e. encrypt K h (record_header recordTypeHandshake v (length p)) p rand = (h, Fail e)"
proof -
  have "p ! 0 \<noteq> typeNewSessionTicket"
    using assms(6) by (auto simp: handshake_slot_def split: if_splits)
  moreover have "record_header recordTypeHandshake v (length p) ! 0 = recordTypeHandshake"
    by (simp add: record_header_def)
  ultimately have "\<exists>e. encrypt_padding (o_Overhead K a) (handshakeLen h) p
       (record_header recordTypeHandshake v (length p) @ p @ [recordTypeHandshake]) = (handshakeLen h, Fail e)"
    using assms by (auto simp: encrypt_padding_def nth_append Let_def)
  then show ?thesis
    using assms
    by (auto simp: encrypt_def encrypt_nonce_def explicitNonceLen_def encrypt_cipher_def encrypt_aead13_def then_incSeq_def
        record_header_def Let_def)
qed

lemma nextTrafficSecret_total:
  assumes "wf_hashes H" "s \<in> set cipherSuitesTLS13"
  shows "\<exists>b. nextTrafficSecret H s secret = Ret b"
proof -
  obtain h where h: "suite_hash H s = Ret h" "wf_hash h"
    using assms by (auto simp: cipherSuitesTLS13_def suite_hash_def wf_hashes_def)
  then show ?thesis
    using ExpandLabel_length [OF h(2), of "h_size h" "''traffic upd''" "[]" secret]
    by (auto simp: nextTrafficSecret_def exec_simps)
qed

lemma next_half_sync:
  assumes H: "wf_hashes (hashes E)" and s: "s \<in> set cipherSuitesTLS13" "cs13_aead s = AeadAESGCMTLS13"
    and half: "tls13_half w0" "tls13_half r0" and same: "trafficSecret w0 = trafficSecret r0" and E: "impl E = lib_impl (hashes E)"
  obtains w r where "next_half E s w0 = Ret w" "next_half E s r0 = Ret r" "aead_sync lib_ops gcm_pair 0 w r"
    "version w = VersionTLS13" "handshakeLen w = handshakeLen w0"
proof -
  obtain b where b: "nextTrafficSecret (hashes E) s (trafficSecret r0) = Ret b"
    using nextTrafficSecret_total [OF H s(1)] by blast
  obtain w r where "setTrafficSecret (hashes E) (im_aead (lib_impl (hashes E)) (cs13_aead s)) w0 s 0 b = Ret w"
    "setTrafficSecret (hashes E) (im_aead (lib_impl (hashes E)) (cs13_aead s)) r0 s 0 b = Ret r"
    "aead_sync lib_ops gcm_pair 0 w r" "version w = VersionTLS13" "handshakeLen w = handshakeLen w0"
    by (rule traffic_sync [OF H s half])
  then show thesis
    using b same E by (intro that [of w r]) (simp_all add: next_half_def exec_simps)
qed

lemma write_no_slot:
  assumes w: "reality_writer K c" and p: "p \<noteq> []" "handshake_slot (p ! 0) = None" "length p \<le> maxPlaintext"
  shows "\<exists>c1 n e. writeRecordLocked K c recordTypeHandshake p = (c1, n, Fail e) \<and> same_part c c1"
proof -
  obtain a where a: "hc_cipher (c_out c) = Aead a" "o_explicitNonceLen K a = 0"
    using w by (auto simp: reality_writer_def)
  have "version (c_out c) = VersionTLS13" "handshakeLen (c_out c) ! 1 \<noteq> 0"
    using w by (simp_all add: reality_writer_def)
  then obtain e where "encrypt K (c_out c) (record_header recordTypeHandshake (wire_vers (c_vers c)) (length p)) p
      (c_rand c (c_draws c)) = (c_out c, Fail e)"
    using encrypt_no_slot [OF _ _ a p(1,2)] by blast
  moreover have "maxPayloadSizeForWrite K c recordTypeHandshake = (c, Ret (int maxPlaintext))"
    by (simp add: maxPayloadSizeForWrite_def record_types)
  ultimately have "write_one K c recordTypeHandshake p = (c\<lparr>c_draws := c_draws c + 1\<rparr>, Fail e)"
    using p(3) by (simp add: write_one_def Let_def)
  then show ?thesis
    using p(1) by (auto simp: writeRecordLocked_def write_loop.simps [of K recordTypeHandshake c p] same_part_def)
qed

text \<open>A key update keeps the ends in step: when a writer and a reader hold the same traffic secret,
  both go on to the next secret without error, and every run of records is then delivered again.\<close>

theorem key_update_in_step:
  assumes "wf_hashes (hashes E)" and "s \<in> set cipherSuitesTLS13" and "cs13_aead s = AeadAESGCMTLS13"
    and "tls13_half w0" and "tls13_half r0" and "trafficSecret w0 = trafficSecret r0" and "handshakeLen w0 ! 1 = 0"
    and "impl E = lib_impl (hashes E)"
  shows "\<exists>w r. next_half E s w0 = Ret w \<and> next_half E s r0 = Ret r \<and> delivers lib_ops w r"
proof -
  obtain w r where "next_half E s w0 = Ret w" "next_half E s r0 = Ret r" "aead_sync lib_ops gcm_pair 0 w r"
    "version w = VersionTLS13" "handshakeLen w = handshakeLen w0"
    by (rule next_half_sync [OF assms(1-6,8)])
  moreover from this have "delivers lib_ops w r"
    using assms(7) by (intro gcm.aead_channel.sync_delivers) simp_all
  ultimately show ?thesis
    by blast
qed

theorem key_update_in_step_witness:
  "\<exists>w r w' r' records.
     next_half lib_env (cipherSuitesTLS13 ! 0) (tls13_zero\<lparr>trafficSecret := [9]\<rparr>) = Ret w \<and>
     next_half lib_env (cipherSuitesTLS13 ! 0) (tls13_zero\<lparr>trafficSecret := [9]\<rparr>) = Ret r \<and>
     encrypt_all lib_ops w VersionTLS12 [\<lambda>n. Ret (replicate n 5)] [(23, [1, 2, 3])] = (w', Ret records) \<and>
     decrypt_all lib_ops r records = (r', Ret [(23, [1, 2, 3])])"
proof -
  have s: "cipherSuitesTLS13 ! 0 \<in> set cipherSuitesTLS13" "cs13_aead (cipherSuitesTLS13 ! 0) = AeadAESGCMTLS13"
    by (simp_all add: cipherSuitesTLS13_def)
  let ?zero = "tls13_zero\<lparr>trafficSecret := [9]\<rparr> :: (rc4, gcm_aead, aes_cbc, hash_fn \<times> bytes) halfConn"
  have half: "tls13_half ?zero" "handshakeLen ?zero ! 1 = 0" and E: "wf_hashes (hashes lib_env)" "impl lib_env = lib_impl (hashes lib_env)"
    using wf_toy_hashes by (simp_all add: tls13_half_def tls13_zero_def zero_half_def lib_env_def)
  have io: "list_all rand_ok [\<lambda>n. Ret (replicate n 5)]" "list_all acceptable_record [(23, [1, 2, 3])]"
    by (simp_all add: rand_ok_def acceptable_record_def maxPlaintext_def)
  obtain w r where wr: "next_half lib_env (cipherSuitesTLS13 ! 0) ?zero = Ret w"
    "next_half lib_env (cipherSuitesTLS13 ! 0) ?zero = Ret r" "delivers lib_ops w r"
    using key_update_in_step [OF E(1) s half(1,1) refl half(2) E(2)] by blast
  from wr(3) [unfolded delivers_def, rule_format, OF _ _ io, of VersionTLS12]
  obtain w' r' records where "encrypt_all lib_ops w VersionTLS12 [\<lambda>n. Ret (replicate n 5)] [(23, [1, 2, 3])] = (w', Ret records)"
    "decrypt_all lib_ops r records = (r', Ret [(23, [1, 2, 3])])"
    by auto
  with wr(1,2) show ?thesis
    by blast
qed

text \<open>C16: a REALITY server cannot answer a key update request: \<open>encrypt\<close> finds no recorded length for
  the type of the reply and fails, \<open>handleKeyUpdate\<close> returns nil, and from then on every \<open>Write\<close> of
  the connection fails, whatever is written.\<close>

theorem key_update_request_ends_writing:
  assumes "wf_hashes (hashes E)" and "s \<in> set cipherSuitesTLS13" and "cs13_aead s = AeadAESGCMTLS13"
    and "impl E = lib_impl (hashes E)" and "cryptobyte_Builder (builder E)" and "ops E = lib_ops"
    and "cipherSuiteTLS13ByID (c_cipherSuite c) = Some s" and "tls13_half (c_in c)"
    and "reality_writer lib_ops c" and "isHandshakeComplete c" and "ku_updateRequested m"
  shows "\<exists>c'. handleKeyUpdate E c m = (c', Ret ()) \<and> (\<forall>b. \<exists>e. conn_Write E c' b = (c', 0, Fail e))"
proof -
  obtain h where h: "next_half E s (c_in c) = Ret h"
    by (rule next_half_sync [OF assms(1-3,8,8) refl assms(4)])
  let ?c = "c\<lparr>c_in := h\<rparr>"
  let ?p = "[typeKeyUpdate, 0, 0, 1, 0 :: byte]"
  have "put_be 3 1 = [0, 0, 1]"
    by code_simp
  then have p: "ku_marshal (builder E) \<lparr>ku_updateRequested = False\<rparr> = Ret ?p"
    using cryptobyte_Builder.ku_marshal_enc [OF assms(5), of "\<lparr>ku_updateRequested = False\<rparr>" ?p]
    by (simp add: hs_msg_def lp_def)
  have "reality_writer lib_ops ?c" "handshake_slot (?p ! 0) = None"
    using assms(9) by (simp_all add: reality_writer_def handshake_slot_def handshake_types)
  then obtain c1 n e where w: "writeRecordLocked lib_ops ?c recordTypeHandshake ?p = (c1, n, Fail e)" "same_part ?c c1"
    using write_no_slot [of lib_ops ?c ?p] by (auto simp: maxPlaintext_def)
  let ?c' = "fst (out_setErrorLocked c1 (Some e))"
  have "handleKeyUpdate E c m = (?c', Ret ())"
    using assms(6,7,11) h p w(1) by (simp add: handleKeyUpdate_def)
  moreover have "isHandshakeComplete ?c'"
    using setErrorLocked_input(2) [of c1 "Some e"] w(2) assms(10) by (simp add: same_part_def)
  then have "\<forall>b. \<exists>e. conn_Write E ?c' b = (?c', 0, Fail e)"
    by (auto simp: conn_Write_def conn_Handshake_def out_setErrorLocked_def setErrorLocked_def Let_def)
  ultimately show ?thesis
    by blast
qed

theorem key_update_request_ends_writing_witness:
  "\<exists>c c' e. handleKeyUpdate lib_env c \<lparr>ku_updateRequested = True\<rparr> = (c', Ret ()) \<and> handshakeLen (c_out c) = [100, 6, 70, 800, 300, 60, 0] \<and>
     conn_Write lib_env c' [1] = (c', 0, Fail e)"
proof -
  have s: "cipherSuitesTLS13 ! 0 \<in> set cipherSuitesTLS13" "cs13_aead (cipherSuitesTLS13 ! 0) = AeadAESGCMTLS13"
    by (simp_all add: cipherSuitesTLS13_def)
  let ?zero = "tls13_zero\<lparr>handshakeLen := [100, 6, 70, 800, 300, 60, 0]\<rparr> :: (rc4, gcm_aead, aes_cbc, hash_fn \<times> bytes) halfConn"
  have half: "tls13_half ?zero" and E: "wf_hashes (hashes lib_env)" "impl lib_env = lib_impl (hashes lib_env)"
    "cryptobyte_Builder (builder lib_env)" "ops lib_env = lib_ops"
    using wf_toy_hashes ref_builder.cryptobyte_Builder_axioms
    by (simp_all add: tls13_half_def tls13_zero_def zero_half_def lib_env_def)
  obtain w where w: "next_half lib_env (cipherSuitesTLS13 ! 0) ?zero = Ret w" "aead_sync lib_ops gcm_pair 0 w w"
    "version w = VersionTLS13" "handshakeLen w = handshakeLen ?zero"
    by (rule next_half_sync [OF E(1) s half half refl E(2)]) auto
  let ?c = "idle_conn w w"
  have "reality_writer lib_ops ?c" "tls13_half (c_in ?c)"
    using w(2-4) by (auto simp: reality_writer_def idle_conn_def aead_sync_def tls13_half_def)
  moreover have "cipherSuiteTLS13ByID (c_cipherSuite ?c) = Some (cipherSuitesTLS13 ! 0)" "isHandshakeComplete ?c"
    by (simp_all add: idle_conn_def cipherSuiteTLS13ByID_def cipherSuitesTLS13_def)
  ultimately obtain c' where "handleKeyUpdate lib_env ?c \<lparr>ku_updateRequested = True\<rparr> = (c', Ret ())"
    "\<forall>b. \<exists>e. conn_Write lib_env c' b = (c', 0, Fail e)"
    using key_update_request_ends_writing [OF E(1) s E(2-4), of ?c "\<lparr>ku_updateRequested = True\<rparr>"] by auto
  moreover have "handshakeLen (c_out ?c) = [100, 6, 70, 800, 300, 60, 0]"
    using w(4) by (simp add: idle_conn_def)
  ultimately show ?thesis
    by blast
qed

end
