(* ===== verification/Auth.thy ===== *)
theory Auth
  imports Config KeySchedule
begin

text \<open>
  Signature algorithms of the handshake (\<open>auth.go\<close>).  A public key is its Go type with what the code
  looks at, and its encoding.
\<close>

section \<open>Keys and certificates\<close>

datatype ec_curve = P256 | P384 | P521 | OtherCurve

datatype public_key =
    EcdsaKey ec_curve bytes
  | RsaKey nat bytes         \<comment> \<open>\<open>Size()\<close>, the bytes of the modulus\<close>
  | Ed25519Key bytes
  | OtherKey

text \<open>\<open>signer_pub\<close> is \<open>None\<close> when the private key is no \<open>crypto.Signer\<close>.\<close>

record signing_cert =
  signer_pub :: "public_key option"
  custom_algs :: "SignatureScheme list option"

section \<open>Schemes\<close>

definition directSigning :: crypto_hash where "directSigning = NoHash"

definition sig_type :: "SignatureScheme \<Rightarrow> byte option" where
  "sig_type alg =
     (if alg \<in> {PKCS1WithSHA1, PKCS1WithSHA256, PKCS1WithSHA384, PKCS1WithSHA512} then Some signaturePKCS1v15
      else if alg \<in> {PSSWithSHA256, PSSWithSHA384, PSSWithSHA512} then Some signatureRSAPSS
      else if alg \<in> {ECDSAWithSHA1, ECDSAWithP256AndSHA256, ECDSAWithP384AndSHA384, ECDSAWithP521AndSHA512}
      then Some signatureECDSA
      else if alg = Ed25519 then Some signatureEd25519
      else None)"

definition sig_hash :: "SignatureScheme \<Rightarrow> crypto_hash option" where
  "sig_hash alg =
     (if alg \<in> {PKCS1WithSHA1, ECDSAWithSHA1} then Some SHA1
      else if alg \<in> {PKCS1WithSHA256, PSSWithSHA256, ECDSAWithP256AndSHA256} then Some SHA256
      else if alg \<in> {PKCS1WithSHA384, PSSWithSHA384, ECDSAWithP384AndSHA384} then Some SHA384
      else if alg \<in> {PKCS1WithSHA512, PSSWithSHA512, ECDSAWithP521AndSHA512} then Some SHA512
      else if alg = Ed25519 then Some directSigning
      else None)"

definition typeAndHashFromSignatureScheme :: "SignatureScheme \<Rightarrow> (byte \<times> crypto_hash) exec" where
  "typeAndHashFromSignatureScheme alg =
     (case sig_type alg of
        None \<Rightarrow> Fail (ErrMsg ''unsupported signature algorithm'')
      | Some t \<Rightarrow>
          (case sig_hash alg of
             None \<Rightarrow> Fail (ErrMsg ''unsupported signature algorithm'')
           | Some h \<Rightarrow> Ret (t, h)))"

fun legacyTypeAndHashFromPublicKey :: "public_key \<Rightarrow> (byte \<times> crypto_hash) exec" where
  "legacyTypeAndHashFromPublicKey (RsaKey _ _) = Ret (signaturePKCS1v15, MD5SHA1)"
| "legacyTypeAndHashFromPublicKey (EcdsaKey _ _) = Ret (signatureECDSA, SHA1)"
| "legacyTypeAndHashFromPublicKey (Ed25519Key _) =
     Fail (ErrMsg ''tls: Ed25519 public keys are not supported before TLS 1.2'')"
| "legacyTypeAndHashFromPublicKey OtherKey = Fail (ErrMsg ''tls: unsupported public key'')"

section \<open>Signed messages\<close>

definition serverSignatureContext :: bytes where
  "serverSignatureContext = str_bytes ''TLS 1.3, server CertificateVerify'' @ [0]"
definition clientSignatureContext :: bytes where
  "clientSignatureContext = str_bytes ''TLS 1.3, client CertificateVerify'' @ [0]"
definition signaturePadding :: bytes where "signaturePadding = replicate 64 0x20"

definition signedMessage :: "std_hashes \<Rightarrow> crypto_hash \<Rightarrow> bytes \<Rightarrow> digest \<Rightarrow> bytes exec" where
  "signedMessage H sigHash context transcript =
     (if sigHash = directSigning then Ret (signaturePadding @ context @ d_sum transcript)
      else exec_bind (hash_New H sigHash) (\<lambda>h.
           Ret (d_sum (d_write (d_write (d_write (d_new h) signaturePadding) context) (d_sum transcript)))))"

text \<open>The verification functions of the library, on the encoding of the key.\<close>

record verify_lib =
  ecdsa_VerifyASN1 :: "bytes \<Rightarrow> bytes \<Rightarrow> bytes \<Rightarrow> bool"
  ed25519_Verify :: "bytes \<Rightarrow> bytes \<Rightarrow> bytes \<Rightarrow> bool"
  rsa_VerifyPKCS1v15 :: "bytes \<Rightarrow> crypto_hash \<Rightarrow> bytes \<Rightarrow> bytes \<Rightarrow> err option"
  rsa_VerifyPSS :: "bytes \<Rightarrow> crypto_hash \<Rightarrow> bytes \<Rightarrow> bytes \<Rightarrow> err option"

definition verifyHandshakeSignature ::
  "verify_lib \<Rightarrow> byte \<Rightarrow> public_key \<Rightarrow> crypto_hash \<Rightarrow> bytes \<Rightarrow> bytes \<Rightarrow> err option" where
  "verifyHandshakeSignature L sigType pubkey hashFunc msg sig =
     (if sigType = signatureECDSA then
        case pubkey of
          EcdsaKey _ k \<Rightarrow> if \<not> ecdsa_VerifyASN1 L k msg sig then Some (ErrMsg ''ECDSA verification failure'') else None
        | _ \<Rightarrow> Some (ErrMsg ''expected an ECDSA public key'')
      else if sigType = signatureEd25519 then
        case pubkey of
          Ed25519Key k \<Rightarrow> if \<not> ed25519_Verify L k msg sig then Some (ErrMsg ''Ed25519 verification failure'') else None
        | _ \<Rightarrow> Some (ErrMsg ''expected an Ed25519 public key'')
      else if sigType = signaturePKCS1v15 then
        case pubkey of
          RsaKey _ k \<Rightarrow> rsa_VerifyPKCS1v15 L k hashFunc msg sig
        | _ \<Rightarrow> Some (ErrMsg ''expected an RSA public key'')
      else if sigType = signatureRSAPSS then
        case pubkey of
          RsaKey _ k \<Rightarrow> rsa_VerifyPSS L k hashFunc msg sig
        | _ \<Rightarrow> Some (ErrMsg ''expected an RSA public key'')
      else Some (ErrMsg ''internal error: unknown signature type''))"

section \<open>Choosing a scheme\<close>

text \<open>The scheme, the least size of the modulus and the last version.\<close>

definition rsaSignatureSchemes :: "(SignatureScheme \<times> nat \<times> u16) list" where
  "rsaSignatureSchemes =
     [(PSSWithSHA256, 32 * 2 + 2, VersionTLS13),
      (PSSWithSHA384, 48 * 2 + 2, VersionTLS13),
      (PSSWithSHA512, 64 * 2 + 2, VersionTLS13),
      (PKCS1WithSHA256, 19 + 32 + 11, VersionTLS12),
      (PKCS1WithSHA384, 19 + 48 + 11, VersionTLS12),
      (PKCS1WithSHA512, 19 + 64 + 11, VersionTLS12),
      (PKCS1WithSHA1, 15 + 20 + 11, VersionTLS12)]"

fun key_schemes :: "u16 \<Rightarrow> public_key \<Rightarrow> SignatureScheme list" where
  "key_schemes vers (EcdsaKey curve _) =
     (if vers \<noteq> VersionTLS13
      then [ECDSAWithP256AndSHA256, ECDSAWithP384AndSHA384, ECDSAWithP521AndSHA512, ECDSAWithSHA1]
      else case curve of
             P256 \<Rightarrow> [ECDSAWithP256AndSHA256]
           | P384 \<Rightarrow> [ECDSAWithP384AndSHA384]
           | P521 \<Rightarrow> [ECDSAWithP521AndSHA512]
           | OtherCurve \<Rightarrow> [])"
| "key_schemes vers (RsaKey n _) =
     map fst (filter (\<lambda>(_, minModulusBytes, maxVersion). n \<ge> minModulusBytes \<and> vers \<le> maxVersion) rsaSignatureSchemes)"
| "key_schemes vers (Ed25519Key _) = [Ed25519]"
| "key_schemes vers OtherKey = []"

definition signatureSchemesForCertificate :: "bool \<Rightarrow> u16 \<Rightarrow> signing_cert \<Rightarrow> SignatureScheme list" where
  "signatureSchemesForCertificate fips vers cert =
     (case signer_pub cert of
        None \<Rightarrow> []
      | Some pub \<Rightarrow>
          (let sigAlgs = key_schemes vers pub;
               sigAlgs = (case custom_algs cert of
                            None \<Rightarrow> sigAlgs
                          | Some custom \<Rightarrow> filter (\<lambda>a. isSupportedSignatureAlgorithm a custom) sigAlgs)
           in filter (\<lambda>a. isSupportedSignatureAlgorithm a (supportedSignatureAlgorithms fips)) sigAlgs))"

text \<open>The text of \<open>unsupportedCertificateError\<close> is left out.\<close>

definition selectSignatureScheme ::
  "bool \<Rightarrow> u16 \<Rightarrow> signing_cert \<Rightarrow> SignatureScheme list \<Rightarrow> SignatureScheme exec" where
  "selectSignatureScheme fips vers c peerAlgs =
     (let supportedAlgs = signatureSchemesForCertificate fips vers c
      in if supportedAlgs = [] then Fail (ErrMsg ''tls: unsupported certificate'')
         else let peerAlgs = (if peerAlgs = [] \<and> vers = VersionTLS12 then [PKCS1WithSHA1, ECDSAWithSHA1] else peerAlgs)
              in case find (\<lambda>a. isSupportedSignatureAlgorithm a supportedAlgs) peerAlgs of
                   Some a \<Rightarrow> Ret a
                 | None \<Rightarrow> Fail (ErrMsg
                     ''tls: peer doesn't support any of the certificate's signature algorithms''))"

section \<open>Properties\<close>

lemma schemes_subset:
  assumes "a \<in> set (signatureSchemesForCertificate fips vers c)"
  obtains pub where "signer_pub c = Some pub" "a \<in> set (key_schemes vers pub)"
    "a \<in> set (supportedSignatureAlgorithms fips)" "\<forall>custom. custom_algs c = Some custom \<longrightarrow> a \<in> set custom"
proof -
  obtain pub where pub: "signer_pub c = Some pub"
    using assms by (cases "signer_pub c") (simp_all add: signatureSchemesForCertificate_def)
  with assms show thesis
    by (intro that [OF pub])
      (auto simp: signatureSchemesForCertificate_def isSupportedSignatureAlgorithm_def Let_def split: option.splits)
qed

definition key_type :: "public_key \<Rightarrow> byte \<Rightarrow> bool" where
  "key_type pub t \<longleftrightarrow>
     (case pub of
        EcdsaKey _ _ \<Rightarrow> t = signatureECDSA
      | RsaKey _ _ \<Rightarrow> t = signaturePKCS1v15 \<or> t = signatureRSAPSS
      | Ed25519Key _ \<Rightarrow> t = signatureEd25519
      | OtherKey \<Rightarrow> False)"

lemma key_schemes_typed:
  assumes "a \<in> set (key_schemes vers pub)"
  shows "\<exists>t h. typeAndHashFromSignatureScheme a = Ret (t, h) \<and> key_type pub t \<and>
     (vers = VersionTLS13 \<longrightarrow> t \<noteq> signaturePKCS1v15 \<and> h \<noteq> SHA1)"
  using assms
  by (cases pub; cases "vers = VersionTLS13")
    (auto simp: typeAndHashFromSignatureScheme_def sig_type_def sig_hash_def key_type_def signature_ids signature_tags
      rsaSignatureSchemes_def version_ids directSigning_def split: ec_curve.splits if_splits)

text \<open>The scheme \<open>selectSignatureScheme\<close> returns is usable: it is the first of the peer's schemes (or of
  the TLS 1.2 default) that the certificate supports, its type fits the key, so the type and hash
  lookup succeeds, it respects the certificate's own list and the library's, and for TLS 1.3 it is
  neither PKCS #1 v1.5 nor based on SHA-1.\<close>

theorem selectSignatureScheme_usable:
  assumes "selectSignatureScheme fips vers c peerAlgs = Ret a"
  shows "(\<exists>us ws. (if peerAlgs = [] \<and> vers = VersionTLS12 then [PKCS1WithSHA1, ECDSAWithSHA1] else peerAlgs) = us @ a # ws \<and>
       set us \<inter> set (signatureSchemesForCertificate fips vers c) = {}) \<and>
     (\<exists>pub t h. signer_pub c = Some pub \<and> typeAndHashFromSignatureScheme a = Ret (t, h) \<and> key_type pub t \<and>
       (vers = VersionTLS13 \<longrightarrow> t \<noteq> signaturePKCS1v15 \<and> h \<noteq> SHA1) \<and>
       a \<in> set (supportedSignatureAlgorithms fips) \<and> (\<forall>custom. custom_algs c = Some custom \<longrightarrow> a \<in> set custom))"
proof -
  let ?peer = "if peerAlgs = [] \<and> vers = VersionTLS12 then [PKCS1WithSHA1, ECDSAWithSHA1] else peerAlgs"
  have "find (\<lambda>a. isSupportedSignatureAlgorithm a (signatureSchemesForCertificate fips vers c)) ?peer = Some a"
    using assms unfolding selectSignatureScheme_def Let_def
    by (auto split: if_split_asm option.split_asm simp del: find.simps)
  then obtain us ws where split: "?peer = us @ a # ws" "a \<in> set (signatureSchemesForCertificate fips vers c)"
    "set us \<inter> set (signatureSchemesForCertificate fips vers c) = {}"
    unfolding find_first isSupportedSignatureAlgorithm_def list_all_iff by blast
  have "\<exists>pub t h. signer_pub c = Some pub \<and> typeAndHashFromSignatureScheme a = Ret (t, h) \<and> key_type pub t \<and>
       (vers = VersionTLS13 \<longrightarrow> t \<noteq> signaturePKCS1v15 \<and> h \<noteq> SHA1) \<and>
       a \<in> set (supportedSignatureAlgorithms fips) \<and> (\<forall>custom. custom_algs c = Some custom \<longrightarrow> a \<in> set custom)"
    by (rule schemes_subset [OF split(2)]) (use key_schemes_typed in blast)
  with split(1,3) show ?thesis
    by blast
qed

theorem selectSignatureScheme_usable_witness:
  "selectSignatureScheme False VersionTLS13 \<lparr>signer_pub = Some (RsaKey 256 []), custom_algs = None\<rparr>
     [PKCS1WithSHA256, Ed25519, PSSWithSHA384, PSSWithSHA256] = Ret PSSWithSHA384 \<and>
   (\<exists>t h. typeAndHashFromSignatureScheme PSSWithSHA384 = Ret (t, h) \<and> t \<noteq> signaturePKCS1v15)"
proof -
  have s: "selectSignatureScheme False VersionTLS13 \<lparr>signer_pub = Some (RsaKey 256 []), custom_algs = None\<rparr>
     [PKCS1WithSHA256, Ed25519, PSSWithSHA384, PSSWithSHA256] = Ret PSSWithSHA384"
    by code_simp
  from selectSignatureScheme_usable [OF s] s show ?thesis
    by blast
qed

text \<open>A signature over one side's handshake is none over the other's: with Ed25519, the signed
  messages of server and client differ whatever the transcripts, and messages of one side are equal
  only for equal transcript hashes.\<close>

theorem signed_messages_separate:
  "signedMessage H directSigning serverSignatureContext t \<noteq> signedMessage H directSigning clientSignatureContext t' \<and>
   (signedMessage H directSigning serverSignatureContext t = signedMessage H directSigning serverSignatureContext t' \<longleftrightarrow>
      d_sum t = d_sum t')"
proof -
  have "serverSignatureContext \<noteq> clientSignatureContext" "length serverSignatureContext = length clientSignatureContext"
    by code_simp+
  then show ?thesis
    by (simp add: signedMessage_def)
qed

end
