(* ===== verification/TicketKeys.thy ===== *)
theory TicketKeys
  imports KeySchedule Gcm GoTime
begin

text \<open>
  Session ticket keys and the encryption of tickets: the key handling of \<open>Config\<close> (\<open>common.go\<close>) and
  \<open>encryptTicket\<close>, \<open>decryptTicket\<close> of \<open>ticket.go\<close>.  Times are in nanoseconds; what \<open>c.rand()\<close> yields
  is an argument.  A call of \<open>ticketKeys\<close> is one step.  In the code another call can run after the read
  lock is given up and before the write lock is taken; the condition is tested again then, so the result
  is that of the two calls one after the other.
\<close>

section \<open>Keys\<close>

definition ticketKeyLifetime :: int where "ticketKeyLifetime = 7 * 24 * hour"
definition ticketKeyRotation :: int where "ticketKeyRotation = 24 * hour"
definition maxSessionTicketLifetime :: int where "maxSessionTicketLifetime = 7 * 24 * hour"

record ticketKey =
  aesKey :: bytes
  hmacKey :: bytes
  created :: int

record ticket_config =
  SessionTicketsDisabled :: bool
  SessionTicketKey :: bytes              \<comment> \<open>32 bytes\<close>
  sessionTicketKeys :: "ticketKey list"
  autoSessionTicketKeys :: "ticketKey list"

definition ticketKeyFromBytes :: "std_hashes \<Rightarrow> int \<Rightarrow> bytes \<Rightarrow> ticketKey" where
  "ticketKeyFromBytes H now b =
     (let hashed = h_sum (sha512_h H) b; legacyTicketKeyNameLen = 16;
          aes = go_copy (replicate 16 0) (drop legacyTicketKeyNameLen hashed)
      in \<lparr>aesKey = aes, hmacKey = go_copy (replicate 16 0) (drop (legacyTicketKeyNameLen + length aes) hashed),
          created = now\<rparr>)"

definition deprecatedSessionTicketKey :: bytes where "deprecatedSessionTicketKey = str_bytes ''DEPRECATED''"

definition HasPrefix :: "bytes \<Rightarrow> bytes \<Rightarrow> bool" where
  "HasPrefix b p \<longleftrightarrow> take (length p) b = p"

text \<open>\<open>rnd\<close> is what a read of 32 bytes from \<open>c.rand()\<close> returns.\<close>

definition initLegacySessionTicketKeyRLocked ::
  "std_hashes \<Rightarrow> int \<Rightarrow> bytes exec \<Rightarrow> ticket_config \<Rightarrow> ticket_config exec" where
  "initLegacySessionTicketKeyRLocked H now rnd c =
     (if SessionTicketKey c \<noteq> replicate 32 0 \<and>
         (HasPrefix (SessionTicketKey c) deprecatedSessionTicketKey \<or> length (sessionTicketKeys c) > 0)
      then Ret c
      else if SessionTicketKey c = replicate 32 0 then
        (case rnd of
           Ret b \<Rightarrow> Ret (c\<lparr>SessionTicketKey := go_copy b deprecatedSessionTicketKey\<rparr>)
         | Fail e \<Rightarrow> Panic ''tls: unable to generate random session ticket key''
         | Panic p \<Rightarrow> Panic p)
      else if \<not> HasPrefix (SessionTicketKey c) deprecatedSessionTicketKey \<and> length (sessionTicketKeys c) = 0
      then Ret (c\<lparr>sessionTicketKeys := [ticketKeyFromBytes H now (SessionTicketKey c)]\<rparr>)
      else Ret c)"

text \<open>
  The slow path.  \<open>clock\<close> is what the calls of \<open>c.time()\<close> return: 1 for the second test of the
  condition, 2 for the new key, then one for each old key.
\<close>

definition stale :: "int \<Rightarrow> ticketKey list \<Rightarrow> bool" where
  "stale now keys \<longleftrightarrow> (case keys of [] \<Rightarrow> True | k # _ \<Rightarrow> time_Sub now (created k) \<ge> ticketKeyRotation)"

definition valid_keys :: "(nat \<Rightarrow> int) \<Rightarrow> ticketKey list \<Rightarrow> ticketKey list" where
  "valid_keys clock keys =
     map fst (filter (\<lambda>(k, i). time_Sub (clock (3 + i)) (created k) < ticketKeyLifetime) (zip keys [0..<length keys]))"

definition rotate_keys ::
  "std_hashes \<Rightarrow> (nat \<Rightarrow> int) \<Rightarrow> bytes exec \<Rightarrow> ticketKey list \<Rightarrow> ticketKey list exec" where
  "rotate_keys H clock rnd keys =
     (if stale (clock 1) keys then
        (case rnd of
           Ret newKey \<Rightarrow> Ret (ticketKeyFromBytes H (clock 2) newKey # valid_keys clock keys)
         | Fail e \<Rightarrow> Panic ''unable to generate random session ticket key''
         | Panic p \<Rightarrow> Panic p)
      else Ret keys)"

text \<open>
  \<open>ticketKeys\<close>: the receiver, the other configuration (another object) and the keys.  \<open>clock 0\<close> is the
  reading of the fast path or of the legacy key, \<open>rnd0\<close> and \<open>rnd1\<close> are the reads for the legacy keys of
  the other configuration and of the receiver, \<open>rnd2\<close> the one for a new key.
\<close>

definition own_ticketKeys ::
  "std_hashes \<Rightarrow> (nat \<Rightarrow> int) \<Rightarrow> bytes exec \<Rightarrow> bytes exec \<Rightarrow> ticket_config \<Rightarrow> (ticket_config \<times> ticketKey list) exec" where
  "own_ticketKeys H clock rnd1 rnd2 c =
     (if SessionTicketsDisabled c then Ret (c, [])
      else exec_bind (initLegacySessionTicketKeyRLocked H (clock 0) rnd1 c) (\<lambda>c.
        if length (sessionTicketKeys c) \<noteq> 0 then Ret (c, sessionTicketKeys c)
        else if \<not> stale (clock 0) (autoSessionTicketKeys c) then Ret (c, autoSessionTicketKeys c)
        else exec_bind (rotate_keys H clock rnd2 (autoSessionTicketKeys c)) (\<lambda>keys.
          Ret (c\<lparr>autoSessionTicketKeys := keys\<rparr>, keys))))"

definition ticketKeys ::
  "std_hashes \<Rightarrow> (nat \<Rightarrow> int) \<Rightarrow> bytes exec \<Rightarrow> bytes exec \<Rightarrow> bytes exec \<Rightarrow> ticket_config \<Rightarrow> ticket_config option
     \<Rightarrow> (ticket_config \<times> ticket_config option \<times> ticketKey list) exec" where
  "ticketKeys H clock rnd0 rnd1 rnd2 c configForClient =
     (case configForClient of
        None \<Rightarrow> exec_bind (own_ticketKeys H clock rnd1 rnd2 c) (\<lambda>(c, keys). Ret (c, None, keys))
      | Some d \<Rightarrow>
          if SessionTicketsDisabled d then Ret (c, Some d, [])
          else exec_bind (initLegacySessionTicketKeyRLocked H (clock 0) rnd0 d) (\<lambda>d.
            if length (sessionTicketKeys d) \<noteq> 0 then Ret (c, Some d, sessionTicketKeys d)
            else exec_bind (own_ticketKeys H clock rnd1 rnd2 c) (\<lambda>(c, keys). Ret (c, Some d, keys))))"

definition SetSessionTicketKeys :: "std_hashes \<Rightarrow> (nat \<Rightarrow> int) \<Rightarrow> bytes list \<Rightarrow> ticket_config \<Rightarrow> ticket_config exec" where
  "SetSessionTicketKeys H clock keys c =
     (if keys = [] then Panic ''tls: keys must have at least one key''
      else Ret (c\<lparr>sessionTicketKeys := map (\<lambda>(b, i). ticketKeyFromBytes H (clock i) b) (zip keys [0..<length keys])\<rparr>))"

section \<open>Tickets\<close>

text \<open>\<open>crypto/cipher\<close>: counter mode with all 128 bits of the IV as the counter.\<close>

definition ctr_inc :: "bytes \<Rightarrow> bytes" where
  "ctr_inc ctr = put_be (length ctr) (get_be ctr + 1)"

function ctr_XORKeyStream :: "blockExpanded \<Rightarrow> bytes \<Rightarrow> bytes \<Rightarrow> bytes" where
  "ctr_XORKeyStream c ctr src =
     (if src = [] then []
      else xor_bytes (take 16 src) (blockE c ctr) @ ctr_XORKeyStream c (ctr_inc ctr) (drop 16 src))"
  by auto
termination
  by (relation "measure (\<lambda>(_, _, src). length src)") auto

declare ctr_XORKeyStream.simps [simp del]

definition ticket_mac :: "std_hashes \<Rightarrow> ticketKey \<Rightarrow> bytes \<Rightarrow> bytes" where
  "ticket_mac H key authenticated = hmac (sha256_h H) (hmacKey key) authenticated"

text \<open>\<open>rnd n\<close> is a read of \<open>n\<close> bytes from \<open>c.rand()\<close>; \<open>hmac.Sum\<close> fills \<open>macBytes\<close>.\<close>

definition encryptTicket :: "std_hashes \<Rightarrow> (nat \<Rightarrow> bytes exec) \<Rightarrow> bytes \<Rightarrow> ticketKey list \<Rightarrow> bytes exec" where
  "encryptTicket H rnd state keys =
     (case keys of
        [] \<Rightarrow> Fail (ErrMsg ''tls: internal error: session ticket keys unavailable'')
      | key # _ \<Rightarrow>
          exec_bind (rnd 16) (\<lambda>iv.
            case aes_New (aesKey key) of
              Ret block \<Rightarrow>
                let authenticated = iv @ ctr_XORKeyStream block iv state
                in Ret (authenticated @ go_copy (replicate 32 0) (ticket_mac H key authenticated))
            | Fail e \<Rightarrow> Fail (ErrMsg ''tls: failed to create cipher while encrypting ticket'')
            | Panic p \<Rightarrow> Panic p))"

fun try_keys :: "std_hashes \<Rightarrow> bytes \<Rightarrow> bytes \<Rightarrow> bytes \<Rightarrow> bytes \<Rightarrow> ticketKey list \<Rightarrow> bytes option" where
  "try_keys H iv ciphertext authenticated macBytes [] = None"
| "try_keys H iv ciphertext authenticated macBytes (key # keys) =
     (if macBytes \<noteq> ticket_mac H key authenticated then try_keys H iv ciphertext authenticated macBytes keys
      else case aes_New (aesKey key) of
             Ret block \<Rightarrow> Some (ctr_XORKeyStream block iv ciphertext)
           | _ \<Rightarrow> None)"

text \<open>\<open>None\<close> is nil.\<close>

definition decryptTicket :: "std_hashes \<Rightarrow> bytes \<Rightarrow> ticketKey list \<Rightarrow> bytes option" where
  "decryptTicket H encrypted keys =
     (if length encrypted < 16 + 32 then None
      else let n = length encrypted - 32;
               authenticated = take n encrypted
           in try_keys H (take 16 encrypted) (drop 16 authenticated) authenticated (drop n encrypted) keys)"

section \<open>Rotation\<close>

text \<open>
  A configuration that manages its keys by itself.  The legacy key is zero or was replaced by a
  random one with the \<open>DEPRECATED\<close> prefix.
\<close>

definition auto_mode :: "ticket_config \<Rightarrow> bool" where
  "auto_mode c \<longleftrightarrow> \<not> SessionTicketsDisabled c \<and> sessionTicketKeys c = [] \<and>
     (SessionTicketKey c = replicate 32 0 \<or> HasPrefix (SessionTicketKey c) deprecatedSessionTicketKey)"

definition reads_32 :: "bytes exec \<Rightarrow> bool" where
  "reads_32 rnd \<longleftrightarrow> (\<forall>b. rnd = Ret b \<longrightarrow> length b = 32)"

text \<open>The readings of the clock during a call that begins after \<open>t\<close> and ends before \<open>t'\<close>.\<close>

definition clock_ok :: "int \<Rightarrow> (nat \<Rightarrow> int) \<Rightarrow> int \<Rightarrow> bool" where
  "clock_ok t clock t' \<longleftrightarrow> t \<le> clock 0 \<and> mono clock \<and> (\<forall>i. clock i \<le> t')"

definition keys_ok :: "int \<Rightarrow> ticketKey list \<Rightarrow> bool" where
  "keys_ok t keys \<longleftrightarrow>
     sorted_wrt (\<lambda>a b. created a \<ge> created b + ticketKeyRotation) keys \<and>
     (\<forall>k \<in> set keys. created k \<le> t \<and> created (hd keys) - created k < ticketKeyLifetime)"

inductive ticket_calls :: "std_hashes \<Rightarrow> int \<Rightarrow> ticket_config \<Rightarrow> int \<Rightarrow> ticket_config \<Rightarrow> bool"
  for H t c where
  none: "t \<le> t' \<Longrightarrow> ticket_calls H t c t' c"
| call: "ticket_calls H t c t1 c1 \<Longrightarrow> clock_ok t1 clock t2 \<Longrightarrow> reads_32 rnd1 \<Longrightarrow>
     own_ticketKeys H clock rnd1 rnd2 c1 = Ret (c2, keys) \<Longrightarrow> ticket_calls H t c t2 c2"

lemma init_auto_mode:
  assumes "auto_mode c" "reads_32 rnd" "initLegacySessionTicketKeyRLocked H now rnd c = Ret c'"
  shows "auto_mode c'" "autoSessionTicketKeys c' = autoSessionTicketKeys c"
proof -
  have "HasPrefix (go_copy b deprecatedSessionTicketKey) deprecatedSessionTicketKey" if "length b = 32" for b
    using that by (simp add: HasPrefix_def deprecatedSessionTicketKey_def go_copy_def str_bytes_def)
  with assms show "auto_mode c'" "autoSessionTicketKeys c' = autoSessionTicketKeys c"
    by (auto simp: auto_mode_def initLegacySessionTicketKeyRLocked_def reads_32_def split: if_splits exec.splits)
qed

lemma lifetime_less: "time_Sub a b < ticketKeyLifetime \<longleftrightarrow> a - b < ticketKeyLifetime"
  by (rule time_Sub_less) (simp_all add: ticketKeyLifetime_def go_durations)

lemma rotation_less: "time_Sub a b < ticketKeyRotation \<longleftrightarrow> a - b < ticketKeyRotation"
  by (rule time_Sub_less) (simp_all add: ticketKeyRotation_def go_durations)

lemma stale_iff: "\<not> stale now keys \<longleftrightarrow> keys \<noteq> [] \<and> now - created (hd keys) < ticketKeyRotation"
  using rotation_less by (cases keys) (auto simp: stale_def not_le)

lemma valid_keys_iff:
  "k \<in> set (valid_keys clock keys) \<longleftrightarrow>
     (\<exists>i < length keys. keys ! i = k \<and> clock (3 + i) - created k < ticketKeyLifetime)"
  by (force simp: valid_keys_def lifetime_less set_zip)

lemma sorted_wrt_filter_fst:
  "sorted_wrt R xs \<Longrightarrow> sorted_wrt R (map fst (filter P (zip xs ys)))"
proof (induction xs arbitrary: ys)
  case (Cons x xs)
  then show ?case
    by (cases ys) (auto dest: set_zip_leftD)
qed simp

lemma own_ticketKeys_auto:
  assumes c: "auto_mode c" "keys_ok t (autoSessionTicketKeys c)" "clock_ok t clock t'" "reads_32 rnd1"
    and call: "own_ticketKeys H clock rnd1 rnd2 c = Ret (c', keys)"
  shows "auto_mode c' \<and> autoSessionTicketKeys c' = keys \<and> keys_ok t' keys \<and> keys \<noteq> [] \<and>
     clock 0 - created (hd keys) < ticketKeyRotation \<and>
     (\<forall>k \<in> set (autoSessionTicketKeys c). t' - created k < ticketKeyLifetime \<longrightarrow> k \<in> set keys)"
proof -
  let ?old = "autoSessionTicketKeys c"
  obtain c1 where c1: "initLegacySessionTicketKeyRLocked H (clock 0) rnd1 c = Ret c1"
    using c(1) call by (auto simp: own_ticketKeys_def auto_mode_def exec_simps)
  note m = init_auto_mode [OF c(1,4) c1]
  have clk: "clock i \<le> clock j" if "i \<le> j" for i j
    using that c(3) by (auto simp: clock_ok_def mono_def)
  have bound: "t \<le> clock i" "clock i \<le> t'" for i
    using clk [of 0 i] c(3) by (auto simp: clock_ok_def)
  have run: "(if \<not> stale (clock 0) ?old then Ret (c1, ?old)
     else exec_bind (rotate_keys H clock rnd2 ?old) (\<lambda>keys. Ret (c1\<lparr>autoSessionTicketKeys := keys\<rparr>, keys))) = Ret (c', keys)"
    using call c(1) c1 m(1) by (auto simp: own_ticketKeys_def auto_mode_def exec_simps m(2) split: if_splits)
  show ?thesis
  proof (cases "\<not> stale (clock 0) ?old")
    case True
    then have "keys = ?old" "c' = c1"
      using run by simp_all
    then show ?thesis
      using True m c(2) bound [of 0] by (auto simp: stale_iff keys_ok_def)
  next
    case False
    then obtain ks where rot: "rotate_keys H clock rnd2 ?old = Ret ks" and c': "c' = c1\<lparr>autoSessionTicketKeys := ks\<rparr>" "keys = ks"
      using run by (auto simp: exec_simps)
    have st: "stale (clock 1) ?old"
      using False clk [of 0 1] stale_iff [of "clock 0" ?old] stale_iff [of "clock 1" ?old] by fastforce
    then obtain b where b: "rnd2 = Ret b"
      and keys: "keys = ticketKeyFromBytes H (clock 2) b # valid_keys clock ?old" (is "keys = ?k # ?valid")
      using rot c' by (auto simp: rotate_keys_def split: exec.splits)
    have new: "created ?k = clock 2"
      by (simp add: ticketKeyFromBytes_def Let_def)
    have old: "created k + ticketKeyRotation \<le> clock 2" if "k \<in> set ?old" for k
    proof -
      have "?old \<noteq> []"
        using that by auto
      then have "created (hd ?old) + ticketKeyRotation \<le> clock 1"
        using st stale_iff [of "clock 1" ?old] by auto
      moreover have "created k \<le> created (hd ?old)"
        using c(2) that by (cases ?old) (auto simp: keys_ok_def ticketKeyRotation_def go_durations)
      ultimately show ?thesis
        using clk [of 1 2] by simp
    qed
    have "set ?valid \<subseteq> set ?old"
      by (auto simp: valid_keys_iff)
    moreover have "clock 2 - created k < ticketKeyLifetime" if "k \<in> set ?valid" for k
      using that clk [of 2 "3 + _"] by (auto simp: valid_keys_iff) (meson diff_right_mono order_le_less_trans le_add1 numeral_le_iff)
    moreover have "sorted_wrt (\<lambda>a b. created a \<ge> created b + ticketKeyRotation) ?valid"
      using c(2) by (auto simp: valid_keys_def keys_ok_def intro: sorted_wrt_filter_fst)
    ultimately have "keys_ok t' keys"
      using old new bound [of 2] c(2)
      unfolding keys_ok_def keys list.sel sorted_wrt.simps list.set ball_simps(7) subset_iff
      by (auto simp: ticketKeyLifetime_def go_durations) (meson order_trans)+
    moreover have "k \<in> set ?valid" if k: "k \<in> set ?old" and young: "t' - created k < ticketKeyLifetime" for k
    proof -
      from k obtain i where "i < length ?old" "?old ! i = k"
        unfolding in_set_conv_nth by blast
      then show ?thesis
        using young bound(2) [of "3 + i"] by (auto simp: valid_keys_iff intro!: exI [of _ i])
    qed
    moreover have "clock 0 - created ?k < ticketKeyRotation"
      using clk [of 0 2] by (simp add: new ticketKeyRotation_def go_durations)
    ultimately show ?thesis
      using m c' keys by (auto simp: auto_mode_def)
  qed
qed

lemma keys_ok_later: "keys_ok t keys \<Longrightarrow> t \<le> t' \<Longrightarrow> keys_ok t' keys"
  unfolding keys_ok_def by (meson order_trans)

lemma clock_ok_le: "clock_ok t clock t' \<Longrightarrow> t \<le> t'"
  unfolding clock_ok_def by (meson order_trans)

text \<open>What a sequence of calls keeps: the invariant, and every key that is not yet too old.\<close>

definition keeps_young :: "ticket_config \<Rightarrow> int \<Rightarrow> ticket_config \<Rightarrow> bool" where
  "keeps_young c t' c' \<longleftrightarrow>
     (\<forall>k \<in> set (autoSessionTicketKeys c). t' - created k < ticketKeyLifetime \<longrightarrow> k \<in> set (autoSessionTicketKeys c'))"

lemma keeps_young_trans:
  "keeps_young c t1 c1 \<Longrightarrow> keeps_young c1 t2 c2 \<Longrightarrow> t1 \<le> t2 \<Longrightarrow> keeps_young c t2 c2"
  unfolding keeps_young_def by (meson diff_right_mono order_le_less_trans)

lemma ticket_calls_keep:
  assumes "ticket_calls H t c t' c'" "auto_mode c" "keys_ok t (autoSessionTicketKeys c)"
  shows "auto_mode c' \<and> keys_ok t' (autoSessionTicketKeys c') \<and> t \<le> t' \<and> keeps_young c t' c'"
  using assms
proof (induction rule: ticket_calls.induct)
  case (none t')
  then show ?case
    using keys_ok_later by (auto simp: keeps_young_def)
next
  case (call t1 c1 clock t2 rnd1 rnd2 c2 keys)
  then show ?case
    using own_ticketKeys_auto [of c1 t1 clock t2 rnd1 H rnd2 c2 keys] clock_ok_le [of t1 clock t2]
      keeps_young_trans [of c t1 c1 t2 c2]
    by (auto simp: keeps_young_def)
qed

lemma keys_ok_Nil [simp]: "keys_ok t []"
  by (simp add: keys_ok_def)

lemma spaced_length:
  assumes "sorted_wrt (\<lambda>a b. created a \<ge> created b + d) (k # keys)"
  shows "\<exists>k' \<in> set (k # keys). created k - created k' \<ge> int (length keys) * d"
  using assms
proof (induction keys arbitrary: k)
  case (Cons k2 keys)
  from Cons.prems have "sorted_wrt (\<lambda>a b. created a \<ge> created b + d) (k2 # keys)"
    by simp
  then obtain k' where "k' \<in> set (k2 # keys)" "created k2 - created k' \<ge> int (length keys) * d"
    using Cons.IH by blast
  moreover have "created k \<ge> created k2 + d"
    using Cons.prems by simp
  ultimately show ?case
    by (intro bexI [of _ k']) (auto simp: algebra_simps)
qed auto

lemma keys_ok_length:
  assumes "keys_ok t keys"
  shows "length keys \<le> 7"
proof (cases keys)
  case (Cons k ks)
  have ok: "sorted_wrt (\<lambda>a b. created a \<ge> created b + ticketKeyRotation) (k # ks)"
    "\<And>k'. k' \<in> set (k # ks) \<Longrightarrow> created k - created k' < ticketKeyLifetime"
    using assms unfolding keys_ok_def Cons list.sel by blast+
  obtain k' :: ticketKey where "created k - created k' \<ge> int (length ks) * ticketKeyRotation" "created k - created k' < ticketKeyLifetime"
    using spaced_length [OF ok(1)] ok(2) by blast
  moreover have "ticketKeyLifetime = 7 * ticketKeyRotation" "0 < ticketKeyRotation"
    by (simp_all add: ticketKeyLifetime_def ticketKeyRotation_def go_durations)
  ultimately have "int (length ks) * ticketKeyRotation < 7 * ticketKeyRotation"
    by simp
  then show ?thesis
    using \<open>0 < ticketKeyRotation\<close> by (simp add: Cons)
qed simp

section \<open>Decryption\<close>

lemma length_ctr_inc [simp]: "length (ctr_inc ctr) = length ctr"
  by (simp add: ctr_inc_def)

lemma ctr_Nil [simp]: "ctr_XORKeyStream c ctr [] = []"
  by (simp add: ctr_XORKeyStream.simps)

lemma ctr_ctr:
  assumes "wf_block c" "length ctr = 16"
  shows "ctr_XORKeyStream c ctr (ctr_XORKeyStream c ctr X) = X"
  using assms
proof (induction c ctr X rule: ctr_XORKeyStream.induct)
  case (1 c ctr X)
  show ?case
  proof (cases "X = []")
    case False
    let ?k = "blockE c ctr" and ?x = "take 16 X"
    have k: "length ?k = 16"
      using EncryptBlockInternal_eq(2) [of c ctr "replicate 16 0"] 1(2,3) by simp
    define Y where "Y = ctr_XORKeyStream c (ctr_inc ctr) (drop 16 X)"
    have head: "take 16 (xor_bytes ?x ?k @ Y) = xor_bytes ?x ?k"
      and tail: "drop 16 (xor_bytes ?x ?k @ Y) = Y"
      using k by (cases "length X \<le> 16"; simp add: Y_def)+
    have "ctr_XORKeyStream c ctr (xor_bytes ?x ?k @ Y) =
        xor_bytes (xor_bytes ?x ?k) ?k @ ctr_XORKeyStream c (ctr_inc ctr) Y"
      using False k by (subst ctr_XORKeyStream.simps, unfold head tail) (auto simp: xor_bytes_def zip_eq_Nil_iff)
    also have "\<dots> = ?x @ drop 16 X"
      using 1 False k by (simp add: Y_def)
    finally show ?thesis
      using False by (simp add: Y_def ctr_XORKeyStream.simps [of c ctr X])
  qed simp
qed

text \<open>A key that is not the ticket's but has the same MAC for it.\<close>

definition mac_collision :: "std_hashes \<Rightarrow> bytes \<Rightarrow> ticketKey \<Rightarrow> ticketKey list \<Rightarrow> bool" where
  "mac_collision H ticket key keys \<longleftrightarrow>
     (\<exists>k \<in> set keys. k \<noteq> key \<and>
        ticket_mac H k (take (length ticket - 32) ticket) = ticket_mac H key (take (length ticket - 32) ticket))"

lemma try_keys_own:
  assumes "key \<in> set keys" "macBytes = ticket_mac H key authenticated" "aes_New (aesKey key) = Ret block"
    and "\<not> (\<exists>k \<in> set keys. k \<noteq> key \<and> ticket_mac H k authenticated = macBytes)"
  shows "try_keys H iv ciphertext authenticated macBytes keys = Some (ctr_XORKeyStream block iv ciphertext)"
  using assms by (induction keys) auto

lemma decryptTicket_own:
  assumes H: "wf_hash (sha256_h H)" "h_size (sha256_h H) = 32"
    and enc: "encryptTicket H rnd state (key # keys) = Ret ticket" "\<And>n iv. rnd n = Ret iv \<Longrightarrow> length iv = n"
    and "key \<in> set keys'" "\<not> mac_collision H ticket key keys'"
  shows "decryptTicket H ticket keys' = Some state"
proof -
  obtain iv block where iv: "rnd 16 = Ret iv" and block: "aes_New (aesKey key) = Ret block"
    and t: "ticket = (iv @ ctr_XORKeyStream block iv state)
      @ go_copy (replicate 32 0) (ticket_mac H key (iv @ ctr_XORKeyStream block iv state))"
    using enc(1) by (cases "rnd 16"; cases "aes_New (aesKey key)") (simp_all add: encryptTicket_def exec_simps Let_def)
  define a where "a = iv @ ctr_XORKeyStream block iv state"
  have mac: "length (ticket_mac H key a) = 32"
    using H by (simp add: ticket_mac_def)
  then have t: "ticket = a @ ticket_mac H key a"
    using t by (simp add: a_def)
  have authenticated: "take (length ticket - 32) ticket = a" and tag: "drop (length ticket - 32) ticket = ticket_mac H key a"
    and len: "length ticket - 32 = length a" "length ticket = length a + 32"
    by (simp_all add: t mac)
  have "try_keys H iv (drop 16 a) a (ticket_mac H key a) keys' = Some (ctr_XORKeyStream block iv (drop 16 a))"
    using assms(6) unfolding mac_collision_def authenticated
    by (intro try_keys_own [OF assms(5) refl block]) auto
  moreover have "take 16 ticket = iv" "drop 16 a = ctr_XORKeyStream block iv state" "16 \<le> length a"
    using enc(2) [OF iv] by (simp_all add: a_def t)
  ultimately show ?thesis
    using ctr_ctr [OF wf_new [OF block] enc(2) [OF iv]] authenticated tag by (simp add: decryptTicket_def len)
qed

section \<open>Properties\<close>

text \<open>C20: a configuration that manages its ticket keys by itself always hands out a current key first,
  never more than seven keys, and none older than the lifetime and one rotation.\<close>

theorem ticket_keys_fresh:
  assumes "auto_mode c" "autoSessionTicketKeys c = []" "ticket_calls H t c t1 c1"
    and "clock_ok t1 clock t2" "reads_32 rnd1" "own_ticketKeys H clock rnd1 rnd2 c1 = Ret (c2, keys)"
  shows "keys \<noteq> [] \<and> length keys \<le> 7 \<and> clock 0 - created (hd keys) < ticketKeyRotation \<and>
    (\<forall>k \<in> set keys. created k \<le> t2 \<and> clock 0 - created k < ticketKeyLifetime + ticketKeyRotation)"
proof -
  have "auto_mode c1" "keys_ok t1 (autoSessionTicketKeys c1)"
    using ticket_calls_keep [OF assms(3,1)] assms(2) by simp_all
  from own_ticketKeys_auto [OF this assms(4-6)]
  have k: "keys \<noteq> []" "keys_ok t2 keys" "clock 0 - created (hd keys) < ticketKeyRotation"
    by simp_all
  then show ?thesis
    using keys_ok_length [OF k(2)] unfolding keys_ok_def by fastforce
qed

definition fresh_config :: ticket_config where
  "fresh_config = \<lparr>SessionTicketsDisabled = False, SessionTicketKey = replicate 32 0, sessionTicketKeys = [],
     autoSessionTicketKeys = []\<rparr>"

definition config_at_0 :: ticket_config where
  "config_at_0 = fresh_config\<lparr>SessionTicketKey := deprecatedSessionTicketKey @ replicate 22 7,
     autoSessionTicketKeys := [ticketKeyFromBytes toy_hashes 0 (replicate 32 1)]\<rparr>"

lemma demo_key [simp]:
  "go_copy (replicate 32 7) deprecatedSessionTicketKey = deprecatedSessionTicketKey @ replicate 22 7"
  "deprecatedSessionTicketKey @ xs \<noteq> replicate 32 0" "HasPrefix (deprecatedSessionTicketKey @ xs) deprecatedSessionTicketKey"
  by (auto simp: go_copy_def deprecatedSessionTicketKey_def str_bytes_def HasPrefix_def dest: arg_cong [of _ _ hd])

lemma fresh_call:
  "own_ticketKeys toy_hashes (\<lambda>i. 0) (Ret (replicate 32 7)) (Ret (replicate 32 1)) fresh_config =
     Ret (config_at_0, autoSessionTicketKeys config_at_0)"
  "auto_mode fresh_config" "autoSessionTicketKeys fresh_config = []"
  by (simp_all add: own_ticketKeys_def fresh_config_def config_at_0_def initLegacySessionTicketKeyRLocked_def
      auto_mode_def exec_simps stale_def rotate_keys_def valid_keys_def)

lemma later_call:
  "own_ticketKeys toy_hashes (\<lambda>i. hour) (Ret (replicate 32 7)) (Ret (replicate 32 1)) config_at_0 =
     Ret (config_at_0, autoSessionTicketKeys config_at_0)"
  by (simp add: own_ticketKeys_def fresh_config_def config_at_0_def initLegacySessionTicketKeyRLocked_def
      exec_simps stale_iff ticketKeyFromBytes_def Let_def ticketKeyRotation_def go_durations)

lemma constant_clock [simp]: "clock_ok t (\<lambda>i. t') t' \<longleftrightarrow> t \<le> t'"
  by (auto simp: clock_ok_def mono_def)

lemma calls_to_0: "ticket_calls toy_hashes 0 fresh_config 0 config_at_0"
  by (rule ticket_calls.call [OF ticket_calls.none [of 0 0] _ _ fresh_call(1)]) (auto simp: reads_32_def)

theorem ticket_keys_fresh_witness:
  "hour - created (hd (autoSessionTicketKeys config_at_0)) < ticketKeyRotation"
  using ticket_keys_fresh [OF fresh_call(2,3) calls_to_0 _ _ later_call, of hour]
  by (simp add: reads_32_def go_durations)

text \<open>A ticket is accepted for at least six days, by the keys of every later call in that time,
  whatever calls come between, unless two of the server's HMAC keys give the ticket the same MAC.\<close>

theorem ticket_accepted_six_days:
  assumes "wf_hash (sha256_h H)" "h_size (sha256_h H) = 32"
    and "auto_mode c" "autoSessionTicketKeys c = []" "ticket_calls H t c t1 c1"
    and "clock_ok t1 clock t2" "reads_32 rnd1" "own_ticketKeys H clock rnd1 rnd2 c1 = Ret (c2, keys)"
    and "encryptTicket H rnd state keys = Ret ticket" "\<And>n iv. rnd n = Ret iv \<Longrightarrow> length iv = n"
    and "ticket_calls H t2 c2 t3 c3"
    and "clock_ok t3 clock' t4" "reads_32 rnd1'" "own_ticketKeys H clock' rnd1' rnd2' c3 = Ret (c4, keys')"
    and "t4 - clock 0 \<le> 6 * 24 * hour"
  shows "decryptTicket H ticket keys' = Some state \<or> mac_collision H ticket (hd keys) keys'"
proof -
  have c1: "auto_mode c1" "keys_ok t1 (autoSessionTicketKeys c1)"
    using ticket_calls_keep [OF assms(5,3)] assms(4) by simp_all
  note k = own_ticketKeys_auto [OF c1 assms(6-8)]
  then have c2: "auto_mode c2" "keys_ok t2 (autoSessionTicketKeys c2)" and keys: "keys \<noteq> []" "autoSessionTicketKeys c2 = keys"
    by simp_all
  note c3 = ticket_calls_keep [OF assms(11) c2]
  note k' = own_ticketKeys_auto [OF _ _ assms(12-14)]
  have young: "t4 - created (hd keys) < ticketKeyLifetime"
    using k assms(15) by (simp add: ticketKeyRotation_def ticketKeyLifetime_def)
  then have "t3 - created (hd keys) < ticketKeyLifetime"
    using clock_ok_le [OF assms(12)] by simp
  then have "hd keys \<in> set (autoSessionTicketKeys c3)"
    using c3 keys by (auto simp: keeps_young_def)
  then have "hd keys \<in> set keys'"
    using k' c3 young by blast
  then show ?thesis
    using decryptTicket_own [OF assms(1,2), of rnd state "hd keys" "tl keys" ticket keys'] assms(9,10) keys by auto
qed

theorem ticket_accepted_six_days_witness:
  "\<exists>ticket. encryptTicket toy_hashes (\<lambda>n. Ret (replicate n 5)) [1, 2, 3] (autoSessionTicketKeys config_at_0) = Ret ticket \<and>
     decryptTicket toy_hashes ticket (autoSessionTicketKeys config_at_0) = Some [1, 2, 3]"
proof -
  have "length (aesKey (hd (autoSessionTicketKeys config_at_0))) = 16"
    by (simp add: config_at_0_def ticketKeyFromBytes_def Let_def)
  then obtain ticket where t: "encryptTicket toy_hashes (\<lambda>n. Ret (replicate n 5)) [1, 2, 3] (autoSessionTicketKeys config_at_0) = Ret ticket"
    using aes_New_total [of "aesKey (hd (autoSessionTicketKeys config_at_0))"]
    by (auto simp: encryptTicket_def config_at_0_def exec_simps Let_def)
  have "decryptTicket toy_hashes ticket (autoSessionTicketKeys config_at_0) = Some [1, 2, 3] \<or>
      mac_collision toy_hashes ticket (hd (autoSessionTicketKeys config_at_0)) (autoSessionTicketKeys config_at_0)"
    using wf_toy_hashes
    by (intro ticket_accepted_six_days [OF _ _ fresh_call(2,3) ticket_calls.none [of 0 0] _ _ fresh_call(1) t _
          ticket_calls.none [of 0 0] _ _ later_call, of hour])
      (auto simp: reads_32_def wf_hashes_def toy_hashes_def toy_hash_def go_durations)
  moreover have "\<not> mac_collision toy_hashes ticket (hd (autoSessionTicketKeys config_at_0)) (autoSessionTicketKeys config_at_0)"
    by (simp add: mac_collision_def config_at_0_def)
  ultimately show ?thesis
    using t by blast
qed

end
