(* ===== verification/Session.thy ===== *)
theory Session
  imports Messages13 TicketKeys
begin

text \<open>
  \<open>SessionState\<close> of \<open>ticket.go\<close>: \<open>Bytes\<close>, \<open>ParseSessionState\<close>, \<open>EncryptTicket\<close> and \<open>DecryptTicket\<close>.
  Certificates are of any type \<open>'x\<close>; \<open>Raw\<close> is the field of that name and \<open>newCert\<close> is
  \<open>globalCertCache.newCert\<close>, which parses a certificate or finds it in the cache.  The handles that keep
  the cache's entries alive have no counterpart.
\<close>

section \<open>The state\<close>

record 'x SessionState =
  ss_Extra :: "bytes list"
  ss_EarlyData :: bool
  ss_version :: u16
  ss_isClient :: bool
  ss_cipherSuite :: u16
  ss_createdAt :: u64
  ss_secret :: bytes
  ss_extMasterSecret :: bool
  ss_peerCertificates :: "'x list"
  ss_ocspResponse :: "bytes option"
  ss_scts :: "bytes list option"
  ss_verifiedChains :: "'x list list"
  ss_alpnProtocol :: bytes
  ss_useBy :: u64
  ss_ageAdd :: u32
  ss_ticket :: bytes
  ss_curveID :: u16

definition certificatesToBytesSlice :: "('x \<Rightarrow> bytes) \<Rightarrow> 'x list \<Rightarrow> bytes list" where
  "certificatesToBytesSlice Raw certs = map Raw certs"

definition ss_certificate :: "('x \<Rightarrow> bytes) \<Rightarrow> 'x SessionState \<Rightarrow> Certificate" where
  "ss_certificate Raw s =
     \<lparr>cert_Certificate = certificatesToBytesSlice Raw (ss_peerCertificates s),
      cert_OCSPStaple = ss_ocspResponse s, cert_SignedCertificateTimestamps = ss_scts s\<rparr>"

definition add_chain :: "'b builder_ops \<Rightarrow> ('x \<Rightarrow> bytes) \<Rightarrow> 'x list \<Rightarrow> 'b \<Rightarrow> 'b" where
  "add_chain B Raw chain =
     b_AddUint24LengthPrefixed B
       (if length chain = 0 then b_SetError B (ErrMsg ''tls: internal error: empty verified chain'')
        else each (tl chain) (\<lambda>cert. b_AddUint24LengthPrefixed B (seq [b_AddBytes B (Raw cert)])))"

definition ss_Bytes :: "'b builder_ops \<Rightarrow> ('x \<Rightarrow> bytes) \<Rightarrow> 'x SessionState \<Rightarrow> bytes exec" where
  "ss_Bytes B Raw s = b_Bytes B (seq [
     b_AddUint16 B (ss_version s),
     b_AddUint8 B (if ss_isClient s then 2 else 1),
     b_AddUint16 B (ss_cipherSuite s),
     addUint64 B (ss_createdAt s),
     b_AddUint8LengthPrefixed B (seq [b_AddBytes B (ss_secret s)]),
     b_AddUint24LengthPrefixed B
       (each (ss_Extra s) (\<lambda>extra. b_AddUint24LengthPrefixed B (seq [b_AddBytes B extra]))),
     b_AddUint8 B (if ss_extMasterSecret s then 1 else 0),
     b_AddUint8 B (if ss_EarlyData s then 1 else 0),
     marshalCertificate B (ss_certificate Raw s),
     b_AddUint24LengthPrefixed B (each (ss_verifiedChains s) (add_chain B Raw)),
     cond (ss_EarlyData s) [b_AddUint8LengthPrefixed B (seq [b_AddBytes B (ss_alpnProtocol s)])],
     (if ss_version s \<ge> VersionTLS13
      then cond (ss_isClient s) [addUint64 B (ss_useBy s), b_AddUint32 B (ss_ageAdd s)]
      else b_AddUint16 B (ss_curveID s))] (b_new B))"

section \<open>Parsing\<close>

definition invalid_session :: "'a exec" where
  "invalid_session = Fail (ErrMsg ''tls: invalid session encoding'')"

definition read_or :: "'a option \<Rightarrow> 'a exec" where
  "read_or r = (case r of Some x \<Rightarrow> Ret x | None \<Rightarrow> invalid_session)"

definition session_bool :: "byte \<Rightarrow> bool exec" where
  "session_bool b = (if b = 0 then Ret False else if b = 1 then Ret True else invalid_session)"

text \<open>The loop \<open>for !s.Empty()\<close> with a body that returns an error; the bound is the length of \<open>s\<close>.\<close>

fun loop_exec :: "reader_ops \<Rightarrow> (bytes \<Rightarrow> 'v \<Rightarrow> ('v \<times> bytes) exec) \<Rightarrow> nat \<Rightarrow> bytes \<Rightarrow> 'v \<Rightarrow> 'v exec" where
  "loop_exec R step 0 s v = (if r_Empty R s then Ret v else Panic ''out of fuel'')"
| "loop_exec R step (Suc n) s v =
     (if r_Empty R s then Ret v
      else exec_bind (step s v) (\<lambda>(v, s). loop_exec R step n s v))"

fun new_certs :: "(bytes \<Rightarrow> 'x exec) \<Rightarrow> bytes list \<Rightarrow> 'x list exec" where
  "new_certs newCert [] = Ret []"
| "new_certs newCert (cert # certs) =
     exec_bind (newCert cert) (\<lambda>c. exec_bind (new_certs newCert certs) (\<lambda>cs. Ret (c # cs)))"

definition session_head ::
  "reader_ops \<Rightarrow> bytes \<Rightarrow> (u16 \<times> byte \<times> u16 \<times> u64 \<times> bytes \<times> bytes \<times> byte \<times> byte \<times> Certificate \<times> bytes) option" where
  "session_head R s =
     do {(vers, s) \<leftarrow> r_ReadUint16 R s;
         (typ, s) \<leftarrow> r_ReadUint8 R s;
         (cipherSuite, s) \<leftarrow> r_ReadUint16 R s;
         (createdAt, s) \<leftarrow> readUint64 R s;
         (secret, s) \<leftarrow> readUint8LengthPrefixed R s;
         (extra, s) \<leftarrow> r_ReadUint24LengthPrefixed R s;
         (extMasterSecret, s) \<leftarrow> r_ReadUint8 R s;
         (earlyData, s) \<leftarrow> r_ReadUint8 R s;
         if length secret = 0 then None
         else do {(cert, s) \<leftarrow> unmarshalCertificate R s cert_zero;
                  Some (vers, typ, cipherSuite, createdAt, secret, extra, extMasterSecret, earlyData, cert, s)}}"

definition extra_step :: "reader_ops \<Rightarrow> bytes \<Rightarrow> bytes list \<Rightarrow> (bytes list \<times> bytes) exec" where
  "extra_step R extra es =
     exec_bind (read_or (readUint24LengthPrefixed R extra)) (\<lambda>(e, extra). Ret (es @ [e], extra))"

definition chain_cert_step :: "reader_ops \<Rightarrow> (bytes \<Rightarrow> 'x exec) \<Rightarrow> bytes \<Rightarrow> 'x list \<Rightarrow> ('x list \<times> bytes) exec" where
  "chain_cert_step R newCert certList chain =
     exec_bind (read_or (readUint24LengthPrefixed R certList)) (\<lambda>(cert, certList).
     exec_bind (newCert cert) (\<lambda>c. Ret (chain @ [c], certList)))"

definition chain_step ::
  "reader_ops \<Rightarrow> (bytes \<Rightarrow> 'x exec) \<Rightarrow> 'x list \<Rightarrow> bytes \<Rightarrow> 'x list list \<Rightarrow> ('x list list \<times> bytes) exec" where
  "chain_step R newCert peerCertificates chainList verified =
     exec_bind (read_or (r_ReadUint24LengthPrefixed R chainList)) (\<lambda>(certList, chainList).
     if length peerCertificates = 0 then invalid_session
     else exec_bind (loop_exec R (chain_cert_step R newCert) (length certList) certList [peerCertificates ! 0])
       (\<lambda>chain. Ret (verified @ [chain], chainList)))"

text \<open>The fields at the end, which depend on the ones before; bytes after them are ignored.\<close>

definition session_tail :: "reader_ops \<Rightarrow> bytes \<Rightarrow> 'x SessionState \<Rightarrow> 'x SessionState exec" where
  "session_tail R s ss =
     exec_bind (if ss_EarlyData ss
                then exec_bind (read_or (readUint8LengthPrefixed R s)) (\<lambda>(alpn, s). Ret (ss\<lparr>ss_alpnProtocol := alpn\<rparr>, s))
                else Ret (ss, s)) (\<lambda>(ss, s).
     if ss_version ss \<ge> VersionTLS13 then
       if ss_isClient ss then
         exec_bind (read_or (r_ReadUint64 R s)) (\<lambda>(useBy, s).
         exec_bind (read_or (r_ReadUint32 R s)) (\<lambda>(ageAdd, s). Ret (ss\<lparr>ss_useBy := useBy, ss_ageAdd := ageAdd\<rparr>)))
       else Ret ss
     else exec_bind (read_or (r_ReadUint16 R s)) (\<lambda>(curveID, s). Ret (ss\<lparr>ss_curveID := curveID\<rparr>)))"

definition ParseSessionState :: "reader_ops \<Rightarrow> (bytes \<Rightarrow> 'x exec) \<Rightarrow> bytes \<Rightarrow> 'x SessionState exec" where
  "ParseSessionState R newCert data =
     exec_bind (read_or (session_head R data))
       (\<lambda>(vers, typ, cipherSuite, createdAt, secret, extra, extMasterSecret, earlyData, cert, s).
     exec_bind (loop_exec R (extra_step R) (length extra) extra []) (\<lambda>Extra.
     exec_bind (if typ = 1 then Ret False else if typ = 2 then Ret True
                else Fail (ErrMsg ''tls: unknown session encoding'')) (\<lambda>isClient.
     exec_bind (session_bool extMasterSecret) (\<lambda>extMasterSecret.
     exec_bind (session_bool earlyData) (\<lambda>EarlyData.
     exec_bind (new_certs newCert (cert_Certificate cert)) (\<lambda>peerCertificates.
     if isClient \<and> length peerCertificates = 0
     then Fail (ErrMsg ''tls: no server certificates in client session'')
     else exec_bind (read_or (r_ReadUint24LengthPrefixed R s)) (\<lambda>(chainList, s).
     exec_bind (loop_exec R (chain_step R newCert peerCertificates) (length chainList) chainList []) (\<lambda>verifiedChains.
     session_tail R s
       \<lparr>ss_Extra = Extra, ss_EarlyData = EarlyData, ss_version = vers, ss_isClient = isClient,
        ss_cipherSuite = cipherSuite, ss_createdAt = createdAt, ss_secret = secret,
        ss_extMasterSecret = extMasterSecret, ss_peerCertificates = peerCertificates,
        ss_ocspResponse = cert_OCSPStaple cert, ss_scts = cert_SignedCertificateTimestamps cert,
        ss_verifiedChains = verifiedChains, ss_alpnProtocol = [], ss_useBy = 0, ss_ageAdd = 0, ss_ticket = [],
        ss_curveID = 0\<rparr>))))))))"

section \<open>The format\<close>

lemma put_be_add: "put_be (m + n) v = put_be m (v div 256 ^ n) @ put_be n v"
  by (induction n arbitrary: v) (simp_all add: div_mult2_eq)

lemma put_be_mod: "put_be n (v mod 256 ^ n) = put_be n v"
  using put_be_get_be [of "put_be n v" n] by simp

lemma put_u64_halves: "put_u32 (ucast (drop_bit 32 v)) @ put_u32 (ucast (v :: u64)) = put_u64 v"
proof -
  have "unat v < 2 ^ 64"
    using unat_bound [of v] by simp
  then have "unat (ucast (drop_bit 32 v) :: u32) = unat v div 256 ^ 4"
    by (simp add: unsigned_ucast_eq unsigned_drop_bit_eq drop_bit_eq_div [of 32 "unat v"] take_bit_eq_mod)
  moreover have "unat (ucast v :: u32) = unat v mod 256 ^ 4"
    by (simp add: unsigned_ucast_eq take_bit_eq_mod)
  ultimately show ?thesis
    using put_be_mod [of 4 "unat v"] put_be_add [of 4 4 "unat v"] by (simp add: put_u32_def put_u64_def)
qed

definition enc_chain :: "('x \<Rightarrow> bytes) \<Rightarrow> 'x list \<Rightarrow> bytes option" where
  "enc_chain Raw chain =
     lp 3 (if chain = [] then None else cat (map (\<lambda>c. lp 3 (Some (Raw c))) (tl chain)))"

definition enc_session :: "('x \<Rightarrow> bytes) \<Rightarrow> 'x SessionState \<Rightarrow> bytes option list" where
  "enc_session Raw s =
     [Some (put_u16 (ss_version s)),
      Some [if ss_isClient s then 2 else 1],
      Some (put_u16 (ss_cipherSuite s)),
      Some (put_u64 (ss_createdAt s)),
      lp 1 (Some (ss_secret s)),
      lp 3 (cat (map (\<lambda>e. lp 3 (Some e)) (ss_Extra s))),
      Some [if ss_extMasterSecret s then 1 else 0],
      Some [if ss_EarlyData s then 1 else 0],
      enc_Certificate (ss_certificate Raw s),
      lp 3 (cat (map (enc_chain Raw) (ss_verifiedChains s))),
      (if ss_EarlyData s then lp 1 (Some (ss_alpnProtocol s)) else Some []),
      (if ss_version s \<ge> VersionTLS13
       then if ss_isClient s then Some (put_u64 (ss_useBy s) @ put_u32 (ss_ageAdd s)) else Some []
       else Some (put_u16 (ss_curveID s)))]"

context cryptobyte_Builder
begin

lemma emits_addUint64: "emits B (addUint64 B v) (Some (put_u64 v))"
  unfolding addUint64_def put_u64_halves [symmetric]
  using emits_two [OF AddUint32_emits AddUint32_emits] by simp

lemma emits_bytes24s:
  "emits B (b_AddUint24LengthPrefixed B (each xs (\<lambda>x. b_AddUint24LengthPrefixed B (seq [b_AddBytes B (f x)]))))
     (lp 3 (cat (map (\<lambda>x. lp 3 (Some (f x))) xs)))"
  by (intro emits_rules emits_each)

lemma emits_chain: "emits B (add_chain B Raw chain) (enc_chain Raw chain)"
proof (cases "chain = []")
  case True
  have "emits B (b_SetError B e) None" for e
    using SetError_error by (simp add: emits_def)
  then show ?thesis
    unfolding add_chain_def enc_chain_def by (intro AddUint24LengthPrefixed_emits) (simp add: True)
next
  case False
  then show ?thesis
    using emits_bytes24s [of "tl chain" Raw] by (simp add: add_chain_def enc_chain_def)
qed

lemma ss_Bytes_enc: "ss_Bytes B Raw s = Ret bs \<longleftrightarrow> cat (enc_session Raw s) = Some bs"
proof -
  have early: "emits B (cond (ss_EarlyData s) [b_AddUint8LengthPrefixed B (seq [b_AddBytes B (ss_alpnProtocol s)])])
      (if ss_EarlyData s then lp 1 (Some (ss_alpnProtocol s)) else Some [])"
    using emits_lp_bytes(1) [of "ss_alpnProtocol s"] emits_id by (auto simp: cond_def [abs_def] seq_def)
  have client: "emits B (cond (ss_isClient s) [addUint64 B (ss_useBy s), b_AddUint32 B (ss_ageAdd s)])
      (if ss_isClient s then Some (put_u64 (ss_useBy s) @ put_u32 (ss_ageAdd s)) else Some [])"
    using emits_two [OF emits_addUint64 [of "ss_useBy s"] AddUint32_emits [of "ss_ageAdd s"]] emits_id
    by (auto simp: cond_def [abs_def])
  show ?thesis
    unfolding ss_Bytes_def enc_session_def
    by (intro emits_Bytes emits_seq, unfold list_all2_Cons list_all2_Nil)
      (intro conjI TrueI AddUint16_emits AddUint8_emits emits_addUint64 emits_lp_bytes emits_bytes24s
        [where f = "\<lambda>x. x"] emits_marshalCertificate AddUint24LengthPrefixed_emits emits_each emits_chain early;
        use client AddUint16_emits in auto)
qed

end

section \<open>Reading it back\<close>

lemma fold_snoc: "fold (\<lambda>x ys. ys @ [f x]) zs ys = ys @ map f zs"
  by (induction zs arbitrary: ys) simp_all

lemma cat_lps:
  assumes "cat (map (\<lambda>x. lp 3 (Some (f x))) xs) = Some w"
  shows "\<forall>x\<in>set xs. length (f x) < 16777216" "w = concat (map (\<lambda>x. put_be 3 (length (f x)) @ f x) xs)"
proof -
  have *: "\<forall>x\<in>set xs. lp 3 (Some (f x)) \<noteq> None" "w = concat (map (\<lambda>x. the (lp 3 (Some (f x)))) xs)"
    using assms by (simp_all add: cat_map_Some_iff)
  then show len: "\<forall>x\<in>set xs. length (f x) < 16777216"
    by (simp add: lp_def split: if_splits)
  show "w = concat (map (\<lambda>x. put_be 3 (length (f x)) @ f x) xs)"
    unfolding *(2) using len by (intro arg_cong [of _ _ concat] map_cong) (simp_all add: lp_def)
qed

text \<open>What a session becomes: the fields that its kind does not encode are reset.\<close>

definition session_sent :: "'x SessionState \<Rightarrow> 'x SessionState" where
  "session_sent s =
     (let s = s\<lparr>ss_ticket := []\<rparr>;
          s = (if ss_EarlyData s then s else s\<lparr>ss_alpnProtocol := []\<rparr>)
      in if ss_version s \<ge> VersionTLS13 then
           (if ss_isClient s then s\<lparr>ss_curveID := 0\<rparr> else s\<lparr>ss_useBy := 0, ss_ageAdd := 0, ss_curveID := 0\<rparr>)
         else s\<lparr>ss_useBy := 0, ss_ageAdd := 0\<rparr>)"

text \<open>What the parser asks of a session, and the leaf that every verified chain starts with.\<close>

definition session_wf :: "('x \<Rightarrow> bytes) \<Rightarrow> 'x SessionState \<Rightarrow> bool" where
  "session_wf Raw s \<longleftrightarrow>
     ss_secret s \<noteq> [] \<and> cert_wf (ss_certificate Raw s) \<and>
     (ss_isClient s \<longrightarrow> ss_peerCertificates s \<noteq> []) \<and>
     (\<forall>chain \<in> set (ss_verifiedChains s). ss_peerCertificates s \<noteq> [] \<and> hd chain = hd (ss_peerCertificates s))"

lemma new_certs_Raw: "(\<And>c. newCert (Raw c) = Ret c) \<Longrightarrow> new_certs newCert (map Raw cs) = Ret cs"
  by (induction cs) simp_all

context cryptobyte_String
begin

lemma loop_exec_concat:
  assumes "\<And>x rest v. x \<in> set xs \<Longrightarrow> step (fmt x @ rest) v = Ret (upd x v, rest)"
    and "\<And>x. x \<in> set xs \<Longrightarrow> fmt x \<noteq> []" and "length xs \<le> n"
  shows "loop_exec R step n (concat (map fmt xs)) v = Ret (fold upd xs v)"
  using assms
proof (induction xs arbitrary: n v)
  case Nil
  then show ?case
    by (cases n) simp_all
next
  case (Cons x xs)
  then obtain k where "n = Suc k"
    by (cases n) auto
  with Cons show ?case
    by simp
qed

lemma loop_exec_list:
  assumes "\<And>x rest v. x \<in> set xs \<Longrightarrow> step (fmt x @ rest) v = Ret (v @ [x], rest)"
    and "\<And>x. x \<in> set xs \<Longrightarrow> fmt x \<noteq> []" and "w = concat (map fmt xs)"
  shows "loop_exec R step (length w) w v = Ret (v @ xs)"
  using loop_exec_concat [of xs step fmt "\<lambda>x v. v @ [x]" "length w" v] length_concat_ge [of xs fmt] assms
    fold_snoc [of "\<lambda>x. x" xs v] by simp

lemma readUint64_put: "readUint64 R (put_u64 v @ s) = Some (v, s)"
proof -
  have "push_bit 32 (ucast (ucast (drop_bit 32 v) :: u32)) OR ucast (ucast v :: u32) = v"
    by (intro bit_word_eqI) (auto simp: bit_simps)
  then show ?thesis
    unfolding put_u64_halves [symmetric] by (simp add: readUint64_def)
qed

lemma extra_read:
  assumes "cat (map (\<lambda>e. lp 3 (Some e)) es) = Some w"
  shows "loop_exec R (extra_step R) (length w) w [] = Ret es"
proof -
  have "loop_exec R (extra_step R) (length w) w [] = Ret ([] @ es)"
    using cat_lps [OF assms]
    by (intro loop_exec_list) (auto simp: extra_step_def read_helpers read_or_def)
  then show ?thesis
    by simp
qed

lemma chain_cert_read:
  assumes "\<And>c. newCert (Raw c) = Ret c" "cat (map (\<lambda>c. lp 3 (Some (Raw c))) cs) = Some w"
  shows "loop_exec R (chain_cert_step R newCert) (length w) w v = Ret (v @ cs)"
  using cat_lps [OF assms(2)] assms(1)
  by (intro loop_exec_list) (auto simp: chain_cert_step_def read_helpers read_or_def)

lemma chains_read:
  assumes Raw: "\<And>c. newCert (Raw c) = Ret c" and w: "cat (map (enc_chain Raw) vcs) = Some w"
    and leaf: "\<And>chain. chain \<in> set vcs \<Longrightarrow> peers \<noteq> [] \<and> hd chain = hd peers"
  shows "loop_exec R (chain_step R newCert peers) (length w) w [] = Ret vcs"
proof -
  have all: "\<forall>x \<in> set vcs. enc_chain Raw x \<noteq> None" "w = concat (map (\<lambda>x. the (enc_chain Raw x)) vcs)"
    using w by (simp_all add: cat_map_Some_iff)
  have step: "chain_step R newCert peers (the (enc_chain Raw chain) @ rest) v = Ret (v @ [chain], rest) \<and>
      the (enc_chain Raw chain) \<noteq> []" if chain: "chain \<in> set vcs" for chain rest v
  proof -
    obtain b where b: "chain \<noteq> []" "cat (map (\<lambda>c. lp 3 (Some (Raw c))) (tl chain)) = Some b" "length b < 16777216"
      "enc_chain Raw chain = Some (put_be 3 (length b) @ b)"
      using all(1) chain by (cases "chain = []") (auto simp: enc_chain_def lp_def split: option.splits if_splits)
    moreover have "[peers ! 0] @ tl chain = chain"
      using leaf [OF chain] b(1) by (cases chain; cases peers) auto
    ultimately show ?thesis
      using leaf [OF chain] chain_cert_read [OF Raw b(2), of "[peers ! 0]"]
      by (simp add: chain_step_def read_or_def)
  qed
  have "loop_exec R (chain_step R newCert peers) (length w) w [] = Ret ([] @ vcs)"
    using step all(2) by (intro loop_exec_list) auto
  then show ?thesis
    by simp
qed

lemma session_tail_read:
  assumes "(if ss_EarlyData s then lp 1 (Some (ss_alpnProtocol s)) else Some []) = Some a"
    and "(if ss_version s \<ge> VersionTLS13
       then if ss_isClient s then Some (put_u64 (ss_useBy s) @ put_u32 (ss_ageAdd s)) else Some []
       else Some (put_u16 (ss_curveID s))) = Some b"
  shows "session_tail R (a @ b @ later) (s\<lparr>ss_alpnProtocol := [], ss_useBy := 0, ss_ageAdd := 0, ss_ticket := [],
     ss_curveID := 0\<rparr>) = Ret (session_sent s)"
proof -
  have early: "ss_EarlyData s \<Longrightarrow> readUint8LengthPrefixed R (a @ b @ later) = Some (ss_alpnProtocol s, b @ later)"
    "\<not> ss_EarlyData s \<Longrightarrow> a = []"
    using assms(1) ReadLengthPrefixed_simps(1) [of "ss_alpnProtocol s" "b @ later"]
    by (auto simp: lp_Some_iff read_helpers)
  have b: "ss_version s \<ge> VersionTLS13 \<Longrightarrow> ss_isClient s \<Longrightarrow> b = put_u64 (ss_useBy s) @ put_u32 (ss_ageAdd s)"
    "ss_version s \<ge> VersionTLS13 \<Longrightarrow> \<not> ss_isClient s \<Longrightarrow> b = []"
    "\<not> ss_version s \<ge> VersionTLS13 \<Longrightarrow> b = put_u16 (ss_curveID s)"
    using assms(2) by simp_all
  show ?thesis
    using early b
    by (cases "ss_EarlyData s"; cases "ss_version s \<ge> VersionTLS13"; cases "ss_isClient s")
      (simp_all add: session_tail_def session_sent_def read_or_def)
qed

lemma ParseSessionState_enc:
  assumes Raw: "\<And>c. newCert (Raw c) = Ret c" and wf: "session_wf Raw s"
    and enc: "cat (enc_session Raw s) = Some bs"
  shows "ParseSessionState R newCert (bs @ later) = Ret (session_sent s)"
proof -
  obtain sec ex cert ch a b where pieces: "length (ss_secret s) < 256"
      "cat (map (\<lambda>e. lp 3 (Some e)) (ss_Extra s)) = Some ex" "length ex < 16777216"
      "enc_Certificate (ss_certificate Raw s) = Some cert"
      "cat (map (enc_chain Raw) (ss_verifiedChains s)) = Some ch" "length ch < 16777216"
    and tail: "(if ss_EarlyData s then lp 1 (Some (ss_alpnProtocol s)) else Some []) = Some a"
      "(if ss_version s \<ge> VersionTLS13
       then if ss_isClient s then Some (put_u64 (ss_useBy s) @ put_u32 (ss_ageAdd s)) else Some []
       else Some (put_u16 (ss_curveID s))) = Some b"
    and bs: "bs = put_u16 (ss_version s) @ [if ss_isClient s then 2 else 1] @ put_u16 (ss_cipherSuite s) @
      put_u64 (ss_createdAt s) @ (of_nat (length (ss_secret s)) # ss_secret s) @ (put_be 3 (length ex) @ ex) @
      [if ss_extMasterSecret s then 1 else 0] @ [if ss_EarlyData s then 1 else 0] @ cert @
      (put_be 3 (length ch) @ ch) @ a @ b"
    using enc unfolding enc_session_def cat_Some_iff lp_Some_iff by auto
  let ?rest = "(put_be 3 (length ch) @ ch) @ a @ b @ later"
  have cert: "unmarshalCertificate R (cert @ ?rest) cert_zero = Some (ss_certificate Raw s, ?rest)"
    using wf pieces(4) by (intro unmarshalCertificate_enc) (simp_all add: session_wf_def)
  have head: "session_head R (bs @ later) = Some (ss_version s, (if ss_isClient s then 2 else 1), ss_cipherSuite s,
      ss_createdAt s, ss_secret s, ex, (if ss_extMasterSecret s then 1 else 0), (if ss_EarlyData s then 1 else 0),
      ss_certificate Raw s, ?rest)"
    using cert pieces(1,3) wf by (simp add: session_head_def bs readUint64_put read_helpers session_wf_def)
  have certs: "new_certs newCert (cert_Certificate (ss_certificate Raw s)) = Ret (ss_peerCertificates s)"
    using new_certs_Raw [of newCert Raw, OF Raw] by (simp add: ss_certificate_def certificatesToBytesSlice_def)
  have chains: "loop_exec R (chain_step R newCert (ss_peerCertificates s)) (length ch) ch [] = Ret (ss_verifiedChains s)"
    using wf by (intro chains_read [OF Raw pieces(5)]) (auto simp: session_wf_def)
  have kinds: "(if (if c then 2 else (1 :: byte)) = 1 then Ret False else if (if c then 2 else (1 :: byte)) = 2 then Ret True else e) = Ret c"
    "session_bool (if c then 1 else 0) = Ret c" for c e
    by (simp_all add: session_bool_def)
  have client: "\<not> (ss_isClient s \<and> length (ss_peerCertificates s) = 0)"
    using wf by (simp add: session_wf_def)
  have list: "r_ReadUint24LengthPrefixed R ?rest = Some (ch, a @ b @ later)"
    using pieces(6) by simp
  have fields: "\<lparr>ss_Extra = ss_Extra s, ss_EarlyData = ss_EarlyData s, ss_version = ss_version s,
      ss_isClient = ss_isClient s, ss_cipherSuite = ss_cipherSuite s, ss_createdAt = ss_createdAt s,
      ss_secret = ss_secret s, ss_extMasterSecret = ss_extMasterSecret s, ss_peerCertificates = ss_peerCertificates s,
      ss_ocspResponse = cert_OCSPStaple (ss_certificate Raw s),
      ss_scts = cert_SignedCertificateTimestamps (ss_certificate Raw s), ss_verifiedChains = ss_verifiedChains s,
      ss_alpnProtocol = [], ss_useBy = 0, ss_ageAdd = 0, ss_ticket = [], ss_curveID = 0\<rparr> =
    s\<lparr>ss_alpnProtocol := [], ss_useBy := 0, ss_ageAdd := 0, ss_ticket := [], ss_curveID := 0\<rparr>"
    by (cases s) (simp add: ss_certificate_def)
  have ok: "read_or (Some x) = Ret x" for x :: 'y
    by (simp add: read_or_def)
  show ?thesis
    unfolding ParseSessionState_def head ok exec_bind.simps prod.case extra_read [OF pieces(2)] kinds certs list chains
      if_not_P [OF client] fields
    by (rule session_tail_read [OF tail])
qed

text \<open>The loops end before the bound, and what every turn keeps holds at the end.\<close>

lemma loop_exec_no_panic:
  assumes "\<And>s v. step s v \<noteq> Panic p" "\<And>s v v' s'. step s v = Ret (v', s') \<Longrightarrow> length s' < length s"
    and "length s \<le> n"
  shows "loop_exec R step n s v \<noteq> Panic p"
  using assms(3)
proof (induction n arbitrary: s v)
  case (Suc n)
  show ?case
  proof (cases "step s v")
    case (Ret r)
    obtain v' s' where r: "r = (v', s')"
      by (cases r)
    then have "length s' \<le> n"
      using assms(2) [of s v v' s'] Ret Suc.prems by simp
    then show ?thesis
      using Suc.IH [of s' v'] Ret r by simp
  qed (use assms(1) [of s v] in auto)
qed simp

lemma loop_exec_invariant:
  assumes "\<And>s v v' s'. P v \<Longrightarrow> step s v = Ret (v', s') \<Longrightarrow> P v'"
  shows "loop_exec R step n s v = Ret v' \<Longrightarrow> P v \<Longrightarrow> P v'"
  using assms
  by (induction n arbitrary: s v) (fastforce simp: exec_simps split: if_splits)+

lemma read24_shorter: "r_ReadUint24LengthPrefixed R s = Some (x, s') \<Longrightarrow> length s' < length s"
  using cut_lp_shorter [of 3 s x s'] by (simp add: laws)

lemma steps_shorter:
  "extra_step R s es = Ret (es', s') \<Longrightarrow> length s' < length s"
  "chain_cert_step R newCert s c = Ret (c', s') \<Longrightarrow> length s' < length s"
  "chain_step R newCert peers s cs = Ret (cs', s') \<Longrightarrow> length s' < length s"
  using read24_shorter [of s]
  by (auto simp: extra_step_def chain_cert_step_def chain_step_def exec_simps read_helpers read_or_def invalid_session_def
      split: option.splits if_splits)

lemma reads_no_panic [simp]: "read_or r \<noteq> Panic p" "session_bool b \<noteq> Panic p" "invalid_session \<noteq> Panic p"
  by (simp_all add: read_or_def session_bool_def invalid_session_def split: option.splits)

lemma exec_bind_Panic_iff: "exec_bind m f = Panic p \<longleftrightarrow> m = Panic p \<or> (\<exists>x. m = Ret x \<and> f x = Panic p)"
  by (cases m) auto

lemma steps_no_panic:
  assumes "\<And>b. newCert b \<noteq> Panic p"
  shows "extra_step R s es \<noteq> Panic p" "chain_cert_step R newCert s c \<noteq> Panic p"
    "chain_step R newCert peers s cs \<noteq> Panic p" "new_certs newCert bs \<noteq> Panic p"
proof -
  show "extra_step R s es \<noteq> Panic p" for s es
    by (auto simp: extra_step_def exec_bind_Panic_iff)
  have cert: "chain_cert_step R newCert s c \<noteq> Panic p" for s c
    using assms by (auto simp: chain_cert_step_def exec_bind_Panic_iff)
  then show "chain_cert_step R newCert s c \<noteq> Panic p" .
  have "loop_exec R (chain_cert_step R newCert) (length l) l c \<noteq> Panic p" for l c
    by (intro loop_exec_no_panic cert steps_shorter(2)) simp_all
  then show "chain_step R newCert peers s cs \<noteq> Panic p"
    by (auto simp: chain_step_def exec_bind_Panic_iff)
  show "new_certs newCert bs \<noteq> Panic p"
    using assms by (induction bs) (auto simp: exec_bind_Panic_iff)
qed

lemma ParseSessionState_no_panic:
  assumes "\<And>b. newCert b \<noteq> Panic p"
  shows "ParseSessionState R newCert data \<noteq> Panic p"
proof -
  have "session_tail R s ss \<noteq> Panic p" for s and ss :: "'x SessionState"
    by (auto simp: session_tail_def exec_bind_Panic_iff split: if_splits)
  moreover have "loop_exec R (extra_step R) (length l) l es \<noteq> Panic p" for l es
    by (intro loop_exec_no_panic steps_no_panic(1) [OF assms] steps_shorter(1)) simp_all
  moreover have "loop_exec R (chain_step R newCert peers) (length l) l cs \<noteq> Panic p" for peers l cs
    by (intro loop_exec_no_panic steps_no_panic(3) [OF assms] steps_shorter(3)) simp_all
  ultimately show ?thesis
    unfolding ParseSessionState_def
    by (auto simp: exec_bind_Panic_iff steps_no_panic(4) [OF assms] split: if_splits)
qed

lemma chain_starts_with_leaf:
  assumes "chain_step R newCert peers s cs = Ret (cs', s')" "\<forall>c \<in> set cs. peers \<noteq> [] \<and> c \<noteq> [] \<and> hd c = hd peers"
  shows "\<forall>c \<in> set cs'. peers \<noteq> [] \<and> c \<noteq> [] \<and> hd c = hd peers"
proof -
  obtain l w where l: "loop_exec R (chain_cert_step R newCert) (length l) l [peers ! 0] = Ret w" "peers \<noteq> []" "cs' = cs @ [w]"
    using assms(1) by (auto simp: chain_step_def exec_simps invalid_session_def split: if_splits)
  have "w \<noteq> [] \<and> hd w = hd peers"
    using l(1)
    by (rule loop_exec_invariant [where P = "\<lambda>w. w \<noteq> [] \<and> hd w = hd peers", rotated])
      (use l(2) in \<open>auto simp: chain_cert_step_def exec_simps hd_conv_nth [of peers]\<close>)
  then show ?thesis
    using assms(2) l by auto
qed

lemma session_tail_keeps:
  assumes "session_tail R s ss = Ret ss'"
  shows "ss_secret ss' = ss_secret ss" "ss_isClient ss' = ss_isClient ss"
    "ss_peerCertificates ss' = ss_peerCertificates ss" "ss_verifiedChains ss' = ss_verifiedChains ss"
  using assms unfolding session_tail_def
  by (cases "ss_EarlyData ss"; cases "ss_version ss \<ge> VersionTLS13"; cases "ss_isClient ss"; auto simp: exec_simps)+

lemma ParseSessionState_wf:
  assumes "ParseSessionState R newCert data = Ret ss"
  shows "ss_secret ss \<noteq> []" "ss_isClient ss \<Longrightarrow> ss_peerCertificates ss \<noteq> []"
    "\<forall>c \<in> set (ss_verifiedChains ss). ss_peerCertificates ss \<noteq> [] \<and> c \<noteq> [] \<and> hd c = hd (ss_peerCertificates ss)"
proof -
  obtain vers kind suite created secret extra ems early cert s Extra isClient ems' early' peers l s' vcs where
    head: "session_head R data = Some (vers, kind, suite, created, secret, extra, ems, early, cert, s)"
    and client: "\<not> (isClient \<and> length peers = 0)"
    and chains: "loop_exec R (chain_step R newCert peers) (length l) l [] = Ret vcs"
    and tail: "session_tail R s' \<lparr>ss_Extra = Extra, ss_EarlyData = early', ss_version = vers, ss_isClient = isClient,
        ss_cipherSuite = suite, ss_createdAt = created, ss_secret = secret,
        ss_extMasterSecret = ems', ss_peerCertificates = peers,
        ss_ocspResponse = cert_OCSPStaple cert, ss_scts = cert_SignedCertificateTimestamps cert,
        ss_verifiedChains = vcs, ss_alpnProtocol = [], ss_useBy = 0, ss_ageAdd = 0, ss_ticket = [], ss_curveID = 0\<rparr> = Ret ss"
    using assms unfolding ParseSessionState_def read_or_def
    by (auto simp: exec_bind_Ret_iff invalid_session_def split: option.splits if_split_asm) blast+
  have "secret \<noteq> []"
    using head by (auto simp: session_head_def bind_eq_Some_conv split: if_splits)
  moreover have "\<forall>c \<in> set vcs. peers \<noteq> [] \<and> c \<noteq> [] \<and> hd c = hd peers"
    using chains
    by (rule loop_exec_invariant [where P = "\<lambda>cs. \<forall>c \<in> set cs. peers \<noteq> [] \<and> c \<noteq> [] \<and> hd c = hd peers", rotated])
      (simp, erule chain_starts_with_leaf [rotated], assumption)
  ultimately show "ss_secret ss \<noteq> []" "ss_isClient ss \<Longrightarrow> ss_peerCertificates ss \<noteq> []"
    "\<forall>c \<in> set (ss_verifiedChains ss). ss_peerCertificates ss \<noteq> [] \<and> c \<noteq> [] \<and> hd c = hd (ss_peerCertificates ss)"
    using session_tail_keeps [OF tail] client by auto
qed

end

section \<open>Tickets that hold sessions\<close>

text \<open>The error of \<open>Bytes\<close> is returned after the keys may have been rotated.\<close>

definition EncryptTicket ::
  "std_hashes \<Rightarrow> 'b builder_ops \<Rightarrow> ('x \<Rightarrow> bytes) \<Rightarrow> (nat \<Rightarrow> int) \<Rightarrow> bytes exec \<Rightarrow> bytes exec \<Rightarrow> (nat \<Rightarrow> bytes exec)
     \<Rightarrow> ticket_config \<Rightarrow> 'x SessionState \<Rightarrow> (ticket_config \<times> bytes exec) exec" where
  "EncryptTicket H B Raw clock rnd1 rnd2 rnd c ss =
     exec_bind (ticketKeys H clock rnd1 rnd1 rnd2 c None) (\<lambda>(c, _, keys).
     Ret (c, exec_bind (ss_Bytes B Raw ss) (\<lambda>stateBytes. encryptTicket H rnd stateBytes keys)))"

definition DecryptTicket ::
  "std_hashes \<Rightarrow> reader_ops \<Rightarrow> (bytes \<Rightarrow> 'x exec) \<Rightarrow> (nat \<Rightarrow> int) \<Rightarrow> bytes exec \<Rightarrow> bytes exec
     \<Rightarrow> ticket_config \<Rightarrow> bytes \<Rightarrow> (ticket_config \<times> 'x SessionState option) exec" where
  "DecryptTicket H R newCert clock rnd1 rnd2 c identity =
     exec_bind (ticketKeys H clock rnd1 rnd1 rnd2 c None) (\<lambda>(c, _, keys).
     case decryptTicket H identity keys of
       None \<Rightarrow> Ret (c, None)
     | Some stateBytes \<Rightarrow>
         (case ParseSessionState R newCert stateBytes of
            Ret s \<Rightarrow> Ret (c, Some s)
          | Fail e \<Rightarrow> Ret (c, None)
          | Panic p \<Rightarrow> Panic p))"

lemma DecryptTicket_keys:
  assumes "DecryptTicket H R newCert clock rnd1 rnd2 c ticket = Ret (c', r)"
  obtains keys where "own_ticketKeys H clock rnd1 rnd2 c = Ret (c', keys)"
proof -
  obtain c1 keys where own: "own_ticketKeys H clock rnd1 rnd2 c = Ret (c1, keys)"
    using assms by (cases "own_ticketKeys H clock rnd1 rnd2 c") (auto simp: DecryptTicket_def ticketKeys_def)
  have "c1 = c'"
    using assms own
    by (cases "decryptTicket H ticket keys"; cases "ParseSessionState R newCert (the (decryptTicket H ticket keys))")
      (simp_all add: DecryptTicket_def ticketKeys_def)
  with own that show thesis
    by blast
qed

section \<open>Properties\<close>

text \<open>A session survives \<open>Bytes\<close> and \<open>ParseSessionState\<close>: every field comes back that its version
  and kind encode, the others are reset, and bytes appended by a later format are ignored.  The
  certificates must parse to themselves and every verified chain must begin with the leaf.\<close>

theorem session_roundtrip:
  assumes "cryptobyte_Builder B" "cryptobyte_String R" "\<And>c. newCert (Raw c) = Ret c"
    and "session_wf Raw s" "ss_Bytes B Raw s = Ret bs"
  shows "ParseSessionState R newCert (bs @ later) = Ret (session_sent s)"
  using cryptobyte_String.ParseSessionState_enc [OF assms(2-4)] cryptobyte_Builder.ss_Bytes_enc [OF assms(1)] assms(5)
  by blast

text \<open>A client session for concrete runs; a certificate is its encoding.\<close>

definition demo_session :: "bytes SessionState" where
  "demo_session = \<lparr>ss_Extra = [[1], []], ss_EarlyData = True, ss_version = VersionTLS13, ss_isClient = True,
     ss_cipherSuite = TLS_AES_128_GCM_SHA256, ss_createdAt = 1700000000, ss_secret = [1, 2, 3], ss_extMasterSecret = True,
     ss_peerCertificates = [[48, 0], [48, 1]], ss_ocspResponse = Some [9], ss_scts = None,
     ss_verifiedChains = [[[48, 0], [48, 2]]], ss_alpnProtocol = [104, 50], ss_useBy = 1700604800, ss_ageAdd = 77,
     ss_ticket = [5], ss_curveID = X25519\<rparr>"

lemma demo_session_wf: "session_wf (\<lambda>c. c) demo_session"
  by (simp add: session_wf_def demo_session_def cert_wf_def ss_certificate_def certificatesToBytesSlice_def)

lemma demo_session_Bytes: "\<exists>bs. ss_Bytes ref_builder (\<lambda>c. c) demo_session = Ret bs"
  unfolding ref_builder.ss_Bytes_enc
  by (simp add: enc_session_def demo_session_def lp_def enc_chain_def enc_Certificate_def enc_entry_def cert_items_def
      item_bytes_def ext_opt_def ss_certificate_def certificatesToBytesSlice_def)

theorem session_roundtrip_witness:
  "\<exists>bs. ss_Bytes ref_builder (\<lambda>c. c) demo_session = Ret bs \<and>
     ParseSessionState ref_reader Ret (bs @ [255]) = Ret (demo_session\<lparr>ss_ticket := [], ss_curveID := 0\<rparr>)"
proof -
  obtain bs where bs: "ss_Bytes ref_builder (\<lambda>c. c) demo_session = Ret bs"
    using demo_session_Bytes by blast
  have "session_sent demo_session = demo_session\<lparr>ss_ticket := [], ss_curveID := 0\<rparr>"
    by (simp add: session_sent_def demo_session_def)
  with session_roundtrip [OF ref_builder.cryptobyte_Builder_axioms ref_reader.cryptobyte_String_axioms _ demo_session_wf bs,
      of Ret "[255]"] bs show ?thesis
    by auto
qed

text \<open>C19: \<open>ParseSessionState\<close> never panics, whatever the bytes, and what it accepts is usable: there is a
  secret, a client session has certificates, and every verified chain begins with the leaf certificate.\<close>

theorem session_parse_safe:
  assumes "cryptobyte_String R" "\<And>b p. newCert b \<noteq> Panic p"
  shows "ParseSessionState R newCert data \<noteq> Panic p \<and>
    (\<forall>ss. ParseSessionState R newCert data = Ret ss \<longrightarrow>
       ss_secret ss \<noteq> [] \<and> (ss_isClient ss \<longrightarrow> ss_peerCertificates ss \<noteq> []) \<and>
       (\<forall>c \<in> set (ss_verifiedChains ss). ss_peerCertificates ss \<noteq> [] \<and> c \<noteq> [] \<and> hd c = hd (ss_peerCertificates ss)))"
  using cryptobyte_String.ParseSessionState_no_panic [OF assms(1), of newCert p data] assms(2)
    cryptobyte_String.ParseSessionState_wf [OF assms(1), of newCert data] by blast

theorem session_parse_safe_witness:
  "ParseSessionState ref_reader (Ret :: bytes \<Rightarrow> bytes exec) [3, 4, 2] \<noteq> Panic ''index out of range''"
  using session_parse_safe [OF ref_reader.cryptobyte_String_axioms, of "Ret :: bytes \<Rightarrow> bytes exec"] by blast

text \<open>C18: a session put into a ticket can be resumed for at least six days, on every later call, whatever
  calls come between: \<open>DecryptTicket\<close> returns the session, unless two of the server's HMAC keys give the
  ticket the same MAC.\<close>

theorem session_resumes_six_days:
  assumes "cryptobyte_Builder B" "cryptobyte_String R" "\<And>c. newCert (Raw c) = Ret c" "session_wf Raw ss"
    and "wf_hash (sha256_h H)" "h_size (sha256_h H) = 32"
    and "auto_mode c" "autoSessionTicketKeys c = []" "ticket_calls H t c t1 c1"
    and "clock_ok t1 clock t2" "reads_32 rnd1" "\<And>n iv. rnd n = Ret iv \<Longrightarrow> length iv = n"
    and "EncryptTicket H B Raw clock rnd1 rnd2 rnd c1 ss = Ret (c2, Ret ticket)"
    and "ticket_calls H t2 c2 t3 c3"
    and "clock_ok t3 clock' t4" "reads_32 rnd1'"
    and "DecryptTicket H R newCert clock' rnd1' rnd2' c3 ticket = Ret (c4, r)"
    and "t4 - clock 0 \<le> 6 * 24 * hour"
  shows "r = Some (session_sent ss) \<or>
     mac_collision H ticket (hd (autoSessionTicketKeys c2)) (autoSessionTicketKeys c4)"
proof -
  obtain keys state where enc: "own_ticketKeys H clock rnd1 rnd2 c1 = Ret (c2, keys)"
    and state: "ss_Bytes B Raw ss = Ret state" and ticket: "encryptTicket H rnd state keys = Ret ticket"
    using assms(13) by (auto simp: EncryptTicket_def ticketKeys_def exec_simps)
  obtain keys' where dec: "own_ticketKeys H clock' rnd1' rnd2' c3 = Ret (c4, keys')"
    by (rule DecryptTicket_keys [OF assms(17)])
  have r: "r = Some (session_sent ss)" if "decryptTicket H ticket keys' = Some state"
    using that assms(17) dec
      cryptobyte_String.ParseSessionState_enc [OF assms(2-4), where later = "[]"]
      cryptobyte_Builder.ss_Bytes_enc [OF assms(1), of Raw ss state] state
    by (simp add: DecryptTicket_def ticketKeys_def)
  have c1: "auto_mode c1" "keys_ok t1 (autoSessionTicketKeys c1)"
    using ticket_calls_keep [OF assms(9,7)] assms(8) by simp_all
  then have c2: "autoSessionTicketKeys c2 = keys" "auto_mode c2" "keys_ok t2 (autoSessionTicketKeys c2)"
    using own_ticketKeys_auto [OF _ _ assms(10,11) enc] by auto
  have "autoSessionTicketKeys c4 = keys'"
    using own_ticketKeys_auto [OF _ _ assms(15,16) dec] ticket_calls_keep [OF assms(14) c2(2,3)] by blast
  then show ?thesis
    using ticket_accepted_six_days [OF assms(5-11) enc ticket assms(12,14-16) dec assms(18)] r c2(1) by blast
qed

theorem session_resumes_six_days_witness:
  "\<exists>ticket. EncryptTicket toy_hashes ref_builder (\<lambda>c. c) (\<lambda>i. 0) (Ret (replicate 32 7)) (Ret (replicate 32 1))
       (\<lambda>n. Ret (replicate n 5)) fresh_config demo_session = Ret (config_at_0, Ret ticket) \<and>
     DecryptTicket toy_hashes ref_reader Ret (\<lambda>i. hour) (Ret (replicate 32 7)) (Ret (replicate 32 1)) config_at_0 ticket =
       Ret (config_at_0, Some (session_sent demo_session))"
proof -
  obtain state where state: "ss_Bytes ref_builder (\<lambda>c. c) demo_session = Ret state"
    using demo_session_Bytes by blast
  have "length (aesKey (hd (autoSessionTicketKeys config_at_0))) = 16"
    by (simp add: config_at_0_def ticketKeyFromBytes_def Let_def)
  then obtain ticket where t: "encryptTicket toy_hashes (\<lambda>n. Ret (replicate n 5)) state (autoSessionTicketKeys config_at_0) = Ret ticket"
    using aes_New_total [of "aesKey (hd (autoSessionTicketKeys config_at_0))"]
    by (auto simp: encryptTicket_def config_at_0_def exec_simps Let_def)
  have enc: "EncryptTicket toy_hashes ref_builder (\<lambda>c. c) (\<lambda>i. 0) (Ret (replicate 32 7)) (Ret (replicate 32 1))
      (\<lambda>n. Ret (replicate n 5)) fresh_config demo_session = Ret (config_at_0, Ret ticket)"
    by (simp add: EncryptTicket_def ticketKeys_def fresh_call(1) state t)
  obtain r where dec: "DecryptTicket toy_hashes ref_reader Ret (\<lambda>i. hour) (Ret (replicate 32 7)) (Ret (replicate 32 1))
      config_at_0 ticket = Ret (config_at_0, r)"
    using cryptobyte_String.ParseSessionState_no_panic [OF ref_reader.cryptobyte_String_axioms, of Ret]
    by (cases "decryptTicket toy_hashes ticket (autoSessionTicketKeys config_at_0)";
        cases "ParseSessionState ref_reader Ret (the (decryptTicket toy_hashes ticket (autoSessionTicketKeys config_at_0)))"
          rule: exec.exhaust) (auto simp: DecryptTicket_def ticketKeys_def later_call)
  have "r = Some (session_sent demo_session) \<or>
      mac_collision toy_hashes ticket (hd (autoSessionTicketKeys config_at_0)) (autoSessionTicketKeys config_at_0)"
    using wf_toy_hashes
    by (intro session_resumes_six_days [OF ref_builder.cryptobyte_Builder_axioms ref_reader.cryptobyte_String_axioms _
          demo_session_wf _ _ fresh_call(2,3) ticket_calls.none [of 0 0] _ _ _ enc ticket_calls.none [of 0 0] _ _ dec, of hour])
      (auto simp: reads_32_def wf_hashes_def toy_hashes_def toy_hash_def go_durations)
  moreover have "\<not> mac_collision toy_hashes ticket (hd (autoSessionTicketKeys config_at_0)) (autoSessionTicketKeys config_at_0)"
    by (simp add: mac_collision_def config_at_0_def)
  ultimately show ?thesis
    using enc dec by blast
qed

end
