(* ===== verification/RealityHandshake.thy ===== *)
theory RealityHandshake
  imports KeyUpdates Auth Session RealityAuth
begin

text \<open>
  The handshake of a REALITY server with a client it accepted: \<open>handshake\<close> of
  \<open>handshake_server_tls13.go\<close> as it runs there (the calls that are commented out are not part of it),
  with \<open>sendServerParameters\<close>, \<open>sendServerCertificate\<close>, \<open>sendServerFinished\<close>, \<open>sendSessionTickets\<close> and
  \<open>readClientFinished\<close>.  \<open>hs.hello\<close> is the target's ServerHello; \<open>earlySecret\<close> and \<open>echContext\<close> are nil and
  \<open>usingPSK\<close> is false, because nothing on this path sets them, and the configuration has no ECH keys.  The
  libraries \<open>crypto/ecdh\<close>, \<open>crypto/mlkem\<close> and \<open>crypto/ed25519\<close> are parameters.
\<close>

section \<open>What the handshake uses\<close>

text \<open>\<open>kx_gen\<close> is \<open>GenerateKey\<close>, \<open>kx_Encapsulate\<close> returns the shared secret and the ciphertext.\<close>

record ('k, 'p, 'e) kex_lib =
  kx_gen :: "ecdh_curve \<Rightarrow> 'k exec"
  kx_PublicKey :: "'k \<Rightarrow> bytes"
  kx_NewPublicKey :: "bytes \<Rightarrow> 'p exec"
  kx_ECDH :: "'k \<Rightarrow> 'p \<Rightarrow> bytes exec"
  kx_NewEncapsulationKey768 :: "bytes \<Rightarrow> 'e exec"
  kx_Encapsulate :: "'e \<Rightarrow> bytes \<times> bytes"

text \<open>The package variables \<open>signedCert\<close> and \<open>ed25519Priv\<close>: its public half and its \<open>Sign\<close>.\<close>

record reality_identity =
  id_signedCert :: bytes
  id_public :: bytes
  id_Sign :: "bytes \<Rightarrow> bytes exec"

text \<open>
  What the handshake takes from the connection and its configuration.  \<open>he_requestCert\<close> is
  \<open>ClientAuth >= RequestClientCert\<close>, \<open>he_keyLog\<close> the error of \<open>writeKeyLog\<close>, \<open>he_WrapSession\<close> the callback (or
  nil), \<open>he_now\<close> the time, \<open>he_rand\<close> and \<open>he_ageAdd\<close> what \<open>c.config.rand()\<close> yields for a ticket.
\<close>

record hs_env =
  he_AuthKey :: bytes
  he_clientProtocol :: bytes
  he_requestCert :: bool
  he_ClientCAs :: "bytes list option"
  he_fips :: bool
  he_keyLog :: "string \<Rightarrow> bytes \<Rightarrow> bytes \<Rightarrow> err option"
  he_ticketsDisabled :: bool
  he_ticketKeys :: "ticketKey list"
  he_WrapSession :: "(bytes SessionState \<Rightarrow> bytes exec) option"
  he_now :: u64
  he_rand :: "nat \<Rightarrow> bytes exec"
  he_ageAdd :: "bytes exec"

text \<open>The variables that the steps share, and how steps follow each other.\<close>

record ('s, 'a, 'c, 'm) hs_state =
  rs_conn :: "('s, 'a, 'c, 'm) conn"
  rs_transcript :: digest

definition and_then :: "'x \<times> 'v exec \<Rightarrow> ('x \<Rightarrow> 'v \<Rightarrow> 'x \<times> 'w exec) \<Rightarrow> 'x \<times> 'w exec" where
  "and_then r f =
     (case r of (x, Ret v) \<Rightarrow> f x v | (x, Fail e) \<Rightarrow> (x, Fail e) | (x, Panic p) \<Rightarrow> (x, Panic p))"

lemma and_then_simps [simp]:
  "and_then (x, Ret v) f = f x v" "and_then (x, Fail e) f = (x, Fail e)" "and_then (x, Panic p) f = (x, Panic p)"
  by (simp_all add: and_then_def)

section \<open>Key exchange and certificate\<close>

text \<open>\<open>x, _ := f()\<close> leaves \<open>x\<close> nil on an error; using a nil pointer panics.\<close>

definition or_nil :: "'a exec \<Rightarrow> 'a option exec" where
  "or_nil r = (case r of Ret x \<Rightarrow> Ret (Some x) | Fail e \<Rightarrow> Ret None | Panic p \<Rightarrow> Panic p)"

definition deref :: "'a option \<Rightarrow> 'a exec" where
  "deref r = (case r of Some x \<Rightarrow> Ret x | None \<Rightarrow> Panic ''nil pointer dereference'')"

definition EncapsulationKeySize768 :: nat where "EncapsulationKeySize768 = 1184"

fun peer_data :: "keyShare list \<Rightarrow> u16 \<Rightarrow> bytes" where
  "peer_data [] grp = []"
| "peer_data (ks # keyShares) grp = (if ks_group ks = grp then ks_data ks else peer_data keyShares grp)"

definition set_share :: "serverHelloMsg \<Rightarrow> bytes \<Rightarrow> serverHelloMsg" where
  "set_share hello data = hello\<lparr>sh_serverShare := (sh_serverShare hello)\<lparr>ks_data := data\<rparr>\<rparr>"

text \<open>The ServerHello with our share in it and \<open>hs.sharedKey\<close>, which is nil when \<open>ECDH\<close> fails.\<close>

definition key_exchange ::
  "('k, 'p, 'e) kex_lib \<Rightarrow> clientHelloMsg \<Rightarrow> serverHelloMsg \<Rightarrow> (serverHelloMsg \<times> bytes option) exec" where
  "key_exchange X ch hello =
     (let grp = ks_group (sh_serverShare hello);
          peerData = peer_data (ch_keyShares ch) grp
      in exec_bind (if grp = X25519MLKEM768
                    then if length peerData < EncapsulationKeySize768 then Panic ''slice bounds out of range''
                         else Ret (drop EncapsulationKeySize768 peerData)
                    else Ret peerData) (\<lambda>peerPub.
         exec_bind (exec_bind (or_nil (generateECDHEKey (kx_gen X) X25519)) deref) (\<lambda>key.
         let data = go_copy (ks_data (sh_serverShare hello)) (kx_PublicKey X key)
         in exec_bind (exec_bind (or_nil (kx_NewPublicKey X peerPub)) deref) (\<lambda>peerKey.
            exec_bind (or_nil (kx_ECDH X key peerKey)) (\<lambda>sharedKey.
            if grp = X25519MLKEM768 then
              exec_bind (exec_bind (or_nil (kx_NewEncapsulationKey768 X (take EncapsulationKeySize768 peerData))) deref) (\<lambda>k.
              let (mlkemSharedSecret, ciphertext) = kx_Encapsulate X k
              in if length data < 32 then Panic ''slice bounds out of range''
                 else Ret (set_share hello (go_copy data (ciphertext @ take 32 data)),
                           Some (mlkemSharedSecret @ (case sharedKey of None \<Rightarrow> [] | Some s \<Rightarrow> s))))
            else Ret (set_share hello data, sharedKey))))))"

text \<open>The certificate of this client: an HMAC under the authentication key replaces the signature.\<close>

definition reality_cert :: "std_hashes \<Rightarrow> reality_identity \<Rightarrow> bytes \<Rightarrow> bytes exec" where
  "reality_cert H I authKey =
     (let cert = id_signedCert I
      in if length cert < 64 then Panic ''slice bounds out of range''
         else Ret (take (length cert - 64) cert @
                   go_copy (drop (length cert - 64) cert) (hmac (sha512_h H) authKey (id_public I))))"

section \<open>Messages\<close>

definition hs_write ::
  "'b builder_ops \<Rightarrow> ('s, 'a, 'c, 'm) cipher_ops \<Rightarrow> ('s, 'a, 'c, 'm) hs_state \<Rightarrow> handshakeMessage
     \<Rightarrow> ('s, 'a, 'c, 'm) hs_state \<times> unit exec" where
  "hs_write B K st msg =
     (let (c, t, n, r) = writeHandshakeRecord B K (rs_conn st) msg (Some (rs_transcript st))
      in (\<lparr>rs_conn = c, rs_transcript = (case t of Some t \<Rightarrow> t | None \<Rightarrow> rs_transcript st)\<rparr>, r))"

definition hs_alert ::
  "('s, 'a, 'c, 'm) cipher_ops \<Rightarrow> ('s, 'a, 'c, 'm) hs_state \<Rightarrow> byte \<Rightarrow> err
     \<Rightarrow> ('s, 'a, 'c, 'm) hs_state \<times> 'v exec" where
  "hs_alert K st a e =
     (case sendAlert K (rs_conn st) a of
        (c, Panic p) \<Rightarrow> (st\<lparr>rs_conn := c\<rparr>, Panic p)
      | (c, _) \<Rightarrow> (st\<lparr>rs_conn := c\<rparr>, Fail e))"

definition hs_keyLog ::
  "('s, 'a, 'c, 'm) cipher_ops \<Rightarrow> hs_env \<Rightarrow> clientHelloMsg \<Rightarrow> ('s, 'a, 'c, 'm) hs_state \<Rightarrow> string \<Rightarrow> bytes
     \<Rightarrow> ('s, 'a, 'c, 'm) hs_state \<times> unit exec" where
  "hs_keyLog K E ch st label secret =
     (case he_keyLog E label (ch_random ch) secret of
        None \<Rightarrow> (st, Ret ())
      | Some e \<Rightarrow> hs_alert K st alertInternalError e)"

definition QUICEncryptionLevelHandshake :: nat where "QUICEncryptionLevelHandshake = 2"
definition QUICEncryptionLevelApplication :: nat where "QUICEncryptionLevelApplication = 3"

definition keyLogLabelClientHandshake :: string where "keyLogLabelClientHandshake = ''CLIENT_HANDSHAKE_TRAFFIC_SECRET''"
definition keyLogLabelServerHandshake :: string where "keyLogLabelServerHandshake = ''SERVER_HANDSHAKE_TRAFFIC_SECRET''"
definition keyLogLabelClientTraffic :: string where "keyLogLabelClientTraffic = ''CLIENT_TRAFFIC_SECRET_0''"
definition keyLogLabelServerTraffic :: string where "keyLogLabelServerTraffic = ''SERVER_TRAFFIC_SECRET_0''"

text \<open>Setting a traffic secret of one direction of the connection.\<close>

definition set_in ::
  "std_hashes \<Rightarrow> ('s, 'a, 'c, 'm) suite_impl \<Rightarrow> cipherSuiteTLS13 \<Rightarrow> ('s, 'a, 'c, 'm) hs_state \<Rightarrow> nat \<Rightarrow> bytes
     \<Rightarrow> ('s, 'a, 'c, 'm) hs_state exec" where
  "set_in H I cs st lvl secret =
     exec_bind (setTrafficSecret H (im_aead I (cs13_aead cs)) (c_in (rs_conn st)) cs lvl secret)
       (\<lambda>h. Ret (st\<lparr>rs_conn := (rs_conn st)\<lparr>c_in := h\<rparr>\<rparr>))"

definition set_out ::
  "std_hashes \<Rightarrow> ('s, 'a, 'c, 'm) suite_impl \<Rightarrow> cipherSuiteTLS13 \<Rightarrow> ('s, 'a, 'c, 'm) hs_state \<Rightarrow> nat \<Rightarrow> bytes
     \<Rightarrow> ('s, 'a, 'c, 'm) hs_state exec" where
  "set_out H I cs st lvl secret =
     exec_bind (setTrafficSecret H (im_aead I (cs13_aead cs)) (c_out (rs_conn st)) cs lvl secret)
       (\<lambda>h. Ret (st\<lparr>rs_conn := (rs_conn st)\<lparr>c_out := h\<rparr>\<rparr>))"

text \<open>A step that only computes, or only changes the state.\<close>

definition compute :: "'x \<Rightarrow> 'v exec \<Rightarrow> ('x \<Rightarrow> 'v \<Rightarrow> 'x \<times> 'w exec) \<Rightarrow> 'x \<times> 'w exec" where
  "compute st r f = and_then (st, r) f"

definition change :: "'x \<Rightarrow> 'x exec \<Rightarrow> ('x \<Rightarrow> 'x \<times> 'w exec) \<Rightarrow> 'x \<times> 'w exec" where
  "change st r f = and_then (st, r) (\<lambda>_ st'. f st')"

section \<open>The server's flight\<close>

definition sendServerParameters ::
  "'b builder_ops \<Rightarrow> std_hashes \<Rightarrow> ('s, 'a, 'c, 'm) suite_impl \<Rightarrow> ('s, 'a, 'c, 'm) cipher_ops \<Rightarrow> hs_env
     \<Rightarrow> clientHelloMsg \<Rightarrow> serverHelloMsg \<Rightarrow> cipherSuiteTLS13 \<Rightarrow> bytes option \<Rightarrow> ('s, 'a, 'c, 'm) hs_state
     \<Rightarrow> ('s, 'a, 'c, 'm) hs_state \<times> HandshakeSecret exec" where
  "sendServerParameters B H I K E ch hello cs sharedKey st =
     compute st (transcriptMsg B d_write (ClientHello ch) (rs_transcript st)) (\<lambda>st t.
     let st = st\<lparr>rs_transcript := t\<rparr>
     in and_then (hs_write B K st (ServerHello hello)) (\<lambda>st _.
     and_then (let (c, r) = writeChangeCipherRecord K (rs_conn st) in (st\<lparr>rs_conn := c\<rparr>, r)) (\<lambda>st _.
     compute st (suite_hash H cs) (\<lambda>st h.
     compute st (NewEarlySecret h None) (\<lambda>st earlySecret.
     compute st (es_HandshakeSecret earlySecret sharedKey) (\<lambda>st handshakeSecret.
     compute st (ClientHandshakeTrafficSecret handshakeSecret (rs_transcript st)) (\<lambda>st clientSecret.
     change st (set_in H I cs st QUICEncryptionLevelHandshake clientSecret) (\<lambda>st.
     compute st (ServerHandshakeTrafficSecret handshakeSecret (rs_transcript st)) (\<lambda>st serverSecret.
     change st (set_out H I cs st QUICEncryptionLevelHandshake serverSecret) (\<lambda>st.
     and_then (hs_keyLog K E ch st keyLogLabelClientHandshake clientSecret) (\<lambda>st _.
     and_then (hs_keyLog K E ch st keyLogLabelServerHandshake serverSecret) (\<lambda>st _.
     and_then (hs_write B K st (EncryptedExtensions (ee_zero\<lparr>ee_alpnProtocol := he_clientProtocol E\<rparr>))) (\<lambda>st _.
     (st, Ret handshakeSecret))))))))))))))"

definition reality_certMsg :: "bytes \<Rightarrow> certificateMsgTLS13" where
  "reality_certMsg cert =
     \<lparr>c13_certificate = \<lparr>cert_Certificate = [cert], cert_OCSPStaple = None, cert_SignedCertificateTimestamps = None\<rparr>,
      c13_ocspStapling = False, c13_scts = False\<rparr>"

definition certificateRequest :: "hs_env \<Rightarrow> certificateRequestMsgTLS13" where
  "certificateRequest E =
     cr13_zero\<lparr>cr13_ocspStapling := True, cr13_scts := True,
       cr13_supportedSignatureAlgorithms := supportedSignatureAlgorithms (he_fips E),
       cr13_certificateAuthorities := (case he_ClientCAs E of None \<Rightarrow> [] | Some subjects \<Rightarrow> subjects)\<rparr>"

definition sendServerCertificate ::
  "'b builder_ops \<Rightarrow> std_hashes \<Rightarrow> ('s, 'a, 'c, 'm) cipher_ops \<Rightarrow> reality_identity \<Rightarrow> hs_env \<Rightarrow> bytes
     \<Rightarrow> ('s, 'a, 'c, 'm) hs_state \<Rightarrow> ('s, 'a, 'c, 'm) hs_state \<times> unit exec" where
  "sendServerCertificate B H K I E cert st =
     and_then (if he_requestCert E then hs_write B K st (CertificateRequestTLS13 (certificateRequest E))
               else (st, Ret ())) (\<lambda>st _.
     and_then (hs_write B K st (CertificateTLS13 (reality_certMsg cert))) (\<lambda>st _.
     case typeAndHashFromSignatureScheme Ed25519 of
       Ret (sigType, sigHash) \<Rightarrow>
         compute st (signedMessage H sigHash serverSignatureContext (rs_transcript st)) (\<lambda>st signed.
         case id_Sign I signed of
           Ret sig \<Rightarrow> hs_write B K st (CertificateVerify
                       \<lparr>cv_hasSignatureAlgorithm = True, cv_signatureAlgorithm = Ed25519, cv_signature = sig\<rparr>)
         | Fail e \<Rightarrow> hs_alert K st alertInternalError (ErrMsg ''tls: failed to sign handshake'')
         | Panic p \<Rightarrow> (st, Panic p))
     | _ \<Rightarrow> (let (c, r) = sendAlert K (rs_conn st) alertInternalError in (st\<lparr>rs_conn := c\<rparr>, r))))"

text \<open>\<open>hs.trafficSecret\<close>, \<open>c.ekm\<close>, \<open>hs.clientFinished\<close> (nil until it is computed) and \<open>c.resumptionSecret\<close>.\<close>

record hs_done =
  hd_trafficSecret :: bytes
  hd_ekm :: "string \<Rightarrow> bytes \<Rightarrow> nat \<Rightarrow> bytes exec"
  hd_clientFinished :: bytes
  hd_resumptionSecret :: bytes

text \<open>\<open>c.sessionState()\<close> for this server, which has no certificates of the client.\<close>

definition server_sessionState :: "hs_env \<Rightarrow> ('s, 'a, 'c, 'm) conn \<Rightarrow> bytes SessionState" where
  "server_sessionState E c =
     \<lparr>ss_Extra = [], ss_EarlyData = False, ss_version = c_vers c, ss_isClient = isClient c, ss_cipherSuite = c_cipherSuite c,
      ss_createdAt = he_now E, ss_secret = [], ss_extMasterSecret = False, ss_peerCertificates = [],
      ss_ocspResponse = None, ss_scts = None, ss_verifiedChains = [], ss_alpnProtocol = he_clientProtocol E,
      ss_useBy = 0, ss_ageAdd = 0, ss_ticket = [], ss_curveID = 0\<rparr>"

definition session_label ::
  "'b builder_ops \<Rightarrow> std_hashes \<Rightarrow> ('s, 'a, 'c, 'm) cipher_ops \<Rightarrow> hs_env \<Rightarrow> bytes SessionState
     \<Rightarrow> ('s, 'a, 'c, 'm) hs_state \<Rightarrow> ('s, 'a, 'c, 'm) hs_state \<times> bytes exec" where
  "session_label B H K E state st =
     (case he_WrapSession E of
        Some WrapSession \<Rightarrow> (st, WrapSession state)
      | None \<Rightarrow>
          (case ss_Bytes B (\<lambda>c. c) state of
             Ret stateBytes \<Rightarrow> (st, encryptTicket H (he_rand E) stateBytes (he_ticketKeys E))
           | Fail e \<Rightarrow> hs_alert K st alertInternalError e
           | Panic p \<Rightarrow> (st, Panic p)))"

definition sendSessionTicket ::
  "'b builder_ops \<Rightarrow> std_hashes \<Rightarrow> ('s, 'a, 'c, 'm) cipher_ops \<Rightarrow> hs_env \<Rightarrow> bytes \<Rightarrow> bool \<Rightarrow> bytes list
     \<Rightarrow> ('s, 'a, 'c, 'm) hs_state \<Rightarrow> ('s, 'a, 'c, 'm) hs_state \<times> unit exec" where
  "sendSessionTicket B H K E resumptionSecret earlyData extra st =
     (case cipherSuiteTLS13ByID (c_cipherSuite (rs_conn st)) of
        None \<Rightarrow> (st, Fail (ErrMsg ''tls: internal error: unknown cipher suite''))
      | Some cs \<Rightarrow>
          compute st (suite_hash H cs) (\<lambda>st h.
          compute st (ExpandLabel h resumptionSecret ''resumption'' [] (h_size h)) (\<lambda>st psk.
          and_then (session_label B H K E
              ((server_sessionState E (rs_conn st))\<lparr>ss_secret := psk, ss_EarlyData := earlyData, ss_Extra := extra\<rparr>) st)
            (\<lambda>st label.
          compute st (he_ageAdd E) (\<lambda>st ageAdd.
          let (c, _, _, r) = writeHandshakeRecord B K (rs_conn st) (NewSessionTicketTLS13
                \<lparr>nst13_lifetime = of_int (maxSessionTicketLifetime div second), nst13_ageAdd = get_u32 (rev ageAdd),
                 nst13_nonce = [], nst13_label = label,
                 nst13_maxEarlyData = (if earlyData then 0xffffffff else 0)\<rparr>) None
          in (st\<lparr>rs_conn := c\<rparr>, r))))))"

definition shouldSendSessionTickets :: "hs_env \<Rightarrow> clientHelloMsg \<Rightarrow> bool" where
  "shouldSendSessionTickets E ch \<longleftrightarrow> \<not> he_ticketsDisabled E \<and> pskModeDHE \<in> set (ch_pskModes ch)"

definition sendSessionTickets ::
  "'b builder_ops \<Rightarrow> std_hashes \<Rightarrow> ('s, 'a, 'c, 'm) cipher_ops \<Rightarrow> hs_env \<Rightarrow> clientHelloMsg \<Rightarrow> cipherSuiteTLS13
     \<Rightarrow> MasterSecret \<Rightarrow> ('s, 'a, 'c, 'm) hs_state \<Rightarrow> ('s, 'a, 'c, 'm) hs_state \<times> (bytes \<times> bytes) exec" where
  "sendSessionTickets B H K E ch cs masterSecret st =
     compute st (ks_finishedHash H cs (trafficSecret (c_in (rs_conn st))) (rs_transcript st)) (\<lambda>st clientFinished.
     compute st (transcriptMsg B d_write (Finished \<lparr>fin_verifyData = clientFinished\<rparr>) (rs_transcript st)) (\<lambda>st t.
     let st = st\<lparr>rs_transcript := t\<rparr>
     in compute st (ResumptionMasterSecret masterSecret t) (\<lambda>st resumptionSecret.
     if \<not> shouldSendSessionTickets E ch then (st, Ret (clientFinished, resumptionSecret))
     else and_then (sendSessionTicket B H K E resumptionSecret False [] st) (\<lambda>st _.
          (st, Ret (clientFinished, resumptionSecret))))))"

definition sendServerFinished ::
  "'b builder_ops \<Rightarrow> std_hashes \<Rightarrow> ('s, 'a, 'c, 'm) suite_impl \<Rightarrow> ('s, 'a, 'c, 'm) cipher_ops \<Rightarrow> hs_env
     \<Rightarrow> clientHelloMsg \<Rightarrow> cipherSuiteTLS13 \<Rightarrow> HandshakeSecret \<Rightarrow> ('s, 'a, 'c, 'm) hs_state
     \<Rightarrow> ('s, 'a, 'c, 'm) hs_state \<times> hs_done exec" where
  "sendServerFinished B H I K E ch cs handshakeSecret st =
     compute st (ks_finishedHash H cs (trafficSecret (c_out (rs_conn st))) (rs_transcript st)) (\<lambda>st verifyData.
     and_then (hs_write B K st (Finished \<lparr>fin_verifyData = verifyData\<rparr>)) (\<lambda>st _.
     compute st (hs_MasterSecret handshakeSecret) (\<lambda>st masterSecret.
     compute st (ClientApplicationTrafficSecret masterSecret (rs_transcript st)) (\<lambda>st trafficSecret.
     compute st (ServerApplicationTrafficSecret masterSecret (rs_transcript st)) (\<lambda>st serverSecret.
     change st (set_out H I cs st QUICEncryptionLevelApplication serverSecret) (\<lambda>st.
     and_then (hs_keyLog K E ch st keyLogLabelClientTraffic trafficSecret) (\<lambda>st _.
     and_then (hs_keyLog K E ch st keyLogLabelServerTraffic serverSecret) (\<lambda>st _.
     compute st (exportKeyingMaterial masterSecret (rs_transcript st)) (\<lambda>st ekm.
     and_then (if \<not> he_requestCert E then sendSessionTickets B H K E ch cs masterSecret st
               else (st, Ret ([], []))) (\<lambda>st (clientFinished, resumptionSecret).
     (st, Ret \<lparr>hd_trafficSecret = trafficSecret, hd_ekm = ekm, hd_clientFinished = clientFinished,
               hd_resumptionSecret = resumptionSecret\<rparr>)))))))))))"

section \<open>The handshake\<close>

text \<open>\<open>hs.suite\<close> is nil when the target's suite is unknown.\<close>

definition reality_handshake ::
  "'b builder_ops \<Rightarrow> std_hashes \<Rightarrow> ('k, 'p, 'e) kex_lib \<Rightarrow> ('s, 'a, 'c, 'm) suite_impl \<Rightarrow> ('s, 'a, 'c, 'm) cipher_ops
     \<Rightarrow> reality_identity \<Rightarrow> hs_env \<Rightarrow> clientHelloMsg \<Rightarrow> serverHelloMsg \<Rightarrow> ('s, 'a, 'c, 'm) conn
     \<Rightarrow> ('s, 'a, 'c, 'm) conn \<times> hs_done exec" where
  "reality_handshake B H X I K D E ch hello c =
     compute c (deref (cipherSuiteTLS13ByID (sh_cipherSuite hello))) (\<lambda>c cs.
     let c = c\<lparr>c_cipherSuite := cs13_id cs\<rparr>
     in compute c (suite_hash H cs) (\<lambda>c h.
     compute c (key_exchange X ch hello) (\<lambda>c (hello, sharedKey).
     compute c (reality_cert H D (he_AuthKey E)) (\<lambda>c cert.
     let st = \<lparr>rs_conn = c\<lparr>buffering := True\<rparr>, rs_transcript = d_new h\<rparr>;
         (st, r) =
           and_then (sendServerParameters B H I K E ch hello cs sharedKey st) (\<lambda>st handshakeSecret.
           and_then (sendServerCertificate B H K D E cert st) (\<lambda>st _.
           and_then (sendServerFinished B H I K E ch cs handshakeSecret st) (\<lambda>st hdone.
           and_then (if handshakeLen (c_out (rs_conn st)) ! 6 \<noteq> 0
                     then let (c, n, r) = writeRecord K (rs_conn st) recordTypeHandshake [typeNewSessionTicket]
                          in (st\<lparr>rs_conn := c\<rparr>, r)
                     else (st, Ret ())) (\<lambda>st _.
           let (c, n, e) = conn_flush (rs_conn st)
           in (st\<lparr>rs_conn := c\<rparr>, case e of None \<Rightarrow> Ret hdone | Some e \<Rightarrow> Fail e)))))
     in (rs_conn st, r)))))"

definition readClientFinished ::
  "reader_ops \<Rightarrow> std_hashes \<Rightarrow> ('s, 'a, 'c, 'm) suite_impl \<Rightarrow> ('s, 'a, 'c, 'm) cipher_ops \<Rightarrow> cipherSuiteTLS13
     \<Rightarrow> hs_done \<Rightarrow> ('s, 'a, 'c, 'm) conn \<Rightarrow> ('s, 'a, 'c, 'm) conn \<times> unit exec" where
  "readClientFinished R H I K cs hdone c =
     (let (c, _, r) = readHandshake R K c None
      in and_then (c, r) (\<lambda>c msg.
         case msg of
           Finished finished \<Rightarrow>
             if hd_clientFinished hdone \<noteq> fin_verifyData finished
             then (case sendAlert K c alertDecryptError of
                     (c, Panic p) \<Rightarrow> (c, Panic p)
                   | (c, _) \<Rightarrow> (c, Fail (ErrMsg ''tls: invalid client finished hash'')))
             else compute c (setTrafficSecret H (im_aead I (cs13_aead cs)) (c_in c) cs
                               QUICEncryptionLevelApplication (hd_trafficSecret hdone)) (\<lambda>c h.
                  (c\<lparr>c_in := h\<rparr>, Ret ()))
         | _ \<Rightarrow> (case sendAlert K c alertUnexpectedMessage of
                   (c, Panic p) \<Rightarrow> (c, Panic p)
                 | (c, _) \<Rightarrow> (c, Fail (ErrMsg ''tls: received unexpected handshake message'')))))"

text \<open>The second goroutine of \<open>Server\<close> from \<open>hs.handshake()\<close> on.\<close>

definition complete_handshake ::
  "'b builder_ops \<Rightarrow> reader_ops \<Rightarrow> std_hashes \<Rightarrow> ('k, 'p, 'e) kex_lib \<Rightarrow> ('s, 'a, 'c, 'm) suite_impl
     \<Rightarrow> ('s, 'a, 'c, 'm) cipher_ops \<Rightarrow> reality_identity \<Rightarrow> hs_env \<Rightarrow> clientHelloMsg \<Rightarrow> serverHelloMsg
     \<Rightarrow> ('s, 'a, 'c, 'm) conn \<Rightarrow> ('s, 'a, 'c, 'm) conn \<times> unit exec" where
  "complete_handshake B R H X I K D E ch hello c =
     and_then (reality_handshake B H X I K D E ch hello c) (\<lambda>c hdone.
     compute c (deref (cipherSuiteTLS13ByID (sh_cipherSuite hello))) (\<lambda>c cs.
     and_then (readClientFinished R H I K cs hdone c) (\<lambda>c _.
     (c\<lparr>isHandshakeComplete := True\<rparr>, Ret ()))))"

section \<open>Session tickets\<close>

lemma encrypt_no_room:
  assumes "version h = VersionTLS13" "handshakeLen h ! 1 \<noteq> 0" "hc_cipher h = Aead a" "o_explicitNonceLen K a = 0"
    and "p \<noteq> []" "handshake_slot (p ! 0) = Some i" "handshakeLen h ! i = 0"
  obtains h' e where "encrypt K h (record_header recordTypeHandshake v n) p rand = (h', Fail e)"
proof -
  let ?rec = "record_header recordTypeHandshake v n @ p @ [recordTypeHandshake]"
  have "record_header recordTypeHandshake v n ! 0 = recordTypeHandshake" "record_header recordTypeHandshake v n \<noteq> []"
    by (simp_all add: record_header_def)
  then have "encrypt_padding (o_Overhead K a) (handshakeLen h) p ?rec =
      ((handshakeLen h)[i := 0], Fail (ErrMsg ''payload[0], padding''))"
    using assms by (simp add: encrypt_padding_def nth_append Let_def)
  then show thesis
    using assms
    by (intro that) (simp add: encrypt_def encrypt_nonce_def explicitNonceLen_def encrypt_cipher_def encrypt_aead13_def
        then_incSeq_def record_header_def Let_def)
qed

lemma write_no_room:
  assumes w: "reality_writer K c" and p: "p \<noteq> []" "handshake_slot (p ! 0) = Some i" "handshakeLen (c_out c) ! i = 0"
  obtains c1 e where "writeRecordLocked K c recordTypeHandshake p = (c1, 0, Fail e)"
proof -
  define m where "m = (if length p > maxPlaintext then maxPlaintext else length p)"
  obtain a where a: "hc_cipher (c_out c) = Aead a" "o_explicitNonceLen K a = 0"
    using w by (auto simp: reality_writer_def)
  have v: "version (c_out c) = VersionTLS13" "handshakeLen (c_out c) ! 1 \<noteq> 0"
    using w by (simp_all add: reality_writer_def)
  have m: "take m p \<noteq> []" "take m p ! 0 = p ! 0"
    using p(1) by (auto simp: m_def maxPlaintext_def)
  obtain h e where "encrypt K (c_out c) (record_header recordTypeHandshake (wire_vers (c_vers c)) m) (take m p)
      (c_rand c (c_draws c)) = (h, Fail e)"
    using encrypt_no_room [OF v a m(1) p(2) [folded m(2)] p(3)] by blast
  moreover have "maxPayloadSizeForWrite K c recordTypeHandshake = (c, Ret (int maxPlaintext))"
    by (simp add: maxPayloadSizeForWrite_def record_types)
  ultimately have "write_one K c recordTypeHandshake p = (c\<lparr>c_out := h, c_draws := c_draws c + 1\<rparr>, Fail e)"
    by (cases "length p > maxPlaintext") (simp_all add: write_one_def Let_def m_def)
  then show thesis
    using p(1) by (intro that) (simp add: writeRecordLocked_def write_loop.simps [of K recordTypeHandshake c p])
qed

lemma and_then_Ret:
  assumes "snd (and_then r f) = Ret x"
  obtains y v where "r = (y, Ret v)" "snd (f y v) = Ret x"
  using assms by (cases r rule: prod.exhaust; cases "snd r") auto

lemma session_label_same: "session_label B H K E state st = (st', Ret l) \<Longrightarrow> st' = st"
  by (auto simp: session_label_def hs_alert_def split: option.splits exec.splits prod.splits)

text \<open>
  When the target sent no session ticket: whatever the server's ticket is, \<open>sendSessionTicket\<close> finds no
  recorded length for it and fails, and with it \<open>sendSessionTickets\<close>.
\<close>

lemma sendSessionTickets_fail:
  assumes "cryptobyte_Builder B" and "reality_writer K (rs_conn st)" and "handshakeBuf (c_out (rs_conn st)) = None"
    and "handshakeLen (c_out (rs_conn st)) ! 6 = 0" and "shouldSendSessionTickets E ch"
  shows "snd (sendSessionTickets B H K E ch cs masterSecret st) \<noteq> Ret x"
proof -
  have written: "snd (snd (snd (writeHandshakeRecord B K (rs_conn st) (NewSessionTicketTLS13 m) None))) \<noteq> Ret ()" for m
  proof (cases "nst13_marshal B m")
    case (Ret p)
    then have p: "p \<noteq> []" "handshake_slot (p ! 0) = Some 6"
      by (auto simp: cryptobyte_Builder.nst13_marshal_enc [OF assms(1)] handshake_slot_def handshake_types elim!: hs_msgE)
    obtain c1 e where "writeRecordLocked K (rs_conn st) recordTypeHandshake p = (c1, 0, Fail e)"
      by (rule write_no_room [OF assms(2) p assms(4)])
    then show ?thesis
      using Ret assms(3) by (simp add: writeHandshakeRecord_def collect_def)
  qed (simp_all add: writeHandshakeRecord_def)
  have no_record: "writeHandshakeRecord B K (rs_conn st) (NewSessionTicketTLS13 m) None \<noteq> (c1, t1, n1, Ret ())" for m c1 t1 n1
    using written [of m] by auto
  have ticket: "snd (sendSessionTicket B H K E secret early extra st') \<noteq> Ret ()"
    if "rs_conn st' = rs_conn st" for secret early extra st'
    using that no_record unfolding sendSessionTicket_def compute_def
    by (auto split: option.splits prod.splits simp: Let_def elim!: and_then_Ret dest!: session_label_same)
  have no_ticket: "sendSessionTicket B H K E secret early extra (st\<lparr>rs_transcript := t\<rparr>) \<noteq> (st', Ret ())"
    for secret early extra t st'
    using ticket [of "st\<lparr>rs_transcript := t\<rparr>" secret early extra] by auto
  then show ?thesis
    using assms(5) unfolding sendSessionTickets_def compute_def by (auto simp: Let_def elim!: and_then_Ret)
qed

end
