(* ===== verification/RealityFlight.thy ===== *)
theory RealityFlight
  imports RealityHandshake
begin

text \<open>
  The flight of a REALITY server: its records have the lengths that were recorded from the target, and a
  client that computed the same shared secret reads the messages in them.
\<close>

section \<open>Writing one record into the buffer\<close>

lemma encrypt_keeps:
  assumes "encrypt K hc record p rand = (hc', Ret out)"
  shows "trafficSecret hc' = trafficSecret hc" "handshakeBuf hc' = handshakeBuf hc" "hc_err hc' = hc_err hc"
  using assms
  by (auto simp: encrypt_def encrypt_cipher_def encrypt_aead13_def then_incSeq_def incSeq_def Let_def
      split: if_splits exec.splits hc_cipher.splits option.splits prod.splits)

lemma write_buffered:
  assumes "buffering c" "c_vers c = VersionTLS13" "ty \<noteq> recordTypeApplicationData" "p \<noteq> []" "length p \<le> maxPlaintext"
    and "encrypt K (c_out c) (record_header ty VersionTLS12 (length p)) p (c_rand c (c_draws c)) = (h, Ret out)"
  shows "writeRecordLocked K c ty p =
     (c\<lparr>c_out := h, c_draws := c_draws c + 1, sendBuf := sendBuf c @ out\<rparr>, length p, Ret ())"
proof -
  have "wire_vers VersionTLS13 = VersionTLS12"
    by (simp add: wire_vers_def version_ids)
  then have "write_one K c ty p =
      (c\<lparr>c_out := h, c_draws := c_draws c + 1, sendBuf := sendBuf c @ out\<rparr>, Ret (length p))"
    using assms by (simp add: write_one_def maxPayloadSizeForWrite_def Let_def conn_write_def)
  then show ?thesis
    using assms(2,4) by (simp add: writeRecordLocked_def write_loop.simps [of K ty _ p] write_loop.simps [of K ty _ "[]"])
qed

text \<open>The connection \<open>c\<close> is \<open>c0\<close> with records in the buffer; \<open>r\<close> reads what comes next.\<close>

definition sending where
  "sending c0 secret n r lens mode buf c \<longleftrightarrow>
     (\<exists>h d. c = c0\<lparr>c_out := h, c_draws := d, sendBuf := buf\<rparr> \<and> aead_sync lib_ops gcm_pair n h r \<and>
        version h = VersionTLS13 \<and> handshakeLen h = lens \<and> handshakeBuf h = mode \<and> trafficSecret h = secret \<and>
        hc_err h = None)"

definition sender :: "('s, 'a, 'c, 'm) conn \<Rightarrow> bool" where
  "sender c \<longleftrightarrow> buffering c \<and> c_vers c = VersionTLS13"

text \<open>What fits into the slot \<open>i\<close>.\<close>

definition fits_slot :: "nat list \<Rightarrow> nat \<Rightarrow> bytes \<Rightarrow> bool" where
  "fits_slot lens i p \<longleftrightarrow>
     p \<noteq> [] \<and> handshake_slot (p ! 0) = Some i \<and> recordHeaderLen + length p + 1 + gcmTagSize \<le> lens ! i \<and> lens ! i \<le> empty_size"

lemma fits_slot_short: "fits_slot lens i p \<Longrightarrow> length p \<le> maxPlaintext"
  by (simp add: fits_slot_def empty_size_def maxPlaintext_def)

lemma sending_record:
  assumes c: "sending c0 secret n r lens mode buf c" "sender c0" and n: "n < 2 ^ 64 - 1"
    and p: "shapeable p" "fits_slot lens i p" "lens ! 1 \<noteq> 0"
  obtains c' out r' where "writeRecordLocked lib_ops c recordTypeHandshake p = (c', length p, Ret ())"
    "sending c0 secret (n + 1) r' (lens[i := 0]) mode (buf @ out) c'" "length out = lens ! i"
    "decrypt lib_ops r out = (r', Ret (shaped_content p))"
proof -
  obtain h d where h: "c = c0\<lparr>c_out := h, c_draws := d, sendBuf := buf\<rparr>" "aead_sync lib_ops gcm_pair n h r"
    "version h = VersionTLS13" "handshakeLen h = lens" "handshakeBuf h = mode" "trafficSecret h = secret" "hc_err h = None"
    using c(1) by (auto simp: sending_def)
  obtain h' r' out where e: "encrypt lib_ops h (record_header recordTypeHandshake VersionTLS12 (length p)) p (c_rand c0 d) = (h', Ret out)"
    "length out = lens ! i" "handshakeLen h' = lens[i := 0]" "decrypt lib_ops r out = (r', Ret (shaped_content p))"
    "aead_sync lib_ops gcm_pair (n + 1) h' r'" "version h' = VersionTLS13"
    using shaped_record [OF h(2) n h(3), of p i VersionTLS12 "c_rand c0 d"] p by (auto simp: fits_slot_def h(4))
  have "writeRecordLocked lib_ops c recordTypeHandshake p =
      (c\<lparr>c_out := h', c_draws := d + 1, sendBuf := buf @ out\<rparr>, length p, Ret ())"
    using write_buffered [of c recordTypeHandshake p lib_ops h' out] c(2) p(1,2) e(1) fits_slot_short [OF p(2)]
    by (simp add: h(1) sender_def record_types shapeable_def)
  moreover have "sending c0 secret (n + 1) r' (lens[i := 0]) mode (buf @ out) (c\<lparr>c_out := h', c_draws := d + 1, sendBuf := buf @ out\<rparr>)"
    using e(3,5,6) encrypt_keeps [OF e(1)] h(5-7) unfolding sending_def
    by (intro exI [of _ h'] exI [of _ "d + 1"]) (simp add: h(1))
  ultimately show thesis
    using that e(2,4) by blast
qed

section \<open>Writing one message\<close>

lemma sending_mode: "sending c0 secret n r lens mode buf c \<Longrightarrow> handshakeBuf (c_out c) = mode"
  by (auto simp: sending_def)

lemma sending_secret: "sending c0 secret n r lens mode buf c \<Longrightarrow> trafficSecret (c_out c) = secret"
  by (auto simp: sending_def)

lemma sending_set_mode:
  assumes "sending c0 secret n r lens mode buf c"
  shows "sending c0 secret n r lens mode' buf (c\<lparr>c_out := (c_out c)\<lparr>handshakeBuf := mode'\<rparr>\<rparr>)"
proof -
  obtain h d where h: "c = c0\<lparr>c_out := h, c_draws := d, sendBuf := buf\<rparr>" "aead_sync lib_ops gcm_pair n h r"
    "version h = VersionTLS13" "handshakeLen h = lens" "trafficSecret h = secret" "hc_err h = None"
    using assms by (auto simp: sending_def)
  then show ?thesis
    unfolding sending_def
    by (intro exI [of _ "h\<lparr>handshakeBuf := mode'\<rparr>"] exI [of _ d]) (simp add: aead_sync_def)
qed

lemma c_out_same [simp]: "(c :: ('s, 'a, 'c, 'm) conn)\<lparr>c_out := c_out c\<rparr> = c"
  by simp

text \<open>When nothing is collected, a message is a record.\<close>

lemma hs_write_record:
  assumes st: "sending c0 secret n r lens None buf (rs_conn st)" "sender c0" "n < 2 ^ 64 - 1"
    and p: "hm_marshal B msg = Ret p" "fits_slot lens i p" "lens ! 1 \<noteq> 0" "p ! 0 \<noteq> typeNewSessionTicket"
  obtains st' out r' where "hs_write B lib_ops st msg = (st', Ret ())"
    "rs_transcript st' = d_write (rs_transcript st) p"
    "sending c0 secret (n + 1) r' (lens[i := 0]) None (buf @ out) (rs_conn st')" "length out = lens ! i"
    "decrypt lib_ops r out = (r', Ret (p, recordTypeHandshake))"
proof -
  have shape: "shapeable p" "shaped_content p = (p, recordTypeHandshake)"
    using p(2,4) by (auto simp: shapeable_def fits_slot_def shaped_content_def)
  obtain c' out r' where w: "writeRecordLocked lib_ops (rs_conn st) recordTypeHandshake p = (c', length p, Ret ())"
    "sending c0 secret (n + 1) r' (lens[i := 0]) None (buf @ out) c'" "length out = lens ! i"
    "decrypt lib_ops r out = (r', Ret (p, recordTypeHandshake))"
    using sending_record [OF st shape(1) p(2,3)] shape(2) by metis
  have "collect (c_out (rs_conn st)) p = (c_out (rs_conn st), Some p)"
    by (simp add: collect_def sending_mode [OF st(1)])
  then have "hs_write B lib_ops st msg = (\<lparr>rs_conn = c', rs_transcript = d_write (rs_transcript st) p\<rparr>, Ret ())"
    using w(1) by (simp add: hs_write_def writeHandshakeRecord_def p(1) transcript_Write_def)
  with that w show thesis
    by simp
qed

text \<open>When messages are collected, only Finished makes a record, of all of them.\<close>

lemma hs_write_collected:
  assumes st: "sending c0 secret n r lens (Some b) buf (rs_conn st)" "sender c0"
    and p: "hm_marshal B msg = Ret p" "p \<noteq> []" "p ! 0 \<noteq> typeServerHello" "p ! 0 \<noteq> typeFinished"
  obtains st' where "hs_write B lib_ops st msg = (st', Ret ())" "rs_transcript st' = d_write (rs_transcript st) p"
    "sending c0 secret n r lens (Some (b @ p)) buf (rs_conn st')"
proof -
  let ?c = "(rs_conn st)\<lparr>c_out := (c_out (rs_conn st))\<lparr>handshakeBuf := Some (b @ p)\<rparr>\<rparr>"
  have "collect (c_out (rs_conn st)) p = ((c_out (rs_conn st))\<lparr>handshakeBuf := Some (b @ p)\<rparr>, None)"
    using p(2-4) by (simp add: collect_def sending_mode [OF st(1)])
  then have "hs_write B lib_ops st msg = (\<lparr>rs_conn = ?c, rs_transcript = d_write (rs_transcript st) p\<rparr>, Ret ())"
    by (simp add: hs_write_def writeHandshakeRecord_def p(1) transcript_Write_def)
  moreover have "sending c0 secret n r lens (Some (b @ p)) buf ?c"
    by (rule sending_set_mode [OF st(1)])
  ultimately show thesis
    using that by simp
qed

lemma hs_write_collected_end:
  assumes st: "sending c0 secret n r lens (Some b) buf (rs_conn st)" "sender c0" "n < 2 ^ 64 - 1"
    and p: "hm_marshal B msg = Ret p" "p \<noteq> []" "p ! 0 = typeFinished"
    and all: "fits_slot lens i (b @ p)" "lens ! 1 \<noteq> 0" "(b @ p) ! 0 \<noteq> typeNewSessionTicket"
  obtains st' out r' where "hs_write B lib_ops st msg = (st', Ret ())"
    "rs_transcript st' = d_write (rs_transcript st) p"
    "sending c0 secret (n + 1) r' (lens[i := 0]) None (buf @ out) (rs_conn st')" "length out = lens ! i"
    "decrypt lib_ops r out = (r', Ret (b @ p, recordTypeHandshake))"
proof -
  let ?c = "(rs_conn st)\<lparr>c_out := (c_out (rs_conn st))\<lparr>handshakeBuf := None\<rparr>\<rparr>"
  have shape: "shapeable (b @ p)" "shaped_content (b @ p) = (b @ p, recordTypeHandshake)"
    using all(1,3) by (auto simp: shapeable_def fits_slot_def shaped_content_def)
  have "sending c0 secret n r lens None buf ?c"
    by (rule sending_set_mode [OF st(1)])
  from sending_record [OF this st(2,3) shape(1) all(1,2)] shape(2)
  obtain c' out r' where w: "writeRecordLocked lib_ops ?c recordTypeHandshake (b @ p) = (c', length (b @ p), Ret ())"
    "sending c0 secret (n + 1) r' (lens[i := 0]) None (buf @ out) c'" "length out = lens ! i"
    "decrypt lib_ops r out = (r', Ret (b @ p, recordTypeHandshake))"
    by metis
  have "collect (c_out (rs_conn st)) p = ((c_out (rs_conn st))\<lparr>handshakeBuf := None\<rparr>, Some (b @ p))"
    using p(2,3) by (simp add: collect_def sending_mode [OF st(1)] handshake_types)
  then have "hs_write B lib_ops st msg = (\<lparr>rs_conn = c', rs_transcript = d_write (rs_transcript st) p\<rparr>, Ret ())"
    using w(1) by (simp add: hs_write_def writeHandshakeRecord_def p(1) transcript_Write_def)
  with that w show thesis
    by simp
qed

section \<open>The keys\<close>

text \<open>The connection after \<open>readClientHello\<close> and the recording of the target's flight.\<close>

definition fresh_server :: "nat list \<Rightarrow> bytes option \<Rightarrow> ('s, 'a, 'c, 'm) conn \<Rightarrow> bool" where
  "fresh_server lens mode c \<longleftrightarrow>
     c_vers c = VersionTLS13 \<and> hc_cipher (c_out c) = NilCipher \<and> tls13_half (c_out c) \<and> tls13_half (c_in c) \<and>
     handshakeLen (c_out c) = lens \<and> handshakeBuf (c_out c) = mode \<and> hc_err (c_out c) = None \<and> sendBuf c = [] \<and>
     net_wr c = [] \<and> \<not> write_expired c"

text \<open>What the server writes without encryption: ServerHello and ChangeCipherSpec.\<close>

definition plain_flight :: "bytes \<Rightarrow> bytes" where
  "plain_flight sh = record_header recordTypeHandshake VersionTLS12 (length sh) @ sh @
     record_header recordTypeChangeCipherSpec VersionTLS12 1 @ [1]"

lemma plain_write:
  assumes "buffering c" "c_vers c = VersionTLS13" "ty \<noteq> recordTypeApplicationData" "p \<noteq> []" "length p \<le> maxPlaintext"
    and "hc_cipher (c_out c) = NilCipher"
  shows "writeRecordLocked K c ty p =
     (c\<lparr>c_draws := c_draws c + 1, sendBuf := sendBuf c @ record_header ty VersionTLS12 (length p) @ p\<rparr>, length p, Ret ())"
  using write_buffered [OF assms(1-5), of K "c_out c"] assms(6) by (simp add: encrypt_def)

text \<open>How a client that has the shared secret reads: the keys for the server's handshake messages, and
  for its application data.\<close>

definition handshake_secret :: "hash_fn \<Rightarrow> bytes option \<Rightarrow> HandshakeSecret exec" where
  "handshake_secret h shared = exec_bind (NewEarlySecret h None) (\<lambda>es. es_HandshakeSecret es shared)"

definition server_secret :: "hash_fn \<Rightarrow> bytes option \<Rightarrow> digest \<Rightarrow> bytes exec" where
  "server_secret h shared t = exec_bind (handshake_secret h shared) (\<lambda>hs. ServerHandshakeTrafficSecret hs t)"

definition client_secret :: "hash_fn \<Rightarrow> bytes option \<Rightarrow> digest \<Rightarrow> bytes exec" where
  "client_secret h shared t = exec_bind (handshake_secret h shared) (\<lambda>hs. ClientHandshakeTrafficSecret hs t)"

definition client_application_secret :: "hash_fn \<Rightarrow> bytes option \<Rightarrow> digest \<Rightarrow> bytes exec" where
  "client_application_secret h shared t =
     exec_bind (handshake_secret h shared) (\<lambda>hs.
     exec_bind (hs_MasterSecret hs) (\<lambda>ms. ClientApplicationTrafficSecret ms t))"

definition handshake_reader where
  "handshake_reader H cs h shared t r0 =
     exec_bind (server_secret h shared t)
       (setTrafficSecret H (im_aead (lib_impl H) (cs13_aead cs)) r0 cs QUICEncryptionLevelHandshake)"

definition application_reader where
  "application_reader H cs h shared t r0 =
     exec_bind (handshake_secret h shared) (\<lambda>hs.
     exec_bind (hs_MasterSecret hs) (\<lambda>ms.
     exec_bind (ServerApplicationTrafficSecret ms t) (\<lambda>secret.
     setTrafficSecret H (im_aead (lib_impl H) (cs13_aead cs)) r0 cs QUICEncryptionLevelApplication secret)))"

definition quiet :: "hs_env \<Rightarrow> bool" where
  "quiet E \<longleftrightarrow> he_keyLog E = (\<lambda>_ _ _. None)"

lemma keyLog_quiet [simp]: "quiet E \<Longrightarrow> hs_keyLog K E ch st label secret = (st, Ret ())"
  by (simp add: quiet_def hs_keyLog_def)

lemma suite_hash_wf:
  assumes "wf_hashes H" "cs \<in> set cipherSuitesTLS13" "suite_hash H cs = Ret h"
  shows "wf_hash h"
  using assms by (auto simp: cipherSuitesTLS13_def suite_hash_def wf_hashes_def)

lemma setTrafficSecret_fields:
  assumes "setTrafficSecret H f hc cs lvl secret = Ret hc'"
  shows "trafficSecret hc' = secret" "handshakeBuf hc' = handshakeBuf hc" "hc_err hc' = hc_err hc"
    "version hc' = version hc" "mac hc' = mac hc" "handshakeLen hc' = handshakeLen hc"
  using assms by (auto simp: setTrafficSecret_def exec_simps)

lemma setTrafficSecret_total:
  assumes "wf_hashes H" "cs \<in> set cipherSuitesTLS13" "cs13_aead cs = AeadAESGCMTLS13"
  shows "\<exists>hc'. setTrafficSecret H (im_aead (lib_impl H) (cs13_aead cs)) hc cs lvl secret = Ret hc'"
  using trafficKey_total [OF assms(1,2), of secret] assms(3) by (auto simp: setTrafficSecret_def lib_impl_def)

lemma finishedHash_total:
  assumes "wf_hashes H" "cs \<in> set cipherSuitesTLS13" "suite_hash H cs = Ret h"
  obtains vd where "ks_finishedHash H cs key t = Ret vd" "length vd = h_size h"
proof -
  have h: "wf_hash h"
    by (rule suite_hash_wf [OF assms])
  obtain k where "ExpandLabel h key ''finished'' [] (h_size h) = Ret k"
    using ExpandLabel_length [OF h, of "h_size h" "''finished''" "[]" key] h by (auto simp: wf_hash_def)
  then show thesis
    using that [of "hmac h k (d_sum t)"] h assms(3) by (simp add: ks_finishedHash_def)
qed

lemma transcriptMsg_hash: "transcriptMsg B d_write msg t = Ret t' \<Longrightarrow> d_hash t' = d_hash t"
  by (auto simp: transcriptMsg_def d_write_def exec_simps split: option.splits)

text \<open>ServerHello, ChangeCipherSpec and the change of keys: what is left is the first encrypted message.\<close>

lemma server_parameters:
  assumes H: "wf_hashes H" "cs \<in> set cipherSuitesTLS13" "cs13_aead cs = AeadAESGCMTLS13" "suite_hash H cs = Ret h"
    and c: "fresh_server lens mode c" "buffering c" and E: "quiet E" and t: "d_hash t = h"
      "transcriptMsg B d_write (ClientHello ch) t = Ret t0"
    and sh: "sh_marshal B hello = Ret sh" "sh \<noteq> []" "sh ! 0 = typeServerHello" "length sh \<le> maxPlaintext"
    and r0: "tls13_half r0"
  obtains hs secret r hin client_secret st1 d where "handshake_secret h shared = Ret hs"
    "sendServerParameters B H (lib_impl H) lib_ops E ch hello cs shared \<lparr>rs_conn = c, rs_transcript = t\<rparr> =
       and_then (hs_write B lib_ops st1 (EncryptedExtensions (ee_zero\<lparr>ee_alpnProtocol := he_clientProtocol E\<rparr>)))
         (\<lambda>st _. (st, Ret hs))"
    "rs_transcript st1 = d_write t0 sh" "handshake_reader H cs h shared (d_write t0 sh) r0 = Ret r"
    "ClientHandshakeTrafficSecret hs (d_write t0 sh) = Ret client_secret"
    "setTrafficSecret H (im_aead (lib_impl H) (cs13_aead cs)) (c_in c) cs QUICEncryptionLevelHandshake client_secret = Ret hin"
    "sending (c\<lparr>c_in := hin, c_draws := d\<rparr>) secret 0 r lens mode (plain_flight sh) (rs_conn st1)"
    "server_secret h shared (d_write t0 sh) = Ret secret"
proof -
  let ?t = "d_write t0 sh"
  have ht: "d_hash ?t = h"
    using t transcriptMsg_hash [OF t(2)] by (simp add: d_write_def)
  obtain es hs a b where ks: "NewEarlySecret h None = Ret es" "es_HandshakeSecret es shared = Ret hs"
    "ClientHandshakeTrafficSecret hs ?t = Ret a" "ServerHandshakeTrafficSecret hs ?t = Ret b"
    using key_schedule_total [OF suite_hash_wf [OF H(1,2,4)] ht, of None shared] by auto
  note f = c(1) [unfolded fresh_server_def]
  obtain w r where wr: "setTrafficSecret H (im_aead (lib_impl H) (cs13_aead cs)) (c_out c) cs QUICEncryptionLevelHandshake b = Ret w"
    "setTrafficSecret H (im_aead (lib_impl H) (cs13_aead cs)) r0 cs QUICEncryptionLevelHandshake b = Ret r"
    "aead_sync lib_ops gcm_pair 0 w r"
    using traffic_sync [OF H(1-3) _ r0] f by metis
  obtain hin where hin: "setTrafficSecret H (im_aead (lib_impl H) (cs13_aead cs)) (c_in c) cs QUICEncryptionLevelHandshake a = Ret hin"
    using traffic_sync [OF H(1-3) _ r0] f by metis
  note w = setTrafficSecret_fields [OF wr(1)]
  let ?c1 = "c\<lparr>c_draws := Suc (c_draws c), sendBuf := record_header recordTypeHandshake VersionTLS12 (length sh) @ sh\<rparr>"
  let ?c2 = "c\<lparr>c_draws := Suc (Suc (c_draws c)), sendBuf := plain_flight sh\<rparr>"
  have "collect (c_out c) sh = (c_out c, Some sh)"
    using sh(3) by (simp add: collect_def handshake_types split: option.split)
  moreover have "writeRecordLocked lib_ops c recordTypeHandshake sh = (?c1, length sh, Ret ())"
    using plain_write [of c recordTypeHandshake sh lib_ops] c(2) f sh(2,4) by (simp add: record_types)
  ultimately have hello: "hs_write B lib_ops \<lparr>rs_conn = c, rs_transcript = t0\<rparr> (ServerHello hello) =
      (\<lparr>rs_conn = ?c1, rs_transcript = ?t\<rparr>, Ret ())"
    using sh(1) by (simp add: hs_write_def writeHandshakeRecord_def transcript_Write_def)
  have "writeRecordLocked lib_ops ?c1 recordTypeChangeCipherSpec [1] = (?c2, 1, Ret ())"
    using plain_write [of ?c1 recordTypeChangeCipherSpec "[1]" lib_ops] c(2) f
    by (simp add: record_types plain_flight_def maxPlaintext_def)
  then have ccs: "writeChangeCipherRecord lib_ops ?c1 = (?c2, Ret ())"
    by (simp add: writeChangeCipherRecord_def)
  let ?st1 = "\<lparr>rs_conn = ?c2\<lparr>c_in := hin, c_out := w\<rparr>, rs_transcript = ?t\<rparr>"
  have "sendServerParameters B H (lib_impl H) lib_ops E ch hello cs shared \<lparr>rs_conn = c, rs_transcript = t\<rparr> =
      and_then (hs_write B lib_ops ?st1 (EncryptedExtensions (ee_zero\<lparr>ee_alpnProtocol := he_clientProtocol E\<rparr>)))
        (\<lambda>st _. (st, Ret hs))"
    using E by (simp add: sendServerParameters_def compute_def change_def t(2) hello ccs H(4) ks set_in_def set_out_def
        hin wr(1))
  moreover have "sending (c\<lparr>c_in := hin, c_draws := 0\<rparr>) b 0 r lens mode (plain_flight sh) (rs_conn ?st1)"
    using wr(3) w f unfolding sending_def
    by (intro exI [of _ w] exI [of _ "Suc (Suc (c_draws c))"]) (simp add: tls13_half_def)
  ultimately show thesis
    using ks wr(2) hin
    by (intro that [of hs ?st1 r a hin 0 b]) (simp_all add: handshake_secret_def handshake_reader_def server_secret_def)
qed

text \<open>The certificate and its signature.\<close>

definition signs where
  "signs H D sig t \<longleftrightarrow>
     exec_bind (signedMessage H directSigning serverSignatureContext t) (id_Sign D) = Ret sig"

lemma server_certificate:
  assumes "\<not> he_requestCert E" "\<And>m. \<exists>sig. id_Sign D m = Ret sig \<and> length sig = 64"
  obtains sign where "\<And>t. signs H D (sign t) t" "\<And>t. length (sign t) = 64"
    "\<And>st. sendServerCertificate B H K D E cert st =
       and_then (hs_write B K st (CertificateTLS13 (reality_certMsg cert))) (\<lambda>st _.
         hs_write B K st (CertificateVerify \<lparr>cv_hasSignatureAlgorithm = True, cv_signatureAlgorithm = Ed25519,
           cv_signature = sign (rs_transcript st)\<rparr>))"
proof -
  define content where "content t = signaturePadding @ serverSignatureContext @ d_sum t" for t
  define sign where "sign t = (case id_Sign D (content t) of Ret sig \<Rightarrow> sig | _ \<Rightarrow> [])" for t
  have sign: "id_Sign D (content t) = Ret (sign t)" "length (sign t) = 64" for t
    using assms(2) [of "content t"] by (auto simp: sign_def)
  have "typeAndHashFromSignatureScheme Ed25519 = Ret (signatureEd25519, directSigning)"
    by (simp add: typeAndHashFromSignatureScheme_def sig_type_def sig_hash_def signature_ids)
  then have "sendServerCertificate B H K D E cert st =
       and_then (hs_write B K st (CertificateTLS13 (reality_certMsg cert))) (\<lambda>st _.
         hs_write B K st (CertificateVerify \<lparr>cv_hasSignatureAlgorithm = True, cv_signatureAlgorithm = Ed25519,
           cv_signature = sign (rs_transcript st)\<rparr>))" for st
    using assms(1) sign(1) by (simp add: sendServerCertificate_def signedMessage_def compute_def content_def)
  moreover have "signs H D (sign t) t" for t
    using sign(1) [of t] by (simp add: signs_def signedMessage_def content_def)
  ultimately show thesis
    using sign(2) that by blast
qed

lemma master_secrets:
  assumes h: "wf_hash h" and hs: "handshake_secret h shared = Ret hs"
  obtains ms where "hs_MasterSecret hs = Ret ms"
    "\<And>t. d_hash t = h \<Longrightarrow> \<exists>a. ClientApplicationTrafficSecret ms t = Ret a"
    "\<And>t. d_hash t = h \<Longrightarrow> \<exists>b. ServerApplicationTrafficSecret ms t = Ret b"
    "\<And>t. d_hash t = h \<Longrightarrow> \<exists>e. ResumptionMasterSecret ms t = Ret e"
    "\<And>t. d_hash t = h \<Longrightarrow> \<exists>x. exportKeyingMaterial ms t = Ret x"
proof -
  obtain es where es: "NewEarlySecret h None = Ret es" "es_HandshakeSecret es shared = Ret hs"
    using hs by (auto simp: handshake_secret_def exec_simps)
  obtain ms where ms: "hs_MasterSecret hs = Ret ms"
    using key_schedule_total [OF h, of "d_new h" None shared] es by (auto simp: d_new_def)
  have secrets: "(\<exists>a. ClientApplicationTrafficSecret ms t = Ret a) \<and> (\<exists>b. ServerApplicationTrafficSecret ms t = Ret b) \<and>
      (\<exists>e. ResumptionMasterSecret ms t = Ret e)" if "d_hash t = h" for t
    using key_schedule_total [OF h that, of None shared] es ms by auto
  have "ms_hash ms = h"
    using ms es by (auto simp: hs_MasterSecret_def es_HandshakeSecret_def NewEarlySecret_def exec_simps)
  then have "\<exists>x. exportKeyingMaterial ms t = Ret x" if "d_hash t = h" for t
    using deriveSecret_length [OF h, of exporterLabel "Some t" "ms_secret ms"] that
    by (auto simp: exportKeyingMaterial_def ms_ExporterMasterSecret_def exec_simps exporterLabel_def)
  with ms secrets that show thesis
    by blast
qed

text \<open>After the Finished message: the keys for application data.\<close>

lemma server_finished:
  assumes H: "wf_hashes H" "cs \<in> set cipherSuitesTLS13" "cs13_aead cs = AeadAESGCMTLS13" "suite_hash H cs = Ret h"
    and E: "quiet E" "\<not> he_requestCert E" "\<not> shouldSendSessionTickets E ch"
    and hs: "handshake_secret h shared = Ret hs"
    and B: "\<And>vd. length vd = h_size h \<Longrightarrow> \<exists>bs. fin_marshal B \<lparr>fin_verifyData = vd\<rparr> = Ret bs" and r0: "tls13_half r0"
    and vd: "ks_finishedHash H cs (trafficSecret (c_out (rs_conn st))) (rs_transcript st) = Ret vd"
    and st1: "hs_write B lib_ops st (Finished \<lparr>fin_verifyData = vd\<rparr>) = (st1, Ret ())"
      "sending c0 secret n r lens None buf (rs_conn st1)" "d_hash (rs_transcript st1) = h"
  obtains st2 hdone ra secret' ms where
    "sendServerFinished B H (lib_impl H) lib_ops E ch cs hs st = (st2, Ret hdone)"
    "application_reader H cs h shared (rs_transcript st1) r0 = Ret ra"
    "sending c0 secret' 0 ra lens None buf (rs_conn st2)" "hs_MasterSecret hs = Ret ms"
    "ClientApplicationTrafficSecret ms (rs_transcript st1) = Ret (hd_trafficSecret hdone)"
    "ks_finishedHash H cs (trafficSecret (c_in c0)) (rs_transcript st1) = Ret (hd_clientFinished hdone)"
proof -
  define t where "t = rs_transcript st1"
  have t1: "rs_transcript st1 = t" "d_hash t = h"
    using st1(3) by (simp_all add: t_def)
  have h: "wf_hash h"
    by (rule suite_hash_wf [OF H(1,2,4)])
  obtain ms a b ekm where ks: "hs_MasterSecret hs = Ret ms" "ClientApplicationTrafficSecret ms t = Ret a"
    "ServerApplicationTrafficSecret ms t = Ret b" and ekm: "exportKeyingMaterial ms t = Ret ekm"
    and resumption: "\<And>t'. d_hash t' = h \<Longrightarrow> \<exists>e. ResumptionMasterSecret ms t' = Ret e"
    using master_secrets [OF h hs] t1(2) by metis
  obtain g d where g: "rs_conn st1 = c0\<lparr>c_out := g, c_draws := d, sendBuf := buf\<rparr>" "version g = VersionTLS13"
    "mac g = None" "handshakeLen g = lens" "handshakeBuf g = None" "hc_err g = None"
    using st1(2) by (auto simp: sending_def aead_sync_def)
  have st1_eq: "st1 = \<lparr>rs_conn = c0\<lparr>c_out := g, c_draws := d, sendBuf := buf\<rparr>, rs_transcript = t\<rparr>"
    using g(1) by (cases st1) (simp add: t_def)
  obtain w ra where wr: "setTrafficSecret H (im_aead (lib_impl H) (cs13_aead cs)) g cs QUICEncryptionLevelApplication b = Ret w"
    "setTrafficSecret H (im_aead (lib_impl H) (cs13_aead cs)) r0 cs QUICEncryptionLevelApplication b = Ret ra"
    "aead_sync lib_ops gcm_pair 0 w ra"
    using traffic_sync [OF H(1-3) _ r0] g(2,3) by (metis tls13_half_def)
  note w = setTrafficSecret_fields [OF wr(1)]
  obtain cf where cf: "ks_finishedHash H cs (trafficSecret (c_in c0)) t = Ret cf" "length cf = h_size h"
    by (rule finishedHash_total [OF H(1,2,4)])
  obtain fb where fb: "fin_marshal B \<lparr>fin_verifyData = cf\<rparr> = Ret fb"
    using B [OF cf(2)] by blast
  obtain e where e: "ResumptionMasterSecret ms (d_write t fb) = Ret e"
    using resumption [of "d_write t fb"] t1(2) by (auto simp: d_write_def)
  let ?c2 = "c0\<lparr>c_out := w, c_draws := d, sendBuf := buf\<rparr>"
  have "sendServerFinished B H (lib_impl H) lib_ops E ch cs hs st =
      (\<lparr>rs_conn = ?c2, rs_transcript = d_write t fb\<rparr>,
       Ret \<lparr>hd_trafficSecret = a, hd_ekm = ekm, hd_clientFinished = cf, hd_resumptionSecret = e\<rparr>)"
    using E unfolding st1_eq
    by (simp add: sendServerFinished_def compute_def change_def vd st1(1) [unfolded st1_eq] ks set_out_def wr(1) ekm
        sendSessionTickets_def cf(1) transcriptMsg_def fb e)
  moreover have "sending c0 b 0 ra lens None buf ?c2"
    using wr(3) w g unfolding sending_def by (intro exI [of _ w] exI [of _ d]) simp
  moreover have "application_reader H cs h shared t r0 = Ret ra"
    by (simp add: application_reader_def hs ks(1,3) wr(2))
  ultimately show thesis
    using ks(1,2) cf(1)
    by (intro that [of "\<lparr>rs_conn = ?c2, rs_transcript = d_write t fb\<rparr>" "\<lparr>hd_trafficSecret = a, hd_ekm = ekm,
          hd_clientFinished = cf, hd_resumptionSecret = e\<rparr>" ra b ms]) (simp_all add: t1)
qed

section \<open>The messages\<close>

lemma hs_msg_first: "hs_msg t b = Some bs \<Longrightarrow> bs \<noteq> [] \<and> bs ! 0 = t"
  by (auto elim!: hs_msgE)

context cryptobyte_Builder
begin

lemma message_types:
  "ee_marshal B ee = Ret bs \<Longrightarrow> bs \<noteq> [] \<and> bs ! 0 = typeEncryptedExtensions"
  "c13_marshal B c13 = Ret bs \<Longrightarrow> bs \<noteq> [] \<and> bs ! 0 = typeCertificate"
  "cv_marshal B cv = Ret bs \<Longrightarrow> bs \<noteq> [] \<and> bs ! 0 = typeCertificateVerify"
  "fin_marshal B fin = Ret bs \<Longrightarrow> bs \<noteq> [] \<and> bs ! 0 = typeFinished"
  using hs_msg_first by (simp_all add: ee_marshal_enc c13_marshal_enc cv_marshal_enc fin_marshal_enc)

lemma sh_marshal_first: "sh_marshal B m = Ret bs \<Longrightarrow> bs \<noteq> [] \<and> bs ! 0 = typeServerHello"
  by (auto simp: sh_marshal_enc enc_serverHello_def bind_eq_Some_conv cat_Some_iff simp del: cat.simps(2))

lemma finished_bytes:
  assumes "length vd \<le> 64"
  shows "\<exists>bs. fin_marshal B \<lparr>fin_verifyData = vd\<rparr> = Ret bs \<and> length bs = 4 + length vd"
  using assms unfolding fin_marshal_enc by (simp add: hs_msg_def lp_def)

lemma verify_bytes:
  assumes "length sig = 64"
  shows "\<exists>bs. cv_marshal B \<lparr>cv_hasSignatureAlgorithm = True, cv_signatureAlgorithm = a, cv_signature = sig\<rparr> = Ret bs \<and>
    length bs = 72"
  using assms unfolding cv_marshal_enc by (simp add: hs_msg_def lp_def)

end

text \<open>The four messages, each in its record.\<close>

lemma slots: "handshake_slot typeEncryptedExtensions = Some 2" "handshake_slot typeCertificate = Some 3"
  "handshake_slot typeCertificateVerify = Some 4" "handshake_slot typeFinished = Some 5"
  "handshake_slot typeNewSessionTicket = Some 6"
  by (simp_all add: handshake_slot_def handshake_types)

text \<open>The steps between the keys and the Finished message, and what they leave behind.\<close>

definition flight_steps where
  "flight_steps B H cs h E cert sign secret st1 ste stc stv stf vd eeb cb cv fin \<longleftrightarrow>
     hs_write B lib_ops st1 (EncryptedExtensions (ee_zero\<lparr>ee_alpnProtocol := he_clientProtocol E\<rparr>)) = (ste, Ret ()) \<and>
     hs_write B lib_ops ste (CertificateTLS13 (reality_certMsg cert)) = (stc, Ret ()) \<and>
     cv_marshal B \<lparr>cv_hasSignatureAlgorithm = True, cv_signatureAlgorithm = Ed25519, cv_signature = sign (rs_transcript stc)\<rparr> = Ret cv \<and>
     hs_write B lib_ops stc (CertificateVerify \<lparr>cv_hasSignatureAlgorithm = True, cv_signatureAlgorithm = Ed25519,
       cv_signature = sign (rs_transcript stc)\<rparr>) = (stv, Ret ()) \<and>
     ks_finishedHash H cs (trafficSecret (c_out (rs_conn stv))) (rs_transcript stv) = Ret vd \<and>
     fin_marshal B \<lparr>fin_verifyData = vd\<rparr> = Ret fin \<and>
     hs_write B lib_ops stv (Finished \<lparr>fin_verifyData = vd\<rparr>) = (stf, Ret ()) \<and>
     d_hash (rs_transcript stf) = h \<and> trafficSecret (c_out (rs_conn stv)) = secret \<and>
     rs_transcript stc = d_write (d_write (rs_transcript st1) eeb) cb \<and>
     rs_transcript stv = d_write (rs_transcript stc) cv \<and> rs_transcript stf = d_write (rs_transcript stv) fin"

lemma messages_separate:
  assumes B: "cryptobyte_Builder B" and H: "wf_hashes H" "cs \<in> set cipherSuitesTLS13" "suite_hash H cs = Ret h"
    and st: "sending c0 secret 0 r lens None buf (rs_conn st1)" "sender c0" "d_hash (rs_transcript st1) = h"
    and m: "ee_marshal B (ee_zero\<lparr>ee_alpnProtocol := he_clientProtocol E\<rparr>) = Ret eeb"
      "c13_marshal B (reality_certMsg cert) = Ret cb" "\<And>t. length (sign t) = 64"
    and lens: "length lens = 7" "lens ! 1 \<noteq> 0" "list_all (\<lambda>n. n \<le> empty_size) lens"
      "22 + length eeb \<le> lens ! 2" "22 + length cb \<le> lens ! 3" "94 \<le> lens ! 4" "26 + h_size h \<le> lens ! 5"
  obtains ste stc stv stf vd cv fin recs r' where "flight_steps B H cs h E cert sign secret st1 ste stc stv stf vd eeb cb cv fin"
    "sending c0 secret 4 r' (lens[2 := 0, 3 := 0, 4 := 0, 5 := 0]) None (buf @ concat recs) (rs_conn stf)"
    "map length recs = [lens ! 2, lens ! 3, lens ! 4, lens ! 5]"
    "decrypt_all lib_ops r recs = (r', Ret [(recordTypeHandshake, eeb), (recordTypeHandshake, cb),
       (recordTypeHandshake, cv), (recordTypeHandshake, fin)])"
proof -
  note types = cryptobyte_Builder.message_types [OF B]
  have small: "\<forall>i \<in> {2, 3, 4, 5}. lens ! i \<le> empty_size"
    using lens(1,3) by (auto simp: list_all_length)
  note fits = fits_slot_def recordHeaderLen_def gcmTagSize_def slots
  have few: "0 < (2 :: nat) ^ 64 - 1" "0 + 1 < (2 :: nat) ^ 64 - 1" "0 + 1 + 1 < (2 :: nat) ^ 64 - 1" "0 + 1 + 1 + 1 < (2 :: nat) ^ 64 - 1"
    by simp_all
  have four: "0 + 1 + 1 + 1 + 1 = (4 :: nat)"
    by simp
  let ?ee = "EncryptedExtensions (ee_zero\<lparr>ee_alpnProtocol := he_clientProtocol E\<rparr>)"
  have e0: "hm_marshal B ?ee = Ret eeb" "fits_slot lens 2 eeb" "eeb ! 0 \<noteq> typeNewSessionTicket"
    using types(1) [OF m(1)] m(1) lens(4) small by (simp_all add: fits) (simp add: handshake_types)
  obtain ste o1 r1 where e: "hs_write B lib_ops st1 ?ee = (ste, Ret ())"
    "rs_transcript ste = d_write (rs_transcript st1) eeb" "sending c0 secret (0 + 1) r1 (lens[2 := 0]) None (buf @ o1) (rs_conn ste)"
    "length o1 = lens ! 2" "decrypt lib_ops r o1 = (r1, Ret (eeb, recordTypeHandshake))"
    by (rule hs_write_record [OF st(1,2) few(1) e0(1,2) lens(2) e0(3)])
  have l2: "lens[2 := 0] ! 1 \<noteq> 0" "lens[2 := 0] ! 3 = lens ! 3"
    using lens(1,2) by simp_all
  have c0: "hm_marshal B (CertificateTLS13 (reality_certMsg cert)) = Ret cb" "fits_slot (lens[2 := 0]) 3 cb" "cb ! 0 \<noteq> typeNewSessionTicket"
    using types(2) [OF m(2)] m(2) lens(1,5) small by (simp_all add: fits) (simp add: handshake_types)
  obtain stc o2 r2 where c: "hs_write B lib_ops ste (CertificateTLS13 (reality_certMsg cert)) = (stc, Ret ())"
    "rs_transcript stc = d_write (rs_transcript ste) cb" "sending c0 secret (0 + 1 + 1) r2 (lens[2 := 0, 3 := 0]) None ((buf @ o1) @ o2) (rs_conn stc)"
    "length o2 = lens[2 := 0] ! 3" "decrypt lib_ops r1 o2 = (r2, Ret (cb, recordTypeHandshake))"
    by (rule hs_write_record [OF e(3) st(2) few(2) c0(1,2) l2(1) c0(3)])
  have l3: "lens[2 := 0, 3 := 0] ! 1 \<noteq> 0" "lens[2 := 0, 3 := 0] ! 4 = lens ! 4"
    using lens(1,2) by simp_all
  let ?cv = "\<lparr>cv_hasSignatureAlgorithm = True, cv_signatureAlgorithm = Ed25519, cv_signature = sign (rs_transcript stc)\<rparr>"
  obtain cv where cv: "cv_marshal B ?cv = Ret cv" "length cv = 72"
    using cryptobyte_Builder.verify_bytes [OF B m(3)] by blast
  have v0: "hm_marshal B (CertificateVerify ?cv) = Ret cv" "fits_slot (lens[2 := 0, 3 := 0]) 4 cv" "cv ! 0 \<noteq> typeNewSessionTicket"
    using types(3) [OF cv(1)] cv lens(1,6) small by (simp_all add: fits) (simp add: handshake_types)
  obtain stv o3 r3 where v: "hs_write B lib_ops stc (CertificateVerify ?cv) = (stv, Ret ())"
    "rs_transcript stv = d_write (rs_transcript stc) cv"
    "sending c0 secret (0 + 1 + 1 + 1) r3 (lens[2 := 0, 3 := 0, 4 := 0]) None (((buf @ o1) @ o2) @ o3) (rs_conn stv)"
    "length o3 = lens[2 := 0, 3 := 0] ! 4" "decrypt lib_ops r2 o3 = (r3, Ret (cv, recordTypeHandshake))"
    by (rule hs_write_record [OF c(3) st(2) few(3) v0(1,2) l3(1) v0(3)])
  have l4: "lens[2 := 0, 3 := 0, 4 := 0] ! 1 \<noteq> 0" "lens[2 := 0, 3 := 0, 4 := 0] ! 5 = lens ! 5"
    using lens(1,2) by simp_all
  obtain vd where vd: "ks_finishedHash H cs (trafficSecret (c_out (rs_conn stv))) (rs_transcript stv) = Ret vd" "length vd = h_size h"
    by (rule finishedHash_total [OF H])
  have "h_size h \<le> 64"
    using suite_hash_wf [OF H] by (simp add: wf_hash_def)
  then obtain fin where fin: "fin_marshal B \<lparr>fin_verifyData = vd\<rparr> = Ret fin" "length fin = 4 + h_size h"
    using cryptobyte_Builder.finished_bytes [OF B, of vd] vd(2) by auto
  have f0: "hm_marshal B (Finished \<lparr>fin_verifyData = vd\<rparr>) = Ret fin" "fits_slot (lens[2 := 0, 3 := 0, 4 := 0]) 5 fin"
    "fin ! 0 \<noteq> typeNewSessionTicket"
    using types(4) [OF fin(1)] fin lens(1,7) small by (simp_all add: fits) (simp add: handshake_types)
  obtain stf o4 r4 where f: "hs_write B lib_ops stv (Finished \<lparr>fin_verifyData = vd\<rparr>) = (stf, Ret ())"
    "rs_transcript stf = d_write (rs_transcript stv) fin"
    "sending c0 secret (0 + 1 + 1 + 1 + 1) r4 (lens[2 := 0, 3 := 0, 4 := 0, 5 := 0]) None ((((buf @ o1) @ o2) @ o3) @ o4) (rs_conn stf)"
    "length o4 = lens[2 := 0, 3 := 0, 4 := 0] ! 5" "decrypt lib_ops r3 o4 = (r4, Ret (fin, recordTypeHandshake))"
    by (rule hs_write_record [OF v(3) st(2) few(4) f0(1,2) l4(1) f0(3)])
  have "d_hash (rs_transcript stf) = h"
    using st(3) by (simp add: e(2) c(2) v(2) f(2) d_write_def)
  then have "flight_steps B H cs h E cert sign secret st1 ste stc stv stf vd eeb cb cv fin"
    using e(1) c(1) cv(1) v(1) vd(1) fin(1) f(1) sending_secret [OF v(3)]
    by (simp add: flight_steps_def e(2) c(2) v(2) f(2))
  then show thesis
    using e(4,5) c(4,5) v(4,5) f(3) [unfolded four] f(4,5) l2 l3 l4
    by (intro that [of ste stc stv stf vd cv fin r4 "[o1, o2, o3, o4]"]) simp_all
qed

text \<open>The four messages in one record.\<close>

lemma messages_collected:
  assumes B: "cryptobyte_Builder B" and H: "wf_hashes H" "cs \<in> set cipherSuitesTLS13" "suite_hash H cs = Ret h"
    and st: "sending c0 secret 0 r lens (Some []) buf (rs_conn st1)" "sender c0" "d_hash (rs_transcript st1) = h"
    and m: "ee_marshal B (ee_zero\<lparr>ee_alpnProtocol := he_clientProtocol E\<rparr>) = Ret eeb"
      "c13_marshal B (reality_certMsg cert) = Ret cb" "\<And>t. length (sign t) = 64"
    and lens: "lens ! 1 \<noteq> 0" "lens ! 2 \<le> empty_size" "22 + length eeb + length cb + 72 + (4 + h_size h) \<le> lens ! 2"
  obtains ste stc stv stf vd cv fin out r' where "flight_steps B H cs h E cert sign secret st1 ste stc stv stf vd eeb cb cv fin"
    "sending c0 secret 1 r' (lens[2 := 0]) None (buf @ out) (rs_conn stf)" "length out = lens ! 2"
    "decrypt lib_ops r out = (r', Ret (eeb @ cb @ cv @ fin, recordTypeHandshake))"
proof -
  note types = cryptobyte_Builder.message_types [OF B]
  obtain ste where e: "hs_write B lib_ops st1 (EncryptedExtensions (ee_zero\<lparr>ee_alpnProtocol := he_clientProtocol E\<rparr>)) = (ste, Ret ())"
    "rs_transcript ste = d_write (rs_transcript st1) eeb" "sending c0 secret 0 r lens (Some ([] @ eeb)) buf (rs_conn ste)"
    using hs_write_collected [OF st(1,2), of B "EncryptedExtensions (ee_zero\<lparr>ee_alpnProtocol := he_clientProtocol E\<rparr>)" eeb]
      types(1) [OF m(1)] m(1) by (auto simp: handshake_types)
  obtain stc where c: "hs_write B lib_ops ste (CertificateTLS13 (reality_certMsg cert)) = (stc, Ret ())"
    "rs_transcript stc = d_write (rs_transcript ste) cb" "sending c0 secret 0 r lens (Some (([] @ eeb) @ cb)) buf (rs_conn stc)"
    using hs_write_collected [OF e(3) st(2), of B "CertificateTLS13 (reality_certMsg cert)" cb] types(2) [OF m(2)] m(2)
    by (auto simp: handshake_types)
  let ?cv = "\<lparr>cv_hasSignatureAlgorithm = True, cv_signatureAlgorithm = Ed25519, cv_signature = sign (rs_transcript stc)\<rparr>"
  obtain cv where cv: "cv_marshal B ?cv = Ret cv" "length cv = 72"
    using cryptobyte_Builder.verify_bytes [OF B m(3)] by blast
  obtain stv where v: "hs_write B lib_ops stc (CertificateVerify ?cv) = (stv, Ret ())"
    "rs_transcript stv = d_write (rs_transcript stc) cv" "sending c0 secret 0 r lens (Some ((([] @ eeb) @ cb) @ cv)) buf (rs_conn stv)"
    using hs_write_collected [OF c(3) st(2), of B "CertificateVerify ?cv" cv] types(3) [OF cv(1)] cv(1)
    by (auto simp: handshake_types)
  obtain vd where vd: "ks_finishedHash H cs (trafficSecret (c_out (rs_conn stv))) (rs_transcript stv) = Ret vd" "length vd = h_size h"
    by (rule finishedHash_total [OF H])
  have "h_size h \<le> 64"
    using suite_hash_wf [OF H] by (simp add: wf_hash_def)
  then obtain fin where fin: "fin_marshal B \<lparr>fin_verifyData = vd\<rparr> = Ret fin" "length fin = 4 + h_size h"
    using cryptobyte_Builder.finished_bytes [OF B, of vd] vd(2) by auto
  have first: "(eeb @ xs) ! 0 = typeEncryptedExtensions" for xs
    using types(1) [OF m(1)] by (simp add: nth_append)
  have fits: "fits_slot lens 2 (((([] @ eeb) @ cb) @ cv) @ fin)"
    using types(1) [OF m(1)] first lens(2,3) cv(2) fin(2)
    by (simp add: fits_slot_def recordHeaderLen_def gcmTagSize_def slots)
  have no_ticket: "(((([] @ eeb) @ cb) @ cv) @ fin) ! 0 \<noteq> typeNewSessionTicket"
    using first by (simp add: handshake_types)
  have n: "0 < (2 :: nat) ^ 64 - 1" and one: "0 + 1 = (1 :: nat)"
    by simp_all
  have f0: "hm_marshal B (Finished \<lparr>fin_verifyData = vd\<rparr>) = Ret fin" "fin \<noteq> []" "fin ! 0 = typeFinished"
    using types(4) [OF fin(1)] fin(1) by simp_all
  obtain stf out r' where f: "hs_write B lib_ops stv (Finished \<lparr>fin_verifyData = vd\<rparr>) = (stf, Ret ())"
    "rs_transcript stf = d_write (rs_transcript stv) fin" "sending c0 secret (0 + 1) r' (lens[2 := 0]) None (buf @ out) (rs_conn stf)"
    "length out = lens ! 2" "decrypt lib_ops r out = (r', Ret (((([] @ eeb) @ cb) @ cv) @ fin, recordTypeHandshake))"
    by (rule hs_write_collected_end [OF v(3) st(2) n f0 fits lens(1) no_ticket])
  have "d_hash (rs_transcript stf) = h"
    using st(3) by (simp add: e(2) c(2) v(2) f(2) d_write_def)
  then have "flight_steps B H cs h E cert sign secret st1 ste stc stv stf vd eeb cb cv fin"
    using e(1) c(1) cv(1) v(1) vd(1) fin(1) f(1) sending_secret [OF v(3)]
    by (simp add: flight_steps_def e(2) c(2) v(2) f(2))
  with f(3-5) show thesis
    unfolding one by (intro that [of ste stc stv stf vd cv fin r' out]) simp_all
qed

section \<open>The whole flight\<close>

text \<open>What the handshake is given, and the messages that it determines.\<close>

definition flight_inputs where
  "flight_inputs B H X D E ch hello cs h shared sh cert t0 eeb cb \<longleftrightarrow>
     cipherSuiteTLS13ByID (sh_cipherSuite hello) = Some cs \<and> cs13_aead cs = AeadAESGCMTLS13 \<and> suite_hash H cs = Ret h \<and>
     (\<exists>hello'. key_exchange X ch hello = Ret (hello', shared) \<and> sh_marshal B hello' = Ret sh) \<and> length sh \<le> maxPlaintext \<and>
     reality_cert H D (he_AuthKey E) = Ret cert \<and> transcriptMsg B d_write (ClientHello ch) (d_new h) = Ret t0 \<and>
     ee_marshal B (ee_zero\<lparr>ee_alpnProtocol := he_clientProtocol E\<rparr>) = Ret eeb \<and>
     c13_marshal B (reality_certMsg cert) = Ret cb \<and> (\<forall>m. \<exists>sig. id_Sign D m = Ret sig \<and> length sig = 64) \<and>
     quiet E \<and> \<not> he_requestCert E \<and> \<not> shouldSendSessionTickets E ch"

text \<open>The connection at the end, and how a client reads on: \<open>n\<close> is 1 if a record took the place of a ticket.\<close>

definition flight_end where
  "flight_end H cs h shared tf r0 c c' buf ticket ra n hin \<longleftrightarrow>
     (\<exists>g d k. c' = c\<lparr>c_cipherSuite := cs13_id cs, c_in := hin, c_out := g, c_draws := d, buffering := False, sendBuf := [],
          net_out := net_out c @ buf @ ticket, bytesSent := bytesSent c + k\<rparr> \<and>
        version g = VersionTLS13 \<and> hc_err g = None \<and> aead_sync lib_ops gcm_pair n g ra) \<and>
     (\<exists>ra0. application_reader H cs h shared tf r0 = Ret ra0 \<and>
        (if ticket = [] then n = 0 \<and> ra = ra0
         else n = 1 \<and> decrypt lib_ops ra0 ticket = (ra, Ret ([], recordTypeApplicationData))))"

lemma suite_known: "cipherSuiteTLS13ByID i = Some cs \<Longrightarrow> cs \<in> set cipherSuitesTLS13"
  by (auto simp: cipherSuiteTLS13ByID_def find_Some_iff)

text \<open>The record in place of a ticket, and the flush.\<close>

definition ticket_step where
  "ticket_step K st =
     (if handshakeLen (c_out (rs_conn st)) ! 6 \<noteq> 0
      then let (c, n, r) = writeRecord K (rs_conn st) recordTypeHandshake [typeNewSessionTicket]
           in (st\<lparr>rs_conn := c\<rparr>, r)
      else (st, Ret ()))"

lemma ticket_record:
  assumes st: "sending c0 secret 0 r lens None buf (rs_conn st)" "sender c0"
    and ticket: "lens ! 6 = 0 \<or> lens ! 1 \<noteq> 0 \<and> 23 \<le> lens ! 6 \<and> lens ! 6 \<le> empty_size"
  obtains st' k ra lens' ticket where "ticket_step lib_ops st = (st', Ret ())" "rs_transcript st' = rs_transcript st"
    "sending c0 secret k ra lens' None (buf @ ticket) (rs_conn st')" "length ticket = lens ! 6"
    "if ticket = [] then k = 0 \<and> ra = r else k = 1 \<and> decrypt lib_ops r ticket = (ra, Ret ([], recordTypeApplicationData))"
proof (cases "lens ! 6 = 0")
  case True
  moreover have "handshakeLen (c_out (rs_conn st)) = lens"
    using st(1) by (auto simp: sending_def)
  ultimately show thesis
    using st(1) by (intro that [of st 0 r lens "[]"]) (simp_all add: ticket_step_def)
next
  case False
  have lens: "handshakeLen (c_out (rs_conn st)) = lens"
    using st(1) by (auto simp: sending_def)
  have p: "shapeable [typeNewSessionTicket]" "fits_slot lens 6 [typeNewSessionTicket]" "lens ! 1 \<noteq> 0"
    "shaped_content [typeNewSessionTicket] = ([], recordTypeApplicationData)"
    using ticket False
    by (simp_all add: shapeable_def fits_slot_def slots shaped_content_def recordHeaderLen_def gcmTagSize_def)
  obtain c' out r' where w: "writeRecordLocked lib_ops (rs_conn st) recordTypeHandshake [typeNewSessionTicket] =
      (c', length [typeNewSessionTicket], Ret ())"
    "sending c0 secret (0 + 1) r' (lens[6 := 0]) None (buf @ out) c'" "length out = lens ! 6"
    "decrypt lib_ops r out = (r', Ret (shaped_content [typeNewSessionTicket]))"
    by (rule sending_record [OF st(1,2) _ p(1-3)]) simp_all
  then show thesis
    using False p(4)
    by (intro that [of "st\<lparr>rs_conn := c'\<rparr>" 1 r' "lens[6 := 0]" out]) (auto simp: ticket_step_def lens writeRecord_def collect_def
        sending_mode [OF st(1)])
qed

lemma flush_sending:
  assumes "sending c0 secret n r lens mode buf c" "buf \<noteq> []" "net_wr c0 = []" "\<not> write_expired c0"
  obtains g d k where "conn_flush c = (c0\<lparr>c_out := g, c_draws := d, buffering := False, sendBuf := [],
      net_out := net_out c0 @ buf, bytesSent := bytesSent c0 + k\<rparr>, length buf, None)"
    "version g = VersionTLS13" "hc_err g = None" "aead_sync lib_ops gcm_pair n g r"
proof -
  obtain g d where "c = c0\<lparr>c_out := g, c_draws := d, sendBuf := buf\<rparr>" "aead_sync lib_ops gcm_pair n g r"
    "version g = VersionTLS13" "hc_err g = None"
    using assms(1) by (auto simp: sending_def)
  then show thesis
    using assms(2-4) by (intro that [of "length buf" d g]) (simp_all add: conn_flush_def net_write_def)
qed

text \<open>The last steps succeed after any messages.\<close>

definition finishing where
  "finishing B H X D E ch hello cs h shared cert eeb cb c r0 sign st1 c0 secret hin \<longleftrightarrow>
     (\<forall>ste stc stv stf vd cv fin n r' lens' buf.
        flight_steps B H cs h E cert sign secret st1 ste stc stv stf vd eeb cb cv fin \<longrightarrow>
        sending c0 secret n r' lens' None buf (rs_conn stf) \<longrightarrow> buf \<noteq> [] \<longrightarrow>
        lens' ! 6 = 0 \<or> lens' ! 1 \<noteq> 0 \<and> 23 \<le> lens' ! 6 \<and> lens' ! 6 \<le> empty_size \<longrightarrow>
        (\<exists>c' hdone ticket ra k.
           reality_handshake B H X (lib_impl H) lib_ops D E ch hello c = (c', Ret hdone) \<and> length ticket = lens' ! 6 \<and>
           flight_end H cs h shared (rs_transcript stf) r0 c c' buf ticket ra k hin \<and>
           client_application_secret h shared (rs_transcript stf) = Ret (hd_trafficSecret hdone) \<and>
           ks_finishedHash H cs (trafficSecret hin) (rs_transcript stf) = Ret (hd_clientFinished hdone)))"

lemma handshake_finish:
  assumes B: "cryptobyte_Builder B" and H: "wf_hashes H"
    and I: "flight_inputs B H X D E ch hello cs h shared sh cert t0 eeb cb"
    and c: "fresh_server lens mode c" and r0: "tls13_half r0"
  obtains sign st1 c0 secret r hin where "\<forall>t. signs H D (sign t) t \<and> length (sign t) = 64"
    "rs_transcript st1 = d_write t0 sh" "server_secret h shared (d_write t0 sh) = Ret secret"
    "client_secret h shared (d_write t0 sh) = Ret (trafficSecret hin)"
    "sending c0 secret 0 r lens mode (plain_flight sh) (rs_conn st1)" "sender c0" "d_hash (rs_transcript st1) = h"
    "handshake_reader H cs h shared (d_write t0 sh) r0 = Ret r"
    "finishing B H X D E ch hello cs h shared cert eeb cb c r0 sign st1 c0 secret hin"
proof -
  note i = I [unfolded flight_inputs_def]
  have cs: "cs \<in> set cipherSuitesTLS13" "cs13_aead cs = AeadAESGCMTLS13" "suite_hash H cs = Ret h"
    using i suite_known by blast+
  obtain hello' where hello: "key_exchange X ch hello = Ret (hello', shared)" "sh_marshal B hello' = Ret sh"
    using i by blast
  have sh: "sh \<noteq> []" "sh ! 0 = typeServerHello" "length sh \<le> maxPlaintext"
    using i hello(2) cryptobyte_Builder.sh_marshal_first [OF B] by blast+
  have t0: "transcriptMsg B d_write (ClientHello ch) (d_new h) = Ret t0" "d_hash (d_new h) = h"
    using i by (auto simp: d_new_def)
  let ?c = "c\<lparr>c_cipherSuite := cs13_id cs, buffering := True\<rparr>"
  have c1: "fresh_server lens mode ?c" "buffering ?c" "quiet E"
    using c i by (auto simp: fresh_server_def)
  obtain hs secret r hin a st1 d where p: "handshake_secret h shared = Ret hs"
    "sendServerParameters B H (lib_impl H) lib_ops E ch hello' cs shared \<lparr>rs_conn = ?c, rs_transcript = d_new h\<rparr> =
       and_then (hs_write B lib_ops st1 (EncryptedExtensions (ee_zero\<lparr>ee_alpnProtocol := he_clientProtocol E\<rparr>)))
         (\<lambda>st _. (st, Ret hs))"
    "rs_transcript st1 = d_write t0 sh" "handshake_reader H cs h shared (d_write t0 sh) r0 = Ret r"
    "ClientHandshakeTrafficSecret hs (d_write t0 sh) = Ret a"
    "setTrafficSecret H (im_aead (lib_impl H) (cs13_aead cs)) (c_in ?c) cs QUICEncryptionLevelHandshake a = Ret hin"
    "sending (?c\<lparr>c_in := hin, c_draws := d\<rparr>) secret 0 r lens mode (plain_flight sh) (rs_conn st1)"
    "server_secret h shared (d_write t0 sh) = Ret secret"
    by (rule server_parameters [OF H cs c1 t0(2,1) hello(2) sh r0])
  have cert: "\<not> he_requestCert E" "\<And>m. \<exists>sig. id_Sign D m = Ret sig \<and> length sig = 64" "\<not> shouldSendSessionTickets E ch"
    using i by blast+
  obtain sign where signs: "\<And>t. signs H D (sign t) t" and sign: "\<And>t. length (sign t) = 64"
    "\<And>st. sendServerCertificate B H lib_ops D E cert st =
       and_then (hs_write B lib_ops st (CertificateTLS13 (reality_certMsg cert))) (\<lambda>st _.
         hs_write B lib_ops st (CertificateVerify \<lparr>cv_hasSignatureAlgorithm = True, cv_signatureAlgorithm = Ed25519,
           cv_signature = sign (rs_transcript st)\<rparr>))"
    using server_certificate [OF cert(1,2), where B = B and H = H and K = lib_ops and cert = cert] by blast
  let ?c0 = "?c\<lparr>c_in := hin, c_draws := d\<rparr>"
  have sender: "sender ?c0" and t1: "d_hash (rs_transcript st1) = h"
    using c transcriptMsg_hash [OF t0(1)] t0(2) by (simp_all add: sender_def fresh_server_def p(3) d_write_def)
  have end_state: "\<exists>c' hdone ticket ra k.
      reality_handshake B H X (lib_impl H) lib_ops D E ch hello c = (c', Ret hdone) \<and> length ticket = lens' ! 6 \<and>
      flight_end H cs h shared (rs_transcript stf) r0 c c' buf ticket ra k hin \<and>
      client_application_secret h shared (rs_transcript stf) = Ret (hd_trafficSecret hdone) \<and>
      ks_finishedHash H cs (trafficSecret hin) (rs_transcript stf) = Ret (hd_clientFinished hdone)"
    if steps: "flight_steps B H cs h E cert sign secret st1 ste stc stv stf vd eeb cb cv fin"
      and stf: "sending ?c0 secret n r' lens' None buf (rs_conn stf)" "buf \<noteq> []"
      and ticket: "lens' ! 6 = 0 \<or> lens' ! 1 \<noteq> 0 \<and> 23 \<le> lens' ! 6 \<and> lens' ! 6 \<le> empty_size"
    for ste stc stv stf vd cv fin n r' lens' buf
  proof -
    note step = steps [unfolded flight_steps_def]
    have fin: "\<exists>bs. fin_marshal B \<lparr>fin_verifyData = vd\<rparr> = Ret bs" if "length vd = h_size h" for vd
      using cryptobyte_Builder.finished_bytes [OF B, of vd] suite_hash_wf [OF H cs(1,3)] that by (auto simp: wf_hash_def)
    have vd: "ks_finishedHash H cs (trafficSecret (c_out (rs_conn stv))) (rs_transcript stv) = Ret vd"
      "hs_write B lib_ops stv (Finished \<lparr>fin_verifyData = vd\<rparr>) = (stf, Ret ())" "d_hash (rs_transcript stf) = h"
      using step by blast+
    have written: "hs_write B lib_ops st1 (EncryptedExtensions (ee_zero\<lparr>ee_alpnProtocol := he_clientProtocol E\<rparr>)) = (ste, Ret ())"
      "hs_write B lib_ops ste (CertificateTLS13 (reality_certMsg cert)) = (stc, Ret ())"
      "hs_write B lib_ops stc (CertificateVerify \<lparr>cv_hasSignatureAlgorithm = True, cv_signatureAlgorithm = Ed25519,
         cv_signature = sign (rs_transcript stc)\<rparr>) = (stv, Ret ())"
      using step by blast+
    obtain st2 hdone ra secret' ms where f:
      "sendServerFinished B H (lib_impl H) lib_ops E ch cs hs stv = (st2, Ret hdone)"
      "application_reader H cs h shared (rs_transcript stf) r0 = Ret ra"
      "sending ?c0 secret' 0 ra lens' None buf (rs_conn st2)" "hs_MasterSecret hs = Ret ms"
      "ClientApplicationTrafficSecret ms (rs_transcript stf) = Ret (hd_trafficSecret hdone)"
      "ks_finishedHash H cs (trafficSecret (c_in ?c0)) (rs_transcript stf) = Ret (hd_clientFinished hdone)"
      by (rule server_finished [OF H cs(1,2,3) c1(3) cert(1,3) p(1) fin r0 vd(1,2) stf(1) vd(3)])
    obtain st3 k ra' l3 tk where t: "ticket_step lib_ops st2 = (st3, Ret ())" "rs_transcript st3 = rs_transcript st2"
      "sending ?c0 secret' k ra' l3 None (buf @ tk) (rs_conn st3)" "length tk = lens' ! 6"
      "if tk = [] then k = 0 \<and> ra' = ra else k = 1 \<and> decrypt lib_ops ra tk = (ra', Ret ([], recordTypeApplicationData))"
      by (rule ticket_record [OF f(3) sender ticket])
    have net: "net_wr ?c0 = []" "\<not> write_expired ?c0" "buf @ tk \<noteq> []"
      using c stf(2) by (simp_all add: fresh_server_def)
    obtain g d' j where g: "conn_flush (rs_conn st3) = (?c0\<lparr>c_out := g, c_draws := d', buffering := False, sendBuf := [],
        net_out := net_out ?c0 @ buf @ tk, bytesSent := bytesSent ?c0 + j\<rparr>, length (buf @ tk), None)"
      "version g = VersionTLS13" "hc_err g = None" "aead_sync lib_ops gcm_pair k g ra'"
      by (rule flush_sending [OF t(3) net(3,1,2)])
    let ?c' = "c\<lparr>c_cipherSuite := cs13_id cs, c_in := hin, c_out := g, c_draws := d', buffering := False, sendBuf := [],
        net_out := net_out c @ buf @ tk, bytesSent := bytesSent c + j\<rparr>"
    have run: "reality_handshake B H X (lib_impl H) lib_ops D E ch hello c = (?c', Ret hdone)"
      using i written f(1) t(1) g(1)
      by (simp add: reality_handshake_def compute_def deref_def hello(1) p(2) sign(2) ticket_step_def)
    have "flight_end H cs h shared (rs_transcript stf) r0 c ?c' buf tk ra' k hin"
      unfolding flight_end_def using f(2) t(5) g(2-4)
      by (intro conjI exI [of _ g] exI [of _ d'] exI [of _ j] exI [of _ ra]) (auto split: if_splits)
    moreover have "client_application_secret h shared (rs_transcript stf) = Ret (hd_trafficSecret hdone)"
      using f(4,5) by (simp add: client_application_secret_def p(1))
    ultimately show ?thesis
      using run f(6) t(4) by auto
  qed
  moreover have own: "client_secret h shared (d_write t0 sh) = Ret (trafficSecret hin)"
    using setTrafficSecret_fields(1) [OF p(6)] p(1,5) by (simp add: client_secret_def)
  ultimately have finish: "finishing B H X D E ch hello cs h shared cert eeb cb c r0 sign st1 ?c0 secret hin"
    unfolding finishing_def by blast
  have "\<forall>t. signs H D (sign t) t \<and> length (sign t) = 64"
    using signs sign(1) by blast
  then show thesis
    by (rule that [OF _ p(3) p(8) own p(7) sender t1 p(4) finish])
qed

text \<open>What the recorded lengths must have room for: each message in its slot, or all of them in the first.\<close>

definition room :: "bytes option \<Rightarrow> nat list \<Rightarrow> nat \<Rightarrow> nat \<Rightarrow> nat \<Rightarrow> bool" where
  "room mode lens e k f \<longleftrightarrow>
     length lens = 7 \<and> lens ! 1 \<noteq> 0 \<and> list_all (\<lambda>n. n \<le> empty_size) lens \<and> (lens ! 6 = 0 \<or> 23 \<le> lens ! 6) \<and>
     (case mode of
        None \<Rightarrow> 22 + e \<le> lens ! 2 \<and> 22 + k \<le> lens ! 3 \<and> 94 \<le> lens ! 4 \<and> 26 + f \<le> lens ! 5
      | Some b \<Rightarrow> b = [] \<and> 22 + e + k + 72 + (4 + f) \<le> lens ! 2)"

text \<open>The encrypted records: their lengths and contents.\<close>

definition flight_records :: "bytes option \<Rightarrow> nat list \<Rightarrow> bytes list \<Rightarrow> (nat \<times> bytes) list" where
  "flight_records mode lens ms =
     (case mode of None \<Rightarrow> zip [lens ! 2, lens ! 3, lens ! 4, lens ! 5] ms | Some b \<Rightarrow> [(lens ! 2, concat ms)])"

text \<open>The messages that RFC 8446 asks for after EncryptedExtensions and Certificate; \<open>t1\<close> is the transcript
  up to ServerHello, \<open>t4\<close> up to Finished.\<close>

definition flight_messages where
  "flight_messages B H D cs h shared t1 eeb cb cv fin t4 \<longleftrightarrow>
     (\<exists>secret sig vd. server_secret h shared t1 = Ret secret \<and> signs H D sig (d_write (d_write t1 eeb) cb) \<and>
        cv_marshal B \<lparr>cv_hasSignatureAlgorithm = True, cv_signatureAlgorithm = Ed25519, cv_signature = sig\<rparr> = Ret cv \<and>
        ks_finishedHash H cs secret (d_write (d_write (d_write t1 eeb) cb) cv) = Ret vd \<and>
        fin_marshal B \<lparr>fin_verifyData = vd\<rparr> = Ret fin \<and> t4 = d_write (d_write (d_write (d_write t1 eeb) cb) cv) fin)"

lemma flight_steps_messages:
  assumes "flight_steps B H cs h E cert sign secret st1 ste stc stv stf vd eeb cb cv fin" "\<And>t. signs H D (sign t) t"
    and "server_secret h shared (rs_transcript st1) = Ret secret"
  shows "flight_messages B H D cs h shared (rs_transcript st1) eeb cb cv fin (rs_transcript stf)"
proof -
  note s = assms(1) [unfolded flight_steps_def]
  have t: "rs_transcript stc = d_write (d_write (rs_transcript st1) eeb) cb" "rs_transcript stv = d_write (rs_transcript stc) cv"
    "rs_transcript stf = d_write (rs_transcript stv) fin"
    using s by blast+
  have m: "cv_marshal B \<lparr>cv_hasSignatureAlgorithm = True, cv_signatureAlgorithm = Ed25519, cv_signature = sign (rs_transcript stc)\<rparr> = Ret cv"
    "ks_finishedHash H cs secret (rs_transcript stv) = Ret vd" "fin_marshal B \<lparr>fin_verifyData = vd\<rparr> = Ret fin"
    using s by blast+
  show ?thesis
    unfolding flight_messages_def
    by (rule exI [of _ secret], rule exI [of _ "sign (rs_transcript stc)"], rule exI [of _ vd])
      (use m [unfolded t] assms(2,3) in \<open>simp add: t\<close>)
qed

lemma messages_sent:
  assumes B: "cryptobyte_Builder B" and H: "wf_hashes H" "cs \<in> set cipherSuitesTLS13" "suite_hash H cs = Ret h"
    and st: "sending c0 secret 0 r lens mode buf (rs_conn st1)" "sender c0" "d_hash (rs_transcript st1) = h"
    and m: "ee_marshal B (ee_zero\<lparr>ee_alpnProtocol := he_clientProtocol E\<rparr>) = Ret eeb"
      "c13_marshal B (reality_certMsg cert) = Ret cb" "\<And>t. length (sign t) = 64"
    and lens: "room mode lens (length eeb) (length cb) (h_size h)"
  obtains ste stc stv stf vd cv fin recs n r' lens' where
    "flight_steps B H cs h E cert sign secret st1 ste stc stv stf vd eeb cb cv fin"
    "sending c0 secret n r' lens' None (buf @ concat recs) (rs_conn stf)" "lens' ! 1 = lens ! 1" "lens' ! 6 = lens ! 6"
    "map length recs = map fst (flight_records mode lens [eeb, cb, cv, fin])"
    "decrypt_all lib_ops r recs = (r', Ret (map (\<lambda>(_, p). (recordTypeHandshake, p)) (flight_records mode lens [eeb, cb, cv, fin])))"
proof (cases mode)
  case None
  have l: "length lens = 7" "lens ! 1 \<noteq> 0" "list_all (\<lambda>n. n \<le> empty_size) lens"
    "22 + length eeb \<le> lens ! 2" "22 + length cb \<le> lens ! 3" "94 \<le> lens ! 4" "26 + h_size h \<le> lens ! 5"
    using lens None by (simp_all add: room_def)
  obtain ste stc stv stf vd cv fin recs r' where
    "flight_steps B H cs h E cert sign secret st1 ste stc stv stf vd eeb cb cv fin"
    "sending c0 secret 4 r' (lens[2 := 0, 3 := 0, 4 := 0, 5 := 0]) None (buf @ concat recs) (rs_conn stf)"
    "map length recs = [lens ! 2, lens ! 3, lens ! 4, lens ! 5]"
    "decrypt_all lib_ops r recs = (r', Ret [(recordTypeHandshake, eeb), (recordTypeHandshake, cb),
       (recordTypeHandshake, cv), (recordTypeHandshake, fin)])"
    by (rule messages_separate [OF B H st(1) [unfolded None] st(2,3) m l])
  then show thesis
    using l(1) None
    by (intro that [of ste stc stv stf vd cv fin 4 r' "lens[2 := 0, 3 := 0, 4 := 0, 5 := 0]" recs]) (simp_all add: flight_records_def)
next
  case (Some b)
  have l: "length lens = 7" "lens ! 1 \<noteq> 0" "lens ! 2 \<le> empty_size"
    "22 + length eeb + length cb + 72 + (4 + h_size h) \<le> lens ! 2" "b = []"
    using lens Some by (auto simp: room_def list_all_length)
  obtain ste stc stv stf vd cv fin out r' where m:
    "flight_steps B H cs h E cert sign secret st1 ste stc stv stf vd eeb cb cv fin"
    "sending c0 secret 1 r' (lens[2 := 0]) None (buf @ out) (rs_conn stf)" "length out = lens ! 2"
    "decrypt lib_ops r out = (r', Ret (eeb @ cb @ cv @ fin, recordTypeHandshake))"
    by (rule messages_collected [OF B H st(1) [unfolded Some l(5)] st(2,3) m l(2-4)])
  then show thesis
    using l(1) Some by (intro that [of ste stc stv stf vd cv fin 1 r' "lens[2 := 0]" "[out]"]) (simp_all add: flight_records_def)
qed

text \<open>The whole flight, with what the handshake leaves for the rest of the connection.\<close>

lemma flight_sent:
  assumes B: "cryptobyte_Builder B" and H: "wf_hashes H"
    and I: "flight_inputs B H X D E ch hello cs h shared sh cert t0 eeb cb"
    and c: "fresh_server lens mode c" and r0: "tls13_half r0"
    and lens: "room mode lens (length eeb) (length cb) (h_size h)"
  obtains c' hdone recs ticket cv fin t4 r r' ra k hin where
    "reality_handshake B H X (lib_impl H) lib_ops D E ch hello c = (c', Ret hdone)"
    "map length recs = map fst (flight_records mode lens [eeb, cb, cv, fin])" "length ticket = lens ! 6"
    "flight_messages B H D cs h shared (d_write t0 sh) eeb cb cv fin t4"
    "handshake_reader H cs h shared (d_write t0 sh) r0 = Ret r"
    "decrypt_all lib_ops r recs = (r', Ret (map (\<lambda>(_, p). (recordTypeHandshake, p)) (flight_records mode lens [eeb, cb, cv, fin])))"
    "flight_end H cs h shared t4 r0 c c' (plain_flight sh @ concat recs) ticket ra k hin"
    "client_secret h shared (d_write t0 sh) = Ret (trafficSecret hin)"
    "client_application_secret h shared t4 = Ret (hd_trafficSecret hdone)"
    "ks_finishedHash H cs (trafficSecret hin) t4 = Ret (hd_clientFinished hdone)"
proof -
  note i = I [unfolded flight_inputs_def]
  have cs: "cs \<in> set cipherSuitesTLS13" "suite_hash H cs = Ret h"
    using i suite_known by blast+
  have m: "ee_marshal B (ee_zero\<lparr>ee_alpnProtocol := he_clientProtocol E\<rparr>) = Ret eeb" "c13_marshal B (reality_certMsg cert) = Ret cb"
    using i by blast+
  obtain sign st1 c0 secret r hin where all: "\<forall>t. signs H D (sign t) t \<and> length (sign t) = 64" and st1: "rs_transcript st1 = d_write t0 sh"
      "server_secret h shared (d_write t0 sh) = Ret secret" "client_secret h shared (d_write t0 sh) = Ret (trafficSecret hin)"
      "sending c0 secret 0 r lens mode (plain_flight sh) (rs_conn st1)" "sender c0" "d_hash (rs_transcript st1) = h"
      "handshake_reader H cs h shared (d_write t0 sh) r0 = Ret r"
      "finishing B H X D E ch hello cs h shared cert eeb cb c r0 sign st1 c0 secret hin"
    by (rule handshake_finish [OF B H I c r0])
  have signs: "signs H D (sign t) t" and sign: "length (sign t) = 64" for t
    using all by blast+
  obtain ste stc stv stf vd cv fin recs n r' lens' where sent:
    "flight_steps B H cs h E cert sign secret st1 ste stc stv stf vd eeb cb cv fin"
    "sending c0 secret n r' lens' None (plain_flight sh @ concat recs) (rs_conn stf)" "lens' ! 1 = lens ! 1" "lens' ! 6 = lens ! 6"
    "map length recs = map fst (flight_records mode lens [eeb, cb, cv, fin])"
    "decrypt_all lib_ops r recs = (r', Ret (map (\<lambda>(_, p). (recordTypeHandshake, p)) (flight_records mode lens [eeb, cb, cv, fin])))"
    by (rule messages_sent [OF B H cs st1(4-6) m sign lens])
  have buf: "plain_flight sh @ concat recs \<noteq> []"
    by (simp add: plain_flight_def)
  have ticket: "lens' ! 6 = 0 \<or> lens' ! 1 \<noteq> 0 \<and> 23 \<le> lens' ! 6 \<and> lens' ! 6 \<le> empty_size"
    using lens sent(3,4) by (auto simp: room_def list_all_length)
  have messages: "flight_messages B H D cs h shared (d_write t0 sh) eeb cb cv fin (rs_transcript stf)"
    using flight_steps_messages [OF sent(1) signs] st1(1,2) by simp
  have "\<exists>c' hdone ticket ra k.
      reality_handshake B H X (lib_impl H) lib_ops D E ch hello c = (c', Ret hdone) \<and> length ticket = lens' ! 6 \<and>
      flight_end H cs h shared (rs_transcript stf) r0 c c' (plain_flight sh @ concat recs) ticket ra k hin \<and>
      client_application_secret h shared (rs_transcript stf) = Ret (hd_trafficSecret hdone) \<and>
      ks_finishedHash H cs (trafficSecret hin) (rs_transcript stf) = Ret (hd_clientFinished hdone)"
    by (rule st1(8) [unfolded finishing_def, rule_format, OF sent(1,2) buf ticket])
  then obtain c' hdone tk ra k where e: "reality_handshake B H X (lib_impl H) lib_ops D E ch hello c = (c', Ret hdone)"
    "length tk = lens' ! 6" "flight_end H cs h shared (rs_transcript stf) r0 c c' (plain_flight sh @ concat recs) tk ra k hin"
    "client_application_secret h shared (rs_transcript stf) = Ret (hd_trafficSecret hdone)"
    "ks_finishedHash H cs (trafficSecret hin) (rs_transcript stf) = Ret (hd_clientFinished hdone)"
    by blast
  show thesis
    by (rule that [OF e(1) sent(5) e(2) [unfolded sent(4)] messages st1(7) sent(6) e(3) st1(3) e(4,5)])
qed

section \<open>A concrete handshake\<close>

definition demo_kex :: "(unit, unit, unit) kex_lib" where
  "demo_kex = \<lparr>kx_gen = (\<lambda>c. Ret ()), kx_PublicKey = (\<lambda>k. replicate 32 8), kx_NewPublicKey = (\<lambda>b. Ret ()),
     kx_ECDH = (\<lambda>k p. Ret (replicate 32 9)), kx_NewEncapsulationKey768 = (\<lambda>b. Ret ()), kx_Encapsulate = (\<lambda>k. ([], []))\<rparr>"

definition demo_identity :: reality_identity where
  "demo_identity = \<lparr>id_signedCert = replicate 80 1, id_public = replicate 32 2, id_Sign = (\<lambda>m. Ret (replicate 64 3))\<rparr>"

definition demo_env :: hs_env where
  "demo_env = \<lparr>he_AuthKey = replicate 32 7, he_clientProtocol = [], he_requestCert = False, he_ClientCAs = None, he_fips = False,
     he_keyLog = (\<lambda>_ _ _. None), he_ticketsDisabled = True, he_ticketKeys = [], he_WrapSession = None, he_now = 0,
     he_rand = (\<lambda>n. Ret (replicate n 0)), he_ageAdd = Ret [0, 0, 0, 0]\<rparr>"

definition target_hello :: serverHelloMsg where
  "target_hello = sh_zero\<lparr>sh_vers := VersionTLS12, sh_random := replicate 32 3, sh_sessionId := replicate 32 4,
     sh_cipherSuite := 0x1301, sh_supportedVersion := VersionTLS13,
     sh_serverShare := \<lparr>ks_group = X25519, ks_data = replicate 32 6\<rparr>\<rparr>"

definition demo_lens :: "nat list" where
  "demo_lens = [127, 6, 100, 300, 110, 80, 60]"

definition demo_fresh :: "(rc4, gcm_aead, aes_cbc, hash_fn \<times> bytes) conn" where
  "demo_fresh = (idle_conn tls13_zero (tls13_zero\<lparr>handshakeLen := demo_lens\<rparr>))\<lparr>isHandshakeComplete := False\<rparr>"

lemma fresh_demo: "fresh_server demo_lens None demo_fresh"
  by (simp add: fresh_server_def demo_fresh_def idle_conn_def tls13_half_def tls13_zero_def zero_half_def)

lemma certificate_size:
  assumes "length cert = 80"
  obtains cb where "c13_marshal ref_builder (reality_certMsg cert) = Ret cb" "length cb = 93"
  using assms
  by (simp add: ref_builder.c13_marshal_enc reality_certMsg_def c13_sent_def hs_msg_def lp_def enc_Certificate_def enc_entry_def
      cert_items_def item_bytes_def ext_opt_def)

lemma demo_flight:
  obtains h shared sh cert t0 eeb cb where
    "flight_inputs ref_builder toy_hashes demo_kex demo_identity demo_env reality_hello target_hello (cipherSuitesTLS13 ! 0)
       h shared sh cert t0 eeb cb"
    "room None demo_lens (length eeb) (length cb) (h_size h)"
proof -
  let ?share = "set_share target_hello (replicate 32 8)"
  let ?cert = "replicate 16 1 @ go_copy (replicate 64 1) (hmac (toy_hash 64) (replicate 32 7) (replicate 32 2))"
  have kex: "key_exchange demo_kex reality_hello target_hello = Ret (?share, Some (replicate 32 9))"
    by (simp add: key_exchange_def demo_kex_def reality_hello_def ch_zero_def target_hello_def sh_zero_def curve_ids
        or_nil_def deref_def generateECDHEKey_def curveForCurveID_def go_copy_def Let_def)
  have "enc_serverHello ?share \<noteq> None \<and> length (the (enc_serverHello ?share)) \<le> maxPlaintext"
    by (simp add: set_share_def target_hello_def sh_zero_def enc_serverHello_def sh_items_def item_bytes_def ext_opt_def lp_def
        version_ids curve_ids maxPlaintext_def)
  then obtain sh where sh: "sh_marshal ref_builder ?share = Ret sh" "length sh \<le> maxPlaintext"
    by (auto simp: ref_builder.sh_marshal_enc)
  have cert: "reality_cert toy_hashes demo_identity (he_AuthKey demo_env) = Ret ?cert" "length ?cert = 80"
    by (simp_all add: reality_cert_def demo_identity_def demo_env_def toy_hashes_def go_copy_def)
  obtain eeb where ee: "ee_marshal ref_builder (ee_zero\<lparr>ee_alpnProtocol := he_clientProtocol demo_env\<rparr>) = Ret eeb" "length eeb = 6"
    by (simp add: ref_builder.ee_marshal_enc ee_items_def ee_zero_def demo_env_def hs_msg_def lp_def item_bytes_def ext_opt_def)
  obtain cb where cb: "c13_marshal ref_builder (reality_certMsg ?cert) = Ret cb" "length cb = 93"
    using certificate_size [OF cert(2)] by blast
  have "flight_inputs ref_builder toy_hashes demo_kex demo_identity demo_env reality_hello target_hello (cipherSuitesTLS13 ! 0)
      (toy_hash 32) (Some (replicate 32 9)) sh ?cert (d_write (d_new (toy_hash 32)) (replicate 80 0)) eeb cb"
  proof -
    have suite: "cipherSuiteTLS13ByID (sh_cipherSuite target_hello) = Some (cipherSuitesTLS13 ! 0)"
      "cs13_aead (cipherSuitesTLS13 ! 0) = AeadAESGCMTLS13" "suite_hash toy_hashes (cipherSuitesTLS13 ! 0) = Ret (toy_hash 32)"
      by (simp_all add: target_hello_def cipherSuiteTLS13ByID_def cipherSuitesTLS13_def suite_hash_def toy_hashes_def
          TLS_AES_128_GCM_SHA256_def TLS_AES_256_GCM_SHA384_def TLS_CHACHA20_POLY1305_SHA256_def)
    have hello: "transcriptMsg ref_builder d_write (ClientHello reality_hello) (d_new (toy_hash 32)) =
        Ret (d_write (d_new (toy_hash 32)) (replicate 80 0))"
      by (simp add: transcriptMsg_def reality_hello_def ch_originalBytes_def ch_zero_def)
    have env: "quiet demo_env" "\<not> he_requestCert demo_env" "\<not> shouldSendSessionTickets demo_env reality_hello"
      by (simp_all add: quiet_def demo_env_def shouldSendSessionTickets_def)
    show ?thesis
      using kex sh cert(1) ee(1) cb(1) suite hello env unfolding flight_inputs_def
      by (intro conjI) (auto simp: demo_identity_def)
  qed
  moreover have "room None demo_lens (length eeb) (length cb) (h_size (toy_hash 32))"
    by (simp add: room_def demo_lens_def ee(2) cb(2) toy_hash_def empty_size_def)
  ultimately show thesis
    by (rule that)
qed

section \<open>Properties\<close>

text \<open>C4: The flight of a REALITY server.  When the target's flight was recorded and its records have room,
  the handshake with an accepted client succeeds up to its Finished message and writes ServerHello and
  ChangeCipherSpec, then encrypted records of exactly the recorded lengths, and one more if the target
  sent a ticket.  A client that computed the same shared secret decrypts them to EncryptedExtensions,
  the certificate, a CertificateVerify that signs the transcript, and the right Finished, in one record
  each or all in one.\<close>

theorem reality_flight_shape:
  assumes "cryptobyte_Builder B" and "wf_hashes H" and "flight_inputs B H X D E ch hello cs h shared sh cert t0 eeb cb"
    and "fresh_server lens mode c" and "tls13_half r0" and "room mode lens (length eeb) (length cb) (h_size h)"
  shows "\<exists>c' hdone recs ticket cv fin t4 r r'. reality_handshake B H X (lib_impl H) lib_ops D E ch hello c = (c', Ret hdone) \<and>
     net_out c' = net_out c @ plain_flight sh @ concat recs @ ticket \<and>
     map length recs = map fst (flight_records mode lens [eeb, cb, cv, fin]) \<and> length ticket = lens ! 6 \<and>
     flight_messages B H D cs h shared (d_write t0 sh) eeb cb cv fin t4 \<and>
     handshake_reader H cs h shared (d_write t0 sh) r0 = Ret r \<and>
     decrypt_all lib_ops r recs =
       (r', Ret (map (\<lambda>(_, p). (recordTypeHandshake, p)) (flight_records mode lens [eeb, cb, cv, fin])))"
proof -
  obtain c' hdone recs ticket cv fin t4 r r' ra k hin where f:
    "reality_handshake B H X (lib_impl H) lib_ops D E ch hello c = (c', Ret hdone)"
    "map length recs = map fst (flight_records mode lens [eeb, cb, cv, fin])" "length ticket = lens ! 6"
    "flight_messages B H D cs h shared (d_write t0 sh) eeb cb cv fin t4"
    "handshake_reader H cs h shared (d_write t0 sh) r0 = Ret r"
    "decrypt_all lib_ops r recs = (r', Ret (map (\<lambda>(_, p). (recordTypeHandshake, p)) (flight_records mode lens [eeb, cb, cv, fin])))"
    "flight_end H cs h shared t4 r0 c c' (plain_flight sh @ concat recs) ticket ra k hin"
    by (rule flight_sent [OF assms])
  have "net_out c' = net_out c @ plain_flight sh @ concat recs @ ticket"
    using f(7) by (auto simp: flight_end_def)
  with f show ?thesis
    by blast
qed

theorem reality_flight_shape_witness:
  "\<exists>c' hdone sh recs ticket.
     reality_handshake ref_builder toy_hashes demo_kex (lib_impl toy_hashes) lib_ops demo_identity demo_env reality_hello
       target_hello demo_fresh = (c', Ret hdone) \<and>
     net_out c' = plain_flight sh @ concat recs @ ticket \<and> map length recs = [100, 300, 110, 80] \<and> length ticket = 60"
proof -
  obtain h shared sh cert t0 eeb cb where
    I: "flight_inputs ref_builder toy_hashes demo_kex demo_identity demo_env reality_hello target_hello (cipherSuitesTLS13 ! 0)
       h shared sh cert t0 eeb cb" "room None demo_lens (length eeb) (length cb) (h_size h)"
    by (rule demo_flight)
  have "tls13_half (tls13_zero :: (rc4, gcm_aead, aes_cbc, hash_fn \<times> bytes) halfConn)" "net_out demo_fresh = []"
    by (simp_all add: tls13_half_def tls13_zero_def zero_half_def demo_fresh_def idle_conn_def)
  with reality_flight_shape [OF ref_builder.cryptobyte_Builder_axioms wf_toy_hashes I(1) fresh_demo _ I(2), of tls13_zero]
  obtain c' hdone recs ticket cv fin where
    "reality_handshake ref_builder toy_hashes demo_kex (lib_impl toy_hashes) lib_ops demo_identity demo_env reality_hello
       target_hello demo_fresh = (c', Ret hdone)" "net_out c' = plain_flight sh @ concat recs @ ticket"
    "map length recs = map fst (flight_records None demo_lens [eeb, cb, cv, fin])" "length ticket = demo_lens ! 6"
    by (metis append_Nil)
  moreover from this have "map length recs = [100, 300, 110, 80]" "length ticket = 60"
    by (simp_all add: flight_records_def demo_lens_def)
  ultimately show ?thesis
    by (intro exI conjI)
qed

text \<open>C6: When the server has sent its flight, the connection is keyed for application data: a client that
  derived the application secret, and reads the record in place of a ticket as no data, is linked with it,
  which is the hypothesis under which data is delivered.\<close>

theorem reality_hands_over:
  assumes "cryptobyte_Builder B" and "wf_hashes H" and "flight_inputs B H X D E ch hello cs h shared sh cert t0 eeb cb"
    and "fresh_server lens mode c" and "tls13_half r0" and "hc_err r0 = None"
    and "room mode lens (length eeb) (length cb) (h_size h)"
    and "\<And>i. rand_ok (c_rand c i)" and "\<not> closeNotifySent c" and "activeCall c AND 1 = 0"
  shows "\<exists>c' hdone cv fin t4 buf ticket ra ra' k. reality_handshake B H X (lib_impl H) lib_ops D E ch hello c = (c', Ret hdone) \<and>
     flight_messages B H D cs h shared (d_write t0 sh) eeb cb cv fin t4 \<and> net_out c' = net_out c @ buf @ ticket \<and>
     length ticket = lens ! 6 \<and> application_reader H cs h shared t4 r0 = Ret ra \<and>
     (if ticket = [] then ra' = ra else decrypt lib_ops ra ticket = (ra', Ret ([], recordTypeApplicationData))) \<and>
     linked k (c'\<lparr>isHandshakeComplete := True\<rparr>) (idle_conn ra' hout)"
proof -
  obtain c' hdone recs ticket cv fin t4 r r' ra k hin where f:
    "reality_handshake B H X (lib_impl H) lib_ops D E ch hello c = (c', Ret hdone)"
    "map length recs = map fst (flight_records mode lens [eeb, cb, cv, fin])" "length ticket = lens ! 6"
    "flight_messages B H D cs h shared (d_write t0 sh) eeb cb cv fin t4"
    "handshake_reader H cs h shared (d_write t0 sh) r0 = Ret r"
    "decrypt_all lib_ops r recs = (r', Ret (map (\<lambda>(_, p). (recordTypeHandshake, p)) (flight_records mode lens [eeb, cb, cv, fin])))"
    "flight_end H cs h shared t4 r0 c c' (plain_flight sh @ concat recs) ticket ra k hin"
    by (rule flight_sent [OF assms(1-5,7)])
  obtain g d j where g: "c' = c\<lparr>c_cipherSuite := cs13_id cs, c_in := hin, c_out := g, c_draws := d, buffering := False,
      sendBuf := [], net_out := net_out c @ (plain_flight sh @ concat recs) @ ticket, bytesSent := bytesSent c + j\<rparr>"
    "version g = VersionTLS13" "hc_err g = None" "aead_sync lib_ops gcm_pair k g ra"
    using f(7) by (auto simp: flight_end_def)
  obtain ra0 where ra0: "application_reader H cs h shared t4 r0 = Ret ra0"
    "if ticket = [] then k = 0 \<and> ra = ra0 else k = 1 \<and> decrypt lib_ops ra0 ticket = (ra, Ret ([], recordTypeApplicationData))"
    using f(7) by (auto simp: flight_end_def)
  have "hc_err ra0 = None"
    using ra0(1) setTrafficSecret_fields(3) assms(6) by (fastforce simp: application_reader_def exec_simps)
  then have "hc_err ra = None"
    using ra0(2) decrypt_keeps [of lib_ops ra0 ticket ra] by (auto split: if_splits)
  then have "linked k (c'\<lparr>isHandshakeComplete := True\<rparr>) (idle_conn ra hout)"
    using g assms(4,8-10)
    by (simp add: linked_def writer_ready_def reader_ready_def idle_conn_def stream_of_def in_sync_def VersionTLS13_def
        fresh_server_def)
  moreover have "net_out c' = net_out c @ (plain_flight sh @ concat recs) @ ticket"
    by (simp add: g(1))
  moreover have "if ticket = [] then ra = ra0 else decrypt lib_ops ra0 ticket = (ra, Ret ([], recordTypeApplicationData))"
    using ra0(2) by (auto split: if_splits)
  ultimately show ?thesis
    using f(1,3,4) ra0(1) by blast
qed

theorem reality_hands_over_witness:
  "\<exists>c' hdone cr k.
     reality_handshake ref_builder toy_hashes demo_kex (lib_impl toy_hashes) lib_ops demo_identity demo_env reality_hello
       target_hello demo_fresh = (c', Ret hdone) \<and> linked k (c'\<lparr>isHandshakeComplete := True\<rparr>) cr"
proof -
  obtain h shared sh cert t0 eeb cb where
    I: "flight_inputs ref_builder toy_hashes demo_kex demo_identity demo_env reality_hello target_hello (cipherSuitesTLS13 ! 0)
       h shared sh cert t0 eeb cb" "room None demo_lens (length eeb) (length cb) (h_size h)"
    by (rule demo_flight)
  have half: "tls13_half (tls13_zero :: (rc4, gcm_aead, aes_cbc, hash_fn \<times> bytes) halfConn)"
    "hc_err (tls13_zero :: (rc4, gcm_aead, aes_cbc, hash_fn \<times> bytes) halfConn) = None"
    by (simp_all add: tls13_half_def tls13_zero_def zero_half_def)
  have c: "\<And>i. rand_ok (c_rand demo_fresh i)" "\<not> closeNotifySent demo_fresh" "activeCall demo_fresh AND 1 = 0"
    by (simp_all add: rand_ok_def demo_fresh_def idle_conn_def)
  from reality_hands_over [OF ref_builder.cryptobyte_Builder_axioms wf_toy_hashes I(1) fresh_demo half I(2) c, of zero_half]
  show ?thesis
    by blast
qed

text \<open>C5: The handshake completes exactly when the first handshake message of the client is a Finished with
  the hash of the transcript under the client's handshake secret; then the read side has the client's
  application secret.  Nobody who lacks the shared secret is let in.\<close>

theorem client_confirmed:
  assumes "cryptobyte_Builder B" and "wf_hashes H" and "flight_inputs B H X D E ch hello cs h shared sh cert t0 eeb cb"
    and "fresh_server lens mode c" and "room mode lens (length eeb) (length cb) (h_size h)"
  shows "\<exists>c1 hdone cv fin t4 secret. reality_handshake B H X (lib_impl H) lib_ops D E ch hello c = (c1, Ret hdone) \<and>
     flight_messages B H D cs h shared (d_write t0 sh) eeb cb cv fin t4 \<and>
     client_secret h shared (d_write t0 sh) = Ret secret \<and> ks_finishedHash H cs secret t4 = Ret (hd_clientFinished hdone) \<and>
     (case readHandshake R lib_ops c1 None of (c2, t, r) \<Rightarrow>
        case complete_handshake B R H X (lib_impl H) lib_ops D E ch hello c of (c', r') \<Rightarrow>
          (r' = Ret () \<longleftrightarrow> r = Ret (Finished \<lparr>fin_verifyData = hd_clientFinished hdone\<rparr>)) \<and>
          (r' = Ret () \<longrightarrow> isHandshakeComplete c' \<and> client_application_secret h shared t4 = Ret (trafficSecret (c_in c'))))"
proof -
  have half: "tls13_half (c_in c)"
    using assms(4) by (simp add: fresh_server_def)
  obtain c1 hdone recs ticket cv fin t4 r r' ra k hin where f:
    "reality_handshake B H X (lib_impl H) lib_ops D E ch hello c = (c1, Ret hdone)"
    "map length recs = map fst (flight_records mode lens [eeb, cb, cv, fin])" "length ticket = lens ! 6"
    "flight_messages B H D cs h shared (d_write t0 sh) eeb cb cv fin t4"
    "handshake_reader H cs h shared (d_write t0 sh) (c_in c) = Ret r"
    "decrypt_all lib_ops r recs = (r', Ret (map (\<lambda>(_, p). (recordTypeHandshake, p)) (flight_records mode lens [eeb, cb, cv, fin])))"
    "flight_end H cs h shared t4 (c_in c) c c1 (plain_flight sh @ concat recs) ticket ra k hin"
    "client_secret h shared (d_write t0 sh) = Ret (trafficSecret hin)"
    "client_application_secret h shared t4 = Ret (hd_trafficSecret hdone)"
    "ks_finishedHash H cs (trafficSecret hin) t4 = Ret (hd_clientFinished hdone)"
    by (rule flight_sent [OF assms(1-4) half assms(5)])
  have cs: "cipherSuiteTLS13ByID (sh_cipherSuite hello) = Some cs"
    using assms(3) by (simp add: flight_inputs_def)
  have key: "\<exists>x. setTrafficSecret H (im_aead (lib_impl H) (cs13_aead cs)) g cs l secret = Ret x" for g l secret
    using setTrafficSecret_total [OF assms(2) suite_known [OF cs]] assms(3) by (simp add: flight_inputs_def)
  obtain c2 t m where read: "readHandshake R lib_ops c1 None = (c2, t, m)"
    by (rule prod_cases3)
  let ?done = "complete_handshake B R H X (lib_impl H) lib_ops D E ch hello c"
  have "(snd ?done = Ret () \<longleftrightarrow> m = Ret (Finished \<lparr>fin_verifyData = hd_clientFinished hdone\<rparr>)) \<and>
      (snd ?done = Ret () \<longrightarrow> isHandshakeComplete (fst ?done) \<and>
         client_application_secret h shared t4 = Ret (trafficSecret (c_in (fst ?done))))"
  proof (cases "\<exists>fin. m = Ret (Finished fin) \<and> fin_verifyData fin = hd_clientFinished hdone")
    case True
    obtain x where x: "setTrafficSecret H (im_aead (lib_impl H) (cs13_aead cs)) (c_in c2) cs QUICEncryptionLevelApplication
        (hd_trafficSecret hdone) = Ret x"
      using key by blast
    have "?done = (c2\<lparr>c_in := x, isHandshakeComplete := True\<rparr>, Ret ())"
      using True by (auto simp: complete_handshake_def f(1) compute_def deref_def cs readClientFinished_def read x)
    then show ?thesis
      using True f(9) setTrafficSecret_fields(1) [OF x] by auto
  next
    case False
    have "snd ?done \<noteq> Ret ()"
      using False
      by (auto simp: complete_handshake_def f(1) compute_def deref_def cs readClientFinished_def read and_then_def
          split: exec.splits handshakeMessage.splits prod.splits if_splits)
    with False show ?thesis
      by auto
  qed
  then have "case readHandshake R lib_ops c1 None of (c2, t, r) \<Rightarrow> case ?done of (c', r') \<Rightarrow>
      (r' = Ret () \<longleftrightarrow> r = Ret (Finished \<lparr>fin_verifyData = hd_clientFinished hdone\<rparr>)) \<and>
      (r' = Ret () \<longrightarrow> isHandshakeComplete c' \<and> client_application_secret h shared t4 = Ret (trafficSecret (c_in c')))"
    by (cases ?done) (simp add: read)
  with f(1,4,8,10) show ?thesis
    by (intro exI conjI)
qed

theorem client_confirmed_witness:
  "\<exists>c1 hdone. reality_handshake ref_builder toy_hashes demo_kex (lib_impl toy_hashes) lib_ops demo_identity demo_env
       reality_hello target_hello demo_fresh = (c1, Ret hdone) \<and>
     (case readHandshake ref_reader lib_ops c1 None of (c2, t, r) \<Rightarrow>
        case complete_handshake ref_builder ref_reader toy_hashes demo_kex (lib_impl toy_hashes) lib_ops demo_identity demo_env
               reality_hello target_hello demo_fresh of (c', r') \<Rightarrow>
          (r' = Ret () \<longleftrightarrow> r = Ret (Finished \<lparr>fin_verifyData = hd_clientFinished hdone\<rparr>)))"
proof -
  obtain h shared sh cert t0 eeb cb where
    I: "flight_inputs ref_builder toy_hashes demo_kex demo_identity demo_env reality_hello target_hello (cipherSuitesTLS13 ! 0)
       h shared sh cert t0 eeb cb" "room None demo_lens (length eeb) (length cb) (h_size h)"
    by (rule demo_flight)
  from client_confirmed [OF ref_builder.cryptobyte_Builder_axioms wf_toy_hashes I(1) fresh_demo I(2), of ref_reader]
  show ?thesis
    by fastforce
qed

end
