(* ===== verification/RealityTickets.thy ===== *)
theory RealityTickets
  imports RealityFlight
begin

text \<open>
  Session tickets and the recorded lengths.  A ticket is written at the end of \<open>sendServerFinished\<close>, with
  the length recorded for it; here the whole handshake is followed to that point, through every message
  and every change of keys, to see what is left in \<open>handshakeLen\<close>.
\<close>

section \<open>What writing leaves in \<open>handshakeLen\<close>\<close>

text \<open>The target's flight was recorded, and there was no ticket in it.\<close>

definition no_ticket :: "('s, 'a, 'c, 'm) conn \<Rightarrow> bool" where
  "no_ticket c \<longleftrightarrow> c_vers c = VersionTLS13 \<and> version (c_out c) = VersionTLS13 \<and>
     handshakeLen (c_out c) ! 1 \<noteq> 0 \<and> handshakeLen (c_out c) ! 6 = 0 \<and> length (handshakeLen (c_out c)) = 7"

definition keeps_lens :: "('s, 'a, 'c, 'm) conn \<Rightarrow> ('s, 'a, 'c, 'm) conn \<Rightarrow> bool" where
  "keeps_lens c c' \<longleftrightarrow> (no_ticket c \<longrightarrow> no_ticket c') \<and> handshakeBuf (c_out c') = handshakeBuf (c_out c)"

lemma keeps_refl [simp]: "keeps_lens c c"
  by (simp add: keeps_lens_def)

lemma keeps_trans: "keeps_lens a b \<Longrightarrow> keeps_lens b c \<Longrightarrow> keeps_lens a c"
  by (simp add: keeps_lens_def)

lemma keeps_updates [simp]:
  "keeps_lens c (c\<lparr>packetsSent := k\<rparr>)" "keeps_lens c (c\<lparr>c_in := h\<rparr>)"
  "keeps_lens c (c\<lparr>c_out := h', c_draws := k\<rparr>) \<longleftrightarrow> keeps_lens c (c\<lparr>c_out := h'\<rparr>)"
  by (simp_all add: keeps_lens_def no_ticket_def)

lemma slot_not_1: "handshake_slot t = Some i \<Longrightarrow> i \<noteq> 1"
  by (simp add: handshake_slot_def split: if_splits)

lemma no_room_left: "length lens = 7 \<Longrightarrow> (lens :: nat list) ! 6 = 0 \<Longrightarrow> lens[i := 0] ! 6 = 0"
  by (cases "i = 6") simp_all

lemma padding_lens:
  assumes "encrypt_padding n lens p rec = (lens', r)"
  shows "lens' ! 1 = lens ! 1 \<and> length lens' = length lens \<and> (length lens = 7 \<longrightarrow> lens ! 6 = 0 \<longrightarrow> lens' ! 6 = 0)"
  using assms slot_not_1 [of "p ! 0"]
  by (auto simp: encrypt_padding_def Let_def no_room_left split: if_splits option.splits)

definition same_lens :: "('s, 'a, 'c, 'm) halfConn \<Rightarrow> ('s, 'a, 'c, 'm) halfConn \<Rightarrow> bool" where
  "same_lens h h' \<longleftrightarrow> version h' = version h \<and> handshakeBuf h' = handshakeBuf h \<and>
     handshakeLen h' ! 1 = handshakeLen h ! 1 \<and> length (handshakeLen h') = length (handshakeLen h) \<and>
     (length (handshakeLen h) = 7 \<longrightarrow> handshakeLen h ! 6 = 0 \<longrightarrow> handshakeLen h' ! 6 = 0)"

lemma same_lens_simps [simp]:
  "same_lens h h" "same_lens h (h\<lparr>hc_cipher := x\<rparr>)" "same_lens h (h'\<lparr>hc_cipher := x\<rparr>) \<longleftrightarrow> same_lens h h'"
  "same_lens h (h'\<lparr>hc_seq := s\<rparr>) \<longleftrightarrow> same_lens h h'"
  by (simp_all add: same_lens_def)

lemma encrypt_aead13_lens: "same_lens h (fst (encrypt_aead13 K h a nonce rec p))"
proof -
  obtain lens r where e: "encrypt_padding (o_Overhead K a) (handshakeLen h) p (rec @ p @ [rec ! 0]) = (lens, r)"
    by fastforce
  have "same_lens h (h\<lparr>handshakeLen := lens\<rparr>)"
    using padding_lens [OF e] by (simp add: same_lens_def)
  then show ?thesis
    by (simp add: encrypt_aead13_def e Let_def split: exec.splits)
qed

lemma encrypt_cipher_lens: "same_lens h (fst (encrypt_cipher K h n rec p))"
  using encrypt_aead13_lens [of h K]
  by (auto simp: encrypt_cipher_def Let_def split: hc_cipher.splits option.splits exec.splits prod.splits)

lemma encrypt_lens: "same_lens h (fst (encrypt K h rec p rand))"
proof -
  have seq: "same_lens h h1 \<Longrightarrow> same_lens h (fst (then_incSeq (h1, r)))" for h1 and r :: "bytes exec"
    by (auto simp: then_incSeq_def incSeq_def split: exec.splits option.splits)
  show ?thesis
    using seq [OF encrypt_cipher_lens] by (simp add: encrypt_def split_beta split: exec.splits)
qed

lemma encrypt_keeps_lens:
  "encrypt K (c_out c) rec p rand = (h, r) \<Longrightarrow> keeps_lens c (c\<lparr>c_out := h\<rparr>)"
  using encrypt_lens [of "c_out c" K rec p rand] by (auto simp: keeps_lens_def no_ticket_def same_lens_def)

lemma conn_write_keeps: "keeps_lens c (fst (conn_write c d))"
  by (auto simp: conn_write_def net_write_def keeps_lens_def no_ticket_def split: list.splits)

lemma write_one_keeps: "keeps_lens c (fst (write_one K c ty data))"
proof -
  obtain c1 r where p: "maxPayloadSizeForWrite K c ty = (c1, r)"
    by fastforce
  have c1: "keeps_lens c c1"
    using p by (auto simp: maxPayloadSizeForWrite_def Let_def split: if_splits exec.splits)
  show ?thesis
  proof (cases r)
    case (Ret x)
    let ?m = "if int (length data) > x then nat x else length data"
    obtain h o1 where e: "encrypt K (c_out c1) (record_header ty (wire_vers (c_vers c1)) ?m) (take ?m data)
        (c_rand c1 (c_draws c1)) = (h, o1)"
      by fastforce
    let ?c2 = "c1\<lparr>c_out := h, c_draws := c_draws c1 + 1\<rparr>"
    have c2: "keeps_lens c ?c2"
      by (rule keeps_trans [OF c1]) (simp add: encrypt_keeps_lens [OF e])
    have c3: "keeps_lens c (fst (conn_write ?c2 b))" for b
      by (rule keeps_trans [OF c2]) (rule conn_write_keeps)
    show ?thesis
    proof (cases o1)
      case (Ret b)
      obtain c4 n4 e4 where "conn_write ?c2 b = (c4, n4, e4)"
        using prod_cases3 by blast
      then show ?thesis
        using c1 c3 [of b] Ret \<open>r = Ret x\<close> by (simp add: write_one_def p Let_def e)
    qed (use c1 c2 Ret e in \<open>simp_all add: write_one_def p Let_def\<close>)
  qed (use c1 p in \<open>simp_all add: write_one_def\<close>)
qed

lemma write_loop_keeps: "keeps_lens c (fst (write_loop K ty c data n))"
proof (induction K ty c data n rule: write_loop.induct)
  case (1 K ty c data n)
  obtain c1 r where w: "write_one K c ty data = (c1, r)"
    by fastforce
  have "keeps_lens c c1"
    using write_one_keeps [of c K ty data] by (simp add: w)
  then show ?case
    using 1 w by (cases r) (auto simp: write_loop.simps [of K ty c data n] intro: keeps_trans)
qed

lemma writeRecordLocked_keeps:
  assumes "writeRecordLocked K c ty data = (c', n, Ret ())" "no_ticket c"
  shows "no_ticket c' \<and> handshakeBuf (c_out c') = handshakeBuf (c_out c)"
proof -
  obtain c1 m r where w: "write_loop K ty c data 0 = (c1, m, r)"
    using prod_cases3 by blast
  have "no_ticket c1 \<and> handshakeBuf (c_out c1) = handshakeBuf (c_out c)"
    using write_loop_keeps [of c K ty data 0] assms(2) by (simp add: w keeps_lens_def)
  then show ?thesis
    using assms(1) by (simp add: writeRecordLocked_def w no_ticket_def)
qed

section \<open>The steps of the handshake\<close>

text \<open>A step that succeeds leaves \<open>no_ticket\<close>.\<close>

lemma hs_write_keeps:
  assumes "hs_write B K st msg = (st', Ret ())" "no_ticket (rs_conn st)"
  shows "no_ticket (rs_conn st')"
proof -
  obtain data where d: "hm_marshal B msg = Ret data"
    using assms(1) by (cases "hm_marshal B msg") (auto simp: hs_write_def writeHandshakeRecord_def)
  obtain h out where c: "collect (c_out (rs_conn st)) data = (h, out)"
    by fastforce
  let ?c = "(rs_conn st)\<lparr>c_out := h\<rparr>"
  have "no_ticket ?c"
    using c assms(2) by (auto simp: collect_def no_ticket_def split: option.splits if_splits)
  then show ?thesis
    using assms(1) d c by (cases out) (auto simp: hs_write_def writeHandshakeRecord_def Let_def
        dest: writeRecordLocked_keeps split: prod.splits)
qed

text \<open>After Finished nothing is collected any more.\<close>

lemma hs_write_finished:
  assumes "hs_write B K st (Finished m) = (st', Ret ())" "no_ticket (rs_conn st)" "cryptobyte_Builder B"
  shows "handshakeBuf (c_out (rs_conn st')) = None"
proof -
  obtain data where d: "hm_marshal B (Finished m) = Ret data"
    using assms(1) by (cases "hm_marshal B (Finished m)") (auto simp: hs_write_def writeHandshakeRecord_def)
  then have first: "data \<noteq> []" "data ! 0 = typeFinished"
    using cryptobyte_Builder.fin_marshal_enc [OF assms(3)] by (auto elim!: hs_msgE)
  then obtain h b where c: "collect (c_out (rs_conn st)) data = (h, Some b)" "handshakeBuf h = None"
    by (cases "handshakeBuf (c_out (rs_conn st))") (simp_all add: collect_def handshake_types)
  let ?c = "(rs_conn st)\<lparr>c_out := h\<rparr>"
  have "no_ticket ?c" "handshakeBuf (c_out ?c) = None"
    using c assms(2) by (auto simp: collect_def no_ticket_def split: option.splits if_splits)
  then show ?thesis
    using assms(1) d c by (auto simp: hs_write_def writeHandshakeRecord_def Let_def
        dest: writeRecordLocked_keeps split: prod.splits)
qed

lemma hs_write_step: "hs_write B K st msg = (st', Ret ()) \<Longrightarrow> no_ticket (rs_conn st) \<longrightarrow> no_ticket (rs_conn st')"
  using hs_write_keeps by blast

lemma hs_keyLog_Ret: "hs_keyLog K E ch st label secret = (st', Ret ()) \<Longrightarrow> st' = st"
  by (auto simp: hs_keyLog_def hs_alert_def split: option.splits prod.splits exec.splits)

lemma set_keeps:
  "set_in H I cs st lvl secret = Ret st' \<Longrightarrow> no_ticket (rs_conn st) \<longrightarrow> no_ticket (rs_conn st')"
  "set_out H I cs st lvl secret = Ret st' \<Longrightarrow> no_ticket (rs_conn st) \<longrightarrow> no_ticket (rs_conn st')"
  by (auto simp: set_in_def set_out_def exec_simps no_ticket_def setTrafficSecret_def)

lemma ccs_keeps:
  "writeChangeCipherRecord K c = (c', Ret ()) \<Longrightarrow> no_ticket c \<longrightarrow> no_ticket c'"
  by (auto simp: writeChangeCipherRecord_def dest: writeRecordLocked_keeps split: prod.splits)

lemma and_then_RetE:
  assumes "and_then r f = (y, Ret x)"
  obtains z v where "r = (z, Ret v)" "f z v = (y, Ret x)"
  using assms by (cases r rule: prod.exhaust; cases "snd r") auto

lemma compute_RetE:
  assumes "compute st r f = (y, Ret x)"
  obtains v where "r = Ret v" "f st v = (y, Ret x)"
  using assms by (cases r) (auto simp: compute_def)

lemma change_RetE:
  assumes "change st r f = (y, Ret x)"
  obtains st' where "r = Ret st'" "f st' = (y, Ret x)"
  using assms by (cases r) (auto simp: change_def)

lemmas step_elims = and_then_RetE compute_RetE change_RetE

lemma sendServerParameters_keeps:
  assumes "sendServerParameters B H I K E ch hello cs shared st = (st', Ret hs)" "no_ticket (rs_conn st)"
  shows "no_ticket (rs_conn st')"
  using assms unfolding sendServerParameters_def Let_def
  by (elim step_elims) (auto dest!: hs_keyLog_Ret hs_write_step set_keeps ccs_keeps split: prod.splits)

lemma sendServerCertificate_keeps:
  assumes "sendServerCertificate B H K D E cert st = (st', Ret ())" "no_ticket (rs_conn st)" "\<not> he_requestCert E"
  shows "no_ticket (rs_conn st')"
  using assms unfolding sendServerCertificate_def
  by (auto elim!: step_elims simp: hs_alert_def typeAndHashFromSignatureScheme_def sig_type_def sig_hash_def signature_ids dest!: hs_write_step
      split: prod.splits exec.splits)


lemma sendServerFinished_fails:
  assumes "cryptobyte_Builder B" "no_ticket (rs_conn st)" "shouldSendSessionTickets E ch" "\<not> he_requestCert E"
    and "\<And>k iv a. im_aead I (cs13_aead cs) k iv = Ret a \<Longrightarrow> o_explicitNonceLen K a = 0"
  shows "sendServerFinished B H I K E ch cs hs st \<noteq> (st', Ret hdone)"
proof
  assume "sendServerFinished B H I K E ch cs hs st = (st', Ret hdone)"
  then obtain vd st1 ms secret st2 x where w: "hs_write B K st (Finished \<lparr>fin_verifyData = vd\<rparr>) = (st1, Ret ())"
    and o: "set_out H I cs st1 QUICEncryptionLevelApplication secret = Ret st2"
    and t: "sendSessionTickets B H K E ch cs ms st2 = (st', Ret x)"
    unfolding sendServerFinished_def
    by (elim step_elims) (use assms(4) in \<open>auto dest!: hs_keyLog_Ret split: prod.splits\<close>)
  have "no_ticket (rs_conn st1)" "handshakeBuf (c_out (rs_conn st1)) = None"
    using hs_write_keeps [OF w assms(2)] hs_write_finished [OF w assms(2,1)] by blast+
  then have "no_ticket (rs_conn st2)" "handshakeBuf (c_out (rs_conn st2)) = None"
    using set_keeps(2) [OF o] o by (auto simp: set_out_def setTrafficSecret_def exec_simps)
  moreover have "\<exists>a. hc_cipher (c_out (rs_conn st2)) = Aead a \<and> o_explicitNonceLen K a = 0"
    using o assms(5) by (auto simp: set_out_def setTrafficSecret_def exec_simps)
  ultimately show False
    using sendSessionTickets_fail [OF assms(1) _ _ _ assms(3), of K st2 H cs ms x] t
    by (simp add: no_ticket_def reality_writer_def)
qed

section \<open>Property\<close>

text \<open>C17: when the target sent no session ticket, a REALITY server that is configured for session tickets
  cannot complete a handshake with any client that offers \<open>psk_dhe_ke\<close> (and is not asked for a certificate):
  whatever the keys, the messages and the collecting of records, \<open>handshake\<close> fails, at the latest with
  the ticket, for which no length was recorded; so the second goroutine of \<open>Server\<close> does not mark the
  handshake complete.\<close>

theorem real_tickets_fail:
  assumes "cryptobyte_Builder B" and "no_ticket c"
    and "shouldSendSessionTickets E ch" and "\<not> he_requestCert E"
    and "\<forall>cs \<in> set cipherSuitesTLS13. \<forall>k iv a. im_aead I (cs13_aead cs) k iv = Ret a \<longrightarrow> o_explicitNonceLen K a = 0"
  shows "snd (reality_handshake B H X I K D E ch hello c) \<noteq> Ret hdone \<and>
     snd (complete_handshake B R H X I K D E ch hello c) \<noteq> Ret ()"
proof -
  have no_handshake: "reality_handshake B H X I K D E ch hello c \<noteq> (c', Ret hd)" for c' hd
  proof
    assume run: "reality_handshake B H X I K D E ch hello c = (c', Ret hd)"
    then obtain cs h kx cert where cs: "cipherSuiteTLS13ByID (sh_cipherSuite hello) = Some cs"
      and r: "suite_hash H cs = Ret h" "key_exchange X ch hello = Ret kx" "reality_cert H D (he_AuthKey E) = Ret cert"
      unfolding reality_handshake_def Let_def
      by (elim step_elims) (auto simp: deref_def elim!: step_elims split: option.splits prod.splits)
    define st where "st = \<lparr>rs_conn = c\<lparr>c_cipherSuite := cs13_id cs, buffering := True\<rparr>, rs_transcript = d_new h\<rparr>"
    obtain hs st1 st2 st3 where p: "sendServerParameters B H I K E ch (fst kx) cs (snd kx) st = (st1, Ret hs)"
      and q: "sendServerCertificate B H K D E cert st1 = (st2, Ret ())"
      and f: "sendServerFinished B H I K E ch cs hs st2 = (st3, Ret hd)"
      using run cs r
      by (cases kx) (auto simp: reality_handshake_def compute_def deref_def st_def Let_def elim!: and_then_RetE split: prod.splits
          if_splits option.splits)
    have "no_ticket (rs_conn st)"
      using assms(2) by (simp add: st_def no_ticket_def)
    then have "no_ticket (rs_conn st2)"
      using sendServerParameters_keeps [OF p] sendServerCertificate_keeps [OF q _ assms(4)] by blast
    then show False
      using sendServerFinished_fails [OF assms(1) _ assms(3,4)] assms(5) suite_known [OF cs] f by blast
  qed
  then have "complete_handshake B R H X I K D E ch hello c \<noteq> (c', Ret ())" for c'
    by (auto simp: complete_handshake_def elim!: and_then_RetE)
  with no_handshake show ?thesis
    by (metis prod.collapse)
qed

text \<open>The server of \<open>demo_flight\<close>, with session tickets and a target that sends none.\<close>

definition tickets_on_env :: hs_env where
  "tickets_on_env = demo_env\<lparr>he_ticketsDisabled := False, he_WrapSession := Some (\<lambda>s. Ret [1, 2, 3])\<rparr>"

definition ticketless_conn :: "(rc4, gcm_aead, aes_cbc, hash_fn \<times> bytes) conn" where
  "ticketless_conn =
     (idle_conn tls13_zero (tls13_zero\<lparr>handshakeLen := [127, 6, 100, 300, 110, 80, 0]\<rparr>))\<lparr>isHandshakeComplete := False\<rparr>"

theorem real_tickets_fail_witness:
  "handshakeLen (c_out ticketless_conn) ! 6 = 0 \<and>
     snd (complete_handshake ref_builder ref_reader toy_hashes demo_kex (lib_impl toy_hashes) lib_ops demo_identity tickets_on_env
            (reality_hello\<lparr>ch_pskModes := [1]\<rparr>) target_hello ticketless_conn) \<noteq> Ret ()"
proof -
  have c: "no_ticket ticketless_conn"
    by (simp add: no_ticket_def ticketless_conn_def idle_conn_def tls13_zero_def zero_half_def)
  have E: "shouldSendSessionTickets tickets_on_env (reality_hello\<lparr>ch_pskModes := [1]\<rparr>)" "\<not> he_requestCert tickets_on_env"
    by (simp_all add: shouldSendSessionTickets_def tickets_on_env_def demo_env_def pskModeDHE_def)
  have "\<forall>cs \<in> set cipherSuitesTLS13. \<forall>k iv a.
      im_aead (lib_impl toy_hashes) (cs13_aead cs) k iv = Ret a \<longrightarrow> o_explicitNonceLen lib_ops a = 0"
    by (auto simp: cipherSuitesTLS13_def lib_impl_def lib_ops_def exec_simps ga_explicitNonceLen_def xn_explicitNonceLen_def)
  from real_tickets_fail [OF ref_builder.cryptobyte_Builder_axioms c E this] c show ?thesis
    by (metis no_ticket_def)
qed

end
