(* ===== verification/KeyAgreement.thy ===== *)
theory KeyAgreement
  imports Auth Messages12
begin

text \<open>
  The key agreements of TLS 1.0 to 1.2 (\<open>key_agreement.go\<close>): RSA key transport and signed ephemeral ECDH.
  The libraries \<open>crypto/ecdh\<close> and \<open>crypto/rsa\<close> and the private key of the certificate are parameters; what is
  used of them are the laws of the locales \<open>ecdh_library\<close> and \<open>certificate_key\<close>.
\<close>

section \<open>The libraries\<close>

text \<open>\<open>dh_NewPublicKey\<close> is \<open>key.Curve().NewPublicKey\<close>, \<open>dh_PublicKey\<close> is \<open>key.PublicKey().Bytes()\<close>.\<close>

record ('k, 'p) dh_lib =
  dh_PublicKey :: "'k \<Rightarrow> bytes"
  dh_NewPublicKey :: "'k \<Rightarrow> bytes \<Rightarrow> 'p exec"
  dh_ECDH :: "'k \<Rightarrow> 'p \<Rightarrow> bytes exec"

text \<open>
  The certificate with its private key.  \<open>Sign\<close> gets the type of signature, which decides on PSS options,
  and the hash; \<open>Decrypt\<close> is \<open>None\<close> when the key is no \<open>crypto.Decrypter\<close>.
\<close>

record private_cert =
  pc_cert :: signing_cert
  pc_Sign :: "byte \<Rightarrow> crypto_hash \<Rightarrow> bytes \<Rightarrow> bytes exec"
  pc_Decrypt :: "(bytes \<Rightarrow> bytes exec) option"

definition errClientKeyExchange :: err where
  "errClientKeyExchange = ErrMsg ''tls: invalid ClientKeyExchange message''"
definition errServerKeyExchange :: err where
  "errServerKeyExchange = ErrMsg ''tls: invalid ServerKeyExchange message''"

section \<open>RSA key transport\<close>

definition rsa_generateServerKeyExchange :: "serverKeyExchangeMsg option exec" where
  "rsa_generateServerKeyExchange = Ret None"

definition rsa_processClientKeyExchange :: "private_cert \<Rightarrow> clientKeyExchangeMsg \<Rightarrow> bytes exec" where
  "rsa_processClientKeyExchange cert ckx =
     (let ct = ckx_ciphertext ckx
      in if length ct < 2 then Fail errClientKeyExchange
         else if get_be (take 2 ct) \<noteq> length ct - 2 then Fail errClientKeyExchange
         else case pc_Decrypt cert of
                None \<Rightarrow> Fail (ErrMsg ''tls: certificate private key does not implement crypto.Decrypter'')
              | Some decrypter \<Rightarrow> decrypter (drop 2 ct))"

definition rsa_processServerKeyExchange :: "unit exec" where
  "rsa_processServerKeyExchange = Fail (ErrMsg ''tls: unexpected ServerKeyExchange'')"

text \<open>\<open>encrypt\<close> is \<open>rsa.EncryptPKCS1v15\<close> with the key of the certificate, \<open>rand\<close> is \<open>io.ReadFull\<close>.\<close>

definition rsa_generateClientKeyExchange ::
  "(nat \<Rightarrow> bytes exec) \<Rightarrow> (bytes \<Rightarrow> bytes exec) \<Rightarrow> clientHelloMsg \<Rightarrow> public_key \<Rightarrow> (bytes \<times> clientKeyExchangeMsg) exec" where
  "rsa_generateClientKeyExchange rand encrypt clientHello pub =
     exec_bind (rand 46) (\<lambda>r.
     let preMasterSecret = put_u16 (ch_vers clientHello) @ r
     in case pub of
          RsaKey _ _ \<Rightarrow>
            exec_bind (encrypt preMasterSecret) (\<lambda>encrypted.
            Ret (preMasterSecret, \<lparr>ckx_ciphertext = put_be 2 (length encrypted) @ encrypted\<rparr>))
        | _ \<Rightarrow> Fail (ErrMsg ''tls: server certificate contains incorrect key type for selected ciphersuite''))"

section \<open>Hashes of the signed parameters\<close>

definition write_all :: "digest \<Rightarrow> bytes list \<Rightarrow> digest" where
  "write_all d slices = fold (\<lambda>s d. d_write d s) slices d"

definition sha1Hash :: "std_hashes \<Rightarrow> bytes list \<Rightarrow> bytes" where
  "sha1Hash H slices = d_sum (write_all (d_new (sha1_h H)) slices)"

definition md5SHA1Hash :: "std_hashes \<Rightarrow> bytes list \<Rightarrow> bytes" where
  "md5SHA1Hash H slices =
     (let md5sha1 = go_copy (replicate (16 + 20) 0) (d_sum (write_all (d_new (md5_h H)) slices))
      in take 16 md5sha1 @ go_copy (drop 16 md5sha1) (sha1Hash H slices))"

definition hashForServerKeyExchange ::
  "std_hashes \<Rightarrow> byte \<Rightarrow> crypto_hash \<Rightarrow> u16 \<Rightarrow> bytes list \<Rightarrow> bytes exec" where
  "hashForServerKeyExchange H sigType hashFunc vers slices =
     (if sigType = signatureEd25519 then Ret (concat slices)
      else if vers \<ge> VersionTLS12 then exec_bind (hash_New H hashFunc) (\<lambda>h. Ret (d_sum (write_all (d_new h) slices)))
      else if sigType = signatureECDSA then Ret (sha1Hash H slices)
      else Ret (md5SHA1Hash H slices))"

section \<open>Ephemeral ECDH\<close>

record 'k ecdheKeyAgreement =
  ka_version :: u16
  ka_isRSA :: bool
  ka_key :: "'k option"
  ka_ckx :: "clientKeyExchangeMsg option"
  ka_preMasterSecret :: bytes

definition is_rsa_sig :: "byte \<Rightarrow> bool" where
  "is_rsa_sig sigType \<longleftrightarrow> sigType = signaturePKCS1v15 \<or> sigType = signatureRSAPSS"

definition ecdhe_params :: "CurveID \<Rightarrow> bytes \<Rightarrow> bytes" where
  "ecdhe_params curveID ecdhePublic = [3] @ put_u16 curveID @ [of_nat (length ecdhePublic)] @ ecdhePublic"

definition nil_key :: "'k option \<Rightarrow> 'k exec" where
  "nil_key k = (case k of None \<Rightarrow> Panic ''nil pointer dereference'' | Some k \<Rightarrow> Ret k)"

text \<open>The scheme, its type and its hash; the scheme is only used from TLS 1.2 on.\<close>

definition server_scheme ::
  "bool \<Rightarrow> u16 \<Rightarrow> signing_cert \<Rightarrow> public_key \<Rightarrow> SignatureScheme list \<Rightarrow> (SignatureScheme \<times> byte \<times> crypto_hash) exec" where
  "server_scheme fips vers cert pub peerAlgs =
     (if vers \<ge> VersionTLS12 then
        exec_bind (selectSignatureScheme fips vers cert peerAlgs) (\<lambda>alg.
        exec_bind (typeAndHashFromSignatureScheme alg) (\<lambda>(sigType, sigHash). Ret (alg, sigType, sigHash)))
      else exec_bind (legacyTypeAndHashFromPublicKey pub) (\<lambda>(sigType, sigHash). Ret (0, sigType, sigHash)))"

definition ecdhe_generateServerKeyExchange ::
  "bool \<Rightarrow> std_hashes \<Rightarrow> ('k, 'p) dh_lib \<Rightarrow> (ecdh_curve \<Rightarrow> 'k exec) \<Rightarrow> config \<Rightarrow> private_cert \<Rightarrow> clientHelloMsg
     \<Rightarrow> serverHelloMsg \<Rightarrow> 'k ecdheKeyAgreement \<Rightarrow> 'k ecdheKeyAgreement \<times> serverKeyExchangeMsg option exec" where
  "ecdhe_generateServerKeyExchange fips H D gen cfg cert clientHello hello ka =
     (let curveID = (case find (supportsCurve fips (Some cfg) (ka_version ka)) (ch_supportedCurves clientHello) of
                       Some c \<Rightarrow> c | None \<Rightarrow> 0)
      in if curveID = 0 then (ka, Fail (ErrMsg ''tls: no supported elliptic curves offered''))
         else if curveForCurveID curveID = None
         then (ka, Fail (ErrMsg ''tls: CurvePreferences includes unsupported curve''))
         else case generateECDHEKey gen curveID of
                Fail e \<Rightarrow> (ka, Fail e)
              | Panic p \<Rightarrow> (ka, Panic p)
              | Ret key \<Rightarrow>
                  let ka = ka\<lparr>ka_key := Some key\<rparr>;
                      serverECDHEParams = ecdhe_params curveID (dh_PublicKey D key)
                  in (ka, case signer_pub (pc_cert cert) of
                            None \<Rightarrow> Fail (ErrMsg ''tls: certificate private key does not implement crypto.Signer'')
                          | Some pub \<Rightarrow>
                              exec_bind (server_scheme fips (ka_version ka) (pc_cert cert) pub
                                           (ch_supportedSignatureAlgorithms clientHello)) (\<lambda>(alg, sigType, sigHash).
                              if is_rsa_sig sigType \<noteq> ka_isRSA ka
                              then Fail (ErrMsg ''tls: certificate cannot be used with the selected cipher suite'')
                              else exec_bind (hashForServerKeyExchange H sigType sigHash (ka_version ka)
                                     [ch_random clientHello, sh_random hello, serverECDHEParams]) (\<lambda>content.
                                   case pc_Sign cert sigType sigHash content of
                                     Fail e \<Rightarrow> Fail (ErrMsg ''tls: failed to sign ECDHE parameters'')
                                   | Panic p \<Rightarrow> Panic p
                                   | Ret sig \<Rightarrow>
                                       Ret (Some \<lparr>skx_key = serverECDHEParams @
                                         (if ka_version ka \<ge> VersionTLS12 then put_u16 alg else []) @
                                         put_be 2 (length sig) @ sig\<rparr>)))))"

definition ecdhe_processClientKeyExchange ::
  "('k, 'p) dh_lib \<Rightarrow> clientKeyExchangeMsg \<Rightarrow> 'k ecdheKeyAgreement \<Rightarrow> bytes exec" where
  "ecdhe_processClientKeyExchange D ckx ka =
     (case ckx_ciphertext ckx of
        [] \<Rightarrow> Fail errClientKeyExchange
      | n # peerPublic \<Rightarrow>
          if unat n \<noteq> length peerPublic then Fail errClientKeyExchange
          else exec_bind (nil_key (ka_key ka)) (\<lambda>key.
               case dh_NewPublicKey D key peerPublic of
                 Fail e \<Rightarrow> Fail errClientKeyExchange
               | Panic p \<Rightarrow> Panic p
               | Ret peerKey \<Rightarrow>
                   (case dh_ECDH D key peerKey of
                      Fail e \<Rightarrow> Fail errClientKeyExchange
                    | r \<Rightarrow> r)))"

text \<open>The client's part of the exchange: its key, the secret and its message.\<close>

definition client_exchange ::
  "('k, 'p) dh_lib \<Rightarrow> (ecdh_curve \<Rightarrow> 'k exec) \<Rightarrow> CurveID \<Rightarrow> bytes \<Rightarrow> 'k ecdheKeyAgreement
     \<Rightarrow> 'k ecdheKeyAgreement \<times> unit exec" where
  "client_exchange D gen curveID publicKey ka =
     (if curveForCurveID curveID = None then (ka, Fail (ErrMsg ''tls: server selected unsupported curve''))
      else case generateECDHEKey gen curveID of
             Fail e \<Rightarrow> (ka, Fail e)
           | Panic p \<Rightarrow> (ka, Panic p)
           | Ret key \<Rightarrow>
               let ka = ka\<lparr>ka_key := Some key\<rparr>
               in (case dh_NewPublicKey D key publicKey of
                     Fail e \<Rightarrow> (ka, Fail errServerKeyExchange)
                   | Panic p \<Rightarrow> (ka, Panic p)
                   | Ret peerKey \<Rightarrow>
                       (case dh_ECDH D key peerKey of
                          Fail e \<Rightarrow> (ka\<lparr>ka_preMasterSecret := []\<rparr>, Fail errServerKeyExchange)
                        | Panic p \<Rightarrow> (ka, Panic p)
                        | Ret secret \<Rightarrow>
                            let ourPublicKey = dh_PublicKey D key
                            in (ka\<lparr>ka_preMasterSecret := secret,
                                  ka_ckx := Some \<lparr>ckx_ciphertext = [of_nat (length ourPublicKey)] @ ourPublicKey\<rparr>\<rparr>,
                                Ret ()))))"

definition client_scheme ::
  "u16 \<Rightarrow> public_key \<Rightarrow> SignatureScheme list \<Rightarrow> bytes \<Rightarrow> (bytes \<times> byte \<times> crypto_hash) exec" where
  "client_scheme vers pub ownAlgs sig =
     (if vers \<ge> VersionTLS12 then
        let signatureAlgorithm = get_u16 (take 2 sig);
            sig = drop 2 sig
        in if length sig < 2 then Fail errServerKeyExchange
           else if \<not> isSupportedSignatureAlgorithm signatureAlgorithm ownAlgs
           then Fail (ErrMsg ''tls: certificate used with invalid signature algorithm'')
           else exec_bind (typeAndHashFromSignatureScheme signatureAlgorithm) (\<lambda>(sigType, sigHash). Ret (sig, sigType, sigHash))
      else exec_bind (legacyTypeAndHashFromPublicKey pub) (\<lambda>(sigType, sigHash). Ret (sig, sigType, sigHash)))"

definition check_signature ::
  "std_hashes \<Rightarrow> verify_lib \<Rightarrow> u16 \<Rightarrow> bool \<Rightarrow> clientHelloMsg \<Rightarrow> serverHelloMsg \<Rightarrow> public_key \<Rightarrow> bytes \<Rightarrow> bytes \<Rightarrow> unit exec" where
  "check_signature H L vers isRSA clientHello serverHello pub serverECDHEParams sig =
     exec_bind (client_scheme vers pub (ch_supportedSignatureAlgorithms clientHello) sig) (\<lambda>(sig, sigType, sigHash).
     if is_rsa_sig sigType \<noteq> isRSA then Fail errServerKeyExchange
     else if get_be (take 2 sig) + 2 \<noteq> length sig then Fail errServerKeyExchange
     else exec_bind (hashForServerKeyExchange H sigType sigHash vers
            [ch_random clientHello, sh_random serverHello, serverECDHEParams]) (\<lambda>content.
          case verifyHandshakeSignature L sigType pub sigHash content (drop 2 sig) of
            Some e \<Rightarrow> Fail (ErrMsg ''tls: invalid signature by the server certificate'')
          | None \<Rightarrow> Ret ()))"

definition ecdhe_processServerKeyExchange ::
  "std_hashes \<Rightarrow> verify_lib \<Rightarrow> ('k, 'p) dh_lib \<Rightarrow> (ecdh_curve \<Rightarrow> 'k exec) \<Rightarrow> clientHelloMsg \<Rightarrow> serverHelloMsg \<Rightarrow> public_key
     \<Rightarrow> serverKeyExchangeMsg \<Rightarrow> 'k ecdheKeyAgreement \<Rightarrow> 'k ecdheKeyAgreement \<times> unit exec" where
  "ecdhe_processServerKeyExchange H L D gen clientHello serverHello pub skx ka =
     (let key = skx_key skx
      in if length key < 4 then (ka, Fail errServerKeyExchange)
         else if key ! 0 \<noteq> 3 then (ka, Fail (ErrMsg ''tls: server selected unsupported curve''))
         else let curveID = get_u16 (take 2 (drop 1 key));
                  publicLen = unat (key ! 3)
              in if publicLen + 4 > length key then (ka, Fail errServerKeyExchange)
                 else let serverECDHEParams = take (4 + publicLen) key;
                          sig = drop (4 + publicLen) key
                      in if length sig < 2 then (ka, Fail errServerKeyExchange)
                         else case client_exchange D gen curveID (drop 4 serverECDHEParams) ka of
                                (ka, Ret _) \<Rightarrow>
                                  (ka, check_signature H L (ka_version ka) (ka_isRSA ka) clientHello serverHello pub
                                         serverECDHEParams sig)
                              | r \<Rightarrow> r)"

definition ecdhe_generateClientKeyExchange :: "'k ecdheKeyAgreement \<Rightarrow> (bytes \<times> clientKeyExchangeMsg) exec" where
  "ecdhe_generateClientKeyExchange ka =
     (case ka_ckx ka of
        None \<Rightarrow> Fail (ErrMsg ''tls: missing ServerKeyExchange message'')
      | Some ckx \<Rightarrow> Ret (ka_preMasterSecret ka, ckx))"

section \<open>What the libraries promise\<close>

text \<open>Keys on one curve agree, and their public keys fit the messages.\<close>

locale ecdh_library =
  fixes D :: "('k, 'p) dh_lib" and on :: "ecdh_curve \<Rightarrow> 'k \<Rightarrow> bool"
  assumes agree: "on c k \<Longrightarrow> on c k' \<Longrightarrow>
      \<exists>p p' s. dh_NewPublicKey D k' (dh_PublicKey D k) = Ret p \<and> dh_NewPublicKey D k (dh_PublicKey D k') = Ret p' \<and>
        dh_ECDH D k' p = Ret s \<and> dh_ECDH D k p' = Ret s"
    and public_size: "on c k \<Longrightarrow> length (dh_PublicKey D k) < 256"
begin

lemma client_agrees:
  assumes "curveForCurveID i = Some c" "gen c = Ret k'" "on c k" "on c k'"
  obtains s where "client_exchange D gen i (dh_PublicKey D k) ka =
      (ka\<lparr>ka_key := Some k', ka_preMasterSecret := s,
         ka_ckx := Some \<lparr>ckx_ciphertext = [of_nat (length (dh_PublicKey D k'))] @ dh_PublicKey D k'\<rparr>\<rparr>, Ret ())"
    "\<forall>ka0. ka_key ka0 = Some k \<longrightarrow>
       ecdhe_processClientKeyExchange D \<lparr>ckx_ciphertext = [of_nat (length (dh_PublicKey D k'))] @ dh_PublicKey D k'\<rparr> ka0 = Ret s"
proof -
  obtain p p' s where d: "dh_NewPublicKey D k' (dh_PublicKey D k) = Ret p" "dh_NewPublicKey D k (dh_PublicKey D k') = Ret p'"
    "dh_ECDH D k' p = Ret s" "dh_ECDH D k p' = Ret s"
    using agree [OF assms(3,4)] by blast
  have "unat (of_nat (length (dh_PublicKey D k')) :: byte) = length (dh_PublicKey D k')"
    using public_size [OF assms(4)] by (simp add: unat_of_nat)
  then show thesis
    using assms(1,2) d
    by (intro that [of s]) (simp_all add: client_exchange_def generateECDHEKey_def ecdhe_processClientKeyExchange_def nil_key_def Let_def)
qed

end

text \<open>What the key signs, the library verifies.\<close>

locale certificate_key =
  fixes L :: verify_lib and cert :: private_cert and pub :: public_key
  assumes signer: "signer_pub (pc_cert cert) = Some pub"
    and verifies: "pc_Sign cert t h m = Ret sig \<Longrightarrow> key_type pub t \<Longrightarrow> verifyHandshakeSignature L t pub h m sig = None"
    and signature_size: "pc_Sign cert t h m = Ret sig \<Longrightarrow> length sig < 65536"
begin

lemma server_scheme_typed:
  assumes "server_scheme fips vers (pc_cert cert) pub peerAlgs = Ret (alg, t, h)"
  shows "key_type pub t" "vers \<ge> VersionTLS12 \<Longrightarrow> typeAndHashFromSignatureScheme alg = Ret (t, h) \<and>
      alg \<in> set (if peerAlgs = [] \<and> vers = VersionTLS12 then [PKCS1WithSHA1, ECDSAWithSHA1] else peerAlgs)"
    "\<not> vers \<ge> VersionTLS12 \<Longrightarrow> legacyTypeAndHashFromPublicKey pub = Ret (t, h)"
proof -
  have new: "key_type pub t \<and> typeAndHashFromSignatureScheme alg = Ret (t, h) \<and>
      alg \<in> set (if peerAlgs = [] \<and> vers = VersionTLS12 then [PKCS1WithSHA1, ECDSAWithSHA1] else peerAlgs)"
    if v: "vers \<ge> VersionTLS12"
  proof -
    have s: "selectSignatureScheme fips vers (pc_cert cert) peerAlgs = Ret alg" "typeAndHashFromSignatureScheme alg = Ret (t, h)"
      using assms v by (auto simp: server_scheme_def exec_simps)
    have "alg \<in> set (signatureSchemesForCertificate fips vers (pc_cert cert))"
      "alg \<in> set (if peerAlgs = [] \<and> vers = VersionTLS12 then [PKCS1WithSHA1, ECDSAWithSHA1] else peerAlgs)"
      using s(1) unfolding selectSignatureScheme_def Let_def
      by (auto simp: find_Some_iff isSupportedSignatureAlgorithm_def in_set_conv_nth split: if_split_asm option.split_asm
          simp del: find.simps)
    moreover from this(1) obtain pub' where "signer_pub (pc_cert cert) = Some pub'" "alg \<in> set (key_schemes vers pub')"
      by (rule schemes_subset)
    ultimately show ?thesis
      using signer s(2) key_schemes_typed [of alg vers pub] by auto
  qed
  have old: "key_type pub t \<and> legacyTypeAndHashFromPublicKey pub = Ret (t, h)" if v: "\<not> vers \<ge> VersionTLS12"
    using assms v by (cases pub) (auto simp: server_scheme_def key_type_def)
  show "key_type pub t"
    using new old by blast
  show "vers \<ge> VersionTLS12 \<Longrightarrow> typeAndHashFromSignatureScheme alg = Ret (t, h) \<and>
      alg \<in> set (if peerAlgs = [] \<and> vers = VersionTLS12 then [PKCS1WithSHA1, ECDSAWithSHA1] else peerAlgs)"
    using new by blast
  show "\<not> vers \<ge> VersionTLS12 \<Longrightarrow> legacyTypeAndHashFromPublicKey pub = Ret (t, h)"
    using old by blast
qed

lemma signature_accepted:
  assumes s: "server_scheme fips vers (pc_cert cert) pub (ch_supportedSignatureAlgorithms ch) = Ret (alg, t, h)"
    and h: "hashForServerKeyExchange H t h vers [ch_random ch, sh_random sh, params] = Ret content"
    and sig: "pc_Sign cert t h content = Ret sig"
    and algs: "ch_supportedSignatureAlgorithms ch \<noteq> [] \<or> vers < VersionTLS12"
  shows "check_signature H L vers (is_rsa_sig t) ch sh pub params
     ((if vers \<ge> VersionTLS12 then put_u16 alg else []) @ put_be 2 (length sig) @ sig) = Ret ()"
proof -
  note typed = server_scheme_typed [OF s]
  have v: "verifyHandshakeSignature L t pub h content sig = None"
    by (rule verifies [OF sig typed(1)])
  have size: "get_be (put_be 2 (length sig)) = length sig"
    using signature_size [OF sig] by simp
  show ?thesis
  proof (cases "vers \<ge> VersionTLS12")
    case True
    then have "alg \<in> set (ch_supportedSignatureAlgorithms ch)" "typeAndHashFromSignatureScheme alg = Ret (t, h)"
      using typed(2) algs by auto
    then show ?thesis
      using True h v size
      by (simp add: check_signature_def client_scheme_def isSupportedSignatureAlgorithm_def Let_def)
  next
    case False
    then show ?thesis
      using typed(3) h v size by (simp add: check_signature_def client_scheme_def)
  qed
qed

end

section \<open>A reference library\<close>

text \<open>Diffie and Hellman's exchange modulo \<open>2 ^ 255 - 19\<close>, and a keyed hash as signature.\<close>

definition dh_prime :: nat where "dh_prime = 2 ^ 255 - 19"

definition ref_dh :: "(nat, nat) dh_lib" where
  "ref_dh = \<lparr>dh_PublicKey = (\<lambda>k. put_be 32 (2 ^ k mod dh_prime)), dh_NewPublicKey = (\<lambda>k b. Ret (get_be b)),
     dh_ECDH = (\<lambda>k p. Ret (put_be 32 (p ^ k mod dh_prime)))\<rparr>"

interpretation ref_dh: ecdh_library ref_dh "\<lambda>c k. True"
proof
  fix c :: ecdh_curve and k k' :: nat
  have "2 ^ n mod dh_prime < 256 ^ 32" for n :: nat
  proof -
    have "2 ^ n mod dh_prime < dh_prime"
      by (rule mod_less_divisor) (simp add: dh_prime_def)
    also have "dh_prime \<le> 256 ^ 32"
      by (simp add: dh_prime_def)
    finally show ?thesis .
  qed
  then have read: "get_be (put_be 32 (2 ^ n mod dh_prime)) = 2 ^ n mod dh_prime" for n :: nat
    by simp
  have "(2 ^ k mod dh_prime) ^ k' mod dh_prime = (2 ^ k' mod dh_prime) ^ k mod dh_prime"
    by (simp add: power_mod mult.commute flip: power_mult)
  then show "\<exists>p p' s. dh_NewPublicKey ref_dh k' (dh_PublicKey ref_dh k) = Ret p \<and>
      dh_NewPublicKey ref_dh k (dh_PublicKey ref_dh k') = Ret p' \<and> dh_ECDH ref_dh k' p = Ret s \<and> dh_ECDH ref_dh k p' = Ret s"
    by (simp add: ref_dh_def read del: get_be_put_be)
qed (simp add: ref_dh_def)

definition ref_sign :: "bytes \<Rightarrow> bytes \<Rightarrow> bytes" where
  "ref_sign k m = hmac (toy_hash 32) k m"

definition ref_verify :: verify_lib where
  "ref_verify = \<lparr>ecdsa_VerifyASN1 = (\<lambda>k m s. s = ref_sign k m), ed25519_Verify = (\<lambda>k m s. s = ref_sign k m),
     rsa_VerifyPKCS1v15 = (\<lambda>k h m s. if s = ref_sign k m then None else Some (ErrMsg ''verification error'')),
     rsa_VerifyPSS = (\<lambda>k h m s. if s = ref_sign k m then None else Some (ErrMsg ''verification error''))\<rparr>"

definition ref_cert :: private_cert where
  "ref_cert = \<lparr>pc_cert = \<lparr>signer_pub = Some (RsaKey 256 [1, 2]), custom_algs = None\<rparr>,
     pc_Sign = (\<lambda>t h m. Ret (ref_sign [1, 2] m)), pc_Decrypt = None\<rparr>"

lemma length_ref_sign: "length (ref_sign k m) = 32"
  by (simp add: ref_sign_def hmac_def toy_hash_def)

interpretation ref_cert: certificate_key ref_verify ref_cert "RsaKey 256 [1, 2]"
proof
  show "verifyHandshakeSignature ref_verify t (RsaKey 256 [1, 2]) h m sig = None"
    if "pc_Sign ref_cert t h m = Ret sig" "key_type (RsaKey 256 [1, 2]) t" for t h m sig
  proof -
    have "sig = ref_sign [1, 2] m" "t = signaturePKCS1v15 \<or> t = signatureRSAPSS"
      using that by (simp_all add: ref_cert_def key_type_def)
    then show ?thesis
      by (elim disjE) (simp_all add: verifyHandshakeSignature_def ref_verify_def signature_tags)
  qed
  show "length sig < 65536" if "pc_Sign ref_cert t h m = Ret sig" for t h m sig
    using that length_ref_sign by (auto simp: ref_cert_def)
qed (simp add: ref_cert_def)

section \<open>Properties\<close>

lemma ecdhe_params_parts:
  assumes "length pub < 256"
  shows "length (ecdhe_params i pub @ rest) \<ge> 4" "(ecdhe_params i pub @ rest) ! 0 = 3"
    "get_u16 (take 2 (drop 1 (ecdhe_params i pub @ rest))) = i" "unat ((ecdhe_params i pub @ rest) ! 3) = length pub"
    "take (4 + length pub) (ecdhe_params i pub @ rest) = ecdhe_params i pub"
    "drop (4 + length pub) (ecdhe_params i pub @ rest) = rest" "drop 4 (take (4 + length pub) (ecdhe_params i pub @ rest)) = pub"
proof -
  obtain a b where ab: "put_u16 i = [a, b]"
    using length_put_u(1) [of i] by (auto simp: length_Suc_conv numeral_2_eq_2 simp del: length_put_u)
  have len: "4 + length pub = length (ecdhe_params i pub)"
    by (simp add: ecdhe_params_def)
  show "length (ecdhe_params i pub @ rest) \<ge> 4" "(ecdhe_params i pub @ rest) ! 0 = 3"
    "unat ((ecdhe_params i pub @ rest) ! 3) = length pub"
    using assms by (simp_all add: ecdhe_params_def ab unat_of_nat)
  show "take (4 + length pub) (ecdhe_params i pub @ rest) = ecdhe_params i pub"
    "drop (4 + length pub) (ecdhe_params i pub @ rest) = rest" "drop 4 (take (4 + length pub) (ecdhe_params i pub @ rest)) = pub"
    unfolding len by (simp_all add: ecdhe_params_def ab)
  have "take 2 (drop 1 (ecdhe_params i pub @ rest)) = put_u16 i"
    by (simp add: ecdhe_params_def ab)
  then show "get_u16 (take 2 (drop 1 (ecdhe_params i pub @ rest))) = i"
    by simp
qed

text \<open>What a successful \<open>generateServerKeyExchange\<close> did.\<close>

lemma server_exchange:
  assumes "ecdhe_generateServerKeyExchange fips H D gen cfg cert ch sh ka = (ka', Ret (Some skx))"
    and "signer_pub (pc_cert cert) = Some pub"
  obtains i c key alg t h content sig where "curveForCurveID i = Some c" "gen c = Ret key" "ka' = ka\<lparr>ka_key := Some key\<rparr>"
    "server_scheme fips (ka_version ka) (pc_cert cert) pub (ch_supportedSignatureAlgorithms ch) = Ret (alg, t, h)"
    "is_rsa_sig t = ka_isRSA ka"
    "hashForServerKeyExchange H t h (ka_version ka) [ch_random ch, sh_random sh, ecdhe_params i (dh_PublicKey D key)] = Ret content"
    "pc_Sign cert t h content = Ret sig"
    "skx_key skx = ecdhe_params i (dh_PublicKey D key) @
       (if ka_version ka \<ge> VersionTLS12 then put_u16 alg else []) @ put_be 2 (length sig) @ sig"
proof -
  define i where "i = (case find (supportsCurve fips (Some cfg) (ka_version ka)) (ch_supportedCurves ch) of Some c \<Rightarrow> c | None \<Rightarrow> 0)"
  obtain c key where c: "curveForCurveID i = Some c" "gen c = Ret key"
    using assms(1) unfolding ecdhe_generateServerKeyExchange_def i_def [symmetric] Let_def generateECDHEKey_def
    by (cases "curveForCurveID i"; cases "gen (the (curveForCurveID i))") (auto split: if_splits)
  have "i \<noteq> 0"
    using assms(1) unfolding ecdhe_generateServerKeyExchange_def i_def [symmetric] Let_def by (auto split: if_splits)
  then have ka: "ka' = ka\<lparr>ka_key := Some key\<rparr>" and run: "exec_bind (server_scheme fips (ka_version ka) (pc_cert cert) pub
      (ch_supportedSignatureAlgorithms ch)) (\<lambda>(alg, t, h).
        if is_rsa_sig t \<noteq> ka_isRSA ka then Fail (ErrMsg ''tls: certificate cannot be used with the selected cipher suite'')
        else exec_bind (hashForServerKeyExchange H t h (ka_version ka)
            [ch_random ch, sh_random sh, ecdhe_params i (dh_PublicKey D key)]) (\<lambda>content.
          case pc_Sign cert t h content of
            Fail e \<Rightarrow> Fail (ErrMsg ''tls: failed to sign ECDHE parameters'')
          | Panic p \<Rightarrow> Panic p
          | Ret sig \<Rightarrow> Ret (Some \<lparr>skx_key = ecdhe_params i (dh_PublicKey D key) @
              (if ka_version ka \<ge> VersionTLS12 then put_u16 alg else []) @ put_be 2 (length sig) @ sig\<rparr>))) = Ret (Some skx)"
    using assms c unfolding ecdhe_generateServerKeyExchange_def i_def [symmetric] Let_def
    by (simp_all add: generateECDHEKey_def cong del: if_weak_cong exec.case_cong_weak)
  obtain alg t h content where p: "server_scheme fips (ka_version ka) (pc_cert cert) pub (ch_supportedSignatureAlgorithms ch) = Ret (alg, t, h)"
    "is_rsa_sig t = ka_isRSA ka"
    "hashForServerKeyExchange H t h (ka_version ka) [ch_random ch, sh_random sh, ecdhe_params i (dh_PublicKey D key)] = Ret content"
    "(case pc_Sign cert t h content of
        Fail e \<Rightarrow> Fail (ErrMsg ''tls: failed to sign ECDHE parameters'')
      | Panic p \<Rightarrow> Panic p
      | Ret sig \<Rightarrow> Ret (Some \<lparr>skx_key = ecdhe_params i (dh_PublicKey D key) @
          (if ka_version ka \<ge> VersionTLS12 then put_u16 alg else []) @ put_be 2 (length sig) @ sig\<rparr>)) = Ret (Some skx)"
    using run unfolding exec_bind_Ret_iff by (auto split: if_split_asm simp: exec_bind_Ret_iff)
  obtain sig where "pc_Sign cert t h content = Ret sig"
    using p(4) by (cases "pc_Sign cert t h content") auto
  then show thesis
    using p(4) by (intro that [OF c ka p(1-3)]) auto
qed

lemma exchange_agrees:
  assumes "ecdh_library D on" and "certificate_key L cert pub"
    and "\<And>c k. gs c = Ret k \<Longrightarrow> on c k" and "\<And>c. \<exists>k. gc c = Ret k \<and> on c k"
    and "ecdhe_generateServerKeyExchange fips H D gs cfg cert ch sh ka = (ka1, Ret (Some skx))"
    and "ch_supportedSignatureAlgorithms ch \<noteq> [] \<or> ka_version ka < VersionTLS12"
    and "ka_version kc = ka_version ka" and "ka_isRSA kc = ka_isRSA ka"
  shows "\<exists>kc1 secret ckx. ecdhe_processServerKeyExchange H L D gc ch sh pub skx kc = (kc1, Ret ()) \<and>
     ecdhe_generateClientKeyExchange kc1 = Ret (secret, ckx) \<and> ecdhe_processClientKeyExchange D ckx ka1 = Ret secret"
proof -
  obtain i c key alg t h content sig where s: "curveForCurveID i = Some c" "gs c = Ret key" "ka1 = ka\<lparr>ka_key := Some key\<rparr>"
    "server_scheme fips (ka_version ka) (pc_cert cert) pub (ch_supportedSignatureAlgorithms ch) = Ret (alg, t, h)"
    "is_rsa_sig t = ka_isRSA ka"
    "hashForServerKeyExchange H t h (ka_version ka) [ch_random ch, sh_random sh, ecdhe_params i (dh_PublicKey D key)] = Ret content"
    "pc_Sign cert t h content = Ret sig"
    "skx_key skx = ecdhe_params i (dh_PublicKey D key) @
       (if ka_version ka \<ge> VersionTLS12 then put_u16 alg else []) @ put_be 2 (length sig) @ sig"
    by (rule server_exchange [OF assms(5) certificate_key.signer [OF assms(2)]])
  obtain k' where k': "gc c = Ret k'" "on c k'"
    using assms(4) by blast
  have key: "on c key" "length (dh_PublicKey D key) < 256"
    using assms(3) [OF s(2)] ecdh_library.public_size [OF assms(1)] by blast+
  obtain secret where ex: "client_exchange D gc i (dh_PublicKey D key) kc = (kc\<lparr>ka_key := Some k', ka_preMasterSecret := secret,
        ka_ckx := Some \<lparr>ckx_ciphertext = [of_nat (length (dh_PublicKey D k'))] @ dh_PublicKey D k'\<rparr>\<rparr>, Ret ())"
    "\<forall>ka0. ka_key ka0 = Some key \<longrightarrow>
       ecdhe_processClientKeyExchange D \<lparr>ckx_ciphertext = [of_nat (length (dh_PublicKey D k'))] @ dh_PublicKey D k'\<rparr> ka0 = Ret secret"
    by (rule ecdh_library.client_agrees [of D on i c gc k' key kc, OF assms(1) s(1) k'(1) key(1) k'(2)])
  define rest where "rest = (if ka_version ka \<ge> VersionTLS12 then put_u16 alg else []) @ put_be 2 (length sig) @ sig"
  have sig: "check_signature H L (ka_version kc) (ka_isRSA kc) ch sh pub (ecdhe_params i (dh_PublicKey D key)) rest = Ret ()"
    using certificate_key.signature_accepted [OF assms(2) s(4,6,7)] assms(6) by (simp add: rest_def assms(7,8) s(5))
  define kb where "kb = ecdhe_params i (dh_PublicKey D key) @ rest"
  note parts = ecdhe_params_parts [OF key(2), of i rest, folded kb_def]
  have "skx_key skx = kb" "length rest \<ge> 2" "length kb \<ge> 4 + length (dh_PublicKey D key)"
    by (simp_all add: s(8) rest_def kb_def ecdhe_params_def)
  then have "ecdhe_processServerKeyExchange H L D gc ch sh pub skx kc = (kc\<lparr>ka_key := Some k', ka_preMasterSecret := secret,
      ka_ckx := Some \<lparr>ckx_ciphertext = [of_nat (length (dh_PublicKey D k'))] @ dh_PublicKey D k'\<rparr>\<rparr>, Ret ())"
    using sig ex(1) parts(5,7) by (simp add: ecdhe_processServerKeyExchange_def Let_def parts(2,4-6) parts(3) [simplified])
  then show ?thesis
    using ex(2) [rule_format, of ka1] s(3) by (simp add: ecdhe_generateClientKeyExchange_def)
qed

text \<open>A concrete exchange: TLS 1.2, the curve P-256 and RSA-PSS.\<close>

definition demo_ch :: clientHelloMsg where
  "demo_ch = ch_zero\<lparr>ch_random := replicate 32 1, ch_supportedCurves := [CurveP256],
     ch_supportedSignatureAlgorithms := [PSSWithSHA256]\<rparr>"

definition demo_sh :: serverHelloMsg where "demo_sh = sh_zero\<lparr>sh_random := replicate 32 2\<rparr>"

definition demo_ka :: "nat ecdheKeyAgreement" where
  "demo_ka = \<lparr>ka_version = VersionTLS12, ka_isRSA = True, ka_key = None, ka_ckx = None, ka_preMasterSecret = []\<rparr>"

lemma demo_server:
  obtains skx where "ecdhe_generateServerKeyExchange False toy_hashes ref_dh (\<lambda>c. Ret 5) default_config ref_cert demo_ch demo_sh
    demo_ka = (demo_ka\<lparr>ka_key := Some 5\<rparr>, Ret (Some skx))" "ch_supportedSignatureAlgorithms demo_ch \<noteq> []"
proof -
  have curve: "supportsCurve False (Some default_config) VersionTLS12 CurveP256"
    by code_simp
  have scheme: "server_scheme False VersionTLS12 (pc_cert ref_cert) (RsaKey 256 [1, 2]) [PSSWithSHA256] =
      Ret (PSSWithSHA256, signatureRSAPSS, SHA256)"
    by code_simp
  have id: "CurveP256 \<noteq> 0" "curveForCurveID CurveP256 = Some EcdhP256" "is_rsa_sig signatureRSAPSS"
    by (simp_all add: curveForCurveID_def curve_ids is_rsa_sig_def)
  have "\<exists>skx. ecdhe_generateServerKeyExchange False toy_hashes ref_dh (\<lambda>c. Ret 5) default_config ref_cert demo_ch demo_sh demo_ka =
      (demo_ka\<lparr>ka_key := Some 5\<rparr>, Ret (Some skx))"
    using curve scheme id
    by (simp add: ecdhe_generateServerKeyExchange_def demo_ch_def demo_ka_def generateECDHEKey_def Let_def
        hashForServerKeyExchange_def toy_hashes_def ref_cert_def signature_tags)
  then show thesis
    using that by (auto simp: demo_ch_def)
qed

text \<open>C22: Both sides of a signed ECDHE exchange derive the same pre-master secret: when the server could send
  its ServerKeyExchange and the client's message offered it the signature scheme, the client accepts it,
  and the server gets from the client's reply the secret the client computed.\<close>

theorem ecdhe_agreement:
  assumes "ecdh_library D on" and "certificate_key L cert pub"
    and "\<And>c k. gs c = Ret k \<Longrightarrow> on c k" and "\<And>c. \<exists>k. gc c = Ret k \<and> on c k"
    and "ecdhe_generateServerKeyExchange fips H D gs cfg cert ch sh ka = (ka1, Ret (Some skx))"
    and "ch_supportedSignatureAlgorithms ch \<noteq> [] \<or> ka_version ka < VersionTLS12"
    and "ka_version kc = ka_version ka" and "ka_isRSA kc = ka_isRSA ka"
  shows "\<exists>kc1 secret ckx. ecdhe_processServerKeyExchange H L D gc ch sh pub skx kc = (kc1, Ret ()) \<and>
     ecdhe_generateClientKeyExchange kc1 = Ret (secret, ckx) \<and> ecdhe_processClientKeyExchange D ckx ka1 = Ret secret"
  by (rule exchange_agrees [OF assms])

theorem ecdhe_agreement_witness:
  "\<exists>ka1 skx kc1 secret ckx.
     ecdhe_generateServerKeyExchange False toy_hashes ref_dh (\<lambda>c. Ret 5) default_config ref_cert demo_ch demo_sh demo_ka
       = (ka1, Ret (Some skx)) \<and>
     ecdhe_processServerKeyExchange toy_hashes ref_verify ref_dh (\<lambda>c. Ret 7) demo_ch demo_sh (RsaKey 256 [1, 2]) skx demo_ka
       = (kc1, Ret ()) \<and>
     ecdhe_generateClientKeyExchange kc1 = Ret (secret, ckx) \<and> ecdhe_processClientKeyExchange ref_dh ckx ka1 = Ret secret"
proof -
  obtain skx where skx: "ecdhe_generateServerKeyExchange False toy_hashes ref_dh (\<lambda>c. Ret 5) default_config ref_cert demo_ch demo_sh
    demo_ka = (demo_ka\<lparr>ka_key := Some 5\<rparr>, Ret (Some skx))" "ch_supportedSignatureAlgorithms demo_ch \<noteq> []"
    by (rule demo_server)
  with ecdhe_agreement [OF ref_dh.ecdh_library_axioms ref_cert.certificate_key_axioms _ _ skx(1), of "\<lambda>c. Ret 7" demo_ka]
  show ?thesis
    by blast
qed

lemma client_exchange_Ret:
  assumes "client_exchange D gen i pub ka = (ka', Ret ())"
  obtains c key p s where "curveForCurveID i = Some c" "gen c = Ret key" "dh_NewPublicKey D key pub = Ret p"
    "dh_ECDH D key p = Ret s" "ka_key ka' = Some key" "ka_preMasterSecret ka' = s" "ka_version ka' = ka_version ka"
    "ka_isRSA ka' = ka_isRSA ka"
  using assms
  by (auto simp: client_exchange_def generateECDHEKey_def Let_def split: if_splits exec.splits option.splits)

lemma params_of_message:
  assumes "length kb \<ge> 4 + unat (kb ! 3)" "kb ! 0 = 3"
  shows "take (4 + unat (kb ! 3)) kb = ecdhe_params (get_u16 (take 2 (drop 1 kb))) (drop 4 (take (4 + unat (kb ! 3)) kb))"
proof -
  obtain a b c d rest where kb: "kb = a # b # c # d # rest"
    using assms(1) by (cases kb rule: list.exhaust [of _ thesis]) (auto simp: neq_Nil_conv Suc_le_length_iff numeral_eq_Suc)
  have len: "length (take (unat d) rest) = unat d"
    using assms(1) by (simp add: kb)
  have "put_u16 (get_u16 [b, c]) = [b, c]"
    by simp
  moreover have "take (4 + unat (kb ! 3)) kb = a # b # c # d # take (unat d) rest"
    by (simp add: kb eval_nat_numeral)
  ultimately show ?thesis
    using assms(2) len by (simp add: kb ecdhe_params_def)
qed

lemma check_signature_Ret:
  assumes "check_signature H L vers isRSA ch sh pub params sig0 = Ret ()" "length sig0 \<ge> 2"
  obtains t h content alg sig where
    "hashForServerKeyExchange H t h vers [ch_random ch, sh_random sh, params] = Ret content"
    "sig0 = (if vers \<ge> VersionTLS12 then put_u16 alg else []) @ put_be 2 (length sig) @ sig"
    "vers \<ge> VersionTLS12 \<Longrightarrow> alg \<in> set (ch_supportedSignatureAlgorithms ch)"
    "verifyHandshakeSignature L t pub h content sig = None" "is_rsa_sig t = isRSA"
proof -
  obtain s1 t h content where c: "client_scheme vers pub (ch_supportedSignatureAlgorithms ch) sig0 = Ret (s1, t, h)"
    "is_rsa_sig t = isRSA" "get_be (take 2 s1) + 2 = length s1"
    "hashForServerKeyExchange H t h vers [ch_random ch, sh_random sh, params] = Ret content"
    "verifyHandshakeSignature L t pub h content (drop 2 s1) = None"
    using assms(1) unfolding check_signature_def exec_bind_Ret_iff
    by (auto split: if_split_asm option.split_asm simp: exec_bind_Ret_iff)
  have "length (take 2 s1) = 2"
    using c(3) by simp
  then have "put_be 2 (get_be (take 2 s1)) = take 2 s1"
    by simp
  moreover have "length (drop 2 s1) = get_be (take 2 s1)"
    using c(3) by simp
  ultimately have s1: "s1 = put_be 2 (length (drop 2 s1)) @ drop 2 s1"
    by simp
  have "sig0 = (if vers \<ge> VersionTLS12 then put_u16 (get_u16 (take 2 sig0)) else []) @ s1 \<and>
      (vers \<ge> VersionTLS12 \<longrightarrow> get_u16 (take 2 sig0) \<in> set (ch_supportedSignatureAlgorithms ch))"
    using c(1) assms(2)
    by (auto simp: client_scheme_def isSupportedSignatureAlgorithm_def Let_def exec_simps split: if_splits)
  then show thesis
    using s1 by (intro that [OF c(4) _ _ c(5,2)]) auto
qed

text \<open>C21: The client takes only parameters that the certificate's key signed: when \<open>processServerKeyExchange\<close>
  succeeds, the message holds a named curve and a public key, the secret was computed with that key, and a
  signature over both randoms and exactly these parameters verified.\<close>

theorem server_params_authentic:
  assumes "ecdhe_processServerKeyExchange H L D gen ch sh pub skx ka = (ka', Ret ())"
  shows "\<exists>i peer key p t h content alg sig. skx_key skx = ecdhe_params i peer @
       (if ka_version ka \<ge> VersionTLS12 then put_u16 alg else []) @ put_be 2 (length sig) @ sig \<and>
     (ka_version ka \<ge> VersionTLS12 \<longrightarrow> alg \<in> set (ch_supportedSignatureAlgorithms ch)) \<and>
     ka_key ka' = Some key \<and> dh_NewPublicKey D key peer = Ret p \<and> dh_ECDH D key p = Ret (ka_preMasterSecret ka') \<and>
     hashForServerKeyExchange H t h (ka_version ka) [ch_random ch, sh_random sh, ecdhe_params i peer] = Ret content \<and>
     verifyHandshakeSignature L t pub h content sig = None \<and> is_rsa_sig t = ka_isRSA ka"
proof -
  define kb where "kb = skx_key skx"
  define params where "params = take (4 + unat (kb ! 3)) kb"
  define sig0 where "sig0 = drop (4 + unat (kb ! 3)) kb"
  define i where "i = get_u16 (take 2 (drop 1 kb))"
  have run: "kb ! 0 = 3" "length kb \<ge> 4 + unat (kb ! 3)" "length sig0 \<ge> 2"
    "client_exchange D gen i (drop 4 params) ka = (ka', Ret ())"
    "check_signature H L (ka_version ka') (ka_isRSA ka') ch sh pub params sig0 = Ret ()"
    using assms unfolding ecdhe_processServerKeyExchange_def Let_def kb_def [symmetric] params_def [symmetric]
      sig0_def [symmetric] i_def [symmetric]
    by (auto split: if_split_asm prod.split_asm exec.split_asm)
  obtain c key p s where e: "curveForCurveID i = Some c" "gen c = Ret key" "dh_NewPublicKey D key (drop 4 params) = Ret p"
    "dh_ECDH D key p = Ret s" "ka_key ka' = Some key" "ka_preMasterSecret ka' = s" "ka_version ka' = ka_version ka"
    "ka_isRSA ka' = ka_isRSA ka"
    by (rule client_exchange_Ret [OF run(4)])
  obtain t h content alg sig where v:
    "hashForServerKeyExchange H t h (ka_version ka') [ch_random ch, sh_random sh, params] = Ret content"
    "sig0 = (if ka_version ka' \<ge> VersionTLS12 then put_u16 alg else []) @ put_be 2 (length sig) @ sig"
    "ka_version ka' \<ge> VersionTLS12 \<Longrightarrow> alg \<in> set (ch_supportedSignatureAlgorithms ch)"
    "verifyHandshakeSignature L t pub h content sig = None" "is_rsa_sig t = ka_isRSA ka'"
    by (rule check_signature_Ret [OF run(5,3)]) blast
  have params: "params = ecdhe_params i (drop 4 params)"
    using params_of_message [OF run(2,1)] by (simp add: params_def i_def)
  have kb: "skx_key skx = params @ sig0"
    by (simp add: params_def sig0_def kb_def)
  show ?thesis
    by (rule exI [of _ i], rule exI [of _ "drop 4 params"], rule exI [of _ key], rule exI [of _ p], rule exI [of _ t],
        rule exI [of _ h], rule exI [of _ content], rule exI [of _ alg], rule exI [of _ sig])
      (use kb v e in \<open>simp add: params [symmetric]\<close>)
qed

theorem server_params_authentic_witness:
  "\<exists>skx kc1 i peer key p t h content alg sig.
     ecdhe_processServerKeyExchange toy_hashes ref_verify ref_dh (\<lambda>c. Ret 7) demo_ch demo_sh (RsaKey 256 [1, 2]) skx demo_ka
       = (kc1, Ret ()) \<and>
     skx_key skx = ecdhe_params i peer @ put_u16 alg @ put_be 2 (length sig) @ sig \<and>
     hashForServerKeyExchange toy_hashes t h VersionTLS12 [ch_random demo_ch, sh_random demo_sh, ecdhe_params i peer] = Ret content \<and>
     verifyHandshakeSignature ref_verify t (RsaKey 256 [1, 2]) h content sig = None"
proof -
  obtain skx where skx: "ecdhe_generateServerKeyExchange False toy_hashes ref_dh (\<lambda>c. Ret 5) default_config ref_cert demo_ch demo_sh
    demo_ka = (demo_ka\<lparr>ka_key := Some 5\<rparr>, Ret (Some skx))" "ch_supportedSignatureAlgorithms demo_ch \<noteq> []"
    by (rule demo_server)
  then obtain kc1 where "ecdhe_processServerKeyExchange toy_hashes ref_verify ref_dh (\<lambda>c. Ret 7) demo_ch demo_sh
      (RsaKey 256 [1, 2]) skx demo_ka = (kc1, Ret ())"
    using exchange_agrees [OF ref_dh.ecdh_library_axioms ref_cert.certificate_key_axioms _ _ skx(1), of "\<lambda>c. Ret 7" demo_ka] by blast
  moreover have "ka_version demo_ka = VersionTLS12"
    by (simp add: demo_ka_def)
  ultimately show ?thesis
    using server_params_authentic [of toy_hashes ref_verify ref_dh "\<lambda>c. Ret 7" demo_ch demo_sh "RsaKey 256 [1, 2]" skx demo_ka kc1]
    by fastforce
qed

end
