(* ===== verification/Caches.thy ===== *)
theory Caches
  imports Prelude "HOL-Library.Multiset"
begin

text \<open>
  The two caches: \<open>lruSessionCache\<close> (\<open>common.go\<close>), whose list elements and entries are objects that the
  code updates in place, and \<open>certCache\<close> (\<open>cache.go\<close>), a concurrent table of reference counted certificates.
\<close>

section \<open>The session cache\<close>

text \<open>
  An element of the list \<open>q\<close> is a number; \<open>lc_entry\<close> is the store of the entries the elements point to.  A
  \<open>ClientSessionState\<close> that is nil is \<open>None\<close>.
\<close>

record 's lruSessionCache =
  lc_m :: "bytes \<Rightarrow> nat option"
  lc_q :: "nat list"
  lc_entry :: "nat \<Rightarrow> bytes \<times> 's option"
  lc_next :: nat
  lc_capacity :: int

definition NewLRUClientSessionCache :: "int \<Rightarrow> 's lruSessionCache" where
  "NewLRUClientSessionCache capacity =
     \<lparr>lc_m = (\<lambda>_. None), lc_q = [], lc_entry = (\<lambda>_. ([], None)), lc_next = 0,
      lc_capacity = (if capacity < 1 then 64 else capacity)\<rparr>"

definition MoveToFront :: "nat \<Rightarrow> nat list \<Rightarrow> nat list" where
  "MoveToFront e q = e # remove1 e q"

definition lru_Put :: "bytes \<Rightarrow> 's option \<Rightarrow> 's lruSessionCache \<Rightarrow> 's lruSessionCache exec" where
  "lru_Put sessionKey cs c =
     (case lc_m c sessionKey of
        Some elem \<Rightarrow>
          if cs = None then Ret (c\<lparr>lc_q := remove1 elem (lc_q c), lc_m := (lc_m c)(sessionKey := None)\<rparr>)
          else Ret (c\<lparr>lc_entry := (lc_entry c)(elem := (fst (lc_entry c elem), cs)), lc_q := MoveToFront elem (lc_q c)\<rparr>)
      | None \<Rightarrow>
          if int (length (lc_q c)) < lc_capacity c then
            let elem = lc_next c
            in Ret (c\<lparr>lc_entry := (lc_entry c)(elem := (sessionKey, cs)), lc_next := elem + 1,
                     lc_q := elem # lc_q c, lc_m := (lc_m c)(sessionKey \<mapsto> elem)\<rparr>)
          else if lc_q c = [] then Panic ''nil pointer dereference''
          else let elem = last (lc_q c);
                   m = (lc_m c)(fst (lc_entry c elem) := None)
               in Ret (c\<lparr>lc_entry := (lc_entry c)(elem := (sessionKey, cs)), lc_q := MoveToFront elem (lc_q c),
                        lc_m := m(sessionKey \<mapsto> elem)\<rparr>))"

text \<open>\<open>Get\<close> returns the state and whether the key was found.\<close>

definition lru_Get :: "bytes \<Rightarrow> 's lruSessionCache \<Rightarrow> 's lruSessionCache \<times> 's option \<times> bool" where
  "lru_Get sessionKey c =
     (case lc_m c sessionKey of
        Some elem \<Rightarrow> (c\<lparr>lc_q := MoveToFront elem (lc_q c)\<rparr>, snd (lc_entry c elem), True)
      | None \<Rightarrow> (c, None, False))"

text \<open>Calls one after the other (the mutex makes them so), and the results of the calls of \<open>Get\<close>.\<close>

datatype 's lru_call = Put bytes "'s option" | Get bytes

fun lru_run :: "'s lru_call list \<Rightarrow> 's lruSessionCache \<Rightarrow> ('s lruSessionCache \<times> ('s option \<times> bool) list) exec" where
  "lru_run [] c = Ret (c, [])"
| "lru_run (Put k cs # calls) c = exec_bind (lru_Put k cs c) (lru_run calls)"
| "lru_run (Get k # calls) c =
     (let (c, r) = lru_Get k c in exec_bind (lru_run calls c) (\<lambda>(c, rs). Ret (c, r # rs)))"

section \<open>What an LRU cache is\<close>

text \<open>
  The abstract cache: the entries, most recently used first.  \<open>spec_Put\<close> follows the code also where the
  comment of \<open>Put\<close> says something else: a nil state for a key that is not cached is stored.  What the
  comment promises is \<open>doc_Put\<close> below.
\<close>

type_synonym 's lru_spec = "(bytes \<times> 's option) list"

definition without :: "bytes \<Rightarrow> 's lru_spec \<Rightarrow> 's lru_spec" where
  "without k xs = filter (\<lambda>(k', _). k' \<noteq> k) xs"

definition spec_Put :: "int \<Rightarrow> bytes \<Rightarrow> 's option \<Rightarrow> 's lru_spec \<Rightarrow> 's lru_spec" where
  "spec_Put cap k cs xs =
     (if k \<in> fst ` set xs then if cs = None then without k xs else (k, cs) # without k xs
      else (k, cs) # (if int (length xs) < cap then xs else butlast xs))"

definition spec_Get :: "bytes \<Rightarrow> 's lru_spec \<Rightarrow> 's lru_spec \<times> 's option \<times> bool" where
  "spec_Get k xs =
     (case map_of xs k of Some cs \<Rightarrow> ((k, cs) # without k xs, cs, True) | None \<Rightarrow> (xs, None, False))"

fun spec_run :: "int \<Rightarrow> 's lru_call list \<Rightarrow> 's lru_spec \<Rightarrow> 's lru_spec \<times> ('s option \<times> bool) list" where
  "spec_run cap [] xs = (xs, [])"
| "spec_run cap (Put k cs # calls) xs = spec_run cap calls (spec_Put cap k cs xs)"
| "spec_run cap (Get k # calls) xs =
     (let (xs, r) = spec_Get k xs; (xs, rs) = spec_run cap calls xs in (xs, r # rs))"

section \<open>Refinement\<close>

definition lru_abs :: "'s lruSessionCache \<Rightarrow> 's lru_spec" where
  "lru_abs c = map (lc_entry c) (lc_q c)"

text \<open>The map finds exactly the elements of the list, by the keys in their entries.\<close>

definition lru_inv :: "'s lruSessionCache \<Rightarrow> bool" where
  "lru_inv c \<longleftrightarrow>
     lc_capacity c \<ge> 1 \<and> int (length (lc_q c)) \<le> lc_capacity c \<and> distinct (lc_q c) \<and>
     (\<forall>e \<in> set (lc_q c). e < lc_next c) \<and>
     (\<forall>k e. lc_m c k = Some e \<longleftrightarrow> e \<in> set (lc_q c) \<and> fst (lc_entry c e) = k)"

lemma inv_New: "lru_inv (NewLRUClientSessionCache n)"
  by (simp add: lru_inv_def NewLRUClientSessionCache_def)

lemma abs_New: "lru_abs (NewLRUClientSessionCache n) = []"
  by (simp add: lru_abs_def NewLRUClientSessionCache_def)

lemma invI:
  assumes "lc_capacity c \<ge> 1" "int (length (lc_q c)) \<le> lc_capacity c" "distinct (lc_q c)"
    and "\<And>e. e \<in> set (lc_q c) \<Longrightarrow> e < lc_next c"
    and "\<And>k e. lc_m c k = Some e \<longleftrightarrow> e \<in> set (lc_q c) \<and> fst (lc_entry c e) = k"
  shows "lru_inv c"
  using assms by (simp add: lru_inv_def)

lemma inv_lookup: "lru_inv c \<Longrightarrow> lc_m c k = Some e \<longleftrightarrow> e \<in> set (lc_q c) \<and> fst (lc_entry c e) = k"
  by (simp add: lru_inv_def)

lemma inv_parts:
  "lru_inv c \<Longrightarrow> distinct (lc_q c)" "lru_inv c \<Longrightarrow> lc_capacity c \<ge> 1" "lru_inv c \<Longrightarrow> int (length (lc_q c)) \<le> lc_capacity c"
  "lru_inv c \<Longrightarrow> e \<in> set (lc_q c) \<Longrightarrow> e < lc_next c"
  by (simp_all add: lru_inv_def)

lemma inv_keys:
  assumes "lru_inv c" "e \<in> set (lc_q c)" "e' \<in> set (lc_q c)" "fst (lc_entry c e) = fst (lc_entry c e')"
  shows "e = e'"
proof -
  have "lc_m c (fst (lc_entry c e)) = Some e" "lc_m c (fst (lc_entry c e')) = Some e'"
    using assms(2,3) by (simp_all add: inv_lookup [OF assms(1)])
  then show ?thesis
    unfolding assms(4) by (rule option.inject [THEN iffD1, OF trans [OF sym]])
qed

lemma removeAll_filter: "removeAll x xs = filter (\<lambda>y. y \<noteq> x) xs"
  by (induction xs) auto

lemma abs_without:
  assumes "lru_inv c" "e \<in> set (lc_q c)"
  shows "map (lc_entry c) (remove1 e (lc_q c)) = without (fst (lc_entry c e)) (lru_abs c)"
proof -
  have "remove1 e (lc_q c) = filter (\<lambda>x. x \<noteq> e) (lc_q c)"
    using inv_parts(1) [OF assms(1)] removeAll_filter [of e "lc_q c"] by (simp add: distinct_remove1_removeAll)
  also have "\<dots> = filter (\<lambda>x. fst (lc_entry c x) \<noteq> fst (lc_entry c e)) (lc_q c)"
    using inv_keys [OF assms(1) _ assms(2)] by (intro filter_cong) auto
  finally show ?thesis
    by (simp add: without_def lru_abs_def filter_map o_def case_prod_beta)
qed

lemma abs_keys: "lru_inv c \<Longrightarrow> k \<in> fst ` set (lru_abs c) \<longleftrightarrow> lc_m c k \<noteq> None"
  using inv_lookup [of c k] by (auto simp: lru_abs_def image_iff)

lemma abs_lookup:
  assumes "lru_inv c"
  shows "map_of (lru_abs c) k = map_option (\<lambda>e. snd (lc_entry c e)) (lc_m c k)"
proof (cases "lc_m c k")
  case None
  then show ?thesis
    using abs_keys [OF assms, of k] by (simp add: map_of_eq_None_iff)
next
  case (Some e)
  then have e: "e \<in> set (lc_q c)" "fst (lc_entry c e) = k"
    by (simp_all add: inv_lookup [OF assms])
  have "inj_on (\<lambda>x. fst (lc_entry c x)) (set (lc_q c))"
    using inv_keys [OF assms] by (auto intro: inj_onI)
  then have "distinct (map fst (lru_abs c))"
    using inv_parts(1) [OF assms] by (simp add: lru_abs_def distinct_map o_def)
  moreover have "lc_entry c e \<in> set (lru_abs c)"
    using e(1) by (simp add: lru_abs_def)
  then have "(k, snd (lc_entry c e)) \<in> set (lru_abs c)"
    by (simp flip: e(2))
  ultimately show ?thesis
    using Some by (simp add: map_of_is_SomeI)
qed

lemma Put_refines:
  assumes "lru_inv c"
  obtains c' where "lru_Put k cs c = Ret c'" "lru_inv c'" "lc_capacity c' = lc_capacity c"
    "lru_abs c' = spec_Put (lc_capacity c) k cs (lru_abs c)"
proof (cases "lc_m c k")
  case (Some e)
  then have e: "e \<in> set (lc_q c)" "fst (lc_entry c e) = k"
    by (simp_all add: inv_lookup [OF assms])
  note parts = inv_parts [OF assms]
  note key = inv_keys [OF assms _ e(1)]
  have known: "k \<in> fst ` set (lru_abs c)"
    using Some by (simp add: abs_keys [OF assms])
  show thesis
  proof (cases cs)
    case None
    let ?c = "c\<lparr>lc_q := remove1 e (lc_q c), lc_m := (lc_m c)(k := None)\<rparr>"
    have "lru_inv ?c"
    proof (rule invI)
      show "lc_m ?c k' = Some x \<longleftrightarrow> x \<in> set (lc_q ?c) \<and> fst (lc_entry ?c x) = k'" for k' x
        using parts(1) e key [of x] by (cases "k' = k") (auto simp: inv_lookup [OF assms])
    qed (use parts in \<open>auto simp: length_remove1\<close>)
    then show thesis
      using Some None known abs_without [OF assms e(1)]
      by (intro that [of ?c]) (simp_all add: lru_Put_def lru_abs_def spec_Put_def e(2))
  next
    case (Some s)
    let ?c = "c\<lparr>lc_entry := (lc_entry c)(e := (k, cs)), lc_q := MoveToFront e (lc_q c)\<rparr>"
    have "lru_inv ?c"
    proof (rule invI)
      show "lc_m ?c k' = Some x \<longleftrightarrow> x \<in> set (lc_q ?c) \<and> fst (lc_entry ?c x) = k'" for k' x
        using parts(1) e by (cases "x = e") (auto simp: inv_lookup [OF assms] MoveToFront_def)
    qed (use parts e in \<open>auto simp: MoveToFront_def length_remove1\<close>)
    moreover have "map (lc_entry ?c) (remove1 e (lc_q c)) = map (lc_entry c) (remove1 e (lc_q c))"
      using parts(1) by simp
    ultimately show thesis
      using \<open>lc_m c k = Some e\<close> Some known abs_without [OF assms e(1)]
      by (intro that [of ?c]) (simp_all add: lru_Put_def lru_abs_def spec_Put_def e(2) MoveToFront_def)
  qed
next
  case None
  have new: "k \<notin> fst ` set (lru_abs c)"
    using None by (simp add: abs_keys [OF assms])
  note parts = inv_parts [OF assms]
  have no_key: "\<forall>x \<in> set (lc_q c). fst (lc_entry c x) \<noteq> k"
    using None inv_lookup [OF assms, of k] by auto
  show thesis
  proof (cases "int (length (lc_q c)) < lc_capacity c")
    case True
    let ?e = "lc_next c"
    let ?c = "c\<lparr>lc_entry := (lc_entry c)(?e := (k, cs)), lc_next := ?e + 1, lc_q := ?e # lc_q c, lc_m := (lc_m c)(k \<mapsto> ?e)\<rparr>"
    have fresh: "?e \<notin> set (lc_q c)"
      using parts(4) by blast
    have "lru_inv ?c"
    proof (rule invI)
      show "lc_m ?c k' = Some x \<longleftrightarrow> x \<in> set (lc_q ?c) \<and> fst (lc_entry ?c x) = k'" for k' x
        using fresh no_key by (cases "x = ?e"; cases "k' = k") (auto simp: inv_lookup [OF assms])
    qed (use parts True fresh in \<open>auto simp: less_Suc_eq\<close>)
    moreover have "map (lc_entry ?c) (lc_q c) = lru_abs c"
      using fresh by (auto simp: lru_abs_def)
    ultimately show thesis
      using True None new
      by (intro that [of ?c]) (simp_all add: lru_Put_def lru_abs_def spec_Put_def Let_def)
  next
    case False
    then have full: "lc_q c \<noteq> []"
      using parts(2) by auto
    define e where "e = last (lc_q c)"
    have q: "lc_q c = butlast (lc_q c) @ [e]"
      using full by (simp add: e_def)
    have "distinct (butlast (lc_q c) @ [e])" "set (lc_q c) = set (butlast (lc_q c) @ [e])"
      using parts(1) q by metis+
    then have e: "e \<in> set (lc_q c)" "e \<notin> set (butlast (lc_q c))" "set (lc_q c) = insert e (set (butlast (lc_q c)))"
      "distinct (butlast (lc_q c))"
      by simp_all
    then have front: "MoveToFront e (lc_q c) = e # butlast (lc_q c)"
      by (subst q) (simp add: MoveToFront_def remove1_append)
    let ?c = "c\<lparr>lc_entry := (lc_entry c)(e := (k, cs)), lc_q := MoveToFront e (lc_q c),
        lc_m := ((lc_m c)(fst (lc_entry c e) := None))(k \<mapsto> e)\<rparr>"
    have "lru_inv ?c"
    proof (rule invI)
      show "lc_m ?c k' = Some x \<longleftrightarrow> x \<in> set (lc_q ?c) \<and> fst (lc_entry ?c x) = k'" for k' x
        using e(2,3) no_key inv_keys [OF assms _ e(1), of x]
        by (cases "x = e"; cases "k' = k"; cases "k' = fst (lc_entry c e)") (auto simp: inv_lookup [OF assms] front)
    qed (use parts e full in \<open>auto simp: front\<close>)
    moreover have "map (lc_entry ?c) (butlast (lc_q c)) = butlast (lru_abs c)"
      using e(2) by (simp add: lru_abs_def flip: map_butlast)
    ultimately show thesis
      using False None new full
      by (intro that [of ?c]) (simp_all add: lru_Put_def lru_abs_def spec_Put_def Let_def front flip: e_def)
  qed
qed

lemma Get_refines:
  assumes "lru_inv c"
  obtains c' where "lru_Get k c = (c', snd (spec_Get k (lru_abs c)))" "lru_inv c'" "lc_capacity c' = lc_capacity c"
    "lru_abs c' = fst (spec_Get k (lru_abs c))"
proof (cases "lc_m c k")
  case None
  then show thesis
    using assms by (intro that [of c]) (simp_all add: lru_Get_def spec_Get_def abs_lookup [OF assms])
next
  case (Some e)
  then have e: "e \<in> set (lc_q c)" "fst (lc_entry c e) = k"
    by (simp_all add: inv_lookup [OF assms])
  let ?c = "c\<lparr>lc_q := MoveToFront e (lc_q c)\<rparr>"
  have "lru_inv ?c"
  proof (rule invI)
    show "lc_m ?c k' = Some x \<longleftrightarrow> x \<in> set (lc_q ?c) \<and> fst (lc_entry ?c x) = k'" for k' x
      using inv_parts(1) [OF assms] e by (cases "x = e") (auto simp: inv_lookup [OF assms] MoveToFront_def)
  qed (use inv_parts [OF assms] e in \<open>auto simp: MoveToFront_def length_remove1\<close>)
  moreover have "lc_entry c e = (k, snd (lc_entry c e))"
    by (simp flip: e(2))
  then have "lru_abs ?c = (k, snd (lc_entry c e)) # without k (lru_abs c)"
    using abs_without [OF assms e(1)] by (simp add: lru_abs_def [of "lc_q_update _ _"] MoveToFront_def e(2))
  ultimately show thesis
    using Some by (intro that [of ?c]) (simp_all add: lru_Get_def spec_Get_def abs_lookup [OF assms])
qed

lemma run_refines:
  assumes "lru_inv c"
  shows "\<exists>c'. lru_run calls c = Ret (c', snd (spec_run (lc_capacity c) calls (lru_abs c))) \<and> lru_inv c' \<and>
     lc_capacity c' = lc_capacity c \<and> lru_abs c' = fst (spec_run (lc_capacity c) calls (lru_abs c))"
  using assms
proof (induction calls arbitrary: c)
  case (Cons call calls)
  show ?case
  proof (cases call)
    case (Put k cs)
    obtain c1 where "lru_Put k cs c = Ret c1" "lru_inv c1" "lc_capacity c1 = lc_capacity c"
      "lru_abs c1 = spec_Put (lc_capacity c) k cs (lru_abs c)"
      by (rule Put_refines [OF Cons.prems])
    then show ?thesis
      using Cons.IH [of c1] by (simp add: Put)
  next
    case (Get k)
    obtain c1 where c1: "lru_Get k c = (c1, snd (spec_Get k (lru_abs c)))" "lru_inv c1" "lc_capacity c1 = lc_capacity c"
      "lru_abs c1 = fst (spec_Get k (lru_abs c))"
      by (rule Get_refines [OF Cons.prems])
    obtain c2 where "lru_run calls c1 = Ret (c2, snd (spec_run (lc_capacity c1) calls (lru_abs c1)))" "lru_inv c2"
      "lc_capacity c2 = lc_capacity c1" "lru_abs c2 = fst (spec_run (lc_capacity c1) calls (lru_abs c1))"
      using Cons.IH [OF c1(2)] by blast
    then show ?thesis
      using c1 by (simp add: Get case_prod_beta)
  qed
qed (simp add: lru_abs_def)

section \<open>The documented cache\<close>

text \<open>
  The cache of the comments: a map of at most \<open>cap\<close> sessions, in the order of their use.  \<open>Put\<close> of a nil state
  removes the entry of its key, if there is one, and \<open>Get\<close> returns a session or (nil, false).
\<close>

definition doc_without :: "bytes \<Rightarrow> (bytes \<times> 's) list \<Rightarrow> (bytes \<times> 's) list" where
  "doc_without k xs = filter (\<lambda>(k', _). k' \<noteq> k) xs"

definition doc_Put :: "int \<Rightarrow> bytes \<Rightarrow> 's option \<Rightarrow> (bytes \<times> 's) list \<Rightarrow> (bytes \<times> 's) list" where
  "doc_Put cap k cs xs =
     (case cs of
        None \<Rightarrow> doc_without k xs
      | Some s \<Rightarrow> (k, s) # (if k \<in> fst ` set xs then doc_without k xs
                            else if int (length xs) < cap then xs else butlast xs))"

definition doc_Get :: "bytes \<Rightarrow> (bytes \<times> 's) list \<Rightarrow> (bytes \<times> 's) list \<times> 's option \<times> bool" where
  "doc_Get k xs =
     (case map_of xs k of Some s \<Rightarrow> ((k, s) # doc_without k xs, Some s, True) | None \<Rightarrow> (xs, None, False))"

fun doc_run :: "int \<Rightarrow> 's lru_call list \<Rightarrow> (bytes \<times> 's) list \<Rightarrow> (bytes \<times> 's) list \<times> ('s option \<times> bool) list" where
  "doc_run cap [] xs = (xs, [])"
| "doc_run cap (Put k cs # calls) xs = doc_run cap calls (doc_Put cap k cs xs)"
| "doc_run cap (Get k # calls) xs =
     (let (xs, r) = doc_Get k xs; (xs, rs) = doc_run cap calls xs in (xs, r # rs))"

text \<open>Every \<open>Put\<close> of a nil state is for a key that is cached when the call is made.\<close>

fun removes_cached :: "int \<Rightarrow> 's lru_call list \<Rightarrow> (bytes \<times> 's) list \<Rightarrow> bool" where
  "removes_cached cap [] xs \<longleftrightarrow> True"
| "removes_cached cap (Put k cs # calls) xs \<longleftrightarrow>
     (cs = None \<longrightarrow> k \<in> fst ` set xs) \<and> removes_cached cap calls (doc_Put cap k cs xs)"
| "removes_cached cap (Get k # calls) xs \<longleftrightarrow> removes_cached cap calls (fst (doc_Get k xs))"

definition stored :: "(bytes \<times> 's) list \<Rightarrow> 's lru_spec" where
  "stored xs = map (\<lambda>(k, s). (k, Some s)) xs"

lemma stored_simps [simp]:
  "stored [] = []" "stored ((k, s) # xs) = (k, Some s) # stored xs" "length (stored xs) = length xs"
  "fst ` set (stored xs) = fst ` set xs" "stored (butlast xs) = butlast (stored xs)"
  "stored (doc_without k xs) = without k (stored xs)" "map_of (stored xs) k = map_option Some (map_of xs k)"
proof -
  show "stored (doc_without k xs) = without k (stored xs)"
    by (induction xs) (auto simp: stored_def doc_without_def without_def)
  show "map_of (stored xs) k = map_option Some (map_of xs k)"
    by (induction xs) (auto simp: stored_def)
  show "fst ` set (stored xs) = fst ` set xs"
    by (force simp: stored_def)
qed (simp_all add: stored_def map_butlast)

lemma doc_Put_stored: "(cs = None \<longrightarrow> k \<in> fst ` set xs) \<Longrightarrow> spec_Put cap k cs (stored xs) = stored (doc_Put cap k cs xs)"
  by (cases cs) (simp_all add: spec_Put_def doc_Put_def)

lemma doc_Get_stored: "spec_Get k (stored xs) = (stored (fst (doc_Get k xs)), snd (doc_Get k xs))"
  by (cases "map_of xs k") (simp_all add: spec_Get_def doc_Get_def)

lemma doc_run_stored:
  "removes_cached cap calls xs \<Longrightarrow>
     spec_run cap calls (stored xs) = (stored (fst (doc_run cap calls xs)), snd (doc_run cap calls xs))"
  by (induction cap calls xs rule: removes_cached.induct)
    (auto simp: doc_Put_stored doc_Get_stored split_beta Let_def)

text \<open>
  Where the code and the comment part: \<open>Put\<close> of a nil state for a key that is not cached stores an entry, in
  place of the least recently used one when the cache is full, and \<open>Get\<close> then finds nil.
\<close>

lemma nil_put_inserts:
  assumes "lru_inv c" and "lc_m c k = None"
  shows "\<exists>c1 c2. lru_Put k None c = Ret c1 \<and> lru_Get k c1 = (c2, None, True) \<and>
     lru_abs c1 = (k, None) # (if int (length (lc_q c)) < lc_capacity c then lru_abs c else butlast (lru_abs c))"
proof -
  obtain c1 where c1: "lru_Put k None c = Ret c1" "lru_inv c1" "lru_abs c1 = spec_Put (lc_capacity c) k None (lru_abs c)"
    by (rule Put_refines [OF assms(1)])
  have a: "lru_abs c1 = (k, None) # (if int (length (lc_q c)) < lc_capacity c then lru_abs c else butlast (lru_abs c))"
    using c1(3) assms(2) abs_keys [OF assms(1), of k] by (simp add: spec_Put_def lru_abs_def)
  obtain c2 where "lru_Get k c1 = (c2, snd (spec_Get k (lru_abs c1)))"
    by (rule Get_refines [OF c1(2)])
  then show ?thesis
    using c1(1) a by (simp add: spec_Get_def)
qed

text \<open>C25: The session cache implements the documented LRU map.  For every capacity asked for and every sequence
  of calls of \<open>Put\<close> and \<open>Get\<close> in which a nil state is only put for a key that is cached, \<open>lruSessionCache\<close> - a
  map from keys to elements of a linked list whose entries are overwritten in place when an element is reused
  for another key - returns what the documented cache returns and holds the same sessions in the same order
  of use, and never more of them than its capacity (64 where the one asked for is less than one).  For every
  other sequence it still never dereferences a missing element and keeps to its capacity, but not to the
  comment of \<open>Put\<close>: after any calls, \<open>Put\<close> of a nil state for a key that is not cached stores an entry, in place of
  the least recently used one when the cache is full, and \<open>Get\<close> then finds it.\<close>

theorem lru_refines:
  assumes "removes_cached (if n < 1 then 64 else n) calls []"
  shows "(\<exists>c. lru_run calls (NewLRUClientSessionCache n) = Ret (c, snd (doc_run (if n < 1 then 64 else n) calls [])) \<and>
       lru_abs c = stored (fst (doc_run (if n < 1 then 64 else n) calls []))) \<and>
     (\<forall>calls'. \<exists>c rs. lru_run calls' (NewLRUClientSessionCache n) = Ret (c, rs) \<and>
        int (length (lc_q c)) \<le> (if n < 1 then 64 else n)) \<and>
     (\<forall>calls' c rs k. lru_run calls' (NewLRUClientSessionCache n) = Ret (c, rs) \<and> lc_m c k = None \<longrightarrow>
        (\<exists>c1 c2. lru_Put k None c = Ret c1 \<and> lru_Get k c1 = (c2, None, True) \<and>
           lru_abs c1 = (k, None) # (if int (length (lc_q c)) < (if n < 1 then 64 else n) then lru_abs c
                                     else butlast (lru_abs c))))"
proof -
  have cap: "lc_capacity (NewLRUClientSessionCache n) = (if n < 1 then 64 else n)"
    by (simp add: NewLRUClientSessionCache_def)
  have run: "\<exists>c. lru_run calls (NewLRUClientSessionCache n) = Ret (c, snd (spec_run (if n < 1 then 64 else n) calls [])) \<and>
      lru_inv c \<and> lc_capacity c = (if n < 1 then 64 else n) \<and> lru_abs c = fst (spec_run (if n < 1 then 64 else n) calls [])"
    for calls
    using run_refines [OF inv_New [of n], of calls] unfolding cap abs_New .
  have "spec_run (if n < 1 then 64 else n) calls [] =
      (stored (fst (doc_run (if n < 1 then 64 else n) calls [])), snd (doc_run (if n < 1 then 64 else n) calls []))"
    using doc_run_stored [OF assms] by simp
  with run [of calls] have "\<exists>c. lru_run calls (NewLRUClientSessionCache n) =
        Ret (c, snd (doc_run (if n < 1 then 64 else n) calls [])) \<and>
      lru_abs c = stored (fst (doc_run (if n < 1 then 64 else n) calls []))"
    by auto
  moreover have "\<exists>c rs. lru_run calls' (NewLRUClientSessionCache n) = Ret (c, rs) \<and>
      int (length (lc_q c)) \<le> (if n < 1 then 64 else n)" for calls'
    using run [of calls'] inv_parts(3) by metis
  moreover have "\<exists>c1 c2. lru_Put k None c = Ret c1 \<and> lru_Get k c1 = (c2, None, True) \<and>
      lru_abs c1 = (k, None) # (if int (length (lc_q c)) < (if n < 1 then 64 else n) then lru_abs c else butlast (lru_abs c))"
    if "lru_run calls' (NewLRUClientSessionCache n) = Ret (c, rs)" and "lc_m c k = None" for calls' c rs k
  proof -
    have "lru_inv c" "lc_capacity c = (if n < 1 then 64 else n)"
      using run [of calls'] that(1) by auto
    then show ?thesis
      using nil_put_inserts [OF _ that(2)] by simp
  qed
  ultimately show ?thesis
    by blast
qed

theorem lru_refines_witness:
  "\<exists>c. lru_run [Put [1] (Some 7), Put [2] (Some 8), Get [1], Put [3] (Some (9 :: nat)), Get [2], Put [1] None, Get [1], Get [3]]
       (NewLRUClientSessionCache 2) =
     Ret (c, [(Some 7, True), (None, False), (None, False), (Some 9, True)]) \<and> lru_abs c = [([3], Some 9)]"
proof -
  let ?calls = "[Put [1] (Some 7), Put [2] (Some 8), Get [1], Put [3] (Some 9), Get [2], Put [1] None, Get [1], Get [3]]
    :: nat lru_call list"
  have "removes_cached (if (2 :: int) < 1 then 64 else 2) ?calls []"
    by (simp add: doc_Put_def doc_Get_def doc_without_def)
  from lru_refines [OF this, THEN conjunct1] show ?thesis
    by (simp add: doc_Put_def doc_Get_def doc_without_def del: lru_run.simps)
qed

section \<open>What the cache keeps\<close>

text \<open>The key a call names, and whether it stores one.\<close>

fun call_key :: "'s lru_call \<Rightarrow> bytes" where
  "call_key (Put k _) = k"
| "call_key (Get k) = k"

text \<open>The entry of \<open>k\<close>, and before it only keys of \<open>S\<close>.\<close>

definition spec_held :: "bytes set \<Rightarrow> bytes \<Rightarrow> 's option \<Rightarrow> 's lru_spec \<Rightarrow> bool" where
  "spec_held S k v xs \<longleftrightarrow> (\<exists>as bs. xs = as @ (k, v) # bs \<and> distinct (map fst xs) \<and> fst ` set as \<subseteq> S)"

lemma without_distinct: "distinct (map fst xs) \<Longrightarrow> distinct (map fst (without k xs))"
  by (induction xs) (auto simp: without_def)

lemma without_keys: "fst ` set (without k xs) = fst ` set xs - {k}"
  by (auto simp: without_def image_iff)

lemma without_append: "without k (xs @ ys) = without k xs @ without k ys"
  by (simp add: without_def)

lemma without_other: "k' \<noteq> k \<Longrightarrow> without k' ((k, v) # bs) = (k, v) # without k' bs"
  by (simp add: without_def)

lemma spec_Put_distinct:
  assumes "distinct (map fst xs)"
  shows "distinct (map fst (spec_Put cap k cs xs))"
proof -
  have "distinct (map fst (butlast xs))" "fst ` set (butlast xs) \<subseteq> fst ` set xs"
    using assms by (auto simp: distinct_butlast map_butlast dest: in_set_butlastD)
  moreover have "distinct (map fst (without k xs))" "k \<notin> fst ` set (without k xs)"
    using assms by (simp_all add: without_distinct without_keys)
  ultimately show ?thesis
    using assms by (auto simp: spec_Put_def)
qed

lemma front_held:
  assumes "spec_held S k v xs" "k' \<noteq> k" "k' \<in> S"
  shows "spec_held S k v ((k', cs) # without k' xs)" "spec_held S k v (without k' xs)"
proof -
  obtain as bs where xs: "xs = as @ (k, v) # bs" "distinct (map fst xs)" "fst ` set as \<subseteq> S"
    using assms(1) by (auto simp: spec_held_def)
  have eq: "without k' xs = without k' as @ (k, v) # without k' bs"
    by (simp add: xs(1) without_append without_other [OF assms(2)])
  have sub: "fst ` set (without k' as) \<subseteq> S"
    using xs(3) by (auto simp: without_keys)
  have d: "distinct (map fst (without k' xs))" "k' \<notin> fst ` set (without k' xs)"
    using without_distinct [OF xs(2)] by (simp_all add: without_keys)
  show "spec_held S k v (without k' xs)"
    using eq sub d unfolding spec_held_def by blast
  show "spec_held S k v ((k', cs) # without k' xs)"
    unfolding spec_held_def using eq sub d assms(3)
    by (intro exI [of _ "(k', cs) # without k' as"] exI [of _ "without k' bs"] conjI) auto
qed

lemma Put_held:
  assumes "spec_held S k v xs" "k' \<noteq> k" "k' \<in> S" "finite S" "int (card S) < cap" "int (length xs) \<le> cap"
  shows "spec_held S k v (spec_Put cap k' cs xs)"
proof (cases "k' \<in> fst ` set xs")
  case True
  then show ?thesis
    using front_held [OF assms(1-3)] by (simp add: spec_Put_def)
next
  case new: False
  obtain as bs where xs: "xs = as @ (k, v) # bs" "distinct (map fst xs)" "fst ` set as \<subseteq> S"
    using assms(1) by (auto simp: spec_held_def)
  show ?thesis
  proof (cases "int (length xs) < cap")
    case True
    then show ?thesis
      unfolding spec_held_def using xs new assms(3)
      by (intro exI [of _ "(k', cs) # as"] exI [of _ bs] conjI) (auto simp: spec_Put_def)
  next
    case False
    have "length as = card (fst ` set as)"
      using xs(1,2) distinct_card [of "map fst as"] by simp
    also have "\<dots> \<le> card (S - {k'})"
      using xs new assms(4) by (intro card_mono) auto
    also have "\<dots> < card S"
      using assms(3,4) by (rule card_Diff1_less [rotated])
    finally have "bs \<noteq> []"
      using False assms(5) xs(1) by auto
    then have eq: "butlast xs = as @ (k, v) # butlast bs"
      by (simp add: xs(1) butlast_append)
    have "distinct (map fst (spec_Put cap k' cs xs))"
      by (rule spec_Put_distinct [OF xs(2)])
    then show ?thesis
      unfolding spec_held_def using False new eq xs(3) assms(3)
      by (intro exI [of _ "(k', cs) # as"] exI [of _ "butlast bs"] conjI) (auto simp: spec_Put_def)
  qed
qed

lemma Get_held:
  assumes "spec_held S k v xs" "k' \<in> insert k S"
  shows "spec_held S k v (fst (spec_Get k' xs))"
proof (cases "k' = k")
  case True
  obtain as bs where xs: "xs = as @ (k, v) # bs" "distinct (map fst xs)" "fst ` set as \<subseteq> S"
    using assms(1) by (auto simp: spec_held_def)
  have "map_of xs k = Some v"
    by (rule map_of_is_SomeI) (use xs in auto)
  moreover have "distinct (map fst ((k, v) # without k xs))"
    using without_distinct [OF xs(2)] by (simp add: without_keys)
  ultimately show ?thesis
    unfolding spec_held_def by (intro exI [of _ "[]"] exI [of _ "without k xs"] conjI) (auto simp: spec_Get_def True)
next
  case False
  then show ?thesis
    using assms front_held(1) [OF assms(1), of k'] by (auto simp: spec_Get_def split: option.splits)
qed

lemma held_lookup: "spec_held S k v xs \<Longrightarrow> map_of xs k = Some v"
  by (auto simp: spec_held_def intro!: map_of_is_SomeI)

lemma without_length: "length (without k xs) \<le> length xs"
  by (simp add: without_def)

lemma without_shorter: "k \<in> fst ` set xs \<Longrightarrow> length (without k xs) < length xs"
  unfolding without_def by (auto intro: length_filter_less)

lemma spec_Put_length:
  assumes "int (length xs) \<le> cap" "1 \<le> cap"
  shows "int (length (spec_Put cap k cs xs)) \<le> cap"
proof (cases "k \<in> fst ` set xs")
  case True
  then show ?thesis
    using assms without_shorter [OF True] by (cases cs) (simp_all add: spec_Put_def)
qed (use assms in \<open>auto simp: spec_Put_def\<close>)

lemma spec_Get_length: "length (fst (spec_Get k xs)) \<le> length xs"
proof (cases "map_of xs k")
  case (Some v)
  then have "k \<in> fst ` set xs"
    using map_of_SomeD by force
  then show ?thesis
    using without_shorter [of k xs] by (simp add: spec_Get_def Some)
qed (simp add: spec_Get_def)

lemma spec_Get_distinct: "distinct (map fst xs) \<Longrightarrow> distinct (map fst (fst (spec_Get k xs)))"
  using without_distinct [of xs k] without_keys [of k xs] by (auto simp: spec_Get_def split: option.splits)

lemma spec_run_wf:
  assumes "distinct (map fst xs)" "int (length xs) \<le> cap" "1 \<le> cap"
  shows "distinct (map fst (fst (spec_run cap calls xs)))" "int (length (fst (spec_run cap calls xs))) \<le> cap"
proof -
  have "distinct (map fst (fst (spec_run cap calls xs))) \<and> int (length (fst (spec_run cap calls xs))) \<le> cap"
    using assms
  proof (induction cap calls xs rule: spec_run.induct)
    case (2 cap k cs calls xs)
    then show ?case
      by (simp add: spec_Put_distinct spec_Put_length)
  next
    case (3 cap k calls xs)
    have "int (length (fst (spec_Get k xs))) \<le> cap"
      using spec_Get_length [of k xs] 3 by linarith
    then show ?case
      using 3 spec_Get_distinct [of xs k] by (simp add: case_prod_beta prod_eq_iff)
  qed simp
  then show "distinct (map fst (fst (spec_run cap calls xs)))" "int (length (fst (spec_run cap calls xs))) \<le> cap"
    by simp_all
qed

lemma run_held:
  assumes "spec_held S k v xs" "int (length xs) \<le> cap" "finite S" "int (card S) < cap" "k \<notin> S"
    and "call_key ` set calls \<subseteq> insert k S" "\<forall>cs. Put k cs \<notin> set calls"
  shows "spec_held S k v (fst (spec_run cap calls xs))"
  using assms
proof (induction cap calls xs rule: spec_run.induct)
  case (2 cap k' cs calls xs)
  have "k' \<noteq> k" "k' \<in> S"
    using 2 by auto
  then show ?case
    using 2 Put_held [of S k v xs k' cap cs] spec_Put_length [of xs cap k' cs] by simp
next
  case (3 cap k' calls xs)
  have "int (length (fst (spec_Get k' xs))) \<le> cap"
    using spec_Get_length [of k' xs] 3 by linarith
  then show ?case
    using 3 Get_held [of S k v xs k'] by (simp add: case_prod_beta prod_eq_iff)
qed simp

lemma spec_run_append:
  "spec_run cap (as @ bs) xs =
     (fst (spec_run cap bs (fst (spec_run cap as xs))), snd (spec_run cap as xs) @ snd (spec_run cap bs (fst (spec_run cap as xs))))"
proof (induction as arbitrary: xs)
  case (Cons call as)
  then show ?case
    by (cases call) (simp_all add: case_prod_beta)
qed simp

lemma spec_Put_held:
  assumes "distinct (map fst xs)"
  shows "spec_held S k (Some v) (spec_Put cap k (Some v) xs)"
proof -
  obtain ys where "spec_Put cap k (Some v) xs = (k, Some v) # ys"
    by (cases "k \<in> fst ` set xs") (auto simp: spec_Put_def)
  then show ?thesis
    using spec_Put_distinct [OF assms, of cap k "Some v"] unfolding spec_held_def
    by (intro exI [of _ "[]"] exI [of _ ys] conjI) auto
qed

text \<open>C26: A session that was stored is found again.  After any calls at all, when \<open>Put\<close> stores a session under a key
  and the calls that follow store nothing under that key and use fewer distinct other keys than the cache's
  capacity, \<open>Get\<close> of the key returns that session.
\<close>

theorem lru_keeps:
  assumes "\<forall>cs. Put k cs \<notin> set calls"
    and "int (card (call_key ` set calls - {k})) < (if n < 1 then 64 else n)"
  shows "\<exists>c rs. lru_run (before @ Put k (Some v) # calls @ [Get k]) (NewLRUClientSessionCache n) = Ret (c, rs @ [(Some v, True)])"
proof -
  let ?cap = "if n < 1 then 64 else n"
  define S where "S = call_key ` set calls - {k}"
  define xs1 where "xs1 = fst (spec_run ?cap before [])"
  define xs2 where "xs2 = spec_Put ?cap k (Some v) xs1"
  define xs3 where "xs3 = fst (spec_run ?cap calls xs2)"
  have wf: "distinct (map fst xs1)" "int (length xs1) \<le> ?cap"
    unfolding xs1_def by (rule spec_run_wf; simp)+
  have "spec_held S k (Some v) xs2" "int (length xs2) \<le> ?cap"
    unfolding xs2_def by (rule spec_Put_held [OF wf(1)], rule spec_Put_length [OF wf(2)]) simp
  then have "spec_held S k (Some v) xs3"
    unfolding xs3_def by (rule run_held) (use assms in \<open>auto simp: S_def\<close>)
  then have "map_of xs3 k = Some (Some v)"
    by (rule held_lookup)
  then have "snd (spec_run ?cap (before @ Put k (Some v) # calls @ [Get k]) []) =
      (snd (spec_run ?cap before []) @ snd (spec_run ?cap calls xs2)) @ [(Some v, True)]"
    by (simp add: spec_run_append spec_Get_def flip: xs1_def xs2_def xs3_def)
  moreover obtain c where "lru_run (before @ Put k (Some v) # calls @ [Get k]) (NewLRUClientSessionCache n) =
      Ret (c, snd (spec_run ?cap (before @ Put k (Some v) # calls @ [Get k]) []))"
    using run_refines [OF inv_New [of n]] by (auto simp: NewLRUClientSessionCache_def lru_abs_def)
  ultimately show ?thesis
    by auto
qed

text \<open>A cache of two entries: the calls between use one other key, and a third had been evicted.\<close>

lemma lru_keeps_witness:
  "\<exists>c rs. lru_run ([Put [1] (Some (10::nat)), Put [2] (Some 20)] @ Put [3] (Some 30) # [Put [4] None, Get [3], Get [4]] @ [Get [3]])
     (NewLRUClientSessionCache 2) = Ret (c, rs @ [(Some 30, True)])"
  by (rule lru_keeps) (simp_all add: card_insert_if)

section \<open>The certificate cache\<close>

text \<open>
  \<open>certCache\<close> is shared by the connections' goroutines and by the garbage collector's cleanups.  Its state is the
  table, the entries it points to, and what is under way: calls of \<open>newCert\<close> that have parsed a certificate and
  not stored it, calls that hold an entry and have not made it active, the handles (\<open>activeCert\<close>) their callers
  hold, handles nobody holds whose cleanup has not run, and cleanups that found no reference left and have not
  removed the entry.  A handle is its entry with the \<open>der\<close> that \<open>newCert\<close> was called with.
\<close>

record 'c certCache =
  cc_map :: "bytes \<Rightarrow> nat option"
  cc_refs :: "nat \<Rightarrow> int"
  cc_cert :: "nat \<Rightarrow> 'c"
  cc_next :: nat
  cc_parsed :: "(bytes \<times> 'c) multiset"
  cc_loaded :: "(bytes \<times> nat) multiset"
  cc_live :: "(bytes \<times> nat) multiset"
  cc_dead :: "(bytes \<times> nat) multiset"
  cc_evicting :: "nat multiset"

definition new_certCache :: "(nat \<Rightarrow> 'c) \<Rightarrow> 'c certCache" where
  "new_certCache garbage = \<lparr>cc_map = (\<lambda>_. None), cc_refs = (\<lambda>_. 0), cc_cert = garbage, cc_next = 0, cc_parsed = {#},
     cc_loaded = {#}, cc_live = {#}, cc_dead = {#}, cc_evicting = {#}\<rparr>"

text \<open>
  The steps that are atomic: \<open>Load\<close> with what follows it up to the next access to shared state, \<open>LoadOrStore\<close>,
  \<open>refs.Add(1)\<close>, a handle's last reference going away, \<open>refs.Add(-1)\<close> with the test of its result, and \<open>Delete\<close>.
  A schedule is a list of them; a step that is not possible makes it none.  A \<open>der\<close> that does not parse leaves no
  trace.
\<close>

datatype 'c cc_step = Load bytes | LoadOrStore bytes 'c | Active bytes nat | Unreachable bytes nat | Cleanup bytes nat | Evict nat

definition newCert_load :: "(bytes \<Rightarrow> 'c option) \<Rightarrow> bytes \<Rightarrow> 'c certCache \<Rightarrow> 'c certCache" where
  "newCert_load ParseCertificate der s =
     (case cc_map s der of
        Some entry \<Rightarrow> s\<lparr>cc_loaded := add_mset (der, entry) (cc_loaded s)\<rparr>
      | None \<Rightarrow> (case ParseCertificate der of None \<Rightarrow> s | Some cert \<Rightarrow> s\<lparr>cc_parsed := add_mset (der, cert) (cc_parsed s)\<rparr>))"

definition newCert_store :: "bytes \<Rightarrow> 'c \<Rightarrow> 'c certCache \<Rightarrow> 'c certCache" where
  "newCert_store der cert s =
     (let s = s\<lparr>cc_parsed := cc_parsed s - {#(der, cert)#}\<rparr>
      in case cc_map s der of
           Some entry \<Rightarrow> s\<lparr>cc_loaded := add_mset (der, entry) (cc_loaded s)\<rparr>
         | None \<Rightarrow>
             let entry = cc_next s
             in s\<lparr>cc_next := entry + 1, cc_cert := (cc_cert s)(entry := cert), cc_refs := (cc_refs s)(entry := 0),
                  cc_map := (cc_map s)(der \<mapsto> entry), cc_loaded := add_mset (der, entry) (cc_loaded s)\<rparr>)"

definition active :: "bytes \<Rightarrow> nat \<Rightarrow> 'c certCache \<Rightarrow> 'c certCache" where
  "active der e s = s\<lparr>cc_loaded := cc_loaded s - {#(der, e)#}, cc_refs := (cc_refs s)(e := cc_refs s e + 1),
     cc_live := add_mset (der, e) (cc_live s)\<rparr>"

definition active_cleanup :: "bytes \<Rightarrow> nat \<Rightarrow> 'c certCache \<Rightarrow> 'c certCache" where
  "active_cleanup der e s =
     (let s = s\<lparr>cc_dead := cc_dead s - {#(der, e)#}, cc_refs := (cc_refs s)(e := cc_refs s e - 1)\<rparr>
      in if cc_refs s e = 0 then s\<lparr>cc_evicting := add_mset e (cc_evicting s)\<rparr> else s)"

definition evict :: "('c \<Rightarrow> bytes) \<Rightarrow> nat \<Rightarrow> 'c certCache \<Rightarrow> 'c certCache" where
  "evict Raw e s = s\<lparr>cc_evicting := cc_evicting s - {#e#}, cc_map := (cc_map s)(Raw (cc_cert s e) := None)\<rparr>"

fun cc_do :: "(bytes \<Rightarrow> 'c option) \<Rightarrow> ('c \<Rightarrow> bytes) \<Rightarrow> 'c cc_step \<Rightarrow> 'c certCache \<Rightarrow> 'c certCache option" where
  "cc_do parse Raw (Load der) s = Some (newCert_load parse der s)"
| "cc_do parse Raw (LoadOrStore der cert) s =
     (if (der, cert) \<in># cc_parsed s then Some (newCert_store der cert s) else None)"
| "cc_do parse Raw (Active der e) s = (if (der, e) \<in># cc_loaded s then Some (active der e s) else None)"
| "cc_do parse Raw (Unreachable der e) s =
     (if (der, e) \<in># cc_live s
      then Some (s\<lparr>cc_live := cc_live s - {#(der, e)#}, cc_dead := add_mset (der, e) (cc_dead s)\<rparr>) else None)"
| "cc_do parse Raw (Cleanup der e) s = (if (der, e) \<in># cc_dead s then Some (active_cleanup der e s) else None)"
| "cc_do parse Raw (Evict e) s = (if e \<in># cc_evicting s then Some (evict Raw e s) else None)"

fun cc_run :: "(bytes \<Rightarrow> 'c option) \<Rightarrow> ('c \<Rightarrow> bytes) \<Rightarrow> 'c cc_step list \<Rightarrow> 'c certCache \<Rightarrow> 'c certCache option" where
  "cc_run parse Raw [] s = Some s"
| "cc_run parse Raw (step # steps) s = Option.bind (cc_do parse Raw step s) (cc_run parse Raw steps)"

section \<open>The handles and the references\<close>

text \<open>What is held of an entry and of the certificates, whatever \<open>Raw\<close> returns.\<close>

definition handles :: "'c certCache \<Rightarrow> (bytes \<times> nat) multiset" where
  "handles s = cc_live s + cc_dead s"

definition certs_ok :: "(bytes \<Rightarrow> 'c option) \<Rightarrow> 'c certCache \<Rightarrow> bool" where
  "certs_ok parse s \<longleftrightarrow>
     (\<forall>der cert. (der, cert) \<in># cc_parsed s \<longrightarrow> parse der = Some cert) \<and>
     (\<forall>der e. cc_map s der = Some e \<or> (der, e) \<in># cc_loaded s + handles s \<longrightarrow>
        e < cc_next s \<and> parse der = Some (cc_cert s e))"

definition refs_ok :: "'c certCache \<Rightarrow> bool" where
  "refs_ok s \<longleftrightarrow> (\<forall>e < cc_next s. cc_refs s e = int (count (image_mset snd (handles s)) e))"

text \<open>An entry of the table without references is about to get one or about to be removed.\<close>

definition unreferenced_ok :: "'c certCache \<Rightarrow> bool" where
  "unreferenced_ok s \<longleftrightarrow>
     (\<forall>der e. cc_map s der = Some e \<longrightarrow> cc_refs s e \<noteq> 0 \<or> (der, e) \<in># cc_loaded s \<or> e \<in># cc_evicting s)"

lemma certs_ok_step:
  assumes "certs_ok parse s" "cc_do parse Raw step s = Some s'"
  shows "certs_ok parse s'"
proof (cases step)
  case (Load der)
  then show ?thesis
    using assms by (auto simp: certs_ok_def handles_def newCert_load_def split: option.splits)
next
  case (LoadOrStore der cert)
  then have "(der, cert) \<in># cc_parsed s" and s': "s' = newCert_store der cert s"
    using assms(2) by (auto split: if_splits)
  then have "parse der = Some cert"
    using assms(1) by (simp add: certs_ok_def)
  then show ?thesis
    using assms(1) unfolding s' newCert_store_def Let_def
    by (cases "cc_map s der") (auto simp: certs_ok_def handles_def less_Suc_eq dest: in_diffD)
next
  case (Active der e)
  then show ?thesis
    using assms by (fastforce simp: certs_ok_def handles_def active_def dest: in_diffD split: if_splits)
next
  case (Unreachable der e)
  then show ?thesis
    using assms by (fastforce simp: certs_ok_def handles_def dest: in_diffD split: if_splits)
next
  case (Cleanup der e)
  then show ?thesis
    using assms by (fastforce simp: certs_ok_def handles_def active_cleanup_def Let_def dest: in_diffD split: if_splits)
next
  case (Evict e)
  then show ?thesis
    using assms by (auto simp: certs_ok_def handles_def evict_def split: if_splits)
qed

lemma refs_ok_step:
  assumes "certs_ok parse s" "refs_ok s" "cc_do parse Raw step s = Some s'"
  shows "refs_ok s'"
proof (cases step)
  case (Load der)
  then show ?thesis
    using assms by (auto simp: refs_ok_def handles_def newCert_load_def split: option.splits)
next
  case (LoadOrStore der cert)
  have "(d, cc_next s) \<notin># handles s" for d
    using assms(1) unfolding certs_ok_def by (metis less_irrefl union_iff)
  then have "count (image_mset snd (handles s)) (cc_next s) = 0"
    by (auto simp: count_eq_zero_iff)
  then show ?thesis
    using assms LoadOrStore unfolding newCert_store_def Let_def
    by (cases "cc_map s der") (auto simp: refs_ok_def handles_def newCert_store_def Let_def less_Suc_eq split: if_splits)
next
  case (Active der e)
  then show ?thesis
    using assms by (auto simp: refs_ok_def handles_def active_def split: if_splits)
next
  case (Unreachable der e)
  then have "(der, e) \<in># cc_live s" "s' = s\<lparr>cc_live := cc_live s - {#(der, e)#}, cc_dead := add_mset (der, e) (cc_dead s)\<rparr>"
    using assms(3) by (auto split: if_splits)
  then have "handles s' = handles s"
    by (auto simp: handles_def multiset_eq_iff)
  then show ?thesis
    using assms(2) \<open>s' = _\<close> by (simp add: refs_ok_def)
next
  case (Cleanup der e)
  then have d: "(der, e) \<in># cc_dead s" and s': "s' = active_cleanup der e s"
    using assms(3) by (auto split: if_splits)
  have h: "add_mset (der, e) (handles s') = handles s"
    using d by (auto simp: s' active_cleanup_def handles_def Let_def)
  have "count (image_mset snd (handles s)) x = count (image_mset snd (handles s')) x + (if x = e then 1 else 0)" for x
    unfolding h [symmetric] by simp
  moreover have "cc_next s' = cc_next s" "cc_refs s' = (cc_refs s)(e := cc_refs s e - 1)"
    by (simp_all add: s' active_cleanup_def Let_def)
  ultimately show ?thesis
    using assms(2) by (auto simp: refs_ok_def)
next
  case (Evict e)
  then show ?thesis
    using assms by (auto simp: refs_ok_def handles_def evict_def split: if_splits)
qed

lemma still_in: "x \<noteq> y \<Longrightarrow> x \<in># A \<Longrightarrow> x \<in># A - {#y#}"
  by (simp add: in_diff_count)

lemma unreferenced_ok_step:
  assumes "certs_ok parse s" "refs_ok s" "unreferenced_ok s" "cc_do parse Raw step s = Some s'"
    and Raw: "\<And>der cert. parse der = Some cert \<Longrightarrow> Raw cert = der"
  shows "unreferenced_ok s'"
  unfolding unreferenced_ok_def
proof (intro allI impI)
  fix d x
  assume x: "cc_map s' d = Some x"
  have old: "cc_refs s x \<noteq> 0 \<or> (d, x) \<in># cc_loaded s \<or> x \<in># cc_evicting s" if "cc_map s d = Some x"
    using assms(3) that by (simp add: unreferenced_ok_def)
  have known: "x < cc_next s" "Raw (cc_cert s x) = d" if "cc_map s d = Some x"
    using assms(1) that by (simp_all add: certs_ok_def Raw)
  show "cc_refs s' x \<noteq> 0 \<or> (d, x) \<in># cc_loaded s' \<or> x \<in># cc_evicting s'"
  proof (cases step)
    case (Load der)
    then show ?thesis
      using x old assms(4) by (auto simp: newCert_load_def split: option.splits)
  next
    case (LoadOrStore der cert)
    then show ?thesis
      using x old known assms(4)
      by (cases "cc_map s der") (auto simp: newCert_store_def Let_def split: if_splits)
  next
    case (Active der e)
    then have l: "(der, e) \<in># cc_loaded s" and s': "s' = active der e s"
      using assms(4) by (auto split: if_splits)
    have "e < cc_next s"
      using assms(1) l unfolding certs_ok_def by (metis union_iff)
    then have "cc_refs s e \<ge> 0"
      using assms(2) by (simp add: refs_ok_def)
    then show ?thesis
      using x old by (cases "x = e") (auto simp: s' active_def still_in)
  next
    case (Unreachable der e)
    then show ?thesis
      using x old assms(4) by (auto split: if_splits)
  next
    case (Cleanup der e)
    then show ?thesis
      using x old assms(4) by (cases "x = e"; cases "cc_refs s e - 1 = 0") (simp_all add: active_cleanup_def split: if_splits, auto)
  next
    case (Evict e)
    then have s': "s' = evict Raw e s"
      using assms(4) by (simp split: if_splits)
    then have "d \<noteq> Raw (cc_cert s e)" and m: "cc_map s d = Some x"
      using x by (simp_all add: evict_def split: if_splits)
    then have "x \<noteq> e"
      using known(2) by blast
    then show ?thesis
      using old [OF m] still_in [OF \<open>x \<noteq> e\<close>] by (auto simp: s' evict_def)
  qed
qed

lemma cc_run_ok:
  assumes "cc_run parse Raw steps s = Some s'" "certs_ok parse s" "refs_ok s"
  shows "certs_ok parse s' \<and> refs_ok s' \<and>
    ((\<forall>der cert. parse der = Some cert \<longrightarrow> Raw cert = der) \<longrightarrow> unreferenced_ok s \<longrightarrow> unreferenced_ok s')"
  using assms
proof (induction steps arbitrary: s)
  case (Cons step steps)
  obtain s1 where s1: "cc_do parse Raw step s = Some s1" "cc_run parse Raw steps s1 = Some s'"
    using Cons.prems(1) by (auto simp: bind_eq_Some_conv)
  note ok = certs_ok_step [OF Cons.prems(2) s1(1)] refs_ok_step [OF Cons.prems(2,3) s1(1)]
  show ?case
    using Cons.IH [OF s1(2) ok] unreferenced_ok_step [OF Cons.prems(2,3) _ s1(1)] by blast
qed simp

lemma new_ok: "certs_ok parse (new_certCache g)" "refs_ok (new_certCache g)" "unreferenced_ok (new_certCache g)"
  by (simp_all add: certs_ok_def refs_ok_def unreferenced_ok_def new_certCache_def handles_def)

text \<open>C27: The cache of certificates interns and does not leak.  Whatever the order in which the steps of concurrent
  calls of \<open>newCert\<close> and of the collector's cleanups run, every handle, held or not, holds the certificate that its
  \<open>der\<close> parses to, and an entry's count is the number of handles of it whose cleanup has not run - also with the
  race that the source describes, in which a cleanup removes an entry that has got a reference again.  When
  nothing is under way (and \<open>Raw\<close> of a parsed certificate is what it was parsed from), an entry that is still in
  the table has a handle that is held; so a table without handles is empty.
\<close>

theorem certCache_no_leak:
  assumes "cc_run parse Raw steps (new_certCache garbage) = Some s"
    and "\<forall>der cert. parse der = Some cert \<longrightarrow> Raw cert = der"
  shows "(\<forall>der e. (der, e) \<in># handles s \<longrightarrow>
        parse der = Some (cc_cert s e) \<and> cc_refs s e = int (count (image_mset snd (handles s)) e)) \<and>
    (cc_loaded s = {#} \<and> cc_dead s = {#} \<and> cc_evicting s = {#} \<longrightarrow>
      (\<forall>der e. cc_map s der = Some e \<longrightarrow> (der, e) \<in># cc_live s))"
proof -
  have ok: "certs_ok parse s" "refs_ok s" "unreferenced_ok s"
    using cc_run_ok [OF assms(1) new_ok(1,2)] new_ok(3) assms(2) by blast+
  have handle: "parse der = Some (cc_cert s e)" "cc_refs s e = int (count (image_mset snd (handles s)) e)"
    if "(der, e) \<in># handles s" for der e
    using ok(1,2) that by (simp_all add: certs_ok_def refs_ok_def)
  have "(der, e) \<in># cc_live s" if quiet: "cc_loaded s = {#}" "cc_dead s = {#}" "cc_evicting s = {#}" and e: "cc_map s der = Some e" for der e
  proof -
    have "cc_refs s e \<noteq> 0" "e < cc_next s" and der: "parse der = Some (cc_cert s e)"
      using ok(1,3) quiet e by (auto simp: unreferenced_ok_def certs_ok_def)
    then have "count (image_mset snd (cc_live s)) e \<noteq> 0"
      using ok(2) quiet by (auto simp: refs_ok_def handles_def)
    then have "e \<in># image_mset snd (cc_live s)"
      by (simp only: count_eq_zero_iff) simp
    then obtain der' where live: "(der', e) \<in># cc_live s"
      by auto
    then have "parse der' = Some (cc_cert s e)"
      by (simp add: handle(1) handles_def)
    then have "der' = der"
      using der assms(2) by metis
    then show ?thesis
      using live by simp
  qed
  then show ?thesis
    using handle by blast
qed

text \<open>
  The race: a handle is dropped, its cleanup finds no reference, and before the entry is removed another call finds
  it; later the same certificate is parsed again, so that it is in memory twice, and everything is removed.
\<close>

definition cc_race :: "bytes cc_step list" where
  "cc_race = [Load [1], LoadOrStore [1] [1], Active [1] 0, Load [1], Unreachable [1] 0, Cleanup [1] 0, Active [1] 0, Evict 0,
     Load [1], LoadOrStore [1] [1], Active [1] 1, Unreachable [1] 0, Cleanup [1] 0, Evict 0]"

definition cc_race_end :: "bytes certCache" where
  "cc_race_end = \<lparr>cc_map = (\<lambda>_. None)([1] := None, [1] := Some 1, [1] := None), cc_refs = (\<lambda>_. 0)(1 := 1), cc_cert = (\<lambda>_. [])(0 := [1], 1 := [1]),
     cc_next = 2, cc_parsed = {#}, cc_loaded = {#}, cc_live = {#([1], 1)#}, cc_dead = {#}, cc_evicting = {#}\<rparr>"

lemma certCache_no_leak_witness:
  "cc_run Some id cc_race (new_certCache (\<lambda>_. [])) = Some cc_race_end \<and> Some [1] = Some (cc_cert cc_race_end 1) \<and>
    cc_refs cc_race_end 1 = int (count (image_mset snd (handles cc_race_end)) 1)"
proof -
  have run: "cc_run Some id cc_race (new_certCache (\<lambda>_. [])) = Some cc_race_end"
    by (simp add: cc_race_def cc_race_end_def new_certCache_def newCert_load_def newCert_store_def active_def
        active_cleanup_def evict_def fun_eq_iff)
  have "([1], 1) \<in># handles cc_race_end"
    by (simp add: handles_def cc_race_end_def)
  then show ?thesis
    using certCache_no_leak [OF run] run by simp
qed

end
