(* ===== verification/Hpke.thy ===== *)
theory Hpke
  imports Ciphers KeyAgreement
begin

text \<open>
  The package \<open>hpke\<close> (\<open>hpke/hpye.go\<close>): hybrid public key encryption (RFC 9180) in base mode with X25519 and
  HKDF-SHA256.  What it takes from \<open>crypto/ecdh\<close> and from the packages of the AEADs is the parameter \<open>hpke_lib\<close>;
  \<open>crypto/hkdf\<close> is the one of \<open>KeySchedule\<close>.
\<close>

section \<open>The libraries\<close>

text \<open>
  The methods of the curve X25519, of its keys, the constructors of the AEADs and the methods of an AEAD.
  \<open>Seal\<close> and \<open>Open\<close> get a nil destination.
\<close>

record ('k, 'p, 'a) hpke_lib =
  hl_NewPublicKey :: "bytes \<Rightarrow> 'p exec"
  hl_NewPrivateKey :: "bytes \<Rightarrow> 'k exec"
  hl_PublicKey :: "'k \<Rightarrow> 'p"
  hl_Bytes :: "'p \<Rightarrow> bytes"
  hl_ECDH :: "'k \<Rightarrow> 'p \<Rightarrow> bytes exec"
  hl_aesGCMNew :: "bytes \<Rightarrow> 'a exec"
  hl_chacha20poly1305_New :: "bytes \<Rightarrow> 'a exec"
  hl_NonceSize :: "'a \<Rightarrow> nat"
  hl_Seal :: "'a \<Rightarrow> bytes \<Rightarrow> bytes \<Rightarrow> bytes \<Rightarrow> bytes exec"
  hl_Open :: "'a \<Rightarrow> bytes \<Rightarrow> bytes \<Rightarrow> bytes \<Rightarrow> bytes exec"

section \<open>Key derivation\<close>

text \<open>An \<open>hkdfKDF\<close> is its hash function.\<close>

definition LabeledExtract :: "hash_fn \<Rightarrow> bytes \<Rightarrow> bytes option \<Rightarrow> string \<Rightarrow> bytes \<Rightarrow> bytes exec" where
  "LabeledExtract kdf sid salt label inputKey =
     (let labeledIKM = str_bytes ''HPKE-v1'' @ sid @ str_bytes label @ inputKey
      in hkdf_Extract kdf labeledIKM salt)"

definition LabeledExpand :: "hash_fn \<Rightarrow> bytes \<Rightarrow> bytes \<Rightarrow> string \<Rightarrow> bytes \<Rightarrow> u16 \<Rightarrow> bytes exec" where
  "LabeledExpand kdf suiteID randomKey label info n =
     (let labeledInfo = put_u16 n @ str_bytes ''HPKE-v1'' @ suiteID @ str_bytes label @ info
      in hkdf_Expand kdf randomKey labeledInfo (unat n))"

section \<open>The KEM\<close>

definition DHKEM_X25519_HKDF_SHA256 :: u16 where "DHKEM_X25519_HKDF_SHA256 = 0x0020"

text \<open>Of an entry of \<open>SupportedKEMs\<close>: the hash and \<open>nSecret\<close>; the curve is that of the library.\<close>

definition SupportedKEMs :: "std_hashes \<Rightarrow> u16 \<Rightarrow> (hash_fn \<times> u16) option" where
  "SupportedKEMs H i = (if i = DHKEM_X25519_HKDF_SHA256 then Some (sha256_h H, 32) else None)"

record dhKEM =
  dk_kdf :: hash_fn
  dk_suiteID :: bytes
  dk_nSecret :: u16

definition newDHKem :: "std_hashes \<Rightarrow> u16 \<Rightarrow> dhKEM exec" where
  "newDHKem H kemID =
     (case SupportedKEMs H kemID of
        None \<Rightarrow> Fail (ErrMsg ''unsupported suite ID'')
      | Some (hash, nSecret) \<Rightarrow>
          Ret \<lparr>dk_kdf = hash, dk_suiteID = str_bytes ''KEM'' @ put_u16 kemID, dk_nSecret = nSecret\<rparr>)"

definition ExtractAndExpand :: "dhKEM \<Rightarrow> bytes \<Rightarrow> bytes \<Rightarrow> bytes exec" where
  "ExtractAndExpand dh dhKey kemContext =
     exec_bind (LabeledExtract (dk_kdf dh) (dk_suiteID dh) None ''eae_prk'' dhKey) (\<lambda>eaePRK.
     LabeledExpand (dk_kdf dh) (dk_suiteID dh) eaePRK ''shared_secret'' kemContext (dk_nSecret dh))"

text \<open>\<open>gen\<close> is \<open>testingOnlyGenerateKey\<close> or \<open>GenerateKey\<close> with the random source.\<close>

definition Encap :: "('k, 'p, 'a) hpke_lib \<Rightarrow> 'k exec \<Rightarrow> dhKEM \<Rightarrow> 'p \<Rightarrow> (bytes \<times> bytes) exec" where
  "Encap L gen dh pubRecipient =
     exec_bind gen (\<lambda>privEph.
     exec_bind (hl_ECDH L privEph pubRecipient) (\<lambda>dhVal.
     let encPubEph = hl_Bytes L (hl_PublicKey L privEph);
         kemContext = encPubEph @ hl_Bytes L pubRecipient
     in exec_bind (ExtractAndExpand dh dhVal kemContext) (\<lambda>sharedSecret. Ret (sharedSecret, encPubEph))))"

definition Decap :: "('k, 'p, 'a) hpke_lib \<Rightarrow> dhKEM \<Rightarrow> bytes \<Rightarrow> 'k \<Rightarrow> bytes exec" where
  "Decap L dh encPubEph secRecipient =
     exec_bind (hl_NewPublicKey L encPubEph) (\<lambda>pubEph.
     exec_bind (hl_ECDH L secRecipient pubEph) (\<lambda>dhVal.
     ExtractAndExpand dh dhVal (encPubEph @ hl_Bytes L (hl_PublicKey L secRecipient))))"

section \<open>Numbers of messages\<close>

record uint128 =
  hi :: u64
  lo :: u64

text \<open>\<open>bits.Len64\<close> and \<open>bits.Add64(lo, 1, 0)\<close> of the Go library.\<close>

fun bits_len :: "nat \<Rightarrow> nat" where
  "bits_len n = (if n = 0 then 0 else Suc (bits_len (n div 2)))"

declare bits_len.simps [simp del]

definition Len64 :: "u64 \<Rightarrow> nat" where "Len64 x = bits_len (unat x)"

definition addOne :: "uint128 \<Rightarrow> uint128" where
  "addOne u = (let carry = (if lo u = - 1 then 1 else 0) in \<lparr>hi = hi u + carry, lo = lo u + 1\<rparr>)"

definition bitLen :: "uint128 \<Rightarrow> nat" where "bitLen u = Len64 (hi u) + Len64 (lo u)"

definition uint128_bytes :: "uint128 \<Rightarrow> bytes" where "uint128_bytes u = put_u64 (hi u) @ put_u64 (lo u)"

section \<open>Contexts\<close>

record 'a hpke_context =
  cx_aead :: 'a
  cx_sharedSecret :: bytes
  cx_suiteID :: bytes
  cx_key :: bytes
  cx_baseNonce :: bytes
  cx_exporterSecret :: bytes
  cx_seqNum :: uint128

definition AEAD_AES_128_GCM :: u16 where "AEAD_AES_128_GCM = 0x0001"
definition AEAD_AES_256_GCM :: u16 where "AEAD_AES_256_GCM = 0x0002"
definition AEAD_ChaCha20Poly1305 :: u16 where "AEAD_ChaCha20Poly1305 = 0x0003"

text \<open>The size of the key, of the nonce, and the constructor.\<close>

definition SupportedAEADs :: "('k, 'p, 'a) hpke_lib \<Rightarrow> u16 \<Rightarrow> (nat \<times> nat \<times> (bytes \<Rightarrow> 'a exec)) option" where
  "SupportedAEADs L i =
     (if i = AEAD_AES_128_GCM then Some (16, 12, hl_aesGCMNew L)
      else if i = AEAD_AES_256_GCM then Some (32, 12, hl_aesGCMNew L)
      else if i = AEAD_ChaCha20Poly1305 then Some (32, 12, hl_chacha20poly1305_New L)
      else None)"

definition KDF_HKDF_SHA256 :: u16 where "KDF_HKDF_SHA256 = 0x0001"

definition SupportedKDFs :: "std_hashes \<Rightarrow> u16 \<Rightarrow> hash_fn option" where
  "SupportedKDFs H i = (if i = KDF_HKDF_SHA256 then Some (sha256_h H) else None)"

definition suiteID :: "u16 \<Rightarrow> u16 \<Rightarrow> u16 \<Rightarrow> bytes" where
  "suiteID kemID kdfID aeadID = str_bytes ''HPKE'' @ put_u16 kemID @ put_u16 kdfID @ put_u16 aeadID"

definition newContext ::
  "std_hashes \<Rightarrow> ('k, 'p, 'a) hpke_lib \<Rightarrow> bytes \<Rightarrow> u16 \<Rightarrow> u16 \<Rightarrow> u16 \<Rightarrow> bytes \<Rightarrow> 'a hpke_context exec" where
  "newContext H L sharedSecret kemID kdfID aeadID info =
     (let sid = suiteID kemID kdfID aeadID
      in case SupportedKDFs H kdfID of
           None \<Rightarrow> Fail (ErrMsg ''unsupported KDF id'')
         | Some kdf \<Rightarrow>
             (case SupportedAEADs L aeadID of
                None \<Rightarrow> Fail (ErrMsg ''unsupported AEAD id'')
              | Some (keySize, nonce_size, new) \<Rightarrow>
                  exec_bind (LabeledExtract kdf sid None ''psk_id_hash'' []) (\<lambda>pskIDHash.
                  exec_bind (LabeledExtract kdf sid None ''info_hash'' info) (\<lambda>infoHash.
                  let ksContext = [0] @ pskIDHash @ infoHash
                  in exec_bind (LabeledExtract kdf sid (Some sharedSecret) ''secret'' []) (\<lambda>secret.
                     exec_bind (LabeledExpand kdf sid secret ''key'' ksContext (of_nat keySize)) (\<lambda>key.
                     exec_bind (LabeledExpand kdf sid secret ''base_nonce'' ksContext (of_nat nonce_size)) (\<lambda>baseNonce.
                     exec_bind (LabeledExpand kdf sid secret ''exp'' ksContext (of_nat (h_size kdf))) (\<lambda>exporterSecret.
                     exec_bind (new key) (\<lambda>aead.
                     Ret \<lparr>cx_aead = aead, cx_sharedSecret = sharedSecret, cx_suiteID = sid, cx_key = key,
                          cx_baseNonce = baseNonce, cx_exporterSecret = exporterSecret,
                          cx_seqNum = \<lparr>hi = 0, lo = 0\<rparr>\<rparr>)))))))))"

definition SetupSender ::
  "std_hashes \<Rightarrow> ('k, 'p, 'a) hpke_lib \<Rightarrow> 'k exec \<Rightarrow> u16 \<Rightarrow> u16 \<Rightarrow> u16 \<Rightarrow> 'p \<Rightarrow> bytes \<Rightarrow> (bytes \<times> 'a hpke_context) exec" where
  "SetupSender H L gen kemID kdfID aeadID pub info =
     exec_bind (newDHKem H kemID) (\<lambda>kem.
     exec_bind (Encap L gen kem pub) (\<lambda>(sharedSecret, encapsulatedKey).
     exec_bind (newContext H L sharedSecret kemID kdfID aeadID info) (\<lambda>ctx. Ret (encapsulatedKey, ctx))))"

definition SetupRecipient ::
  "std_hashes \<Rightarrow> ('k, 'p, 'a) hpke_lib \<Rightarrow> u16 \<Rightarrow> u16 \<Rightarrow> u16 \<Rightarrow> 'k \<Rightarrow> bytes \<Rightarrow> bytes \<Rightarrow> 'a hpke_context exec" where
  "SetupRecipient H L kemID kdfID aeadID priv info encPubEph =
     exec_bind (newDHKem H kemID) (\<lambda>kem.
     exec_bind (Decap L kem encPubEph priv) (\<lambda>sharedSecret. newContext H L sharedSecret kemID kdfID aeadID info))"

definition ParseHPKEPublicKey :: "std_hashes \<Rightarrow> ('k, 'p, 'a) hpke_lib \<Rightarrow> u16 \<Rightarrow> bytes \<Rightarrow> 'p exec" where
  "ParseHPKEPublicKey H L kemID bs =
     (case SupportedKEMs H kemID of None \<Rightarrow> Fail (ErrMsg ''unsupported KEM id'') | Some _ \<Rightarrow> hl_NewPublicKey L bs)"

definition ParseHPKEPrivateKey :: "std_hashes \<Rightarrow> ('k, 'p, 'a) hpke_lib \<Rightarrow> u16 \<Rightarrow> bytes \<Rightarrow> 'k exec" where
  "ParseHPKEPrivateKey H L kemID bs =
     (case SupportedKEMs H kemID of None \<Rightarrow> Fail (ErrMsg ''unsupported KEM id'') | Some _ \<Rightarrow> hl_NewPrivateKey L bs)"

section \<open>Messages\<close>

definition nextNonce :: "('k, 'p, 'a) hpke_lib \<Rightarrow> 'a hpke_context \<Rightarrow> bytes exec" where
  "nextNonce L ctx =
     (let n = hl_NonceSize L (cx_aead ctx); base = cx_baseNonce ctx
      in if n > 16 then Panic ''slice bounds out of range''
         else let nonce = drop (16 - n) (uint128_bytes (cx_seqNum ctx))
              in if length base > length nonce then Panic ''index out of range''
                 else Ret (xor_bytes nonce base @ drop (length base) nonce))"

definition incrementNonce :: "('k, 'p, 'a) hpke_lib \<Rightarrow> 'a hpke_context \<Rightarrow> 'a hpke_context exec" where
  "incrementNonce L ctx =
     (if int (bitLen (cx_seqNum ctx)) \<ge> int (hl_NonceSize L (cx_aead ctx)) * 8 - 1 then Panic ''message limit reached''
      else Ret (ctx\<lparr>cx_seqNum := addOne (cx_seqNum ctx)\<rparr>))"

text \<open>
  A call leaves the context as it was unless it reaches the last assignment of \<open>incrementNonce\<close>.  \<open>Seal\<close> returns
  the context and the ciphertext.
\<close>

definition hpke_Seal :: "('k, 'p, 'a) hpke_lib \<Rightarrow> 'a hpke_context \<Rightarrow> bytes \<Rightarrow> bytes \<Rightarrow> ('a hpke_context \<times> bytes) exec" where
  "hpke_Seal L s aad plaintext =
     exec_bind (nextNonce L s) (\<lambda>nonce.
     exec_bind (hl_Seal L (cx_aead s) nonce plaintext aad) (\<lambda>ciphertext.
     exec_bind (incrementNonce L s) (\<lambda>s. Ret (s, ciphertext))))"

definition hpke_Open :: "('k, 'p, 'a) hpke_lib \<Rightarrow> 'a hpke_context \<Rightarrow> bytes \<Rightarrow> bytes \<Rightarrow> 'a hpke_context \<times> bytes exec" where
  "hpke_Open L r aad ciphertext =
     (case exec_bind (nextNonce L r) (\<lambda>nonce. hl_Open L (cx_aead r) nonce ciphertext aad) of
        Ret plaintext \<Rightarrow>
          (case incrementNonce L r of Ret r' \<Rightarrow> (r', Ret plaintext) | Fail e \<Rightarrow> (r, Fail e) | Panic p \<Rightarrow> (r, Panic p))
      | e \<Rightarrow> (r, e))"

text \<open>Messages one after the other, each with its additional data.\<close>

fun seal_all :: "('k, 'p, 'a) hpke_lib \<Rightarrow> 'a hpke_context \<Rightarrow> (bytes \<times> bytes) list \<Rightarrow> ('a hpke_context \<times> bytes list) exec" where
  "seal_all L s [] = Ret (s, [])"
| "seal_all L s ((aad, plaintext) # msgs) =
     exec_bind (hpke_Seal L s aad plaintext) (\<lambda>(s, ciphertext).
     exec_bind (seal_all L s msgs) (\<lambda>(s, cs). Ret (s, ciphertext # cs)))"

fun open_all :: "('k, 'p, 'a) hpke_lib \<Rightarrow> 'a hpke_context \<Rightarrow> (bytes \<times> bytes) list \<Rightarrow> ('a hpke_context \<times> bytes list) exec" where
  "open_all L r [] = Ret (r, [])"
| "open_all L r ((aad, ciphertext) # msgs) =
     (case hpke_Open L r aad ciphertext of
        (r, Ret plaintext) \<Rightarrow> exec_bind (open_all L r msgs) (\<lambda>(r, ps). Ret (r, plaintext # ps))
      | (r, Fail e) \<Rightarrow> Fail e
      | (r, Panic p) \<Rightarrow> Panic p)"

section \<open>The message limit\<close>

definition uint128_nat :: "uint128 \<Rightarrow> nat" where "uint128_nat u = unat (hi u) * 2 ^ 64 + unat (lo u)"

lemma bits_len_le: "bits_len n \<le> k \<longleftrightarrow> n < 2 ^ k"
proof (induction k arbitrary: n)
  case 0
  then show ?case by (subst bits_len.simps) auto
next
  case (Suc k)
  show ?case
    using Suc [of "n div 2"] by (subst bits_len.simps) auto
qed

lemma addOne_nat:
  assumes "uint128_nat u < 2 ^ 127"
  shows "uint128_nat (addOne u) = uint128_nat u + 1"
proof (cases "lo u = - 1")
  case True
  have "unat (hi u) < 2 ^ 63"
    using assms by (simp add: uint128_nat_def)
  then have "unat (hi u + 1) = unat (hi u) + 1"
    by (intro unat_plus_if_size [THEN trans]) (simp add: word_size)
  moreover have "unat (- 1 :: u64) = 2 ^ 64 - 1"
    by (simp add: unsigned_minus_1_eq_mask mask_eq_exp_minus_1)
  ultimately show ?thesis
    by (simp add: addOne_def uint128_nat_def True)
next
  case False
  then have "1 + lo u \<noteq> 0"
    by (metis add.commute eq_neg_iff_add_eq_0)
  then have "unat (lo u + 1) = unat (lo u) + 1"
    using unatSuc [of "lo u"] by (simp add: add.commute)
  then show ?thesis
    using False by (simp add: addOne_def uint128_nat_def)
qed

definition message_limit :: nat where "message_limit = 2 ^ 94 + 2 ^ 63"

lemma bitLen_below:
  assumes "uint128_nat u \<le> message_limit"
  shows "bitLen u \<ge> 95 \<longleftrightarrow> uint128_nat u = message_limit"
proof -
  have lo: "unat (lo u) < 2 ^ 64"
    using unat_bound [of "lo u"] by simp
  have L: "Len64 (lo u) \<le> 64" "Len64 (lo u) \<le> 63 \<longleftrightarrow> unat (lo u) < 2 ^ 63"
    using lo by (simp_all only: Len64_def bits_len_le)
  have H: "Len64 (hi u) \<le> 30 \<longleftrightarrow> unat (hi u) < 2 ^ 30" "Len64 (hi u) \<le> 31 \<longleftrightarrow> unat (hi u) < 2 ^ 31"
    by (simp_all only: Len64_def bits_len_le)
  show ?thesis
  proof (cases "unat (hi u) < 2 ^ 30")
    case True
    then have "uint128_nat u < 2 ^ 94"
      using lo by (simp add: uint128_nat_def)
    then show ?thesis
      using True H(1) L(1) by (simp add: bitLen_def message_limit_def)
  next
    case False
    have hi: "unat (hi u) = 2 ^ 30"
      using assms False lo by (simp add: uint128_nat_def message_limit_def)
    then have "Len64 (hi u) = 31" "unat (lo u) \<le> 2 ^ 63"
      using H assms by (simp_all add: uint128_nat_def message_limit_def)
    then show ?thesis
      using L hi by (auto simp: bitLen_def uint128_nat_def message_limit_def)
  qed
qed

lemma get_be_append: "get_be (xs @ ys) = get_be xs * 256 ^ length ys + get_be ys"
  by (induction ys rule: rev_induct) (simp_all add: algebra_simps flip: append_assoc)

lemma uint128_bytes_nat: "get_be (uint128_bytes u) = uint128_nat u" "length (uint128_bytes u) = 16"
proof -
  show "get_be (uint128_bytes u) = uint128_nat u"
    using unat_bound [of "hi u"] unat_bound [of "lo u"]
    by (simp add: uint128_bytes_def uint128_nat_def put_u64_def get_be_append)
qed (simp add: uint128_bytes_def)

text \<open>A context for an AEAD with nonces of twelve bytes, which all of them have.\<close>

definition tls_context :: "('k, 'p, 'a) hpke_lib \<Rightarrow> 'a hpke_context \<Rightarrow> bool" where
  "tls_context L ctx \<longleftrightarrow> hl_NonceSize L (cx_aead ctx) = 12 \<and> length (cx_baseNonce ctx) \<le> 12"

lemma nextNonce_Ret:
  assumes "tls_context L ctx"
  shows "nextNonce L ctx = Ret (xor_bytes (drop 4 (uint128_bytes (cx_seqNum ctx))) (cx_baseNonce ctx) @
     drop (length (cx_baseNonce ctx)) (drop 4 (uint128_bytes (cx_seqNum ctx))))"
  using assms by (simp add: nextNonce_def tls_context_def uint128_bytes_nat(2) Let_def)

lemma incrementNonce_Ret:
  assumes "tls_context L ctx" "uint128_nat (cx_seqNum ctx) \<le> message_limit"
  shows "incrementNonce L ctx =
     (if uint128_nat (cx_seqNum ctx) = message_limit then Panic ''message limit reached''
      else Ret (ctx\<lparr>cx_seqNum := addOne (cx_seqNum ctx)\<rparr>))"
  using assms(1) bitLen_below [OF assms(2)] by (auto simp: incrementNonce_def tls_context_def)

lemma xor_cancel: "(a :: byte) XOR c = b XOR c \<Longrightarrow> a = b"
proof -
  assume eq: "a XOR c = b XOR c"
  have "a = (a XOR c) XOR c"
    by (simp add: xor.assoc)
  also have "\<dots> = b"
    by (simp add: eq xor.assoc)
  finally show "a = b" .
qed

text \<open>Different numbers below the limit give different nonces.\<close>

lemma nonces_differ:
  assumes "tls_context L a" "tls_context L b" "cx_baseNonce a = cx_baseNonce b"
    and "uint128_nat (cx_seqNum a) \<le> message_limit" "uint128_nat (cx_seqNum b) \<le> message_limit"
    and "nextNonce L a = nextNonce L b"
  shows "uint128_nat (cx_seqNum a) = uint128_nat (cx_seqNum b)"
proof -
  let ?n = "length (cx_baseNonce b)"
  let ?x = "drop 4 (uint128_bytes (cx_seqNum a))" and ?y = "drop 4 (uint128_bytes (cx_seqNum b))"
  have n: "?n \<le> 12" and len: "length ?x = 12" "length ?y = 12"
    using assms(2) by (simp_all add: tls_context_def uint128_bytes_nat(2))
  have eq: "xor_bytes ?x (cx_baseNonce b) @ drop ?n ?x = xor_bytes ?y (cx_baseNonce b) @ drop ?n ?y"
    using assms(6) by (simp add: nextNonce_Ret [OF assms(1)] nextNonce_Ret [OF assms(2)] assms(3))
  then have "xor_bytes ?x (cx_baseNonce b) = xor_bytes ?y (cx_baseNonce b)" and rest: "drop ?n ?x = drop ?n ?y"
    using len n by simp_all
  from this(1) have "xor_bytes ?x (cx_baseNonce b) ! i = xor_bytes ?y (cx_baseNonce b) ! i" for i
    by (rule arg_cong)
  then have "?x ! i XOR cx_baseNonce b ! i = ?y ! i XOR cx_baseNonce b ! i" if "i < ?n" for i
    using that len n nth_xor_bytes [of i ?x "cx_baseNonce b"] nth_xor_bytes [of i ?y "cx_baseNonce b"] by simp
  then have "?x ! i = ?y ! i" if "i < ?n" for i
    using that xor_cancel by blast
  then have "take ?n ?x = take ?n ?y"
    using len n by (intro nth_take_lemma) simp_all
  then have tails: "?x = ?y"
    using rest by (metis append_take_drop_id)
  have heads: "take 4 (uint128_bytes u) = put_be 4 0" if "uint128_nat u \<le> message_limit" for u
  proof -
    have "get_be (take 4 (uint128_bytes u)) * 256 ^ 12 \<le> uint128_nat u"
      using get_be_append [of "take 4 (uint128_bytes u)" "drop 4 (uint128_bytes u)"] by (simp add: uint128_bytes_nat)
    then have "get_be (take 4 (uint128_bytes u)) = 0"
      using that by (simp add: message_limit_def)
    moreover have "length (take 4 (uint128_bytes u)) = 4"
      by (simp add: uint128_bytes_nat(2))
    ultimately show ?thesis
      using put_be_get_be by metis
  qed
  have "uint128_bytes (cx_seqNum a) = uint128_bytes (cx_seqNum b)"
    using tails heads [OF assms(4)] heads [OF assms(5)] by (metis append_take_drop_id)
  then show ?thesis
    by (simp flip: uint128_bytes_nat(1))
qed

section \<open>Runs\<close>

text \<open>What is sealed with a nonce can be opened with it, up to a size of the plaintext.\<close>

definition seals :: "('k, 'p, 'a) hpke_lib \<Rightarrow> nat \<Rightarrow> 'a \<Rightarrow> bool" where
  "seals L m a \<longleftrightarrow> (\<forall>n p ad. length n = 12 \<longrightarrow> length p \<le> m \<longrightarrow>
     (\<exists>c. hl_Seal L a n p ad = Ret c \<and> hl_Open L a n c ad = Ret p))"

lemma hpke_Seal_cases:
  assumes "tls_context L s" "uint128_nat (cx_seqNum s) \<le> message_limit"
    and "seals L m (cx_aead s)"
    and "length p \<le> m"
  obtains (limit) "uint128_nat (cx_seqNum s) = message_limit" "hpke_Seal L s aad p = Panic ''message limit reached''"
  | (sealed) n c where "uint128_nat (cx_seqNum s) < message_limit" "nextNonce L s = Ret n" "length n = 12"
      "hl_Seal L (cx_aead s) n p aad = Ret c"
      "hpke_Seal L s aad p = Ret (s\<lparr>cx_seqNum := addOne (cx_seqNum s)\<rparr>, c)"
      "uint128_nat (addOne (cx_seqNum s)) = uint128_nat (cx_seqNum s) + 1"
proof -
  obtain n where n: "nextNonce L s = Ret n" "length n = 12"
    using nextNonce_Ret [OF assms(1)] assms(1) by (simp add: uint128_bytes_nat(2) tls_context_def)
  obtain c where c: "hl_Seal L (cx_aead s) n p aad = Ret c"
    using assms(3,4) n(2) unfolding seals_def by blast
  have "uint128_nat (cx_seqNum s) < 2 ^ 127"
    using assms(2) by (simp add: message_limit_def)
  then have one: "uint128_nat (addOne (cx_seqNum s)) = uint128_nat (cx_seqNum s) + 1"
    by (rule addOne_nat)
  show thesis
  proof (cases "uint128_nat (cx_seqNum s) = message_limit")
    case True
    then show thesis
      using limit n c by (simp add: hpke_Seal_def incrementNonce_Ret [OF assms(1,2)])
  next
    case False
    then show thesis
      using assms(2) by (intro sealed [OF _ n c _ one]) (simp_all add: hpke_Seal_def n c incrementNonce_Ret [OF assms(1,2)])
  qed
qed


lemma seal_all_counts:
  assumes "tls_context L s" "uint128_nat (cx_seqNum s) \<le> message_limit"
    and "seals L m (cx_aead s)"
    and "\<forall>(ad, p) \<in> set msgs. length p \<le> m"
  shows "if uint128_nat (cx_seqNum s) + length msgs \<le> message_limit
    then \<exists>u cs. seal_all L s msgs = Ret (s\<lparr>cx_seqNum := u\<rparr>, cs) \<and> uint128_nat u = uint128_nat (cx_seqNum s) + length msgs
    else seal_all L s msgs = Panic ''message limit reached''"
  using assms
proof (induction msgs arbitrary: s)
  case Nil
  have "seal_all L s [] = Ret (s\<lparr>cx_seqNum := cx_seqNum s\<rparr>, [])"
    by simp
  then show ?case
    using Nil(2) by (metis add_0_right list.size(3))
next
  case (Cons msg msgs)
  obtain aad p where msg: "msg = (aad, p)"
    by (cases msg)
  show ?case
  proof (rule hpke_Seal_cases [OF Cons.prems(1-3), of p aad, rotated])
    assume "hpke_Seal L s aad p = Panic ''message limit reached''" "uint128_nat (cx_seqNum s) = message_limit"
    then show ?thesis
      by (simp add: msg)
  next
    fix n c
    assume sealed: "uint128_nat (cx_seqNum s) < message_limit"
      "hpke_Seal L s aad p = Ret (s\<lparr>cx_seqNum := addOne (cx_seqNum s)\<rparr>, c)"
      "uint128_nat (addOne (cx_seqNum s)) = uint128_nat (cx_seqNum s) + 1"
    let ?s = "s\<lparr>cx_seqNum := addOne (cx_seqNum s)\<rparr>"
    have "tls_context L ?s" "uint128_nat (cx_seqNum ?s) \<le> message_limit"
      using Cons.prems(1) sealed by (simp_all add: tls_context_def)
    from Cons.IH [OF this] Cons.prems(3,4) show ?thesis
      using sealed(2,3) by (auto simp: msg split: if_split_asm)
  next
    show "length p \<le> m"
      using Cons.prems(4) by (simp add: msg)
  qed
qed


lemma seal_all_take:
  assumes "seal_all L s msgs = Ret (s', cs)"
  shows "length cs = length msgs"
  using assms
proof (induction msgs arbitrary: s cs)
  case (Cons msg msgs)
  then show ?case
    by (cases msg) (auto simp: exec_bind_Ret_iff)
qed simp

text \<open>The recipient's context goes with the sender's.\<close>

lemma open_all_seals:
  assumes "tls_context L s" "uint128_nat (cx_seqNum s) \<le> message_limit" "seals L m (cx_aead s)"
    and "\<forall>(ad, p) \<in> set msgs. length p \<le> m" and "seal_all L s msgs = Ret (s', cs)"
  shows "open_all L s (zip (map fst msgs) cs) = Ret (s', map snd msgs)"
  using assms
proof (induction msgs arbitrary: s cs)
  case (Cons msg msgs)
  obtain aad p where msg: "msg = (aad, p)"
    by (cases msg)
  have p: "length p \<le> m"
    using Cons.prems(4) by (simp add: msg)
  show ?case
  proof (rule hpke_Seal_cases [OF Cons.prems(1-3) p, of aad])
    assume "hpke_Seal L s aad p = Panic ''message limit reached''"
    then show ?thesis
      using Cons.prems(5) by (simp add: msg)
  next
    fix n c
    let ?s = "s\<lparr>cx_seqNum := addOne (cx_seqNum s)\<rparr>"
    assume sealed: "uint128_nat (cx_seqNum s) < message_limit" "nextNonce L s = Ret n" "length n = 12"
      "hl_Seal L (cx_aead s) n p aad = Ret c" "hpke_Seal L s aad p = Ret (?s, c)"
      "uint128_nat (addOne (cx_seqNum s)) = uint128_nat (cx_seqNum s) + 1"
    obtain ds where ds: "seal_all L ?s msgs = Ret (s', ds)" "cs = c # ds"
      using Cons.prems(5) sealed(5) by (auto simp: msg exec_bind_Ret_iff)
    have "tls_context L ?s" "uint128_nat (cx_seqNum ?s) \<le> message_limit"
      using Cons.prems(1) sealed by (simp_all add: tls_context_def)
    then have rest: "open_all L ?s (zip (map fst msgs) ds) = Ret (s', map snd msgs)"
      using Cons.IH [of ?s ds] Cons.prems(3,4) ds(1) by simp
    have "hl_Open L (cx_aead s) n c aad = Ret p"
      using Cons.prems(3) sealed(3,4) p unfolding seals_def by (metis exec.inject(1))
    then have "hpke_Open L s aad c = (?s, Ret p)"
      using sealed(1,2) by (simp add: hpke_Open_def incrementNonce_Ret [OF Cons.prems(1,2)])
    then show ?thesis
      using rest by (simp add: msg ds(2))
  qed
qed simp

section \<open>What the libraries promise\<close>

text \<open>
  Key pairs agree, a public key survives its encoding, and the AEADs have nonces of twelve bytes and open what they
  seal, for plaintexts of up to \<open>m\<close> bytes.
\<close>

lemma hkdf_Expand_le: "hkdf_Expand h prk info n = Ret b \<Longrightarrow> length b \<le> n"
  by (auto simp: hkdf_Expand_def simp del: upt_Suc split: if_splits)

locale hpke_library =
  fixes L :: "('k, 'p, 'a) hpke_lib" and m :: nat
  assumes agree: "\<exists>s. hl_ECDH L k (hl_PublicKey L k') = Ret s \<and> hl_ECDH L k' (hl_PublicKey L k) = Ret s"
    and public_key: "hl_NewPublicKey L (hl_Bytes L (hl_PublicKey L k)) = Ret (hl_PublicKey L k)"
    and aead: "hl_aesGCMNew L key = Ret a \<or> hl_chacha20poly1305_New L key = Ret a \<Longrightarrow> hl_NonceSize L a = 12 \<and> seals L m a"
begin

lemma newContext_ok:
  assumes "newContext H L secret kemID kdfID aeadID info = Ret s"
  shows "tls_context L s" "cx_seqNum s = \<lparr>hi = 0, lo = 0\<rparr>" "seals L m (cx_aead s)"
proof -
  obtain kdf keySize nonce_size new sid rk inf key where n: "SupportedAEADs L aeadID = Some (keySize, nonce_size, new)"
    "new key = Ret (cx_aead s)" "LabeledExpand kdf sid rk ''base_nonce'' inf (of_nat nonce_size) = Ret (cx_baseNonce s)"
    "cx_seqNum s = \<lparr>hi = 0, lo = 0\<rparr>"
    using assms by (auto simp: newContext_def Let_def exec_bind_Ret_iff split: option.splits)
  have new: "nonce_size = 12" "new = hl_aesGCMNew L \<or> new = hl_chacha20poly1305_New L"
    using n(1) by (auto simp: SupportedAEADs_def split: if_splits)
  then have a: "hl_NonceSize L (cx_aead s) = 12" "seals L m (cx_aead s)"
    using n(2) aead [of key "cx_aead s"] by auto
  have "length (cx_baseNonce s) \<le> 12"
    using n(3) hkdf_Expand_le by (fastforce simp: LabeledExpand_def Let_def new(1))
  then show "tls_context L s" "cx_seqNum s = \<lparr>hi = 0, lo = 0\<rparr>" "seals L m (cx_aead s)"
    using a n(4) by (simp_all add: tls_context_def)
qed

lemma sender_ok:
  assumes "SetupSender H L gen kemID kdfID aeadID pub info = Ret (ek, s)"
  shows "tls_context L s" "cx_seqNum s = \<lparr>hi = 0, lo = 0\<rparr>" "seals L m (cx_aead s)"
proof -
  obtain secret where "newContext H L secret kemID kdfID aeadID info = Ret s"
    using assms by (auto simp: SetupSender_def exec_bind_Ret_iff)
  then show "tls_context L s" "cx_seqNum s = \<lparr>hi = 0, lo = 0\<rparr>" "seals L m (cx_aead s)"
    by (rule newContext_ok)+
qed

lemma setup_agrees:
  assumes "SetupSender H L gen kemID kdfID aeadID (hl_PublicKey L priv) info = Ret (ek, s)"
  shows "SetupRecipient H L kemID kdfID aeadID priv info ek = Ret s"
proof -
  obtain kem eph dhVal secret where e: "newDHKem H kemID = Ret kem" "hl_ECDH L eph (hl_PublicKey L priv) = Ret dhVal"
    "ek = hl_Bytes L (hl_PublicKey L eph)"
    "ExtractAndExpand kem dhVal (ek @ hl_Bytes L (hl_PublicKey L priv)) = Ret secret"
    "newContext H L secret kemID kdfID aeadID info = Ret s"
    using assms by (auto simp: SetupSender_def Encap_def Let_def exec_bind_Ret_iff)
  have "hl_ECDH L priv (hl_PublicKey L eph) = Ret dhVal"
    using agree [of priv eph] e(2) by auto
  then show ?thesis
    using e public_key [of eph] by (simp add: SetupRecipient_def Decap_def)
qed

lemma fresh_counts:
  assumes "SetupSender H L gen kemID kdfID aeadID pub info = Ret (ek, s)"
    and "\<forall>(ad, p) \<in> set msgs. length p \<le> m"
  shows "if length msgs \<le> message_limit
    then \<exists>u cs. seal_all L s msgs = Ret (s\<lparr>cx_seqNum := u\<rparr>, cs) \<and> uint128_nat u = length msgs
    else seal_all L s msgs = Panic ''message limit reached''"
proof -
  have zero: "uint128_nat (cx_seqNum s) = 0"
    by (simp add: uint128_nat_def sender_ok(2) [OF assms(1)])
  then show ?thesis
    using seal_all_counts [OF sender_ok(1) [OF assms(1)] _ sender_ok(3) [OF assms(1)] assms(2)] by (simp add: zero cong: if_cong)
qed

lemma fresh_nonces:
  assumes "SetupSender H L gen kemID kdfID aeadID pub info = Ret (ek, s)"
    and "\<forall>(ad, p) \<in> set msgs. length p \<le> m" and "i < j" "j \<le> length msgs"
    and "seal_all L s (take i msgs) = Ret (a, cs)" "seal_all L s (take j msgs) = Ret (b, ds)"
  shows "nextNonce L a \<noteq> nextNonce L b"
proof
  assume eq: "nextNonce L a = nextNonce L b"
  have fits: "\<forall>(ad, p) \<in> set (take k msgs). length p \<le> m" for k
    using assms(2) by (auto dest: in_set_takeD)
  have a: "a = s\<lparr>cx_seqNum := cx_seqNum a\<rparr>" "uint128_nat (cx_seqNum a) = i" "i \<le> message_limit"
    using fresh_counts [OF assms(1) fits, of i] assms(3,4,5) by (auto split: if_split_asm)
  have b: "b = s\<lparr>cx_seqNum := cx_seqNum b\<rparr>" "uint128_nat (cx_seqNum b) = j" "j \<le> message_limit"
    using fresh_counts [OF assms(1) fits, of j] assms(3,4,6) by (auto split: if_split_asm)
  have "cx_aead a = cx_aead s" "cx_aead b = cx_aead s" "cx_baseNonce a = cx_baseNonce s" "cx_baseNonce b = cx_baseNonce s"
    by (simp_all add: arg_cong [OF a(1), of cx_aead] arg_cong [OF a(1), of cx_baseNonce]
        arg_cong [OF b(1), of cx_aead] arg_cong [OF b(1), of cx_baseNonce])
  then have "tls_context L a" "tls_context L b" "cx_baseNonce a = cx_baseNonce b"
    using sender_ok(1) [OF assms(1)] by (simp_all add: tls_context_def)
  then show False
    using nonces_differ [OF _ _ _ _ _ eq] a(2,3) b(2,3) assms(3) by simp
qed

end

section \<open>A reference library\<close>

text \<open>
  The exchange modulo \<open>2 ^ 255 - 19\<close>, and AES-GCM as the packages \<open>aes\<close> and \<open>gcm\<close> of this repository compute it.
\<close>

definition ref_hpke :: "(nat, nat, GCM) hpke_lib" where
  "ref_hpke =
     \<lparr>hl_NewPublicKey = (\<lambda>b. Ret (get_be b)), hl_NewPrivateKey = (\<lambda>b. Ret (get_be b)), hl_PublicKey = (\<lambda>k. 2 ^ k mod dh_prime),
      hl_Bytes = put_be 32, hl_ECDH = (\<lambda>k p. Ret (put_be 32 (p ^ k mod dh_prime))),
      hl_aesGCMNew = (\<lambda>key. exec_bind (aes_New key) (\<lambda>c. gcm_New c 12 16)),
      hl_chacha20poly1305_New = (\<lambda>key. Fail (ErrMsg ''not available'')),
      hl_NonceSize = gcm_NonceSize,
      hl_Seal = (\<lambda>g nonce p ad. exec_bind (sealAfterIndicator (place_new p ad) g (byte_slice 0 []) nonce (place_text p) (place_data p ad))
                    (\<lambda>r. Ret (dat r))),
      hl_Open = (\<lambda>g nonce c ad. exec_bind (gcm_Open (place_new c ad) g (byte_slice 0 []) nonce (place_text c) (place_data c ad)) opened)\<rparr>"

interpretation ref_hpke: hpke_library ref_hpke "2 ^ 15"
proof
  fix k k' :: nat
  show "\<exists>s. hl_ECDH ref_hpke k (hl_PublicKey ref_hpke k') = Ret s \<and> hl_ECDH ref_hpke k' (hl_PublicKey ref_hpke k) = Ret s"
    by (simp add: ref_hpke_def power_mod mult.commute flip: power_mult)
  have "2 ^ k mod dh_prime < 256 ^ 32"
    by (rule less_le_trans [OF mod_less_divisor]) (simp_all add: dh_prime_def)
  then show "hl_NewPublicKey ref_hpke (hl_Bytes ref_hpke (hl_PublicKey ref_hpke k)) = Ret (hl_PublicKey ref_hpke k)"
    by (simp add: ref_hpke_def)
next
  fix key a
  assume "hl_aesGCMNew ref_hpke key = Ret a \<or> hl_chacha20poly1305_New ref_hpke key = Ret a"
  then obtain c where c: "aes_New key = Ret c" "gcm_New c 12 16 = Ret a"
    by (auto simp: ref_hpke_def exec_bind_Ret_iff)
  then have g: "tls_gcm a"
    using wf_gcm_New [OF c] gcm_New_total [of 12 16 c] by (auto simp: tls_gcm_def)
  have "\<exists>c. hl_Seal ref_hpke a n p ad = Ret c \<and> hl_Open ref_hpke a n c ad = Ret p"
    if "length n = 12" "length p \<le> 2 ^ 15" for n p ad
    using placed_seal_open [OF g that, of ad] by (auto simp: ref_hpke_def opened_def)
  then show "hl_NonceSize ref_hpke a = 12 \<and> seals ref_hpke (2 ^ 15) a"
    using g by (simp add: seals_def ref_hpke_def gcm_NonceSize_def tls_gcm_def)
qed

section \<open>Properties\<close>

lemma LabeledExpand_ok:
  assumes "wf_hash h" "unat n \<le> 255 * h_size h"
  obtains b where "LabeledExpand h sid rk label c n = Ret b" "length b = unat n"
  using hkdf_Expand_length [OF assms] that unfolding LabeledExpand_def Let_def by metis

lemma demo_sender:
  obtains ek s where "SetupSender toy_hashes ref_hpke (Ret 5) DHKEM_X25519_HKDF_SHA256 KDF_HKDF_SHA256 AEAD_AES_128_GCM
    (hl_PublicKey ref_hpke 7) info = Ret (ek, s)"
proof -
  let ?h = "sha256_h toy_hashes"
  have h: "wf_hash ?h" "h_size ?h = 32"
    by (simp_all add: toy_hashes_def toy_hash_def wf_hash_def)
  let ?kem = "\<lparr>dk_kdf = ?h, dk_suiteID = str_bytes ''KEM'' @ put_u16 DHKEM_X25519_HKDF_SHA256, dk_nSecret = 32\<rparr>"
  have new: "newDHKem toy_hashes DHKEM_X25519_HKDF_SHA256 = Ret ?kem"
    by (simp add: newDHKem_def SupportedKEMs_def)
  note expand = LabeledExpand_ok [OF h(1), unfolded h(2)]
  have prk_ok: "\<exists>k. LabeledExtract ?h sid salt l x = Ret k" for sid salt l x
    by (simp add: LabeledExtract_def hkdf_Extract_def Let_def)
  have kem: "\<exists>secret. ExtractAndExpand ?kem x y = Ret secret" for x y
  proof -
    obtain prk where "LabeledExtract ?h (dk_suiteID ?kem) None ''eae_prk'' x = Ret prk"
      using prk_ok by blast
    moreover obtain secret where "LabeledExpand ?h (dk_suiteID ?kem) prk ''shared_secret'' y 32 = Ret secret"
      by (rule expand [of 32]) auto
    ultimately show ?thesis
      by (simp add: ExtractAndExpand_def)
  qed
  have ctx: "\<exists>s. newContext toy_hashes ref_hpke secret DHKEM_X25519_HKDF_SHA256 KDF_HKDF_SHA256 AEAD_AES_128_GCM info = Ret s" for secret
  proof -
    define sid where "sid = suiteID DHKEM_X25519_HKDF_SHA256 KDF_HKDF_SHA256 AEAD_AES_128_GCM"
    obtain p i rk where x: "LabeledExtract ?h sid None ''psk_id_hash'' [] = Ret p" "LabeledExtract ?h sid None ''info_hash'' info = Ret i"
      "LabeledExtract ?h sid (Some secret) ''secret'' [] = Ret rk"
      using prk_ok by metis
    obtain key where key: "LabeledExpand ?h sid rk ''key'' ([0] @ p @ i) 16 = Ret key" "length key = 16"
      by (rule expand [of 16]) auto
    obtain nonce where nonce: "LabeledExpand ?h sid rk ''base_nonce'' ([0] @ p @ i) 12 = Ret nonce"
      by (rule expand [of 12]) auto
    obtain ex where ex: "LabeledExpand ?h sid rk ''exp'' ([0] @ p @ i) 32 = Ret ex"
      by (rule expand [of 32]) auto
    obtain c where "aes_New key = Ret c"
      using aes_New_total [of key] key(2) by auto
    then have "hl_aesGCMNew ref_hpke key = Ret \<lparr>cipher = c, nonceSize = 12, tagSize = 16\<rparr>"
      by (simp add: ref_hpke_def gcm_New_total)
    then show ?thesis
      using x key nonce ex by (simp add: newContext_def Let_def SupportedKDFs_def SupportedAEADs_def h(2) flip: sid_def)
  qed
  obtain dhVal where dhVal: "hl_ECDH ref_hpke 5 (hl_PublicKey ref_hpke 7) = Ret dhVal"
    using ref_hpke.agree by blast
  obtain secret where "ExtractAndExpand ?kem dhVal (hl_Bytes ref_hpke (hl_PublicKey ref_hpke 5) @
      hl_Bytes ref_hpke (hl_PublicKey ref_hpke 7)) = Ret secret"
    using kem by blast
  moreover obtain s where "newContext toy_hashes ref_hpke secret DHKEM_X25519_HKDF_SHA256 KDF_HKDF_SHA256 AEAD_AES_128_GCM info = Ret s"
    using ctx by blast
  ultimately show thesis
    using that new dhVal by (simp add: SetupSender_def Encap_def Let_def)
qed

text \<open>C23: What an HPKE sender seals to a public key, the recipient with its private key opens: with the same suite
  and the same \<open>info\<close>, \<open>SetupRecipient\<close> derives from the encapsulated key the context the sender has, and every
  sequence of messages opens in order to the plaintexts that were sealed.\<close>

theorem hpke_delivers:
  assumes "hpke_library L m"
    and "SetupSender H L gen kemID kdfID aeadID (hl_PublicKey L priv) info = Ret (ek, s)"
    and "\<forall>(ad, p) \<in> set msgs. length p \<le> m" and "seal_all L s msgs = Ret (s', cs)"
  shows "\<exists>r r'. SetupRecipient H L kemID kdfID aeadID priv info ek = Ret r \<and>
     open_all L r (zip (map fst msgs) cs) = Ret (r', map snd msgs)"
  using hpke_library.setup_agrees [OF assms(1,2)] hpke_library.sender_ok [OF assms(1,2)]
    open_all_seals [OF _ _ _ assms(3,4)] by (auto simp: uint128_nat_def)

lemma demo_sealed:
  assumes "SetupSender H ref_hpke gen kemID kdfID aeadID pub info = Ret (ek, s)"
  obtains s' cs where "seal_all ref_hpke s [([1], [2, 3]), ([], [4])] = Ret (s', cs)"
  using ref_hpke.fresh_counts [OF assms, of "[([1], [2, 3]), ([], [4])]"] that by (auto simp: message_limit_def)

theorem hpke_delivers_witness:
  "\<exists>ek s s' cs r r'. SetupSender toy_hashes ref_hpke (Ret 5) DHKEM_X25519_HKDF_SHA256 KDF_HKDF_SHA256 AEAD_AES_128_GCM
      (hl_PublicKey ref_hpke 7) [9] = Ret (ek, s) \<and>
    seal_all ref_hpke s [([1], [2, 3]), ([], [4])] = Ret (s', cs) \<and>
    SetupRecipient toy_hashes ref_hpke DHKEM_X25519_HKDF_SHA256 KDF_HKDF_SHA256 AEAD_AES_128_GCM 7 [9] ek = Ret r \<and>
    open_all ref_hpke r (zip [[1], []] cs) = Ret (r', [[2, 3], [4]])"
proof -
  obtain ek s where s: "SetupSender toy_hashes ref_hpke (Ret 5) DHKEM_X25519_HKDF_SHA256 KDF_HKDF_SHA256 AEAD_AES_128_GCM
      (hl_PublicKey ref_hpke 7) [9] = Ret (ek, s)"
    by (rule demo_sender)
  obtain s' cs where cs: "seal_all ref_hpke s [([1], [2, 3]), ([], [4])] = Ret (s', cs)"
    by (rule demo_sealed [OF s])
  show ?thesis
    using hpke_delivers [OF ref_hpke.hpke_library_axioms s _ cs] s cs by auto
qed

text \<open>C24: An HPKE sender never uses a nonce twice, and stops at a fixed number of messages: any sequence of plaintexts
  is sealed when there are at most 2 ^ 94 + 2 ^ 63 of them and panics otherwise, and the nonces before different
  messages differ.  (The comment speaks of 2 ^ 95 + 1 messages; \<open>bitLen\<close> adds the lengths of the two halves, so
  that the check acts earlier.)\<close>

theorem hpke_message_limit:
  assumes "hpke_library L m" and "SetupSender H L gen kemID kdfID aeadID pub info = Ret (ek, s)"
    and "\<forall>(ad, p) \<in> set msgs. length p \<le> m"
  shows "(if length msgs \<le> 2 ^ 94 + 2 ^ 63 then \<exists>s' cs. seal_all L s msgs = Ret (s', cs)
      else seal_all L s msgs = Panic ''message limit reached'') \<and>
    (\<forall>i j a b cs ds. i < j \<and> j \<le> length msgs \<and> seal_all L s (take i msgs) = Ret (a, cs) \<and>
      seal_all L s (take j msgs) = Ret (b, ds) \<longrightarrow> nextNonce L a \<noteq> nextNonce L b)"
  using hpke_library.fresh_counts [OF assms] hpke_library.fresh_nonces [OF assms]
  by (auto simp: message_limit_def split: if_splits)

text \<open>Two messages are far from the limit, and their nonces differ.\<close>

theorem hpke_message_limit_witness:
  "\<exists>ek s s1 s2 cs ds. SetupSender toy_hashes ref_hpke (Ret 5) DHKEM_X25519_HKDF_SHA256 KDF_HKDF_SHA256 AEAD_AES_128_GCM
      (hl_PublicKey ref_hpke 7) [9] = Ret (ek, s) \<and>
    seal_all ref_hpke s [([1], [2, 3])] = Ret (s1, cs) \<and> seal_all ref_hpke s [([1], [2, 3]), ([], [4])] = Ret (s2, ds) \<and>
    nextNonce ref_hpke s1 \<noteq> nextNonce ref_hpke s2"
proof -
  obtain ek s where s: "SetupSender toy_hashes ref_hpke (Ret 5) DHKEM_X25519_HKDF_SHA256 KDF_HKDF_SHA256 AEAD_AES_128_GCM
      (hl_PublicKey ref_hpke 7) [9] = Ret (ek, s)"
    by (rule demo_sender)
  obtain s2 ds where two: "seal_all ref_hpke s [([1], [2, 3]), ([], [4])] = Ret (s2, ds)"
    by (rule demo_sealed [OF s])
  then obtain s1 cs where one: "seal_all ref_hpke s [([1], [2, 3])] = Ret (s1, cs)"
    by (auto simp: exec_bind_Ret_iff)
  have "\<forall>(ad, p) \<in> set [([1], [2, 3]), ([], [4 :: byte])]. length p \<le> 2 ^ 15"
    by simp
  note limit = hpke_message_limit [OF ref_hpke.hpke_library_axioms s this, THEN conjunct2]
  have "nextNonce ref_hpke s1 \<noteq> nextNonce ref_hpke s2"
    by (rule limit [rule_format, of 1 2 s1 cs s2 ds]) (use one two in simp)
  then show ?thesis
    using s one two by blast
qed

end
