(* ===== verification/ConnClosing.thy ===== *)
theory ConnClosing
  imports ConnSafety
begin

text \<open>
  After \<open>closeNotify\<close> nothing more is written.  \<open>closeNotify\<close> ends with \<open>SetWriteDeadline(time.Now())\<close>,
  and that is what stops the alerts and the answers to key updates that a later \<open>Read\<close> would send:
  the transport takes nothing more, and no operation of the model moves the deadline again.  A user can:
  \<open>SetDeadline\<close> and \<open>SetWriteDeadline\<close> are those of the transport, and are not among the calls here.
\<close>

section \<open>What is shut stays silent\<close>

definition shut :: "('s, 'a, 'c, 'm) conn \<Rightarrow> bool" where
  "shut c \<longleftrightarrow> closeNotifySent c \<and> write_expired c"

definition silent :: "('s, 'a, 'c, 'm) conn \<Rightarrow> ('s, 'a, 'c, 'm) conn \<Rightarrow> bool" where
  "silent c c' \<longleftrightarrow> isClient c' = isClient c \<and> isHandshakeComplete c' = isHandshakeComplete c \<and>
     (shut c \<longrightarrow> shut c' \<and> net_out c' = net_out c \<and> closeNotifyErr c' = closeNotifyErr c)"

lemma silent_refl [simp]: "silent c c"
  by (simp add: silent_def)

lemma silent_trans: "silent a b \<Longrightarrow> silent b c \<Longrightarrow> silent a c"
  by (auto simp: silent_def)

text \<open>The fields that no operation needs in order to stay silent.\<close>

lemma silent_updates [simp]:
  "silent c (c\<lparr>c_in := h\<rparr>)" "silent c (c\<lparr>c_out := h\<rparr>)" "silent c (c\<lparr>c_in := h, retryCount := k\<rparr>)"
  "silent c (c\<lparr>c_input := bs\<rparr>)" "silent c (c\<lparr>hand := bs\<rparr>)" "silent c (c\<lparr>rawInput := bs\<rparr>)"
  "silent c (c\<lparr>net_in := evs, rawInput := bs\<rparr>)" "silent c (c\<lparr>retryCount := k\<rparr>)" "silent c (c\<lparr>activeCall := x\<rparr>)"
  "silent c (c\<lparr>c_out := h, c_draws := k\<rparr>)" "silent c (c\<lparr>packetsSent := k\<rparr>)" "silent c (c\<lparr>net_closed := b\<rparr>)"
  by (simp_all add: silent_def shut_def)

section \<open>Writing\<close>

lemma conn_write_silent: "silent c (fst (conn_write c d))"
  by (auto simp: conn_write_def net_write_def silent_def shut_def split: list.splits)

lemma maxPayload_silent: "silent c (fst (maxPayloadSizeForWrite K c ty))"
  by (auto simp: maxPayloadSizeForWrite_def Let_def split: exec.splits)

lemma write_one_silent: "silent c (fst (write_one K c ty data))"
proof -
  obtain c1 r where p: "maxPayloadSizeForWrite K c ty = (c1, r)"
    by fastforce
  have c1: "silent c c1"
    using maxPayload_silent [of c K ty] by (simp add: p)
  show ?thesis
  proof (cases r)
    case (Ret x)
    let ?m = "if int (length data) > x then nat x else length data"
    obtain h o1 where e: "encrypt K (c_out c1) (record_header ty (wire_vers (c_vers c1)) ?m) (take ?m data)
        (c_rand c1 (c_draws c1)) = (h, o1)"
      by fastforce
    let ?c2 = "c1\<lparr>c_out := h, c_draws := c_draws c1 + 1\<rparr>"
    have c2: "silent c ?c2"
      by (rule silent_trans [OF c1]) simp
    have c3: "silent c (fst (conn_write ?c2 b))" for b
      by (rule silent_trans [OF c2]) (rule conn_write_silent)
    show ?thesis
    proof (cases o1)
      case (Ret b)
      obtain c4 n4 e4 where "conn_write ?c2 b = (c4, n4, e4)"
        using prod_cases3 by blast
      then show ?thesis
        using c1 c3 [of b] Ret \<open>r = Ret x\<close> by (simp add: write_one_def p Let_def e)
    qed (use c1 c2 Ret e in \<open>simp_all add: write_one_def p Let_def\<close>)
  qed (use c1 p in \<open>simp_all add: write_one_def\<close>)
qed

lemma write_loop_silent: "silent c (fst (write_loop K ty c data n))"
proof (induction K ty c data n rule: write_loop.induct)
  case (1 K ty c data n)
  obtain c1 r where w: "write_one K c ty data = (c1, r)"
    by fastforce
  have "silent c c1"
    using write_one_silent [of c K ty data] by (simp add: w)
  then show ?case
    using 1 w by (cases r) (auto simp: write_loop.simps [of K ty c data n] intro: silent_trans)
qed

lemma setErrorLocked_silent [simp]:
  "silent c (fst (in_setErrorLocked c e))" "silent c (fst (out_setErrorLocked c e))"
  by (simp_all add: in_setErrorLocked_def out_setErrorLocked_def split: prod.splits)

lemma sendAlertLocked_silent: "silent c (fst (sendAlertLocked K c a))"
proof -
  obtain c1 n w where l: "write_loop K recordTypeAlert c [alert_level a, a] 0 = (c1, n, w)"
    using prod_cases3 by blast
  have "silent c c1"
    using write_loop_silent [of c K recordTypeAlert "[alert_level a, a]" 0] by (simp add: l)
  then show ?thesis
    by (auto simp: sendAlertLocked_def l split: exec.splits intro: silent_trans [OF _ setErrorLocked_silent(2)])
qed

lemma sendAlert_silent: "silent c (fst (sendAlert K c a))"
  unfolding sendAlert_def by (rule sendAlertLocked_silent)

lemma writeRecordLocked_silent: "silent c (fst (writeRecordLocked K c ty data))"
proof -
  obtain c1 n r where w: "write_loop K ty c data 0 = (c1, n, r)"
    using prod_cases3 by blast
  have c1: "silent c c1"
    using write_loop_silent [of c K ty data 0] by (simp add: w)
  have "sendAlertLocked K c1 a = (c2, r') \<Longrightarrow> silent c c2" for a c2 r'
    using silent_trans [OF c1 sendAlertLocked_silent [of c1 K a]] by simp
  moreover have "silent c (c1\<lparr>c_out := h\<rparr>)" for h
    by (rule silent_trans [OF c1]) simp
  ultimately show ?thesis
    using c1 by (auto simp: writeRecordLocked_def w split: exec.splits err.splits prod.splits)
qed

section \<open>Reading\<close>

lemma alerts_silent:
  "silent c (fst (in_alert K c a))" "silent c (fst (alert_then K c a e))" "silent c (fst (alert_and K c a e))"
proof -
  obtain c1 r where l: "sendAlert K c a = (c1, r)"
    by fastforce
  then have c1: "silent c c1"
    using sendAlert_silent [of c K a] by simp
  show "silent c (fst (in_alert K c a))" "silent c (fst (alert_then K c a e))" "silent c (fst (alert_and K c a e))"
    using c1 silent_trans [OF c1 setErrorLocked_silent(1)]
    by (auto simp: in_alert_def alert_then_def alert_and_def l split: exec.splits)
qed

lemma read_failed_silent [simp]: "silent c (fst (read_failed c e))"
  by (simp add: read_failed_def)

lemma check_header_silent: "silent c (fst (check_header K c hdr))"
  by (simp add: check_header_def Let_def alerts_silent)

lemma readFromUntil_silent: "silent c (fst (readFromUntil c n))"
  by (cases "readFromUntil c n") (auto dest: readFromUntil_frame)

lemma fetch_record_silent: "silent c (fst (fetch_record K c))"
proof -
  obtain c1 e1 where r1: "readFromUntil c recordHeaderLen = (c1, e1)"
    by fastforce
  obtain c2 r2 where h: "check_header K c1 (take recordHeaderLen (rawInput c1)) = (c2, r2)"
    by fastforce
  obtain c3 e3 where r3: "readFromUntil c2 (recordHeaderLen + projr r2) = (c3, e3)"
    by fastforce
  have c1: "silent c c1"
    using readFromUntil_silent [of c recordHeaderLen] by (simp add: r1)
  then have c2: "silent c c2"
    using silent_trans check_header_silent [of c1 K "take recordHeaderLen (rawInput c1)"] by (simp add: h)
  then have c3: "silent c c3"
    using silent_trans readFromUntil_silent [of c2 "recordHeaderLen + projr r2"] by (simp add: r3)
  have c4: "silent c (c3\<lparr>rawInput := bs\<rparr>)" for bs
    by (rule silent_trans [OF c3]) simp
  have f: "silent c (fst (read_failed c1 e))" "silent c (fst (read_failed c3 e))" for e
    by (rule silent_trans [OF c1], simp) (rule silent_trans [OF c3], simp)
  show ?thesis
    using c2 c4 f r3 by (auto simp: fetch_record_def r1 h split: option.splits sum.splits)
qed

lemma open_record_silent: "silent c (fst (open_record K c rec))"
proof -
  obtain h r where d: "decrypt K (c_in c) rec = (h, r)"
    by fastforce
  have a: "silent c (fst (in_alert K (c\<lparr>c_in := h\<rparr>) a))" "silent c (fst (in_alert K (c\<lparr>c_in := h, retryCount := k\<rparr>) a))"
    for a k by (rule silent_trans [OF _ alerts_silent(1)], simp)+
  show ?thesis
    by (simp add: open_record_def d Let_def a split: exec.splits err.splits)
qed

lemma silent_if:
  "(P \<Longrightarrow> silent c (fst a)) \<Longrightarrow> (\<not> P \<Longrightarrow> silent c (fst b)) \<Longrightarrow> silent c (fst (if P then a else b))"
  by simp

lemma process_record_silent: "silent c (fst (process_record K c x ty data))"
  unfolding process_record_def
  by (intro silent_if) (simp_all add: alerts_silent split: exec.splits err.splits)

lemma read_one_silent: "silent c (fst (read_one K c x))"
proof -
  obtain c1 r1 where f: "fetch_record K c = (c1, r1)"
    by fastforce
  obtain c2 r2 where o: "open_record K c1 (projr r1) = (c2, r2)"
    by fastforce
  have c1: "silent c c1"
    using fetch_record_silent [of c K] by (simp add: f)
  then have c2: "silent c c2"
    using silent_trans open_record_silent [of c1 K "projr r1"] by (simp add: o)
  then have "silent c (fst (process_record K c2 x ty data))" for ty data
    by (rule silent_trans) (rule process_record_silent)
  then show ?thesis
    using c1 c2 o by (auto simp: read_one_def f split: option.splits sum.splits prod.splits)
qed

lemma readRecordOrCCS_silent: "silent c (fst (readRecordOrCCS K c x))"
proof (induction K c x rule: readRecordOrCCS.induct)
  case (1 K c x)
  obtain c1 r where r: "read_one K c x = (c1, r)"
    by fastforce
  let ?c = "c1\<lparr>retryCount := retryCount c1 + 1\<rparr>"
  have c1: "silent c c1"
    using read_one_silent [of c K x] by (simp add: r)
  have c2: "silent c ?c"
    by (rule silent_trans [OF c1]) simp
  show ?case
  proof (cases r)
    case (Inl a)
    then show ?thesis
      using c1 r by (simp add: readRecordOrCCS.simps [of K c x])
  next
    case (Inr u)
    have "silent c (fst (alert_then K ?c a e))" for a e
      by (rule silent_trans [OF c2]) (rule alerts_silent)
    moreover have "\<not> retryCount ?c > maxUselessRecords \<Longrightarrow> silent c (fst (readRecordOrCCS K ?c x))"
      using 1 [OF r [symmetric] Inr refl] by (rule silent_trans [OF c2])
    ultimately show ?thesis
      using r Inr by (simp add: readRecordOrCCS.simps [of K c x] Let_def)
  qed
qed

lemma readRecord_silent: "silent c (fst (readRecord K c))"
  unfolding readRecord_def by (rule readRecordOrCCS_silent)

section \<open>Handshake messages\<close>

lemma readHandshakeBytes_silent: "silent c (fst (readHandshakeBytes K c n))"
proof (induction K c n rule: readHandshakeBytes.induct)
  case (1 K c n)
  obtain c1 r where r: "readRecord K c = (c1, r)"
    by fastforce
  have c1: "silent c c1"
    using readRecord_silent [of c K] by (simp add: r)
  show ?case
    using 1 [OF _ r [symmetric]] c1 r silent_trans
    by (cases r) (auto simp: readHandshakeBytes.simps [of K c n])
qed

lemma unmarshal_silent: "silent c (fst (unmarshalHandshakeMessage R K c data t))"
  using alerts_silent(1) [of c K alertUnexpectedMessage]
  by (auto simp: unmarshalHandshakeMessage_def Let_def split: option.splits exec.splits prod.splits)

lemma readHandshake_silent: "silent c (fst (readHandshake R K c t))"
proof -
  obtain c1 r1 where h: "readHandshakeBytes K c 4 = (c1, r1)"
    by fastforce
  let ?n = "get_be (take 3 (drop 1 (hand c1)))"
  obtain c2 r2 where b: "readHandshakeBytes K c1 (4 + ?n) = (c2, r2)"
    by fastforce
  have c1: "silent c c1"
    using readHandshakeBytes_silent [of c K 4] by (simp add: h)
  have "silent c1 c2"
    using readHandshakeBytes_silent [of c1 K "4 + ?n"] unfolding b by simp
  with c1 have c2: "silent c c2"
    by (rule silent_trans)
  then have "silent c (c2\<lparr>hand := bs\<rparr>)" for bs
    by (rule silent_trans) simp
  then have "silent c (fst (unmarshalHandshakeMessage R K (c2\<lparr>hand := bs\<rparr>) data t))" for bs data
    by (rule silent_trans) (rule unmarshal_silent)
  moreover have "alert_then K c1 a e = (c', x) \<Longrightarrow> silent c c'" for a e c' x
    using silent_trans [OF c1 alerts_silent(2)] by (metis fst_conv)
  ultimately show ?thesis
    using c1 c2 b by (auto simp: readHandshake_def h Let_def split: prod.splits)
qed

section \<open>The operations of a server\<close>

lemma handleRenegotiation_silent:
  assumes "\<not> isClient c"
  shows "silent c (fst (handleRenegotiation E c))"
proof -
  obtain c1 t m where h: "readHandshake (reader E) (ops E) c None = (c1, t, m)"
    using prod_cases3 by blast
  have c1: "silent c c1"
    using readHandshake_silent [of c "reader E" "ops E" None] by (simp add: h)
  then have "\<not> isClient c1"
    using assms by (simp add: silent_def)
  moreover have "silent c (fst (sendAlert (ops E) c1 a))" "silent c (fst (alert_and (ops E) c1 a e))" for a e
    using silent_trans [OF c1] sendAlert_silent alerts_silent(3) by blast+
  ultimately show ?thesis
    using c1 by (simp add: handleRenegotiation_def h split: exec.splits)
qed

lemma handleKeyUpdate_silent: "silent c (fst (handleKeyUpdate E c m))"
proof -
  have w: "silent c c1" if "writeRecordLocked (ops E) (c\<lparr>c_in := h\<rparr>) recordTypeHandshake bs = (c1, n, r)" for h bs c1 n r
  proof (rule silent_trans)
    show "silent (c\<lparr>c_in := h\<rparr>) c1"
      using writeRecordLocked_silent [of "c\<lparr>c_in := h\<rparr>" "ops E" recordTypeHandshake bs] that by simp
  qed simp
  have "silent c (c1\<lparr>c_out := g\<rparr>)" "silent c (fst (out_setErrorLocked c1 e))"
    if "writeRecordLocked (ops E) (c\<lparr>c_in := h\<rparr>) recordTypeHandshake bs = (c1, n, r)" for h bs c1 n r g e
    using w [OF that] by (auto intro: silent_trans)
  with w show ?thesis
    by (auto simp: handleKeyUpdate_def Let_def alerts_silent split: option.splits exec.splits prod.splits)
qed

lemma handlePostHandshakeMessage_silent:
  assumes "\<not> isClient c"
  shows "silent c (fst (handlePostHandshakeMessage E c))"
proof (cases "c_vers c = VersionTLS13")
  case False
  then show ?thesis
    using handleRenegotiation_silent [OF assms] by (simp add: handlePostHandshakeMessage_def)
next
  case True
  obtain c1 t m where h: "readHandshake (reader E) (ops E) c None = (c1, t, m)"
    using prod_cases3 by blast
  let ?c = "c1\<lparr>retryCount := retryCount c1 + 1\<rparr>"
  have c1: "silent c c1"
    using readHandshake_silent [of c "reader E" "ops E" None] by (simp add: h)
  have c2: "silent c ?c"
    by (rule silent_trans [OF c1]) simp
  then have "\<not> isClient ?c"
    using assms by (simp add: silent_def)
  moreover have "silent c (fst (alert_then (ops E) ?c a e))" "silent c (fst (alert_and (ops E) ?c a e))"
    "silent c (fst (handleKeyUpdate E ?c ku))" for a e ku
    using silent_trans [OF c2] alerts_silent handleKeyUpdate_silent by blast+
  ultimately show ?thesis
    using c1 True by (simp add: handlePostHandshakeMessage_def h handleNewSessionTicket_def Let_def
        split: exec.splits handshakeMessage.splits)
qed

lemma post_loop_silent:
  assumes "post_loop E c = Some y"
  shows "\<not> isClient c \<longrightarrow> silent c (fst y)"
proof (rule post_loop.raw_induct [OF _ assms, where P = "\<lambda>E c y. \<not> isClient c \<longrightarrow> silent c (fst y)"])
  fix loop and E :: "('a, 'b, 'c, 'd, 'e) conn_env" and c :: "('a, 'b, 'c, 'd) conn" and y
  assume IH: "\<And>E c y. loop E c = Some y \<Longrightarrow> \<not> isClient c \<longrightarrow> silent c (fst y)"
    and step: "(if hand c = [] then Some (c, Ret ())
      else let (c, r) = handlePostHandshakeMessage E c in if r = Ret () then loop E c else Some (c, r)) = Some y"
  obtain c1 r1 where h: "handlePostHandshakeMessage E c = (c1, r1)"
    by fastforce
  show "\<not> isClient c \<longrightarrow> silent c (fst y)"
  proof
    assume "\<not> isClient c"
    then have c1: "silent c c1" "\<not> isClient c1"
      using handlePostHandshakeMessage_silent [of c E] by (auto simp: h silent_def)
    then have "loop E c1 = Some y \<Longrightarrow> silent c (fst y)"
      using IH silent_trans by blast
    then show "silent c (fst y)"
      using step c1(1) by (auto simp: h split: if_splits)
  qed
qed

lemma input_loop_silent:
  assumes "input_loop E c = Some y"
  shows "\<not> isClient c \<longrightarrow> silent c (fst y)"
proof (rule input_loop.raw_induct [OF _ assms, where P = "\<lambda>E c y. \<not> isClient c \<longrightarrow> silent c (fst y)"])
  fix loop and E :: "('a, 'b, 'c, 'd, 'e) conn_env" and c :: "('a, 'b, 'c, 'd) conn" and y
  assume IH: "\<And>E c y. loop E c = Some y \<Longrightarrow> \<not> isClient c \<longrightarrow> silent c (fst y)"
    and step: "(if c_input c \<noteq> [] then Some (c, Ret ())
      else let (c, r) = readRecord (ops E) c
           in if r \<noteq> Ret () then Some (c, r)
              else Option.bind (post_loop E c) (\<lambda>(c, r). if r = Ret () then loop E c else Some (c, r))) = Some y"
  obtain c1 r1 where h: "readRecord (ops E) c = (c1, r1)"
    by fastforce
  show "\<not> isClient c \<longrightarrow> silent c (fst y)"
  proof
    assume "\<not> isClient c"
    then have c1: "silent c c1" "\<not> isClient c1"
      using readRecord_silent [of c "ops E"] by (auto simp: h silent_def)
    have c2: "silent c c2 \<and> \<not> isClient c2" if "post_loop E c1 = Some (c2, r2)" for c2 r2
      using post_loop_silent [OF that] c1 silent_trans [OF c1(1)] by (auto simp: silent_def)
    then have "loop E c2 = Some y \<Longrightarrow> silent c (fst y)" if "post_loop E c1 = Some (c2, r2)" for c2 r2
      using that IH silent_trans by blast
    then show "silent c (fst y)"
      using step c1(1) c2 by (auto simp: h Let_def bind_eq_Some_conv split: if_splits prod.splits)
  qed
qed

lemma conn_Handshake_done: "isHandshakeComplete c \<Longrightarrow> conn_Handshake E c = (c, Ret ())"
  by (simp add: conn_Handshake_def)

lemma conn_Read_silent:
  assumes "conn_Read E c k = Some (c', b, r)" "\<not> isClient c" "isHandshakeComplete c"
  shows "silent c c'"
proof (cases "k = 0")
  case True
  then show ?thesis
    using assms by (simp add: conn_Read_def conn_Handshake_done)
next
  case False
  then obtain c1 r1 where l: "input_loop E c = Some (c1, r1)"
    using assms by (auto simp: conn_Read_def conn_Handshake_done bind_eq_Some_conv)
  have c1: "silent c c1"
    using input_loop_silent [OF l] assms(2) by simp
  have c2: "silent c (c1\<lparr>c_input := d\<rparr>)" for d
    by (rule silent_trans [OF c1]) simp
  have "silent c c2" if "readRecord (ops E) (c1\<lparr>c_input := d\<rparr>) = (c2, r2)" for d c2 r2
    using silent_trans [OF c2 [of d] readRecord_silent [of _ "ops E"]] that by simp
  then show ?thesis
    using assms False l c1 c2
    by (auto simp: conn_Read_def conn_Handshake_done Let_def split: if_splits prod.splits)
qed

lemma closeNotify_silent: "silent c (fst (closeNotify K c))"
proof (cases "closeNotifySent c")
  case False
  obtain c1 r where s: "sendAlertLocked K (c\<lparr>write_expired := False\<rparr>) alertCloseNotify = (c1, r)"
    by fastforce
  have "isClient c1 = isClient c \<and> isHandshakeComplete c1 = isHandshakeComplete c"
    using sendAlertLocked_silent [of "c\<lparr>write_expired := False\<rparr>" K alertCloseNotify] by (simp add: s silent_def)
  then show ?thesis
    using False by (cases r) (simp_all add: closeNotify_def s silent_def shut_def)
qed (simp add: closeNotify_def)

lemma conn_Close_silent: "silent c (fst (conn_Close K c))"
proof -
  let ?c = "c\<lparr>activeCall := activeCall c OR 1\<rparr>"
  obtain c1 r1 where n: "(if isHandshakeComplete ?c then closeNotify K ?c else (?c, Ret ())) = (c1, r1)"
    by fastforce
  have "silent ?c c1"
    using closeNotify_silent [of ?c K] n by (auto split: if_splits)
  then have c1: "silent c c1"
    by (rule silent_trans [rotated]) simp
  have t: "silent c (fst (transport_Close c'))" if "silent c c'" for c'
    by (rule silent_trans [OF that]) (simp add: transport_Close_def)
  obtain c2 r2 where t1: "transport_Close c1 = (c2, r2)"
    by fastforce
  have "silent c c2" "silent c (fst (transport_Close ?c))"
    using t [OF c1] t [of ?c] t1 by simp_all
  then show ?thesis
    unfolding conn_Close_def Let_def n using c1 by (cases r1; cases r2) (simp_all add: t1)
qed

lemma write_data_silent: "silent c (fst (write_data K c b))"
proof -
  have w: "silent c (fst (writeRecordLocked K c' ty bs))" if "silent c c'" for c' ty bs
    by (rule silent_trans [OF that]) (rule writeRecordLocked_silent)
  have r: "silent c (fst (write_return m (c', n, r)))" if "silent c c'" for c' m n r
  proof -
    have "silent c c2" if "out_setErrorLocked c' e = (c2, x)" for e c2 x
      using silent_trans [OF \<open>silent c c'\<close> setErrorLocked_silent(2)] that by (metis fst_conv)
    then show ?thesis
      using that by (auto simp: write_return_def Let_def split: exec.splits prod.splits)
  qed
  have wr: "silent c (fst (write_return m (writeRecordLocked K c' ty bs)))" if "silent c c'" for c' m ty bs
    using r w [OF that] by (metis fst_conv prod_cases3)
  obtain c1 n1 r1 where s: "writeRecordLocked K c recordTypeApplicationData (take 1 b) = (c1, n1, r1)"
    using prod_cases3 by blast
  have "silent c c1"
    using w [OF silent_refl] s by (metis fst_conv)
  then show ?thesis
    using r wr by (cases r1) (simp_all add: write_data_def s del: One_nat_def)
qed

lemma conn_Write_silent:
  assumes "isHandshakeComplete c"
  shows "silent c (fst (conn_Write E c b))"
proof -
  let ?c = "c\<lparr>activeCall := activeCall c + 2\<rparr>"
  obtain c1 n r where w: "write_data (ops E) ?c b = (c1, n, r)"
    using prod_cases3 by blast
  have "silent c c1"
    using silent_trans [of c ?c, OF _ write_data_silent [of ?c "ops E" b]] by (simp add: w)
  then have "silent c (c1\<lparr>activeCall := x\<rparr>)" "silent c (c\<lparr>activeCall := y\<rparr>)" for x y
    by (auto intro: silent_trans)
  then show ?thesis
    using assms w by (simp add: conn_Write_def conn_Handshake_done Let_def split: option.splits)
qed

section \<open>Any calls\<close>

text \<open>The calls a user can make; \<open>None\<close> when one of them never returns.\<close>

datatype call = CallWrite bytes | CallRead nat | CallCloseWrite | CallClose

fun conn_call ::
  "('s, 'a, 'c, 'm, 'b) conn_env \<Rightarrow> call \<Rightarrow> ('s, 'a, 'c, 'm) conn \<Rightarrow> ('s, 'a, 'c, 'm) conn option" where
  "conn_call E (CallWrite b) c = Some (fst (conn_Write E c b))"
| "conn_call E (CallRead k) c = map_option fst (conn_Read E c k)"
| "conn_call E CallCloseWrite c = Some (fst (CloseWrite (ops E) c))"
| "conn_call E CallClose c = Some (fst (conn_Close (ops E) c))"

fun conn_calls ::
  "('s, 'a, 'c, 'm, 'b) conn_env \<Rightarrow> call list \<Rightarrow> ('s, 'a, 'c, 'm) conn \<Rightarrow> ('s, 'a, 'c, 'm) conn option" where
  "conn_calls E [] c = Some c"
| "conn_calls E (x # xs) c = Option.bind (conn_call E x c) (conn_calls E xs)"

lemma conn_call_silent:
  assumes "\<not> isClient c" "isHandshakeComplete c" "conn_call E x c = Some c'"
  shows "silent c c'"
  using assms conn_Write_silent conn_Read_silent closeNotify_silent conn_Close_silent
  by (cases x) (auto simp: CloseWrite_def)

lemma conn_calls_silent:
  "\<not> isClient c \<Longrightarrow> isHandshakeComplete c \<Longrightarrow> conn_calls E xs c = Some c' \<Longrightarrow> silent c c'"
proof (induction xs arbitrary: c)
  case (Cons x xs)
  obtain c1 where c1: "conn_call E x c = Some c1" "conn_calls E xs c1 = Some c'"
    using Cons.prems(3) by (auto simp: bind_eq_Some_conv)
  have s: "silent c c1"
    using Cons.prems c1(1) conn_call_silent by blast
  then have "silent c1 c'"
    using Cons.IH [OF _ _ c1(2)] Cons.prems(1,2) by (simp add: silent_def)
  with s show ?case
    by (rule silent_trans)
qed simp

section \<open>Properties\<close>

text \<open>C14: after \<open>closeNotify\<close> on a server, successful or not, nothing more is written: whatever calls of
  \<open>Read\<close>, \<open>Write\<close>, \<open>CloseWrite\<close> and \<open>Close\<close> follow, in any order and whatever the client sends, the bytes
  given to the transport stay the same, those of alerts and of answers to key updates included, unless the
  user moves the write deadline; a second \<open>closeNotify\<close> returns what the first returned, and \<open>Write\<close> fails
  with nothing written.\<close>

theorem nothing_after_close:
  assumes "closeNotify K c = (c1, r)" and "\<forall>p. r \<noteq> Panic p" and "isHandshakeComplete c" and "\<not> isClient c"
    and "closeNotifySent c \<longrightarrow> write_expired c" and "conn_calls E xs c1 = Some c2"
  shows "net_out c2 = net_out c1 \<and> closeNotify K c2 = (c2, r) \<and> (\<exists>c3 e. conn_Write E c2 b = (c3, 0, Fail e))"
proof -
  have c1: "shut c1 \<and> err_exec (closeNotifyErr c1) = r"
    using assms(1,2,5) by (auto simp: closeNotify_def err_exec_def shut_def split: if_splits prod.splits exec.splits)
  have "isHandshakeComplete c1" "\<not> isClient c1"
    using closeNotify_silent [of c K] assms(1,3,4) by (simp_all add: silent_def)
  then have "silent c1 c2"
    using conn_calls_silent assms(6) by blast
  with c1 have c2: "shut c2 \<and> net_out c2 = net_out c1 \<and> closeNotifyErr c2 = closeNotifyErr c1 \<and> isHandshakeComplete c2"
    using \<open>isHandshakeComplete c1\<close> by (simp add: silent_def)
  have "\<exists>c3 e. conn_Write E c2 b = (c3, 0, Fail e)"
    using c2 by (cases "hc_err (c_out c2)") (simp_all add: conn_Write_def conn_Handshake_done shut_def Let_def)
  with c1 c2 show ?thesis
    by (simp add: closeNotify_def shut_def)
qed

text \<open>The client's next record has an unknown type, for which \<open>Read\<close> sends an alert.\<close>

definition closing_conn :: "('s, 'a, 'c, 'm) conn" where
  "closing_conn = (idle_conn zero_half zero_half)\<lparr>net_in := [([0, 3, 3, 0, 0], None)]\<rparr>"

theorem nothing_after_close_witness:
  "\<exists>c1 c2. closeNotify null_ops closing_conn = (c1, Ret ()) \<and> net_out c1 = [21, 3, 3, 0, 2, 1, 0] \<and>
     conn_calls null_env [CallRead 10, CallClose] c1 = Some c2 \<and> net_out c2 = [21, 3, 3, 0, 2, 1, 0]"
proof -
  have "case closeNotify null_ops closing_conn of (c, r) \<Rightarrow> r = Ret () \<and> net_out c = [21, 3, 3, 0, 2, 1, 0]"
    by code_simp
  then obtain c1 where c1: "closeNotify null_ops closing_conn = (c1, Ret ())" "net_out c1 = [21, 3, 3, 0, 2, 1, 0]"
    by (auto split: prod.splits)
  have c: "isHandshakeComplete closing_conn" "\<not> isClient closing_conn" "\<not> closeNotifySent closing_conn"
    by (simp_all add: closing_conn_def idle_conn_def)
  then have "isHandshakeComplete c1" "\<not> isClient c1"
    using closeNotify_silent [of closing_conn null_ops] c1(1) by (simp_all add: silent_def)
  then obtain c2 where c2: "conn_calls null_env [CallRead 10, CallClose] c1 = Some c2"
    using read_returns [of c1 null_env 10] by auto
  from nothing_after_close [OF c1(1) _ c(1,2) _ c2] c(3) c1 c2 show ?thesis
    by auto
qed

end
