(* ===== verification/Ech.thy ===== *)
theory Ech
  imports ClientHelloRead ClientHelloProofs Hpke
begin

text \<open>
  Encrypted Client Hello (\<open>ech.go\<close>): the configurations and which of them is used, the encoding of the inner
  ClientHello and its reconstruction from the outer one, and what the server does with the extension.
\<close>

section \<open>Configurations\<close>

record echCipher =
  ec_KDFID :: u16
  ec_AEADID :: u16

record echExtension =
  ex_Type :: u16
  ex_Data :: bytes

record echConfig =
  cf_raw :: bytes
  cf_Version :: u16
  cf_Length :: u16
  cf_ConfigID :: byte
  cf_KemID :: u16
  cf_PublicKey :: bytes
  cf_SymmetricCipherSuite :: "echCipher list"
  cf_MaxNameLength :: byte
  cf_PublicName :: bytes
  cf_Extensions :: "echExtension list"

definition errMalformedECHConfigList :: err where
  "errMalformedECHConfigList = ErrMsg ''tls: malformed ECHConfigList''"

definition echConfigErr :: "string \<Rightarrow> err" where
  "echConfigErr field =
     (if field = [] then ErrMsg ''tls: malformed ECHConfig''
      else ErrMsg (''tls: malformed ECHConfig, invalid '' @ field @ '' field''))"

text \<open>\<open>if !s.Read...(&x) { return err }\<close>.\<close>

definition must_read :: "err \<Rightarrow> ('a \<times> bytes) option \<Rightarrow> ('a \<times> bytes) exec" where
  "must_read e r = (case r of None \<Rightarrow> Fail e | Some x \<Rightarrow> Ret x)"

text \<open>
  A loop \<open>for !s.Empty()\<close> whose body returns errors and appends what it read.  The bound is the length of the
  input, of which every turn reads at least one byte.
\<close>

fun read_all :: "reader_ops \<Rightarrow> (bytes \<Rightarrow> ('a \<times> bytes) exec) \<Rightarrow> nat \<Rightarrow> bytes \<Rightarrow> 'a list \<Rightarrow> 'a list exec" where
  "read_all R rd 0 s xs = (if r_Empty R s then Ret xs else Fail (ErrMsg ''more turns than bytes''))"
| "read_all R rd (Suc n) s xs =
     (if r_Empty R s then Ret xs else exec_bind (rd s) (\<lambda>(x, s). read_all R rd n s (xs @ [x])))"

definition read_echCipher :: "reader_ops \<Rightarrow> bytes \<Rightarrow> (echCipher \<times> bytes) exec" where
  "read_echCipher R s =
     exec_bind (must_read (echConfigErr ''cipher_suites kdf_id'') (r_ReadUint16 R s)) (\<lambda>(kdf, s).
     exec_bind (must_read (echConfigErr ''cipher_suites aead_id'') (r_ReadUint16 R s)) (\<lambda>(aead, s).
     Ret (\<lparr>ec_KDFID = kdf, ec_AEADID = aead\<rparr>, s)))"

definition read_echExtension :: "reader_ops \<Rightarrow> bytes \<Rightarrow> (echExtension \<times> bytes) exec" where
  "read_echExtension R s =
     exec_bind (must_read (echConfigErr ''extensions type'') (r_ReadUint16 R s)) (\<lambda>(t, s).
     exec_bind (must_read (echConfigErr ''extensions data'') (r_ReadUint16LengthPrefixed R s)) (\<lambda>(d, s).
     Ret (\<lparr>ex_Type = t, ex_Data = d\<rparr>, s)))"

text \<open>\<open>None\<close> is the result \<open>skip\<close>.  The slice \<open>raw\<close> ends at \<open>Length + 4\<close>, a sum of 16 bits.\<close>

definition parseECHConfig :: "reader_ops \<Rightarrow> bytes \<Rightarrow> echConfig option exec" where
  "parseECHConfig R ec =
     exec_bind (must_read (echConfigErr ''version'') (r_ReadUint16 R ec)) (\<lambda>(vers, s).
     exec_bind (must_read (echConfigErr ''length'') (r_ReadUint16 R s)) (\<lambda>(len, s).
     if length ec < unat len + 4 then Fail (echConfigErr ''length'')
     else let raw = take (unat (len + 4)) ec
          in if vers \<noteq> extensionEncryptedClientHello then Ret None
             else
               exec_bind (must_read (echConfigErr ''config_id'') (r_ReadUint8 R s)) (\<lambda>(configID, s).
               exec_bind (must_read (echConfigErr ''kem_id'') (r_ReadUint16 R s)) (\<lambda>(kemID, s).
               exec_bind (must_read (echConfigErr ''public_key'') (readUint16LengthPrefixed R s)) (\<lambda>(publicKey, s).
               exec_bind (must_read (echConfigErr ''cipher_suites'') (r_ReadUint16LengthPrefixed R s)) (\<lambda>(suiteBytes, s).
               exec_bind (read_all R (read_echCipher R) (length suiteBytes) suiteBytes []) (\<lambda>suites.
               exec_bind (must_read (echConfigErr ''maximum_name_length'') (r_ReadUint8 R s)) (\<lambda>(maxNameLength, s).
               exec_bind (must_read (echConfigErr ''public_name'') (r_ReadUint8LengthPrefixed R s)) (\<lambda>(publicName, s).
               exec_bind (must_read (echConfigErr ''extensions'') (r_ReadUint16LengthPrefixed R s)) (\<lambda>(extensions, s).
               exec_bind (read_all R (read_echExtension R) (length extensions) extensions []) (\<lambda>exts.
               Ret (Some \<lparr>cf_raw = raw, cf_Version = vers, cf_Length = len, cf_ConfigID = configID, cf_KemID = kemID,
                      cf_PublicKey = publicKey, cf_SymmetricCipherSuite = suites, cf_MaxNameLength = maxNameLength,
                      cf_PublicName = publicName, cf_Extensions = exts\<rparr>))))))))))))"

text \<open>
  The loop over the list.  \<open>s[configLen+4:]\<close> adds in 16 bits, so that the loop may not advance; not to return is
  the value \<open>None\<close>.
\<close>

partial_function (option) parse_configs ::
  "reader_ops \<Rightarrow> bytes \<Rightarrow> echConfig list \<Rightarrow> echConfig list exec option" where
  "parse_configs R s configs =
     (if length s = 0 then Some (Ret configs)
      else if length s < 4 then Some (Fail (ErrMsg ''tls: malformed ECHConfig''))
      else let configLen = get_u16 (take 2 (drop 2 s))
           in case parseECHConfig R s of
                Ret ec \<Rightarrow>
                  if unat (configLen + 4) > length s then Some (Panic ''slice bounds out of range'')
                  else parse_configs R (drop (unat (configLen + 4)) s)
                         (case ec of None \<Rightarrow> configs | Some c \<Rightarrow> configs @ [c])
              | Fail e \<Rightarrow> Some (Fail e)
              | Panic p \<Rightarrow> Some (Panic p))"

definition parseECHConfigList :: "reader_ops \<Rightarrow> bytes \<Rightarrow> echConfig list exec option" where
  "parseECHConfigList R data =
     (case r_ReadUint16 R data of
        None \<Rightarrow> Some (Fail errMalformedECHConfigList)
      | Some (len, s) \<Rightarrow>
          if len \<noteq> of_nat (length data - 2) then Some (Fail errMalformedECHConfigList)
          else parse_configs R s [])"

section \<open>Choosing\<close>

text \<open>\<open>strings.Split(name, ".")\<close>.  A byte that is not ASCII is, or is part of, a character that is not allowed.\<close>

fun split_dots :: "bytes \<Rightarrow> bytes list" where
  "split_dots [] = [[]]"
| "split_dots (b # bs) =
     (if b = 46 then [] # split_dots bs
      else case split_dots bs of l # ls \<Rightarrow> (b # l) # ls | [] \<Rightarrow> [[b]])"

definition label_char :: "byte \<Rightarrow> bool" where
  "label_char r \<longleftrightarrow> 48 \<le> r \<and> r \<le> 57 \<or> 97 \<le> r \<and> r \<le> 122 \<or> 65 \<le> r \<and> r \<le> 90 \<or> r = 45"

definition validDNSName :: "bytes \<Rightarrow> bool" where
  "validDNSName name \<longleftrightarrow>
     length name \<le> 253 \<and> length (split_dots name) > 1 \<and>
     list_all (\<lambda>l. length l \<noteq> 0 \<and>
       list_all (\<lambda>i. \<not> (l ! i = 45 \<and> (i = 0 \<or> i = length l - 1)) \<and> label_char (l ! i)) [0..<length l]) (split_dots name)"

definition supported_suite :: "std_hashes \<Rightarrow> ('k, 'p, 'a) hpke_lib \<Rightarrow> echCipher \<Rightarrow> bool" where
  "supported_suite H L cs \<longleftrightarrow> SupportedAEADs L (ec_AEADID cs) \<noteq> None \<and> SupportedKDFs H (ec_KDFID cs) \<noteq> None"

definition pickECHConfig :: "std_hashes \<Rightarrow> ('k, 'p, 'a) hpke_lib \<Rightarrow> echConfig list \<Rightarrow> echConfig option" where
  "pickECHConfig H L configs =
     find (\<lambda>ec. SupportedKEMs H (cf_KemID ec) \<noteq> None \<and>
       list_ex (supported_suite H L) (cf_SymmetricCipherSuite ec) \<and>
       validDNSName (cf_PublicName ec) \<and>
       \<not> list_ex (\<lambda>ext. ex_Type ext AND 0x8000 \<noteq> 0) (cf_Extensions ec)) configs"

definition pickECHCipherSuite :: "std_hashes \<Rightarrow> ('k, 'p, 'a) hpke_lib \<Rightarrow> echCipher list \<Rightarrow> echCipher exec" where
  "pickECHCipherSuite H L suites =
     (case find (supported_suite H L) suites of
        Some s \<Rightarrow> Ret s
      | None \<Rightarrow> Fail (ErrMsg ''tls: no supported symmetric ciphersuites for ECH''))"

section \<open>The inner ClientHello\<close>

definition encodeInnerClientHello :: "'b builder_ops \<Rightarrow> clientHelloMsg \<Rightarrow> nat \<Rightarrow> bytes exec" where
  "encodeInnerClientHello B inner maxNameLength =
     exec_bind (ch_marshalMsg B inner True) (\<lambda>h.
     let h = drop 4 h;
         paddingLen = (if ch_serverName inner \<noteq> [] then maxNameLength - length (ch_serverName inner) else maxNameLength + 9);
         paddingLen = 31 - ((length h + paddingLen - 1) mod 32)
     in Ret (h @ replicate paddingLen 0))"

definition skipUint8LengthPrefixed :: "reader_ops \<Rightarrow> bytes \<Rightarrow> bytes option" where
  "skipUint8LengthPrefixed R s = do {(skip, s) \<leftarrow> r_ReadUint8 R s; r_Skip R (unat skip) s}"

definition skipUint16LengthPrefixed :: "reader_ops \<Rightarrow> bytes \<Rightarrow> bytes option" where
  "skipUint16LengthPrefixed R s = do {(skip, s) \<leftarrow> r_ReadUint16 R s; r_Skip R (unat skip) s}"

text \<open>A \<open>rawExtension\<close> is its number and its data.\<close>

type_synonym rawExtension = "u16 \<times> bytes"

definition read_rawExtension :: "reader_ops \<Rightarrow> bytes \<Rightarrow> (rawExtension \<times> bytes) option" where
  "read_rawExtension R s =
     do {(extension, s) \<leftarrow> r_ReadUint16 R s; (extData, s) \<leftarrow> r_ReadUint16LengthPrefixed R s; Some ((extension, extData), s)}"

definition extractRawExtensions :: "reader_ops \<Rightarrow> clientHelloMsg \<Rightarrow> rawExtension list exec" where
  "extractRawExtensions R hello =
     (case do {s \<leftarrow> r_Skip R (4 + 2 + 32) (case ch_original hello of None \<Rightarrow> [] | Some bs \<Rightarrow> bs);
               s \<leftarrow> skipUint8LengthPrefixed R s;
               s \<leftarrow> skipUint16LengthPrefixed R s;
               s \<leftarrow> skipUint8LengthPrefixed R s;
               r_ReadUint16LengthPrefixed R s} of
        None \<Rightarrow> Fail (ErrMsg ''tls: malformed outer client hello'')
      | Some (extensions, _) \<Rightarrow>
          read_all R (\<lambda>s. must_read (ErrMsg ''tls: invalid inner client hello'') (read_rawExtension R s))
            (length extensions) extensions [])"

text \<open>An extension as the builder writes it.\<close>

definition add_ext :: "'b builder_ops \<Rightarrow> rawExtension \<Rightarrow> 'b \<Rightarrow> 'b" where
  "add_ext B e = seq [b_AddUint16 B (fst e), b_AddUint16LengthPrefixed B (seq [b_AddBytes B (snd e)])]"

text \<open>The loop over \<open>rawOuterExts\<close>: the position of the next extension of this number.\<close>

fun find_from :: "rawExtension list \<Rightarrow> nat \<Rightarrow> u16 \<Rightarrow> nat option" where
  "find_from [] i t = None"
| "find_from (e # es) 0 t = (if fst e = t then Some 0 else map_option Suc (find_from es 0 t))"
| "find_from (e # es) (Suc i) t = map_option Suc (find_from es i t)"

text \<open>
  The loop over the numbers in \<open>ech_outer_extensions\<close>; the position stays from one number to the next.  The result
  is the builder and whether the function goes on.
\<close>

fun outer_exts ::
  "reader_ops \<Rightarrow> 'b builder_ops \<Rightarrow> rawExtension list \<Rightarrow> nat \<Rightarrow> bytes \<Rightarrow> nat \<Rightarrow> 'b \<Rightarrow> 'b \<times> bool" where
  "outer_exts R B raws 0 extData i b = (b, True)"
| "outer_exts R B raws (Suc n) extData i b =
     (if r_Empty R extData then (b, True)
      else case r_ReadUint16 R extData of
             None \<Rightarrow> (b_SetError B (ErrMsg ''tls: invalid inner client hello'') b, False)
           | Some (extType, extData) \<Rightarrow>
               if extType = extensionEncryptedClientHello
               then (b_SetError B (ErrMsg ''tls: invalid outer extensions'') b, False)
               else case find_from raws i extType of
                      None \<Rightarrow> (b_SetError B (ErrMsg ''tls: invalid outer extensions'') b, False)
                    | Some i \<Rightarrow> outer_exts R B raws n extData i (add_ext B (raws ! i) b))"

fun recon_exts :: "reader_ops \<Rightarrow> 'b builder_ops \<Rightarrow> rawExtension list \<Rightarrow> nat \<Rightarrow> bytes \<Rightarrow> 'b \<Rightarrow> 'b" where
  "recon_exts R B raws 0 extensions b = b"
| "recon_exts R B raws (Suc n) extensions b =
     (if r_Empty R extensions then b
      else case read_rawExtension R extensions of
             None \<Rightarrow> b_SetError B (ErrMsg ''tls: invalid inner client hello'') b
           | Some ((extension, extData), extensions) \<Rightarrow>
               if extension = extensionECHOuterExtensions then
                 (case r_ReadUint8LengthPrefixed R extData of
                    None \<Rightarrow> b_SetError B (ErrMsg ''tls: invalid inner client hello'') b
                  | Some (extData, _) \<Rightarrow>
                      (case outer_exts R B raws (length extData) extData 0 b of
                         (b, goes_on) \<Rightarrow> if goes_on then recon_exts R B raws n extensions b else b))
               else recon_exts R B raws n extensions (add_ext B (extension, extData) b))"

text \<open>GREASE values, which have the form \<open>0x?A?A\<close> with equal digits.\<close>

definition is_grease :: "u16 \<Rightarrow> bool" where
  "is_grease v \<longleftrightarrow> v AND 0x0F0F = 0x0A0A \<and> v AND 0xff = drop_bit 8 v"

fun check_versions :: "u16 list \<Rightarrow> bool \<Rightarrow> bool exec" where
  "check_versions [] hasTLS13 = Ret hasTLS13"
| "check_versions (v # vs) hasTLS13 =
     (if is_grease v then check_versions vs hasTLS13
      else if v = VersionTLS13 then check_versions vs True
      else if v < VersionTLS13
      then Fail (ErrMsg ''tls: client sent encrypted_client_hello extension with unsupported versions'')
      else check_versions vs hasTLS13)"

text \<open>What the encoded inner hello consists of.\<close>

definition read_encodedInner :: "reader_ops \<Rightarrow> bytes \<Rightarrow> (bytes \<times> bytes \<times> bytes \<times> bytes \<times> bytes) option" where
  "read_encodedInner R ec =
     do {(versionAndRandom, s) \<leftarrow> r_ReadBytes R (2 + 32) ec;
         (sessionID, s) \<leftarrow> readUint8LengthPrefixed R s;
         if length sessionID \<noteq> 0 then None else do {
         (suites, s) \<leftarrow> readUint16LengthPrefixed R s;
         (compressionMethods, s) \<leftarrow> readUint8LengthPrefixed R s;
         (extensions, s) \<leftarrow> r_ReadUint16LengthPrefixed R s;
         Some (versionAndRandom, suites, compressionMethods, extensions, s)}}"

definition decodeInnerClientHello ::
  "reader_ops \<Rightarrow> 'b builder_ops \<Rightarrow> clientHelloMsg \<Rightarrow> bytes \<Rightarrow> clientHelloMsg exec" where
  "decodeInnerClientHello R B outer ec =
     (case read_encodedInner R ec of
        None \<Rightarrow> Fail (ErrMsg ''tls: invalid inner client hello'')
      | Some (versionAndRandom, suites, compressionMethods, extensions, padding) \<Rightarrow>
          if list_ex (\<lambda>p. p \<noteq> 0) padding then Fail (ErrMsg ''tls: invalid inner client hello'')
          else
            exec_bind (extractRawExtensions R outer) (\<lambda>raws.
            exec_bind (b_Bytes B (seq [
              b_AddUint8 B typeClientHello,
              b_AddUint24LengthPrefixed B (seq [
                b_AddBytes B versionAndRandom,
                b_AddUint8LengthPrefixed B (seq [b_AddBytes B (ch_sessionId outer)]),
                b_AddUint16LengthPrefixed B (seq [b_AddBytes B suites]),
                b_AddUint8LengthPrefixed B (seq [b_AddBytes B compressionMethods]),
                b_AddUint16LengthPrefixed B (recon_exts R B raws (length extensions) extensions)])] (b_new B))) (\<lambda>reconBytes.
            case ch_unmarshal R reconBytes of
              None \<Rightarrow> Fail (ErrMsg ''tls: invalid reconstructed inner client hello'')
            | Some inner \<Rightarrow>
                if ch_encryptedClientHello inner \<noteq> [innerECHExt] then Fail errInvalidECHExt
                else exec_bind (check_versions (ch_supportedVersions inner) False) (\<lambda>hasTLS13.
                     if \<not> hasTLS13
                     then Fail (ErrMsg ''tls: client sent encrypted_client_hello extension but did not offer TLS 1.3'')
                     else Ret inner))))"


section \<open>The extension\<close>

definition bytes_zero :: "nat \<Rightarrow> bytes" where "bytes_zero n = replicate n 0"

text \<open>\<open>bytes.Replace(s, old, new, 1)\<close>: the first occurrence.\<close>

fun replace_first :: "bytes \<Rightarrow> bytes \<Rightarrow> bytes \<Rightarrow> bytes" where
  "replace_first [] old new = (if old = [] then new else [])"
| "replace_first (b # bs) old new =
     (if take (length old) (b # bs) = old then new @ drop (length old) (b # bs) else b # replace_first bs old new)"

definition decryptECHPayload ::
  "('k, 'p, 'a) hpke_lib \<Rightarrow> 'a hpke_context \<Rightarrow> bytes \<Rightarrow> bytes \<Rightarrow> 'a hpke_context \<times> bytes exec" where
  "decryptECHPayload L ctx hello payload =
     (if length hello < 4 then (ctx, Panic ''slice bounds out of range'')
      else let outerAAD = replace_first (drop 4 hello) payload (bytes_zero (length payload))
           in hpke_Open L ctx outerAAD payload)"

definition generateOuterECHExt :: "'b builder_ops \<Rightarrow> byte \<Rightarrow> u16 \<Rightarrow> u16 \<Rightarrow> bytes \<Rightarrow> bytes \<Rightarrow> bytes exec" where
  "generateOuterECHExt B i kdfID aeadID encodedKey payload =
     b_Bytes B (seq [
       b_AddUint8 B 0,
       b_AddUint16 B kdfID,
       b_AddUint16 B aeadID,
       b_AddUint8 B i,
       b_AddUint16LengthPrefixed B (seq [b_AddBytes B encodedKey]),
       b_AddUint16LengthPrefixed B (seq [b_AddBytes B payload])] (b_new B))"

record 'a echClientContext =
  ecc_config :: echConfig
  ecc_hpkeContext :: "'a hpke_context"
  ecc_encapsulatedKey :: bytes
  ecc_kdfID :: u16
  ecc_aeadID :: u16

text \<open>The outer hello and the context after the call; with an error the caller gives both up.\<close>

definition computeAndUpdateOuterECHExtension ::
  "'b builder_ops \<Rightarrow> ('k, 'p, 'a) hpke_lib \<Rightarrow> clientHelloMsg \<Rightarrow> clientHelloMsg \<Rightarrow> 'a echClientContext \<Rightarrow> bool
     \<Rightarrow> (clientHelloMsg \<times> 'a echClientContext) exec" where
  "computeAndUpdateOuterECHExtension B L outer inner ech useKey =
     (let encapKey = (if useKey then ecc_encapsulatedKey ech else [])
      in exec_bind (encodeInnerClientHello B inner (unat (cf_MaxNameLength (ecc_config ech)))) (\<lambda>encodedInner.
         let encryptedLen = length encodedInner + 16;
             ext = generateOuterECHExt B (cf_ConfigID (ecc_config ech)) (ecc_kdfID ech) (ecc_aeadID ech) encapKey
         in exec_bind (ext (bytes_zero encryptedLen)) (\<lambda>e0.
            let outer = outer\<lparr>ch_encryptedClientHello := e0\<rparr>
            in exec_bind (ch_marshal B outer) (\<lambda>serializedOuter.
               exec_bind (hpke_Seal L (ecc_hpkeContext ech) (drop 4 serializedOuter) encodedInner) (\<lambda>(ctx, encryptedInner).
               exec_bind (ext encryptedInner) (\<lambda>e1.
               Ret (outer\<lparr>ch_encryptedClientHello := e1\<rparr>, ech\<lparr>ecc_hpkeContext := ctx\<rparr>)))))))"

record EncryptedClientHelloKey =
  ek_Config :: bytes
  ek_PrivateKey :: bytes
  ek_SendAsRetry :: bool

definition marshalEncryptedClientHelloConfigList :: "'b builder_ops \<Rightarrow> EncryptedClientHelloKey list \<Rightarrow> bytes exec" where
  "marshalEncryptedClientHelloConfigList B configs =
     b_Bytes B (seq [b_AddUint16LengthPrefixed B (each configs (\<lambda>c. b_AddBytes B (ek_Config c)))] (b_new B))"

text \<open>\<open>None\<close> is a nil slice.\<close>

definition buildRetryConfigList :: "'b builder_ops \<Rightarrow> EncryptedClientHelloKey list \<Rightarrow> bytes option exec" where
  "buildRetryConfigList B keys =
     (let retry = seq [b_AddUint16LengthPrefixed B (each keys (\<lambda>c. cond (ek_SendAsRetry c) [b_AddBytes B (ek_Config c)]))] (b_new B)
      in if \<not> list_ex ek_SendAsRetry keys then Ret None else exec_bind (b_Bytes B retry) (\<lambda>bs. Ret (Some bs)))"

section \<open>The server\<close>

record 'a echServerContext =
  es_hpkeContext :: "'a hpke_context option"
  es_configID :: byte
  es_ciphersuite :: echCipher
  es_inner :: bool

text \<open>
  The loop over the keys: an error with the alert that goes with it, or the inner hello with its context, or that
  no key opens the payload.
\<close>

fun try_ech_keys ::
  "std_hashes \<Rightarrow> ('k, 'p, 'a) hpke_lib \<Rightarrow> reader_ops \<Rightarrow> 'b builder_ops \<Rightarrow> clientHelloMsg \<Rightarrow> ech_ext
     \<Rightarrow> EncryptedClientHelloKey list \<Rightarrow> (byte \<times> err) + (clientHelloMsg \<times> 'a echServerContext) option exec" where
  "try_ech_keys H L R B outer ext [] = Inr (Ret None)"
| "try_ech_keys H L R B outer ext (k # ks) =
     (case parseECHConfig R (ek_Config k) of
        Panic p \<Rightarrow> Inr (Panic p)
      | Fail e \<Rightarrow> Inl (alertInternalError, ErrMsg ''tls: invalid EncryptedClientHelloKeys Config'')
      | Ret None \<Rightarrow> Inl (alertInternalError, ErrMsg ''tls: invalid EncryptedClientHelloKeys Config'')
      | Ret (Some config) \<Rightarrow>
          (case ParseHPKEPrivateKey H L (cf_KemID config) (ek_PrivateKey k) of
             Panic p \<Rightarrow> Inr (Panic p)
           | Fail e \<Rightarrow> Inl (alertInternalError, ErrMsg ''tls: invalid EncryptedClientHelloKeys PrivateKey'')
           | Ret echPriv \<Rightarrow>
               (case SetupRecipient H L DHKEM_X25519_HKDF_SHA256 (ee_KDFID ext) (ee_AEADID ext) echPriv
                       (str_bytes ''tls ech'' @ [0] @ ek_Config k) (ee_encap ext) of
                  Panic p \<Rightarrow> Inr (Panic p)
                | Fail e \<Rightarrow> try_ech_keys H L R B outer ext ks
                | Ret ctx \<Rightarrow>
                    (case decryptECHPayload L ctx (case ch_original outer of None \<Rightarrow> [] | Some bs \<Rightarrow> bs) (ee_payload ext) of
                       (_, Panic p) \<Rightarrow> Inr (Panic p)
                     | (_, Fail e) \<Rightarrow> try_ech_keys H L R B outer ext ks
                     | (ctx, Ret encodedInner) \<Rightarrow>
                         (case decodeInnerClientHello R B outer encodedInner of
                            Panic p \<Rightarrow> Inr (Panic p)
                          | Fail e \<Rightarrow> Inl (alertIllegalParameter, errInvalidECHExt)
                          | Ret echInner \<Rightarrow>
                              Inr (Ret (Some (echInner,
                                \<lparr>es_hpkeContext = Some ctx, es_configID = ee_configID ext,
                                 es_ciphersuite = \<lparr>ec_KDFID = ee_KDFID ext, ec_AEADID = ee_AEADID ext\<rparr>,
                                 es_inner = False\<rparr>))))))))"

text \<open>\<open>processECHClientHello\<close> with the keys of the configuration: the hello to go on with, the context, \<open>echAccepted\<close>.\<close>

definition processECH ::
  "std_hashes \<Rightarrow> ('k, 'p, 'x) hpke_lib \<Rightarrow> reader_ops \<Rightarrow> 'b builder_ops \<Rightarrow> ('s, 'a, 'c, 'm) cipher_ops
     \<Rightarrow> EncryptedClientHelloKey list \<Rightarrow> ('s, 'a, 'c, 'm) conn \<Rightarrow> clientHelloMsg
     \<Rightarrow> ('s, 'a, 'c, 'm) conn \<times> (clientHelloMsg \<times> 'x echServerContext option \<times> bool) exec" where
  "processECH H L R B K keys c outer =
     (case parseECHExt R (ch_encryptedClientHello outer) of
        Fail e \<Rightarrow> fail_alert K c (if e = errInvalidECHExt then alertIllegalParameter else alertDecodeError) errInvalidECHExt
      | Panic p \<Rightarrow> (c, Panic p)
      | Ret ext \<Rightarrow>
          if ee_type ext = innerECHExt
          then (c, Ret (outer, Some \<lparr>es_hpkeContext = None, es_configID = 0, es_ciphersuite = \<lparr>ec_KDFID = 0, ec_AEADID = 0\<rparr>,
                                    es_inner = True\<rparr>, False))
          else if length keys = 0 then (c, Ret (outer, None, False))
          else (case try_ech_keys H L R B outer ext keys of
                  Inl (a, e) \<Rightarrow> fail_alert K c a e
                | Inr (Fail e) \<Rightarrow> (c, Fail e)
                | Inr (Panic p) \<Rightarrow> (c, Panic p)
                | Inr (Ret None) \<Rightarrow> (c, Ret (outer, None, False))
                | Inr (Ret (Some (echInner, ctx))) \<Rightarrow> (c, Ret (echInner, Some ctx, True))))"

text \<open>Without keys this is the function of \<open>ClientHelloRead\<close>.\<close>

lemma processECH_no_keys:
  "processECHClientHello R K c outer =
     (case processECH H L R B K [] c outer of
        (c, Ret (m, ctx, accepted)) \<Rightarrow> (c, Ret (m, map_option es_inner ctx))
      | (c, Fail e) \<Rightarrow> (c, Fail e)
      | (c, Panic p) \<Rightarrow> (c, Panic p))"
  by (simp add: processECHClientHello_def processECH_def fail_alert_def split: exec.split prod.split)

section \<open>Parsing a list returns\<close>

text \<open>Nothing in the parser of a configuration panics.\<close>

definition no_panic :: "'a exec \<Rightarrow> bool" where
  "no_panic r \<longleftrightarrow> (\<forall>p. r \<noteq> Panic p)"

lemma must_read_no_panic: "no_panic (must_read e r)"
  by (simp add: must_read_def no_panic_def split: option.split)

lemma bind_no_panic: "no_panic r \<Longrightarrow> (\<And>x. no_panic (f x)) \<Longrightarrow> no_panic (exec_bind r f)"
  by (cases r) (simp_all add: no_panic_def)

lemma read_all_no_panic: "(\<And>s. no_panic (rd s)) \<Longrightarrow> no_panic (read_all R rd n s xs)"
proof (induction n arbitrary: s xs)
  case (Suc n)
  then show ?case
    by (auto intro!: bind_no_panic) (simp add: no_panic_def)
qed (simp add: no_panic_def)

lemma parseECHConfig_no_panic: "no_panic (parseECHConfig R ec)"
proof -
  have "no_panic (read_echCipher R s)" "no_panic (read_echExtension R s)" for s
    unfolding read_echCipher_def read_echExtension_def
    by (auto intro!: bind_no_panic must_read_no_panic simp: no_panic_def [of "Ret _"] split: prod.split)
  then show ?thesis
    unfolding parseECHConfig_def Let_def
    by (auto intro!: bind_no_panic must_read_no_panic read_all_no_panic
        simp: no_panic_def [of "Ret _"] no_panic_def [of "Fail _"] split: prod.split)
qed

context cryptobyte_String
begin

lemma parseECHConfig_length:
  assumes "parseECHConfig R s = Ret ec"
  shows "unat (get_u16 (take 2 (drop 2 s))) + 4 \<le> length s"
proof (rule ccontr)
  assume short: "\<not> unat (get_u16 (take 2 (drop 2 s))) + 4 \<le> length s"
  consider "length s < 2" | "length s < 4" "\<not> length s < 2" | "\<not> length s < 4"
    by linarith
  then show False
  proof cases
    case 2
    then have "length s - 2 < 2"
      by simp
    then show False
      using assms 2 by (simp add: parseECHConfig_def must_read_def laws cutn_def)
  next
    case 3
    then have "r_ReadUint16 R s = Some (get_u16 (take 2 s), drop 2 s)"
      "r_ReadUint16 R (drop 2 s) = Some (get_u16 (take 2 (drop 2 s)), drop 2 (drop 2 s))"
      by (simp_all add: laws cutn_def)
    then show False
      using assms short by (simp add: parseECHConfig_def must_read_def)
  qed (use assms in \<open>simp_all add: parseECHConfig_def must_read_def laws cutn_def\<close>)
qed

lemma parse_configs_returns:
  assumes "length s < 2 ^ 16"
  shows "\<exists>r. parse_configs R s configs = Some r \<and> (\<forall>p. r \<noteq> Panic p)"
  using assms
proof (induction "length s" arbitrary: s configs rule: less_induct)
  case less
  show ?case
  proof (cases "length s < 4")
    case True
    then show ?thesis
      by (subst parse_configs.simps) simp
  next
    case False
    let ?n = "get_u16 (take 2 (drop 2 s))"
    show ?thesis
    proof (cases "parseECHConfig R s")
      case (Ret ec)
      have "unat ?n + 4 \<le> length s"
        by (rule parseECHConfig_length [OF Ret])
      then have "unat (?n + 4) = unat ?n + 4"
        using less.prems by (intro unat_plus_if_size [THEN trans]) (simp add: word_size)
      then have "\<exists>r. parse_configs R (drop (unat (?n + 4)) s) cs = Some r \<and> (\<forall>p. r \<noteq> Panic p)" for cs
        using False less.prems by (intro less.hyps) simp_all
      then show ?thesis
        using False Ret \<open>unat ?n + 4 \<le> length s\<close> \<open>unat (?n + 4) = unat ?n + 4\<close>
        by (subst parse_configs.simps) (simp add: Let_def split: option.split)
    next
      case (Panic p)
      then show ?thesis
        using parseECHConfig_no_panic [of R s] by (simp add: no_panic_def)
    qed (use False in \<open>subst parse_configs.simps; simp add: Let_def\<close>)
  qed
qed

end

text \<open>A list of 65,536 bytes whose first entry claims a length of 65,532: the sum with four is zero.\<close>

definition endless_list :: bytes where
  "endless_list = [0, 0] @ [0, 0, 0xff, 0xfc] @ replicate 65532 0"

lemma parse_configs_endless:
  assumes "parse_configs R s configs = Some r"
  shows "\<not> (parseECHConfig R s = Ret None \<and> get_u16 (take 2 (drop 2 s)) = 0xfffc \<and> length s \<ge> 4)"
proof (rule parse_configs.raw_induct [OF _ assms, where
    P = "\<lambda>R s configs r. \<not> (parseECHConfig R s = Ret None \<and> get_u16 (take 2 (drop 2 s)) = 0xfffc \<and> length s \<ge> 4)"])
  fix parse R s configs r
  assume IH: "\<And>R s configs r. parse R s configs = Some r \<Longrightarrow>
      \<not> (parseECHConfig R s = Ret None \<and> get_u16 (take 2 (drop 2 s)) = 0xfffc \<and> length s \<ge> 4)"
    and run: "(if length s = 0 then Some (Ret configs)
      else if length s < 4 then Some (Fail (ErrMsg ''tls: malformed ECHConfig''))
      else let configLen = get_u16 (take 2 (drop 2 s))
           in case parseECHConfig R s of
                Ret ec \<Rightarrow>
                  if unat (configLen + 4) > length s then Some (Panic ''slice bounds out of range'')
                  else parse R (drop (unat (configLen + 4)) s)
                         (case ec of None \<Rightarrow> configs | Some c \<Rightarrow> configs @ [c])
              | Fail e \<Rightarrow> Some (Fail e)
              | Panic p \<Rightarrow> Some (Panic p)) = Some r"
  show "\<not> (parseECHConfig R s = Ret None \<and> get_u16 (take 2 (drop 2 s)) = 0xfffc \<and> length s \<ge> 4)"
  proof
    assume s: "parseECHConfig R s = Ret None \<and> get_u16 (take 2 (drop 2 s)) = 0xfffc \<and> length s \<ge> 4"
    then have "s \<noteq> []" "\<not> length s < 4"
      by auto
    then have "parse R s configs = Some r"
      using run s by (simp add: Let_def)
    then show False
      using IH s by blast
  qed
qed

text \<open>C40: Parsing a list of ECH configurations returns, with a list of configurations or an error and never a panic,
  whenever the data fits in the 16-bit length that it starts with.  That length is compared with the size of the data only modulo
  2 ^ 16: for longer data the loop may not advance, and there is an input on which \<open>parseECHConfigList\<close> never
  returns.\<close>

theorem ech_config_list_returns:
  assumes "cryptobyte_String R"
  shows "(length data < 2 ^ 16 + 2 \<longrightarrow> (\<exists>r. parseECHConfigList R data = Some r \<and> (\<forall>p. r \<noteq> Panic p))) \<and>
    parseECHConfigList R endless_list = None"
proof -
  have fits: "\<exists>r. parseECHConfigList R data = Some r \<and> (\<forall>p. r \<noteq> Panic p)" if "length data < 2 ^ 16 + 2"
  proof (cases "r_ReadUint16 R data")
    case (Some x)
    then have "length (snd x) = length data - 2" "2 \<le> length data"
      by (auto simp: cryptobyte_String.ReadUint16_law [OF assms] cutn_def split: if_split_asm)
    then have "\<exists>r. parse_configs R (snd x) [] = Some r \<and> (\<forall>p. r \<noteq> Panic p)"
      using that by (intro cryptobyte_String.parse_configs_returns [OF assms]) simp
    then show ?thesis
      using Some by (cases x) (simp add: parseECHConfigList_def)
  qed (simp add: parseECHConfigList_def)
  define body :: bytes where "body = [0, 0, 0xff, 0xfc] @ replicate 65532 0"
  have body: "length body = 2 ^ 16" "take 2 body = [0, 0]" "drop 2 body = [0xff, 0xfc] @ replicate 65532 0"
    by (simp_all add: body_def)
  have len: "get_u16 (take 2 (drop 2 body)) = 0xfffc"
    by (simp add: body(3) get_u16_def get_be_def)
  have "r_ReadUint16 R body = Some (0, drop 2 body)" "r_ReadUint16 R (drop 2 body) = Some (0xfffc, drop 2 (drop 2 body))"
    using body len by (simp_all add: cryptobyte_String.ReadUint16_law [OF assms] cutn_def get_u16_def get_be_def)
  then have "parseECHConfig R body = Ret None"
    using body(1) by (simp add: parseECHConfig_def must_read_def extension_ids)
  then have "parse_configs R body [] = None"
    using parse_configs_endless [of R body "[]"] len body(1) by (cases "parse_configs R body []") simp_all
  moreover have "r_ReadUint16 R endless_list = Some (0, body)" "length endless_list = 2 ^ 16 + 2"
    by (simp_all add: cryptobyte_String.ReadUint16_law [OF assms] cutn_def endless_list_def body_def get_u16_def get_be_def)
  ultimately show ?thesis
    using fits by (simp add: parseECHConfigList_def)
qed

theorem ech_config_list_returns_witness:
  "(\<exists>r. parseECHConfigList ref_reader [0, 4, 0, 0, 0, 0] = Some r \<and> r \<noteq> Panic []) \<and> parseECHConfigList ref_reader endless_list = None"
  using ech_config_list_returns [OF ref_reader.cryptobyte_String_axioms, of "[0, 4, 0, 0, 0, 0]"] by auto

end
