(* ===== verification/Spec2Isabelle.thy ===== *)
theory Spec2Isabelle
  imports ClientHelloProofs Messages12 Tls13Records RecordSafety RealityServer RealityFlight RealityTickets
    KeyAgreement Caches Hpke ConnClosing Ech
begin

text \<open>
  A verification development for the REALITY server, a fork of Go's \<open>crypto/tls\<close> (all paths are under \<open>src/\<close>).

  The program.  \<open>Server\<close> (\<open>tls.go\<close>) stands between a client and a target, a foreign web site, with two goroutines.
  The first reads the ClientHello, passing every byte on to the target, and looks in the session id for a box
  sealed under a key shared with the server.  The second reads what the target answers and records the lengths
  of the records of its handshake.  A client without a valid box is connected to the target and sees nothing
  else; one with a valid box gets a TLS 1.3 handshake from the server, whose records have the lengths that were
  recorded.  Below lie the TLS library - record layer, messages, key schedules, tickets, caches, Encrypted
  Client Hello - and the repository's own copies of AES, GCM and HPKE.

  The theories, from the bottom up.

  \<^item> Vocabulary.  \<open>Prelude\<close>: words, the outcome \<open>exec\<close> of a Go call (a value, an error or a panic), lists and
    bytes.  \<open>Alias\<close>: slices with address and capacity (\<open>alias/alias.go\<close>).  \<open>GoTime\<close>: the saturating times of Go.
    \<open>Constants\<close>, \<open>Alert\<close>: \<open>common.go\<close>, \<open>alert.go\<close>.
  \<^item> Block cipher and GCM.  \<open>AesTables\<close>, \<open>Aes\<close> (\<open>aes/\<close>), \<open>Ghash\<close>, \<open>Gcm\<close>, \<open>GcmNonces\<close> (\<open>gcm/\<close>).  Decrypt undoes
    Encrypt through the tables; the table-driven GHASH is the bit-serial one of the standard; Open undoes Seal,
    succeeds exactly with the right tag and clears its output otherwise; the wrappers never use a nonce twice.
  \<^item> Keys.  \<open>CipherSuites\<close> (\<open>cipher_suites.go\<close>, \<open>defaults.go\<close>), \<open>KeySchedule\<close> (\<open>tls13/\<close>, \<open>tls12/\<close>, \<open>key_schedule.go\<close>),
    \<open>Prf\<close> (\<open>prf.go\<close>), \<open>KeyEstablishment\<close> (\<open>establishKeys\<close> of both ends), \<open>KeyAgreement\<close> (\<open>key_agreement.go\<close>),
    \<open>Auth\<close> (\<open>auth.go\<close>), \<open>Config\<close> (what the configuration decides, \<open>common.go\<close>).  Both ends get keys that fit,
    accepted parameters are signed, both ends of ECDHE get one secret.
  \<^item> Messages (\<open>handshake_messages.go\<close>).  \<open>Cryptobyte\<close> states the interface of \<open>golang.org/x/crypto/cryptobyte\<close>;
    \<open>ClientHello\<close>, \<open>ServerHello\<close>, \<open>Messages13\<close>, \<open>Messages12\<close> hold the messages; \<open>WireFormat\<close> and
    \<open>ClientHelloProofs\<close> the round trips, and that what is accepted is well formed.
  \<^item> Record layer (\<open>conn.go\<close>).  \<open>HalfConn\<close>: one direction, with keys, sequence numbers, \<open>encrypt\<close> and \<open>decrypt\<close>.
    \<open>RecordChannel\<close>: what one half writes the other reads, for AEADs, stream ciphers and CBC.  \<open>Ciphers\<close>: the ciphers
    of the suites fulfil these contracts.  \<open>RecordSafety\<close>: padding, failures, authenticity.  \<open>Tls13Records\<close>: the
    records of a REALITY server have the recorded lengths.
  \<^item> Connection (\<open>conn.go\<close>).  \<open>Conn\<close>: \<open>readRecordOrCCS\<close> to \<open>writeChangeCipherRecord\<close>; \<open>ConnApi\<close>: \<open>Write\<close>, \<open>Read\<close>,
    \<open>Close\<close> and messages after the handshake.  \<open>ConnDelivery\<close>: data arrives, however it is cut up.  \<open>ConnSafety\<close>:
    what a read may change, and the limits on useless records and messages.  \<open>ConnClosing\<close>: silence after
    \<open>closeNotify\<close>.  \<open>KeyUpdates\<close>: key updates.
  \<^item> REALITY.  \<open>ClientHelloRead\<close>: \<open>readClientHello\<close> (\<open>handshake_server.go\<close>).  \<open>RealityAuth\<close>: the box in the session
    id.  \<open>TargetRecording\<close>: the loop over the target's records.  \<open>RealityServer\<close>: the two goroutines as a step
    relation; who is answered, and what everybody else sees.  \<open>RealityHandshake\<close>: \<open>handshake\<close>
    (\<open>handshake_server_tls13.go\<close>).  \<open>RealityFlight\<close>: the flight has the recorded shape, a client with the same
    secret reads it, and completion means that the client's Finished was right.  \<open>RealityTickets\<close>: with session
    tickets the handshake cannot complete when the target sent none.
  \<^item> State across connections.  \<open>TicketKeys\<close>, \<open>Session\<close> (\<open>ticket.go\<close>, \<open>common.go\<close>): rotation of the keys, lifetime
    of a ticket, parsing.  \<open>Caches\<close> (\<open>common.go\<close>, \<open>cache.go\<close>): the LRU cache against the documented map, the
    certificate cache under interleaving.
  \<^item> \<open>Hpke\<close> (\<open>hpke/hpye.go\<close>) and \<open>Ech\<close> (\<open>ech.go\<close>): delivery and the limit of messages; that the parser of
    configurations returns, and the input on which it does not.

  How the model corresponds to the code.  Records of the model have the fields of the structs; functions bear the
  names of the source, with the receiver or package in front where names clash (\<open>conn_Read\<close>, \<open>gcm_Open\<close>,
  \<open>hpke_Seal\<close>).  Integers are words of the code's width, except lengths and loop counters, which are numbers.
  A call returns the new state and an \<open>exec\<close>, so that every error return and every panic is a branch.  The
  mutable list and map of the session cache and the reference counts of the certificate cache are explicit
  stores.

  Loops and bounds.  A loop over input takes the length of the input as its bound (\<open>read_all\<close> in \<open>Ech\<close>, the
  extension loops in \<open>ClientHello\<close>, \<open>loop_exec\<close> in \<open>Session\<close>): each round consumes a byte or more, so it ends by
  itself first.  \<open>readRecordOrCCS\<close> calls itself with less of the transport left, which is its measure; what stops it
  on useless records is their limit, by \<open>useless_records_bounded\<close>.  Loops that need not end are
  \<open>partial_function (option)\<close>: \<open>post_loop\<close> and \<open>input_loop\<close> of \<open>Read\<close>, for which the lemma \<open>read_returns\<close> gives a
  result on a server for every transport of the model; \<open>parse_configs\<close>; and the two loops of P_hash, which
  \<open>Prf\<close> shows to end for a hash with a non-empty output.

  The environment.  The transport of a connection is the list of what its reads return, of any length and
  with any cuts, and the bytes written so far; when the list is used up the connection is at its end, so that
  a peer that sends for ever is represented only by all its finite beginnings.  An expired write deadline makes every
  write fail, as the package \<open>net\<close> documents.  Calls on one connection run one after the other, which is what its
  mutexes provide; the interleavings that the code allows are modelled where they matter (\<open>RealityServer\<close>,
  \<open>newCert\<close> in \<open>Caches\<close>).  Code outside the repository is a parameter: hash functions, X25519, ML-KEM,
  Ed25519, RSA, ChaCha20-Poly1305, certificates, \<open>cryptobyte\<close>; what is relied on is a hypothesis or a locale
  (\<open>cryptobyte_Builder\<close>, \<open>cryptobyte_String\<close>, \<open>ecdh_library\<close>, \<open>certificate_key\<close>, \<open>hpke_library\<close>), and each has
  an interpretation that shows it can hold.  A slice of the ClientHello beyond its length is a panic in the
  model; Go would allow it within the capacity (\<open>data[:32]\<close> of a short key share in \<open>key_exchange\<close>); the
  properties of the handshake assume a share of the right length (\<open>hello_usable\<close>).

  Not modelled: the client's handshakes and the server's TLS 1.0-1.2 handshake, which a REALITY server never runs;
  resumption, HelloRetryRequest and client certificates in the TLS 1.3 handshake, where the calls are commented
  out or behind an earlier return; QUIC; dialling, listening and logging; selection of certificates and callbacks
  of \<open>Config\<close>; the certificate generator.

  Where the code does not do what it or its comments say, a theorem says what it does: \<open>not_tls_panics\<close>,
  \<open>key_update_request_ends_writing\<close>, \<open>real_tickets_fail\<close>, \<open>ticket_keys_fresh\<close>, \<open>hpke_message_limit\<close>,
  \<open>lru_refines\<close>, \<open>useless_records_bounded\<close>, \<open>certificate12_roundtrip\<close>, \<open>ech_config_list_returns\<close>.
\<close>

end
